(* ===== verification/NetInv_Prelude.thy ===== *)
theory NetInv_Prelude
  imports Main "HOL-Library.Word" "HOL-Library.Monad_Syntax" "HOL-Library.AList"
begin

unbundle bit_operations_syntax

text \<open>
  What the components of NetInv share: the Go values the model is written in.

  \<^item> A run-time panic is the value \<open>None\<close> of an \<open>option\<close>: the type \<open>'a go\<close>. A slice
    expression or an index that leaves the slice is \<open>None\<close> (\<open>slice\<close>, \<open>idx\<close>). The model is
    stricter than Go where the capacity of a slice exceeds its length: such a read is
    \<open>None\<close> here, so "no panic" also says that nothing behind the end is read.
  \<^item> Fixed-width integers are words; \<open>encoding/binary.BigEndian\<close> is \<open>be16\<close>, \<open>be32\<close>.
  \<^item> A Go map is an association list with distinct keys. Its iteration order is the order
    of the list, so a fact proved for every list holds for every iteration order. The
    locale \<open>go_map\<close> is the interface the components use.
  \<^item> \<open>time.Time\<close> is an \<open>int\<close>, nanoseconds since 1970; its zero value is the first instant
    of the year 1.
\<close>

type_synonym byte = "8 word"
type_synonym u16 = "16 word"
type_synonym u32 = "32 word"
type_synonym u64 = "64 word"
type_synonym float64 = u64
type_synonym bytes = "byte list"
type_synonym 'a go = "'a option"

named_theorems go_reads "reads of a slice that stay inside it"
named_theorems no_panic "operations that do not panic"

subsection \<open>Slices and big-endian reads\<close>

definition slice :: "'a list \<Rightarrow> nat \<Rightarrow> nat \<Rightarrow> 'a list go" where
  "slice b lo hi = (if lo \<le> hi \<and> hi \<le> length b then Some (take (hi - lo) (drop lo b)) else None)"

definition idx :: "'a list \<Rightarrow> nat \<Rightarrow> 'a go" where
  "idx b i = (if i < length b then Some (b ! i) else None)"

definition be_word :: "bytes \<Rightarrow> 'a::len word" where
  "be_word bs = foldl (\<lambda>v c. push_bit 8 v OR ucast c) 0 bs"

definition be16 :: "bytes \<Rightarrow> u16 go" where
  "be16 b = (if 2 \<le> length b then Some (be_word (take 2 b)) else None)"

definition be32 :: "bytes \<Rightarrow> u32 go" where
  "be32 b = (if 4 \<le> length b then Some (be_word (take 4 b)) else None)"

text \<open>\<open>binary.BigEndian.Uint16(b[i:i+2])\<close> and \<open>binary.BigEndian.Uint32(b[i:i+4])\<close>.\<close>

definition rd16 :: "bytes \<Rightarrow> nat \<Rightarrow> u16 go" where
  "rd16 b i = do { s \<leftarrow> slice b i (i + 2); be16 s }"

definition rd32 :: "bytes \<Rightarrow> nat \<Rightarrow> u32 go" where
  "rd32 b i = do { s \<leftarrow> slice b i (i + 4); be32 s }"

text \<open>The values those reads have inside the slice.\<close>

definition w16 :: "bytes \<Rightarrow> nat \<Rightarrow> u16" where
  "w16 b i = be_word (take 2 (drop i b))"

definition w32 :: "bytes \<Rightarrow> nat \<Rightarrow> u32" where
  "w32 b i = be_word (take 4 (drop i b))"

text \<open>The value of a byte string as a number, and its inverse for a given width.\<close>

definition be_val :: "bytes \<Rightarrow> nat" where
  "be_val bs = foldl (\<lambda>v c. 256 * v + unat c) 0 bs"

fun be_bytes :: "nat \<Rightarrow> nat \<Rightarrow> bytes" where
  "be_bytes 0 v = []"
| "be_bytes (Suc n) v = be_bytes n (v div 256) @ [word_of_nat (v mod 256)]"

subsection \<open>Text (strings, strconv, fmt)\<close>

text \<open>\<open>strings.Split\<close> at one character, with the part read so far.\<close>

fun split_on :: "char \<Rightarrow> string \<Rightarrow> string \<Rightarrow> string list" where
  "split_on d acc [] = [acc]"
| "split_on d acc (c # cs) = (if c = d then acc # split_on d [] cs else split_on d (acc @ [c]) cs)"

text \<open>\<open>strings.TrimSpace\<close>: the code points with \<open>unicode.IsSpace\<close>, in UTF-8, are cut off at both ends.\<close>

definition space_runes :: "string list" where
  "space_runes = [[CHR 0x20], [CHR 0x09], [CHR 0x0A], [CHR 0x0B], [CHR 0x0C], [CHR 0x0D], [CHR 0xC2, CHR 0x85], [CHR 0xC2, CHR 0xA0],
     [CHR 0xE1, CHR 0x9A, CHR 0x80], [CHR 0xE2, CHR 0x80, CHR 0x80], [CHR 0xE2, CHR 0x80, CHR 0x81], [CHR 0xE2, CHR 0x80, CHR 0x82],
     [CHR 0xE2, CHR 0x80, CHR 0x83], [CHR 0xE2, CHR 0x80, CHR 0x84], [CHR 0xE2, CHR 0x80, CHR 0x85], [CHR 0xE2, CHR 0x80, CHR 0x86],
     [CHR 0xE2, CHR 0x80, CHR 0x87], [CHR 0xE2, CHR 0x80, CHR 0x88], [CHR 0xE2, CHR 0x80, CHR 0x89], [CHR 0xE2, CHR 0x80, CHR 0x8A],
     [CHR 0xE2, CHR 0x80, CHR 0xA8], [CHR 0xE2, CHR 0x80, CHR 0xA9], [CHR 0xE2, CHR 0x80, CHR 0xAF], [CHR 0xE2, CHR 0x81, CHR 0x9F],
     [CHR 0xE3, CHR 0x80, CHR 0x80]]"

primrec cut_front :: "nat \<Rightarrow> string list \<Rightarrow> string \<Rightarrow> string" where
  "cut_front 0 seqs s = s"
| "cut_front (Suc n) seqs s =
     (case find (\<lambda>q. take (length q) s = q) seqs of None \<Rightarrow> s | Some q \<Rightarrow> cut_front n seqs (drop (length q) s))"

definition TrimSpace :: "string \<Rightarrow> string" where
  "TrimSpace s =
     (let t = cut_front (length s) space_runes s in rev (cut_front (length t) (map rev space_runes) (rev t)))"

definition digit_char :: "nat \<Rightarrow> char" where
  "digit_char d = (if d < 10 then char_of (48 + d) else char_of (87 + d))"

fun nat_str :: "nat \<Rightarrow> string" where
  "nat_str n = (if n < 10 then [digit_char n] else nat_str (n div 10) @ [digit_char (n mod 10)])"

declare nat_str.simps [simp del]

fun hex_str :: "nat \<Rightarrow> string" where
  "hex_str n = (if n < 16 then [digit_char n] else hex_str (n div 16) @ [digit_char (n mod 16)])"

declare hex_str.simps [simp del]

definition hex2 :: "byte \<Rightarrow> string" where
  "hex2 c = [digit_char (unat c div 16), digit_char (unat c mod 16)]"

definition byte_char :: "byte \<Rightarrow> char" where
  "byte_char c = char_of (unat c)"

subsection \<open>Time\<close>

type_synonym gotime = int

definition zero_time :: gotime where
  "zero_time = - 62135596800000000000"

definition time_is_zero :: "gotime \<Rightarrow> bool" where
  "time_is_zero t \<longleftrightarrow> t = zero_time"

definition time_unix :: "int \<Rightarrow> int \<Rightarrow> gotime" where
  "time_unix sec nsec = sec * 1000000000 + nsec"

definition time_unix_sec :: "gotime \<Rightarrow> int" where
  "time_unix_sec t = t div 1000000000"

text \<open>\<open>Time.Sub\<close> saturates at the range of \<open>Duration\<close>, a signed 64-bit count.\<close>

definition time_sub :: "gotime \<Rightarrow> gotime \<Rightarrow> int" where
  "time_sub a b = max (- (2 ^ 63)) (min (2 ^ 63 - 1) (a - b))"

definition nanos_per_ms :: int where "nanos_per_ms = 1000000"
definition nanos_per_s :: int where "nanos_per_s = 1000000000"
definition nanos_per_min :: int where "nanos_per_min = 60000000000"

subsection \<open>Lemmas on slices\<close>

lemma slice_in [simp, go_reads]:
  "lo \<le> hi \<Longrightarrow> hi \<le> length b \<Longrightarrow> slice b lo hi = Some (take (hi - lo) (drop lo b))"
  by (simp add: slice_def)

lemma slice_out: "hi < lo \<or> length b < hi \<Longrightarrow> slice b lo hi = None"
  by (auto simp: slice_def)

lemma slice_SomeD: "slice b lo hi = Some s \<Longrightarrow> lo \<le> hi \<and> hi \<le> length b \<and> s = take (hi - lo) (drop lo b)"
  by (auto simp: slice_def split: if_splits)

lemma slice_length: "slice b lo hi = Some s \<Longrightarrow> length s = hi - lo"
  by (auto dest: slice_SomeD)

lemma idx_in [simp, go_reads]: "i < length b \<Longrightarrow> idx b i = Some (b ! i)"
  by (simp add: idx_def)

lemma rd16_in [simp, go_reads]: "i + 2 \<le> length b \<Longrightarrow> rd16 b i = Some (w16 b i)"
  by (simp add: rd16_def be16_def w16_def)

lemma rd32_in [simp, go_reads]: "i + 4 \<le> length b \<Longrightarrow> rd32 b i = Some (w32 b i)"
  by (simp add: rd32_def be32_def w32_def)

lemma rd16_Some_iff: "(\<exists>v. rd16 b i = Some v) \<longleftrightarrow> i + 2 \<le> length b"
  by (auto simp: rd16_def slice_def be16_def split: if_splits)

lemma rd32_Some_iff: "(\<exists>v. rd32 b i = Some v) \<longleftrightarrow> i + 4 \<le> length b"
  by (auto simp: rd32_def slice_def be32_def split: if_splits)

lemma w16_take: "i + 2 \<le> n \<Longrightarrow> w16 (take n b) i = w16 b i"
  by (simp add: w16_def drop_take min_def)

lemma reads_no_panic [no_panic]:
  "i < length c \<Longrightarrow> idx c i \<noteq> None" "i + 2 \<le> length b \<Longrightarrow> rd16 b i \<noteq> None"
  "i + 4 \<le> length b \<Longrightarrow> rd32 b i \<noteq> None" "lo \<le> hi \<Longrightarrow> hi \<le> length c \<Longrightarrow> slice c lo hi \<noteq> None"
  by simp_all

lemma bind_no_panic [no_panic]: "m \<noteq> None \<Longrightarrow> (\<And>v. k v \<noteq> None) \<Longrightarrow> m \<bind> k \<noteq> None"
  by auto

lemma if_no_panic [no_panic]: "(c \<Longrightarrow> a \<noteq> None) \<Longrightarrow> (\<not> c \<Longrightarrow> b \<noteq> None) \<Longrightarrow> (if c then a else b) \<noteq> None"
  by simp

subsection \<open>Lemmas on big-endian numbers\<close>

lemma be_word_Nil [simp]: "be_word [] = 0"
  by (simp add: be_word_def)

lemma be_word_snoc: "be_word (bs @ [c]) = push_bit 8 (be_word bs) OR ucast c"
  by (simp add: be_word_def)

lemma be_val_Nil [simp]: "be_val [] = 0"
  by (simp add: be_val_def)

lemma be_val_snoc [simp]: "be_val (bs @ [c]) = 256 * be_val bs + unat c"
  by (simp add: be_val_def)

lemma unat_byte_less [simp]: "unat (c :: byte) < 256"
  using unsigned_less [of c] by simp

lemma be_val_less: "be_val bs < 256 ^ length bs"
proof (induction bs rule: rev_induct)
  case Nil
  then show ?case by simp
next
  case (snoc c bs)
  have "unat c < 256" by simp
  with snoc.IH have "256 * be_val bs + unat c < 256 * 256 ^ length bs" by linarith
  then show ?case by simp
qed

lemma length_be_bytes [simp]: "length (be_bytes n v) = n"
  by (induction n arbitrary: v) auto

lemma be_val_bytes: "be_val (be_bytes n v) = v mod 256 ^ n"
proof (induction n arbitrary: v)
  case 0
  then show ?case by simp
next
  case (Suc n)
  have "unat (word_of_nat (v mod 256) :: byte) = v mod 256"
    by (simp add: unat_of_nat)
  then have "be_val (be_bytes (Suc n) v) = 256 * ((v div 256) mod 256 ^ n) + v mod 256"
    by (simp add: Suc.IH)
  also have "\<dots> = v mod (256 * 256 ^ n)"
    by (simp add: mod_mult2_eq)
  finally show ?case by simp
qed

lemma be_val_bytes_id: "v < 256 ^ n \<Longrightarrow> be_val (be_bytes n v) = v"
  by (simp add: be_val_bytes)

lemma push_or_disjoint:
  "push_bit 8 (v :: 'a::len word) OR ucast (c :: byte) = 256 * v + ucast c"
proof -
  have "push_bit 8 v AND ucast c = (0 :: 'a word)"
    by (rule bit_eqI) (auto simp: bit_simps dest: bit_imp_le_length)
  then have "push_bit 8 v OR ucast c = push_bit 8 v + (ucast c :: 'a word)"
    by (simp add: disjunctive_add_eq_or)
  then show ?thesis by (simp add: push_bit_eq_mult)
qed

lemma be_word_val: "(be_word bs :: 'a::len word) = word_of_nat (be_val bs)"
proof (induction bs rule: rev_induct)
  case Nil
  then show ?case by simp
next
  case (snoc c bs)
  have "(ucast c :: 'a word) = word_of_nat (unat c)" by simp
  then show ?case
    by (simp add: be_word_snoc push_or_disjoint snoc.IH)
qed

lemma unat_be_word: "unat (be_word bs :: 'a::len word) = be_val bs mod 2 ^ LENGTH('a)"
  by (simp add: be_word_val unat_of_nat)

lemma unat_be_word_fits:
  assumes "8 * length bs \<le> LENGTH('a)"
  shows "unat (be_word bs :: 'a::len word) = be_val bs"
proof -
  have "be_val bs < 256 ^ length bs" by (rule be_val_less)
  also have "(256::nat) ^ length bs = 2 ^ (8 * length bs)" by (simp add: power_mult)
  also have "\<dots> \<le> 2 ^ LENGTH('a)" using assms by (simp add: power_increasing)
  finally show ?thesis by (simp add: unat_be_word)
qed

lemma w16_prefix: "i + 2 \<le> length b \<Longrightarrow> w16 (b @ c) i = w16 b i"
  by (simp add: w16_def)

lemma w32_prefix: "i + 4 \<le> length b \<Longrightarrow> w32 (b @ c) i = w32 b i"
  by (simp add: w32_def)

lemma w16_append_ge: "length a \<le> i \<Longrightarrow> w16 (a @ b) i = w16 b (i - length a)"
  by (simp add: w16_def)

lemma w32_append_ge: "length a \<le> i \<Longrightarrow> w32 (a @ b) i = w32 b (i - length a)"
  by (simp add: w32_def)

subsection \<open>Decimal text is unambiguous\<close>

definition char_digit :: "char \<Rightarrow> nat" where
  "char_digit c = of_char c - 48"

definition str_nat :: "string \<Rightarrow> nat" where
  "str_nat s = foldl (\<lambda>v c. 10 * v + char_digit c) 0 s"

lemma char_digit_char: "d < 10 \<Longrightarrow> char_digit (digit_char d) = d"
  by (simp add: char_digit_def digit_char_def)

lemma str_nat_snoc: "str_nat (s @ [c]) = 10 * str_nat s + char_digit c"
  by (simp add: str_nat_def)

lemma str_nat_str: "str_nat (nat_str n) = n"
proof (induction n rule: nat_str.induct)
  case (1 n)
  show ?case
  proof (cases "n < 10")
    case True
    then show ?thesis
      by (simp add: nat_str.simps [of n] str_nat_def char_digit_char)
  next
    case False
    with 1 have "str_nat (nat_str (n div 10)) = n div 10" by simp
    with False show ?thesis
      by (simp add: nat_str.simps [of n] str_nat_snoc char_digit_char)
  qed
qed

lemma nat_str_inject [simp]: "nat_str m = nat_str n \<longleftrightarrow> m = n"
  by (metis str_nat_str)

lemma nat_str_nonempty [simp]: "nat_str n \<noteq> []"
  by (subst nat_str.simps) simp

subsection \<open>Go maps: the interface and its association-list provider\<close>

text \<open>
  \<open>get\<close>, \<open>put\<close>, \<open>del\<close> and \<open>len\<close> of a Go map, and the loop that deletes the entries
  failing a test (\<open>keep\<close>). A component that bounds a map by its \<open>len\<close> relies on these
  laws only.
\<close>

locale go_map =
  fixes get :: "'m \<Rightarrow> 'k \<Rightarrow> 'v option"
    and put :: "'k \<Rightarrow> 'v \<Rightarrow> 'm \<Rightarrow> 'm"
    and del :: "'k \<Rightarrow> 'm \<Rightarrow> 'm"
    and keep :: "('k \<Rightarrow> 'v \<Rightarrow> bool) \<Rightarrow> 'm \<Rightarrow> 'm"
    and len :: "'m \<Rightarrow> nat"
    and ok :: "'m \<Rightarrow> bool"
  assumes get_put: "get (put k v m) = (get m)(k \<mapsto> v)"
    and get_del: "ok m \<Longrightarrow> get (del k m) = (get m)(k := None)"
    and get_keep: "ok m \<Longrightarrow> get (keep P m) k =
          (case get m k of None \<Rightarrow> None | Some v \<Rightarrow> if P k v then Some v else None)"
    and finite_get: "finite (dom (get m))"
    and len_card: "ok m \<Longrightarrow> len m = card (dom (get m))"
    and ok_put: "ok m \<Longrightarrow> ok (put k v m)"
    and ok_del: "ok m \<Longrightarrow> ok (del k m)"
    and ok_keep: "ok m \<Longrightarrow> ok (keep P m)"
begin

lemma len_put_new: "ok m \<Longrightarrow> get m k = None \<Longrightarrow> len (put k v m) = Suc (len m)"
  by (simp add: len_card ok_put get_put finite_get card_insert_if domIff)

lemma len_put_old: "ok m \<Longrightarrow> get m k = Some w \<Longrightarrow> len (put k v m) = len m"
  by (simp add: len_card ok_put get_put insert_absorb domI)

lemma len_put_le: "ok m \<Longrightarrow> len (put k v m) \<le> Suc (len m)"
  by (cases "get m k") (simp_all add: len_put_new len_put_old)

lemma len_del_le: "ok m \<Longrightarrow> len (del k m) \<le> len m"
  by (simp add: len_card ok_del get_del card_mono finite_get)

lemma len_keep_le: "ok m \<Longrightarrow> len (keep P m) \<le> len m"
  by (simp add: len_card ok_keep, rule card_mono [OF finite_get])
    (auto simp: get_keep split: option.splits if_splits)

lemma get_keep_Some: "ok m \<Longrightarrow> get (keep P m) k = Some v \<longleftrightarrow> get m k = Some v \<and> P k v"
  by (auto simp: get_keep split: option.splits if_splits)

end

type_synonym ('k, 'v) gomap = "('k \<times> 'v) list"

abbreviation gm_ok :: "('k, 'v) gomap \<Rightarrow> bool" where
  "gm_ok m \<equiv> distinct (map fst m)"

abbreviation gm_keep :: "('k \<Rightarrow> 'v \<Rightarrow> bool) \<Rightarrow> ('k, 'v) gomap \<Rightarrow> ('k, 'v) gomap" where
  "gm_keep P m \<equiv> filter (\<lambda>(k, v). P k v) m"

lemma map_of_gm_keep:
  "gm_ok m \<Longrightarrow> map_of (gm_keep P m) k =
     (case map_of m k of None \<Rightarrow> None | Some v \<Rightarrow> if P k v then Some v else None)"
proof (induction m)
  case Nil
  then show ?case by simp
next
  case (Cons kv m)
  obtain k' v where kv: "kv = (k', v)" by force
  from Cons.prems kv have "k' \<notin> fst ` set m" by simp
  then have "map_of m k' = None" by (simp add: map_of_eq_None_iff)
  with Cons kv show ?case by (auto split: option.splits)
qed

lemma gm_ok_keep: "gm_ok m \<Longrightarrow> gm_ok (filter P m)"
  by (rule distinct_map_filter)

lemma length_gm_card: "gm_ok m \<Longrightarrow> length m = card (dom (map_of m))"
  using distinct_card [of "map fst m"] by (simp add: dom_map_of_conv_image_fst)

interpretation gm: go_map map_of AList.update AList.delete gm_keep length gm_ok
proof
  show "map_of (AList.update k v m) = (map_of m)(k \<mapsto> v)" for k :: 'a and v :: 'b and m
    by (rule update_conv')
  show "map_of (AList.delete k m) = (map_of m)(k := None)" for k :: 'a and m :: "('a, 'b) gomap"
    by (rule delete_conv')
  show "gm_ok (AList.update k v m)" if "gm_ok m" for k :: 'a and v :: 'b and m
    using that by (rule distinct_update)
  show "gm_ok (AList.delete k m)" if "gm_ok m" for k :: 'a and m :: "('a, 'b) gomap"
    using that by (rule distinct_delete)
qed (auto simp: map_of_gm_keep finite_dom_map_of length_gm_card gm_ok_keep)

text \<open>Two lists with distinct keys that are permutations of each other are the same map.\<close>

lemma gm_perm_lookup: "gm_ok m \<Longrightarrow> gm_ok m' \<Longrightarrow> set m = set m' \<Longrightarrow> map_of m = map_of m'"
  by (rule ext) (metis map_of_eq_Some_iff not_None_eq)

end
