(* ===== verification/Net_Addr.thy ===== *)
theory Net_Addr
  imports NetInv_Prelude
begin

unbundle bit_operations_syntax

text \<open>
  The part of Go's standard package \<open>net/netip\<close> the flow collector uses: addresses without
  zones and prefixes. \<open>AddrZero\<close> is the zero \<open>netip.Addr\<close> ("no address"), \<open>Addr4\<close> a 4-byte
  address, \<open>Addr6\<close> a 16-byte one (a 4-in-6 mapped address included). A prefix holds its
  address unmasked, as \<open>PrefixFrom\<close> does, and \<open>pfx_bits = -1\<close> is the invalid prefix.
\<close>

datatype Addr = AddrZero | Addr4 u32 | Addr6 "128 word"

datatype prefix = Pfx (pfx_ip: Addr) (pfx_bits: int)

definition addr_from_slice :: "bytes \<Rightarrow> Addr \<times> bool" where
  "addr_from_slice b =
     (if length b = 4 then (Addr4 (be_word b), True)
      else if length b = 16 then (Addr6 (be_word b), True)
      else (AddrZero, False))"

fun addr_valid :: "Addr \<Rightarrow> bool" where
  "addr_valid AddrZero = False"
| "addr_valid _ = True"

definition is4in6 :: "128 word \<Rightarrow> bool" where
  "is4in6 w \<longleftrightarrow> drop_bit 32 w = 0xFFFF"

fun addr_unmap :: "Addr \<Rightarrow> Addr" where
  "addr_unmap (Addr6 w) = (if is4in6 w then Addr4 (ucast w) else Addr6 w)"
| "addr_unmap a = a"

fun addr_unspecified :: "Addr \<Rightarrow> bool" where
  "addr_unspecified AddrZero = False"
| "addr_unspecified (Addr4 w) = (w = 0)"
| "addr_unspecified (Addr6 w) = (w = 0)"

fun addr_bitlen :: "Addr \<Rightarrow> nat" where
  "addr_bitlen AddrZero = 0"
| "addr_bitlen (Addr4 _) = 32"
| "addr_bitlen (Addr6 _) = 128"

fun addr_is6 :: "Addr \<Rightarrow> bool" where
  "addr_is6 (Addr6 _) = True"
| "addr_is6 _ = False"

fun addr_num :: "Addr \<Rightarrow> int" where
  "addr_num AddrZero = 0"
| "addr_num (Addr4 w) = uint w"
| "addr_num (Addr6 w) = uint w"

definition addr_compare :: "Addr \<Rightarrow> Addr \<Rightarrow> int" where
  "addr_compare a b =
     (if addr_bitlen a < addr_bitlen b then - 1
      else if addr_bitlen b < addr_bitlen a then 1
      else if addr_num a < addr_num b then - 1
      else if addr_num b < addr_num a then 1
      else 0)"

subsection \<open>Text\<close>

definition v4_str :: "u32 \<Rightarrow> string" where
  "v4_str w = nat_str (unat (drop_bit 24 w AND 255)) @ ''.'' @ nat_str (unat (drop_bit 16 w AND 255))
     @ ''.'' @ nat_str (unat (drop_bit 8 w AND 255)) @ ''.'' @ nat_str (unat (w AND 255))"

definition v6_groups :: "128 word \<Rightarrow> nat list" where
  "v6_groups w = map (\<lambda>i. unat (drop_bit (112 - 16 * i) w AND 0xFFFF)) [0..<8]"

text \<open>The first longest run of at least two zero groups, as (start, end); none is (255, 255).\<close>

definition zero_run :: "nat list \<Rightarrow> nat \<Rightarrow> nat" where
  "zero_run gs i = i + length (takeWhile (\<lambda>g. g = 0) (drop i gs))"

definition zero_span :: "nat list \<Rightarrow> nat \<times> nat" where
  "zero_span gs = foldl (\<lambda>(s, e) i. let j = zero_run gs i
       in if 2 \<le> j - i \<and> e - s < j - i then (i, j) else (s, e)) (255, 255) [0..<8]"

definition v6_str :: "128 word \<Rightarrow> string" where
  "v6_str w = (let gs = v6_groups w; (s, e) = zero_span gs;
       sep = (\<lambda>gs. concat (map (\<lambda>(i, g). (if i = 0 then [] else '':'') @ hex_str g) (enumerate 0 gs)))
     in if s = 255 then sep gs else sep (take s gs) @ ''::'' @ sep (drop e gs))"

fun addr_string :: "Addr \<Rightarrow> string" where
  "addr_string AddrZero = ''invalid IP''"
| "addr_string (Addr4 w) = v4_str w"
| "addr_string (Addr6 w) = (if is4in6 w then ''::ffff:'' @ v4_str (ucast w) else v6_str w)"

subsection \<open>Prefixes\<close>

definition prefix_from :: "Addr \<Rightarrow> int \<Rightarrow> prefix" where
  "prefix_from a bits =
     Pfx a (if a \<noteq> AddrZero \<and> 0 \<le> bits \<and> bits \<le> int (addr_bitlen a) then bits else - 1)"

fun addr_mask :: "Addr \<Rightarrow> nat \<Rightarrow> Addr" where
  "addr_mask AddrZero n = AddrZero"
| "addr_mask (Addr4 w) n = Addr4 (w AND NOT (mask (32 - n)))"
| "addr_mask (Addr6 w) n = Addr6 (w AND NOT (mask (128 - n)))"

text \<open>\<open>Addr.Prefix(bits)\<close>: \<open>None\<close> is the error return.\<close>

definition addr_prefix :: "Addr \<Rightarrow> int \<Rightarrow> prefix option" where
  "addr_prefix a bits =
     (if bits < 0 then None
      else if a = AddrZero then Some (Pfx AddrZero (- 1))
      else if int (addr_bitlen a) < bits then None
      else Some (prefix_from (addr_mask a (nat bits)) bits))"

definition prefix_string :: "prefix \<Rightarrow> string" where
  "prefix_string p = (if pfx_bits p < 0 then ''invalid Prefix''
     else addr_string (pfx_ip p) @ ''/'' @ nat_str (nat (pfx_bits p)))"

fun prefix_contains :: "prefix \<Rightarrow> Addr \<Rightarrow> bool" where
  "prefix_contains (Pfx (Addr4 p) n) (Addr4 a) =
     (0 \<le> n \<and> drop_bit (32 - nat n) (a XOR p) = 0)"
| "prefix_contains (Pfx (Addr6 p) n) (Addr6 a) =
     (0 \<le> n \<and> (a XOR p) AND NOT (mask (128 - nat n)) = 0)"
| "prefix_contains _ _ = False"

subsection \<open>Facts the components use\<close>

lemma addr_from_slice_valid: "snd (addr_from_slice b) \<longleftrightarrow> length b = 4 \<or> length b = 16"
  by (simp add: addr_from_slice_def)

lemma addr_from_slice_4 [simp]: "length b = 4 \<Longrightarrow> addr_from_slice b = (Addr4 (be_word b), True)"
  by (simp add: addr_from_slice_def)

lemma addr_from_slice_16 [simp]: "length b = 16 \<Longrightarrow> addr_from_slice b = (Addr6 (be_word b), True)"
  by (simp add: addr_from_slice_def)

lemma addr_unmap_valid [simp]: "addr_valid (addr_unmap a) = addr_valid a"
  by (cases a) auto

lemma addr_unmap_idem [simp]: "addr_unmap (addr_unmap a) = addr_unmap a"
  by (cases a) auto

lemma addr_eqI: "addr_bitlen a = addr_bitlen b \<Longrightarrow> addr_num a = addr_num b \<Longrightarrow> a = b"
  by (cases a; cases b) (auto simp: unsigned_word_eqI)

lemma addr_compare_le_antisym: "addr_compare a b \<le> 0 \<Longrightarrow> addr_compare b a \<le> 0 \<Longrightarrow> a = b"
  by (rule addr_eqI) (auto simp: addr_compare_def split: if_splits)

lemma addr_compare_le_total: "addr_compare a b \<le> 0 \<or> addr_compare b a \<le> 0"
  by (auto simp: addr_compare_def)

lemma addr_compare_le_trans:
  "addr_compare a b \<le> 0 \<Longrightarrow> addr_compare b c \<le> 0 \<Longrightarrow> addr_compare a c \<le> 0"
  by (auto simp: addr_compare_def split: if_splits)

lemma addr_bitlen_mask [simp]: "addr_bitlen (addr_mask a n) = addr_bitlen a"
  by (cases a) auto

lemma addr_mask_idem [simp]: "addr_mask (addr_mask a n) n = addr_mask a n"
  by (cases a) (auto simp: and.assoc)

lemma addr_mask_zero_iff [simp]: "addr_mask a n = AddrZero \<longleftrightarrow> a = AddrZero"
  by (cases a) auto

lemma xor_zero_iff: "a XOR b = 0 \<longleftrightarrow> a = (b :: 'a::len word)"
  by (metis bit.xor_cancel_right bit.xor_self xor.right_neutral xor.assoc)

lemma drop_and_not_mask: "drop_bit n (w AND NOT (mask n)) = drop_bit n (w :: 'a::len word)"
  by (rule bit_word_eqI) (auto simp: bit_simps dest: bit_imp_le_length)

lemma and_not_mask_zero_iff: "w AND NOT (mask n) = 0 \<longleftrightarrow> drop_bit n w = (0 :: 'a::len word)"
proof
  assume "w AND NOT (mask n) = 0"
  then have "drop_bit n (w AND NOT (mask n)) = 0" by simp
  then show "drop_bit n w = 0" by (simp only: drop_and_not_mask)
next
  assume "drop_bit n w = 0"
  then have "\<not> bit w (n + i)" for i
    by (metis bit_0_eq bit_drop_bit_eq bot_apply bot_bool_def comp_apply)
  then have "\<not> bit w i" if "n \<le> i" for i using that by (metis le_add_diff_inverse)
  then show "w AND NOT (mask n) = 0"
    by (intro bit_word_eqI) (auto simp: bit_simps not_less)
qed

text \<open>A prefix contains exactly the addresses of its family whose leading bits agree.\<close>

lemma prefix_contains_v4:
  "prefix_contains (Pfx (Addr4 p) n) (Addr4 a) \<longleftrightarrow>
     0 \<le> n \<and> drop_bit (32 - nat n) a = drop_bit (32 - nat n) p"
proof -
  have "drop_bit k (a XOR p) = 0 \<longleftrightarrow> drop_bit k a = drop_bit k p" for k
    by (simp add: drop_bit_xor xor_zero_iff)
  then show ?thesis by simp
qed

lemma prefix_contains_v6:
  "prefix_contains (Pfx (Addr6 p) n) (Addr6 a) \<longleftrightarrow>
     0 \<le> n \<and> drop_bit (128 - nat n) a = drop_bit (128 - nat n) p"
proof -
  have "drop_bit k (a XOR p) = 0 \<longleftrightarrow> drop_bit k a = drop_bit k p" for k
    by (simp add: drop_bit_xor xor_zero_iff)
  then show ?thesis by (simp add: and_not_mask_zero_iff)
qed

lemma prefix_contains_self:
  "addr_prefix a n = Some p \<Longrightarrow> addr_valid a \<Longrightarrow> prefix_contains p a"
  by (cases a)
    (auto simp: addr_prefix_def prefix_from_def prefix_contains_v4 prefix_contains_v6
        drop_and_not_mask simp del: prefix_contains.simps drop_bit_and split: if_splits)

end
