(* ===== verification/Flow_Decode.thy ===== *)
theory Flow_Decode
  imports Net_Addr
begin

unbundle bit_operations_syntax

text \<open>
  \<open>internal/flow/decode.go\<close>: the normalised flow record, the export packet, the errors of the
  decoders, the export clock and the NetFlow v5 decoder.

  A decoder has the type \<open>(flow_error + packet) go\<close>: \<open>None\<close> is a run-time panic, \<open>Inl\<close> an
  error return, \<open>Inr\<close> the decoded packet. The main results are that the v5 decoder equals a
  panic-free description of the wire format on every byte string, that it inverts an encoder
  of that format, and that its scaled counters do not wrap.
\<close>

record Record =
  SrcAddr :: Addr
  DstAddr :: Addr
  SrcPort :: u16
  DstPort :: u16
  Protocol :: byte
  TOS :: byte
  SrcAS :: u32
  DstAS :: u32
  SrcMask :: byte
  DstMask :: byte
  TCPFlags :: byte
  Bytes :: u64
  Packets :: u64
  InputIf :: u32
  OutputIf :: u32
  Sampled :: bool
  SamplingRate :: u32
  Start :: gotime
  End :: gotime
  SrcMAC :: u64
  DstMAC :: u64
  SrcVLAN :: u16
  DstVLAN :: u16
  NextHop :: Addr
  BGPNextHop :: Addr
  Direction :: byte
  ICMPType :: u16
  AppID :: string
  AppName :: string
  NATSrcAddr :: Addr
  NATDstAddr :: Addr
  NATSrcPort :: u16
  NATDstPort :: u16
  FWEvent :: byte
  User :: string
  Type :: string

definition record_zero :: Record where
  "record_zero = \<lparr>SrcAddr = AddrZero, DstAddr = AddrZero, SrcPort = 0, DstPort = 0, Protocol = 0,
     TOS = 0, SrcAS = 0, DstAS = 0, SrcMask = 0, DstMask = 0, TCPFlags = 0, Bytes = 0, Packets = 0,
     InputIf = 0, OutputIf = 0, Sampled = False, SamplingRate = 0, Start = zero_time,
     End = zero_time, SrcMAC = 0, DstMAC = 0, SrcVLAN = 0, DstVLAN = 0, NextHop = AddrZero,
     BGPNextHop = AddrZero, Direction = 0, ICMPType = 0, AppID = [], AppName = [],
     NATSrcAddr = AddrZero, NATDstAddr = AddrZero, NATSrcPort = 0, NATDstPort = 0, FWEvent = 0,
     User = [], Type = []\<rparr>"

record packet =
  ExporterIP :: Addr
  Records :: "Record list"

datatype flow_error =
    ErrShortPacket (Want: nat) (Got: nat)
  | ErrNotNetFlowV5 u16
  | ErrV5Count nat nat
  | ErrNotNetFlowV9 u16
  | ErrV9FlowsetLength nat nat
  | ErrNotIPFIX u16
  | ErrIPFIXHeaderLength nat
  | ErrIPFIXSetLength nat nat
  | ErrNotSFlow u32
  | ErrSFlowHeader nat
  | ErrSFlowCount u32 nat
  | ErrSFlowSample nat u32

definition netflowV5HeaderLen :: nat where "netflowV5HeaderLen = 24"
definition netflowV5RecordLen :: nat where "netflowV5RecordLen = 48"
definition netflowV5MaxRecords :: nat where "netflowV5MaxRecords = 30"

lemmas v5_consts = netflowV5HeaderLen_def netflowV5RecordLen_def netflowV5MaxRecords_def

definition Version :: "bytes \<Rightarrow> (u16 \<times> bool) go" where
  "Version b = (if length b < 2 then Some (0, False) else do { v \<leftarrow> rd16 b 0; Some (v, True) })"

subsection \<open>The export clock\<close>

record exportClock =
  uptimeMs :: u32
  unix :: gotime

definition clock_at :: "exportClock \<Rightarrow> u32 \<Rightarrow> gotime" where
  "clock_at c up =
     (if up = 0 \<or> time_is_zero (unix c) \<or> time_unix_sec (unix c) = 0 then zero_time
      else let age = sint (uptimeMs c - up) in unix c + - age * nanos_per_ms)"

subsection \<open>NetFlow v5\<close>

text \<open>The loop body of \<open>DecodeNetFlowV5\<close>; an inner \<open>None\<close> is its \<open>continue\<close>.\<close>

definition v5_record :: "exportClock \<Rightarrow> u64 \<Rightarrow> u32 \<Rightarrow> bool \<Rightarrow> bytes \<Rightarrow> nat \<Rightarrow> Record option go" where
  "v5_record clock scale rate sampled b i = do {
     let off = netflowV5HeaderLen + i * netflowV5RecordLen;
     r \<leftarrow> slice b off (off + netflowV5RecordLen);
     s \<leftarrow> slice r 0 4;
     d \<leftarrow> slice r 4 8;
     let (src, okS) = addr_from_slice s;
     let (dst, okD) = addr_from_slice d;
     if \<not> okS \<or> \<not> okD then Some None else do {
       h \<leftarrow> slice r 8 12;
       let hop0 = fst (addr_from_slice h);
       let hop = (if addr_unspecified hop0 then AddrZero else hop0);
       inIf \<leftarrow> rd16 r 12;
       outIf \<leftarrow> rd16 r 14;
       pkts \<leftarrow> rd32 r 16;
       octets \<leftarrow> rd32 r 20;
       sport \<leftarrow> rd16 r 32;
       dport \<leftarrow> rd16 r 34;
       flags \<leftarrow> idx r 37;
       proto \<leftarrow> idx r 38;
       tos \<leftarrow> idx r 39;
       sas \<leftarrow> rd16 r 40;
       das \<leftarrow> rd16 r 42;
       smask \<leftarrow> idx r 44;
       dmask \<leftarrow> idx r 45;
       first \<leftarrow> rd32 r 24;
       last \<leftarrow> rd32 r 28;
       Some (Some (record_zero\<lparr>SrcAddr := src, DstAddr := dst,
         InputIf := ucast inIf, OutputIf := ucast outIf,
         Packets := ucast pkts * scale, Bytes := ucast octets * scale,
         SrcPort := sport, DstPort := dport, TCPFlags := flags, Protocol := proto, TOS := tos,
         SrcAS := ucast sas, DstAS := ucast das, SrcMask := smask, DstMask := dmask,
         Sampled := sampled, SamplingRate := rate,
         Start := clock_at clock first, End := clock_at clock last,
         NextHop := hop, Type := ''netflow5''\<rparr>))
     }
   }"

primrec v5_records ::
  "exportClock \<Rightarrow> u64 \<Rightarrow> u32 \<Rightarrow> bool \<Rightarrow> bytes \<Rightarrow> nat list \<Rightarrow> Record list go" where
  "v5_records clock scale rate sampled b [] = Some []"
| "v5_records clock scale rate sampled b (i # is) = do {
     r \<leftarrow> v5_record clock scale rate sampled b i;
     rs \<leftarrow> v5_records clock scale rate sampled b is;
     Some (case r of None \<Rightarrow> rs | Some x \<Rightarrow> x # rs)
   }"

definition DecodeNetFlowV5 :: "bytes \<Rightarrow> Addr \<Rightarrow> (flow_error + packet) go" where
  "DecodeNetFlowV5 b from =
     (if length b < netflowV5HeaderLen then Some (Inl (ErrShortPacket netflowV5HeaderLen (length b)))
      else do {
        version \<leftarrow> rd16 b 0;
        if version \<noteq> 5 then Some (Inl (ErrNotNetFlowV5 version)) else do {
        c \<leftarrow> rd16 b 2;
        let count = unat c;
        if netflowV5MaxRecords < count then Some (Inl (ErrV5Count count netflowV5MaxRecords)) else do {
        let need = netflowV5HeaderLen + count * netflowV5RecordLen;
        if length b < need then Some (Inl (ErrShortPacket need (length b))) else do {
        up \<leftarrow> rd32 b 4;
        secs \<leftarrow> rd32 b 8;
        nsecs \<leftarrow> rd32 b 12;
        let clock = \<lparr>uptimeMs = up, unix = time_unix (uint secs) (uint nsecs)\<rparr>;
        si \<leftarrow> rd16 b 22;
        let interval = si AND 0x3FFF;
        let mode = drop_bit 14 si;
        let on = (mode \<noteq> 0 \<and> 1 < interval);
        rs \<leftarrow> v5_records clock (if on then ucast interval else 1) (if on then ucast interval else 1)
                 on b [0..<count];
        Some (Inr \<lparr>ExporterIP = from, Records = rs\<rparr>)
      }}}})"

subsection \<open>The wire format, without partial reads\<close>

definition v5_clock :: "bytes \<Rightarrow> exportClock" where
  "v5_clock b = \<lparr>uptimeMs = w32 b 4, unix = time_unix (uint (w32 b 8)) (uint (w32 b 12))\<rparr>"

definition v5_sampled :: "bytes \<Rightarrow> bool" where
  "v5_sampled b \<longleftrightarrow> drop_bit 14 (w16 b 22) \<noteq> 0 \<and> 1 < w16 b 22 AND 0x3FFF"

definition v5_rate :: "bytes \<Rightarrow> nat" where
  "v5_rate b = (if v5_sampled b then unat (w16 b 22 AND 0x3FFF) else 1)"

definition v5_wire_record :: "bytes \<Rightarrow> nat \<Rightarrow> Record" where
  "v5_wire_record b i = (let f = 24 + 48 * i; hop = w32 b (f + 8) in
     record_zero\<lparr>
       SrcAddr := Addr4 (w32 b f), DstAddr := Addr4 (w32 b (f + 4)),
       NextHop := (if hop = 0 then AddrZero else Addr4 hop),
       InputIf := ucast (w16 b (f + 12)), OutputIf := ucast (w16 b (f + 14)),
       Packets := ucast (w32 b (f + 16)) * word_of_nat (v5_rate b),
       Bytes := ucast (w32 b (f + 20)) * word_of_nat (v5_rate b),
       Start := clock_at (v5_clock b) (w32 b (f + 24)),
       End := clock_at (v5_clock b) (w32 b (f + 28)),
       SrcPort := w16 b (f + 32), DstPort := w16 b (f + 34),
       TCPFlags := b ! (f + 37), Protocol := b ! (f + 38), TOS := b ! (f + 39),
       SrcAS := ucast (w16 b (f + 40)), DstAS := ucast (w16 b (f + 42)),
       SrcMask := b ! (f + 44), DstMask := b ! (f + 45),
       Sampled := v5_sampled b, SamplingRate := word_of_nat (v5_rate b),
       Type := ''netflow5''\<rparr>)"

text \<open>Reads inside a sub-slice are reads of the whole at the shifted offset.\<close>

lemma w16_sub: "i + 2 \<le> n \<Longrightarrow> w16 (take n (drop f b)) i = w16 b (f + i)"
  by (simp add: w16_def drop_take min_def add.commute)

lemma w32_sub: "i + 4 \<le> n \<Longrightarrow> w32 (take n (drop f b)) i = w32 b (f + i)"
  by (simp add: w32_def drop_take min_def add.commute)

lemma take_sub: "i + k \<le> n \<Longrightarrow> take k (drop i (take n (drop f b))) = take k (drop (f + i) b)"
  by (simp add: drop_take min_def add.commute)

lemma v5_record_eq:
  assumes "24 + 48 * i + 48 \<le> length b"
  shows "v5_record (v5_clock b) (word_of_nat (v5_rate b)) (word_of_nat (v5_rate b)) (v5_sampled b) b i
       = Some (Some (v5_wire_record b i))"
proof -
  define f where "f = 24 + 48 * i"
  let ?r = "take 48 (drop f b)"
  have f: "f + 48 \<le> length b" using assms by (simp add: f_def)
  then have len: "length ?r = 48" by simp
  have off: "netflowV5HeaderLen + i * netflowV5RecordLen = f"
    by (simp add: v5_consts f_def mult.commute)
  have sl: "slice b f (f + netflowV5RecordLen) = Some ?r"
    using f by (simp add: v5_consts)
  have subs: "slice ?r k (k + 4) = Some (take 4 (drop (f + k) b))" if "k + 4 \<le> 48" for k
    using len that take_sub [of k 4 48 f b] by simp
  have nths: "idx ?r k = Some (b ! (f + k))" if "k < 48" for k
    using f that by (simp add: idx_def)
  have r16: "rd16 ?r k = Some (w16 b (f + k))" if "k + 2 \<le> 48" for k
    using len that by (simp add: w16_sub)
  have r32: "rd32 ?r k = Some (w32 b (f + k))" if "k + 4 \<le> 48" for k
    using len that by (simp add: w32_sub)
  have ad: "addr_from_slice (take 4 (drop (f + k) b)) = (Addr4 (w32 b (f + k)), True)"
    if "k + 4 \<le> 48" for k
    using f that by (simp add: w32_def)
  show ?thesis
    unfolding v5_record_def v5_wire_record_def off sl Let_def f_def [symmetric]
    using subs [of 0] subs [of 4] subs [of 8] ad [of 0] ad [of 4] ad [of 8]
    by (simp add: sl nths r16 r32 record_zero_def)
qed

lemma v5_records_eq:
  assumes "24 + unat (w16 b 2) * 48 \<le> length b" and "\<forall>i \<in> set is. i < unat (w16 b 2)"
  shows "v5_records (v5_clock b) (word_of_nat (v5_rate b)) (word_of_nat (v5_rate b)) (v5_sampled b) b is
       = Some (map (v5_wire_record b) is)"
  using assms(2)
proof (induction "is")
  case Nil
  then show ?case by simp
next
  case (Cons i "is")
  then have "i < unat (w16 b 2)" by simp
  with assms(1) have "24 + 48 * i + 48 \<le> length b" by simp
  with Cons show ?case by (simp add: v5_record_eq)
qed

lemma DecodeNetFlowV5_eq:
  "DecodeNetFlowV5 b from = Some (
     if length b < 24 then Inl (ErrShortPacket 24 (length b))
     else if w16 b 0 \<noteq> 5 then Inl (ErrNotNetFlowV5 (w16 b 0))
     else if 30 < unat (w16 b 2) then Inl (ErrV5Count (unat (w16 b 2)) 30)
     else if length b < 24 + unat (w16 b 2) * 48
       then Inl (ErrShortPacket (24 + unat (w16 b 2) * 48) (length b))
     else Inr \<lparr>ExporterIP = from, Records = map (v5_wire_record b) [0..<unat (w16 b 2)]\<rparr>)"
proof (cases "length b < 24 \<or> w16 b 0 \<noteq> 5 \<or> 30 < unat (w16 b 2) \<or> length b < 24 + unat (w16 b 2) * 48")
  case True
  then show ?thesis by (auto simp: DecodeNetFlowV5_def v5_consts Let_def)
next
  case False
  then have "24 + unat (w16 b 2) * 48 \<le> length b" by simp
  then have "v5_records (v5_clock b) (word_of_nat (v5_rate b)) (word_of_nat (v5_rate b)) (v5_sampled b) b
      [0..<unat (w16 b 2)] = Some (map (v5_wire_record b) [0..<unat (w16 b 2)])"
    by (rule v5_records_eq) simp
  with False show ?thesis
    by (cases "v5_sampled b")
      (auto simp: DecodeNetFlowV5_def Let_def v5_consts v5_clock_def v5_rate_def v5_sampled_def)
qed

lemma DecodeNetFlowV5_no_panic [no_panic]: "DecodeNetFlowV5 b from \<noteq> None"
  by (simp add: DecodeNetFlowV5_eq)

text \<open>
  The v5 decoder on every byte string, without a panic: which inputs are refused and with
  which error, and for the others one record per announced flow, field by field as the wire
  format lays them out.
\<close>

theorem DecodeNetFlowV5_wire:
  "DecodeNetFlowV5 b from = Some (
     if length b < 24 then Inl (ErrShortPacket 24 (length b))
     else if w16 b 0 \<noteq> 5 then Inl (ErrNotNetFlowV5 (w16 b 0))
     else if 30 < unat (w16 b 2) then Inl (ErrV5Count (unat (w16 b 2)) 30)
     else if length b < 24 + unat (w16 b 2) * 48
       then Inl (ErrShortPacket (24 + unat (w16 b 2) * 48) (length b))
     else Inr \<lparr>ExporterIP = from, Records = map (v5_wire_record b) [0..<unat (w16 b 2)]\<rparr>)"
  by (rule DecodeNetFlowV5_eq)

subsection \<open>An exporter of the v5 format and the round trip\<close>

text \<open>
  What a v5 exporter puts on the wire: the 24-byte header and a list of 48-byte records. These
  definitions are a specification of the format, not code of the repository.
\<close>

record v5_header =
  hUptime :: u32
  hSecs :: u32
  hNsecs :: u32
  hSequence :: u32
  hEngine :: u16
  hSampling :: u16

record v5_flow =
  vSrc :: u32
  vDst :: u32
  vHop :: u32
  vIn :: u16
  vOut :: u16
  vPkts :: u32
  vOctets :: u32
  vFirst :: u32
  vLast :: u32
  vSport :: u16
  vDport :: u16
  vFlags :: byte
  vProto :: byte
  vTos :: byte
  vSas :: u16
  vDas :: u16
  vSmask :: byte
  vDmask :: byte

abbreviation put16 :: "u16 \<Rightarrow> bytes" where "put16 w \<equiv> be_bytes 2 (unat w)"
abbreviation put32 :: "u32 \<Rightarrow> bytes" where "put32 w \<equiv> be_bytes 4 (unat w)"

definition v5_flow_bytes :: "v5_flow \<Rightarrow> bytes" where
  "v5_flow_bytes v = put32 (vSrc v) @ put32 (vDst v) @ put32 (vHop v) @ put16 (vIn v) @ put16 (vOut v)
     @ put32 (vPkts v) @ put32 (vOctets v) @ put32 (vFirst v) @ put32 (vLast v)
     @ put16 (vSport v) @ put16 (vDport v) @ [0, vFlags v, vProto v, vTos v]
     @ put16 (vSas v) @ put16 (vDas v) @ [vSmask v, vDmask v, 0, 0]"

definition v5_bytes :: "v5_header \<Rightarrow> v5_flow list \<Rightarrow> bytes" where
  "v5_bytes h vs = (put16 5 @ put16 (word_of_nat (length vs)) @ put32 (hUptime h) @ put32 (hSecs h)
     @ put32 (hNsecs h) @ put32 (hSequence h) @ put16 (hEngine h) @ put16 (hSampling h))
     @ concat (map v5_flow_bytes vs)"

definition v5_flow_record :: "v5_header \<Rightarrow> v5_flow \<Rightarrow> Record" where
  "v5_flow_record h v =
     (let on = (drop_bit 14 (hSampling h) \<noteq> 0 \<and> 1 < hSampling h AND 0x3FFF);
          n = (if on then hSampling h AND 0x3FFF else 1);
          c = \<lparr>uptimeMs = hUptime h, unix = time_unix (uint (hSecs h)) (uint (hNsecs h))\<rparr>
      in record_zero\<lparr>
       SrcAddr := Addr4 (vSrc v), DstAddr := Addr4 (vDst v),
       NextHop := (if vHop v = 0 then AddrZero else Addr4 (vHop v)),
       InputIf := ucast (vIn v), OutputIf := ucast (vOut v),
       Packets := ucast (vPkts v) * ucast n, Bytes := ucast (vOctets v) * ucast n,
       Start := clock_at c (vFirst v), End := clock_at c (vLast v),
       SrcPort := vSport v, DstPort := vDport v,
       TCPFlags := vFlags v, Protocol := vProto v, TOS := vTos v,
       SrcAS := ucast (vSas v), DstAS := ucast (vDas v), SrcMask := vSmask v, DstMask := vDmask v,
       Sampled := on, SamplingRate := ucast n, Type := ''netflow5''\<rparr>)"

lemma be_word_bytes: "v < 256 ^ n \<Longrightarrow> (be_word (be_bytes n v) :: 'a::len word) = word_of_nat v"
  by (simp add: be_word_val be_val_bytes_id)

lemma be_word_put16 [simp]: "(be_word (put16 w) :: u16) = w"
  using unsigned_less [of w] by (subst be_word_bytes) simp_all

lemma be_word_put32 [simp]: "(be_word (put32 w) :: u32) = w"
  using unsigned_less [of w] by (subst be_word_bytes) simp_all

lemma length_v5_flow_bytes [simp]: "length (v5_flow_bytes v) = 48"
  by (simp add: v5_flow_bytes_def)

lemma length_concat_const: "\<forall>x \<in> set xs. length (f x) = n \<Longrightarrow> length (concat (map f xs)) = n * length xs"
  by (induction xs) auto

lemma take_drop_concat_const:
  assumes "\<forall>x \<in> set xs. length (f x) = n" and "i < length xs"
  shows "take n (drop (n * i) (concat (map f xs))) = f (xs ! i)"
  using assms
proof (induction xs arbitrary: i)
  case Nil
  then show ?case by simp
next
  case (Cons x xs)
  then show ?case by (cases i) (auto simp: mult_Suc_right)
qed

lemma length_v5_bytes: "length (v5_bytes h vs) = 24 + 48 * length vs"
  by (simp add: v5_bytes_def length_concat_const [where n = 48])

lemma v5_bytes_header:
  "w16 (v5_bytes h vs) 0 = 5" "w16 (v5_bytes h vs) 2 = word_of_nat (length vs)"
  "w32 (v5_bytes h vs) 4 = hUptime h" "w32 (v5_bytes h vs) 8 = hSecs h"
  "w32 (v5_bytes h vs) 12 = hNsecs h" "w16 (v5_bytes h vs) 22 = hSampling h"
  using be_word_put16 [of 5] by (simp_all add: v5_bytes_def w16_def w32_def)

lemma v5_bytes_flow:
  assumes "i < length vs"
  shows "take 48 (drop (24 + 48 * i) (v5_bytes h vs)) = v5_flow_bytes (vs ! i)"
  using assms by (simp add: v5_bytes_def take_drop_concat_const)

lemma v5_flow_bytes_fields:
  "w32 (v5_flow_bytes v) 0 = vSrc v" "w32 (v5_flow_bytes v) 4 = vDst v"
  "w32 (v5_flow_bytes v) 8 = vHop v" "w16 (v5_flow_bytes v) 12 = vIn v"
  "w16 (v5_flow_bytes v) 14 = vOut v" "w32 (v5_flow_bytes v) 16 = vPkts v"
  "w32 (v5_flow_bytes v) 20 = vOctets v" "w32 (v5_flow_bytes v) 24 = vFirst v"
  "w32 (v5_flow_bytes v) 28 = vLast v" "w16 (v5_flow_bytes v) 32 = vSport v"
  "w16 (v5_flow_bytes v) 34 = vDport v" "v5_flow_bytes v ! 37 = vFlags v"
  "v5_flow_bytes v ! 38 = vProto v" "v5_flow_bytes v ! 39 = vTos v"
  "w16 (v5_flow_bytes v) 40 = vSas v" "w16 (v5_flow_bytes v) 42 = vDas v"
  "v5_flow_bytes v ! 44 = vSmask v" "v5_flow_bytes v ! 45 = vDmask v"
  by (simp_all add: v5_flow_bytes_def w16_def w32_def nth_append)

lemma v5_wire_record_bytes:
  assumes "i < length vs"
  shows "v5_wire_record (v5_bytes h vs) i = v5_flow_record h (vs ! i)"
proof -
  let ?b = "v5_bytes h vs" and ?v = "vs ! i"
  define f where "f = 24 + 48 * i"
  have "f + 48 \<le> length ?b" using assms by (simp add: f_def length_v5_bytes)
  moreover have r: "take 48 (drop f ?b) = v5_flow_bytes ?v"
    unfolding f_def using assms by (rule v5_bytes_flow)
  ultimately have nth: "?b ! (f + k) = v5_flow_bytes ?v ! k" if "k < 48" for k
    using that by (simp flip: r)
  have r16: "w16 ?b (f + k) = w16 (v5_flow_bytes ?v) k" if "k + 2 \<le> 48" for k
    using that by (simp flip: r add: w16_sub)
  have r32: "w32 ?b (f + k) = w32 (v5_flow_bytes ?v) k" if "k + 4 \<le> 48" for k
    using that by (simp flip: r add: w32_sub)
  note r0 = r32 [of 0, simplified]
  show ?thesis
    unfolding v5_wire_record_def v5_flow_record_def Let_def f_def [symmetric]
    by (simp add: nth r16 r32 r0 v5_flow_bytes_fields v5_sampled_def v5_rate_def v5_clock_def
        v5_bytes_header record_zero_def)
qed

text \<open>
  Decoding what an exporter encoded: for every header and every list of at most 30 flows
  the decoder returns those flows, in order, with the sampling factor applied.
\<close>

theorem DecodeNetFlowV5_roundtrip:
  assumes "length vs \<le> 30"
  shows "DecodeNetFlowV5 (v5_bytes h vs) from
       = Some (Inr \<lparr>ExporterIP = from, Records = map (v5_flow_record h) vs\<rparr>)"
proof -
  have "unat (word_of_nat (length vs) :: u16) = length vs"
    using assms by (simp add: unat_of_nat)
  then have "DecodeNetFlowV5 (v5_bytes h vs) from
      = Some (Inr \<lparr>ExporterIP = from, Records = map (v5_wire_record (v5_bytes h vs)) [0..<length vs]\<rparr>)"
    using assms by (simp add: DecodeNetFlowV5_eq v5_bytes_header length_v5_bytes)
  moreover have "map (v5_wire_record (v5_bytes h vs)) [0..<length vs]
      = map (\<lambda>i. v5_flow_record h (vs ! i)) [0..<length vs]"
    by (simp add: v5_wire_record_bytes)
  moreover have "map (\<lambda>i. v5_flow_record h (vs ! i)) [0..<length vs] = map (v5_flow_record h) vs"
    by (rule nth_equalityI) simp_all
  ultimately show ?thesis by simp
qed

definition ex_v5_header :: v5_header where
  "ex_v5_header = \<lparr>hUptime = 90000, hSecs = 1754000000, hNsecs = 500000000, hSequence = 7,
     hEngine = 0, hSampling = 0x4064\<rparr>"

definition ex_v5_flow :: v5_flow where
  "ex_v5_flow = \<lparr>vSrc = 0x0A000001, vDst = 0xC0A80102, vHop = 0, vIn = 3, vOut = 4, vPkts = 10,
     vOctets = 1500, vFirst = 80000, vLast = 89000, vSport = 40000, vDport = 443, vFlags = 0x1B,
     vProto = 6, vTos = 0, vSas = 0, vDas = 0, vSmask = 24, vDmask = 24\<rparr>"

theorem DecodeNetFlowV5_roundtrip_witness:
  "DecodeNetFlowV5 (v5_bytes ex_v5_header [ex_v5_flow, ex_v5_flow]) (Addr4 0x0A0000FE)
     = Some (Inr \<lparr>ExporterIP = Addr4 0x0A0000FE,
         Records = map (v5_flow_record ex_v5_header) [ex_v5_flow, ex_v5_flow]\<rparr>)
   \<and> Bytes (v5_flow_record ex_v5_header ex_v5_flow) = 150000"
proof
  show "DecodeNetFlowV5 (v5_bytes ex_v5_header [ex_v5_flow, ex_v5_flow]) (Addr4 0x0A0000FE)
     = Some (Inr \<lparr>ExporterIP = Addr4 0x0A0000FE,
         Records = map (v5_flow_record ex_v5_header) [ex_v5_flow, ex_v5_flow]\<rparr>)"
    by (rule DecodeNetFlowV5_roundtrip) simp
  show "Bytes (v5_flow_record ex_v5_header ex_v5_flow) = 150000"
    by (simp add: v5_flow_record_def ex_v5_header_def ex_v5_flow_def Let_def)
qed

subsection \<open>Counters and clock\<close>

lemma v5_rate_less: "v5_rate b < 2 ^ 14"
proof -
  have "unat (w16 b 22 AND 0x3FFF) \<le> unat (0x3FFF :: u16)"
    by (rule word_and_le1 [THEN word_le_nat_alt [THEN iffD1]])
  then show ?thesis by (simp add: v5_rate_def)
qed

lemma unat_ucast_times:
  "n < 2 ^ 32 \<Longrightarrow> unat (ucast (w :: u32) * (word_of_nat n :: u64)) = unat w * n"
proof -
  assume n: "n < 2 ^ 32"
  have "unat w * n < 2 ^ 32 * 2 ^ 32"
    using unsigned_less [of w] n by (intro mult_strict_mono') simp_all
  moreover have "ucast w * word_of_nat n = (word_of_nat (unat w * n) :: u64)"
    by simp
  ultimately show ?thesis by (simp only: unat_of_nat) simp
qed

lemma v5_wire_counters:
  "unat (Bytes (v5_wire_record b i)) = unat (w32 b (44 + 48 * i)) * v5_rate b"
  "unat (Packets (v5_wire_record b i)) = unat (w32 b (40 + 48 * i)) * v5_rate b"
proof -
  have "v5_rate b < 2 ^ 32" by (rule less_trans [OF v5_rate_less]) simp
  then show "unat (Bytes (v5_wire_record b i)) = unat (w32 b (44 + 48 * i)) * v5_rate b"
    "unat (Packets (v5_wire_record b i)) = unat (w32 b (40 + 48 * i)) * v5_rate b"
    by (simp_all add: v5_wire_record_def Let_def unat_ucast_times)
qed

lemma v5_decoded_nth:
  assumes "DecodeNetFlowV5 b from = Some (Inr p)" and "i < length (Records p)"
  shows "Records p ! i = v5_wire_record b i"
  using assms by (auto simp: DecodeNetFlowV5_eq split: if_splits)

text \<open>
  The 64-bit counters of a decoded v5 record are the 32-bit wire counters times the sampling
  interval, as numbers: the product never wraps, whatever the datagram says.
\<close>

theorem v5_counters_exact:
  assumes "DecodeNetFlowV5 b from = Some (Inr p)" and "i < length (Records p)"
  shows "unat (Bytes (Records p ! i)) = unat (w32 b (44 + 48 * i)) * v5_rate b
       \<and> unat (Packets (Records p ! i)) = unat (w32 b (40 + 48 * i)) * v5_rate b
       \<and> 1 \<le> v5_rate b"
proof -
  have "1 \<le> v5_rate b"
    by (auto simp: v5_rate_def v5_sampled_def word_less_nat_alt)
  with assms show ?thesis by (simp add: v5_decoded_nth v5_wire_counters)
qed

theorem v5_counters_exact_witness:
  "unat (Bytes (Records \<lparr>ExporterIP = AddrZero, Records = [v5_flow_record ex_v5_header ex_v5_flow]\<rparr> ! 0))
     = unat (w32 (v5_bytes ex_v5_header [ex_v5_flow]) 44) * v5_rate (v5_bytes ex_v5_header [ex_v5_flow])"
proof -
  have "DecodeNetFlowV5 (v5_bytes ex_v5_header [ex_v5_flow]) AddrZero
      = Some (Inr \<lparr>ExporterIP = AddrZero, Records = [v5_flow_record ex_v5_header ex_v5_flow]\<rparr>)"
    by (simp add: DecodeNetFlowV5_eq v5_bytes_header length_v5_bytes v5_wire_record_bytes)
  from v5_counters_exact [OF this, of 0] show ?thesis by simp
qed

text \<open>
  The export clock is right across the 49.7-day wrap of the exporter's millisecond counter:
  if the true uptimes of the header and of the flow's packet are less than \<open>2^31\<close> ms apart (in
  either direction), the wall-clock time is the header's time less the true age.
\<close>

theorem clock_at_wrap:
  assumes "- (2 ^ 31) \<le> sysUp - flowUp" and "sysUp - flowUp < 2 ^ 31"
    and "(word_of_int flowUp :: u32) \<noteq> 0"
    and "\<not> time_is_zero u" and "time_unix_sec u \<noteq> 0"
  shows "clock_at \<lparr>uptimeMs = word_of_int sysUp, unix = u\<rparr> (word_of_int flowUp)
       = u - (sysUp - flowUp) * 1000000"
proof -
  have "sint (word_of_int sysUp - word_of_int flowUp :: u32) = sint (word_of_int (sysUp - flowUp) :: u32)"
    by simp
  also have "\<dots> = signed_take_bit 31 (sysUp - flowUp)"
    by (simp only: sint_sbintrunc') simp
  also have "\<dots> = sysUp - flowUp"
    using assms(1,2) by (intro signed_take_bit_int_eq_self) simp_all
  finally show ?thesis using assms(3-5) by (simp add: clock_at_def nanos_per_ms_def)
qed

theorem clock_at_wrap_witness:
  "clock_at \<lparr>uptimeMs = word_of_int (2 ^ 32 + 500), unix = 1754000000000000000\<rparr> (word_of_int (2 ^ 32 - 1500))
     = 1754000000000000000 - 2000 * 1000000"
  using clock_at_wrap [of "2 ^ 32 + 500" "2 ^ 32 - 1500" "1754000000000000000"]
  by (simp add: time_is_zero_def zero_time_def time_unix_sec_def)

end
