(* ===== verification/Flow_Template.thy ===== *)
theory Flow_Template
  imports Flow_Decode
begin

text \<open>
  The template cache of \<open>internal/flow/netflow9.go\<close>: the layouts exporters announced, bounded in
  number and expiring, and the sampling intervals learned from options data. Every method runs
  under the cache's mutex, so each is one step of the state; \<open>get\<close> is a step too, since it
  deletes an expired template.

  The invariant \<open>wf_cache\<close> (at most \<open>max()\<close> templates, each well-formed) is kept by every
  operation. The locale \<open>template_store\<close> states what the v9 and IPFIX decoders rely on, and is
  interpreted on \<open>tc_put\<close>, \<open>tc_get\<close>.
\<close>

record templateField =
  ftyp :: u16
  flen :: u16
  enterprise :: u32

definition varLength :: u16 where "varLength = 0xFFFF"

definition variable :: "templateField \<Rightarrow> bool" where
  "variable f \<longleftrightarrow> flen f = varLength"

record template =
  tfields :: "templateField list"
  recordLen :: nat
  hasVarLen :: bool
  scopeFields :: nat
  seen :: gotime

definition template_empty :: template where
  "template_empty = \<lparr>tfields = [], recordLen = 0, hasVarLen = False, scopeFields = 0, seen = zero_time\<rparr>"

definition isOptions :: "template \<Rightarrow> bool" where
  "isOptions t \<longleftrightarrow> 0 < scopeFields t"

record templateKey =
  tkExporter :: Addr
  tkSourceID :: u32
  tkId :: u16
  tkVersion :: u16

record samplingKey =
  skExporter :: Addr
  skSourceID :: u32

record TemplateCache =
  TTL :: int
  Max :: int
  templates :: "(templateKey, template) gomap"
  sampling :: "(samplingKey, u32) gomap"

definition DefaultTemplateTTL :: int where "DefaultTemplateTTL = 60 * nanos_per_min"
definition DefaultMaxTemplates :: nat where "DefaultMaxTemplates = 10000"

definition NewTemplateCache :: TemplateCache where
  "NewTemplateCache = \<lparr>TTL = DefaultTemplateTTL, Max = int DefaultMaxTemplates,
     templates = [], sampling = []\<rparr>"

definition tc_ttl :: "TemplateCache \<Rightarrow> int" where
  "tc_ttl tc = (if 0 < TTL tc then TTL tc else DefaultTemplateTTL)"

definition tc_max :: "TemplateCache \<Rightarrow> nat" where
  "tc_max tc = (if 0 < Max tc then nat (Max tc) else DefaultMaxTemplates)"

definition expired :: "TemplateCache \<Rightarrow> gotime \<Rightarrow> template \<Rightarrow> bool" where
  "expired tc now t \<longleftrightarrow> tc_ttl tc < time_sub now (seen t)"

definition expireLocked :: "gotime \<Rightarrow> TemplateCache \<Rightarrow> TemplateCache" where
  "expireLocked now tc = tc\<lparr>templates := gm_keep (\<lambda>k t. \<not> expired tc now t) (templates tc)\<rparr>"

definition tc_put :: "templateKey \<Rightarrow> template \<Rightarrow> gotime \<Rightarrow> TemplateCache \<Rightarrow> TemplateCache" where
  "tc_put k t now tc =
     (let store = (\<lambda>c. c\<lparr>templates := AList.update k (t\<lparr>seen := now\<rparr>) (templates c)\<rparr>) in
      if map_of (templates tc) k = None \<and> tc_max tc \<le> length (templates tc)
      then let tc' = expireLocked now tc in
           if tc_max tc' \<le> length (templates tc') then tc' else store tc'
      else store tc)"

definition tc_get :: "templateKey \<Rightarrow> gotime \<Rightarrow> TemplateCache \<Rightarrow> template option \<times> TemplateCache" where
  "tc_get k now tc =
     (case map_of (templates tc) k of
        None \<Rightarrow> (None, tc)
      | Some t \<Rightarrow>
          if expired tc now t then (None, tc\<lparr>templates := AList.delete k (templates tc)\<rparr>)
          else (Some t, tc))"

definition tc_len :: "TemplateCache \<Rightarrow> nat" where
  "tc_len tc = length (templates tc)"

definition putSampling :: "samplingKey \<Rightarrow> u32 \<Rightarrow> TemplateCache \<Rightarrow> TemplateCache" where
  "putSampling k iv tc = tc\<lparr>sampling := AList.update k iv (sampling tc)\<rparr>"

definition getSampling :: "samplingKey \<Rightarrow> TemplateCache \<Rightarrow> u32" where
  "getSampling k tc = (case map_of (sampling tc) k of None \<Rightarrow> 0 | Some iv \<Rightarrow> iv)"

subsection \<open>Invariant\<close>

text \<open>
  A stored template of fixed-width records has the width of its fields together as its record
  length, and that is not zero; a stored template is never empty.
\<close>

definition field_widths :: "templateField list \<Rightarrow> nat" where
  "field_widths fs = sum_list (map (\<lambda>f. unat (flen f)) fs)"

definition wf_template :: "template \<Rightarrow> bool" where
  "wf_template t \<longleftrightarrow> tfields t \<noteq> [] \<and>
     (\<not> hasVarLen t \<longrightarrow> 0 < recordLen t \<and> recordLen t = field_widths (tfields t))"

definition wf_cache :: "TemplateCache \<Rightarrow> bool" where
  "wf_cache tc \<longleftrightarrow> gm_ok (templates tc) \<and> length (templates tc) \<le> tc_max tc \<and>
     (\<forall>(k, t) \<in> set (templates tc). wf_template t) \<and> gm_ok (sampling tc)"

lemma wf_template_seen [simp]: "wf_template (t\<lparr>seen := now\<rparr>) = wf_template t"
  by (simp add: wf_template_def)

lemma wf_cacheD:
  assumes "wf_cache tc"
  shows "gm_ok (templates tc)" "length (templates tc) \<le> tc_max tc" "gm_ok (sampling tc)"
    "map_of (templates tc) k = Some t \<Longrightarrow> wf_template t"
  using assms by (auto simp: wf_cache_def dest!: map_of_SomeD)

lemma wf_cache_lookupI:
  assumes "gm_ok (templates tc)" "length (templates tc) \<le> tc_max tc" "gm_ok (sampling tc)"
    and "\<And>k t. map_of (templates tc) k = Some t \<Longrightarrow> wf_template t"
  shows "wf_cache tc"
  using assms by (auto simp: wf_cache_def)

lemma tc_max_templates [simp]: "tc_max (tc\<lparr>templates := m\<rparr>) = tc_max tc"
  "tc_max (tc\<lparr>sampling := s\<rparr>) = tc_max tc"
  by (simp_all add: tc_max_def)

lemma tc_max_pos: "0 < tc_max tc"
  by (simp add: tc_max_def DefaultMaxTemplates_def)

lemma expired_templates [simp]: "expired (tc\<lparr>templates := m\<rparr>) = expired tc"
  by (simp add: expired_def tc_ttl_def fun_eq_iff)

lemma expireLocked_simps [simp]:
  "tc_max (expireLocked now tc) = tc_max tc" "sampling (expireLocked now tc) = sampling tc"
  "TTL (expireLocked now tc) = TTL tc" "Max (expireLocked now tc) = Max tc"
  by (simp_all add: expireLocked_def)

lemma lookup_expireLocked:
  "gm_ok (templates tc) \<Longrightarrow> map_of (templates (expireLocked now tc)) k = Some t \<longleftrightarrow>
     map_of (templates tc) k = Some t \<and> \<not> expired tc now t"
  by (simp add: expireLocked_def gm.get_keep_Some)

lemma wf_NewTemplateCache: "wf_cache NewTemplateCache"
  by (simp add: wf_cache_def NewTemplateCache_def)

lemma wf_expireLocked:
  assumes "wf_cache tc"
  shows "wf_cache (expireLocked now tc)"
proof (rule wf_cache_lookupI)
  note d = wf_cacheD [OF assms]
  show "gm_ok (templates (expireLocked now tc))"
    using d(1) by (simp add: expireLocked_def gm_ok_keep)
  show "length (templates (expireLocked now tc)) \<le> tc_max (expireLocked now tc)"
    using le_trans [OF gm.len_keep_le [OF d(1)] d(2)] by (simp add: expireLocked_def)
  show "gm_ok (sampling (expireLocked now tc))" using d(3) by simp
  show "wf_template t" if "map_of (templates (expireLocked now tc)) k = Some t" for k t
    using that d(4) [of k t] by (simp add: lookup_expireLocked [OF d(1)])
qed

lemma wf_store:
  assumes "wf_cache tc" and "wf_template t"
    and "map_of (templates tc) k \<noteq> None \<or> length (templates tc) < tc_max tc"
  shows "wf_cache (tc\<lparr>templates := AList.update k (t\<lparr>seen := now\<rparr>) (templates tc)\<rparr>)"
proof (rule wf_cache_lookupI)
  note d = wf_cacheD [OF assms(1)]
  let ?m = "AList.update k (t\<lparr>seen := now\<rparr>) (templates tc)"
  show "gm_ok (templates (tc\<lparr>templates := ?m\<rparr>))" using d(1) by (simp add: distinct_update)
  have "length ?m \<le> tc_max tc"
    using assms(3) d(1,2) gm.len_put_le [OF d(1), of k "t\<lparr>seen := now\<rparr>"]
    by (cases "map_of (templates tc) k") (auto simp: gm.len_put_old)
  then show "length (templates (tc\<lparr>templates := ?m\<rparr>)) \<le> tc_max (tc\<lparr>templates := ?m\<rparr>)" by simp
  show "gm_ok (sampling (tc\<lparr>templates := ?m\<rparr>))" using d(3) by simp
  show "wf_template t'" if "map_of (templates (tc\<lparr>templates := ?m\<rparr>)) k' = Some t'" for k' t'
    using that assms(2) d(4) [of k' t'] by (auto simp: update_conv' split: if_splits)
qed

lemma wf_tc_put:
  assumes "wf_cache tc" and "wf_template t"
  shows "wf_cache (tc_put k t now tc)"
  using assms wf_expireLocked [OF assms(1), of now]
  by (auto simp: tc_put_def Let_def intro!: wf_store)

lemma wf_tc_get:
  assumes "wf_cache tc"
  shows "wf_cache (snd (tc_get k now tc))"
proof (cases "map_of (templates tc) k")
  case None
  with assms show ?thesis by (simp add: tc_get_def)
next
  case (Some t)
  note d = wf_cacheD [OF assms]
  have "wf_cache (tc\<lparr>templates := AList.delete k (templates tc)\<rparr>)"
    using d gm.len_del_le [OF d(1), of k]
    by (intro wf_cache_lookupI) (auto simp: distinct_delete delete_conv' split: if_splits)
  with assms Some show ?thesis by (simp add: tc_get_def)
qed

lemma tc_get_wf_template:
  "wf_cache tc \<Longrightarrow> fst (tc_get k now tc) = Some t \<Longrightarrow> wf_template t"
  by (auto simp: tc_get_def wf_cacheD(4) split: option.splits if_splits)

lemma wf_putSampling: "wf_cache tc \<Longrightarrow> wf_cache (putSampling k iv tc)"
  by (auto simp: wf_cache_def putSampling_def distinct_update)

subsection \<open>The contract the decoders rely on\<close>

text \<open>
  A decoder announces layouts with \<open>put\<close> and reads them with \<open>get\<close>. It relies on the invariant
  being kept, on every layout it gets being well-formed, and on a layout of another key being
  forgotten only by expiry. \<open>announce\<close> is what a template set does: one \<open>put\<close> after another.
\<close>

locale template_store =
  fixes put :: "'k \<Rightarrow> 't \<Rightarrow> gotime \<Rightarrow> 'c \<Rightarrow> 'c"
    and get :: "'k \<Rightarrow> gotime \<Rightarrow> 'c \<Rightarrow> 't option \<times> 'c"
    and inv :: "'c \<Rightarrow> bool"
    and good :: "'t \<Rightarrow> bool"
  assumes inv_put: "inv c \<Longrightarrow> good t \<Longrightarrow> inv (put k t now c)"
    and inv_get: "inv c \<Longrightarrow> inv (snd (get k now c))"
    and get_good: "inv c \<Longrightarrow> fst (get k now c) = Some t \<Longrightarrow> good t"
    and put_other: "inv c \<Longrightarrow> k' \<noteq> k \<Longrightarrow> fst (get k' now c) = Some t' \<Longrightarrow>
          fst (get k' now (put k t now c)) = Some t'"
begin

lemma inv_announce: "inv c \<Longrightarrow> \<forall>(k, t) \<in> set kts. good t \<Longrightarrow>
    inv (fold (\<lambda>(k, t). put k t now) kts c)"
  by (induction kts arbitrary: c) (auto simp: inv_put)

lemma announce_other:
  assumes "inv c" and "\<forall>(k, t) \<in> set kts. good t \<and> k \<noteq> k'" and "fst (get k' now c) = Some t'"
  shows "fst (get k' now (fold (\<lambda>(k, t). put k t now) kts c)) = Some t'"
  using assms
proof (induction kts arbitrary: c)
  case Nil
  then show ?case by simp
next
  case (Cons kt kts)
  obtain k t where kt: "kt = (k, t)" by force
  have "inv (put k t now c)" and "fst (get k' now (put k t now c)) = Some t'"
    using Cons.prems kt by (auto intro: inv_put put_other)
  with Cons kt show ?case by simp
qed

end

lemma lookup_tc_put_other:
  assumes "wf_cache tc" and "k' \<noteq> k" and "map_of (templates tc) k' = Some t'" and "\<not> expired tc now t'"
  shows "map_of (templates (tc_put k t now tc)) k' = Some t'"
  using assms lookup_expireLocked [OF wf_cacheD(1) [OF assms(1)], of now k' t']
  by (auto simp: tc_put_def Let_def update_conv')

lemma expired_tc_put [simp]: "expired (tc_put k t now tc) = expired tc"
  by (simp add: tc_put_def Let_def expired_def tc_ttl_def fun_eq_iff)

lemma tc_get_Some_iff:
  "fst (tc_get k now tc) = Some t \<longleftrightarrow> map_of (templates tc) k = Some t \<and> \<not> expired tc now t"
  by (auto simp: tc_get_def split: option.splits)

interpretation tcache: template_store tc_put tc_get wf_cache wf_template
proof
  show "wf_cache (tc_put k t now c)" if "wf_cache c" "wf_template t" for c t k now
    using that by (rule wf_tc_put)
  show "wf_cache (snd (tc_get k now c))" if "wf_cache c" for c k now
    using that by (rule wf_tc_get)
  show "wf_template t" if "wf_cache c" "fst (tc_get k now c) = Some t" for c k now t
    using that by (rule tc_get_wf_template)
  show "fst (tc_get k' now (tc_put k t now c)) = Some t'"
    if "wf_cache c" "k' \<noteq> k" "fst (tc_get k' now c) = Some t'" for c k' k now t' t
    using that by (auto simp: tc_get_Some_iff intro: lookup_tc_put_other)
qed

subsection \<open>The cache as a state machine\<close>

text \<open>The operations the decoders perform on a cache, in any order and at any times.\<close>

inductive tc_step :: "TemplateCache \<Rightarrow> TemplateCache \<Rightarrow> bool" where
  put: "wf_template t \<Longrightarrow> tc_step tc (tc_put k t now tc)"
| get: "tc_step tc (snd (tc_get k now tc))"
| sampling: "tc_step tc (putSampling k iv tc)"

inductive tc_reachable :: "TemplateCache \<Rightarrow> bool" where
  start: "tc_reachable NewTemplateCache"
| step: "tc_reachable tc \<Longrightarrow> tc_step tc tc' \<Longrightarrow> tc_reachable tc'"

lemma tc_step_wf: "tc_step tc tc' \<Longrightarrow> wf_cache tc \<Longrightarrow> wf_cache tc'"
  by (induction rule: tc_step.induct) (auto intro: wf_tc_put wf_tc_get wf_putSampling)

lemma tc_step_max: "tc_step tc tc' \<Longrightarrow> tc_max tc' = tc_max tc"
  by (induction rule: tc_step.induct)
    (auto simp: tc_put_def tc_get_def putSampling_def Let_def tc_max_def split: option.splits)

lemma tc_reachable_wf: "tc_reachable tc \<Longrightarrow> wf_cache tc \<and> tc_max tc = 10000"
proof (induction rule: tc_reachable.induct)
  case start
  then show ?case
    by (simp add: wf_NewTemplateCache) (simp add: NewTemplateCache_def tc_max_def DefaultMaxTemplates_def)
next
  case (step tc tc')
  then show ?case by (simp add: tc_step_wf tc_step_max)
qed

text \<open>
  C34. Whatever templates are announced, looked up and sampled, in any order, the cache never
  holds more than 10000 templates, holds one per key, and every template it holds is well-formed
  (so that reading a data set with it stays inside the set).
\<close>

theorem template_cache_bounded:
  assumes "tc_reachable tc"
  shows "tc_len tc \<le> 10000 \<and> distinct (map fst (templates tc)) \<and>
    (\<forall>k t. map_of (templates tc) k = Some t \<longrightarrow> wf_template t)"
  using tc_reachable_wf [OF assms] by (auto simp: tc_len_def wf_cache_def dest!: map_of_SomeD)

definition ex_key :: templateKey where
  "ex_key = \<lparr>tkExporter = Addr4 0x0A000001, tkSourceID = 0, tkId = 256, tkVersion = 9\<rparr>"

definition ex_template :: template where
  "ex_template = \<lparr>tfields = [\<lparr>ftyp = 8, flen = 4, enterprise = 0\<rparr>, \<lparr>ftyp = 12, flen = 4, enterprise = 0\<rparr>],
     recordLen = 8, hasVarLen = False, scopeFields = 0, seen = zero_time\<rparr>"

lemma wf_ex_template: "wf_template ex_template"
  by (simp add: wf_template_def ex_template_def field_widths_def)

theorem template_cache_bounded_witness:
  "tc_len (tc_put ex_key ex_template 0 NewTemplateCache) \<le> 10000 \<and>
   templates (tc_put ex_key ex_template 0 NewTemplateCache) = [(ex_key, ex_template\<lparr>seen := 0\<rparr>)]"
proof -
  have "tc_reachable (tc_put ex_key ex_template 0 NewTemplateCache)"
    by (rule tc_reachable.step [OF tc_reachable.start tc_step.put [OF wf_ex_template]])
  note template_cache_bounded [OF this]
  then show ?thesis by (simp add: tc_put_def NewTemplateCache_def DefaultMaxTemplates_def tc_max_def)
qed

text \<open>
  What a lookup returns after an announcement. The announced layout replaces the one its key
  had and is what the next lookup at that time returns, unless the key is new and the cache is
  full of unexpired templates: then it is refused, and nothing live is evicted.
\<close>

theorem tc_get_after_put:
  assumes "wf_cache tc"
  shows "fst (tc_get k now (tc_put k t now tc)) =
    (if map_of (templates tc) k = None
        \<and> tc_max tc \<le> length (filter (\<lambda>(k, t). \<not> expired tc now t) (templates tc))
     then None else Some (t\<lparr>seen := now\<rparr>))"
proof -
  let ?live = "filter (\<lambda>(k, t). \<not> expired tc now t) (templates tc)"
  have ttl: "0 < tc_ttl tc" by (simp add: tc_ttl_def DefaultTemplateTTL_def nanos_per_min_def)
  then have fresh: "\<not> expired tc now (t\<lparr>seen := now\<rparr>)" by (simp add: expired_def time_sub_def)
  have le: "tc_max tc \<le> length (templates tc)" if "tc_max tc \<le> length ?live"
    using that length_filter_le by (rule le_trans)
  have "map_of ?live k = None" if "map_of (templates tc) k = None"
    using that by (simp add: map_of_gm_keep wf_cacheD(1) [OF assms])
  with fresh show ?thesis
    by (auto simp: tc_put_def tc_get_def Let_def update_conv' expireLocked_def dest: le)
qed

theorem tc_get_after_put_witness:
  "fst (tc_get ex_key 5 (tc_put ex_key ex_template 5 NewTemplateCache)) = Some (ex_template\<lparr>seen := 5\<rparr>)"
  using tc_get_after_put [OF wf_NewTemplateCache, of ex_key 5 ex_template]
  by (simp add: NewTemplateCache_def tc_max_def DefaultMaxTemplates_def)

text \<open>
  An announcement under one key never takes a live template of another key away: an
  attacker who fills the cache cannot evict a working exporter's layout.
\<close>

theorem tc_put_keeps_live:
  assumes "wf_cache tc" and "k' \<noteq> k" and "fst (tc_get k' now tc) = Some t'"
  shows "fst (tc_get k' now (tc_put k t now tc)) = Some t'"
  using assms by (rule tcache.put_other)

theorem tc_put_keeps_live_witness:
  "fst (tc_get ex_key 7 (tc_put (ex_key\<lparr>tkId := 300\<rparr>) ex_template 7
      (tc_put ex_key ex_template 5 NewTemplateCache))) = Some (ex_template\<lparr>seen := 5\<rparr>)"
proof -
  let ?tc = "tc_put ex_key ex_template 5 NewTemplateCache"
  have "wf_cache ?tc" by (rule wf_tc_put [OF wf_NewTemplateCache wf_ex_template])
  moreover have "ex_key \<noteq> ex_key\<lparr>tkId := 300\<rparr>" by (simp add: ex_key_def)
  moreover have "fst (tc_get ex_key 7 ?tc) = Some (ex_template\<lparr>seen := 5\<rparr>)"
    by (simp add: tc_put_def tc_get_def NewTemplateCache_def DefaultMaxTemplates_def tc_max_def
        expired_def tc_ttl_def DefaultTemplateTTL_def nanos_per_min_def time_sub_def)
  ultimately show ?thesis by (rule tc_put_keeps_live)
qed

end
