(* ===== verification/Flow_Fields.thy ===== *)
theory Flow_Fields
  imports Flow_Template
begin

unbundle bit_operations_syntax

text \<open>
  The field mapping shared by NetFlow v9 and IPFIX (\<open>internal/flow/netflow9.go\<close>): numbers of any
  declared width, narrowing, text, timestamps, and the switch that stores one field value into a
  record. The switch is a chain of tests in the order of the source; a value of a field type that
  is not listed leaves the record alone.
\<close>

subsection \<open>Numbers\<close>

definition beUint :: "bytes \<Rightarrow> u64" where
  "beUint b = foldl (\<lambda>v c. push_bit 8 v OR ucast c) 0 b"

definition narrow8 :: "u64 \<Rightarrow> byte" where
  "narrow8 v = (if 0xFF < v then 0 else ucast v)"

definition narrow16 :: "u64 \<Rightarrow> u16" where
  "narrow16 v = (if 0xFFFF < v then 0 else ucast v)"

definition narrow32 :: "u64 \<Rightarrow> u32" where
  "narrow32 v = (if 0xFFFFFFFF < v then 0 else ucast v)"

text \<open>\<open>unixAt\<close>: the product is a 64-bit multiplication read as signed.\<close>

definition unixAt :: "u64 \<Rightarrow> int \<Rightarrow> gotime" where
  "unixAt v unit =
     (if v = 0 \<or> (2 ^ 62) div unit < uint v then zero_time
      else time_unix 0 (sint (v * word_of_int unit)))"

definition addrOrZero :: "bytes \<Rightarrow> Addr" where
  "addrOrZero b = (let (a, ok) = addr_from_slice b in
     if \<not> ok \<or> addr_unspecified a then AddrZero else addr_unmap a)"

subsection \<open>Text\<close>

definition appID :: "bytes \<Rightarrow> string" where
  "appID b = (case b of
       [] \<Rightarrow> []
     | e # sel \<Rightarrow>
         if sel = [] then []
         else if length b \<le> 9 then nat_str (unat e) @ '':'' @ nat_str (unat (beUint sel))
         else nat_str (unat e) @ '':'' @ concat (map hex2 sel))"

text \<open>
  The width of the rune a byte string starts with, 0 when it starts with an invalid byte:
  \<open>utf8.DecodeRune\<close>, with the accepted ranges of the second byte.
\<close>

definition is_cont :: "byte \<Rightarrow> bool" where
  "is_cont c \<longleftrightarrow> 0x80 \<le> c \<and> c \<le> 0xBF"

definition rune_lead :: "byte \<Rightarrow> nat" where
  "rune_lead a = (if a < 0x80 then 1 else if 0xC2 \<le> a \<and> a \<le> 0xDF then 2
     else if 0xE0 \<le> a \<and> a \<le> 0xEF then 3 else if 0xF0 \<le> a \<and> a \<le> 0xF4 then 4 else 0)"

definition accept2 :: "byte \<Rightarrow> byte \<Rightarrow> bool" where
  "accept2 a b \<longleftrightarrow>
     (if a = 0xE0 then 0xA0 else if a = 0xF0 then 0x90 else 0x80) \<le> b \<and>
     b \<le> (if a = 0xED then 0x9F else if a = 0xF4 then 0x8F else 0xBF)"

definition rune_len :: "bytes \<Rightarrow> nat" where
  "rune_len s = (case s of [] \<Rightarrow> 0 | a # s1 \<Rightarrow>
     if rune_lead a = 1 then 1
     else if rune_lead a = 2 then
       (case s1 of b # _ \<Rightarrow> if accept2 a b then 2 else 0 | _ \<Rightarrow> 0)
     else if rune_lead a = 3 then
       (case s1 of b # c # _ \<Rightarrow> if accept2 a b \<and> is_cont c then 3 else 0 | _ \<Rightarrow> 0)
     else if rune_lead a = 4 then
       (case s1 of b # c # d # _ \<Rightarrow> if accept2 a b \<and> is_cont c \<and> is_cont d then 4 else 0 | _ \<Rightarrow> 0)
     else 0)"

function toValidUTF8 :: "bytes \<Rightarrow> bytes" where
  "toValidUTF8 b =
     (if b = [] then []
      else if rune_len b = 0 then toValidUTF8 (tl b)
      else take (rune_len b) b @ toValidUTF8 (drop (rune_len b) b))"
  by pat_completeness auto
termination
  by (relation "measure length") (auto simp: diff_less)

declare toValidUTF8.simps [simp del]

definition text_bytes :: "bytes \<Rightarrow> bytes" where
  "text_bytes b = toValidUTF8 (take 128 (takeWhile (\<lambda>c. c \<noteq> 0) b))"

definition text_str :: "bytes \<Rightarrow> string" where
  "text_str b = map byte_char (text_bytes b)"

subsection \<open>Field types\<close>

abbreviation fInBytes :: u16 where "fInBytes \<equiv> 1"
abbreviation fInPkts :: u16 where "fInPkts \<equiv> 2"
abbreviation fProtocol :: u16 where "fProtocol \<equiv> 4"
abbreviation fTOS :: u16 where "fTOS \<equiv> 5"
abbreviation fTCPFlags :: u16 where "fTCPFlags \<equiv> 6"
abbreviation fSrcPort :: u16 where "fSrcPort \<equiv> 7"
abbreviation fSrcAddrV4 :: u16 where "fSrcAddrV4 \<equiv> 8"
abbreviation fSrcMask :: u16 where "fSrcMask \<equiv> 9"
abbreviation fInputSNMP :: u16 where "fInputSNMP \<equiv> 10"
abbreviation fDstPort :: u16 where "fDstPort \<equiv> 11"
abbreviation fDstAddrV4 :: u16 where "fDstAddrV4 \<equiv> 12"
abbreviation fDstMask :: u16 where "fDstMask \<equiv> 13"
abbreviation fOutputSNMP :: u16 where "fOutputSNMP \<equiv> 14"
abbreviation fSrcAS :: u16 where "fSrcAS \<equiv> 16"
abbreviation fDstAS :: u16 where "fDstAS \<equiv> 17"
abbreviation fOutBytes :: u16 where "fOutBytes \<equiv> 23"
abbreviation fOutPkts :: u16 where "fOutPkts \<equiv> 24"
abbreviation fSrcAddrV6 :: u16 where "fSrcAddrV6 \<equiv> 27"
abbreviation fDstAddrV6 :: u16 where "fDstAddrV6 \<equiv> 28"
abbreviation fSrcMaskV6 :: u16 where "fSrcMaskV6 \<equiv> 29"
abbreviation fDstMaskV6 :: u16 where "fDstMaskV6 \<equiv> 30"
abbreviation fSamplingInterval :: u16 where "fSamplingInterval \<equiv> 34"
abbreviation fSamplerRandomInt :: u16 where "fSamplerRandomInt \<equiv> 50"
abbreviation fSamplerInterval :: u16 where "fSamplerInterval \<equiv> 305"
abbreviation fNextHopV4 :: u16 where "fNextHopV4 \<equiv> 15"
abbreviation fBGPNextHopV4 :: u16 where "fBGPNextHopV4 \<equiv> 18"
abbreviation fLastSwitched :: u16 where "fLastSwitched \<equiv> 21"
abbreviation fFirstSwitched :: u16 where "fFirstSwitched \<equiv> 22"
abbreviation fICMPTypeV4 :: u16 where "fICMPTypeV4 \<equiv> 32"
abbreviation fInSrcMAC :: u16 where "fInSrcMAC \<equiv> 56"
abbreviation fOutDstMAC :: u16 where "fOutDstMAC \<equiv> 57"
abbreviation fSrcVLAN :: u16 where "fSrcVLAN \<equiv> 58"
abbreviation fDstVLAN :: u16 where "fDstVLAN \<equiv> 59"
abbreviation fDirection :: u16 where "fDirection \<equiv> 61"
abbreviation fNextHopV6 :: u16 where "fNextHopV6 \<equiv> 62"
abbreviation fBGPNextHopV6 :: u16 where "fBGPNextHopV6 \<equiv> 63"
abbreviation fInDstMAC :: u16 where "fInDstMAC \<equiv> 80"
abbreviation fOutSrcMAC :: u16 where "fOutSrcMAC \<equiv> 81"
abbreviation fApplicationID :: u16 where "fApplicationID \<equiv> 95"
abbreviation fAppName :: u16 where "fAppName \<equiv> 96"
abbreviation fICMPTypeV6 :: u16 where "fICMPTypeV6 \<equiv> 139"
abbreviation fStartSeconds :: u16 where "fStartSeconds \<equiv> 150"
abbreviation fEndSeconds :: u16 where "fEndSeconds \<equiv> 151"
abbreviation fStartMillis :: u16 where "fStartMillis \<equiv> 152"
abbreviation fEndMillis :: u16 where "fEndMillis \<equiv> 153"
abbreviation fSysInitMillis :: u16 where "fSysInitMillis \<equiv> 160"
abbreviation fNATSrcV4 :: u16 where "fNATSrcV4 \<equiv> 225"
abbreviation fNATDstV4 :: u16 where "fNATDstV4 \<equiv> 226"
abbreviation fNATSrcPort :: u16 where "fNATSrcPort \<equiv> 227"
abbreviation fNATDstPort :: u16 where "fNATDstPort \<equiv> 228"
abbreviation fFirewallEvent :: u16 where "fFirewallEvent \<equiv> 233"
abbreviation fDot1qVLAN :: u16 where "fDot1qVLAN \<equiv> 243"
abbreviation fNATSrcV6 :: u16 where "fNATSrcV6 \<equiv> 281"
abbreviation fNATDstV6 :: u16 where "fNATDstV6 \<equiv> 282"
abbreviation fUserName :: u16 where "fUserName \<equiv> 371"
abbreviation fASAUserName :: u16 where "fASAUserName \<equiv> 40000"
abbreviation fASAFWEvent :: u16 where "fASAFWEvent \<equiv> 40005"

subsection \<open>Storing one field\<close>

text \<open>
  The variables of the closure in \<open>readFlowData\<close>: the record and the values resolved after its
  loop.
\<close>

record fieldState =
  cur :: Record
  inlineSampling :: u64
  firstUp :: u64
  lastUp :: u64
  sysInit :: u64

definition readRawField :: "u16 \<Rightarrow> bytes \<Rightarrow> fieldState \<Rightarrow> fieldState" where
  "readRawField ty val s = (let r = cur s in
     if ty = fFirstSwitched then s\<lparr>firstUp := beUint val\<rparr>
     else if ty = fLastSwitched then s\<lparr>lastUp := beUint val\<rparr>
     else if ty = fSysInitMillis then s\<lparr>sysInit := beUint val\<rparr>
     else if ty = fStartSeconds then s\<lparr>cur := r\<lparr>Start := unixAt (beUint val) nanos_per_s\<rparr>\<rparr>
     else if ty = fEndSeconds then s\<lparr>cur := r\<lparr>End := unixAt (beUint val) nanos_per_s\<rparr>\<rparr>
     else if ty = fStartMillis then s\<lparr>cur := r\<lparr>Start := unixAt (beUint val) nanos_per_ms\<rparr>\<rparr>
     else if ty = fEndMillis then s\<lparr>cur := r\<lparr>End := unixAt (beUint val) nanos_per_ms\<rparr>\<rparr>
     else if ty = fInSrcMAC \<or> ty = fOutSrcMAC then
       (if length val = 6 \<and> SrcMAC r = 0 then s\<lparr>cur := r\<lparr>SrcMAC := beUint val\<rparr>\<rparr> else s)
     else if ty = fInDstMAC \<or> ty = fOutDstMAC then
       (if length val = 6 \<and> DstMAC r = 0 then s\<lparr>cur := r\<lparr>DstMAC := beUint val\<rparr>\<rparr> else s)
     else if ty = fSrcVLAN \<or> ty = fDot1qVLAN then
       s\<lparr>cur := r\<lparr>SrcVLAN := narrow16 (beUint val) AND 0x0FFF\<rparr>\<rparr>
     else if ty = fDstVLAN then s\<lparr>cur := r\<lparr>DstVLAN := narrow16 (beUint val) AND 0x0FFF\<rparr>\<rparr>
     else if ty = fNextHopV4 \<or> ty = fNextHopV6 then s\<lparr>cur := r\<lparr>NextHop := addrOrZero val\<rparr>\<rparr>
     else if ty = fBGPNextHopV4 \<or> ty = fBGPNextHopV6 then s\<lparr>cur := r\<lparr>BGPNextHop := addrOrZero val\<rparr>\<rparr>
     else if ty = fDirection then
       (if val \<noteq> [] \<and> last val \<le> 1 then s\<lparr>cur := r\<lparr>Direction := last val + 1\<rparr>\<rparr> else s)
     else if ty = fICMPTypeV4 \<or> ty = fICMPTypeV6 then s\<lparr>cur := r\<lparr>ICMPType := narrow16 (beUint val)\<rparr>\<rparr>
     else if ty = fApplicationID then s\<lparr>cur := r\<lparr>AppID := appID val\<rparr>\<rparr>
     else if ty = fAppName then s\<lparr>cur := r\<lparr>AppName := text_str val\<rparr>\<rparr>
     else if ty = fNATSrcV4 \<or> ty = fNATSrcV6 then s\<lparr>cur := r\<lparr>NATSrcAddr := addrOrZero val\<rparr>\<rparr>
     else if ty = fNATDstV4 \<or> ty = fNATDstV6 then s\<lparr>cur := r\<lparr>NATDstAddr := addrOrZero val\<rparr>\<rparr>
     else if ty = fNATSrcPort then s\<lparr>cur := r\<lparr>NATSrcPort := narrow16 (beUint val)\<rparr>\<rparr>
     else if ty = fNATDstPort then s\<lparr>cur := r\<lparr>NATDstPort := narrow16 (beUint val)\<rparr>\<rparr>
     else if ty = fFirewallEvent \<or> ty = fASAFWEvent then s\<lparr>cur := r\<lparr>FWEvent := narrow8 (beUint val)\<rparr>\<rparr>
     else if ty = fUserName \<or> ty = fASAUserName then s\<lparr>cur := r\<lparr>User := text_str val\<rparr>\<rparr>
     else s)"

text \<open>The loop body of the closure in \<open>readFlowData\<close>.\<close>

definition readField :: "templateField \<Rightarrow> bytes \<Rightarrow> fieldState \<Rightarrow> fieldState" where
  "readField f val s = (let r = cur s; ty = ftyp f in
     if enterprise f \<noteq> 0 then s
     else if ty = fInBytes \<or> ty = fOutBytes then s\<lparr>cur := r\<lparr>Bytes := Bytes r + beUint val\<rparr>\<rparr>
     else if ty = fInPkts \<or> ty = fOutPkts then s\<lparr>cur := r\<lparr>Packets := Packets r + beUint val\<rparr>\<rparr>
     else if ty = fProtocol then (if val \<noteq> [] then s\<lparr>cur := r\<lparr>Protocol := last val\<rparr>\<rparr> else s)
     else if ty = fSrcPort then s\<lparr>cur := r\<lparr>SrcPort := narrow16 (beUint val)\<rparr>\<rparr>
     else if ty = fDstPort then s\<lparr>cur := r\<lparr>DstPort := narrow16 (beUint val)\<rparr>\<rparr>
     else if ty = fInputSNMP then s\<lparr>cur := r\<lparr>InputIf := narrow32 (beUint val)\<rparr>\<rparr>
     else if ty = fOutputSNMP then s\<lparr>cur := r\<lparr>OutputIf := narrow32 (beUint val)\<rparr>\<rparr>
     else if ty = fSrcAddrV4 \<or> ty = fSrcAddrV6 then
       (case addr_from_slice val of (a, ok) \<Rightarrow> if ok then s\<lparr>cur := r\<lparr>SrcAddr := addr_unmap a\<rparr>\<rparr> else s)
     else if ty = fDstAddrV4 \<or> ty = fDstAddrV6 then
       (case addr_from_slice val of (a, ok) \<Rightarrow> if ok then s\<lparr>cur := r\<lparr>DstAddr := addr_unmap a\<rparr>\<rparr> else s)
     else if ty = fTOS then (if val \<noteq> [] then s\<lparr>cur := r\<lparr>TOS := last val\<rparr>\<rparr> else s)
     else if ty = fTCPFlags then (if val \<noteq> [] then s\<lparr>cur := r\<lparr>TCPFlags := last val\<rparr>\<rparr> else s)
     else if ty = fSrcMask \<or> ty = fSrcMaskV6 then s\<lparr>cur := r\<lparr>SrcMask := narrow8 (beUint val)\<rparr>\<rparr>
     else if ty = fDstMask \<or> ty = fDstMaskV6 then s\<lparr>cur := r\<lparr>DstMask := narrow8 (beUint val)\<rparr>\<rparr>
     else if ty = fSrcAS then s\<lparr>cur := r\<lparr>SrcAS := narrow32 (beUint val)\<rparr>\<rparr>
     else if ty = fDstAS then s\<lparr>cur := r\<lparr>DstAS := narrow32 (beUint val)\<rparr>\<rparr>
     else if ty = fSamplingInterval \<or> ty = fSamplerRandomInt \<or> ty = fSamplerInterval
       then s\<lparr>inlineSampling := beUint val\<rparr>
     else readRawField ty val s)"

text \<open>What the closure does after its loop: inline sampling, then the timestamps.\<close>

definition scaleInline :: "fieldState \<Rightarrow> fieldState" where
  "scaleInline s = (let r = cur s; n = inlineSampling s in
     if 1 < n \<and> n \<le> 0xFFFFFFFF
     then s\<lparr>cur := r\<lparr>Bytes := Bytes r * n, Packets := Packets r * n, Sampled := True,
                    SamplingRate := ucast n\<rparr>\<rparr>
     else s)"

definition resolveTimes :: "exportClock \<Rightarrow> fieldState \<Rightarrow> Record" where
  "resolveTimes clock s = (let r = cur s in
     if 0 < sysInit s then
       (let boot = sint (sysInit s) * nanos_per_ms;
            r1 = (if 0 < firstUp s
                  then r\<lparr>Start := boot + uint (narrow32 (firstUp s)) * nanos_per_ms\<rparr> else r)
        in if 0 < lastUp s
           then r1\<lparr>End := boot + uint (narrow32 (lastUp s)) * nanos_per_ms\<rparr> else r1)
     else if time_is_zero (Start r) \<and> time_is_zero (End r) then
       r\<lparr>Start := clock_at clock (narrow32 (firstUp s)), End := clock_at clock (narrow32 (lastUp s))\<rparr>
     else r)"

text \<open>
  The closure: one record's field values (as many as the template has fields, which is how
  \<open>eachRecord\<close> makes them) to a flow, or to nothing when it has no addresses.
\<close>

definition flowRecord :: "template \<Rightarrow> exportClock \<Rightarrow> string \<Rightarrow> bytes list \<Rightarrow> Record option" where
  "flowRecord t clock ty vals =
     (let s0 = \<lparr>cur = record_zero\<lparr>Type := ty\<rparr>, inlineSampling = 0, firstUp = 0, lastUp = 0, sysInit = 0\<rparr>;
          s1 = fold (\<lambda>(f, v). readField f v) (zip (tfields t) vals) s0;
          r = resolveTimes clock (scaleInline s1)
      in if \<not> addr_valid (SrcAddr r) \<or> \<not> addr_valid (DstAddr r) then None else Some r)"

subsection \<open>Numbers read at any width\<close>

lemma beUint_be_word: "beUint b = be_word b"
  by (simp add: beUint_def be_word_def)

lemma unat_beUint: "unat (beUint b) = be_val b mod 2 ^ 64"
  by (simp add: beUint_be_word unat_be_word)

lemma unat_narrow:
  "unat (narrow8 v) = (if unat v < 2 ^ 8 then unat v else 0)"
  "unat (narrow16 v) = (if unat v < 2 ^ 16 then unat v else 0)"
  "unat (narrow32 v) = (if unat v < 2 ^ 32 then unat v else 0)"
  by (auto simp: narrow8_def narrow16_def narrow32_def word_less_nat_alt unsigned_ucast_eq
      take_bit_nat_eq_self)

text \<open>
  Fields of any declared width are read exactly or not at all: a value of at most 8 bytes is
  read as the number it encodes, and narrowing it to 8, 16 or 32 bits keeps it when it fits and
  gives 0 (unknown) when it does not; it never yields the low bytes of a larger number.
\<close>

theorem narrow_exact:
  assumes "length val \<le> 8"
  shows "unat (beUint val) = be_val val
    \<and> unat (narrow8 (beUint val)) = (if be_val val < 2 ^ 8 then be_val val else 0)
    \<and> unat (narrow16 (beUint val)) = (if be_val val < 2 ^ 16 then be_val val else 0)
    \<and> unat (narrow32 (beUint val)) = (if be_val val < 2 ^ 32 then be_val val else 0)"
proof -
  have "unat (beUint val) = be_val val"
    using assms by (simp add: beUint_be_word unat_be_word_fits)
  then show ?thesis by (simp add: unat_narrow)
qed

theorem narrow_exact_witness:
  "unat (beUint [1, 0, 80]) = be_val [1, 0, 80] \<and> narrow16 (beUint [1, 0, 80]) = 0"
  using narrow_exact [of "[1, 0, 80]"] by (simp add: be_val_def unat_eq_zero)

lemma unixAt_exact:
  assumes "0 < unit" and "unit < 2 ^ 63"
  shows "unixAt v unit = (if v = 0 \<or> 2 ^ 62 div unit < uint v then zero_time else uint v * unit)"
proof (cases "v = 0 \<or> 2 ^ 62 div unit < uint v")
  case True
  then show ?thesis by (simp add: unixAt_def)
next
  case False
  then have "uint v \<le> 2 ^ 62 div unit" by simp
  then have "uint v * unit \<le> (2 ^ 62 div unit) * unit" using assms(1) by (simp add: mult_right_mono)
  also have "\<dots> \<le> 2 ^ 62" using pos_mod_sign [OF assms(1), of "2 ^ 62"] div_mult_mod_eq [of "2 ^ 62" unit] by linarith
  finally have le: "uint v * unit \<le> 2 ^ 62" .
  have nonneg: "0 \<le> uint v * unit" using assms(1) by simp
  have "v * word_of_int unit = (word_of_int (uint v * unit) :: u64)" by simp
  then have "sint (v * word_of_int unit) = signed_take_bit 63 (uint v * unit)"
    by (simp only: sint_sbintrunc') simp
  also have "\<dots> = uint v * unit"
    using le nonneg by (intro signed_take_bit_int_eq_self) simp_all
  finally show ?thesis using False by (simp add: unixAt_def time_unix_def)
qed

subsection \<open>Text\<close>

function valid_utf8 :: "bytes \<Rightarrow> bool" where
  "valid_utf8 b = (if b = [] then True else if rune_len b = 0 then False
     else valid_utf8 (drop (rune_len b) b))"
  by pat_completeness auto
termination
  by (relation "measure length") (auto simp: diff_less)

declare valid_utf8.simps [simp del]

lemma utf8_Nil [simp]: "toValidUTF8 [] = []" "valid_utf8 []"
  by (simp_all add: toValidUTF8.simps valid_utf8.simps)

lemma rune_len_le: "rune_len b \<le> length b"
  by (auto simp: rune_len_def split: list.splits)

lemma rune_len_prefix: "rune_len b \<noteq> 0 \<Longrightarrow> rune_len (take (rune_len b) b @ c) = rune_len b"
  by (cases b; cases "tl b"; cases "tl (tl b)"; cases "tl (tl (tl b))")
    (simp_all add: rune_len_def split: if_splits)

lemma takeWhile_nonzero: "0 \<notin> set b \<Longrightarrow> takeWhile (\<lambda>c. c \<noteq> 0) b = b"
  by (auto simp: takeWhile_eq_all_conv)

lemma valid_utf8_toValidUTF8: "valid_utf8 (toValidUTF8 b)"
proof (induction b rule: toValidUTF8.induct)
  case (1 b)
  consider "b = []" | "b \<noteq> []" "rune_len b = 0" | "b \<noteq> []" "rune_len b \<noteq> 0" by blast
  then show ?case
  proof cases
    case 1
    then show ?thesis by simp
  next
    case 2
    with "1.IH"(1) show ?thesis by (simp add: toValidUTF8.simps [of b])
  next
    case 3
    let ?r = "take (rune_len b) b @ toValidUTF8 (drop (rune_len b) b)"
    have "rune_len ?r = rune_len b" using 3(2) by (rule rune_len_prefix)
    moreover have "drop (rune_len b) ?r = toValidUTF8 (drop (rune_len b) b)"
      by (simp add: rune_len_le)
    ultimately have "valid_utf8 ?r"
      using 3 "1.IH"(2) by (subst valid_utf8.simps) simp
    with 3 show ?thesis by (simp add: toValidUTF8.simps [of b])
  qed
qed

lemma toValidUTF8_id: "valid_utf8 b \<Longrightarrow> toValidUTF8 b = b"
proof (induction b rule: valid_utf8.induct)
  case (1 b)
  show ?case
  proof (cases "b = []")
    case True
    then show ?thesis by simp
  next
    case False
    with "1.prems" have "rune_len b \<noteq> 0" "valid_utf8 (drop (rune_len b) b)"
      by (simp_all add: valid_utf8.simps [of b] split: if_splits)
    with False "1.IH" show ?thesis by (simp add: toValidUTF8.simps [of b])
  qed
qed

lemma toValidUTF8_length: "length (toValidUTF8 b) \<le> length b"
proof (induction b rule: toValidUTF8.induct)
  case (1 b)
  then show ?case
    by (cases "b = []"; cases "rune_len b = 0")
      (use rune_len_le [of b] in \<open>auto simp: toValidUTF8.simps [of b]\<close>)
qed

lemma toValidUTF8_set: "set (toValidUTF8 b) \<subseteq> set b"
proof (induction b rule: toValidUTF8.induct)
  case (1 b)
  then show ?case
    by (cases "b = []"; cases "rune_len b = 0")
      (auto simp: toValidUTF8.simps [of b] dest: in_set_takeD in_set_dropD list.set_sel(2))
qed

lemma text_bytes_id: "length b \<le> 128 \<Longrightarrow> 0 \<notin> set b \<Longrightarrow> valid_utf8 b \<Longrightarrow> text_bytes b = b"
  by (simp add: text_bytes_def toValidUTF8_id takeWhile_nonzero)

text \<open>
  A text field off the wire is stored as at most 128 bytes of valid UTF-8 without a NUL, and a
  value that already is such text is stored unchanged, with any NUL padding behind it dropped.
\<close>

theorem text_safe:
  "length (text_bytes b) \<le> 128 \<and> 0 \<notin> set (text_bytes b) \<and> valid_utf8 (text_bytes b)
   \<and> text_bytes (text_bytes b) = text_bytes b
   \<and> text_bytes (text_bytes b @ replicate n 0) = text_bytes b"
proof -
  let ?c = "take 128 (takeWhile (\<lambda>c. c \<noteq> 0) b)"
  have len: "length (text_bytes b) \<le> 128"
    unfolding text_bytes_def using toValidUTF8_length [of ?c] by simp
  have "0 \<notin> set ?c" by (auto dest!: in_set_takeD set_takeWhileD)
  then have nul: "0 \<notin> set (text_bytes b)"
    unfolding text_bytes_def using toValidUTF8_set [of ?c] by blast
  have ok: "valid_utf8 (text_bytes b)" unfolding text_bytes_def by (rule valid_utf8_toValidUTF8)
  have "takeWhile (\<lambda>c. c \<noteq> 0) (text_bytes b @ replicate n 0) = text_bytes b"
    using nul by (cases n) (auto simp: takeWhile_append takeWhile_nonzero)
  then have "text_bytes (text_bytes b @ replicate n 0) = text_bytes b"
    using len ok by (simp add: text_bytes_def [of "_ @ _"] toValidUTF8_id)
  with len nul ok show ?thesis by (simp add: text_bytes_id)
qed

end
