(* ===== verification/Flow_Data.thy ===== *)
theory Flow_Data
  imports Flow_Fields
begin

unbundle bit_operations_syntax

text \<open>
  Walking a data set with its template (\<open>eachRecord\<close>, \<open>readFlowData\<close>, \<open>readOptionsData\<close> of
  \<open>internal/flow/netflow9.go\<close>). \<open>eachRecord\<close> calls a function on each record's field values; the
  model returns the list of those calls' arguments, in order. The loops end because each record
  consumes at least one byte.

  Shown: with a well-formed template no byte outside the set is read (no panic), and a set that
  was written record by record, with fixed-width or RFC 7011 variable-length fields, is split
  back into exactly the values that were written.
\<close>

subsection \<open>Records of fixed width\<close>

primrec fixed_vals :: "bytes \<Rightarrow> nat \<Rightarrow> templateField list \<Rightarrow> bytes list go" where
  "fixed_vals rc off [] = Some []"
| "fixed_vals rc off (f # fs) = do {
     v \<leftarrow> slice rc off (off + unat (flen f));
     vs \<leftarrow> fixed_vals rc (off + unat (flen f)) fs;
     Some (v # vs)
   }"

function fixed_records :: "bytes \<Rightarrow> template \<Rightarrow> nat \<Rightarrow> bytes list list go" where
  "fixed_records body t i =
     (if 0 < recordLen t \<and> i + recordLen t \<le> length body
      then do {
        rc \<leftarrow> slice body i (i + recordLen t);
        vs \<leftarrow> fixed_vals rc 0 (tfields t);
        rest \<leftarrow> fixed_records body t (i + recordLen t);
        Some (vs # rest)
      }
      else Some [])"
  by pat_completeness auto
termination
  by (relation "measure (\<lambda>(body, t, i). length body - i)") auto

declare fixed_records.simps [simp del]

subsection \<open>Records with variable-length fields\<close>

text \<open>
  The width of the next field and the offset behind its length prefix; the inner \<open>None\<close> is
  \<open>ok = false\<close> (the set ends inside the prefix).
\<close>

definition var_width :: "bytes \<Rightarrow> nat \<Rightarrow> templateField \<Rightarrow> (nat \<times> nat) option go" where
  "var_width body off f =
     (if variable f then
        (if length body \<le> off then Some None
         else do {
           c \<leftarrow> idx body off;
           if unat c = 255 then
             (if length body < off + 1 + 2 then Some None
              else do { w \<leftarrow> rd16 body (off + 1); Some (Some (unat w, off + 1 + 2)) })
           else Some (Some (unat c, off + 1))
         })
      else Some (Some (unat (flen f), off)))"

primrec var_vals :: "bytes \<Rightarrow> nat \<Rightarrow> templateField list \<Rightarrow> (bytes list \<times> nat) option go" where
  "var_vals body off [] = Some (Some ([], off))"
| "var_vals body off (f # fs) = do {
     w \<leftarrow> var_width body off f;
     (case w of
        None \<Rightarrow> Some None
      | Some (width, off') \<Rightarrow>
          if length body < off' + width then Some None
          else do {
            v \<leftarrow> slice body off' (off' + width);
            r \<leftarrow> var_vals body (off' + width) fs;
            Some (map_option (\<lambda>(vs, e). (v # vs, e)) r)
          })
   }"

lemma var_width_off: "var_width body off f = Some (Some (w, off')) \<Longrightarrow> off \<le> off'"
  by (auto simp: var_width_def bind_eq_Some_conv split: if_splits)

lemma var_vals_off: "var_vals body off fs = Some (Some (vs, e)) \<Longrightarrow> off \<le> e"
proof (induction fs arbitrary: off vs e)
  case Nil
  then show ?case by simp
next
  case (Cons f fs)
  from Cons.prems obtain width off' where w: "var_width body off f = Some (Some (width, off'))"
    by (cases "var_width body off f"; cases "the (var_width body off f)") auto
  with Cons.prems obtain vs' where r: "var_vals body (off' + width) fs = Some (Some (vs', e))"
    by (auto simp: bind_eq_Some_conv split: if_splits)
  from var_width_off [OF w] Cons.IH [OF r] show ?case by simp
qed

function var_records :: "bytes \<Rightarrow> template \<Rightarrow> nat \<Rightarrow> bytes list list go" where
  "var_records body t off =
     (if off < length body then do {
        r \<leftarrow> var_vals body off (tfields t);
        (case r of
           None \<Rightarrow> Some []
         | Some (vs, e) \<Rightarrow>
             if e = off then Some []
             else do { rest \<leftarrow> var_records body t e; Some (vs # rest) })
      }
      else Some [])"
  by pat_completeness auto
termination
  by (relation "measure (\<lambda>(body, t, off). length body - off)")
    (auto dest!: var_vals_off)

declare var_records.simps [simp del]

definition eachRecord :: "bytes \<Rightarrow> template \<Rightarrow> bytes list list go" where
  "eachRecord body t =
     (if tfields t = [] then Some []
      else if \<not> hasVarLen t then
        (if recordLen t = 0 then Some [] else fixed_records body t 0)
      else var_records body t 0)"

definition readFlowData :: "bytes \<Rightarrow> template \<Rightarrow> exportClock \<Rightarrow> string \<Rightarrow> Record list go" where
  "readFlowData body t clock ty = do {
     vss \<leftarrow> eachRecord body t;
     Some (List.map_filter (flowRecord t clock ty) vss)
   }"

text \<open>The closure of \<open>readOptionsData\<close> on one record.\<close>

definition is_sampling_type :: "u16 \<Rightarrow> bool" where
  "is_sampling_type ty \<longleftrightarrow> ty = fSamplingInterval \<or> ty = fSamplerRandomInt \<or> ty = fSamplerInterval"

definition optionsRecord ::
  "template \<Rightarrow> Addr \<Rightarrow> u32 \<Rightarrow> bytes list \<Rightarrow> TemplateCache \<Rightarrow> TemplateCache" where
  "optionsRecord t src sourceID vals tc =
     fold (\<lambda>(f, v) c.
        if enterprise f = 0 \<and> is_sampling_type (ftyp f) \<and> 0 < beUint v
        then putSampling \<lparr>skExporter = src, skSourceID = sourceID\<rparr> (narrow32 (beUint v)) c
        else c) (zip (tfields t) vals) tc"

definition readOptionsData ::
  "bytes \<Rightarrow> template \<Rightarrow> Addr \<Rightarrow> u32 \<Rightarrow> TemplateCache \<Rightarrow> TemplateCache go" where
  "readOptionsData body t src sourceID tc = do {
     vss \<leftarrow> eachRecord body t;
     Some (fold (optionsRecord t src sourceID) vss tc)
   }"

subsection \<open>No panic\<close>

lemma field_widths_simps [simp]:
  "field_widths [] = 0" "field_widths (f # fs) = unat (flen f) + field_widths fs"
  by (simp_all add: field_widths_def)

lemma fixed_vals_Some:
  "off + field_widths fs \<le> length rc \<Longrightarrow> \<exists>vs. fixed_vals rc off fs = Some vs \<and> length vs = length fs"
proof (induction fs arbitrary: off)
  case Nil
  then show ?case by simp
next
  case (Cons f fs)
  then obtain vs where "fixed_vals rc (off + unat (flen f)) fs = Some vs \<and> length vs = length fs"
    by fastforce
  with Cons.prems show ?case by simp
qed

lemma fixed_records_Some:
  assumes "recordLen t = field_widths (tfields t)"
  shows "\<exists>vss. fixed_records body t i = Some vss \<and> (\<forall>vs \<in> set vss. length vs = length (tfields t))"
  using assms
proof (induction body t i rule: fixed_records.induct)
  case (1 body t i)
  show ?case
  proof (cases "0 < recordLen t \<and> i + recordLen t \<le> length body")
    case True
    let ?rc = "take (recordLen t) (drop i body)"
    have sl: "slice body i (i + recordLen t) = Some ?rc" using True by simp
    have "0 + field_widths (tfields t) \<le> length ?rc" using True "1.prems" by simp linarith
    then obtain vs where vs: "fixed_vals ?rc 0 (tfields t) = Some vs" "length vs = length (tfields t)"
      using fixed_vals_Some by blast
    with "1.IH" [OF True sl vs(1) "1.prems"] True sl show ?thesis
      by (auto simp: fixed_records.simps [of body t i])
  next
    case False
    then show ?thesis by (auto simp: fixed_records.simps [of body t i])
  qed
qed

lemma var_width_Some: "\<exists>r. var_width body off f = Some r"
  by (auto simp: var_width_def)

lemma var_vals_Some:
  "\<exists>r. var_vals body off fs = Some r \<and> (\<forall>vs e. r = Some (vs, e) \<longrightarrow> length vs = length fs \<and> e \<le> max off (length body))"
proof (induction fs arbitrary: off)
  case Nil
  then show ?case by simp
next
  case (Cons f fs)
  obtain w where w: "var_width body off f = Some w" using var_width_Some by blast
  show ?case
  proof (cases w)
    case None
    with w show ?thesis by simp
  next
    case (Some we)
    obtain width off' where we: "we = (width, off')" by force
    obtain r where "var_vals body (off' + width) fs = Some r"
      "\<forall>vs e. r = Some (vs, e) \<longrightarrow> length vs = length fs \<and> e \<le> max (off' + width) (length body)"
      using Cons.IH by blast
    with w Some we show ?thesis by auto
  qed
qed

lemma var_records_Some:
  "\<exists>vss. var_records body t off = Some vss \<and> (\<forall>vs \<in> set vss. length vs = length (tfields t))"
proof (induction body t off rule: var_records.induct)
  case (1 body t off)
  show ?case
  proof (cases "off < length body")
    case True
    obtain r where r: "var_vals body off (tfields t) = Some r"
      "\<forall>vs e. r = Some (vs, e) \<longrightarrow> length vs = length (tfields t)"
      using var_vals_Some [of body off "tfields t"] by blast
    show ?thesis
    proof (cases "r = None \<or> (\<exists>vs. r = Some (vs, off))")
      case stop: True
      with True r show ?thesis by (auto simp: var_records.simps [of body t off])
    next
      case False
      then obtain vs e where re: "r = Some (vs, e)" "e \<noteq> off" by (metis not_None_eq prod.collapse)
      from "1.IH" [OF True r(1) re(1) refl re(2)] True r re show ?thesis
        by (auto simp: var_records.simps [of body t off])
    qed
  next
    case False
    then show ?thesis by (auto simp: var_records.simps [of body t off])
  qed
qed

lemma eachRecord_Some:
  assumes "wf_template t"
  shows "\<exists>vss. eachRecord body t = Some vss \<and> (\<forall>vs \<in> set vss. length vs = length (tfields t))"
  using assms fixed_records_Some [of t body 0] var_records_Some [of body t 0]
  by (auto simp: eachRecord_def wf_template_def)

lemma readFlowData_no_panic [no_panic]: "wf_template t \<Longrightarrow> readFlowData body t clock ty \<noteq> None"
  using eachRecord_Some [of t body] by (auto simp: readFlowData_def)

lemma wf_optionsRecord: "wf_cache tc \<Longrightarrow> wf_cache (optionsRecord t src sid vals tc)"
  unfolding optionsRecord_def
  by (rule fold_invariant [where Q = "\<lambda>_. True"]) (auto simp: wf_putSampling)

lemma wf_readOptionsData:
  assumes "wf_template t" and "wf_cache tc"
  shows "\<exists>tc'. readOptionsData body t src sid tc = Some tc' \<and> wf_cache tc'"
proof -
  obtain vss where "eachRecord body t = Some vss" using eachRecord_Some [OF assms(1)] by blast
  moreover have "wf_cache (fold (optionsRecord t src sid) vss tc)"
    by (rule fold_invariant [where Q = "\<lambda>_. True"]) (auto simp: wf_optionsRecord assms(2))
  ultimately show ?thesis by (simp add: readOptionsData_def)
qed

subsection \<open>Round trips\<close>

definition fits :: "templateField \<Rightarrow> bytes \<Rightarrow> bool" where
  "fits f v \<longleftrightarrow> length v = unat (flen f)"

lemma fixed_vals_concat:
  "list_all2 fits fs vs \<Longrightarrow> fixed_vals (pre @ concat vs @ post) (length pre) fs = Some vs"
proof (induction fs vs arbitrary: pre rule: list_all2_induct)
  case Nil
  then show ?case by simp
next
  case (Cons f fs v vs)
  from Cons(1) have len: "length v = unat (flen f)" by (simp add: fits_def)
  have "fixed_vals ((pre @ v) @ concat vs @ post) (length (pre @ v)) fs = Some vs" by (rule Cons.IH)
  then show ?case by (simp flip: len)
qed

lemma length_concat_fits: "list_all2 fits fs vs \<Longrightarrow> length (concat vs) = field_widths fs"
  by (induction rule: list_all2_induct) (auto simp: fits_def)

lemma fixed_records_concat:
  assumes "recordLen t = field_widths (tfields t)" and "0 < recordLen t" and "length pad < recordLen t"
    and "\<forall>vs \<in> set vss. list_all2 fits (tfields t) vs"
  shows "fixed_records (pre @ concat (map concat vss) @ pad) t (length pre) = Some vss"
  using assms(4)
proof (induction vss arbitrary: pre)
  case Nil
  with assms(3) show ?case by (simp add: fixed_records.simps [of "pre @ pad"])
next
  case (Cons vs vss)
  let ?body = "pre @ concat (map concat (vs # vss)) @ pad"
  from Cons.prems have vs: "list_all2 fits (tfields t) vs" by simp
  then have len: "length (concat vs) = recordLen t" using assms(1) by (simp add: length_concat_fits)
  have "slice ?body (length pre) (length pre + recordLen t) = Some (concat vs)"
    by (simp flip: len)
  moreover have "fixed_vals (concat vs) 0 (tfields t) = Some vs"
    using fixed_vals_concat [OF vs, of "[]" "[]"] by simp
  moreover have "fixed_records ?body t (length pre + recordLen t) = Some vss"
    using Cons.IH [of "pre @ concat vs"] Cons.prems by (simp flip: len)
  ultimately show ?case
    using assms(2) len by (subst fixed_records.simps) simp
qed

text \<open>
  A data set written record by record in the template's fixed widths, with less than one
  record of padding behind, is split into exactly the field values that were written.
\<close>

theorem eachRecord_fixed_roundtrip:
  assumes "wf_template t" and "\<not> hasVarLen t" and "length pad < recordLen t"
    and "\<forall>vs \<in> set vss. list_all2 fits (tfields t) vs"
  shows "eachRecord (concat (map concat vss) @ pad) t = Some vss"
proof -
  have t: "tfields t \<noteq> []" "recordLen t = field_widths (tfields t)" "0 < recordLen t"
    using assms(1,2) by (simp_all add: wf_template_def)
  with fixed_records_concat [OF t(2,3) assms(3,4), of "[]"] assms(2) show ?thesis
    by (simp add: eachRecord_def)
qed

theorem eachRecord_fixed_roundtrip_witness:
  "eachRecord ([10, 0, 0, 1, 10, 0, 0, 2] @ [10, 0, 0, 3, 10, 0, 0, 4] @ [0, 0]) ex_template
     = Some [[[10, 0, 0, 1], [10, 0, 0, 2]], [[10, 0, 0, 3], [10, 0, 0, 4]]]"
  using eachRecord_fixed_roundtrip [of ex_template "[0, 0]"
      "[[[10, 0, 0, 1], [10, 0, 0, 2]], [[10, 0, 0, 3], [10, 0, 0, 4]]]"]
  by (simp add: wf_ex_template) (simp add: ex_template_def fits_def)

text \<open>RFC 7011 section 7: a variable-length value carries its length in front, in one or three bytes.\<close>

definition var_encode :: "templateField \<Rightarrow> bytes \<Rightarrow> bytes" where
  "var_encode f v =
     (if variable f
      then (if length v < 255 then [word_of_nat (length v)] else 255 # be_bytes 2 (length v)) @ v
      else v)"

definition var_fits :: "templateField \<Rightarrow> bytes \<Rightarrow> bool" where
  "var_fits f v \<longleftrightarrow> (if variable f then length v < 2 ^ 16 else length v = unat (flen f))"

definition var_encode_record :: "templateField list \<Rightarrow> bytes list \<Rightarrow> bytes" where
  "var_encode_record fs vs = concat (map2 var_encode fs vs)"

lemma var_width_encode:
  assumes "var_fits f v"
  shows "var_width (pre @ var_encode f v @ post) (length pre) f
       = Some (Some (length v, length pre + length (var_encode f v) - length v))"
proof (cases "variable f \<and> 255 \<le> length v")
  case True
  have "w16 (pre @ 255 # be_bytes 2 (length v) @ v @ post) (length pre + 1)
      = be_word (be_bytes 2 (length v))"
    by (simp add: w16_def)
  also have "\<dots> = word_of_nat (length v)"
    using True assms by (subst be_word_bytes) (simp_all add: var_fits_def)
  finally have "unat (w16 (pre @ 255 # be_bytes 2 (length v) @ v @ post) (Suc (length pre))) = length v"
    using True assms by (simp add: var_fits_def unat_of_nat)
  with True show ?thesis by (simp add: var_width_def var_encode_def)
next
  case False
  then show ?thesis using assms
    by (auto simp: var_width_def var_encode_def var_fits_def unat_of_nat)
qed

lemma length_var_encode: "length v \<le> length (var_encode f v)"
  by (simp add: var_encode_def)

lemma drop_var_encode:
  "drop (length (var_encode f v) - length v) (var_encode f v) = v"
  by (simp add: var_encode_def)

lemma var_vals_encode:
  "list_all2 var_fits fs vs \<Longrightarrow>
     var_vals (pre @ var_encode_record fs vs @ post) (length pre) fs
       = Some (Some (vs, length pre + length (var_encode_record fs vs)))"
proof (induction fs vs arbitrary: pre rule: list_all2_induct)
  case Nil
  then show ?case by (simp add: var_encode_record_def)
next
  case (Cons f fs v vs)
  let ?rest = "var_encode_record fs vs @ post"
  let ?body = "pre @ var_encode f v @ ?rest"
  have enc: "var_encode_record (f # fs) (v # vs) = var_encode f v @ var_encode_record fs vs"
    by (simp add: var_encode_record_def)
  have "var_width ?body (length pre) f
      = Some (Some (length v, length pre + length (var_encode f v) - length v))"
    using Cons(1) by (rule var_width_encode)
  moreover have "slice ?body (length pre + length (var_encode f v) - length v)
      (length pre + length (var_encode f v) - length v + length v) = Some v"
    using length_var_encode [of v f] by (simp add: slice_def drop_var_encode)
  moreover have "var_vals ?body (length pre + length (var_encode f v)) fs
      = Some (Some (vs, length pre + length (var_encode f v) + length (var_encode_record fs vs)))"
    using Cons.IH [of "pre @ var_encode f v"] by simp
  ultimately show ?case
    using length_var_encode [of v f] by (simp add: enc)
qed

lemma var_encode_record_nonempty:
  "list_all2 var_fits fs vs \<Longrightarrow> \<exists>f \<in> set fs. variable f \<Longrightarrow> var_encode_record fs vs \<noteq> []"
  by (induction fs vs rule: list_all2_induct) (auto simp: var_encode_record_def var_encode_def)

lemma var_records_encode:
  assumes "\<exists>f \<in> set (tfields t). variable f"
    and "\<forall>vs \<in> set vss. list_all2 var_fits (tfields t) vs"
  shows "var_records (pre @ concat (map (var_encode_record (tfields t)) vss)) t (length pre) = Some vss"
  using assms(2)
proof (induction vss arbitrary: pre)
  case Nil
  then show ?case by (simp add: var_records.simps [of pre])
next
  case (Cons vs vss)
  let ?e = "var_encode_record (tfields t)"
  let ?body = "pre @ concat (map ?e (vs # vss))"
  from Cons.prems have vs: "list_all2 var_fits (tfields t) vs" by simp
  then have ne: "?e vs \<noteq> []" using assms(1) by (rule var_encode_record_nonempty)
  have "var_vals ?body (length pre) (tfields t) = Some (Some (vs, length pre + length (?e vs)))"
    using var_vals_encode [OF vs, of pre "concat (map ?e vss)"] by simp
  moreover have "var_records ?body t (length pre + length (?e vs)) = Some vss"
    using Cons.IH [of "pre @ ?e vs"] Cons.prems by simp
  ultimately show ?case using ne by (subst var_records.simps) simp
qed

text \<open>
  The same for IPFIX templates with variable-length fields: a data set written with the
  length prefixes of RFC 7011 (one byte, or 255 and two bytes) is split into exactly the values
  written, so the walk never slides off a field boundary.
\<close>

theorem eachRecord_var_roundtrip:
  assumes "hasVarLen t" and "\<exists>f \<in> set (tfields t). variable f"
    and "\<forall>vs \<in> set vss. list_all2 var_fits (tfields t) vs"
  shows "eachRecord (concat (map (var_encode_record (tfields t)) vss)) t = Some vss"
proof -
  have "tfields t \<noteq> []" using assms(2) by auto
  with assms(1) var_records_encode [OF assms(2,3), of "[]"] show ?thesis
    by (simp add: eachRecord_def)
qed

definition ex_var_template :: template where
  "ex_var_template = \<lparr>tfields = [\<lparr>ftyp = 8, flen = 4, enterprise = 0\<rparr>, \<lparr>ftyp = 371, flen = 0xFFFF, enterprise = 0\<rparr>],
     recordLen = 4, hasVarLen = True, scopeFields = 0, seen = zero_time\<rparr>"

theorem eachRecord_var_roundtrip_witness:
  "eachRecord [10, 0, 0, 1, 3, 98, 111, 98, 10, 0, 0, 2, 0] ex_var_template
     = Some [[[10, 0, 0, 1], [98, 111, 98]], [[10, 0, 0, 2], []]]"
  using eachRecord_var_roundtrip [of ex_var_template "[[[10, 0, 0, 1], [98, 111, 98]], [[10, 0, 0, 2], []]]"]
  by (simp add: ex_var_template_def var_fits_def variable_def varLength_def var_encode_record_def
      var_encode_def)

end
