(* ===== verification/Flow_Sets.thy ===== *)
theory Flow_Sets
  imports Flow_Data
begin

unbundle bit_operations_syntax

text \<open>
  What the v9 and the IPFIX decoder share: the state their set loop updates, the scaling by the
  exporter's announced sampling interval (\<open>applySampling\<close>), and, as the locale \<open>set_walk\<close>, the
  loop over the sets of a message. Each decoder has its own loop in the source and in the model;
  the locale is interpreted on both.
\<close>

record exportState =
  esRecords :: "Record list"
  esAwaiting :: nat
  esCache :: TemplateCache

definition flowsetHeaderLen :: nat where "flowsetHeaderLen = 4"

subsection \<open>Sampling\<close>

definition applySampling1 :: "u32 \<Rightarrow> Record \<Rightarrow> Record" where
  "applySampling1 iv r =
     (if 1 < SamplingRate r then r
      else if 1 < iv then
        r\<lparr>Bytes := Bytes r * ucast iv, Packets := Packets r * ucast iv, Sampled := True,
          SamplingRate := iv\<rparr>
      else r\<lparr>SamplingRate := 1\<rparr>)"

definition applySampling :: "Record list \<Rightarrow> u32 \<Rightarrow> Record list" where
  "applySampling rs iv = map (applySampling1 iv) rs"

lemma applySampling_idem: "applySampling (applySampling rs iv) iv = applySampling rs iv"
  by (auto simp: applySampling_def applySampling1_def)

lemma length_applySampling [simp]: "length (applySampling rs iv) = length rs"
  by (simp add: applySampling_def)

lemma resolveTimes_counters [simp]:
  "Bytes (resolveTimes clock s) = Bytes (cur s)" "Packets (resolveTimes clock s) = Packets (cur s)"
  "SamplingRate (resolveTimes clock s) = SamplingRate (cur s)" "Sampled (resolveTimes clock s) = Sampled (cur s)"
  by (simp_all add: resolveTimes_def Let_def)

text \<open>The factor a record's counters are multiplied by, from its inline interval and its exporter's.\<close>

definition sampling_factor :: "u64 \<Rightarrow> u32 \<Rightarrow> u64" where
  "sampling_factor inline iv =
     (if 1 < inline \<and> inline \<le> 0xFFFFFFFF then inline else if 1 < iv then ucast iv else 1)"

lemma ucast_gt_one: "1 < n \<Longrightarrow> n \<le> 0xFFFFFFFF \<Longrightarrow> (1 :: u32) < ucast (n :: u64)"
  by (simp add: word_less_nat_alt word_le_nat_alt unsigned_ucast_eq take_bit_nat_eq_self)

lemma ucast_ucast_u32: "n \<le> 0xFFFFFFFF \<Longrightarrow> ucast (ucast (n :: u64) :: u32) = n"
  by (simp add: word_unat_eq_iff word_le_nat_alt unsigned_ucast_eq unsigned_take_bit_eq take_bit_nat_eq_self)

text \<open>
  C33. Every record is scaled exactly once: by its inline interval when that is between 2 and
  \<open>2^32-1\<close>, otherwise by the interval its exporter announced when that is at least 2, otherwise
  not at all; and the record says which factor was used. (An inline interval of 1 therefore does
  not protect a record from the exporter's interval.)
\<close>

theorem sampling_applied_once:
  assumes "SamplingRate (cur s) = 0" and "\<not> Sampled (cur s)"
  shows "let r = applySampling1 iv (resolveTimes clock (scaleInline s)); k = sampling_factor (inlineSampling s) iv
    in Bytes r = Bytes (cur s) * k \<and> Packets r = Packets (cur s) * k \<and>
       ucast (SamplingRate r) = k \<and> (Sampled r \<longleftrightarrow> k \<noteq> 1)"
proof (cases "1 < inlineSampling s \<and> inlineSampling s \<le> 0xFFFFFFFF")
  case True
  then show ?thesis
    by (auto simp: Let_def applySampling1_def scaleInline_def sampling_factor_def ucast_gt_one ucast_ucast_u32)
next
  case False
  have "(ucast iv :: u64) \<noteq> 1" if "1 < iv"
  proof
    assume "(ucast iv :: u64) = 1"
    then have "uint (ucast iv :: u64) = 1" by simp
    moreover have "uint iv < 2 ^ LENGTH(32)" by (rule unsigned_less)
    then have "take_bit 64 (uint iv) = uint iv" by (intro take_bit_int_eq_self) auto
    ultimately have "uint iv = 1" by (simp add: unsigned_ucast_eq)
    with that show False by (simp add: word_less_def)
  qed
  with False assms show ?thesis
    by (auto simp: Let_def applySampling1_def scaleInline_def sampling_factor_def)
qed

theorem sampling_applied_once_witness:
  "Bytes (applySampling1 100 (resolveTimes \<lparr>uptimeMs = 0, unix = zero_time\<rparr> (scaleInline
      \<lparr>cur = record_zero\<lparr>Bytes := 1500\<rparr>, inlineSampling = 1, firstUp = 0, lastUp = 0, sysInit = 0\<rparr>))) = 150000"
  using sampling_applied_once [of "\<lparr>cur = record_zero\<lparr>Bytes := 1500\<rparr>, inlineSampling = 1, firstUp = 0,
      lastUp = 0, sysInit = 0\<rparr>" 100 "\<lparr>uptimeMs = 0, unix = zero_time\<rparr>"]
  by (simp add: Let_def sampling_factor_def record_zero_def)

subsection \<open>The loop over sets\<close>

primrec run_steps :: "(u16 \<Rightarrow> bytes \<Rightarrow> 's \<Rightarrow> 's go) \<Rightarrow> (u16 \<times> bytes) list \<Rightarrow> 's \<Rightarrow> 's go" where
  "run_steps step [] s = Some s"
| "run_steps step (x # xs) s = do { s' \<leftarrow> step (fst x) (snd x) s; run_steps step xs s' }"

definition set_bytes :: "u16 \<times> bytes \<Rightarrow> bytes" where
  "set_bytes x = put16 (fst x) @ be_bytes 2 (4 + length (snd x)) @ snd x"

definition set_fits :: "u16 \<times> bytes \<Rightarrow> bool" where
  "set_fits x \<longleftrightarrow> 4 + length (snd x) < 2 ^ 16"

lemma length_set_bytes [simp]: "length (set_bytes x) = 4 + length (snd x)"
  by (simp add: set_bytes_def)

lemma set_bytes_reads:
  assumes "set_fits x"
  shows "w16 (pre @ set_bytes x @ post) (length pre) = fst x"
    and "unat (w16 (pre @ set_bytes x @ post) (length pre + 2)) = 4 + length (snd x)"
    and "take (length (snd x)) (drop (length pre + 4) (pre @ set_bytes x @ post)) = snd x"
proof -
  show "w16 (pre @ set_bytes x @ post) (length pre) = fst x"
    by (simp add: w16_def set_bytes_def)
  have "w16 (pre @ set_bytes x @ post) (length pre + 2) = be_word (be_bytes 2 (4 + length (snd x)))"
    by (simp add: w16_def set_bytes_def)
  also have "\<dots> = word_of_nat (4 + length (snd x))"
    using assms by (subst be_word_bytes) (simp_all add: set_fits_def)
  finally show "unat (w16 (pre @ set_bytes x @ post) (length pre + 2)) = 4 + length (snd x)"
    using assms by (simp only: unat_of_nat) (simp add: set_fits_def)
  show "take (length (snd x)) (drop (length pre + 4) (pre @ set_bytes x @ post)) = snd x"
    by (simp add: set_bytes_def)
qed

locale set_walk =
  fixes step :: "u16 \<Rightarrow> bytes \<Rightarrow> 's \<Rightarrow> 's go"
    and err :: "nat \<Rightarrow> nat \<Rightarrow> flow_error"
    and walk :: "bytes \<Rightarrow> nat \<Rightarrow> 's \<Rightarrow> (flow_error option \<times> 's) go"
    and inv :: "'s \<Rightarrow> bool"
  assumes walk_eq: "walk b off s =
      (if off + 4 \<le> length b then do {
         i \<leftarrow> rd16 b off;
         l \<leftarrow> rd16 b (off + 2);
         if unat l < 4 \<or> length b < off + unat l then Some (Some (err (unat l) off), s)
         else do {
           body \<leftarrow> slice b (off + 4) (off + unat l);
           s' \<leftarrow> step i body s;
           walk b (off + unat l) s'
         }
       } else Some (None, s))"
    and step_inv: "inv s \<Longrightarrow> \<exists>s'. step i body s = Some s' \<and> inv s'"
begin

lemma walk_total: "inv s \<Longrightarrow> \<exists>e s'. walk b off s = Some (e, s') \<and> inv s'"
proof (induction "length b - off" arbitrary: off s rule: less_induct)
  case less
  show ?case
  proof (cases "off + 4 \<le> length b")
    case in_range: True
    let ?l = "unat (w16 b (off + 2))"
    show ?thesis
    proof (cases "?l < 4 \<or> length b < off + ?l")
      case True
      with in_range less.prems show ?thesis by (subst walk_eq) simp
    next
      case False
      obtain s' where s': "step (w16 b off) (take (?l - 4) (drop (off + 4) b)) s = Some s'" "inv s'"
        using step_inv [OF less.prems] by blast
      have "length b - (off + ?l) < length b - off" using False in_range by linarith
      from less.hyps [OF this s'(2)] s'(1) False in_range show ?thesis
        by (subst walk_eq) simp
    qed
  next
    case False
    with less.prems show ?thesis by (subst walk_eq) simp
  qed
qed

text \<open>A message whose sets were framed one behind the other runs the step on each, in order.\<close>

lemma walk_framed:
  assumes "\<forall>x \<in> set xs. set_fits x" and "length tail < 4" and "run_steps step xs s = Some s'"
  shows "walk (pre @ concat (map set_bytes xs) @ tail) (length pre) s = Some (None, s')"
  using assms(1,3)
proof (induction xs arbitrary: pre s)
  case Nil
  with assms(2) show ?case by (subst walk_eq) simp
next
  case (Cons x xs)
  let ?post = "concat (map set_bytes xs) @ tail"
  let ?b = "pre @ set_bytes x @ ?post"
  from Cons.prems have fit: "set_fits x" by simp
  note rd = set_bytes_reads [OF fit, of pre ?post]
  obtain s1 where s1: "step (fst x) (snd x) s = Some s1" "run_steps step xs s1 = Some s'"
    using Cons.prems(2) by (auto simp: bind_eq_Some_conv)
  have len: "length pre + 4 + length (snd x) \<le> length ?b" by simp
  have "walk ?b (length pre + (4 + length (snd x))) s1 = Some (None, s')"
    using Cons.IH [of s1 "pre @ set_bytes x"] Cons.prems(1) s1(2) by (simp add: add.assoc)
  then have "walk ?b (length pre) s = Some (None, s')"
    using rd s1(1) len by (subst walk_eq) (simp add: add.assoc)
  then show ?case by simp
qed

end

end
