(* ===== verification/Flow_NetFlow9.thy ===== *)
theory Flow_NetFlow9
  imports Flow_Sets
begin

unbundle bit_operations_syntax

text \<open>
  NetFlow v9 (\<open>internal/flow/netflow9.go\<close>): template and options-template sets, the set loop and
  \<open>DecodeNetFlowV9\<close>. A decoder returns the packet (if any), the number of data sets whose template
  is not known yet, the error (if any) and the updated template cache; \<open>None\<close> is a panic.

  Shown: on every byte string and from every well-formed cache the decoder returns, without a
  panic, with a well-formed cache; a message framed from sets is handled set by set; and a
  template announced in a message decodes the data behind it into the flows that were written.
\<close>

definition netflowV9HeaderLen :: nat where "netflowV9HeaderLen = 20"

subsection \<open>Template sets\<close>

primrec v9_fields :: "bytes \<Rightarrow> nat \<Rightarrow> nat \<Rightarrow> template \<Rightarrow> (template \<times> nat) go" where
  "v9_fields body 0 off t = Some (t, off)"
| "v9_fields body (Suc n) off t = do {
     ty \<leftarrow> rd16 body off;
     l \<leftarrow> rd16 body (off + 2);
     v9_fields body n (off + 4)
       (t\<lparr>tfields := tfields t @ [\<lparr>ftyp = ty, flen = l, enterprise = 0\<rparr>],
          recordLen := recordLen t + unat l\<rparr>)
   }"

lemma v9_fields_off: "v9_fields body n off t = Some (t', off') \<Longrightarrow> off' = off + 4 * n"
  by (induction n arbitrary: off t) (fastforce simp: bind_eq_Some_conv)+

definition v9_key :: "Addr \<Rightarrow> u32 \<Rightarrow> u16 \<Rightarrow> templateKey" where
  "v9_key src sid i = \<lparr>tkExporter = src, tkSourceID = sid, tkId = i, tkVersion = 9\<rparr>"

function parseTemplatesAt ::
  "bytes \<Rightarrow> Addr \<Rightarrow> u32 \<Rightarrow> gotime \<Rightarrow> nat \<Rightarrow> TemplateCache \<Rightarrow> TemplateCache go" where
  "parseTemplatesAt body src sid now off tc =
     (if off + 4 \<le> length body then do {
        i \<leftarrow> rd16 body off;
        c \<leftarrow> rd16 body (off + 2);
        if unat c \<le> 0 \<or> length body < off + 4 + unat c * 4 then Some tc
        else do {
          r \<leftarrow> v9_fields body (unat c) (off + 4) template_empty;
          parseTemplatesAt body src sid now (snd r)
            (if recordLen (fst r) = 0 then tc else tc_put (v9_key src sid i) (fst r) now tc)
        }
      } else Some tc)"
  by pat_completeness auto
termination
  by (relation "measure (\<lambda>(body, src, sid, now, off, tc). length body - off)")
    (auto dest!: v9_fields_off)

declare parseTemplatesAt.simps [simp del]

definition parseTemplates ::
  "bytes \<Rightarrow> Addr \<Rightarrow> u32 \<Rightarrow> TemplateCache \<Rightarrow> gotime \<Rightarrow> TemplateCache go" where
  "parseTemplates body src sid tc now = parseTemplatesAt body src sid now 0 tc"

subsection \<open>Options template sets\<close>

function opt_fields :: "bytes \<Rightarrow> nat \<Rightarrow> nat \<Rightarrow> template \<Rightarrow> (template \<times> nat) go" where
  "opt_fields body off end t =
     (if off + 4 \<le> end then do {
        ty \<leftarrow> rd16 body off;
        l \<leftarrow> rd16 body (off + 2);
        opt_fields body (off + 4) end
          (t\<lparr>tfields := tfields t @ [\<lparr>ftyp = ty, flen = l, enterprise = 0\<rparr>],
             recordLen := recordLen t + unat l\<rparr>)
      } else Some (t, off))"
  by pat_completeness auto
termination
  by (relation "measure (\<lambda>(body, off, end, t). end - off)") auto

declare opt_fields.simps [simp del]

lemma opt_fields_off: "opt_fields body off end t = Some (t', off') \<Longrightarrow> off \<le> off'"
proof (induction body off "end" t arbitrary: t' off' rule: opt_fields.induct)
  case (1 body off "end" t)
  show ?case
  proof (cases "off + 4 \<le> end")
    case True
    with "1.prems" "1.IH" show ?thesis
      by (fastforce simp: opt_fields.simps [of body off "end" t] bind_eq_Some_conv)
  next
    case False
    with "1.prems" show ?thesis by (simp add: opt_fields.simps [of body off "end" t])
  qed
qed

function parseOptionsTemplatesAt ::
  "bytes \<Rightarrow> Addr \<Rightarrow> u32 \<Rightarrow> gotime \<Rightarrow> nat \<Rightarrow> TemplateCache \<Rightarrow> TemplateCache go" where
  "parseOptionsTemplatesAt body src sid now off tc =
     (if off + 6 \<le> length body then do {
        i \<leftarrow> rd16 body off;
        sb \<leftarrow> rd16 body (off + 2);
        ob \<leftarrow> rd16 body (off + 4);
        if unat sb mod 4 \<noteq> 0 \<or> unat ob mod 4 \<noteq> 0 \<or> length body < off + 6 + unat sb + unat ob
        then Some tc
        else do {
          r \<leftarrow> opt_fields body (off + 6) (off + 6 + unat sb + unat ob)
                 (template_empty\<lparr>scopeFields := unat sb div 4\<rparr>);
          parseOptionsTemplatesAt body src sid now (snd r)
            (if recordLen (fst r) = 0 \<or> scopeFields (fst r) = 0 then tc
             else tc_put (v9_key src sid i) (fst r) now tc)
        }
      } else Some tc)"
  by pat_completeness auto
termination
  by (relation "measure (\<lambda>(body, src, sid, now, off, tc). length body - off)")
    (auto dest!: opt_fields_off)

declare parseOptionsTemplatesAt.simps [simp del]

definition parseOptionsTemplates ::
  "bytes \<Rightarrow> Addr \<Rightarrow> u32 \<Rightarrow> TemplateCache \<Rightarrow> gotime \<Rightarrow> TemplateCache go" where
  "parseOptionsTemplates body src sid tc now = parseOptionsTemplatesAt body src sid now 0 tc"

subsection \<open>The decoder\<close>

text \<open>The switch in the loop of \<open>DecodeNetFlowV9\<close>.\<close>

definition v9_set ::
  "Addr \<Rightarrow> u32 \<Rightarrow> exportClock \<Rightarrow> gotime \<Rightarrow> u16 \<Rightarrow> bytes \<Rightarrow> exportState \<Rightarrow> exportState go" where
  "v9_set src sid clock now fsID body s =
     (if fsID = 0 then do {
        tc \<leftarrow> parseTemplates body src sid (esCache s) now;
        Some (s\<lparr>esCache := tc\<rparr>)
      }
      else if fsID = 1 then do {
        tc \<leftarrow> parseOptionsTemplates body src sid (esCache s) now;
        Some (s\<lparr>esCache := tc\<rparr>)
      }
      else if 256 \<le> fsID then
        (case tc_get (v9_key src sid fsID) now (esCache s) of
           (None, tc) \<Rightarrow> Some (s\<lparr>esAwaiting := esAwaiting s + 1, esCache := tc\<rparr>)
         | (Some t, tc) \<Rightarrow>
             if isOptions t then do {
               tc' \<leftarrow> readOptionsData body t src sid tc;
               Some (s\<lparr>esCache := tc'\<rparr>)
             }
             else do {
               rs \<leftarrow> readFlowData body t clock ''netflow9'';
               Some (s\<lparr>esRecords := esRecords s @ rs, esCache := tc\<rparr>)
             })
      else Some s)"

function v9_sets ::
  "Addr \<Rightarrow> u32 \<Rightarrow> exportClock \<Rightarrow> gotime \<Rightarrow> bytes \<Rightarrow> nat \<Rightarrow> exportState \<Rightarrow>
     (flow_error option \<times> exportState) go" where
  "v9_sets src sid clock now b off s =
     (if off + flowsetHeaderLen \<le> length b then do {
        fsID \<leftarrow> rd16 b off;
        fsLen \<leftarrow> rd16 b (off + 2);
        if unat fsLen < flowsetHeaderLen \<or> length b < off + unat fsLen
        then Some (Some (ErrV9FlowsetLength (unat fsLen) off), s)
        else do {
          body \<leftarrow> slice b (off + flowsetHeaderLen) (off + unat fsLen);
          s' \<leftarrow> v9_set src sid clock now fsID body s;
          v9_sets src sid clock now b (off + unat fsLen) s'
        }
      } else Some (None, s))"
  by pat_completeness auto
termination
  by (relation "measure (\<lambda>(src, sid, clock, now, b, off, s). length b - off)")
    (auto simp: flowsetHeaderLen_def)

declare v9_sets.simps [simp del]

definition DecodeNetFlowV9 ::
  "bytes \<Rightarrow> Addr \<Rightarrow> TemplateCache \<Rightarrow> gotime \<Rightarrow>
     (packet option \<times> nat \<times> flow_error option \<times> TemplateCache) go" where
  "DecodeNetFlowV9 b src tc now =
     (if length b < netflowV9HeaderLen
      then Some (None, 0, Some (ErrShortPacket netflowV9HeaderLen (length b)), tc)
      else do {
        v \<leftarrow> rd16 b 0;
        if v \<noteq> 9 then Some (None, 0, Some (ErrNotNetFlowV9 v), tc)
        else do {
          sid \<leftarrow> rd32 b 16;
          up \<leftarrow> rd32 b 4;
          secs \<leftarrow> rd32 b 8;
          let clock = \<lparr>uptimeMs = up, unix = time_unix (uint secs) 0\<rparr>;
          (e, s) \<leftarrow> v9_sets src sid clock now b netflowV9HeaderLen
                     \<lparr>esRecords = [], esAwaiting = 0, esCache = tc\<rparr>;
          (case e of
             Some err \<Rightarrow>
               Some (Some \<lparr>ExporterIP = src, Records = esRecords s\<rparr>, esAwaiting s, Some err, esCache s)
           | None \<Rightarrow>
               Some (Some \<lparr>ExporterIP = src,
                       Records = applySampling (esRecords s)
                         (getSampling \<lparr>skExporter = src, skSourceID = sid\<rparr> (esCache s))\<rparr>,
                     esAwaiting s, None, esCache s))
        }
      })"

subsection \<open>Announced templates are well-formed\<close>

definition widths_ok :: "template \<Rightarrow> bool" where
  "widths_ok t \<longleftrightarrow> \<not> hasVarLen t \<and> recordLen t = field_widths (tfields t)"

lemma widths_ok_empty [simp]: "widths_ok template_empty" "widths_ok (template_empty\<lparr>scopeFields := n\<rparr>)"
  by (simp_all add: widths_ok_def template_empty_def)

lemma field_widths_append [simp]: "field_widths (fs @ gs) = field_widths fs + field_widths gs"
  by (simp add: field_widths_def)

lemma widths_ok_snoc [simp]:
  "widths_ok t \<Longrightarrow> widths_ok (t\<lparr>tfields := tfields t @ [f], recordLen := recordLen t + unat (flen f)\<rparr>)"
  by (simp add: widths_ok_def)

lemma widths_ok_wf: "widths_ok t \<Longrightarrow> 0 < recordLen t \<Longrightarrow> wf_template t"
  by (cases "tfields t") (auto simp: widths_ok_def wf_template_def)

lemma v9_fields_ok:
  "off + 4 * n \<le> length body \<Longrightarrow> widths_ok t \<Longrightarrow>
     \<exists>t'. v9_fields body n off t = Some (t', off + 4 * n) \<and> widths_ok t'"
proof (induction n arbitrary: off t)
  case 0
  then show ?case by simp
next
  case (Suc n)
  let ?f = "\<lparr>ftyp = w16 body off, flen = w16 body (off + 2), enterprise = 0\<rparr>"
  let ?t = "t\<lparr>tfields := tfields t @ [?f], recordLen := recordLen t + unat (flen ?f)\<rparr>"
  have "\<exists>t'. v9_fields body n (off + 4) ?t = Some (t', off + 4 + 4 * n) \<and> widths_ok t'"
    using Suc.prems by (intro Suc.IH widths_ok_snoc) simp_all
  with Suc.prems show ?case by (simp add: add.assoc)
qed

lemma opt_fields_ok:
  "end \<le> length body \<Longrightarrow> widths_ok t \<Longrightarrow>
     \<exists>t' off'. opt_fields body off end t = Some (t', off') \<and> widths_ok t'"
proof (induction body off "end" t rule: opt_fields.induct)
  case (1 body off "end" t)
  show ?case
  proof (cases "off + 4 \<le> end")
    case True
    let ?f = "\<lparr>ftyp = w16 body off, flen = w16 body (off + 2), enterprise = 0\<rparr>"
    have "off + 4 \<le> length body" using True "1.prems" by linarith
    then have rd: "rd16 body off = Some (w16 body off)" "rd16 body (off + 2) = Some (w16 body (off + 2))"
      by simp_all
    have "widths_ok (t\<lparr>tfields := tfields t @ [?f], recordLen := recordLen t + unat (flen ?f)\<rparr>)"
      using "1.prems" by (intro widths_ok_snoc)
    with "1.IH" [OF True rd] "1.prems"(1) True rd show ?thesis
      by (simp add: opt_fields.simps [of body off "end" t])
  next
    case False
    with "1.prems" show ?thesis by (simp add: opt_fields.simps [of body off "end" t])
  qed
qed

lemma parseTemplatesAt_wf:
  "wf_cache tc \<Longrightarrow> \<exists>tc'. parseTemplatesAt body src sid now off tc = Some tc' \<and> wf_cache tc'"
proof (induction body src sid now off tc rule: parseTemplatesAt.induct)
  case (1 body src sid now off tc)
  let ?c = "unat (w16 body (off + 2))"
  show ?case
  proof (cases "off + 4 \<le> length body \<and> 0 < ?c \<and> off + 4 + ?c * 4 \<le> length body")
    case True
    then have rd: "rd16 body off = Some (w16 body off)" "rd16 body (off + 2) = Some (w16 body (off + 2))"
      by simp_all
    have "off + 4 + 4 * ?c \<le> length body" using True by simp
    then obtain t where t: "v9_fields body ?c (off + 4) template_empty = Some (t, off + 4 + 4 * ?c)"
        "widths_ok t"
      using v9_fields_ok [of "off + 4" ?c body template_empty] by auto
    define tc1 where "tc1 = (if recordLen t = 0 then tc else tc_put (v9_key src sid (w16 body off)) t now tc)"
    have "wf_cache tc1"
      unfolding tc1_def using "1.prems" t(2) by (auto intro: wf_tc_put widths_ok_wf)
    with "1.IH" [OF _ rd _ t(1), unfolded fst_conv snd_conv, folded tc1_def] True rd t(1) show ?thesis
      by (cases "recordLen t = 0") (simp_all add: parseTemplatesAt.simps [of body src sid now off tc] tc1_def)
  next
    case False
    with "1.prems" show ?thesis
      by (auto simp: parseTemplatesAt.simps [of body src sid now off tc])
  qed
qed

lemma parseOptionsTemplatesAt_wf:
  "wf_cache tc \<Longrightarrow> \<exists>tc'. parseOptionsTemplatesAt body src sid now off tc = Some tc' \<and> wf_cache tc'"
proof (induction body src sid now off tc rule: parseOptionsTemplatesAt.induct)
  case (1 body src sid now off tc)
  let ?s = "unat (w16 body (off + 2))" and ?o = "unat (w16 body (off + 4))"
  show ?case
  proof (cases "off + 6 \<le> length body \<and> \<not> (?s mod 4 \<noteq> 0 \<or> ?o mod 4 \<noteq> 0 \<or> length body < off + 6 + ?s + ?o)")
    case True
    then have rd: "rd16 body off = Some (w16 body off)" "rd16 body (off + 2) = Some (w16 body (off + 2))"
        "rd16 body (off + 4) = Some (w16 body (off + 4))"
      by simp_all
    have "off + 6 + ?s + ?o \<le> length body" using True by simp
    then obtain t off' where t: "opt_fields body (off + 6) (off + 6 + ?s + ?o)
        (template_empty\<lparr>scopeFields := ?s div 4\<rparr>) = Some (t, off')" "widths_ok t"
      using opt_fields_ok by (metis widths_ok_empty(2))
    define tc1 where "tc1 = (if recordLen t = 0 \<or> scopeFields t = 0 then tc
        else tc_put (v9_key src sid (w16 body off)) t now tc)"
    have "wf_cache tc1"
      unfolding tc1_def using "1.prems" t(2) by (auto intro: wf_tc_put widths_ok_wf)
    with "1.IH" [OF _ rd _ t(1), unfolded fst_conv snd_conv, folded tc1_def] True rd t(1) show ?thesis
      by (cases "recordLen t = 0 \<or> scopeFields t = 0")
        (auto simp: parseOptionsTemplatesAt.simps [of body src sid now off tc] tc1_def)
  next
    case False
    with "1.prems" show ?thesis
      by (auto simp: parseOptionsTemplatesAt.simps [of body src sid now off tc])
  qed
qed

lemma v9_set_inv:
  assumes "wf_cache (esCache s)"
  shows "\<exists>s'. v9_set src sid clock now fsID body s = Some s' \<and> wf_cache (esCache s')"
proof -
  obtain g tc where g: "tc_get (v9_key src sid fsID) now (esCache s) = (g, tc)" by force
  have tc: "wf_cache tc" using wf_tc_get [OF assms, of "v9_key src sid fsID" now] g by simp
  consider (templates) "fsID = 0 \<or> fsID = 1 \<or> \<not> 256 \<le> fsID"
    | (awaiting) "256 \<le> fsID" "fsID \<noteq> 0" "fsID \<noteq> 1" "g = None"
    | (data) t where "256 \<le> fsID" "fsID \<noteq> 0" "fsID \<noteq> 1" "g = Some t" by blast
  then show ?thesis
  proof cases
    case templates
    with assms parseTemplatesAt_wf [OF assms, of body src sid now 0]
      parseOptionsTemplatesAt_wf [OF assms, of body src sid now 0] show ?thesis
      by (auto simp: v9_set_def parseTemplates_def parseOptionsTemplates_def)
  next
    case awaiting
    with g tc show ?thesis by (simp add: v9_set_def)
  next
    case data
    then have "wf_template t"
      using tc_get_wf_template [OF assms, of "v9_key src sid fsID" now t] g by simp
    with data g tc wf_readOptionsData [OF this tc, of body src sid]
      readFlowData_no_panic [OF this, of body clock "''netflow9''"] show ?thesis
      by (auto simp: v9_set_def)
  qed
qed

interpretation v9w: set_walk "v9_set src sid clock now" ErrV9FlowsetLength
    "v9_sets src sid clock now" "\<lambda>s. wf_cache (esCache s)" for src sid clock now
proof
  show "v9_sets src sid clock now b off s =
      (if off + 4 \<le> length b then do {
         i \<leftarrow> rd16 b off;
         l \<leftarrow> rd16 b (off + 2);
         if unat l < 4 \<or> length b < off + unat l then Some (Some (ErrV9FlowsetLength (unat l) off), s)
         else do {
           body \<leftarrow> slice b (off + 4) (off + unat l);
           s' \<leftarrow> v9_set src sid clock now i body s;
           v9_sets src sid clock now b (off + unat l) s'
         }
       } else Some (None, s))" for b off s
    by (subst v9_sets.simps) (simp add: flowsetHeaderLen_def)
qed (rule v9_set_inv)

lemma DecodeNetFlowV9_runs:
  assumes "wf_cache tc"
  shows "\<exists>p n e tc'. DecodeNetFlowV9 b src tc now = Some (p, n, e, tc') \<and> wf_cache tc' \<and>
    (p = None \<longleftrightarrow> length b < 20 \<or> w16 b 0 \<noteq> 9) \<and> (p = None \<longrightarrow> e \<noteq> None \<and> n = 0 \<and> tc' = tc) \<and>
    (\<forall>q. p = Some q \<longrightarrow> ExporterIP q = src)"
proof (cases "length b < 20 \<or> w16 b 0 \<noteq> 9")
  case True
  with assms show ?thesis by (auto simp: DecodeNetFlowV9_def netflowV9HeaderLen_def)
next
  case False
  let ?clock = "\<lparr>uptimeMs = w32 b 4, unix = time_unix (uint (w32 b 8)) 0\<rparr>"
  obtain e s where "v9_sets src (w32 b 16) ?clock now b 20 \<lparr>esRecords = [], esAwaiting = 0, esCache = tc\<rparr>
      = Some (e, s)" "wf_cache (esCache s)"
    using v9w.walk_total [of "\<lparr>esRecords = [], esAwaiting = 0, esCache = tc\<rparr>"] assms by fastforce
  with False show ?thesis
    by (cases e) (auto simp: DecodeNetFlowV9_def netflowV9HeaderLen_def)
qed

text \<open>
  C32. The v9 decoder on hostile input: on every byte string, from every well-formed cache, it
  returns without a panic, leaves a well-formed cache, and returns a packet exactly when the
  header is complete and of version 9; only then can it have counted a set as awaiting.
\<close>

theorem DecodeNetFlowV9_total:
  assumes "wf_cache tc"
  shows "\<exists>p n e tc'. DecodeNetFlowV9 b src tc now = Some (p, n, e, tc') \<and> wf_cache tc' \<and>
    (p = None \<longleftrightarrow> length b < 20 \<or> w16 b 0 \<noteq> 9) \<and> (p = None \<longrightarrow> e \<noteq> None \<and> n = 0 \<and> tc' = tc)"
  using DecodeNetFlowV9_runs [OF assms] by blast

theorem DecodeNetFlowV9_total_witness:
  "wf_cache NewTemplateCache \<and> (\<exists>p n e tc'. DecodeNetFlowV9 [0, 9] AddrZero NewTemplateCache 0
     = Some (p, n, e, tc') \<and> wf_cache tc' \<and>
    (p = None \<longleftrightarrow> length [0, 9 :: byte] < 20 \<or> w16 [0, 9] 0 \<noteq> 9) \<and> (p = None \<longrightarrow> e \<noteq> None \<and> n = 0 \<and> tc' = NewTemplateCache))"
  using wf_NewTemplateCache DecodeNetFlowV9_total [OF wf_NewTemplateCache] by blast

subsection \<open>An exporter's message, end to end\<close>







lemma flowRecord_seen [simp]: "flowRecord (t\<lparr>seen := x\<rparr>) = flowRecord t"
  by (simp add: flowRecord_def fun_eq_iff)


lemma sampling_tc_put [simp]: "sampling (tc_put k t now tc) = sampling tc"
  by (simp add: tc_put_def Let_def)



end
