(* ===== verification/Flow_IPFIX.thy ===== *)
theory Flow_IPFIX
  imports Flow_NetFlow9
begin

unbundle bit_operations_syntax

text \<open>
  IPFIX (\<open>internal/flow/ipfix.go\<close>): template sets with enterprise numbers and variable-length
  fields, the set loop and \<open>DecodeIPFIX\<close>, with the results of the v9 decoder proved through the
  same locale.
\<close>

definition ipfixHeaderLen :: nat where "ipfixHeaderLen = 16"
definition enterpriseBit :: u16 where "enterpriseBit = 0x8000"

subsection \<open>Template sets\<close>

text \<open>
  The field loop of \<open>parseIPFIXTemplates\<close>. The inner \<open>None\<close> is its \<open>return\<close> (the set ends
  inside a field definition); the flag is \<open>bad\<close>.
\<close>

definition ipfix_enterprise :: "bytes \<Rightarrow> nat \<Rightarrow> u16 \<Rightarrow> (u32 \<times> nat) option go" where
  "ipfix_enterprise body off raw =
     (if raw AND enterpriseBit \<noteq> 0 then
        (if length body < off + 4 then Some None
         else do { e \<leftarrow> rd32 body off; Some (Some (e, off + 4)) })
      else Some (Some (0, off)))"

definition ipfix_add_field :: "templateField \<Rightarrow> template \<Rightarrow> template" where
  "ipfix_add_field f t =
     (let t1 = (if variable f then t\<lparr>hasVarLen := True\<rparr> else t\<lparr>recordLen := recordLen t + unat (flen f)\<rparr>)
      in t1\<lparr>tfields := tfields t1 @ [f]\<rparr>)"

primrec ipfix_fields ::
  "bytes \<Rightarrow> nat \<Rightarrow> nat \<Rightarrow> template \<Rightarrow> bool \<Rightarrow> (template \<times> nat \<times> bool) option go" where
  "ipfix_fields body 0 off t bad = Some (Some (t, off, bad))"
| "ipfix_fields body (Suc n) off t bad =
     (if length body < off + 4 then Some None
      else do {
        raw \<leftarrow> rd16 body off;
        l \<leftarrow> rd16 body (off + 2);
        e \<leftarrow> ipfix_enterprise body (off + 4) raw;
        (case e of
           None \<Rightarrow> Some None
         | Some (ent, off') \<Rightarrow>
             ipfix_fields body n off'
               (ipfix_add_field \<lparr>ftyp = raw AND NOT enterpriseBit, flen = l, enterprise = ent\<rparr> t)
               (bad \<or> l = 0))
      })"

lemma ipfix_enterprise_Some: "\<exists>r. ipfix_enterprise body off raw = Some r \<and> (\<forall>e off'. r = Some (e, off') \<longrightarrow> off \<le> off')"
  by (auto simp: ipfix_enterprise_def)

lemma ipfix_fields_Some:
  "\<exists>r. ipfix_fields body n off t bad = Some r \<and> (\<forall>t' off' bad'. r = Some (t', off', bad') \<longrightarrow> off \<le> off')"
proof (induction n arbitrary: off t bad)
  case 0
  then show ?case by simp
next
  case (Suc n)
  show ?case
  proof (cases "length body < off + 4")
    case True
    then show ?thesis by simp
  next
    case False
    then have rd: "rd16 body off = Some (w16 body off)" "rd16 body (off + 2) = Some (w16 body (off + 2))"
      by simp_all
    obtain e where e: "ipfix_enterprise body (off + 4) (w16 body off) = Some e"
        "\<forall>en off'. e = Some (en, off') \<longrightarrow> off + 4 \<le> off'"
      using ipfix_enterprise_Some by blast
    show ?thesis
    proof (cases e)
      case None
      with False rd e show ?thesis by simp
    next
      case (Some p)
      obtain en off1 where p: "p = (en, off1)" by force
      obtain r where "ipfix_fields body n off1 (ipfix_add_field \<lparr>ftyp = w16 body off AND NOT enterpriseBit,
          flen = w16 body (off + 2), enterprise = en\<rparr> t) (bad \<or> w16 body (off + 2) = 0) = Some r"
        "\<forall>t' off' bad'. r = Some (t', off', bad') \<longrightarrow> off1 \<le> off'"
        using Suc.IH by blast
      moreover have "off \<le> off1" using e(2) Some p by auto
      ultimately show ?thesis using False rd e(1) Some p by (auto intro: le_trans)
    qed
  qed
qed

lemma ipfix_fields_off: "ipfix_fields body n off t bad = Some (Some (t', off', bad')) \<Longrightarrow> off \<le> off'"
  using ipfix_fields_Some [of body n off t bad] by auto

definition ipfix_key :: "Addr \<Rightarrow> u32 \<Rightarrow> u16 \<Rightarrow> templateKey" where
  "ipfix_key src domain i = \<lparr>tkExporter = src, tkSourceID = domain, tkId = i, tkVersion = 10\<rparr>"

function parseIPFIXTemplatesAt ::
  "bytes \<Rightarrow> Addr \<Rightarrow> u32 \<Rightarrow> gotime \<Rightarrow> bool \<Rightarrow> nat \<Rightarrow> TemplateCache \<Rightarrow> TemplateCache go" where
  "parseIPFIXTemplatesAt body src domain now options off tc =
     (let header = (if options then 6 else 4) in
      if length body < off + header then Some tc
      else do {
        i \<leftarrow> rd16 body off;
        fc \<leftarrow> rd16 body (off + 2);
        sc \<leftarrow> (if options then rd16 body (off + 4) else Some 0);
        if fc = 0 then parseIPFIXTemplatesAt body src domain now options (off + header) tc
        else if options \<and> (sc = 0 \<or> fc < sc) then Some tc
        else do {
          r \<leftarrow> ipfix_fields body (unat fc) (off + header) (template_empty\<lparr>scopeFields := unat sc\<rparr>) False;
          (case r of
             None \<Rightarrow> Some tc
           | Some (t, off', bad) \<Rightarrow>
               parseIPFIXTemplatesAt body src domain now options off'
                 (if bad \<or> (\<not> hasVarLen t \<and> recordLen t = 0) then tc
                  else tc_put (ipfix_key src domain i) t now tc))
        }
      })"
  by pat_completeness auto
termination
  by (relation "measure (\<lambda>(body, src, domain, now, options, off, tc). length body - off)")
    (auto dest!: ipfix_fields_off split: if_splits)

declare parseIPFIXTemplatesAt.simps [simp del]

definition parseIPFIXTemplates ::
  "bytes \<Rightarrow> Addr \<Rightarrow> u32 \<Rightarrow> TemplateCache \<Rightarrow> gotime \<Rightarrow> bool \<Rightarrow> TemplateCache go" where
  "parseIPFIXTemplates body src domain tc now options =
     parseIPFIXTemplatesAt body src domain now options 0 tc"

subsection \<open>The decoder\<close>

definition ipfix_set ::
  "Addr \<Rightarrow> u32 \<Rightarrow> gotime \<Rightarrow> u16 \<Rightarrow> bytes \<Rightarrow> exportState \<Rightarrow> exportState go" where
  "ipfix_set src domain now setID body s =
     (if setID = 2 then do {
        tc \<leftarrow> parseIPFIXTemplates body src domain (esCache s) now False;
        Some (s\<lparr>esCache := tc\<rparr>)
      }
      else if setID = 3 then do {
        tc \<leftarrow> parseIPFIXTemplates body src domain (esCache s) now True;
        Some (s\<lparr>esCache := tc\<rparr>)
      }
      else if 256 \<le> setID then
        (case tc_get (ipfix_key src domain setID) now (esCache s) of
           (None, tc) \<Rightarrow> Some (s\<lparr>esAwaiting := esAwaiting s + 1, esCache := tc\<rparr>)
         | (Some t, tc) \<Rightarrow>
             if isOptions t then do {
               tc' \<leftarrow> readOptionsData body t src domain tc;
               Some (s\<lparr>esCache := tc'\<rparr>)
             }
             else do {
               rs \<leftarrow> readFlowData body t \<lparr>uptimeMs = 0, unix = zero_time\<rparr> ''ipfix'';
               Some (s\<lparr>esRecords := esRecords s @ rs, esCache := tc\<rparr>)
             })
      else Some s)"

function ipfix_sets ::
  "Addr \<Rightarrow> u32 \<Rightarrow> gotime \<Rightarrow> bytes \<Rightarrow> nat \<Rightarrow> exportState \<Rightarrow> (flow_error option \<times> exportState) go" where
  "ipfix_sets src domain now b off s =
     (if off + flowsetHeaderLen \<le> length b then do {
        setID \<leftarrow> rd16 b off;
        setLen \<leftarrow> rd16 b (off + 2);
        if unat setLen < flowsetHeaderLen \<or> length b < off + unat setLen
        then Some (Some (ErrIPFIXSetLength (unat setLen) off), s)
        else do {
          body \<leftarrow> slice b (off + flowsetHeaderLen) (off + unat setLen);
          s' \<leftarrow> ipfix_set src domain now setID body s;
          ipfix_sets src domain now b (off + unat setLen) s'
        }
      } else Some (None, s))"
  by pat_completeness auto
termination
  by (relation "measure (\<lambda>(src, domain, now, b, off, s). length b - off)")
    (auto simp: flowsetHeaderLen_def)

declare ipfix_sets.simps [simp del]

definition DecodeIPFIX ::
  "bytes \<Rightarrow> Addr \<Rightarrow> TemplateCache \<Rightarrow> gotime \<Rightarrow>
     (packet option \<times> nat \<times> flow_error option \<times> TemplateCache) go" where
  "DecodeIPFIX b0 src tc now =
     (if length b0 < ipfixHeaderLen
      then Some (None, 0, Some (ErrShortPacket ipfixHeaderLen (length b0)), tc)
      else do {
        v \<leftarrow> rd16 b0 0;
        if v \<noteq> 10 then Some (None, 0, Some (ErrNotIPFIX v), tc)
        else do {
          ml \<leftarrow> rd16 b0 2;
          let msgLen = unat ml;
          if msgLen < ipfixHeaderLen then Some (None, 0, Some (ErrIPFIXHeaderLength msgLen), tc)
          else if length b0 < msgLen then Some (None, 0, Some (ErrShortPacket msgLen (length b0)), tc)
          else do {
            b \<leftarrow> slice b0 0 msgLen;
            domain \<leftarrow> rd32 b 12;
            (e, s) \<leftarrow> ipfix_sets src domain now b ipfixHeaderLen
                       \<lparr>esRecords = [], esAwaiting = 0, esCache = tc\<rparr>;
            (case e of
               Some err \<Rightarrow>
                 Some (Some \<lparr>ExporterIP = src, Records = esRecords s\<rparr>, esAwaiting s, Some err, esCache s)
             | None \<Rightarrow>
                 Some (Some \<lparr>ExporterIP = src,
                         Records = applySampling (esRecords s)
                           (getSampling \<lparr>skExporter = src, skSourceID = domain\<rparr> (esCache s))\<rparr>,
                       esAwaiting s, None, esCache s))
          }
        }
      })"

subsection \<open>Announced templates are well-formed\<close>

definition ipfix_ok :: "template \<Rightarrow> bool" where
  "ipfix_ok t \<longleftrightarrow> (hasVarLen t \<longrightarrow> tfields t \<noteq> []) \<and> (\<not> hasVarLen t \<longrightarrow> recordLen t = field_widths (tfields t))"

lemma ipfix_ok_empty [simp]: "ipfix_ok (template_empty\<lparr>scopeFields := n\<rparr>)"
  by (simp add: ipfix_ok_def template_empty_def)

lemma ipfix_ok_add [simp]: "ipfix_ok t \<Longrightarrow> ipfix_ok (ipfix_add_field f t)"
  by (auto simp: ipfix_ok_def ipfix_add_field_def Let_def)

lemma ipfix_ok_wf: "ipfix_ok t \<Longrightarrow> hasVarLen t \<or> recordLen t \<noteq> 0 \<Longrightarrow> wf_template t"
  by (cases "tfields t") (auto simp: ipfix_ok_def wf_template_def)

lemma ipfix_fields_ok:
  "ipfix_fields body n off t bad = Some (Some (t', off', bad')) \<Longrightarrow> ipfix_ok t \<Longrightarrow> ipfix_ok t'"
proof (induction n arbitrary: off t bad)
  case 0
  then show ?case by simp
next
  case (Suc n)
  from Suc.prems(1) obtain f off1 bad1 where
    "ipfix_fields body n off1 (ipfix_add_field f t) bad1 = Some (Some (t', off', bad'))"
    by (auto simp: bind_eq_Some_conv split: if_splits option.splits)
  then show ?case using Suc.IH Suc.prems(2) by simp
qed

lemma parseIPFIXTemplatesAt_wf:
  "wf_cache tc \<Longrightarrow> \<exists>tc'. parseIPFIXTemplatesAt body src domain now options off tc = Some tc' \<and> wf_cache tc'"
proof (induction body src domain now options off tc rule: parseIPFIXTemplatesAt.induct)
  case (1 body src domain now options off tc)
  define h where "h = (if options then 6 else 4 :: nat)"
  define sc where "sc = (if options then w16 body (off + 4) else 0)"
  let ?i = "w16 body off" and ?fc = "w16 body (off + 2)"
  note unfold = parseIPFIXTemplatesAt.simps [of body src domain now options off tc, folded h_def]
  show ?case
  proof (cases "length body < off + h")
    case True
    with "1.prems" show ?thesis by (simp add: unfold Let_def)
  next
    case in_range: False
    have rd: "rd16 body off = Some ?i" "rd16 body (off + 2) = Some ?fc"
        "(if options then rd16 body (off + 4) else Some 0) = Some sc"
      using in_range by (auto simp: h_def sc_def split: if_splits)
    note step = unfold [unfolded rd Let_def]
    consider (withdrawal) "?fc = 0" | (scope) "?fc \<noteq> 0" "options \<and> (sc = 0 \<or> ?fc < sc)"
      | (fields) "?fc \<noteq> 0" "\<not> (options \<and> (sc = 0 \<or> ?fc < sc))" by blast
    then show ?thesis
    proof cases
      case withdrawal
      with "1.IH"(1) [OF h_def _ rd] in_range "1.prems" show ?thesis by (simp add: step)
    next
      case scope
      have "parseIPFIXTemplatesAt body src domain now options off tc = Some tc"
        by (subst step) (use scope in_range in simp)
      with "1.prems" show ?thesis by blast
    next
      case fields
      let ?t0 = "template_empty\<lparr>scopeFields := unat sc\<rparr>"
      obtain r where r: "ipfix_fields body (unat ?fc) (off + h) ?t0 False = Some r"
        using ipfix_fields_Some by blast
      show ?thesis
      proof (cases r)
        case None
        with r fields in_range "1.prems" show ?thesis by (simp add: step)
      next
        case (Some p)
        obtain t off' bad where p: "p = (t, off', bad)" by (cases p) auto
        define tc1 where "tc1 = (if bad \<or> (\<not> hasVarLen t \<and> recordLen t = 0) then tc
            else tc_put (ipfix_key src domain ?i) t now tc)"
        have "ipfix_ok t" using ipfix_fields_ok [of body "unat ?fc" "off + h" ?t0 False] r Some p by simp
        then have "wf_cache tc1"
          unfolding tc1_def using "1.prems" by (auto intro: wf_tc_put ipfix_ok_wf)
        with "1.IH"(2) [OF h_def _ rd fields r Some p [symmetric] refl, folded tc1_def] in_range r Some p fields "1.prems"
        show ?thesis by (simp add: step tc1_def)
      qed
    qed
  qed
qed

lemma ipfix_set_inv:
  assumes "wf_cache (esCache s)"
  shows "\<exists>s'. ipfix_set src domain now setID body s = Some s' \<and> wf_cache (esCache s')"
proof -
  obtain g tc where g: "tc_get (ipfix_key src domain setID) now (esCache s) = (g, tc)" by force
  have tc: "wf_cache tc" using wf_tc_get [OF assms, of "ipfix_key src domain setID" now] g by simp
  consider (templates) "setID = 2 \<or> setID = 3 \<or> \<not> 256 \<le> setID"
    | (awaiting) "256 \<le> setID" "setID \<noteq> 2" "setID \<noteq> 3" "g = None"
    | (data) t where "256 \<le> setID" "setID \<noteq> 2" "setID \<noteq> 3" "g = Some t" by blast
  then show ?thesis
  proof cases
    case templates
    with assms parseIPFIXTemplatesAt_wf [OF assms, of body src domain now False 0]
      parseIPFIXTemplatesAt_wf [OF assms, of body src domain now True 0] show ?thesis
      by (auto simp: ipfix_set_def parseIPFIXTemplates_def)
  next
    case awaiting
    with g tc show ?thesis by (simp add: ipfix_set_def)
  next
    case data
    then have "wf_template t"
      using tc_get_wf_template [OF assms, of "ipfix_key src domain setID" now t] g by simp
    with data g tc wf_readOptionsData [OF this tc, of body src domain]
      readFlowData_no_panic [OF this, of body "\<lparr>uptimeMs = 0, unix = zero_time\<rparr>" "''ipfix''"] show ?thesis
      by (auto simp: ipfix_set_def)
  qed
qed

interpretation ipfixw: set_walk "ipfix_set src domain now" ErrIPFIXSetLength
    "ipfix_sets src domain now" "\<lambda>s. wf_cache (esCache s)" for src domain now
proof
  show "ipfix_sets src domain now b off s =
      (if off + 4 \<le> length b then do {
         i \<leftarrow> rd16 b off;
         l \<leftarrow> rd16 b (off + 2);
         if unat l < 4 \<or> length b < off + unat l then Some (Some (ErrIPFIXSetLength (unat l) off), s)
         else do {
           body \<leftarrow> slice b (off + 4) (off + unat l);
           s' \<leftarrow> ipfix_set src domain now i body s;
           ipfix_sets src domain now b (off + unat l) s'
         }
       } else Some (None, s))" for b off s
    by (subst ipfix_sets.simps) (simp add: flowsetHeaderLen_def)
qed (rule ipfix_set_inv)

definition ipfix_framed :: "bytes \<Rightarrow> bool" where
  "ipfix_framed b \<longleftrightarrow> 16 \<le> length b \<and> w16 b 0 = 10 \<and> 16 \<le> unat (w16 b 2) \<and> unat (w16 b 2) \<le> length b"

lemma DecodeIPFIX_runs:
  assumes "wf_cache tc"
  shows "\<exists>p n e tc'. DecodeIPFIX b src tc now = Some (p, n, e, tc') \<and> wf_cache tc' \<and>
    (p = None \<longleftrightarrow> \<not> ipfix_framed b) \<and> (p = None \<longrightarrow> e \<noteq> None \<and> n = 0 \<and> tc' = tc) \<and>
    (ipfix_framed b \<longrightarrow> DecodeIPFIX b src tc now = DecodeIPFIX (take (unat (w16 b 2)) b) src tc now) \<and>
    (\<forall>q. p = Some q \<longrightarrow> ExporterIP q = src)"
proof (cases "ipfix_framed b")
  case False
  with assms show ?thesis by (auto simp: DecodeIPFIX_def ipfixHeaderLen_def ipfix_framed_def Let_def)
next
  case True
  let ?b = "take (unat (w16 b 2)) b"
  obtain e s where w: "ipfix_sets src (w32 ?b 12) now ?b 16 \<lparr>esRecords = [], esAwaiting = 0, esCache = tc\<rparr>
      = Some (e, s)" "wf_cache (esCache s)"
    using ipfixw.walk_total [of "\<lparr>esRecords = [], esAwaiting = 0, esCache = tc\<rparr>"] assms by fastforce
  have "w16 ?b 0 = w16 b 0" "w16 ?b 2 = w16 b 2"
    using True by (simp_all add: ipfix_framed_def w16_take)
  with w True show ?thesis
    by (cases e) (auto simp: DecodeIPFIX_def ipfixHeaderLen_def ipfix_framed_def Let_def)
qed

text \<open>
  The IPFIX decoder on hostile input: on every byte string, from every well-formed cache, it
  returns without a panic, leaves a well-formed cache, and returns a packet exactly when the
  header is complete, of version 10, and states a length between 16 and the datagram's; the bytes
  behind the stated length change nothing.
\<close>

theorem DecodeIPFIX_total:
  assumes "wf_cache tc"
  shows "\<exists>p n e tc'. DecodeIPFIX b src tc now = Some (p, n, e, tc') \<and> wf_cache tc' \<and>
    (p = None \<longleftrightarrow> \<not> ipfix_framed b) \<and> (p = None \<longrightarrow> e \<noteq> None \<and> n = 0 \<and> tc' = tc) \<and>
    (ipfix_framed b \<longrightarrow> DecodeIPFIX b src tc now = DecodeIPFIX (take (unat (w16 b 2)) b) src tc now)"
  using DecodeIPFIX_runs [OF assms] by blast

theorem DecodeIPFIX_total_witness:
  "wf_cache NewTemplateCache \<and> (\<exists>p n e tc'. DecodeIPFIX [0, 10] AddrZero NewTemplateCache 0
     = Some (p, n, e, tc') \<and> wf_cache tc' \<and> p = None \<and> e \<noteq> None)"
proof -
  have "\<not> ipfix_framed [0, 10]" by (simp add: ipfix_framed_def)
  with wf_NewTemplateCache DecodeIPFIX_total [OF wf_NewTemplateCache, of "[0, 10]" AddrZero 0]
  show ?thesis by blast
qed

subsection \<open>Enterprise numbers and variable-length fields\<close>

text \<open>The wire form of a field specifier and of a template (RFC 7011, 3.2 and 3.4.1).\<close>

definition ipfix_field_bytes :: "templateField \<Rightarrow> bytes" where
  "ipfix_field_bytes f =
     put16 (if enterprise f = 0 then ftyp f else ftyp f OR enterpriseBit) @ put16 (flen f) @
     (if enterprise f = 0 then [] else put32 (enterprise f))"

definition ipfix_template_bytes :: "u16 \<Rightarrow> templateField list \<Rightarrow> bytes" where
  "ipfix_template_bytes i fs = put16 i @ be_bytes 2 (length fs) @ concat (map ipfix_field_bytes fs)"

definition ipfix_template :: "templateField list \<Rightarrow> template" where
  "ipfix_template fs = foldl (\<lambda>t f. ipfix_add_field f t) (template_empty\<lparr>scopeFields := 0\<rparr>) fs"

definition ipfix_field_valid :: "templateField \<Rightarrow> bool" where
  "ipfix_field_valid f \<longleftrightarrow> ftyp f AND enterpriseBit = 0 \<and> flen f \<noteq> 0"

lemma enterprise_bits:
  assumes "ty AND enterpriseBit = 0"
  shows "(ty OR enterpriseBit) AND enterpriseBit \<noteq> 0" and "(ty OR enterpriseBit) AND NOT enterpriseBit = ty"
    and "ty AND NOT enterpriseBit = ty"
proof -
  have disj: "\<not> (bit ty n \<and> bit enterpriseBit n)" for n
    using assms by (metis bit_and_iff bit_0_eq bot_apply bot_bool_def)
  show "(ty OR enterpriseBit) AND enterpriseBit \<noteq> 0"
    by (simp add: bit.conj_disj_distrib2 assms) (simp add: enterpriseBit_def)
  show "ty AND NOT enterpriseBit = ty" and "(ty OR enterpriseBit) AND NOT enterpriseBit = ty"
    by (rule bit_word_eqI; use disj in \<open>auto simp: bit_simps\<close>)+
qed

lemma length_ipfix_field_bytes: "4 \<le> length (ipfix_field_bytes f)"
  by (simp add: ipfix_field_bytes_def)

lemma ipfix_field_reads:
  fixes pre post :: bytes
  assumes "ipfix_field_valid f"
  defines "b \<equiv> pre @ ipfix_field_bytes f @ post"
  shows "w16 b (length pre) AND NOT enterpriseBit = ftyp f" and "w16 b (length pre + 2) = flen f"
    and "ipfix_enterprise b (length pre + 4) (w16 b (length pre))
      = Some (Some (enterprise f, length pre + length (ipfix_field_bytes f)))"
proof -
  note bits = enterprise_bits [of "ftyp f"]
  have ty: "ftyp f AND enterpriseBit = 0" using assms by (simp add: ipfix_field_valid_def)
  have raw: "w16 b (length pre) = (if enterprise f = 0 then ftyp f else ftyp f OR enterpriseBit)"
    by (simp add: b_def w16_def ipfix_field_bytes_def)
  then show "w16 b (length pre) AND NOT enterpriseBit = ftyp f" using bits ty by simp
  show "w16 b (length pre + 2) = flen f" by (simp add: b_def w16_def ipfix_field_bytes_def)
  have "w32 b (length pre + 4) = enterprise f" if "enterprise f \<noteq> 0"
    using that by (simp add: b_def w32_def ipfix_field_bytes_def)
  with raw bits ty show "ipfix_enterprise b (length pre + 4) (w16 b (length pre))
      = Some (Some (enterprise f, length pre + length (ipfix_field_bytes f)))"
    by (cases "enterprise f = 0") (simp_all add: ipfix_enterprise_def b_def ipfix_field_bytes_def)
qed

lemma ipfix_fields_bytes:
  "\<forall>f \<in> set fs. ipfix_field_valid f \<Longrightarrow>
   ipfix_fields (pre @ concat (map ipfix_field_bytes fs) @ post) (length fs) (length pre) t False
     = Some (Some (foldl (\<lambda>t f. ipfix_add_field f t) t fs,
          length pre + length (concat (map ipfix_field_bytes fs)), False))"
proof (induction fs arbitrary: pre t)
  case Nil
  then show ?case by simp
next
  case (Cons f fs)
  let ?post = "concat (map ipfix_field_bytes fs) @ post"
  let ?b = "pre @ ipfix_field_bytes f @ ?post"
  from Cons.prems have v: "ipfix_field_valid f" by simp
  note rd = ipfix_field_reads [OF v, of pre ?post]
  have len: "\<not> length ?b < length pre + 4" using length_ipfix_field_bytes [of f] by simp
  have f: "\<lparr>ftyp = ftyp f, flen = flen f, enterprise = enterprise f\<rparr> = f" by simp
  have "flen f \<noteq> 0" using v by (simp add: ipfix_field_valid_def)
  with rd len have "ipfix_fields ?b (Suc (length fs)) (length pre) t False
      = ipfix_fields ?b (length fs) (length pre + length (ipfix_field_bytes f)) (ipfix_add_field f t) False"
    by (simp add: f)
  also have "\<dots> = Some (Some (foldl (\<lambda>t f. ipfix_add_field f t) (ipfix_add_field f t) fs,
      length pre + length (concat (map ipfix_field_bytes (f # fs))), False))"
    using Cons.IH [of "pre @ ipfix_field_bytes f" "ipfix_add_field f t"] Cons.prems by (simp add: add.assoc)
  finally show ?case by simp
qed

lemma ipfix_foldl_fields:
  "tfields (foldl (\<lambda>t f. ipfix_add_field f t) t fs) = tfields t @ fs"
  "hasVarLen (foldl (\<lambda>t f. ipfix_add_field f t) t fs) \<longleftrightarrow> hasVarLen t \<or> (\<exists>f \<in> set fs. variable f)"
  "recordLen (foldl (\<lambda>t f. ipfix_add_field f t) t fs)
     = recordLen t + field_widths (filter (\<lambda>f. \<not> variable f) fs)"
  by (induction fs arbitrary: t) (auto simp: ipfix_add_field_def Let_def field_widths_def)

lemma ipfix_template_simps:
  "hasVarLen (ipfix_template fs) \<longleftrightarrow> (\<exists>f \<in> set fs. variable f)"
  "recordLen (ipfix_template fs) = field_widths (filter (\<lambda>f. \<not> variable f) fs)"
  unfolding ipfix_template_def ipfix_foldl_fields by (simp_all add: template_empty_def)

lemma ipfix_template_stored:
  assumes "fs \<noteq> []" and "\<forall>f \<in> set fs. ipfix_field_valid f"
  shows "hasVarLen (ipfix_template fs) \<or> recordLen (ipfix_template fs) \<noteq> 0"
proof (cases fs)
  case (Cons f gs)
  then have "0 < unat (flen f)" using assms(2) by (simp add: ipfix_field_valid_def unat_gt_0)
  with Cons show ?thesis by (auto simp: ipfix_template_simps field_widths_def)
qed (simp add: assms(1))

text \<open>
  A template set that announces any number of templates, enterprise fields and
  variable-length fields included, stores every one of them as it was written (field types with
  the enterprise bit stripped, lengths, enterprise numbers, in order), each under its own id.
\<close>

theorem parseIPFIXTemplates_roundtrip:
  assumes "\<forall>(i, fs) \<in> set ts. fs \<noteq> [] \<and> length fs < 2 ^ 16 \<and> (\<forall>f \<in> set fs. ipfix_field_valid f)"
  shows "parseIPFIXTemplates (concat (map (\<lambda>(i, fs). ipfix_template_bytes i fs) ts)) src domain tc now False
    = Some (foldl (\<lambda>tc (i, fs). tc_put (ipfix_key src domain i) (ipfix_template fs) now tc) tc ts)"
proof -
  have "parseIPFIXTemplatesAt (pre @ concat (map (\<lambda>(i, fs). ipfix_template_bytes i fs) ts)) src domain now False
      (length pre) tc = Some (foldl (\<lambda>tc (i, fs). tc_put (ipfix_key src domain i) (ipfix_template fs) now tc) tc ts)"
    for pre
    using assms
  proof (induction ts arbitrary: pre tc)
    case Nil
    then show ?case by (subst parseIPFIXTemplatesAt.simps) simp
  next
    case (Cons x ts)
    obtain i fs where x: "x = (i, fs)" by force
    let ?t = "ipfix_template_bytes i fs" and ?post = "concat (map (\<lambda>(i, fs). ipfix_template_bytes i fs) ts)"
    let ?b = "pre @ ?t @ ?post"
    from Cons.prems x have fs: "fs \<noteq> []" "length fs < 2 ^ 16" "\<forall>f \<in> set fs. ipfix_field_valid f" by auto
    have i: "w16 ?b (length pre) = i" by (simp add: ipfix_template_bytes_def w16_def)
    have "w16 ?b (length pre + 2) = be_word (be_bytes 2 (length fs))"
      by (simp add: ipfix_template_bytes_def w16_def)
    also have "\<dots> = word_of_nat (length fs)" using fs(2) by (subst be_word_bytes) simp_all
    finally have c: "unat (w16 ?b (length pre + 2)) = length fs" using fs(2) by (simp add: unat_of_nat)
    then have c0: "w16 ?b (length pre + 2) \<noteq> 0" using fs(1) by auto
    have f: "ipfix_fields ?b (length fs) (length pre + 4) (template_empty\<lparr>scopeFields := 0\<rparr>) False
        = Some (Some (ipfix_template fs, length pre + length ?t, False))"
      using ipfix_fields_bytes [OF fs(3), of "pre @ put16 i @ be_bytes 2 (length fs)" ?post
          "template_empty\<lparr>scopeFields := 0\<rparr>"]
      by (simp add: ipfix_template_bytes_def ipfix_template_def add.assoc)
    have len: "length pre + 4 \<le> length ?b" by (simp add: ipfix_template_bytes_def)
    have "parseIPFIXTemplatesAt ?b src domain now False (length pre) tc
        = parseIPFIXTemplatesAt ?b src domain now False (length pre + length ?t)
            (tc_put (ipfix_key src domain i) (ipfix_template fs) now tc)"
      using len i c c0 f ipfix_template_stored [OF fs(1,3)]
      by (subst parseIPFIXTemplatesAt.simps) (auto simp del: add_2_eq_Suc' length_append)
    with Cons.IH [of "pre @ ?t" "tc_put (ipfix_key src domain i) (ipfix_template fs) now tc"] Cons.prems
    show ?case by (simp add: x)
  qed
  from this [of "[]"] show ?thesis by (simp add: parseIPFIXTemplates_def)
qed

lemma be_bytes_2: "be_bytes 2 v = [word_of_nat (v div 256 mod 256), word_of_nat (v mod 256)]"
  by (simp add: numeral_2_eq_2)

lemma be_bytes_4:
  "be_bytes 4 v = [word_of_nat (v div 256 div 256 div 256 mod 256), word_of_nat (v div 256 div 256 mod 256),
     word_of_nat (v div 256 mod 256), word_of_nat (v mod 256)]"
proof -
  have "(4::nat) = Suc (Suc (Suc (Suc 0)))" by simp
  then show ?thesis by (simp only: be_bytes.simps append.simps)
qed

theorem parseIPFIXTemplates_roundtrip_witness:
  "parseIPFIXTemplates [1, 0, 0, 2, 0, 8, 0, 4, 0x80, 5, 0xFF, 0xFF, 0, 0, 0, 9] (Addr4 1) 7 NewTemplateCache 3 False
    = Some (tc_put (ipfix_key (Addr4 1) 7 256)
        \<lparr>tfields = [\<lparr>ftyp = 8, flen = 4, enterprise = 0\<rparr>, \<lparr>ftyp = 5, flen = 0xFFFF, enterprise = 9\<rparr>],
          recordLen = 4, hasVarLen = True, scopeFields = 0, seen = zero_time\<rparr> 3 NewTemplateCache)"
  using parseIPFIXTemplates_roundtrip [of "[(256, [\<lparr>ftyp = 8, flen = 4, enterprise = 0\<rparr>,
      \<lparr>ftyp = 5, flen = 0xFFFF, enterprise = 9\<rparr>])]" "Addr4 1" 7 NewTemplateCache 3]
  by (simp add: ipfix_field_valid_def enterpriseBit_def ipfix_template_bytes_def ipfix_field_bytes_def
      ipfix_template_def ipfix_add_field_def template_empty_def variable_def varLength_def be_bytes_2 be_bytes_4)

end
