(* ===== verification/Flow_XDR.thy ===== *)
theory Flow_XDR
  imports Flow_Fields
begin

unbundle bit_operations_syntax

text \<open>
  The XDR reader of the sFlow decoder (\<open>xdrReader\<close> in \<open>internal/flow/sflow.go\<close>). The methods
  thread the reader explicitly; \<open>None\<close> is a panic. The locale \<open>xdr_op\<close> is what a decoder may rely
  on: an operation returns, keeps the buffer, never moves back, never leaves the buffer, and a
  reader that has gone bad stays bad.
\<close>

record xdrReader =
  xb :: bytes
  xoff :: nat
  xbad :: bool

definition xdr_new :: "bytes \<Rightarrow> xdrReader" where
  "xdr_new b = \<lparr>xb = b, xoff = 0, xbad = False\<rparr>"

definition xdr_u32 :: "xdrReader \<Rightarrow> (u32 \<times> xdrReader) go" where
  "xdr_u32 x =
     (if xbad x \<or> length (xb x) < xoff x + 4 then Some (0, x\<lparr>xbad := True\<rparr>)
      else do { v \<leftarrow> rd32 (xb x) (xoff x); Some (v, x\<lparr>xoff := xoff x + 4\<rparr>) })"

definition xdr_take :: "u32 \<Rightarrow> xdrReader \<Rightarrow> (bytes \<times> xdrReader) go" where
  "xdr_take n x =
     (if xbad x \<or> length (xb x) < xoff x + unat n then Some ([], x\<lparr>xbad := True\<rparr>)
      else do {
        let e = xoff x + unat n;
        out \<leftarrow> slice (xb x) (xoff x) e;
        let pad = (4 - unat n mod 4) mod 4;
        if length (xb x) < e + pad then Some (out, x\<lparr>xoff := length (xb x)\<rparr>)
        else Some (out, x\<lparr>xoff := e + pad\<rparr>)
      })"

definition xdr_skip :: "nat \<Rightarrow> xdrReader \<Rightarrow> (unit \<times> xdrReader) go" where
  "xdr_skip n x =
     Some ((), if xbad x \<or> length (xb x) < xoff x + n then x\<lparr>xbad := True\<rparr> else x\<lparr>xoff := xoff x + n\<rparr>)"

abbreviation sflowAddrIPv4 :: u32 where "sflowAddrIPv4 \<equiv> 1"
abbreviation sflowAddrIPv6 :: u32 where "sflowAddrIPv6 \<equiv> 2"

definition xdr_addr :: "xdrReader \<Rightarrow> (Addr \<times> xdrReader) go" where
  "xdr_addr x = do {
     (t, x) \<leftarrow> xdr_u32 x;
     if t = sflowAddrIPv4 then do { (b, x) \<leftarrow> xdr_take 4 x; Some (addrOrZero b, x) }
     else if t = sflowAddrIPv6 then do { (b, x) \<leftarrow> xdr_take 16 x; Some (addrOrZero b, x) }
     else if t = 0 then Some (AddrZero, x)
     else Some (AddrZero, x\<lparr>xbad := True\<rparr>)
   }"

text \<open>
  The framing the decoder uses twice, for samples and for the records of a sample:
  \<open>format := x.u32(); body := x.take(x.u32())\<close>.
\<close>

definition xdr_frame :: "xdrReader \<Rightarrow> ((u32 \<times> bytes) \<times> xdrReader) go" where
  "xdr_frame x = do {
     (fmt, x) \<leftarrow> xdr_u32 x;
     (l, x) \<leftarrow> xdr_u32 x;
     (body, x) \<leftarrow> xdr_take l x;
     Some ((fmt, body), x)
   }"

subsection \<open>The contract of a read\<close>

definition xdr_le :: "xdrReader \<Rightarrow> xdrReader \<Rightarrow> bool" where
  "xdr_le x y \<longleftrightarrow> xb y = xb x \<and> xoff x \<le> xoff y \<and> (xbad x \<longrightarrow> xbad y) \<and>
     (xoff x \<le> length (xb x) \<longrightarrow> xoff y \<le> length (xb y))"

lemma xdr_le_refl [simp]: "xdr_le x x"
  by (simp add: xdr_le_def)

lemma xdr_le_trans [trans]: "xdr_le x y \<Longrightarrow> xdr_le y z \<Longrightarrow> xdr_le x z"
  by (auto simp: xdr_le_def)

locale xdr_op =
  fixes op :: "xdrReader \<Rightarrow> ('a \<times> xdrReader) go"
  assumes op_runs: "\<exists>v y. op x = Some (v, y) \<and> xdr_le x y"
begin

lemma op_bind: "(\<And>v y. xdr_le x y \<Longrightarrow> P (k v y)) \<Longrightarrow> P (op x \<bind> (\<lambda>(v, y). k v y))"
  using op_runs [of x] by auto

lemma op_bind_total: "(\<And>v y. k v y \<noteq> None) \<Longrightarrow> op x \<bind> (\<lambda>(v, y). k v y) \<noteq> None"
  by (rule op_bind)

lemma op_SomeD: "op x = Some (v, y) \<Longrightarrow> xdr_le x y"
  using op_runs [of x] by auto

end

text \<open>Two reads in sequence are a read.\<close>

locale xdr_seq = one: xdr_op op1 + two: xdr_op "op2 v" for op1 and op2 :: "'a \<Rightarrow> xdrReader \<Rightarrow> ('b \<times> xdrReader) go" and v
begin

lemma seq_runs: "\<exists>w z. op1 x \<bind> (\<lambda>(v', y). op2 v y) = Some (w, z) \<and> xdr_le x z"
proof -
  obtain v' y where y: "op1 x = Some (v', y)" "xdr_le x y" using one.op_runs by blast
  obtain w z where "op2 v y = Some (w, z)" "xdr_le y z" using two.op_runs by blast
  with y show ?thesis by (auto intro: xdr_le_trans)
qed

end

locale xdr_op2 = xdr_op op for op :: "xdrReader \<Rightarrow> (('a \<times> 'b) \<times> xdrReader) go"
begin

lemma op_bind2_total: "(\<And>v w y. k v w y \<noteq> None) \<Longrightarrow> op x \<bind> (\<lambda>((v, w), y). k v w y) \<noteq> None"
  using op_runs [of x] by auto

end

interpretation xu: xdr_op xdr_u32
  by unfold_locales (auto simp: xdr_u32_def xdr_le_def)

interpretation xt: xdr_op "xdr_take n" for n
  by unfold_locales (auto simp: xdr_take_def xdr_le_def Let_def)

interpretation xs: xdr_op "xdr_skip n" for n
  by unfold_locales (auto simp: xdr_skip_def xdr_le_def)

interpretation xa: xdr_op xdr_addr
proof
  fix x
  obtain t y where y: "xdr_u32 x = Some (t, y)" "xdr_le x y" using xu.op_runs by blast
  obtain b z where "xdr_take 4 y = Some (b, z)" "xdr_le y z" using xt.op_runs by blast
  moreover obtain b' z' where "xdr_take 16 y = Some (b', z')" "xdr_le y z'" using xt.op_runs by blast
  moreover have "xdr_le y (y\<lparr>xbad := True\<rparr>)" by (simp add: xdr_le_def)
  ultimately show "\<exists>v z. xdr_addr x = Some (v, z) \<and> xdr_le x z"
    using y by (auto simp: xdr_addr_def intro: xdr_le_trans)
qed

interpretation xf: xdr_op2 xdr_frame
proof
  fix x
  obtain t x1 where 1: "xdr_u32 x = Some (t, x1)" "xdr_le x x1" using xu.op_runs by blast
  obtain l x2 where 2: "xdr_u32 x1 = Some (l, x2)" "xdr_le x1 x2" using xu.op_runs by blast
  obtain b x3 where "xdr_take l x2 = Some (b, x3)" "xdr_le x2 x3" using xt.op_runs by blast
  with 1 2 show "\<exists>v z. xdr_frame x = Some (v, z) \<and> xdr_le x z"
    by (auto simp: xdr_frame_def intro: xdr_le_trans)
qed

lemmas xdr_total [no_panic] = xu.op_bind_total xt.op_bind_total xs.op_bind_total xa.op_bind_total
  xf.op_bind2_total

subsection \<open>Writing and reading back\<close>

text \<open>The XDR encoding of an opaque: its length, its bytes, zeros up to a multiple of four.\<close>

definition xdr_pad :: "bytes \<Rightarrow> bytes" where
  "xdr_pad body = body @ replicate ((4 - length body mod 4) mod 4) 0"

definition frame_bytes :: "u32 \<times> bytes \<Rightarrow> bytes" where
  "frame_bytes f = put32 (fst f) @ be_bytes 4 (length (snd f)) @ xdr_pad (snd f)"

abbreviation xdr_at :: "bytes \<Rightarrow> nat \<Rightarrow> xdrReader" where
  "xdr_at b off \<equiv> \<lparr>xb = b, xoff = off, xbad = False\<rparr>"

lemma xdr_u32_at: "xdr_u32 (xdr_at (pre @ put32 v @ post) (length pre))
    = Some (v, xdr_at (pre @ put32 v @ post) (length pre + 4))"
  by (simp add: xdr_u32_def w32_def)

lemma xdr_take_at:
  assumes "length body < 2 ^ 32"
  shows "xdr_take (word_of_nat (length body)) (xdr_at (pre @ xdr_pad body @ post) (length pre))
    = Some (body, xdr_at (pre @ xdr_pad body @ post) (length pre + length (xdr_pad body)))"
proof -
  have "unat (word_of_nat (length body) :: u32) = length body"
    using assms by (simp add: unat_of_nat)
  then show ?thesis by (simp add: xdr_take_def xdr_pad_def Let_def)
qed

lemma xdr_frame_at:
  assumes "length (snd f) < 2 ^ 32"
  shows "xdr_frame (xdr_at (pre @ frame_bytes f @ post) (length pre))
    = Some (f, xdr_at (pre @ frame_bytes f @ post) (length pre + length (frame_bytes f)))"
proof -
  let ?b = "pre @ frame_bytes f @ post"
  let ?l = "word_of_nat (length (snd f)) :: u32"
  have "unat ?l = length (snd f)" using assms by (simp add: unat_of_nat)
  then have l: "be_bytes 4 (length (snd f)) = put32 ?l" by simp
  have b: "?b = pre @ put32 (fst f) @ put32 ?l @ xdr_pad (snd f) @ post"
    by (simp only: frame_bytes_def l append_assoc)
  have 1: "xdr_u32 (xdr_at ?b (length pre)) = Some (fst f, xdr_at ?b (length pre + 4))"
    unfolding b by (rule xdr_u32_at)
  have 2: "xdr_u32 (xdr_at ?b (length pre + 4)) = Some (?l, xdr_at ?b (length pre + 8))"
    using xdr_u32_at [of "pre @ put32 (fst f)" ?l "xdr_pad (snd f) @ post"] unfolding b by (simp add: add.assoc)
  have 3: "xdr_take ?l (xdr_at ?b (length pre + 8))
      = Some (snd f, xdr_at ?b (length pre + 8 + length (xdr_pad (snd f))))"
    using xdr_take_at [OF assms, of "pre @ put32 (fst f) @ put32 ?l" post] unfolding b by (simp add: add.assoc)
  have "length (frame_bytes f) = 8 + length (xdr_pad (snd f))" by (simp add: frame_bytes_def)
  then show ?thesis by (simp add: xdr_frame_def 1 2 3 add.assoc)
qed

end
