(* ===== verification/Flow_SFlow.thy ===== *)
theory Flow_SFlow
  imports Flow_XDR
begin

unbundle bit_operations_syntax

text \<open>
  The sFlow v5 decoder (\<open>internal/flow/sflow.go\<close>): the headers of a sampled packet (Ethernet with
  up to two VLAN tags, IPv4, IPv6 with extension headers, the transport header), the records of a
  flow sample, the sample and the datagram. A reader that fills in the record behind a pointer
  takes the record and returns it.

  Shown: no datagram makes the decoder panic; every record has both addresses, its counters are
  the sampled frame times the rate, computed without wrap-around; the loops are bounded by the
  declared caps; samples are located by their declared lengths whatever they hold; and a TCP, UDP
  or SCTP packet written as IPv4 behind Ethernet tags is read back with its own addresses and ports.
\<close>

abbreviation sflowVersion :: u32 where "sflowVersion \<equiv> 5"
abbreviation sflowMaxSamples :: u32 where "sflowMaxSamples \<equiv> 512"
abbreviation sflowMaxRecords :: u32 where "sflowMaxRecords \<equiv> 64"
abbreviation sflowMaxASPathTotal :: u32 where "sflowMaxASPathTotal \<equiv> 256"
abbreviation sflowIfUnknown :: u32 where "sflowIfUnknown \<equiv> 0x3FFFFFFF"

definition IsSFlow :: "bytes \<Rightarrow> bool go" where
  "IsSFlow b = (if 4 \<le> length b then do { v \<leftarrow> rd32 b 0; Some (v = sflowVersion) } else Some False)"

definition sflowIf :: "u32 \<Rightarrow> u32 \<Rightarrow> u32" where
  "sflowIf format v = (if format \<noteq> 0 \<or> v = sflowIfUnknown then 0 else v)"

subsection \<open>Packet headers\<close>

definition parseL4 :: "bytes \<Rightarrow> Record \<Rightarrow> Record go" where
  "parseL4 h r =
     (if Protocol r = 6 then do {
        r \<leftarrow> (if 4 \<le> length h then do {
               s \<leftarrow> rd16 h 0; d \<leftarrow> rd16 h 2; Some (r\<lparr>SrcPort := s, DstPort := d\<rparr>) }
             else Some r);
        if 14 \<le> length h then do { f \<leftarrow> idx h 13; Some (r\<lparr>TCPFlags := f\<rparr>) } else Some r
      }
      else if Protocol r = 17 \<or> Protocol r = 132 then
        (if 4 \<le> length h then do {
           s \<leftarrow> rd16 h 0; d \<leftarrow> rd16 h 2; Some (r\<lparr>SrcPort := s, DstPort := d\<rparr>) }
         else Some r)
      else if Protocol r = 1 \<or> Protocol r = 58 then
        (if 2 \<le> length h then do {
           a \<leftarrow> idx h 0; b \<leftarrow> idx h 1;
           Some (r\<lparr>ICMPType := push_bit 8 (ucast a) OR ucast b\<rparr>) }
         else Some r)
      else Some r)"

definition parseIPv4Header :: "bytes \<Rightarrow> Record \<Rightarrow> Record go" where
  "parseIPv4Header h r =
     (if length h < 20 then Some r
      else do {
        h0 \<leftarrow> idx h 0;
        if drop_bit 4 h0 \<noteq> 4 then Some r
        else do {
          let ihl = unat (h0 AND 0x0F) * 4;
          if ihl < 20 then Some r
          else do {
            tos \<leftarrow> idx h 1;
            proto \<leftarrow> idx h 9;
            s \<leftarrow> slice h 12 16;
            d \<leftarrow> slice h 16 20;
            let r = r\<lparr>TOS := tos, Protocol := proto, SrcAddr := Addr4 (be_word s), DstAddr := Addr4 (be_word d)\<rparr>;
            frag \<leftarrow> rd16 h 6;
            if frag AND 0x1FFF \<noteq> 0 \<or> length h < ihl then Some r
            else do { l4 \<leftarrow> slice h ihl (length h); parseL4 l4 r }
          }
        }
      })"

text \<open>The loop over extension headers; the number is what is left of its four hops.\<close>

primrec ipv6_walk :: "nat \<Rightarrow> bytes \<Rightarrow> byte \<Rightarrow> nat \<Rightarrow> Record \<Rightarrow> Record go" where
  "ipv6_walk 0 h nxt off r = Some (r\<lparr>Protocol := nxt\<rparr>)"
| "ipv6_walk (Suc hops) h nxt off r =
     (if nxt = 0 \<or> nxt = 43 \<or> nxt = 60 then
        (if length h < off + 2 then Some (r\<lparr>Protocol := nxt\<rparr>)
         else do {
           n \<leftarrow> idx h off;
           l \<leftarrow> idx h (off + 1);
           ipv6_walk hops h n (off + (unat l + 1) * 8) r
         })
      else if nxt = 44 then
        (if length h < off + 8 then Some (r\<lparr>Protocol := nxt\<rparr>)
         else do {
           f \<leftarrow> rd16 h (off + 2);
           n \<leftarrow> idx h off;
           if drop_bit 3 f \<noteq> 0 then Some (r\<lparr>Protocol := n\<rparr>)
           else ipv6_walk hops h n (off + 8) r
         })
      else
        (let r = r\<lparr>Protocol := nxt\<rparr> in
         if off \<le> length h then do { l4 \<leftarrow> slice h off (length h); parseL4 l4 r } else Some r))"

definition parseIPv6Header :: "bytes \<Rightarrow> Record \<Rightarrow> Record go" where
  "parseIPv6Header h r =
     (if length h < 40 then Some r
      else do {
        h0 \<leftarrow> idx h 0;
        if drop_bit 4 h0 \<noteq> 6 then Some r
        else do {
          h1 \<leftarrow> idx h 1;
          s \<leftarrow> slice h 8 24;
          d \<leftarrow> slice h 24 40;
          let r = r\<lparr>TOS := push_bit 4 h0 OR drop_bit 4 h1,
                    SrcAddr := addr_unmap (Addr6 (be_word s)), DstAddr := addr_unmap (Addr6 (be_word d))\<rparr>;
          nxt \<leftarrow> idx h 6;
          ipv6_walk 4 h nxt 40 r
        }
      })"

text \<open>
  The loop over VLAN tags; the number is what is left of its two rounds. \<open>Inl\<close> is the early
  return, \<open>Inr\<close> the end of the loop with the ethertype and the offset behind the tags.
\<close>

primrec eth_tags :: "nat \<Rightarrow> bytes \<Rightarrow> u16 \<Rightarrow> nat \<Rightarrow> Record \<Rightarrow> (Record + u16 \<times> nat \<times> Record) go" where
  "eth_tags 0 h et off r = Some (Inr (et, off, r))"
| "eth_tags (Suc n) h et off r =
     (if et = 0x8100 \<or> et = 0x88A8 \<or> et = 0x9100 then
        (if length h < off + 4 then Some (Inl r)
         else do {
           t \<leftarrow> rd16 h off;
           et' \<leftarrow> rd16 h (off + 2);
           eth_tags n h et' (off + 4) (if Suc n = 2 then r\<lparr>SrcVLAN := t AND 0x0FFF\<rparr> else r)
         })
      else Some (Inr (et, off, r)))"

definition parseEthernetHeader :: "bytes \<Rightarrow> Record \<Rightarrow> Record go" where
  "parseEthernetHeader h r =
     (if length h < 14 then Some r
      else do {
        dm \<leftarrow> slice h 0 6;
        sm \<leftarrow> slice h 6 12;
        et \<leftarrow> rd16 h 12;
        t \<leftarrow> eth_tags 2 h et 14 (r\<lparr>DstMAC := beUint dm, SrcMAC := beUint sm\<rparr>);
        (case t of
           Inl r \<Rightarrow> Some r
         | Inr (et, off, r) \<Rightarrow>
             if et = 0x0800 then do { ip \<leftarrow> slice h off (length h); parseIPv4Header ip r }
             else if et = 0x86DD then do { ip \<leftarrow> slice h off (length h); parseIPv6Header ip r }
             else Some r)
      })"

subsection \<open>The records of a flow sample\<close>

definition sflowReadRawHeader :: "bytes \<Rightarrow> Record \<Rightarrow> (u32 option \<times> Record) go" where
  "sflowReadRawHeader body r = do {
     (proto, x) \<leftarrow> xdr_u32 (xdr_new body);
     (frameLen, x) \<leftarrow> xdr_u32 x;
     (_, x) \<leftarrow> xdr_skip 4 x;
     (l, x) \<leftarrow> xdr_u32 x;
     (hdr, x) \<leftarrow> xdr_take l x;
     if xbad x then Some (None, r)
     else do {
       r \<leftarrow> (if proto = 1 then parseEthernetHeader hdr r
            else if proto = 11 then parseIPv4Header hdr r
            else if proto = 12 then parseIPv6Header hdr r
            else Some r);
       Some (Some frameLen, r)
     }
   }"

definition sflowReadEthernetData :: "bytes \<Rightarrow> Record \<Rightarrow> Record go" where
  "sflowReadEthernetData body r = do {
     (_, x) \<leftarrow> xdr_skip 4 (xdr_new body);
     (src, x) \<leftarrow> xdr_take 6 x;
     (dst, x) \<leftarrow> xdr_take 6 x;
     if xbad x then Some r
     else do {
       let r = (if SrcMAC r = 0 then r\<lparr>SrcMAC := beUint src\<rparr> else r);
       Some (if DstMAC r = 0 then r\<lparr>DstMAC := beUint dst\<rparr> else r)
     }
   }"

definition sflowReadIPData :: "bytes \<Rightarrow> bool \<Rightarrow> bool \<Rightarrow> Record \<Rightarrow> (u32 option \<times> Record) go" where
  "sflowReadIPData body v6 haveHeader r = do {
     (len, x) \<leftarrow> xdr_u32 (xdr_new body);
     (proto, x) \<leftarrow> xdr_u32 x;
     (src, x) \<leftarrow> xdr_take (if v6 then 16 else 4) x;
     (dst, x) \<leftarrow> xdr_take (if v6 then 16 else 4) x;
     (sport, x) \<leftarrow> xdr_u32 x;
     (dport, x) \<leftarrow> xdr_u32 x;
     (flags, x) \<leftarrow> xdr_u32 x;
     (tos, x) \<leftarrow> xdr_u32 x;
     if xbad x then Some (None, r)
     else Some (Some len,
       if \<not> haveHeader \<and> \<not> addr_valid (SrcAddr r) then
         r\<lparr>Protocol := narrow8 (ucast proto), SrcAddr := addrOrZero src, DstAddr := addrOrZero dst,
           SrcPort := narrow16 (ucast sport), DstPort := narrow16 (ucast dport),
           TCPFlags := narrow8 (ucast flags), TOS := narrow8 (ucast tos)\<rparr>
       else r)
   }"

definition sflowReadExtSwitch :: "bytes \<Rightarrow> Record \<Rightarrow> Record go" where
  "sflowReadExtSwitch body r = do {
     (srcVLAN, x) \<leftarrow> xdr_u32 (xdr_new body);
     (_, x) \<leftarrow> xdr_skip 4 x;
     (dstVLAN, x) \<leftarrow> xdr_u32 x;
     if xbad x then Some r
     else do {
       let sv = narrow16 (ucast srcVLAN) AND 0x0FFF;
       let dv = narrow16 (ucast dstVLAN) AND 0x0FFF;
       let r = (if sv \<noteq> 0 then r\<lparr>SrcVLAN := sv\<rparr> else r);
       Some (if dv \<noteq> 0 then r\<lparr>DstVLAN := dv\<rparr> else r)
     }
   }"

definition sflowReadExtRouter :: "bytes \<Rightarrow> Record \<Rightarrow> Record go" where
  "sflowReadExtRouter body r = do {
     (hop, x) \<leftarrow> xdr_addr (xdr_new body);
     (srcMask, x) \<leftarrow> xdr_u32 x;
     (dstMask, x) \<leftarrow> xdr_u32 x;
     if xbad x then Some r
     else Some (r\<lparr>NextHop := hop, SrcMask := narrow8 (ucast srcMask), DstMask := narrow8 (ucast dstMask)\<rparr>)
   }"

text \<open>The inner loop over the ASes of a segment and the loop over segments; \<open>None\<close> is the early return.\<close>

primrec as_run :: "nat \<Rightarrow> u32 \<Rightarrow> xdrReader \<Rightarrow> (u32 \<times> xdrReader) go" where
  "as_run 0 dstAS x = Some (dstAS, x)"
| "as_run (Suc j) dstAS x = do { (v, x) \<leftarrow> xdr_u32 x; as_run j v x }"

primrec as_path :: "nat \<Rightarrow> u32 \<Rightarrow> u32 \<Rightarrow> xdrReader \<Rightarrow> (u32 \<times> u32 \<times> xdrReader) option go" where
  "as_path 0 dstAS tot x = Some (Some (dstAS, tot, x))"
| "as_path (Suc i) dstAS tot x = do {
     (_, x) \<leftarrow> xdr_skip 4 x;
     (count, x) \<leftarrow> xdr_u32 x;
     if xbad x \<or> sflowMaxASPathTotal - tot < count then Some None
     else do {
       (dstAS, x) \<leftarrow> as_run (unat count) dstAS x;
       as_path i dstAS (tot + count) x
     }
   }"

definition sflowReadExtGateway :: "bytes \<Rightarrow> Record \<Rightarrow> Record go" where
  "sflowReadExtGateway body r = do {
     (hop, x) \<leftarrow> xdr_addr (xdr_new body);
     (ownAS, x) \<leftarrow> xdr_u32 x;
     (srcAS, x) \<leftarrow> xdr_u32 x;
     (_, x) \<leftarrow> xdr_skip 4 x;
     (segments, x) \<leftarrow> xdr_u32 x;
     if xbad x \<or> sflowMaxASPathTotal < segments then Some r
     else do {
       p \<leftarrow> as_path (unat segments) 0 0 x;
       (case p of
          None \<Rightarrow> Some r
        | Some (dstAS, tot, x) \<Rightarrow>
            if xbad x then Some r
            else Some (r\<lparr>BGPNextHop := hop, SrcAS := srcAS,
                         DstAS := (if segments = 0 then ownAS else dstAS)\<rparr>))
     }
   }"

subsection \<open>Samples and the datagram\<close>

text \<open>The switch of the record loop, on the record, \<open>frameLen\<close> and \<open>haveHeader\<close>.\<close>

definition sflow_record :: "u32 \<Rightarrow> bytes \<Rightarrow> Record \<times> u32 \<times> bool \<Rightarrow> (Record \<times> u32 \<times> bool) go" where
  "sflow_record format body st = (case st of (r, frameLen, haveHeader) \<Rightarrow>
     if drop_bit 12 format \<noteq> 0 then Some st
     else let k = format AND 0xFFF in
       if k = 1 then do {
         (l, r) \<leftarrow> sflowReadRawHeader body r;
         Some (case l of Some l \<Rightarrow> (r, l, True) | None \<Rightarrow> (r, frameLen, haveHeader))
       }
       else if k = 2 then do { r \<leftarrow> sflowReadEthernetData body r; Some (r, frameLen, haveHeader) }
       else if k = 3 \<or> k = 4 then do {
         (l, r) \<leftarrow> sflowReadIPData body (k = 4) haveHeader r;
         Some (case l of Some l \<Rightarrow> (r, if haveHeader then frameLen else l, haveHeader)
               | None \<Rightarrow> (r, frameLen, haveHeader))
       }
       else if k = 1001 then do { r \<leftarrow> sflowReadExtSwitch body r; Some (r, frameLen, haveHeader) }
       else if k = 1002 then do { r \<leftarrow> sflowReadExtRouter body r; Some (r, frameLen, haveHeader) }
       else if k = 1003 then do { r \<leftarrow> sflowReadExtGateway body r; Some (r, frameLen, haveHeader) }
       else Some st)"

primrec sflow_records ::
  "nat \<Rightarrow> xdrReader \<Rightarrow> Record \<times> u32 \<times> bool \<Rightarrow> (Record \<times> u32 \<times> bool) option go" where
  "sflow_records 0 x st = Some (Some st)"
| "sflow_records (Suc n) x st = do {
     ((format, body), x) \<leftarrow> xdr_frame x;
     if xbad x then Some None
     else do { st \<leftarrow> sflow_record format body st; sflow_records n x st }
   }"

text \<open>The two forms of the interface words.\<close>

definition sflow_ifs :: "bool \<Rightarrow> xdrReader \<Rightarrow> ((u32 \<times> u32) \<times> xdrReader) go" where
  "sflow_ifs expanded x =
     (if expanded then do {
        (inF, x) \<leftarrow> xdr_u32 x;
        (inV, x) \<leftarrow> xdr_u32 x;
        (outF, x) \<leftarrow> xdr_u32 x;
        (outV, x) \<leftarrow> xdr_u32 x;
        Some ((sflowIf inF inV, sflowIf outF outV), x)
      }
      else do {
        (i, x) \<leftarrow> xdr_u32 x;
        (out, x) \<leftarrow> xdr_u32 x;
        Some ((sflowIf (drop_bit 30 i) (i AND 0x3FFFFFFF), sflowIf (drop_bit 30 out) (out AND 0x3FFFFFFF)), x)
      })"

definition sflow_finish :: "u32 \<Rightarrow> Record \<Rightarrow> u32 \<Rightarrow> Record option" where
  "sflow_finish rate0 r frameLen =
     (if \<not> addr_valid (SrcAddr r) \<or> \<not> addr_valid (DstAddr r) then None
      else let rate = (if rate0 = 0 then 1 else rate0) in
        Some (r\<lparr>SamplingRate := rate, Sampled := 1 < rate, Packets := ucast rate,
               Bytes := ucast frameLen * ucast rate\<rparr>))"

definition decodeSFlowSample :: "bytes \<Rightarrow> bool \<Rightarrow> Record option go" where
  "decodeSFlowSample body expanded = do {
     (_, x) \<leftarrow> xdr_skip 4 (xdr_new body);
     (_, x) \<leftarrow> xdr_skip (if expanded then 8 else 4) x;
     (rate, x) \<leftarrow> xdr_u32 x;
     (_, x) \<leftarrow> xdr_skip 4 x;
     (_, x) \<leftarrow> xdr_skip 4 x;
     ((inIf, outIf), x) \<leftarrow> sflow_ifs expanded x;
     (n, x) \<leftarrow> xdr_u32 x;
     if xbad x \<or> sflowMaxRecords < n then Some None
     else do {
       st \<leftarrow> sflow_records (unat n) x
              (record_zero\<lparr>Type := ''sflow'', InputIf := inIf, OutputIf := outIf\<rparr>, 0, False);
       Some (case st of None \<Rightarrow> None | Some (r, frameLen, haveHeader) \<Rightarrow> sflow_finish rate r frameLen)
     }
   }"

text \<open>The switch of the sample loop: the record of a flow sample, if any.\<close>

definition sflow_sample :: "u32 \<Rightarrow> bytes \<Rightarrow> Record option go" where
  "sflow_sample format body =
     (if drop_bit 12 format \<noteq> 0 then Some None
      else if format AND 0xFFF = 1 then decodeSFlowSample body False
      else if format AND 0xFFF = 3 then decodeSFlowSample body True
      else Some None)"

primrec sflow_samples :: "u32 \<Rightarrow> nat \<Rightarrow> xdrReader \<Rightarrow> Record list \<Rightarrow> (flow_error + Record list) go" where
  "sflow_samples n 0 x rs = Some (Inr rs)"
| "sflow_samples n (Suc left) x rs = do {
     ((format, body), x) \<leftarrow> xdr_frame x;
     if xbad x then Some (Inl (ErrSFlowSample (unat n - left) n))
     else do {
       r \<leftarrow> sflow_sample format body;
       sflow_samples n left x (case r of Some r \<Rightarrow> rs @ [r] | None \<Rightarrow> rs)
     }
   }"

definition DecodeSFlow :: "bytes \<Rightarrow> Addr \<Rightarrow> (flow_error + packet) go" where
  "DecodeSFlow b src = do {
     (v, x) \<leftarrow> xdr_u32 (xdr_new b);
     if xbad x then Some (Inl (ErrShortPacket 4 (length b)))
     else if v \<noteq> sflowVersion then Some (Inl (ErrNotSFlow v))
     else do {
       (_, x) \<leftarrow> xdr_addr x;
       (_, x) \<leftarrow> xdr_skip 4 x;
       (_, x) \<leftarrow> xdr_skip 4 x;
       (_, x) \<leftarrow> xdr_skip 4 x;
       (n, x) \<leftarrow> xdr_u32 x;
       if xbad x then Some (Inl (ErrSFlowHeader (length b)))
       else if sflowMaxSamples < n then Some (Inl (ErrSFlowCount n (unat sflowMaxSamples)))
       else do {
         rs \<leftarrow> sflow_samples n (unat n) x [];
         Some (case rs of Inl e \<Rightarrow> Inl e | Inr rs \<Rightarrow> Inr \<lparr>ExporterIP = src, Records = rs\<rparr>)
       }
     }
   }"

subsection \<open>No panic\<close>

lemma parseL4_total [no_panic]: "parseL4 h r \<noteq> None"
  unfolding parseL4_def by (intro no_panic) auto

lemma parseIPv4Header_total [no_panic]: "parseIPv4Header h r \<noteq> None"
  unfolding parseIPv4Header_def Let_def by (intro no_panic) auto

lemma ipv6_walk_total [no_panic]: "ipv6_walk hops h nxt off r \<noteq> None"
proof (induction hops arbitrary: nxt off)
  case (Suc hops)
  show ?case unfolding ipv6_walk.simps Let_def by (intro no_panic Suc) auto
qed simp

lemma parseIPv6Header_total [no_panic]: "parseIPv6Header h r \<noteq> None"
  unfolding parseIPv6Header_def Let_def by (intro no_panic) auto

lemma eth_tags_runs: "off \<le> length h \<Longrightarrow>
  \<exists>t. eth_tags n h et off r = Some t \<and> (\<forall>et' off' r'. t = Inr (et', off', r') \<longrightarrow> off' \<le> length h)"
  by (induction n arbitrary: et off r) auto

lemma parseEthernetHeader_total [no_panic]: "parseEthernetHeader h r \<noteq> None"
proof (cases "length h < 14")
  case False
  let ?r = "r\<lparr>DstMAC := beUint (take 6 h), SrcMAC := beUint (take 6 (drop 6 h))\<rparr>"
  obtain t where "eth_tags 2 h (w16 h 12) 14 ?r = Some t"
      "\<forall>et' off' r'. t = Inr (et', off', r') \<longrightarrow> off' \<le> length h"
    using eth_tags_runs [of 14 h 2 "w16 h 12" ?r] False by auto
  moreover have "\<exists>y. parseIPv4Header ip q = Some y" "\<exists>y. parseIPv6Header ip q = Some y" for ip q
    using parseIPv4Header_total parseIPv6Header_total by auto
  ultimately show ?thesis
    using False by (auto simp: parseEthernetHeader_def split: sum.split prod.split)
qed (simp add: parseEthernetHeader_def)

lemma sflowReadRawHeader_total [no_panic]: "sflowReadRawHeader body r \<noteq> None"
  unfolding sflowReadRawHeader_def by (intro no_panic) simp_all

lemma sflowReadEthernetData_total [no_panic]: "sflowReadEthernetData body r \<noteq> None"
  unfolding sflowReadEthernetData_def by (intro no_panic) (simp_all add: Let_def)

lemma sflowReadIPData_total [no_panic]: "sflowReadIPData body v6 hh r \<noteq> None"
  unfolding sflowReadIPData_def by (intro no_panic) simp_all

lemma sflowReadExtSwitch_total [no_panic]: "sflowReadExtSwitch body r \<noteq> None"
  unfolding sflowReadExtSwitch_def by (intro no_panic) (simp_all add: Let_def)

lemma sflowReadExtRouter_total [no_panic]: "sflowReadExtRouter body r \<noteq> None"
  unfolding sflowReadExtRouter_def by (intro no_panic) simp_all

interpretation asr: xdr_op "as_run j d" for j d
proof
  show "\<exists>v y. as_run j d x = Some (v, y) \<and> xdr_le x y" for x
  proof (induction j arbitrary: d x)
    case 0
    then show ?case by simp
  next
    case (Suc j)
    obtain v y where "xdr_u32 x = Some (v, y)" "xdr_le x y" using xu.op_runs by blast
    with Suc.IH [of v y] show ?case by (auto intro: xdr_le_trans)
  qed
qed

lemma as_path_total [no_panic]: "as_path i d tot x \<noteq> None"
proof (induction i arbitrary: d tot x)
  case (Suc i)
  then show ?case
    unfolding as_path.simps by (intro no_panic asr.op_bind_total) simp_all
qed simp

lemma sflowReadExtGateway_total [no_panic]: "sflowReadExtGateway body r \<noteq> None"
  unfolding sflowReadExtGateway_def
  by (intro no_panic) (simp_all split: option.split)

lemma sflow_record_total [no_panic]: "sflow_record fmt body st \<noteq> None"
proof -
  obtain r l hh where st: "st = (r, l, hh)" by (cases st)
  show ?thesis
    unfolding sflow_record_def Let_def st prod.case
    by (intro no_panic) (auto split: prod.split option.split)
qed

lemma sflow_records_total [no_panic]: "sflow_records n x st \<noteq> None"
proof (induction n arbitrary: x st)
  case (Suc n)
  then show ?case
    unfolding sflow_records.simps by (intro no_panic) simp_all
qed simp

interpretation sfi: xdr_op2 "sflow_ifs expanded" for expanded
proof
  fix x
  obtain a x1 where 1: "xdr_u32 x = Some (a, x1)" "xdr_le x x1" using xu.op_runs by blast
  obtain b x2 where 2: "xdr_u32 x1 = Some (b, x2)" "xdr_le x1 x2" using xu.op_runs by blast
  obtain c x3 where 3: "xdr_u32 x2 = Some (c, x3)" "xdr_le x2 x3" using xu.op_runs by blast
  obtain d x4 where 4: "xdr_u32 x3 = Some (d, x4)" "xdr_le x3 x4" using xu.op_runs by blast
  show "\<exists>v z. sflow_ifs expanded x = Some (v, z) \<and> xdr_le x z"
    using 1 2 3 4 by (cases expanded) (auto simp: sflow_ifs_def intro: xdr_le_trans)
qed

lemma decodeSFlowSample_total [no_panic]: "decodeSFlowSample body expanded \<noteq> None"
  unfolding decodeSFlowSample_def by (intro no_panic sfi.op_bind2_total) simp_all

lemma sflow_sample_total [no_panic]: "sflow_sample fmt body \<noteq> None"
  unfolding sflow_sample_def by (intro no_panic) simp_all

subsection \<open>What a decoded sample is\<close>

text \<open>
  Both addresses are there, the sampling rate is not zero, the packet count is the rate, and the
  octets are a 32-bit frame length times the rate, as numbers.
\<close>

definition sflow_scaled :: "Record \<Rightarrow> bool" where
  "sflow_scaled r \<longleftrightarrow> addr_valid (SrcAddr r) \<and> addr_valid (DstAddr r) \<and> SamplingRate r \<noteq> 0 \<and>
     (Sampled r \<longleftrightarrow> 1 < unat (SamplingRate r)) \<and> unat (Packets r) = unat (SamplingRate r) \<and>
     unat (Bytes r) mod unat (SamplingRate r) = 0 \<and> unat (Bytes r) div unat (SamplingRate r) < 2 ^ 32"

lemma unat_u32_less: "unat (w :: u32) < 2 ^ 32"
proof -
  have "unat w < 2 ^ LENGTH(32)" by (rule unsigned_less)
  then show ?thesis by simp
qed

lemma unat_ucast_32_64: "unat (ucast (w :: u32) :: u64) = unat w"
proof -
  have "unat w < 2 ^ 64" using unat_u32_less [of w] by simp
  then show ?thesis by (simp add: unsigned_ucast_eq take_bit_nat_eq_self)
qed

lemma unat_mult_32_64: "unat (ucast (v :: u32) * ucast (w :: u32) :: u64) = unat v * unat w"
proof -
  have "unat v * unat w < 2 ^ 32 * 2 ^ 32"
    using unat_u32_less by (intro mult_strict_mono) auto
  then show ?thesis by (simp add: unat_word_ariths unat_ucast_32_64)
qed

lemma sflow_finish_scaled: "sflow_finish rate r frameLen = Some r' \<Longrightarrow> sflow_scaled r'"
  using unat_u32_less [of frameLen]
  by (auto simp: sflow_finish_def sflow_scaled_def Let_def unat_mult_32_64 unat_ucast_32_64
      word_less_nat_alt unat_gt_0 split: if_splits)

lemma decodeSFlowSample_scaled:
  assumes "decodeSFlowSample body expanded = Some (Some r)"
  shows "sflow_scaled r"
  using assms unfolding decodeSFlowSample_def
  by (auto simp: bind_eq_Some_conv sflow_finish_scaled split: if_splits option.splits prod.splits)

lemma sflow_sample_scaled: "sflow_sample fmt body = Some (Some r) \<Longrightarrow> sflow_scaled r"
  by (auto simp: sflow_sample_def decodeSFlowSample_scaled split: if_splits)

lemma sflow_samples_scaled:
  "\<exists>res. sflow_samples n k x rs = Some res \<and>
     (case res of Inl e \<Rightarrow> True | Inr rs' \<Rightarrow> length rs' \<le> length rs + k \<and>
        (list_all sflow_scaled rs \<longrightarrow> list_all sflow_scaled rs'))"
proof (induction k arbitrary: x rs)
  case 0
  then show ?case by simp
next
  case (Suc k)
  obtain f body y where f: "xdr_frame x = Some ((f, body), y)" using xf.op_runs [of x] by auto
  show ?case
  proof (cases "xbad y")
    case True
    with f show ?thesis by simp
  next
    case False
    obtain r where r: "sflow_sample f body = Some r" using sflow_sample_total by auto
    from f r False Suc.IH [of y "case r of Some r \<Rightarrow> rs @ [r] | None \<Rightarrow> rs"] show ?thesis
      by (cases r) (fastforce simp: sflow_sample_scaled split: sum.splits)+
  qed
qed

lemma DecodeSFlow_runs:
  "case DecodeSFlow b src of None \<Rightarrow> False | Some (Inl e) \<Rightarrow> True
   | Some (Inr p) \<Rightarrow> ExporterIP p = src \<and> length (Records p) \<le> 512 \<and> list_all sflow_scaled (Records p)"
proof -
  let ?P = "\<lambda>d. case d of None \<Rightarrow> False | Some (Inl e) \<Rightarrow> True
     | Some (Inr p) \<Rightarrow> ExporterIP p = src \<and> length (Records p) \<le> 512 \<and> list_all sflow_scaled (Records p)"
  have samples: "?P (do { rs \<leftarrow> sflow_samples n (unat n) x [];
      Some (case rs of Inl e \<Rightarrow> Inl e | Inr rs \<Rightarrow> Inr \<lparr>ExporterIP = src, Records = rs\<rparr>) })"
    if "\<not> sflowMaxSamples < n" for n x
  proof -
    obtain res where "sflow_samples n (unat n) x [] = Some res"
        "case res of Inl e \<Rightarrow> True | Inr rs \<Rightarrow> length rs \<le> length ([] :: Record list) + unat n \<and>
           (list_all sflow_scaled [] \<longrightarrow> list_all sflow_scaled rs)"
      using sflow_samples_scaled by blast
    with that show ?thesis by (cases res) (auto simp: word_less_nat_alt)
  qed
  have "?P (DecodeSFlow b src)"
    unfolding DecodeSFlow_def
    apply (rule xu.op_bind [where P = ?P])
    subgoal for v x
      apply (cases "xbad x \<or> v \<noteq> sflowVersion")
       apply (force split: sum.split)
      apply simp
      apply (intro xa.op_bind [where P = ?P] xs.op_bind [where P = ?P] xu.op_bind [where P = ?P])
      using samples by simp
    done
  then show ?thesis .
qed

text \<open>
  The sFlow decoder on hostile input: on every byte string it returns, without a panic; a
  packet it returns carries the datagram's source, at most 512 records, and in every record both
  addresses, a non-zero sampling rate, the rate as the packet count, and octets that are exactly a
  32-bit frame length times the rate (the 64-bit product never wraps).
\<close>

theorem DecodeSFlow_total:
  "case DecodeSFlow b src of None \<Rightarrow> False | Some (Inl e) \<Rightarrow> True
   | Some (Inr p) \<Rightarrow> ExporterIP p = src \<and> length (Records p) \<le> 512 \<and> list_all sflow_scaled (Records p)"
  by (rule DecodeSFlow_runs)

subsection \<open>Samples are located by their declared lengths\<close>

text \<open>The header of a datagram whose agent has an IPv4 address (a specification of the format).\<close>

definition sflow_header :: "u32 \<Rightarrow> u32 \<Rightarrow> u32 \<Rightarrow> u32 \<Rightarrow> u32 \<Rightarrow> bytes" where
  "sflow_header agent sub sequence up n =
     put32 5 @ put32 1 @ put32 agent @ put32 sub @ put32 sequence @ put32 up @ put32 n"

definition sample_records :: "(u32 \<times> bytes) list \<Rightarrow> Record list" where
  "sample_records ss = List.map_filter (\<lambda>(f, body). the (sflow_sample f body)) ss"

lemma sflow_samples_framed:
  "\<forall>f \<in> set ss. length (snd f) < 2 ^ 32 \<Longrightarrow>
   sflow_samples n (length ss) (xdr_at (pre @ concat (map frame_bytes ss)) (length pre)) rs
     = Some (Inr (rs @ sample_records ss))"
proof (induction ss arbitrary: pre rs)
  case Nil
  then show ?case by (simp add: sample_records_def)
next
  case (Cons f ss)
  obtain fmt body where f: "f = (fmt, body)" by force
  let ?b = "pre @ frame_bytes f @ concat (map frame_bytes ss)"
  from Cons.prems have l: "length (snd f) < 2 ^ 32" by simp
  obtain r where r: "sflow_sample fmt body = Some r" using sflow_sample_total by auto
  have "sflow_samples n (length ss) (xdr_at ?b (length pre + length (frame_bytes f))) rs'
      = Some (Inr (rs' @ sample_records ss))" for rs'
    using Cons.IH [of "pre @ frame_bytes f" rs'] Cons.prems by simp
  with xdr_frame_at [OF l, of pre "concat (map frame_bytes ss)"] r show ?case
    by (cases r) (simp_all add: f sample_records_def)
qed

text \<open>
  Whatever its samples hold, a well-framed datagram is read sample by sample: its records are
  those of its flow samples, in order, each decoded on its own. A vendor extension, a counter
  sample or a malformed sample never hides the samples behind it.
\<close>

theorem DecodeSFlow_framed:
  assumes "length ss \<le> 512" and "\<forall>f \<in> set ss. length (snd f) < 2 ^ 32"
  shows "DecodeSFlow (sflow_header agent sub sequence up (word_of_nat (length ss))
      @ concat (map frame_bytes ss)) src
    = Some (Inr \<lparr>ExporterIP = src, Records = sample_records ss\<rparr>)"
proof -
  let ?n = "word_of_nat (length ss) :: u32"
  let ?b = "sflow_header agent sub sequence up ?n @ concat (map frame_bytes ss)"
  have n: "unat ?n = length ss" using assms(1) by (simp add: unat_of_nat)
  have len: "length ?b = 28 + length (concat (map frame_bytes ss))" by (simp add: sflow_header_def)
  have w: "w32 ?b 0 = 5" "w32 ?b 4 = 1" "w32 ?b 24 = ?n"
    using be_word_put32 [of 5] be_word_put32 [of 1] by (simp_all add: sflow_header_def w32_def)
  have "xdr_u32 (xdr_new ?b) = Some (5, xdr_at ?b 4)"
    using w len by (simp add: xdr_u32_def xdr_new_def)
  moreover have "\<exists>a. xdr_addr (xdr_at ?b 4) = Some (a, xdr_at ?b 12)"
    using w len by (simp add: xdr_addr_def xdr_u32_def xdr_take_def)
  moreover have "xdr_u32 (xdr_at ?b 24) = Some (?n, xdr_at ?b 28)"
    using w len by (simp add: xdr_u32_def)
  moreover have "xdr_skip 4 (xdr_at ?b k) = Some ((), xdr_at ?b (k + 4))" if "k \<le> 20" for k
    using that len by (simp add: xdr_skip_def)
  moreover have "\<not> sflowMaxSamples < ?n" using assms(1) n by (simp add: word_less_nat_alt)
  moreover have "sflow_samples ?n (unat ?n) (xdr_at ?b 28) [] = Some (Inr (sample_records ss))"
    using sflow_samples_framed [OF assms(2), of ?n "sflow_header agent sub sequence up ?n" "[]"] n
    by (simp add: sflow_header_def)
  ultimately show ?thesis by (auto simp: DecodeSFlow_def)
qed

theorem DecodeSFlow_framed_witness:
  "DecodeSFlow (sflow_header 0x0A000001 0 1 1000 2 @ frame_bytes (0x1001, [1, 2, 3]) @ frame_bytes (2, [])) (Addr4 7)
     = Some (Inr \<lparr>ExporterIP = Addr4 7, Records = []\<rparr>)"
  using DecodeSFlow_framed [of "[(0x1001, [1, 2, 3]), (2, [])]" "0x0A000001" 0 1 1000 "Addr4 7"]
  by (simp add: sample_records_def sflow_sample_def List.map_filter_def)

subsection \<open>A sampled packet, read back\<close>

text \<open>
  An Ethernet frame with up to two VLAN tags that carries an IPv4 packet with options, and a
  transport header (a specification of the formats). The fragment word has the reserved and the
  don't-fragment bits in \<open>df\<close> and a zero offset.
\<close>

definition ipv4_bytes :: "byte \<Rightarrow> byte \<Rightarrow> u32 \<Rightarrow> u32 \<Rightarrow> bytes \<Rightarrow> bytes \<Rightarrow> bytes" where
  "ipv4_bytes tos proto sa da opts payload =
     [0x45 + word_of_nat (length opts div 4), tos, 0, 0, 0, 0, 0x40, 0, 64, proto, 0, 0]
     @ put32 sa @ put32 da @ opts @ payload"

definition is_tpid :: "u16 \<Rightarrow> bool" where
  "is_tpid t \<longleftrightarrow> t = 0x8100 \<or> t = 0x88A8 \<or> t = 0x9100"

definition eth_bytes :: "bytes \<Rightarrow> bytes \<Rightarrow> (u16 \<times> u16) list \<Rightarrow> bytes \<Rightarrow> bytes" where
  "eth_bytes dm sm tags ip =
     dm @ sm @ concat (map (\<lambda>(tpid, tci). put16 tpid @ put16 tci) tags) @ put16 0x0800 @ ip"

definition with_vlan :: "(u16 \<times> u16) list \<Rightarrow> Record \<Rightarrow> Record" where
  "with_vlan tags r = (case tags of [] \<Rightarrow> r | t # _ \<Rightarrow> r\<lparr>SrcVLAN := snd t AND 0x0FFF\<rparr>)"

definition with_ports :: "u16 \<Rightarrow> u16 \<Rightarrow> bytes \<Rightarrow> Record \<Rightarrow> Record" where
  "with_ports sp dp rest r =
     (let r = r\<lparr>SrcPort := sp, DstPort := dp\<rparr> in
      if Protocol r = 6 \<and> 10 \<le> length rest then r\<lparr>TCPFlags := rest ! 9\<rparr> else r)"

lemma parseL4_bytes:
  assumes "Protocol r = 6 \<or> Protocol r = 17 \<or> Protocol r = 132"
  shows "parseL4 (put16 sp @ put16 dp @ rest) r = Some (with_ports sp dp rest r)"
proof -
  let ?h = "put16 sp @ put16 dp @ rest"
  have w: "w16 ?h 0 = sp" "w16 ?h 2 = dp" by (simp_all add: w16_def)
  have "?h ! 13 = rest ! 9" if "10 \<le> length rest" using that by (simp add: nth_append)
  with assms w show ?thesis
    by (auto simp: parseL4_def with_ports_def Let_def)
qed

lemma ihl_byte:
  assumes "n \<le> (10 :: nat)"
  shows "drop_bit 4 (0x45 + word_of_nat n :: byte) = 4" and "unat ((0x45 + word_of_nat n :: byte) AND 0x0F) = 5 + n"
proof -
  have "n \<in> {0, 1, 2, 3, 4, 5, 6, 7, 8, 9, 10}" using assms by (simp, arith)
  then show "drop_bit 4 (0x45 + word_of_nat n :: byte) = 4" and "unat ((0x45 + word_of_nat n :: byte) AND 0x0F) = 5 + n"
    by (elim insertE; simp)+
qed

lemma parseIPv4Header_bytes:
  assumes opts: "length opts mod 4 = 0" "length opts \<le> 40"
    and proto: "proto = 6 \<or> proto = 17 \<or> proto = 132"
  shows "parseIPv4Header (ipv4_bytes tos proto sa da opts (put16 sp @ put16 dp @ rest)) r
    = Some (with_ports sp dp rest (r\<lparr>TOS := tos, Protocol := proto, SrcAddr := Addr4 sa, DstAddr := Addr4 da\<rparr>))"
proof -
  let ?p = "put16 sp @ put16 dp @ rest"
  let ?h = "ipv4_bytes tos proto sa da opts ?p"
  let ?n = "length opts div 4"
  have n: "?n \<le> 10" using opts(2) by linarith
  have ihl: "(5 + ?n) * 4 = 20 + length opts" using opts(1) by presburger
  have len: "length ?h = 20 + length opts + length ?p" by (simp add: ipv4_bytes_def)
  have frag: "w16 ?h 6 AND 0x1FFF = 0" by (simp add: ipv4_bytes_def w16_def be_word_def)
  have addrs: "take 4 (drop 12 ?h) = put32 sa" "take 4 (drop 16 ?h) = put32 da"
    by (simp_all add: ipv4_bytes_def)
  let ?pre = "take 12 ?h @ put32 sa @ put32 da @ opts"
  have "?h = ?pre @ ?p" "length ?pre = 20 + length opts" by (simp_all add: ipv4_bytes_def)
  then have "drop (20 + length opts) ?h = ?p" by (metis append_eq_conv_conj)
  then have "slice ?h ((5 + ?n) * 4) (length ?h) = Some ?p" unfolding ihl using len by simp
  moreover have "?h ! 0 = 0x45 + word_of_nat ?n" "?h ! 1 = tos" "?h ! 9 = proto" by (simp_all add: ipv4_bytes_def)
  moreover have "\<not> (5 + ?n) * 4 < 20" "\<not> length ?h < (5 + ?n) * 4" using len ihl by auto
  ultimately show ?thesis
    using ihl_byte [OF n] frag addrs len proto
    by (simp add: parseIPv4Header_def parseL4_bytes Let_def)
qed

lemma eth_tags_bytes:
  fixes ip :: bytes
  assumes "length dm = 6" and "length sm = 6" and "length tags \<le> 2" and "list_all (is_tpid \<circ> fst) tags"
  defines "h \<equiv> eth_bytes dm sm tags ip"
  shows "eth_tags 2 h (w16 h 12) 14 r = Some (Inr (0x0800, 14 + 4 * length tags, with_vlan tags r))"
proof -
  have pre: "length (dm @ sm) = 12" using assms by simp
  have two: "eth_tags 2 = eth_tags (Suc (Suc 0))" by (simp add: numeral_2_eq_2)
  have h: "h = (dm @ sm) @ concat (map (\<lambda>(tpid, tci). put16 tpid @ put16 tci) tags) @ put16 0x0800 @ ip"
    by (simp add: h_def eth_bytes_def)
  have w: "w16 h (12 + k) = w16 (concat (map (\<lambda>(tpid, tci). put16 tpid @ put16 tci) tags) @ put16 0x0800 @ ip) k" for k
    unfolding h using w16_append_ge [of "dm @ sm" "12 + k"] pre by simp
  have len: "14 + 4 * length tags \<le> length h"
    unfolding h using pre by (simp add: length_concat_const [where n = 4] case_prod_beta)
  have ip: "be_word (put16 0x0800) = (0x0800 :: u16)" by (rule be_word_put16)
  have w12: "w16 h 12 = w16 h (12 + 0)" "w16 h 14 = w16 h (12 + 2)" "w16 h 16 = w16 h (12 + 4)"
    "w16 h 18 = w16 h (12 + 6)" "w16 h 20 = w16 h (12 + 8)" by simp_all
  consider "tags = []" | t1 where "tags = [t1]" | t1 t2 where "tags = [t1, t2]"
    using assms(3) by (cases tags rule: remdups_adj.cases) auto
  then show ?thesis
  proof cases
    case 1
    then have "w16 h 12 = 0x0800" using ip unfolding w12 w by (simp add: w16_def)
    with 1 show ?thesis by (simp add: two with_vlan_def)
  next
    case (2 t1)
    then have "w16 h 12 = fst t1" "w16 h 14 = snd t1" "w16 h 16 = 0x0800"
      using ip unfolding w12 w by (simp_all add: w16_def case_prod_beta)
    with 2 len assms(4) show ?thesis by (simp add: two is_tpid_def with_vlan_def)
  next
    case (3 t1 t2)
    then have "w16 h 12 = fst t1" "w16 h 14 = snd t1" "w16 h 16 = fst t2" "w16 h 18 = snd t2" "w16 h 20 = 0x0800"
      using ip unfolding w12 w by (simp_all add: w16_def case_prod_beta)
    with 3 len assms(4) show ?thesis by (simp add: two is_tpid_def with_vlan_def)
  qed
qed

text \<open>
  A sampled TCP, UDP or SCTP packet is read back field by field: IPv4 with any options behind
  an Ethernet header with no, one or two VLAN tags. The recorded VLAN is the outer tag's, the ports
  are taken from behind the options, and TCP flags only from a TCP header that reaches them.
\<close>

theorem parseEthernetHeader_roundtrip:
  assumes "length dm = 6" and "length sm = 6" and "length tags \<le> 2" and "list_all (is_tpid \<circ> fst) tags"
    and "length opts mod 4 = 0" and "length opts \<le> 40" and "proto = 6 \<or> proto = 17 \<or> proto = 132"
  shows "parseEthernetHeader (eth_bytes dm sm tags (ipv4_bytes tos proto sa da opts (put16 sp @ put16 dp @ rest))) r
    = Some (with_ports sp dp rest
       ((with_vlan tags (r\<lparr>DstMAC := be_word dm, SrcMAC := be_word sm\<rparr>))
         \<lparr>TOS := tos, Protocol := proto, SrcAddr := Addr4 sa, DstAddr := Addr4 da\<rparr>))"
proof -
  let ?ip = "ipv4_bytes tos proto sa da opts (put16 sp @ put16 dp @ rest)"
  let ?h = "eth_bytes dm sm tags ?ip"
  let ?r = "r\<lparr>DstMAC := beUint dm, SrcMAC := beUint sm\<rparr>"
  let ?pre = "dm @ sm @ concat (map (\<lambda>(tpid, tci). put16 tpid @ put16 tci) tags) @ put16 0x0800"
  have h: "?h = ?pre @ ?ip" and pre: "length ?pre = 14 + 4 * length tags"
    using assms(1,2) by (simp_all add: eth_bytes_def length_concat_const [where n = 4] case_prod_beta)
  have "14 \<le> length ?h" unfolding h using pre by simp
  then have macs: "slice ?h 0 6 = Some dm" "slice ?h 6 12 = Some sm" "\<not> length ?h < 14"
    using assms(1,2) by (simp_all add: eth_bytes_def)
  have "slice ?h (14 + 4 * length tags) (length ?h) = Some ?ip"
    unfolding h using pre by simp
  with eth_tags_bytes [OF assms(1-4), of ?ip ?r] parseIPv4Header_bytes [OF assms(5-7)] macs show ?thesis
    by (simp add: parseEthernetHeader_def beUint_be_word del: slice_in)
qed

theorem parseEthernetHeader_roundtrip_witness:
  "parseEthernetHeader (eth_bytes [0, 0, 0, 0, 0, 2] [0, 0, 0, 0, 0, 1] [(0x8100, 0x6064)]
      (ipv4_bytes 0 17 0x0A000001 0x0A000002 [] (put16 5353 @ put16 53 @ []))) record_zero
    = Some (record_zero\<lparr>DstMAC := 2, SrcMAC := 1, SrcVLAN := 0x64, Protocol := 17,
        SrcAddr := Addr4 0x0A000001, DstAddr := Addr4 0x0A000002, SrcPort := 5353, DstPort := 53\<rparr>)"
  using parseEthernetHeader_roundtrip [of "[0, 0, 0, 0, 0, 2]" "[0, 0, 0, 0, 0, 1]" "[(0x8100, 0x6064)]" "[]" 17
      0 "0x0A000001" "0x0A000002" 5353 53 "[]" record_zero]
  by (simp add: is_tpid_def be_word_def with_ports_def with_vlan_def record_zero_def)

subsection \<open>The AS path\<close>

text \<open>The wire form of a gateway record: segments of ASes, each with its type word.\<close>

definition as_segment :: "u32 list \<Rightarrow> bytes" where
  "as_segment as = put32 2 @ be_bytes 4 (length as) @ concat (map (\<lambda>a. put32 a) as)"

definition gateway_bytes :: "u32 \<Rightarrow> u32 \<Rightarrow> u32 \<Rightarrow> u32 \<Rightarrow> u32 list list \<Rightarrow> bytes" where
  "gateway_bytes hop own srcAS peer segs =
     put32 1 @ put32 hop @ put32 own @ put32 srcAS @ put32 peer @ be_bytes 4 (length segs)
     @ concat (map as_segment segs)"

lemma be_bytes_word: "n < 2 ^ 32 \<Longrightarrow> be_bytes 4 n = put32 (word_of_nat n)"
  by (simp add: unat_of_nat)

lemma as_run_bytes:
  "as_run (length as) d (xdr_at (pre @ concat (map (\<lambda>a. put32 a) as) @ post) (length pre))
     = Some (last (d # as), xdr_at (pre @ concat (map (\<lambda>a. put32 a) as) @ post) (length pre + 4 * length as))"
proof (induction as arbitrary: d pre)
  case (Cons a as)
  from Cons.IH [of a "pre @ put32 a"] xdr_u32_at [of pre a "concat (map (\<lambda>a. put32 a) as) @ post"] show ?case
    by (simp add: add.assoc)
qed simp

lemma length_as_segment: "length (as_segment as) = 8 + 4 * length as"
  by (simp add: as_segment_def length_concat_const [where n = 4])

lemma as_path_bytes:
  "unat tot + length (concat segs) \<le> 256 \<Longrightarrow>
   \<exists>tot'. as_path (length segs) d tot (xdr_at (pre @ concat (map as_segment segs) @ post) (length pre))
     = Some (Some (last (d # concat segs), tot',
         xdr_at (pre @ concat (map as_segment segs) @ post) (length pre + length (concat (map as_segment segs)))))"
proof (induction segs arbitrary: d tot pre)
  case (Cons as segs)
  let ?post = "concat (map as_segment segs) @ post"
  let ?b = "pre @ as_segment as @ ?post"
  let ?n = "word_of_nat (length as) :: u32"
  from Cons.prems have bound: "length as \<le> 256" "unat tot + length as + length (concat segs) \<le> 256" by simp_all
  then have n: "unat ?n = length as" by (simp add: unat_of_nat)
  have b: "?b = pre @ put32 2 @ put32 ?n @ concat (map (\<lambda>a. put32 a) as) @ ?post"
    using be_bytes_word [of "length as"] bound(1) by (simp add: as_segment_def)
  have 1: "xdr_skip 4 (xdr_at ?b (length pre)) = Some ((), xdr_at ?b (length pre + 4))"
    by (simp add: xdr_skip_def as_segment_def)
  have 2: "xdr_u32 (xdr_at ?b (length pre + 4)) = Some (?n, xdr_at ?b (length pre + 8))"
    using xdr_u32_at [of "pre @ put32 2" ?n "concat (map (\<lambda>a. put32 a) as) @ ?post"] unfolding b
    by (simp add: add.assoc)
  have 3: "as_run (unat ?n) d (xdr_at ?b (length pre + 8))
      = Some (last (d # as), xdr_at ?b (length pre + length (as_segment as)))"
    using as_run_bytes [of as d "pre @ put32 2 @ put32 ?n" ?post] n unfolding b length_as_segment
    by (simp add: add.assoc)
  have "tot \<le> 256" using bound(2) by (simp add: word_le_nat_alt)
  then have "unat (256 - tot) = 256 - unat tot" by (simp add: unat_sub)
  then have room: "\<not> 256 - tot < ?n" using bound(2) n by (simp add: word_less_nat_alt)
  have "unat (tot + ?n) = unat tot + length as"
    using bound(2) n by (subst unat_add_lem [THEN iffD1]) simp_all
  then obtain tot' where "as_path (length segs) (last (d # as)) (tot + ?n)
      (xdr_at ?b (length pre + length (as_segment as)))
    = Some (Some (last (last (d # as) # concat segs), tot', xdr_at ?b (length pre + length (concat (map as_segment (as # segs))))))"
    using Cons.IH [of "tot + ?n" "last (d # as)" "pre @ as_segment as"] bound(2) by (auto simp: add.assoc)
  moreover have "last (last (d # as) # concat segs) = last (d # concat (as # segs))" by (simp add: last_append)
  ultimately show ?case using 1 2 3 room by simp
qed simp

text \<open>
  The BGP view of a sample: from a gateway record with at most 256 segments and 256 ASes in
  all, the destination AS is the last AS of the path (the router's own AS when there is no
  segment at all), and next hop and source AS are those written.
\<close>

theorem sflowReadExtGateway_roundtrip:
  assumes "length segs \<le> 256" and "length (concat segs) \<le> 256"
  shows "sflowReadExtGateway (gateway_bytes hop own srcAS peer segs) r
    = Some (r\<lparr>BGPNextHop := addrOrZero (put32 hop), SrcAS := srcAS,
        DstAS := (if segs = [] then own else last (0 # concat segs))\<rparr>)"
proof -
  let ?b = "gateway_bytes hop own srcAS peer segs"
  let ?n = "word_of_nat (length segs) :: u32"
  have n: "unat ?n = length segs" "?n = 0 \<longleftrightarrow> segs = []" "\<not> 256 < ?n"
    using assms(1) by (auto simp: unat_of_nat word_less_nat_alt unat_eq_0 [symmetric] simp del: unat_eq_0)
  let ?h = "put32 1 @ put32 hop @ put32 own @ put32 srcAS @ put32 peer @ put32 ?n"
  have b: "?b = ?h @ concat (map as_segment segs) @ []"
    using be_bytes_word [of "length segs"] assms(1) by (simp add: gateway_bytes_def)
  have len: "24 \<le> length ?b" by (simp add: gateway_bytes_def)
  have w: "w32 ?b 0 = 1" "w32 ?b 8 = own" "w32 ?b 12 = srcAS" "w32 ?b 20 = ?n" "take 4 (drop 4 ?b) = put32 hop"
    unfolding b using be_word_put32 [of 1] by (simp_all add: w32_def)
  have "xdr_addr (xdr_new ?b) = Some (addrOrZero (put32 hop), xdr_at ?b 8)"
    using w len by (simp add: xdr_addr_def xdr_u32_def xdr_take_def xdr_new_def)
  moreover have "xdr_u32 (xdr_at ?b 8) = Some (own, xdr_at ?b 12)" "xdr_u32 (xdr_at ?b 12) = Some (srcAS, xdr_at ?b 16)"
    "xdr_u32 (xdr_at ?b 20) = Some (?n, xdr_at ?b 24)" "xdr_skip 4 (xdr_at ?b 16) = Some ((), xdr_at ?b 20)"
    using w len by (simp_all add: xdr_u32_def xdr_skip_def)
  moreover obtain tot where "as_path (unat ?n) 0 0 (xdr_at ?b 24) = Some (Some (last (0 # concat segs), tot, xdr_at ?b (length ?b)))"
    using as_path_bytes [of 0 segs 0 ?h "[]"] assms(2) n(1) unfolding b by auto
  ultimately show ?thesis using n(2,3) by (simp add: sflowReadExtGateway_def)
qed

theorem sflowReadExtGateway_roundtrip_witness:
  "sflowReadExtGateway (gateway_bytes 0x0A000001 65000 64512 64513 [[64513, 3356], [15169]]) record_zero
    = Some (record_zero\<lparr>BGPNextHop := addrOrZero (put32 0x0A000001), SrcAS := 64512, DstAS := 15169\<rparr>)"
  using sflowReadExtGateway_roundtrip [of "[[64513, 3356], [15169]]"] by simp

end
