(* ===== verification/Flow_Aggregate.thy ===== *)
theory Flow_Aggregate
  imports Flow_Decode "HOL-Library.Char_ord" "HOL-Library.List_Lexorder" "HOL-Library.Product_Lexorder"
begin

unbundle bit_operations_syntax

text \<open>
  \<open>internal/flow/aggregate.go\<close>: the interval accumulator. Records are folded into buckets keyed by
  exporter, interface, dimension and value; \<open>Drain\<close> returns the top-N buckets per exporter,
  interface and dimension and resets the accumulator. The map of counters is an association list
  with distinct keys; Go ranges over a map in an unspecified order, and the results about \<open>Drain\<close>
  hold for every order of that list.

  Shown: every record's octets and packets are counted exactly once per key it belongs to, whatever
  the key cap does with the value; the cap bounds the detailed keys; \<open>Drain\<close> returns for each group
  its N largest buckets, in order, ties by value; the two directions of a conversation meet in one
  bucket; and the bounded dimensions have distinct names.
\<close>

datatype Dimension = DimTalker | DimConversation | DimApplication | DimProtocol | DimDSCP | DimAS
  | DimSubnet | DimTCPFlags

definition Dimensions :: "Dimension list" where
  "Dimensions = [DimTalker, DimConversation, DimApplication, DimProtocol, DimDSCP, DimAS, DimSubnet, DimTCPFlags]"

record Key =
  KExporter :: string
  IfIndex :: u32
  KDimension :: Dimension
  Value :: string

record counters =
  cbytes :: u64
  cpackets :: u64
  csampled :: bool

record Aggregator =
  TopN :: int
  counts :: "(Key, counters) gomap"
  MaxKeys :: int
  dropped :: u64

definition DefaultTopN :: int where "DefaultTopN = 25"
definition DefaultMaxKeys :: int where "DefaultMaxKeys = 200000"
definition OtherValue :: string where "OtherValue = ''other''"

definition NewAggregator :: Aggregator where
  "NewAggregator = \<lparr>TopN = DefaultTopN, counts = [], MaxKeys = DefaultMaxKeys, dropped = 0\<rparr>"

subsection \<open>Names\<close>

text \<open>The separator is a space, U+21C4 in UTF-8, and a space.\<close>

definition arrows :: string where
  "arrows = '' '' @ map byte_char [0xE2, 0x87, 0x84] @ '' ''"

definition conversation :: "Addr \<Rightarrow> Addr \<Rightarrow> string" where
  "conversation a b =
     (if addr_compare a b \<le> 0 then addr_string a @ arrows @ addr_string b
      else addr_string b @ arrows @ addr_string a)"

definition protoName :: "byte \<Rightarrow> string" where
  "protoName p =
     (if p = 1 then ''icmp'' else if p = 6 then ''tcp'' else if p = 17 then ''udp''
      else if p = 47 then ''gre'' else if p = 50 then ''esp'' else if p = 58 then ''icmp6''
      else ''ip/'' @ nat_str (unat p))"

definition wellKnown :: "((u16 \<times> byte) \<times> string) list" where
  "wellKnown =
     [((22, 6), ''ssh''), ((23, 6), ''telnet''), ((25, 6), ''smtp''), ((53, 6), ''dns''),
      ((53, 17), ''dns''), ((80, 6), ''http''), ((110, 6), ''pop3''), ((123, 17), ''ntp''),
      ((143, 6), ''imap''), ((161, 17), ''snmp''), ((389, 6), ''ldap''), ((443, 6), ''https''),
      ((443, 17), ''quic''), ((445, 6), ''smb''), ((465, 6), ''smtps''), ((514, 17), ''syslog''),
      ((587, 6), ''submission''), ((993, 6), ''imaps''), ((995, 6), ''pop3s''),
      ((1194, 17), ''openvpn''), ((3306, 6), ''mysql''), ((3389, 6), ''rdp''),
      ((5432, 6), ''postgres''), ((5060, 17), ''sip''), ((6379, 6), ''redis''),
      ((51820, 17), ''wireguard'')]"

definition application :: "Record \<Rightarrow> string" where
  "application r =
     (case (map_of wellKnown (SrcPort r, Protocol r), map_of wellKnown (DstPort r, Protocol r)) of
        (Some s, Some d) \<Rightarrow> if SrcPort r \<le> DstPort r then s else d
      | (Some s, None) \<Rightarrow> s
      | (None, Some d) \<Rightarrow> d
      | (None, None) \<Rightarrow>
          let port = (if DstPort r < SrcPort r \<or> SrcPort r = 0 then DstPort r else SrcPort r);
              name = protoName (Protocol r)
          in if port = 0 then name else name @ ''/'' @ nat_str (unat port))"

definition dscpName :: "byte \<Rightarrow> string" where
  "dscpName d =
     (if d = 0 then ''be'' else if d = 46 then ''ef'' else if d = 44 then ''voice-admit''
      else if d AND 7 = 0 then ''cs'' @ nat_str (unat (drop_bit 3 d))
      else if 1 \<le> drop_bit 3 d \<and> drop_bit 3 d \<le> 4 \<and> d AND 1 = 0 \<and> 1 \<le> drop_bit 1 d AND 3
      then ''af'' @ nat_str (unat (drop_bit 3 d)) @ nat_str (unat (drop_bit 1 d AND 3))
      else ''dscp/'' @ nat_str (unat d))"

definition defaultSubnetV4 :: int where "defaultSubnetV4 = 24"
definition defaultSubnetV6 :: int where "defaultSubnetV6 = 48"

definition subnet :: "Addr \<Rightarrow> byte \<Rightarrow> string" where
  "subnet a m =
     (let bits = (if m = 0 \<or> int (addr_bitlen a) < uint m
                  then (if addr_is6 a then defaultSubnetV6 else defaultSubnetV4)
                  else uint m)
      in case addr_prefix a bits of None \<Rightarrow> addr_string a | Some p \<Rightarrow> prefix_string p)"

definition tcpFlagNames :: "(byte \<times> string) list" where
  "tcpFlagNames = [(0x02, ''SYN''), (0x10, ''ACK''), (0x08, ''PSH''), (0x01, ''FIN''), (0x04, ''RST''),
     (0x20, ''URG''), (0x40, ''ECE''), (0x80, ''CWR'')]"

definition tcpFlagsName :: "byte \<Rightarrow> string" where
  "tcpFlagsName f =
     (if f = 0 then ''none''
      else foldl (\<lambda>b (bt, name). if f AND bt \<noteq> 0 then (if b \<noteq> [] then b @ '','' else b) @ name else b)
             [] tcpFlagNames)"

subsection \<open>Adding\<close>

definition counters_zero :: counters where
  "counters_zero = \<lparr>cbytes = 0, cpackets = 0, csampled = False\<rparr>"

definition counters_add :: "Record \<Rightarrow> counters \<Rightarrow> counters" where
  "counters_add r c = \<lparr>cbytes = cbytes c + Bytes r, cpackets = cpackets c + Packets r,
     csampled = (csampled c \<or> Sampled r)\<rparr>"

definition agg_add :: "Key \<Rightarrow> Record \<Rightarrow> Aggregator \<Rightarrow> Aggregator" where
  "agg_add k r a =
     (case map_of (counts a) k of
        Some c \<Rightarrow> a\<lparr>counts := AList.update k (counters_add r c) (counts a)\<rparr>
      | None \<Rightarrow>
          if 0 < MaxKeys a \<and> MaxKeys a \<le> int (length (counts a)) then
            let k' = k\<lparr>Value := OtherValue\<rparr>;
                c = (case map_of (counts a) k' of Some c \<Rightarrow> c | None \<Rightarrow> counters_zero)
            in a\<lparr>counts := AList.update k' (counters_add r c) (counts a), dropped := dropped a + 1\<rparr>
          else a\<lparr>counts := AList.update k (counters_add r counters_zero) (counts a)\<rparr>)"

text \<open>The keys one record is added under, in the order of the calls; none without an interface.\<close>

definition record_if :: "Record \<Rightarrow> u32" where
  "record_if r = (if InputIf r = 0 then OutputIf r else InputIf r)"

definition as_name :: "u32 \<Rightarrow> string" where
  "as_name n = ''AS'' @ nat_str (unat n)"

definition record_keys :: "string \<Rightarrow> Record \<Rightarrow> Key list" where
  "record_keys exporter r =
     (let i = record_if r; key = (\<lambda>d v. \<lparr>KExporter = exporter, IfIndex = i, KDimension = d, Value = v\<rparr>);
          src = subnet (SrcAddr r) (SrcMask r); dst = subnet (DstAddr r) (DstMask r)
      in if i = 0 then []
         else [key DimTalker (addr_string (SrcAddr r)),
               key DimTalker (addr_string (DstAddr r)),
               key DimConversation (conversation (SrcAddr r) (DstAddr r)),
               key DimApplication (application r),
               key DimProtocol (protoName (Protocol r)),
               key DimDSCP (dscpName (drop_bit 2 (TOS r)))]
              @ (if SrcAS r \<noteq> 0 then [key DimAS (as_name (SrcAS r))] else [])
              @ (if DstAS r \<noteq> 0 \<and> DstAS r \<noteq> SrcAS r then [key DimAS (as_name (DstAS r))] else [])
              @ [key DimSubnet src]
              @ (if dst \<noteq> src then [key DimSubnet dst] else [])
              @ (if Protocol r = 6 then [key DimTCPFlags (tcpFlagsName (TCPFlags r))] else []))"

definition agg_record :: "string \<Rightarrow> Record \<Rightarrow> Aggregator \<Rightarrow> Aggregator" where
  "agg_record exporter r a = foldl (\<lambda>a k. agg_add k r a) a (record_keys exporter r)"

definition agg_Add :: "packet option \<Rightarrow> Aggregator \<Rightarrow> Aggregator" where
  "agg_Add p a = (case p of None \<Rightarrow> a
     | Some p \<Rightarrow> foldl (\<lambda>a r. agg_record (addr_string (ExporterIP p)) r a) a (Records p))"

subsection \<open>Draining\<close>

record Bucket =
  BKey :: Key
  BBytes :: u64
  BPackets :: u64
  BSampled :: bool

type_synonym group = "string \<times> u32 \<times> Dimension"

definition group_of :: "Key \<Rightarrow> group" where
  "group_of k = (KExporter k, IfIndex k, KDimension k)"

definition bucket :: "Key \<times> counters \<Rightarrow> Bucket" where
  "bucket kc = \<lparr>BKey = fst kc, BBytes = cbytes (snd kc), BPackets = cpackets (snd kc), BSampled = csampled (snd kc)\<rparr>"

definition grouped :: "(Key, counters) gomap \<Rightarrow> (group, Bucket list) gomap" where
  "grouped cs = foldl (\<lambda>m kc. let g = group_of (fst kc);
       rows = (case map_of m g of Some rows \<Rightarrow> rows | None \<Rightarrow> [])
     in AList.update g (rows @ [bucket kc]) m) [] cs"

text \<open>
  The comparison of \<open>sort.Slice\<close>, and the sort: descending octets, then ascending value (Go compares
  strings by bytes).
\<close>

definition bucket_less :: "Bucket \<Rightarrow> Bucket \<Rightarrow> bool" where
  "bucket_less x y =
     (if BBytes x \<noteq> BBytes y then BBytes y < BBytes x else Value (BKey x) < Value (BKey y))"

definition bucket_rank :: "Bucket \<Rightarrow> int \<times> string" where
  "bucket_rank x = (- uint (BBytes x), Value (BKey x))"

definition sort_rows :: "Bucket list \<Rightarrow> Bucket list" where
  "sort_rows rows = sort_key bucket_rank rows"

definition eff_topN :: "Aggregator \<Rightarrow> nat" where
  "eff_topN a = nat (if TopN a \<le> 0 then DefaultTopN else TopN a)"

definition Drain :: "Aggregator \<Rightarrow> Bucket list \<times> Aggregator" where
  "Drain a =
     (let topN = eff_topN a in
      (concat (map (\<lambda>(g, rows). let rows = sort_rows rows in if topN < length rows then take topN rows else rows)
         (grouped (counts a))),
       a\<lparr>counts := [], dropped := 0\<rparr>))"

definition Dropped :: "Aggregator \<Rightarrow> u64" where
  "Dropped a = dropped a"

subsection \<open>Conservation\<close>

text \<open>What the buckets of a group hold together, in one field of the counters.\<close>

definition group_total :: "(counters \<Rightarrow> u64) \<Rightarrow> (Key, counters) gomap \<Rightarrow> group \<Rightarrow> u64" where
  "group_total f cs g = sum_list (map (\<lambda>kc. if group_of (fst kc) = g then f (snd kc) else 0) cs)"

lemma group_total_update:
  "group_total f (AList.update k v cs) g = group_total f cs g +
     (if group_of k = g then f v - (case map_of cs k of None \<Rightarrow> 0 | Some w \<Rightarrow> f w) else 0)"
  by (induction cs) (auto simp: group_total_def)

lemma group_of_other [simp]: "group_of (k\<lparr>Value := v\<rparr>) = group_of k"
  by (simp add: group_of_def)

lemma counters_add_simps [simp]:
  "cbytes (counters_add r c) = cbytes c + Bytes r" "cpackets (counters_add r c) = cpackets c + Packets r"
  "cbytes counters_zero = 0" "cpackets counters_zero = 0"
  by (simp_all add: counters_add_def counters_zero_def)

lemma group_total_agg_add:
  "group_total cbytes (counts (agg_add k r a)) g
     = group_total cbytes (counts a) g + (if group_of k = g then Bytes r else 0)"
  "group_total cpackets (counts (agg_add k r a)) g
     = group_total cpackets (counts a) g + (if group_of k = g then Packets r else 0)"
  by (auto simp: agg_add_def group_total_update Let_def split: option.split)

lemma group_total_keys:
  "group_total cbytes (counts (foldl (\<lambda>a k. agg_add k r a) a ks)) g
     = group_total cbytes (counts a) g + of_nat (count_list (map group_of ks) g) * Bytes r"
  "group_total cpackets (counts (foldl (\<lambda>a k. agg_add k r a) a ks)) g
     = group_total cpackets (counts a) g + of_nat (count_list (map group_of ks) g) * Packets r"
  by (induction ks arbitrary: a) (auto simp: group_total_agg_add algebra_simps)

text \<open>How many values a record has in a dimension.\<close>

definition shares :: "Dimension \<Rightarrow> Record \<Rightarrow> nat" where
  "shares d r = (case d of DimTalker \<Rightarrow> 2
     | DimAS \<Rightarrow> card ({SrcAS r, DstAS r} - {0})
     | DimSubnet \<Rightarrow> card {subnet (SrcAddr r) (SrcMask r), subnet (DstAddr r) (DstMask r)}
     | DimTCPFlags \<Rightarrow> if Protocol r = 6 then 1 else 0
     | _ \<Rightarrow> 1)"

text \<open>What a record owes a group: its amount once for each of its values, if it is on that interface at all.\<close>

definition owed :: "(Record \<Rightarrow> u64) \<Rightarrow> string \<Rightarrow> group \<Rightarrow> Record \<Rightarrow> u64" where
  "owed f exporter g r = (case g of (e, i, d) \<Rightarrow>
     if e = exporter \<and> i \<noteq> 0 \<and> record_if r = i then of_nat (shares d r) * f r else 0)"

lemma card_AS: "card ({s, t} - {0}) = (if s \<noteq> 0 then 1 else 0) + (if t \<noteq> 0 \<and> t \<noteq> s then 1 else 0)" for s t :: u32
proof -
  have "{s, t} - {0} = (if s = 0 then {} else {s}) \<union> (if t = 0 then {} else {t})" by auto
  then show ?thesis by auto
qed

lemma count_record_keys:
  "of_nat (count_list (map group_of (record_keys e r)) g) * f r = owed f e g r"
proof -
  obtain e' i d where g: "g = (e', i, d)" by (cases g)
  have "count_list (map group_of (record_keys e r)) (e', i, d) = (if e' = e \<and> i \<noteq> 0 \<and> record_if r = i then shares d r else 0)"
    by (cases d) (auto simp: record_keys_def Let_def group_of_def shares_def card_AS)
  then show ?thesis by (simp add: g owed_def)
qed

lemma group_total_record:
  "group_total cbytes (counts (agg_record e r a)) g = group_total cbytes (counts a) g + owed Bytes e g r"
  "group_total cpackets (counts (agg_record e r a)) g = group_total cpackets (counts a) g + owed Packets e g r"
  by (simp_all add: agg_record_def group_total_keys count_record_keys)

lemma group_total_Add:
  "group_total cbytes (counts (agg_Add (Some p) a)) g = group_total cbytes (counts a) g + (\<Sum>r\<leftarrow>Records p. owed Bytes (addr_string (ExporterIP p)) g r)"
  "group_total cpackets (counts (agg_Add (Some p) a)) g = group_total cpackets (counts a) g + (\<Sum>r\<leftarrow>Records p. owed Packets (addr_string (ExporterIP p)) g r)"
proof -
  let ?e = "addr_string (ExporterIP p)"
  have "group_total cbytes (counts (foldl (\<lambda>a r. agg_record ?e r a) a rs)) g = group_total cbytes (counts a) g + (\<Sum>r\<leftarrow>rs. owed Bytes ?e g r)"
    and "group_total cpackets (counts (foldl (\<lambda>a r. agg_record ?e r a) a rs)) g = group_total cpackets (counts a) g + (\<Sum>r\<leftarrow>rs. owed Packets ?e g r)" for rs
    by (induction rs arbitrary: a) (simp_all add: group_total_record add.assoc)
  then show "group_total cbytes (counts (agg_Add (Some p) a)) g = group_total cbytes (counts a) g + (\<Sum>r\<leftarrow>Records p. owed Bytes ?e g r)"
    and "group_total cpackets (counts (agg_Add (Some p) a)) g = group_total cpackets (counts a) g + (\<Sum>r\<leftarrow>Records p. owed Packets ?e g r)"
    by (simp_all add: agg_Add_def)
qed

text \<open>
  C35. Nothing is lost and nothing invented, in any dimension: a packet adds to the buckets of a group
  together, for each of its records on that interface, the octets and packets of the record once for each
  value the record has in that dimension (two talkers; one conversation, application, protocol and traffic
  class; its distinct autonomous systems other than zero; its distinct subnets; TCP flags for TCP only), also
  when the key cap has folded values into \<open>other\<close>. Records without an interface add nothing, and the groups
  of other exporters are untouched.
\<close>

theorem Add_conserves:
  "group_total cbytes (counts (agg_Add (Some p) a)) (e, i, d) = group_total cbytes (counts a) (e, i, d) +
      (\<Sum>r\<leftarrow>Records p. if e = addr_string (ExporterIP p) \<and> i \<noteq> 0 \<and> record_if r = i then of_nat (shares d r) * Bytes r else 0) \<and>
   group_total cpackets (counts (agg_Add (Some p) a)) (e, i, d) = group_total cpackets (counts a) (e, i, d) +
      (\<Sum>r\<leftarrow>Records p. if e = addr_string (ExporterIP p) \<and> i \<noteq> 0 \<and> record_if r = i then of_nat (shares d r) * Packets r else 0)"
  using group_total_Add [of p a "(e, i, d)"] by (simp add: owed_def cong: if_cong)

subsection \<open>The key cap\<close>

definition detailed :: "Aggregator \<Rightarrow> nat" where
  "detailed a = length (filter (\<lambda>kc. Value (fst kc) \<noteq> OtherValue) (counts a))"

definition agg_ok :: "Aggregator \<Rightarrow> bool" where
  "agg_ok a \<longleftrightarrow> gm_ok (counts a) \<and> (0 < MaxKeys a \<longrightarrow> int (detailed a) \<le> MaxKeys a)"

lemma agg_ok_New: "agg_ok NewAggregator"
  by (simp add: agg_ok_def NewAggregator_def detailed_def DefaultMaxKeys_def)

lemma filter_update_le:
  "length (filter P (AList.update k v cs)) \<le> length (filter P cs) + (if P (k, v) then 1 else 0)"
  if "\<And>w. P (k, w) = P (k, v)" for P
  using that by (induction cs) auto

lemma filter_update_old:
  "map_of cs k = Some w \<Longrightarrow> length (filter (\<lambda>kc. P (fst kc)) (AList.update k v cs)) = length (filter (\<lambda>kc. P (fst kc)) cs)"
  by (induction cs) auto

lemma agg_add_MaxKeys [simp]: "MaxKeys (agg_add k r a) = MaxKeys a"
  by (simp add: agg_add_def Let_def split: option.split)

lemma agg_ok_add:
  assumes "agg_ok a"
  shows "agg_ok (agg_add k r a)"
proof -
  have ok: "gm_ok (counts (agg_add k r a))"
    using assms by (auto simp: agg_ok_def agg_add_def Let_def distinct_update split: option.split)
  have le: "detailed a \<le> length (counts a)" by (simp add: detailed_def)
  show ?thesis
  proof (cases "map_of (counts a) k")
    case (Some c)
    with ok assms show ?thesis
      by (simp add: agg_ok_def detailed_def agg_add_def filter_update_old [of _ _ c "\<lambda>k. Value k \<noteq> OtherValue"])
  next
    case None
    let ?cap = "0 < MaxKeys a \<and> MaxKeys a \<le> int (length (counts a))"
    have "detailed (agg_add k r a) \<le> detailed a + (if ?cap then 0 else 1)"
    proof (cases ?cap)
      case True
      with None show ?thesis
        using filter_update_le [of "\<lambda>kc. Value (fst kc) \<noteq> OtherValue" "k\<lparr>Value := OtherValue\<rparr>"]
        by (simp add: agg_add_def detailed_def Let_def)
    next
      case False
      with None show ?thesis
        using filter_update_le [of "\<lambda>kc. Value (fst kc) \<noteq> OtherValue" k "counters_add r counters_zero" "counts a"]
        by (auto simp: agg_add_def detailed_def Let_def split: if_splits)
    qed
    with ok assms le show ?thesis by (auto simp: agg_ok_def split: if_splits)
  qed
qed

lemma agg_ok_Add: "agg_ok a \<Longrightarrow> agg_ok (agg_Add p a)"
proof (cases p)
  case (Some q)
  have keys: "agg_ok (foldl (\<lambda>a k. agg_add k r a) a ks)" if "agg_ok a" for a r ks
    using that by (induction ks arbitrary: a) (auto intro: agg_ok_add)
  have "agg_ok (foldl (\<lambda>a r. agg_record e r a) a rs)" if "agg_ok a" for a e rs
    using that by (induction rs arbitrary: a) (auto simp: agg_record_def intro: keys)
  then show "agg_ok a \<Longrightarrow> agg_ok (agg_Add p a)" by (simp add: agg_Add_def Some)
qed (simp add: agg_Add_def)

text \<open>
  The key cap: however many packets arrive in an interval, the buckets that carry a value of
  their own never exceed a positive \<open>MaxKeys\<close>.
\<close>

theorem MaxKeys_bounds_detail:
  assumes "agg_ok a" and "0 < MaxKeys a"
  shows "int (detailed (foldl (\<lambda>a p. agg_Add p a) a ps)) \<le> MaxKeys a"
proof -
  have keys: "MaxKeys (foldl (\<lambda>a k. agg_add k r a) a ks) = MaxKeys a" for a r ks
    by (induction ks arbitrary: a) simp_all
  have recs: "MaxKeys (foldl (\<lambda>a r. agg_record e r a) a rs) = MaxKeys a" for a e rs
    by (induction rs arbitrary: a) (simp_all add: agg_record_def keys)
  have "MaxKeys (foldl (\<lambda>a p. agg_Add p a) a ps) = MaxKeys a"
    by (induction ps arbitrary: a) (simp_all add: agg_Add_def recs split: option.split)
  moreover have "agg_ok (foldl (\<lambda>a p. agg_Add p a) a ps)"
    using assms(1) by (induction ps arbitrary: a) (simp_all add: agg_ok_Add)
  ultimately show ?thesis using assms(2) by (simp add: agg_ok_def)
qed

theorem MaxKeys_bounds_detail_witness:
  "int (detailed (foldl (\<lambda>a p. agg_Add p a) NewAggregator
     [Some \<lparr>ExporterIP = Addr4 1, Records = [record_zero\<lparr>InputIf := 3\<rparr>]\<rparr>, None])) \<le> 200000"
  using MaxKeys_bounds_detail [OF agg_ok_New, of "[Some \<lparr>ExporterIP = Addr4 1,
      Records = [record_zero\<lparr>InputIf := 3\<rparr>]\<rparr>, None]"]
  by (simp add: NewAggregator_def DefaultMaxKeys_def)

text \<open>
  The cap does not bound the map itself: at the cap, a record of an exporter, interface and
  dimension not seen in the interval still adds an entry, its own \<open>other\<close> bucket, so the map grows
  with the number of distinct (spoofable) exporter addresses and interface indexes.
\<close>

theorem cap_admits_new_groups:
  assumes "0 < MaxKeys a" and "MaxKeys a \<le> int (length (counts a))"
    and "group_of k \<notin> group_of ` fst ` set (counts a)"
  shows "length (counts (agg_add k r a)) = Suc (length (counts a))"
proof -
  have none: "map_of (counts a) k' = None" if "group_of k' = group_of k" for k'
    using that assms(3) by (auto simp: map_of_eq_None_iff intro: rev_image_eqI)
  have "length (AList.update k' v cs) = Suc (length cs)" if "map_of cs k' = None" for k' v and cs :: "(Key, counters) gomap"
    using that by (induction cs) (auto split: if_splits)
  with none [of k] none [of "k\<lparr>Value := OtherValue\<rparr>"] assms show ?thesis
    by (simp add: agg_add_def Let_def)
qed

definition ex_agg_key :: "u32 \<Rightarrow> Key" where
  "ex_agg_key i = \<lparr>KExporter = ''10.0.0.1'', IfIndex = i, KDimension = DimTalker, Value = ''10.0.0.2''\<rparr>"

theorem cap_admits_new_groups_witness:
  "length (counts (agg_add (ex_agg_key 2) record_zero
     (NewAggregator\<lparr>MaxKeys := 1, counts := [(ex_agg_key 1, counters_zero)]\<rparr>))) = 2"
  using cap_admits_new_groups [of "NewAggregator\<lparr>MaxKeys := 1, counts := [(ex_agg_key 1, counters_zero)]\<rparr>"
      "ex_agg_key 2" record_zero]
  by (simp add: ex_agg_key_def group_of_def)

subsection \<open>The drained table\<close>

lemma bucket_less_rank: "bucket_less x y \<longleftrightarrow> bucket_rank x < bucket_rank y"
proof (cases "BBytes x = BBytes y")
  case False
  then have "uint (BBytes x) \<noteq> uint (BBytes y)" using word_uint_eq_iff by blast
  with False show ?thesis by (auto simp: bucket_less_def bucket_rank_def less_prod_def word_less_def)
qed (simp add: bucket_less_def bucket_rank_def less_prod_def)

definition group_rows :: "Aggregator \<Rightarrow> group \<Rightarrow> Bucket list" where
  "group_rows a g = map bucket (filter (\<lambda>kc. group_of (fst kc) = g) (counts a))"

lemma grouped_snoc:
  "grouped (cs @ [kc]) = (let g = group_of (fst kc);
       rows = (case map_of (grouped cs) g of Some rows \<Rightarrow> rows | None \<Rightarrow> [])
     in AList.update g (rows @ [bucket kc]) (grouped cs))"
  by (simp add: grouped_def)

lemma map_of_grouped:
  "map_of (grouped cs) g = (let rows = map bucket (filter (\<lambda>kc. group_of (fst kc) = g) cs)
     in if rows = [] then None else Some rows)"
proof (induction cs arbitrary: g rule: rev_induct)
  case Nil
  then show ?case by (simp add: grouped_def)
next
  case (snoc kc cs)
  then show ?case
    by (cases "group_of (fst kc) = g") (auto simp: grouped_snoc Let_def update_conv')
qed

lemma gm_ok_grouped: "gm_ok (grouped cs)"
  by (induction cs rule: rev_induct) (simp_all add: grouped_snoc Let_def distinct_update, simp add: grouped_def)

lemma concat_select:
  assumes "distinct (map fst m)" and "\<And>g rows x. (g, rows) \<in> set m \<Longrightarrow> x \<in> set (f rows) \<Longrightarrow> key x = g"
  shows "filter (\<lambda>x. key x = g) (concat (map (\<lambda>(g, rows). f rows) m))
    = (case map_of m g of None \<Rightarrow> [] | Some rows \<Rightarrow> f rows)"
  using assms
proof (induction m)
  case (Cons gr m)
  obtain h rows where gr: "gr = (h, rows)" by force
  have mine: "\<forall>x \<in> set (f rows). key x = h" using Cons.prems(2) gr by auto
  have rest: "filter (\<lambda>x. key x = g) (concat (map (\<lambda>(g, rows). f rows) m))
      = (case map_of m g of None \<Rightarrow> [] | Some rows \<Rightarrow> f rows)"
    using Cons.IH Cons.prems by auto
  show ?case
  proof (cases "h = g")
    case True
    then have "map_of m g = None" using Cons.prems(1) gr by (auto simp: map_of_eq_None_iff)
    with True mine rest gr show ?thesis by (simp add: filter_id_conv)
  next
    case False
    then have "filter (\<lambda>x. key x = g) (f rows) = []" using mine by (auto simp: filter_empty_conv)
    with False rest gr show ?thesis by simp
  qed
qed simp

lemma Drain_group:
  "filter (\<lambda>b. group_of (BKey b) = g) (fst (Drain a)) = take (eff_topN a) (sort_rows (group_rows a g))"
proof -
  let ?f = "\<lambda>rows. take (eff_topN a) (sort_rows rows)"
  have "fst (Drain a) = concat (map (\<lambda>(g, rows). ?f rows) (grouped (counts a)))"
    by (simp add: Drain_def Let_def) (metis (mono_tags, lifting) linorder_not_le take_all)
  moreover have "group_of (BKey b) = h" if "(h, rows) \<in> set (grouped (counts a))" and "b \<in> set (?f rows)" for h rows b
  proof -
    have "map_of (grouped (counts a)) h = Some rows" using that(1) gm_ok_grouped by simp
    then have "rows = map bucket (filter (\<lambda>kc. group_of (fst kc) = h) (counts a))"
      by (auto simp: map_of_grouped Let_def split: if_splits)
    moreover have "b \<in> set rows" using that(2) by (auto simp: sort_rows_def dest: in_set_takeD)
    ultimately show ?thesis by (auto simp: bucket_def)
  qed
  ultimately show ?thesis
    using concat_select [OF gm_ok_grouped, of "counts a" ?f "\<lambda>b. group_of (BKey b)" g]
    by (simp add: map_of_grouped group_rows_def Let_def sort_rows_def split: if_splits)
qed

lemma rank_inj:
  assumes "gm_ok (counts a)"
  shows "inj_on bucket_rank (set (group_rows a g))" and "distinct (group_rows a g)"
proof -
  have same: "x = y" if "x \<in> set (counts a)" "y \<in> set (counts a)" "fst x = fst y" for x y
    using assms that by (metis eq_key_imp_eq_value prod.collapse)
  show "inj_on bucket_rank (set (group_rows a g))"
  proof (rule inj_onI)
    fix b c assume "b \<in> set (group_rows a g)" and "c \<in> set (group_rows a g)" and rank: "bucket_rank b = bucket_rank c"
    then obtain x y where x: "x \<in> set (counts a)" "group_of (fst x) = g" "b = bucket x"
        and y: "y \<in> set (counts a)" "group_of (fst y) = g" "c = bucket y"
      unfolding group_rows_def by auto
    have "Value (fst x) = Value (fst y)" using rank x y by (simp add: bucket_rank_def bucket_def)
    then have "fst x = fst y" using x y by (intro Key.equality) (auto simp: group_of_def)
    with x y same show "b = c" by blast
  qed
  have "distinct (counts a)" using assms by (simp add: distinct_map)
  then show "distinct (group_rows a g)"
    by (auto simp: group_rows_def distinct_map bucket_def intro!: inj_onI same)
qed

lemma sort_rows_strict:
  assumes "gm_ok (counts a)"
  shows "sorted_wrt bucket_less (sort_rows (group_rows a g))"
proof -
  have d: "distinct (map bucket_rank (sort_rows (group_rows a g)))"
    using rank_inj [OF assms, of g] by (simp add: sort_rows_def distinct_map)
  have "sorted (map bucket_rank (sort_rows (group_rows a g)))" by (simp add: sort_rows_def)
  with d have "sorted_wrt (<) (map bucket_rank (sort_rows (group_rows a g)))"
    by (simp add: strict_sorted_iff)
  moreover have "bucket_less = (\<lambda>x y. bucket_rank x < bucket_rank y)" by (intro ext) (rule bucket_less_rank)
  ultimately show ?thesis by (simp add: sorted_wrt_map)
qed

text \<open>
  The drained table: for every exporter, interface and dimension, \<open>Drain\<close> returns the N largest
  buckets of that group (all of them when there are fewer), strictly ordered by descending octets
  and then by value, every bucket left out ordered after every bucket returned; and the accumulator
  starts the next interval empty. The order in which Go ranges over its maps plays no role in this.
\<close>

theorem Drain_top:
  assumes "gm_ok (counts a)"
  shows "let rows = filter (\<lambda>b. group_of (BKey b) = g) (fst (Drain a)); all = group_rows a g in
      sorted_wrt bucket_less rows \<and> length rows = min (eff_topN a) (length all) \<and> set rows \<subseteq> set all \<and>
      (\<forall>x \<in> set all - set rows. \<forall>y \<in> set rows. bucket_less y x) \<and>
      counts (snd (Drain a)) = [] \<and> dropped (snd (Drain a)) = 0"
proof -
  let ?all = "sort_rows (group_rows a g)" and ?n = "eff_topN a"
  have split: "?all = take ?n ?all @ drop ?n ?all" by simp
  have s: "sorted_wrt bucket_less (take ?n ?all @ drop ?n ?all)"
    using sort_rows_strict [OF assms] by simp
  then have "sorted_wrt bucket_less (take ?n ?all)"
      "\<forall>y \<in> set (take ?n ?all). \<forall>x \<in> set (drop ?n ?all). bucket_less y x"
    unfolding sorted_wrt_append by blast+
  moreover have "set (group_rows a g) = set (take ?n ?all) \<union> set (drop ?n ?all)"
    by (metis split set_append set_sort sort_rows_def)
  moreover have "length (group_rows a g) = length ?all" by (simp add: sort_rows_def)
  ultimately show ?thesis
    unfolding Let_def Drain_group by (auto simp: Drain_def Let_def)
qed

theorem Drain_top_witness:
  "let a = NewAggregator\<lparr>counts := [(ex_agg_key 1, counters_zero), (ex_agg_key 2, counters_zero)]\<rparr>;
     rows = filter (\<lambda>b. group_of (BKey b) = group_of (ex_agg_key 1)) (fst (Drain a))
   in length rows = 1 \<and> sorted_wrt bucket_less rows"
  using Drain_top [of "NewAggregator\<lparr>counts := [(ex_agg_key 1, counters_zero), (ex_agg_key 2, counters_zero)]\<rparr>"
      "group_of (ex_agg_key 1)"]
  by (simp add: Let_def ex_agg_key_def group_of_def group_rows_def eff_topN_def NewAggregator_def DefaultTopN_def)

subsection \<open>Names keep what they name apart\<close>

text \<open>
  Both directions of an exchange land in one conversation bucket, and in one application
  bucket unless exactly one of the two ports is zero (a zero destination port hides the source
  port, a zero source port does not hide the destination port).
\<close>

theorem directions_meet:
  "conversation a b = conversation b a \<and> ((SrcPort r = 0) = (DstPort r = 0) \<longrightarrow>
     application (r\<lparr>SrcPort := DstPort r, DstPort := SrcPort r\<rparr>) = application r)"
proof (intro conjI impI)
  show "conversation a b = conversation b a"
    using addr_compare_le_antisym [of a b] addr_compare_le_total [of a b] by (auto simp: conversation_def)
  assume zero: "(SrcPort r = 0) = (DstPort r = 0)"
  show "application (r\<lparr>SrcPort := DstPort r, DstPort := SrcPort r\<rparr>) = application r"
  proof (cases "SrcPort r = DstPort r")
    case True
    then have "r\<lparr>SrcPort := DstPort r, DstPort := SrcPort r\<rparr> = r" by simp
    then show ?thesis by simp
  next
    case False
    with zero show ?thesis
      by (auto simp: application_def Let_def split: option.split)
  qed
qed

theorem directions_meet_witness:
  "application (record_zero\<lparr>SrcPort := 51820, DstPort := 28778, Protocol := 17\<rparr>) = ''wireguard'' \<and>
   application (record_zero\<lparr>SrcPort := 28778, DstPort := 51820, Protocol := 17\<rparr>) = ''wireguard''"
proof -
  have "application (record_zero\<lparr>SrcPort := 51820, DstPort := 28778, Protocol := 17\<rparr>) = ''wireguard''"
    by (simp add: application_def wellKnown_def record_zero_def)
  with directions_meet [of AddrZero AddrZero "record_zero\<lparr>SrcPort := 51820, DstPort := 28778, Protocol := 17\<rparr>"]
  show ?thesis by (simp add: record_zero_def)
qed

text \<open>A zero destination port hides the source port; a zero source port does not hide the destination's.\<close>

lemma application_zero_port:
  "application (record_zero\<lparr>SrcPort := 7, DstPort := 0, Protocol := 17\<rparr>) = ''udp''"
  "application (record_zero\<lparr>SrcPort := 0, DstPort := 7, Protocol := 17\<rparr>) = ''udp/7''"
  by code_simp+

text \<open>Comma-separated lists of non-empty comma-free names determine the names.\<close>

definition comma_free :: "string \<Rightarrow> bool" where
  "comma_free n \<longleftrightarrow> n \<noteq> [] \<and> CHR '','' \<notin> set n"

definition commas :: "string list \<Rightarrow> string" where
  "commas ns = concat (map (\<lambda>n. '','' @ n) ns)"

lemma commas_inj: "list_all comma_free ms \<Longrightarrow> list_all comma_free ns \<Longrightarrow> commas ms = commas ns \<Longrightarrow> ms = ns"
proof (induction ms arbitrary: ns)
  case Nil
  then show ?case by (cases ns) (simp_all add: commas_def)
next
  case (Cons m ms)
  then obtain n ns' where ns: "ns = n # ns'" by (cases ns) (simp_all add: commas_def)
  have tw: "takeWhile (\<lambda>c. c \<noteq> CHR '','') (x @ commas xs) = x" if "comma_free x" for x xs
    using that by (cases xs) (auto simp: comma_free_def commas_def takeWhile_tail takeWhile_eq_all_conv)
  have eq: "m @ commas ms = n @ commas ns'" using Cons.prems(3) ns by (simp add: commas_def)
  have "m = n" using tw [of m ms] tw [of n ns'] eq Cons.prems(1,2) ns by simp
  moreover from this eq have "commas ms = commas ns'" by simp
  ultimately show ?case using Cons.IH [of ns'] Cons.prems ns by simp
qed

lemma tcpFlags_commas:
  "list_all (comma_free \<circ> snd) nm \<Longrightarrow>
   foldl (\<lambda>b (bt, name). if f AND bt \<noteq> 0 then (if b \<noteq> [] then b @ '','' else b) @ name else b) b nm
     = (if b \<noteq> [] then b @ commas (map snd (filter (\<lambda>x. f AND fst x \<noteq> 0) nm))
        else tl (commas (map snd (filter (\<lambda>x. f AND fst x \<noteq> 0) nm))))" for f :: byte
  by (induction nm arbitrary: b) (auto simp: commas_def comma_free_def)

definition flags_on :: "byte \<Rightarrow> string list" where
  "flags_on f = map snd (filter (\<lambda>x. f AND fst x \<noteq> 0) tcpFlagNames)"

lemma and_flag: "f AND 1 \<noteq> 0 \<longleftrightarrow> bit f 0" "f AND 2 \<noteq> 0 \<longleftrightarrow> bit f 1" "f AND 4 \<noteq> 0 \<longleftrightarrow> bit f 2"
  "f AND 8 \<noteq> 0 \<longleftrightarrow> bit f 3" "f AND 16 \<noteq> 0 \<longleftrightarrow> bit f 4" "f AND 32 \<noteq> 0 \<longleftrightarrow> bit f 5"
  "f AND 64 \<noteq> 0 \<longleftrightarrow> bit f 6" "f AND 128 \<noteq> 0 \<longleftrightarrow> bit f 7" for f :: byte
  using and_exp_eq_0_iff_not_bit [of f 0] and_exp_eq_0_iff_not_bit [of f 1] and_exp_eq_0_iff_not_bit [of f 2]
    and_exp_eq_0_iff_not_bit [of f 3] and_exp_eq_0_iff_not_bit [of f 4] and_exp_eq_0_iff_not_bit [of f 5]
    and_exp_eq_0_iff_not_bit [of f 6] and_exp_eq_0_iff_not_bit [of f 7] by simp_all

lemma bit_byte_cases: "bit f n \<Longrightarrow> n < 8" for f :: byte
  using bit_imp_le_length [of f n] by simp

lemma byte_eq_flags:
  assumes "set (flags_on f) = set (flags_on g)"
  shows "f = g"
proof -
  have flag: "''FIN'' \<in> set (flags_on h) \<longleftrightarrow> bit h 0" "''SYN'' \<in> set (flags_on h) \<longleftrightarrow> bit h 1"
    "''RST'' \<in> set (flags_on h) \<longleftrightarrow> bit h 2" "''PSH'' \<in> set (flags_on h) \<longleftrightarrow> bit h 3"
    "''ACK'' \<in> set (flags_on h) \<longleftrightarrow> bit h 4" "''URG'' \<in> set (flags_on h) \<longleftrightarrow> bit h 5"
    "''ECE'' \<in> set (flags_on h) \<longleftrightarrow> bit h 6" "''CWR'' \<in> set (flags_on h) \<longleftrightarrow> bit h 7" for h
    unfolding and_flag [symmetric] by (auto simp: flags_on_def tcpFlagNames_def)
  have "bit f n = bit g n" if "n < 8" for n
  proof -
    have "n \<in> {0, 1, 2, 3, 4, 5, 6, 7}" using that by (simp, arith)
    then show ?thesis using flag [of f] flag [of g] assms by (elim insertE; simp)
  qed
  then show ?thesis by (intro bit_word_eqI) simp
qed

lemma tcpFlagsName_inj: "inj tcpFlagsName"
proof (rule injI)
  fix f g :: byte
  assume eq: "tcpFlagsName f = tcpFlagsName g"
  have cf: "list_all (comma_free \<circ> snd) tcpFlagNames" by (simp add: tcpFlagNames_def comma_free_def)
  then have on: "list_all comma_free (flags_on h)" for h
    by (auto simp: flags_on_def list_all_iff)
  have name: "tcpFlagsName h = (if h = 0 then ''none'' else tl (commas (flags_on h)))" for h
    by (simp only: tcpFlagsName_def tcpFlags_commas [OF cf]) (simp add: flags_on_def)
  have start: "commas (flags_on h) = CHR '','' # tl (commas (flags_on h))" "hd (tl (commas (flags_on h))) \<noteq> CHR ''n''"
    if nz: "h \<noteq> 0" for h
  proof -
    have "flags_on 0 = []" by (simp add: flags_on_def)
    then have "flags_on h \<noteq> []" using nz byte_eq_flags [of h 0] by auto
    then obtain n ns where n: "flags_on h = n # ns" by (cases "flags_on h") auto
    then have "n \<in> set (flags_on h)" by simp
    then have "n \<in> snd ` set tcpFlagNames" by (auto simp: flags_on_def)
    then have "hd n \<noteq> CHR ''n''" "n \<noteq> []" by (auto simp: tcpFlagNames_def)
    with n show "commas (flags_on h) = CHR '','' # tl (commas (flags_on h))" "hd (tl (commas (flags_on h))) \<noteq> CHR ''n''"
      by (simp_all add: commas_def)
  qed
  show "f = g"
  proof (cases "f = 0 \<or> g = 0")
    case True
    then show ?thesis using eq name [of f] name [of g] start(2) by (metis list.sel(1))
  next
    case False
    then have "commas (flags_on f) = commas (flags_on g)"
      using eq name [of f] name [of g] start(1) by (metis (no_types))
    then show ?thesis using commas_inj [OF on on] byte_eq_flags by metis
  qed
qed

lemma distinct_image_inj: "distinct (map f xs) \<Longrightarrow> inj_on f (set xs)"
  by (simp add: distinct_map)

text \<open>
  The bounded dimensions name without collision: two protocol numbers, two DSCP code points
  (6 bits) or two TCP flag sets never share a bucket, and neither do two autonomous systems.
\<close>

theorem names_injective:
  "inj protoName \<and> inj_on dscpName {d. d < 64} \<and> inj tcpFlagsName \<and> inj as_name"
proof (intro conjI)
  show "inj protoName"
    by (rule injI) (auto simp: protoName_def word_unat_eq_iff split: if_splits)
  show "inj as_name"
    by (rule injI) (simp add: as_name_def word_unat_eq_iff)
  have "distinct (map dscpName (map word_of_nat [0..<64]))" by code_simp
  then have "inj_on dscpName (set (map word_of_nat [0..<64]))" by (rule distinct_image_inj)
  moreover have "d \<in> set (map word_of_nat [0..<64])" if "d < 64" for d :: byte
    using that by (auto simp: word_less_nat_alt intro!: image_eqI [of _ _ "unat d"])
  ultimately show "inj_on dscpName {d. d < 64}" by (auto intro: inj_on_subset)
  show "inj tcpFlagsName" by (rule tcpFlagsName_inj)
qed

end
