(* ===== verification/Flow_Collector.thy ===== *)
theory Flow_Collector
  imports Flow_IPFIX Flow_SFlow Flow_Aggregate
begin

unbundle bit_operations_syntax

text \<open>
  \<open>internal/flow/collector.go\<close>: the handler of one datagram (allow-list, dispatch on the version,
  accounting), the hand-over to the aggregator and to raw storage, and one round of the drain loop.
  The datagram's source is the byte string of its UDP address (\<open>None\<close>: not a UDP address), the
  packets handed to the raw sink are logged in order (\<open>Raw = None\<close>: no sink), and what a tick does
  outside the process is returned as a list of events. The receive goroutines and the drain
  goroutine are interleaved at the granularity of one datagram and one tick (\<open>collector_run\<close>).

  Shown: no datagram and no tick panics in any state the collector reaches; every datagram is
  accounted for exactly once; a source outside the allow-list reaches neither the decoders nor the
  stores; the aggregates and the raw log agree; and the interval counters reported add up.
\<close>

record flow_stats =
  s_packets :: u64
  s_records :: u64
  s_refused :: u64
  s_malformed :: u64
  s_awaiting :: u64

definition stats_zero :: flow_stats where
  "stats_zero = \<lparr>s_packets = 0, s_records = 0, s_refused = 0, s_malformed = 0, s_awaiting = 0\<rparr>"

record Collector =
  Agg :: Aggregator
  Raw :: "packet list option"
  Allow :: "prefix list"
  Templates :: "TemplateCache option"
  stats :: flow_stats
  prev :: flow_stats

definition allowed :: "Collector \<Rightarrow> Addr \<Rightarrow> bool" where
  "allowed c a = (if Allow c = [] then True else list_ex (\<lambda>p. prefix_contains p a) (Allow c))"

definition accept :: "packet \<Rightarrow> Collector \<Rightarrow> Collector" where
  "accept p c = c\<lparr>stats := (stats c)\<lparr>s_packets := s_packets (stats c) + 1,
       s_records := s_records (stats c) + word_of_nat (length (Records p))\<rparr>,
     Agg := agg_Add (Some p) (Agg c),
     Raw := (case Raw c of None \<Rightarrow> None | Some log \<Rightarrow> Some (log @ [p]))\<rparr>"

definition malformed :: "Collector \<Rightarrow> Collector" where
  "malformed c = c\<lparr>stats := (stats c)\<lparr>s_malformed := s_malformed (stats c) + 1\<rparr>\<rparr>"

definition refused :: "Collector \<Rightarrow> Collector" where
  "refused c = c\<lparr>stats := (stats c)\<lparr>s_refused := s_refused (stats c) + 1\<rparr>\<rparr>"

text \<open>The \<open>case 9, 10\<close> branch of \<open>handle\<close>: the decoders that need templates.\<close>

definition handle_templated :: "u16 \<Rightarrow> bytes \<Rightarrow> Addr \<Rightarrow> gotime \<Rightarrow> Collector \<Rightarrow> Collector go" where
  "handle_templated version b src now c = do {
     let tc = (case Templates c of None \<Rightarrow> NewTemplateCache | Some tc \<Rightarrow> tc);
     (p, awaiting, e, tc') \<leftarrow> (if version = 10 then DecodeIPFIX else DecodeNetFlowV9) b src tc now;
     let c = c\<lparr>Templates := Some tc'\<rparr>;
     if e \<noteq> None then Some (malformed c)
     else do {
       let c = (if 0 < awaiting
                then c\<lparr>stats := (stats c)\<lparr>s_awaiting := s_awaiting (stats c) + word_of_nat awaiting\<rparr>\<rparr>
                else c);
       q \<leftarrow> p;
       Some (accept q c)
     }
   }"

definition handle :: "bytes \<Rightarrow> bytes option \<Rightarrow> gotime \<Rightarrow> Collector \<Rightarrow> Collector go" where
  "handle b addr now c =
     (case addr of
        None \<Rightarrow> Some c
      | Some ip \<Rightarrow>
          let (src0, ok) = addr_from_slice ip; src = addr_unmap src0 in
          if \<not> ok then Some c
          else if \<not> allowed c src then Some (refused c)
          else do {
            (version, ok) \<leftarrow> Version b;
            if \<not> ok then Some (malformed c)
            else do {
              sf \<leftarrow> (if version = 0 then IsSFlow b else Some False);
              if sf then do {
                d \<leftarrow> DecodeSFlow b src;
                Some (case d of Inl e \<Rightarrow> malformed c | Inr p \<Rightarrow> accept p c)
              }
              else if version = 5 then do {
                d \<leftarrow> DecodeNetFlowV5 b src;
                Some (case d of Inl e \<Rightarrow> malformed c | Inr p \<Rightarrow> accept p c)
              }
              else if version = 9 \<or> version = 10 then handle_templated version b src now c
              else Some (malformed c)
            }
          })"

subsection \<open>The drain loop\<close>

definition stats_diff :: "flow_stats \<Rightarrow> flow_stats \<Rightarrow> flow_stats" where
  "stats_diff s t = \<lparr>s_packets = s_packets s - s_packets t, s_records = s_records s - s_records t,
     s_refused = s_refused s - s_refused t, s_malformed = s_malformed s - s_malformed t,
     s_awaiting = s_awaiting s - s_awaiting t\<rparr>"

definition interval :: "Collector \<Rightarrow> flow_stats \<times> Collector" where
  "interval c = (stats_diff (stats c) (prev c), c\<lparr>prev := stats c\<rparr>)"

datatype drain_event =
    LogIntake flow_stats nat
  | LogNothingAggregated flow_stats
  | WriteFlow gotime "Bucket list"
  | LogWriteFailed nat
  | LogCapReached u64 int
  | LogWritten nat

text \<open>One round of \<open>drainLoop\<close> at the tick \<open>now\<close>; \<open>ok\<close> says whether the writer succeeds.\<close>

definition drain_tick :: "gotime \<Rightarrow> bool \<Rightarrow> Collector \<Rightarrow> ((flow_stats \<times> drain_event list) \<times> Collector) go" where
  "drain_tick now ok c0 = do {
     let (iv, c) = interval c0;
     intake \<leftarrow> (if 0 < s_refused iv \<or> 0 < s_malformed iv \<or> 0 < s_awaiting iv
               then do { tc \<leftarrow> Templates c; Some [LogIntake iv (tc_len tc)] }
               else Some []);
     let d = Dropped (Agg c);
     let (buckets, agg) = Drain (Agg c);
     let c = c\<lparr>Agg := agg\<rparr>;
     if buckets = [] then
       Some ((iv, intake @ (if s_packets iv = 0 then [] else [LogNothingAggregated iv])), c)
     else if \<not> ok then
       Some ((iv, intake @ [WriteFlow now buckets, LogWriteFailed (length buckets)]), c)
     else
       Some ((iv, intake @ [WriteFlow now buckets]
         @ (if 0 < d then [LogCapReached d (MaxKeys (Agg c))] else []) @ [LogWritten (length buckets)]), c)
   }"

text \<open>The receive loop over the datagrams of a socket, without the reads that time out.\<close>

primrec serve :: "(bytes \<times> bytes option \<times> gotime) list \<Rightarrow> Collector \<Rightarrow> Collector go" where
  "serve [] c = Some c"
| "serve (d # ds) c = (case d of (b, addr, now) \<Rightarrow> do { c \<leftarrow> handle b addr now c; serve ds c })"

text \<open>
  \<open>Run\<close> installs an aggregator and a template cache before it serves; then datagrams and ticks
  interleave. The run keeps the intervals reported so far, newest last.
\<close>

definition collector_start :: "bool \<Rightarrow> prefix list \<Rightarrow> Collector" where
  "collector_start raw allow = \<lparr>Agg = NewAggregator, Raw = (if raw then Some [] else None), Allow = allow,
     Templates = Some NewTemplateCache, stats = stats_zero, prev = stats_zero\<rparr>"

datatype collector_event = Datagram bytes "bytes option" gotime | Tick gotime bool

inductive collector_run :: "Collector \<Rightarrow> collector_event list \<Rightarrow> flow_stats list \<Rightarrow> Collector \<Rightarrow> bool" for c0 where
  run_start: "collector_run c0 [] [] c0"
| run_datagram: "collector_run c0 es ivs c \<Longrightarrow> handle b addr now c = Some c' \<Longrightarrow>
    collector_run c0 (es @ [Datagram b addr now]) ivs c'"
| run_tick: "collector_run c0 es ivs c \<Longrightarrow> drain_tick now ok c = Some ((iv, evs), c') \<Longrightarrow>
    collector_run c0 (es @ [Tick now ok]) (ivs @ [iv]) c'"

subsection \<open>What one datagram does\<close>

definition tmpl_ok :: "TemplateCache option \<Rightarrow> bool" where
  "tmpl_ok t = (case t of None \<Rightarrow> True | Some tc \<Rightarrow> wf_cache tc)"

definition c_ok :: "Collector \<Rightarrow> bool" where
  "c_ok c \<longleftrightarrow> agg_ok (Agg c) \<and> tmpl_ok (Templates c)"

text \<open>A well-formed cache that may replace the current one: once installed, it stays installed.\<close>

definition tmpl_next :: "Collector \<Rightarrow> TemplateCache option \<Rightarrow> bool" where
  "tmpl_next c t \<longleftrightarrow> tmpl_ok t \<and> (Templates c \<noteq> None \<longrightarrow> t \<noteq> None)"

definition udp_source :: "bytes option \<Rightarrow> Addr option" where
  "udp_source addr = (case addr of None \<Rightarrow> None
     | Some ip \<Rightarrow> if length ip = 4 \<or> length ip = 16 then Some (addr_unmap (fst (addr_from_slice ip))) else None)"

text \<open>The three outcomes for a datagram from a source: refused, malformed, or accepted with its packet.\<close>

definition is_accepted :: "Addr \<Rightarrow> Collector \<Rightarrow> packet \<Rightarrow> Collector \<Rightarrow> bool" where
  "is_accepted src c p c' \<longleftrightarrow> allowed c src \<and> ExporterIP p = src \<and>
     (\<exists>tc w. tmpl_next c tc \<and> c' = accept p (c\<lparr>Templates := tc, stats := (stats c)\<lparr>s_awaiting := w\<rparr>\<rparr>))"

definition is_malformed :: "Addr \<Rightarrow> Collector \<Rightarrow> Collector \<Rightarrow> bool" where
  "is_malformed src c c' \<longleftrightarrow> allowed c src \<and> (\<exists>tc. tmpl_next c tc \<and> c' = malformed (c\<lparr>Templates := tc\<rparr>))"

definition is_refused :: "Addr \<Rightarrow> Collector \<Rightarrow> Collector \<Rightarrow> bool" where
  "is_refused src c c' \<longleftrightarrow> \<not> allowed c src \<and> c' = refused c"

lemma is_malformedI: "allowed c src \<Longrightarrow> tmpl_ok (Templates c) \<Longrightarrow> is_malformed src c (malformed c)"
  unfolding is_malformed_def by (intro conjI exI [of _ "Templates c"]) (simp_all add: tmpl_next_def)

lemma is_acceptedI: "allowed c src \<Longrightarrow> tmpl_ok (Templates c) \<Longrightarrow> ExporterIP p = src \<Longrightarrow> is_accepted src c p (accept p c)"
  unfolding is_accepted_def
  by (intro conjI exI [of _ "Templates c"] exI [of _ "s_awaiting (stats c)"]) (simp_all add: tmpl_next_def)

lemma wf_current:
  "tmpl_ok (Templates c) \<Longrightarrow> wf_cache (case Templates c of None \<Rightarrow> NewTemplateCache | Some tc \<Rightarrow> tc)"
  by (simp add: tmpl_ok_def wf_NewTemplateCache split: option.splits)

lemma templated_decoder_runs:
  assumes "wf_cache tc"
  shows "\<exists>p n e tc'. (if version = 10 then DecodeIPFIX else DecodeNetFlowV9) b src tc now = Some (p, n, e, tc') \<and>
    wf_cache tc' \<and> (e = None \<longrightarrow> (\<exists>q. p = Some q \<and> ExporterIP q = src))"
  using DecodeIPFIX_runs [OF assms, of b src now] DecodeNetFlowV9_runs [OF assms, of b src now]
  by (cases "version = 10") (fastforce simp del: not_None_eq)+

lemma handle_templated_outcome:
  assumes "tmpl_ok (Templates c)" and "allowed c src"
  shows "\<exists>c'. handle_templated version b src now c = Some c' \<and>
    (is_malformed src c c' \<or> (\<exists>p. is_accepted src c p c'))"
proof -
  obtain p n e tc' where d: "(if version = 10 then DecodeIPFIX else DecodeNetFlowV9) b src
      (case Templates c of None \<Rightarrow> NewTemplateCache | Some tc \<Rightarrow> tc) now = Some (p, n, e, tc')"
    "wf_cache tc'" "e = None \<longrightarrow> (\<exists>q. p = Some q \<and> ExporterIP q = src)"
    using templated_decoder_runs [OF wf_current [OF assms(1)]] by blast
  have tc': "tmpl_next c (Some tc')" using d(2) by (simp add: tmpl_next_def tmpl_ok_def)
  show ?thesis
  proof (cases e)
    case (Some x)
    then have "handle_templated version b src now c = Some (malformed (c\<lparr>Templates := Some tc'\<rparr>))"
      by (simp add: handle_templated_def d(1) Let_def)
    with assms tc' show ?thesis by (auto simp: is_malformed_def)
  next
    case None
    then obtain q where q: "p = Some q" "ExporterIP q = src" using d(3) by blast
    define w where "w = (if 0 < n then s_awaiting (stats c) + word_of_nat n else s_awaiting (stats c))"
    have "handle_templated version b src now c
        = Some (accept q (c\<lparr>Templates := Some tc', stats := (stats c)\<lparr>s_awaiting := w\<rparr>\<rparr>))"
      using None q by (simp add: handle_templated_def d(1) Let_def w_def)
    with assms tc' q show ?thesis by (auto simp: is_accepted_def)
  qed
qed

lemma handle_outcome:
  assumes "tmpl_ok (Templates c)"
  shows "\<exists>c'. handle b addr now c = Some c' \<and> (case udp_source addr of None \<Rightarrow> c' = c
    | Some src \<Rightarrow> is_refused src c c' \<or> is_malformed src c c' \<or> (\<exists>p. is_accepted src c p c'))"
proof (cases "udp_source addr")
  case None
  then show ?thesis
    by (auto simp: handle_def udp_source_def addr_from_slice_def Let_def split: option.splits if_splits)
next
  case (Some src)
  then obtain ip where ip: "addr = Some ip" "snd (addr_from_slice ip)" "src = addr_unmap (fst (addr_from_slice ip))"
    by (auto simp: udp_source_def addr_from_slice_valid split: option.splits if_splits)
  note h = handle_def [of b addr now c, unfolded ip(1) option.case Let_def case_prod_beta, folded ip(3)]
  show ?thesis
  proof (cases "allowed c src \<and> \<not> length b < 2")
    case False
    with Some ip show ?thesis
      by (auto simp: h Version_def is_refused_def intro: is_malformedI [OF _ assms])
  next
    case True
    then have v: "Version b = Some (w16 b 0, True)" by (simp add: Version_def)
    have "\<exists>sf. (if w16 b 0 = 0 then IsSFlow b else Some False) = Some sf" by (auto simp: IsSFlow_def)
    then obtain sf where sf: "(if w16 b 0 = 0 then IsSFlow b else Some False) = Some sf" by blast
    obtain d where d: "DecodeSFlow b src = Some d" "\<forall>p. d = Inr p \<longrightarrow> ExporterIP p = src"
      using DecodeSFlow_runs [where b = b and src = src] by (auto split: option.splits sum.splits)
    have v5: "\<exists>d. DecodeNetFlowV5 b src = Some d \<and> (\<forall>p. d = Inr p \<longrightarrow> ExporterIP p = src)"
      by (auto simp: DecodeNetFlowV5_eq)
    obtain c9 where c9: "handle_templated (w16 b 0) b src now c = Some c9"
        "is_malformed src c c9 \<or> (\<exists>p. is_accepted src c p c9)"
      using handle_templated_outcome [OF assms] True by blast
    consider "sf" | "\<not> sf" "w16 b 0 = 5" | "\<not> sf" "w16 b 0 \<noteq> 5" "w16 b 0 = 9 \<or> w16 b 0 = 10"
      | "\<not> sf" "w16 b 0 \<noteq> 5" "\<not> (w16 b 0 = 9 \<or> w16 b 0 = 10)" by blast
    then show ?thesis
    proof cases
      case 1
      then show ?thesis using True Some ip v sf d assms
        by (cases d) (auto simp: h intro: is_malformedI is_acceptedI)
    next
      case 2
      then obtain d5 where "DecodeNetFlowV5 b src = Some d5" "\<forall>p. d5 = Inr p \<longrightarrow> ExporterIP p = src"
        using v5 by blast
      with 2 True Some ip v sf assms show ?thesis
        by (cases d5) (auto simp: h intro: is_malformedI is_acceptedI)
    next
      case 3
      with True Some ip v sf c9 show ?thesis by (auto simp: h)
    next
      case 4
      with True Some ip v sf assms show ?thesis by (auto simp: h intro: is_malformedI)
    qed
  qed
qed

lemmas outcome_defs = is_refused_def is_malformed_def is_accepted_def accept_def malformed_def refused_def

text \<open>The states a running collector is in, and what no datagram changes.\<close>

definition c_live :: "Collector \<Rightarrow> bool" where
  "c_live c \<longleftrightarrow> c_ok c \<and> Templates c \<noteq> None"

lemma handle_ok:
  assumes "c_ok c" and "handle b addr now c = Some c'"
  shows "c_ok c'" and "Allow c' = Allow c" and "prev c' = prev c" and "c_live c \<Longrightarrow> c_live c'"
proof -
  have "tmpl_ok (Templates c)" using assms(1) by (simp add: c_ok_def)
  from handle_outcome [OF this, of b addr now] assms(2)
  have out: "case udp_source addr of None \<Rightarrow> c' = c
      | Some src \<Rightarrow> is_refused src c c' \<or> is_malformed src c c' \<or> (\<exists>p. is_accepted src c p c')" by simp
  show ok: "c_ok c'"
    using out assms(1) by (auto simp: c_ok_def outcome_defs tmpl_next_def agg_ok_Add split: option.splits)
  show "Allow c' = Allow c" and "prev c' = prev c"
    using out by (auto simp: outcome_defs split: option.splits)
  show "c_live c'" if "c_live c"
    using out ok that by (auto simp: c_live_def outcome_defs tmpl_next_def split: option.splits)
qed

lemma drain_tick_ok:
  assumes "c_live c"
  shows "\<exists>iv evs c'. drain_tick now ok c = Some ((iv, evs), c') \<and> c_live c' \<and>
    iv = stats_diff (stats c) (prev c) \<and> prev c' = stats c \<and> stats c' = stats c \<and> Allow c' = Allow c \<and> Raw c' = Raw c"
proof -
  obtain tc where tc: "Templates c = Some tc" using assms by (auto simp: c_live_def)
  have "agg_ok (snd (Drain (Agg c)))"
    using assms by (auto simp: c_live_def c_ok_def agg_ok_def Drain_def Let_def detailed_def)
  with assms tc show ?thesis
    by (auto simp: drain_tick_def interval_def Let_def case_prod_beta c_live_def c_ok_def)
qed

lemma run_live:
  assumes "collector_run c0 es ivs c" and "c_live c0"
  shows "c_live c \<and> Allow c = Allow c0"
  using assms(1)
proof induction
  case (run_datagram es ivs c b addr now c')
  then show ?case using handle_ok [of c b addr now c'] by (auto simp: c_live_def)
next
  case (run_tick es ivs c now ok iv evs c')
  then show ?case using drain_tick_ok [of c now ok] by auto
qed (simp add: assms(2))

lemma start_live: "c_live (collector_start raw allow)"
  by (simp add: c_live_def c_ok_def collector_start_def tmpl_ok_def agg_ok_New wf_NewTemplateCache)

lemma start_ok: "c_ok (collector_start raw allow)"
  using start_live by (simp add: c_live_def)

lemma start_Allow [simp]: "Allow (collector_start raw allow) = allow"
  by (simp add: collector_start_def)

subsection \<open>Properties\<close>

text \<open>
  C1. The collector cannot be brought down from the network: from its start, in every state reached
  by any interleaving of datagrams (any bytes, any source, any time) and drain ticks (with a writer
  that fails or not), the next datagram and the next tick are handled without a panic, and the
  template cache and the aggregator stay well-formed and bounded.
\<close>

theorem collector_never_panics:
  assumes "collector_run (collector_start raw allow) es ivs c"
  shows "(\<exists>c'. handle b addr now c = Some c') \<and> (\<exists>r. drain_tick now ok c = Some r) \<and>
    (\<exists>tc. Templates c = Some tc \<and> wf_cache tc) \<and> agg_ok (Agg c)"
proof -
  have live: "c_live c" using run_live [OF assms start_live] by blast
  then have "tmpl_ok (Templates c)" by (simp add: c_live_def c_ok_def)
  with live handle_outcome [OF this, of b addr now] drain_tick_ok [OF live, of now ok] show ?thesis
    by (auto simp: c_live_def c_ok_def tmpl_ok_def split: option.splits)
qed

theorem collector_never_panics_witness:
  "\<exists>c. handle [0, 9, 1] (Some [10, 0, 0, 1]) 7 (collector_start True []) = Some c"
  using collector_never_panics [OF run_start, of "[0, 9, 1]" "Some [10, 0, 0, 1]" 7 True "[]"] by blast

definition handoff :: "Collector \<Rightarrow> Collector \<Rightarrow> packet option \<Rightarrow> bool" where
  "handoff c c' p = (case p of
       None \<Rightarrow> Agg c' = Agg c \<and> Raw c' = Raw c \<and> s_records (stats c') = s_records (stats c)
     | Some q \<Rightarrow> Agg c' = agg_Add (Some q) (Agg c) \<and> Raw c' = map_option (\<lambda>log. log @ [q]) (Raw c) \<and>
         s_records (stats c') = s_records (stats c) + word_of_nat (length (Records q)))"

definition counted :: "Collector \<Rightarrow> Collector \<Rightarrow> u64 \<Rightarrow> u64 \<Rightarrow> u64 \<Rightarrow> bool" where
  "counted c c' p r m \<longleftrightarrow> s_packets (stats c') = s_packets (stats c) + p \<and>
     s_refused (stats c') = s_refused (stats c) + r \<and> s_malformed (stats c') = s_malformed (stats c) + m"

lemma outcome_counts:
  "is_refused src c c' \<Longrightarrow> handoff c c' None \<and> counted c c' 0 1 0"
  "is_malformed src c c' \<Longrightarrow> handoff c c' None \<and> counted c c' 0 0 1"
  "is_accepted src c p c' \<Longrightarrow> handoff c c' (Some p) \<and> counted c c' 1 0 0"
  by (auto simp: handoff_def counted_def outcome_defs split: option.split)

text \<open>
  C2. Every datagram is accounted for exactly once. One from a usable UDP source raises exactly one
  of the counters packets, refused and malformed, by one; it raises packets exactly when a packet
  went to the aggregator (and to the raw sink, if there is one), and then records by the number of
  its records. Anything else changes nothing.
\<close>

theorem handle_accounts:
  assumes "c_ok c"
  shows "\<exists>c' p. handle b addr now c = Some c' \<and> handoff c c' p \<and>
    (case udp_source addr of None \<Rightarrow> c' = c \<and> p = None
     | Some src \<Rightarrow> (p \<noteq> None \<and> counted c c' 1 0 0) \<or> (p = None \<and> counted c c' 0 1 0) \<or> (p = None \<and> counted c c' 0 0 1))"
proof -
  have "tmpl_ok (Templates c)" using assms by (simp add: c_ok_def)
  from handle_outcome [OF this, of b addr now] obtain c' where c': "handle b addr now c = Some c'"
    "case udp_source addr of None \<Rightarrow> c' = c
      | Some src \<Rightarrow> is_refused src c c' \<or> is_malformed src c c' \<or> (\<exists>p. is_accepted src c p c')" by blast
  show ?thesis
  proof (cases "udp_source addr")
    case None
    with c' show ?thesis by (intro exI [of _ c'] exI [of _ None]) (simp add: handoff_def)
  next
    case (Some src)
    with c' outcome_counts [where src = src and c = c and c' = c'] show ?thesis by auto
  qed
qed

theorem handle_accounts_witness:
  "\<exists>c' p. handle [0, 1, 2] (Some [10, 0, 0, 1]) 0 (collector_start True []) = Some c' \<and>
     handoff (collector_start True []) c' p"
  using handle_accounts [OF start_ok, of "[0, 1, 2]" "Some [10, 0, 0, 1]" 0] by blast

lemma run_raw_allowed:
  assumes "collector_run (collector_start True allow) es ivs c" and "allow \<noteq> []"
  shows "\<exists>log. Raw c = Some log \<and> list_all (\<lambda>p. list_ex (\<lambda>q. prefix_contains q (ExporterIP p)) allow) log"
  using assms(1)
proof induction
  case run_start
  then show ?case by (simp add: collector_start_def)
next
  case (run_datagram es ivs c b addr now c')
  then have live: "c_live c" "Allow c = allow" using run_live [OF _ start_live] by auto
  then have "tmpl_ok (Templates c)" by (simp add: c_live_def c_ok_def)
  from handle_outcome [OF this, of b addr now] run_datagram.hyps live(2) run_datagram.IH assms(2) show ?case
    by (auto simp: outcome_defs allowed_def split: option.splits)
next
  case (run_tick es ivs c now ok iv evs c')
  then have "c_live c" using run_live [OF _ start_live] by blast
  from drain_tick_ok [OF this, of now ok] run_tick show ?case by auto
qed

text \<open>
  C3. The allow-list is enforced: with a non-empty list, whatever arrives in whatever order, every
  packet that was handed on has a source inside one of the listed prefixes; and a datagram from
  outside them only raises the refused counter.
\<close>

theorem allow_list_enforced:
  assumes "collector_run (collector_start True allow) es ivs c" and "allow \<noteq> []"
  shows "(\<exists>log. Raw c = Some log \<and> list_all (\<lambda>p. list_ex (\<lambda>q. prefix_contains q (ExporterIP p)) allow) log) \<and>
    (udp_source addr = Some src \<and> \<not> list_ex (\<lambda>q. prefix_contains q src) allow \<longrightarrow>
      handle b addr now c = Some (refused c))"
proof -
  have live: "c_live c" "Allow c = allow"
    using run_live [OF assms(1) start_live] by auto
  then have "tmpl_ok (Templates c)" by (simp add: c_live_def c_ok_def)
  from handle_outcome [OF this, of b addr now] live(2) assms(2) have
    "udp_source addr = Some src \<and> \<not> list_ex (\<lambda>q. prefix_contains q src) allow \<longrightarrow> handle b addr now c = Some (refused c)"
    by (auto simp: allowed_def is_refused_def is_malformed_def is_accepted_def)
  with run_raw_allowed [OF assms] show ?thesis by blast
qed

theorem allow_list_enforced_witness:
  "handle [0, 9, 1] (Some [192, 168, 0, 1]) 0 (collector_start True [Pfx (Addr4 0x0A000000) 8])
     = Some (refused (collector_start True [Pfx (Addr4 0x0A000000) 8]))"
proof -
  have src: "udp_source (Some [192, 168, 0, 1]) = Some (Addr4 0xC0A80001)"
    by (simp add: udp_source_def be_word_def)
  have out: "\<not> list_ex (\<lambda>q. prefix_contains q (Addr4 0xC0A80001)) [Pfx (Addr4 0x0A000000) 8]" by simp
  from allow_list_enforced [OF run_start, of "[Pfx (Addr4 0x0A000000) 8]"] src out show ?thesis by blast
qed

lemma run_intervals:
  assumes "collector_run (collector_start raw allow) es ivs c"
  shows "sum_list (map s_packets ivs) = s_packets (prev c) \<and> sum_list (map s_records ivs) = s_records (prev c) \<and>
    sum_list (map s_refused ivs) = s_refused (prev c) \<and> sum_list (map s_malformed ivs) = s_malformed (prev c) \<and>
    sum_list (map s_awaiting ivs) = s_awaiting (prev c)"
  using assms
proof induction
  case run_start
  then show ?case by (simp add: collector_start_def stats_zero_def)
next
  case (run_datagram es ivs c b addr now c')
  then have "c_ok c" using run_live [OF _ start_live] by (auto simp: c_live_def)
  with run_datagram show ?case using handle_ok(3) by simp
next
  case (run_tick es ivs c now ok iv evs c')
  then have "c_live c" using run_live [OF _ start_live] by blast
  from drain_tick_ok [OF this, of now ok] run_tick show ?case by (auto simp: stats_diff_def)
qed

text \<open>
  The reports add up: over a run, the interval counts logged at the ticks, the one of the tick
  at hand included, sum to the running totals, counter by counter (in 64-bit arithmetic). No
  datagram is reported in two intervals or in none.
\<close>

theorem intervals_add_up:
  assumes "collector_run (collector_start raw allow) es ivs c" and "drain_tick now ok c = Some ((iv, evs), c')"
  shows "sum_list (map s_packets (ivs @ [iv])) = s_packets (stats c') \<and>
    sum_list (map s_records (ivs @ [iv])) = s_records (stats c') \<and>
    sum_list (map s_refused (ivs @ [iv])) = s_refused (stats c') \<and>
    sum_list (map s_malformed (ivs @ [iv])) = s_malformed (stats c') \<and>
    sum_list (map s_awaiting (ivs @ [iv])) = s_awaiting (stats c')"
proof -
  have "c_live c" using run_live [OF assms(1) start_live] by blast
  from drain_tick_ok [OF this, of now ok] assms(2) run_intervals [OF assms(1)] show ?thesis
    by (auto simp: stats_diff_def)
qed

theorem intervals_add_up_witness:
  "\<exists>iv evs c'. drain_tick 60 True (collector_start False []) = Some ((iv, evs), c') \<and>
     s_packets iv = s_packets (stats c')"
proof -
  obtain iv evs c' where t: "drain_tick 60 True (collector_start False []) = Some ((iv, evs), c')"
    using drain_tick_ok [OF start_live] by blast
  with intervals_add_up [OF run_start t] show ?thesis by auto
qed

lemma serve_stores:
  assumes "c_ok c" and "Raw c = Some log"
  shows "\<exists>c' new. serve ds c = Some c' \<and> Raw c' = Some (log @ new) \<and>
    group_total cbytes (counts (Agg c')) g = group_total cbytes (counts (Agg c)) g +
      (\<Sum>p\<leftarrow>new. \<Sum>r\<leftarrow>Records p. owed Bytes (addr_string (ExporterIP p)) g r)"
  using assms(1,2)
proof (induction ds arbitrary: c log)
  case Nil
  then show ?case by simp
next
  case (Cons x ds)
  obtain b addr now where x: "x = (b, addr, now)" by (cases x)
  have "tmpl_ok (Templates c)" using Cons.prems by (simp add: c_ok_def)
  from handle_outcome [OF this, of b addr now] obtain c1 where c1: "handle b addr now c = Some c1"
    and out: "case udp_source addr of None \<Rightarrow> c1 = c
      | Some src \<Rightarrow> is_refused src c c1 \<or> is_malformed src c c1 \<or> (\<exists>p. is_accepted src c p c1)" by blast
  have ok: "c_ok c1" using handle_ok(1) [OF Cons.prems(1) c1] .
  have "\<exists>new. Raw c1 = Some (log @ new) \<and> group_total cbytes (counts (Agg c1)) g =
      group_total cbytes (counts (Agg c)) g +
      (\<Sum>p\<leftarrow>new. \<Sum>r\<leftarrow>Records p. owed Bytes (addr_string (ExporterIP p)) g r)"
  proof (cases "\<exists>src p. is_accepted src c p c1")
    case True
    then obtain src p where "is_accepted src c p c1" by blast
    with Cons.prems(2) group_total_Add(1) [of p "Agg c" g] show ?thesis
      by (intro exI [of _ "[p]"]) (auto simp: is_accepted_def accept_def)
  next
    case False
    with out Cons.prems(2) show ?thesis
      by (intro exI [of _ "[]"]) (auto simp: is_refused_def is_malformed_def refused_def malformed_def split: option.splits)
  qed
  then obtain new1 where new1: "Raw c1 = Some (log @ new1)" "group_total cbytes (counts (Agg c1)) g =
      group_total cbytes (counts (Agg c)) g +
      (\<Sum>p\<leftarrow>new1. \<Sum>r\<leftarrow>Records p. owed Bytes (addr_string (ExporterIP p)) g r)" by blast
  from Cons.IH [OF ok new1(1)] obtain c' new where "serve ds c1 = Some c'" "Raw c' = Some (log @ new1 @ new)"
    "group_total cbytes (counts (Agg c')) g = group_total cbytes (counts (Agg c1)) g +
      (\<Sum>p\<leftarrow>new. \<Sum>r\<leftarrow>Records p. owed Bytes (addr_string (ExporterIP p)) g r)" by auto
  with new1(2) c1 x show ?case
    by (intro exI [of _ c'] exI [of _ "new1 @ new"]) (simp add: add.assoc)
qed

text \<open>
  C4. The two stores agree: while the receive loop serves any datagrams, what the buckets of an exporter,
  interface and dimension gain is exactly the octets of the records handed to raw storage in the same
  time, of that exporter and interface, each counted once for every value it has in that dimension (twice
  for talkers, once for conversations, applications, protocols and traffic classes).
\<close>

theorem stores_agree:
  assumes "c_ok c" and "Raw c = Some log"
  shows "\<exists>c' new. serve ds c = Some c' \<and> Raw c' = Some (log @ new) \<and>
    group_total cbytes (counts (Agg c')) (e, i, d) = group_total cbytes (counts (Agg c)) (e, i, d) +
      (\<Sum>p\<leftarrow>new. \<Sum>r\<leftarrow>Records p. if e = addr_string (ExporterIP p) \<and> i \<noteq> 0 \<and> record_if r = i then of_nat (shares d r) * Bytes r else 0)"
  using serve_stores [OF assms, of ds "(e, i, d)"] by (simp add: owed_def cong: if_cong)

definition demo_v5 :: bytes where
  "demo_v5 = [0, 5, 0, 1] @ replicate 20 0 @ [10, 0, 0, 1, 10, 0, 0, 2] @ replicate 4 0 @ [0, 3, 0, 4, 0, 0, 0, 2, 0, 0, 3, 232] @ replicate 24 0"

lemma demo_v5_served:
  "serve [(demo_v5, Some [192, 0, 2, 1], 0)] (collector_start True []) = Some c \<Longrightarrow>
    \<exists>p. Raw c = Some [p] \<and> ExporterIP p = Addr4 0xC0000201 \<and> map (\<lambda>r. (record_if r, Bytes r)) (Records p) = [(3, 1000)]"
proof -
  have "case serve [(demo_v5, Some [192, 0, 2, 1], 0)] (collector_start True []) of None \<Rightarrow> False
   | Some c \<Rightarrow> (case Raw c of Some ps \<Rightarrow> length ps = 1 \<and> ExporterIP (hd ps) = Addr4 0xC0000201 \<and> map (\<lambda>r. (record_if r, Bytes r)) (Records (hd ps)) = [(3, 1000)] | _ \<Rightarrow> False)"
    by code_simp
  then show "serve [(demo_v5, Some [192, 0, 2, 1], 0)] (collector_start True []) = Some c \<Longrightarrow> ?thesis"
    by (auto simp: length_Suc_conv split: option.splits)
qed

theorem stores_agree_witness:
  "\<exists>c'. serve [(demo_v5, Some [192, 0, 2, 1], 0)] (collector_start True []) = Some c' \<and>
     group_total cbytes (counts (Agg c')) (addr_string (Addr4 0xC0000201), 3, DimTalker) = 2000"
proof -
  have raw: "Raw (collector_start True []) = Some []" by (simp add: collector_start_def)
  obtain c' new where c: "serve [(demo_v5, Some [192, 0, 2, 1], 0)] (collector_start True []) = Some c'" "Raw c' = Some new"
    and gain: "group_total cbytes (counts (Agg c')) (addr_string (Addr4 0xC0000201), 3, DimTalker) =
      group_total cbytes (counts (Agg (collector_start True []))) (addr_string (Addr4 0xC0000201), 3, DimTalker) +
      (\<Sum>p\<leftarrow>new. \<Sum>r\<leftarrow>Records p. if addr_string (Addr4 0xC0000201) = addr_string (ExporterIP p) \<and> (3 :: u32) \<noteq> 0 \<and> record_if r = 3 then of_nat (shares DimTalker r) * Bytes r else 0)"
    using stores_agree [OF start_ok raw, of "[(demo_v5, Some [192, 0, 2, 1], 0)]" "addr_string (Addr4 0xC0000201)" 3 DimTalker] by auto
  from demo_v5_served [OF c(1)] c(2) obtain p r where "new = [p]" "ExporterIP p = Addr4 0xC0000201" "Records p = [r]" "record_if r = 3" "Bytes r = 1000" by auto
  with gain c(1) show ?thesis by (simp add: shares_def group_total_def collector_start_def NewAggregator_def)
qed

end
