(* ===== verification/Errx.thy ===== *)
theory Errx
  imports NetInv_Prelude
begin

text \<open>
  The error taxonomy (\<open>internal/platform/errx\<close>) and the retry loop and circuit breaker that act on it
  (\<open>internal/platform/retryx\<close>). An error is a chain: a leaf, a message wrapped around an error
  (\<open>fmt.Errorf\<close> with \<open>%w\<close>), or a classified error. A fallible Go value \<open>error\<close> is \<open>goerr option\<close>,
  \<open>None\<close> being \<open>nil\<close>.

  Shown: the innermost classification decides, so wrapping never reclassifies; the retry loop returns
  exactly when its policy says, after as many calls as that; and the breaker admits calls exactly
  when it is not open.
\<close>

datatype Kind = KindUnknown | KindInvalid | KindUnauthorized | KindForbidden | KindNotFound
  | KindConflict | KindTransient | KindInternal

fun kind_string :: "Kind \<Rightarrow> string" where
  "kind_string KindInvalid = ''invalid''"
| "kind_string KindUnauthorized = ''unauthorized''"
| "kind_string KindForbidden = ''forbidden''"
| "kind_string KindNotFound = ''not_found''"
| "kind_string KindConflict = ''conflict''"
| "kind_string KindTransient = ''transient''"
| "kind_string KindInternal = ''internal''"
| "kind_string KindUnknown = ''unknown''"

datatype goerr = ErrLeaf string | ErrMsg string goerr | KindError Kind goerr

text \<open>The text of an error chain.\<close>

fun err_text :: "goerr \<Rightarrow> string" where
  "err_text (ErrLeaf m) = m"
| "err_text (ErrMsg m e) = m @ '': '' @ err_text e"
| "err_text (KindError k e) = err_text e"

definition errx_New :: "Kind \<Rightarrow> string \<Rightarrow> goerr" where
  "errx_New k msg = KindError k (ErrLeaf msg)"

definition errx_Wrap :: "Kind \<Rightarrow> goerr option \<Rightarrow> string \<Rightarrow> goerr option" where
  "errx_Wrap k err msg = (case err of None \<Rightarrow> None | Some e \<Rightarrow> Some (KindError k (ErrMsg msg e)))"

text \<open>\<open>errors.As\<close> for the classified error, and \<open>errors.Unwrap\<close>.\<close>

fun errors_as :: "goerr \<Rightarrow> (Kind \<times> goerr) option" where
  "errors_as (ErrLeaf m) = None"
| "errors_as (ErrMsg m e) = errors_as e"
| "errors_as (KindError k e) = Some (k, e)"

fun errors_unwrap :: "goerr \<Rightarrow> goerr option" where
  "errors_unwrap (ErrLeaf m) = None"
| "errors_unwrap (ErrMsg m e) = Some e"
| "errors_unwrap (KindError k e) = Some e"

lemma errors_as_size: "errors_as e = Some (k, e') \<Longrightarrow> size e' < size e"
  by (induction e) auto

lemma errors_unwrap_size: "errors_unwrap e = Some e' \<Longrightarrow> size e' < size e"
  by (cases e) auto

function kind_loop :: "Kind \<Rightarrow> goerr option \<Rightarrow> Kind" where
  "kind_loop kind err =
     (case err of
        None \<Rightarrow> kind
      | Some e \<Rightarrow>
          (case errors_as e of
             Some (k, inner) \<Rightarrow> kind_loop k (Some inner)
           | None \<Rightarrow> kind_loop kind (errors_unwrap e)))"
  by pat_completeness auto
termination
  by (relation "measure (\<lambda>(kind, err). case err of None \<Rightarrow> 0 | Some e \<Rightarrow> Suc (size e))")
    (auto dest: errors_as_size errors_unwrap_size split: option.splits)

declare kind_loop.simps [simp del]

definition KindOf :: "goerr option \<Rightarrow> Kind" where
  "KindOf err = kind_loop KindUnknown err"

definition Retryable :: "goerr option \<Rightarrow> bool" where
  "Retryable err \<longleftrightarrow> KindOf err = KindTransient"

subsection \<open>The innermost classification\<close>

fun innermost :: "goerr \<Rightarrow> Kind option" where
  "innermost (ErrLeaf m) = None"
| "innermost (ErrMsg m e) = innermost e"
| "innermost (KindError k e) = (case innermost e of None \<Rightarrow> Some k | Some k' \<Rightarrow> Some k')"

lemma innermost_as: "errors_as e = None \<Longrightarrow> innermost e = None"
  by (induction e) auto

lemma innermost_as_Some:
  "errors_as e = Some (k, i) \<Longrightarrow> innermost e = (case innermost i of None \<Rightarrow> Some k | Some k' \<Rightarrow> Some k')"
  by (induction e) auto

lemma kind_loop_innermost:
  "kind_loop kind err = (case err of None \<Rightarrow> kind | Some e \<Rightarrow> (case innermost e of None \<Rightarrow> kind | Some k \<Rightarrow> k))"
proof (induction kind err rule: kind_loop.induct)
  case (1 kind err)
  show ?case
  proof (cases err)
    case None
    then show ?thesis by (simp add: kind_loop.simps)
  next
    case (Some e)
    show ?thesis
    proof (cases "errors_as e")
      case None
      then have n: "innermost e = None" by (rule innermost_as)
      then have "\<forall>e'. errors_unwrap e = Some e' \<longrightarrow> innermost e' = None" by (cases e) (auto split: option.splits)
      with "1.IH"(1) [OF Some None] n None Some show ?thesis
        by (subst kind_loop.simps) (auto split: option.splits)
    next
      case as: (Some p)
      obtain k i where p: "p = (k, i)" by force
      from "1.IH"(2) [OF Some as p [symmetric]] innermost_as_Some [of e k i] as p Some show ?thesis
        by (subst kind_loop.simps) (auto split: option.splits)
    qed
  qed
qed

lemma KindOf_New [simp]: "KindOf (Some (errx_New k msg)) = k"
  by (simp add: KindOf_def kind_loop_innermost errx_New_def)

lemma KindOf_None [simp]: "KindOf None = KindUnknown"
  by (simp add: KindOf_def kind_loop_innermost)

text \<open>
  The origin's classification wins: classifying an error again, at any depth of wrapping, never
  changes the kind it already has; only an unclassified error takes the kind given; and no error
  stays no error.
\<close>

theorem Wrap_never_reclassifies:
  "KindOf (errx_Wrap k err msg) =
     (case err of None \<Rightarrow> KindUnknown | Some e \<Rightarrow> (case innermost e of None \<Rightarrow> k | Some k' \<Rightarrow> k')) \<and>
   (errx_Wrap k err msg = None \<longleftrightarrow> err = None)"
  by (auto simp: KindOf_def kind_loop_innermost errx_Wrap_def split: option.split)

subsection \<open>Retry\<close>

record Policy =
  MaxAttempts :: int
  BaseDelay :: int
  MaxDelay :: int

text \<open>
  A \<open>Duration\<close> is a signed 64-bit number. The loop runs the function of the attempt number; the
  second argument says whether the context is cancelled during the wait after an attempt. The fuel
  bounds the attempts; running out of it is \<open>None\<close>. The result is the error, the number of
  attempts made and the delays waited for (before jitter).
\<close>

definition dur_wrap :: "int \<Rightarrow> int" where
  "dur_wrap d = (d + 2 ^ 63) mod 2 ^ 64 - 2 ^ 63"

definition ctx_err :: goerr where
  "ctx_err = ErrLeaf ''context canceled''"

primrec retry_loop ::
  "nat \<Rightarrow> Policy \<Rightarrow> (nat \<Rightarrow> goerr option) \<Rightarrow> (nat \<Rightarrow> bool) \<Rightarrow> nat \<Rightarrow> int \<Rightarrow> int list \<Rightarrow>
     (goerr option \<times> nat \<times> int list) option" where
  "retry_loop 0 p fn cancelled attempt delay waits = None"
| "retry_loop (Suc fuel) p fn cancelled attempt delay waits =
     (let err = fn attempt in
      if err = None \<or> \<not> Retryable err then Some (err, attempt, waits)
      else if 0 < MaxAttempts p \<and> MaxAttempts p \<le> int attempt then Some (err, attempt, waits)
      else if cancelled attempt then Some (Some ctx_err, attempt, waits @ [delay])
      else retry_loop fuel p fn cancelled (attempt + 1) (min (dur_wrap (delay * 2)) (MaxDelay p)) (waits @ [delay]))"

definition retry_Do ::
  "nat \<Rightarrow> Policy \<Rightarrow> (nat \<Rightarrow> goerr option) \<Rightarrow> (nat \<Rightarrow> bool) \<Rightarrow> (goerr option \<times> nat \<times> int list) option" where
  "retry_Do fuel p fn cancelled = retry_loop fuel p fn cancelled 1 (BaseDelay p) []"

text \<open>The attempts that end the loop.\<close>

definition retry_ends :: "Policy \<Rightarrow> (nat \<Rightarrow> goerr option) \<Rightarrow> (nat \<Rightarrow> bool) \<Rightarrow> nat \<Rightarrow> bool" where
  "retry_ends p fn cancelled n \<longleftrightarrow> fn n = None \<or> \<not> Retryable (fn n) \<or>
     (0 < MaxAttempts p \<and> MaxAttempts p \<le> int n) \<or> cancelled n"

definition retry_result :: "Policy \<Rightarrow> (nat \<Rightarrow> goerr option) \<Rightarrow> (nat \<Rightarrow> bool) \<Rightarrow> nat \<Rightarrow> goerr option" where
  "retry_result p fn cancelled n =
     (if fn n = None \<or> \<not> Retryable (fn n) \<or> (0 < MaxAttempts p \<and> MaxAttempts p \<le> int n) then fn n else Some ctx_err)"

lemma retry_loop_stops:
  "retry_ends p fn cancelled n \<Longrightarrow> attempt \<le> n \<Longrightarrow> (\<forall>k. attempt \<le> k \<and> k < n \<longrightarrow> \<not> retry_ends p fn cancelled k) \<Longrightarrow>
   n - attempt < fuel \<Longrightarrow>
   \<exists>ws. retry_loop fuel p fn cancelled attempt delay waits = Some (retry_result p fn cancelled n, n, ws)"
proof (induction fuel arbitrary: attempt delay waits)
  case 0
  then show ?case by simp
next
  case (Suc fuel)
  show ?case
  proof (cases "attempt = n")
    case True
    with Suc.prems(1) show ?thesis by (auto simp: retry_ends_def retry_result_def Let_def)
  next
    case False
    then have "\<not> retry_ends p fn cancelled attempt" using Suc.prems by simp
    moreover have "attempt + 1 \<le> n" "n - (attempt + 1) < fuel" using Suc.prems False by auto
    moreover have "\<forall>k. attempt + 1 \<le> k \<and> k < n \<longrightarrow> \<not> retry_ends p fn cancelled k" using Suc.prems(3) by simp
    ultimately show ?thesis
      using Suc.IH [OF Suc.prems(1), of "attempt + 1"] by (auto simp: retry_ends_def Let_def)
  qed
qed

text \<open>
  C37. The retry loop returns after exactly the attempts its policy allows: at the first attempt that
  succeeds, fails with an error that is not transient, is the last one allowed or is followed by a
  cancelled wait, with the result of that attempt (the context's error after a cancelled wait). With
  a positive attempt limit it always returns, within that limit.
\<close>

theorem retry_Do_returns:
  assumes "1 \<le> n" and "retry_ends p fn cancelled n" and "\<forall>k. 1 \<le> k \<and> k < n \<longrightarrow> \<not> retry_ends p fn cancelled k"
  shows "(\<exists>ws. retry_Do n p fn cancelled = Some (retry_result p fn cancelled n, n, ws)) \<and>
    (0 < MaxAttempts p \<longrightarrow> int n \<le> MaxAttempts p)"
proof
  show "\<exists>ws. retry_Do n p fn cancelled = Some (retry_result p fn cancelled n, n, ws)"
    unfolding retry_Do_def by (rule retry_loop_stops [OF assms(2,1,3)]) (use assms(1) in simp)
  show "0 < MaxAttempts p \<longrightarrow> int n \<le> MaxAttempts p"
  proof (rule impI, rule ccontr)
    assume pos: "0 < MaxAttempts p" and "\<not> int n \<le> MaxAttempts p"
    then have "1 \<le> nat (MaxAttempts p)" "nat (MaxAttempts p) < n" by auto
    moreover have "retry_ends p fn cancelled (nat (MaxAttempts p))" using pos by (simp add: retry_ends_def)
    ultimately show False using assms(3) by blast
  qed
qed

theorem retry_Do_returns_witness:
  "\<exists>ws. retry_Do 2 \<lparr>MaxAttempts = 5, BaseDelay = 1, MaxDelay = 8\<rparr>
     (\<lambda>n. if n = 1 then Some (errx_New KindTransient ''reset'') else None) (\<lambda>n. False) = Some (None, 2, ws)"
proof -
  let ?fn = "\<lambda>n :: nat. if n = 1 then Some (errx_New KindTransient ''reset'') else None"
  let ?p = "\<lparr>MaxAttempts = 5, BaseDelay = 1, MaxDelay = 8\<rparr>"
  have "retry_ends ?p ?fn (\<lambda>n. False) 2" "\<forall>k. 1 \<le> k \<and> k < 2 \<longrightarrow> \<not> retry_ends ?p ?fn (\<lambda>n. False) k"
    by (auto simp: retry_ends_def Retryable_def)
  from retry_Do_returns [OF _ this] show ?thesis by (simp add: retry_result_def)
qed

subsection \<open>Circuit breaker\<close>

record Breaker =
  Threshold :: int
  Cooldown :: int
  failures :: int
  openedAt :: gotime

definition breaker_Allow :: "gotime \<Rightarrow> Breaker \<Rightarrow> bool" where
  "breaker_Allow now b = (if failures b < Threshold b then True else Cooldown b \<le> time_sub now (openedAt b))"

definition breaker_Record :: "gotime \<Rightarrow> goerr option \<Rightarrow> Breaker \<Rightarrow> Breaker" where
  "breaker_Record now err b =
     (if err = None then b\<lparr>failures := 0\<rparr>
      else let b = b\<lparr>failures := failures b + 1\<rparr> in
        if failures b = Threshold b then b\<lparr>openedAt := now\<rparr>
        else if Threshold b < failures b then b\<lparr>openedAt := now\<rparr> else b)"

definition breaker_Open :: "gotime \<Rightarrow> Breaker \<Rightarrow> bool" where
  "breaker_Open now b \<longleftrightarrow> Threshold b \<le> failures b \<and> time_sub now (openedAt b) < Cooldown b"

definition record_all :: "(gotime \<times> goerr option) list \<Rightarrow> Breaker \<Rightarrow> Breaker" where
  "record_all es b = foldl (\<lambda>b (now, err). breaker_Record now err b) b es"

lemma record_failures:
  "\<forall>(t, e) \<in> set es. e \<noteq> None \<Longrightarrow>
   failures (record_all es b) = failures b + int (length es) \<and> Threshold (record_all es b) = Threshold b \<and>
   Cooldown (record_all es b) = Cooldown b \<and>
   (es \<noteq> [] \<and> Threshold b \<le> failures b + int (length es) \<longrightarrow> openedAt (record_all es b) = fst (last es))"
proof (induction es rule: rev_induct)
  case Nil
  then show ?case by (simp add: record_all_def)
next
  case (snoc x es)
  obtain t e where x: "x = (t, e)" by force
  with snoc show ?case by (auto simp: record_all_def breaker_Record_def Let_def)
qed

text \<open>
  The breaker: it is open exactly when it does not admit calls; a run of failures without a success
  opens it as soon as the run reaches the threshold, until the cooldown has passed since the last
  failure; and one success closes it.
\<close>

theorem breaker_opens_at_threshold:
  assumes "\<forall>(t, e) \<in> set es. e \<noteq> None" and "es \<noteq> []" and "failures b = 0"
    and "0 \<le> now - fst (last es)" and "now - fst (last es) < 2 ^ 63" and "0 < Threshold b"
  shows "(breaker_Allow now (record_all es b) \<longleftrightarrow>
      int (length es) < Threshold b \<or> Cooldown b \<le> now - fst (last es)) \<and>
    (breaker_Allow now (record_all es b) \<longleftrightarrow> \<not> breaker_Open now (record_all es b)) \<and>
    breaker_Allow now (breaker_Record now None (record_all es b))"
proof -
  note r = record_failures [OF assms(1), of b]
  have "time_sub now (fst (last es)) = now - fst (last es)" using assms(4,5) by (simp add: time_sub_def)
  with r assms show ?thesis
    by (auto simp: breaker_Allow_def breaker_Open_def breaker_Record_def)
qed

theorem breaker_opens_at_threshold_witness:
  "\<not> breaker_Allow 12 (record_all [(9, Some (ErrLeaf ''down'')), (10, Some (ErrLeaf ''down''))]
      \<lparr>Threshold = 2, Cooldown = 5, failures = 0, openedAt = 0\<rparr>)"
  using breaker_opens_at_threshold [of "[(9, Some (ErrLeaf ''down'')), (10, Some (ErrLeaf ''down''))]"
      "\<lparr>Threshold = 2, Cooldown = 5, failures = 0, openedAt = 0\<rparr>" 12] by simp

end
