(* ===== verification/IAM_Lockout.thy ===== *)
theory IAM_Lockout
  imports NetInv_Prelude
begin

text \<open>
  Failed-login throttling (\<open>internal/iam/adapters/lockout\<close>, the in-memory implementation of the
  \<open>Lockout\<close> port). The locale \<open>lockout\<close> is the contract \<open>AuthService\<close> relies on; it is interpreted on
  the model of \<open>Memory\<close>, and the lock's timing is proved once, inside it. The clock is read once per
  call.
\<close>

definition LockThreshold :: nat where "LockThreshold = 5"
definition LockWindow :: int where "LockWindow = 15 * nanos_per_min"

record entry =
  ecount :: nat
  until :: gotime

type_synonym Memory = "(string, entry) gomap"

definition NewMemory :: Memory where "NewMemory = []"

definition mem_get :: "gotime \<Rightarrow> string \<Rightarrow> Memory \<Rightarrow> entry" where
  "mem_get now k m = (case map_of m k of
       None \<Rightarrow> \<lparr>ecount = 0, until = now + LockWindow\<rparr>
     | Some e \<Rightarrow> if until e < now then \<lparr>ecount = 0, until = now + LockWindow\<rparr> else e)"

definition mem_Locked :: "gotime \<Rightarrow> string \<Rightarrow> Memory \<Rightarrow> bool" where
  "mem_Locked now k m = (case map_of m k of None \<Rightarrow> False
     | Some e \<Rightarrow> now < until e \<and> LockThreshold \<le> ecount e)"

definition mem_RecordFailure :: "gotime \<Rightarrow> string \<Rightarrow> Memory \<Rightarrow> bool \<times> Memory" where
  "mem_RecordFailure now k m =
     (let e = mem_get now k m; e = e\<lparr>ecount := ecount e + 1, until := now + LockWindow\<rparr>
      in (ecount e = LockThreshold, AList.update k e m))"

definition mem_Reset :: "string \<Rightarrow> Memory \<Rightarrow> Memory" where
  "mem_Reset k m = AList.delete k m"

subsection \<open>The contract\<close>

text \<open>Each failure within the window of the one before it.\<close>

definition close_times :: "gotime list \<Rightarrow> bool" where
  "close_times ts \<longleftrightarrow> (\<forall>i. Suc i < length ts \<longrightarrow> ts ! i \<le> ts ! Suc i \<and> ts ! Suc i \<le> ts ! i + LockWindow)"

lemma close_times_snoc: "ts \<noteq> [] \<Longrightarrow> close_times (ts @ [t]) \<Longrightarrow> close_times ts \<and> last ts \<le> t \<and> t \<le> last ts + LockWindow"
proof (intro conjI)
  assume ne: "ts \<noteq> []" and c: "close_times (ts @ [t])"
  show "close_times ts"
    unfolding close_times_def
  proof (intro allI impI)
    fix i assume "Suc i < length ts"
    with c show "ts ! i \<le> ts ! Suc i \<and> ts ! Suc i \<le> ts ! i + LockWindow"
      unfolding close_times_def by (metis Suc_lessD butlast_snoc length_append_singleton less_SucI nth_butlast)
  qed
  have "Suc (length ts - 1) < length (ts @ [t])" using ne by (simp add: Suc_diff_1)
  with c ne show "last ts \<le> t" and "t \<le> last ts + LockWindow"
    unfolding close_times_def by (fastforce simp: nth_append last_conv_nth)+
qed

locale lockout =
  fixes locked :: "gotime \<Rightarrow> 'k \<Rightarrow> 's \<Rightarrow> bool"
    and fail :: "gotime \<Rightarrow> 'k \<Rightarrow> 's \<Rightarrow> bool \<times> 's"
    and reset :: "'k \<Rightarrow> 's \<Rightarrow> 's"
    and fails :: "gotime \<Rightarrow> 'k \<Rightarrow> 's \<Rightarrow> nat"
  assumes fails_fail: "t \<le> t' \<Longrightarrow> t' \<le> t + LockWindow \<Longrightarrow> fails t' k (snd (fail t k s)) = Suc (fails t k s)"
    and locked_fail: "t \<le> t' \<Longrightarrow> locked t' k (snd (fail t k s)) \<longleftrightarrow>
          t' < t + LockWindow \<and> LockThreshold \<le> Suc (fails t k s)"
    and fail_reports: "fst (fail t k s) \<longleftrightarrow> Suc (fails t k s) = LockThreshold"
    and fail_other: "k' \<noteq> k \<Longrightarrow> locked t' k' (snd (fail t k s)) = locked t' k' s"
    and fails_other: "k' \<noteq> k \<Longrightarrow> fails t' k' (snd (fail t k s)) = fails t' k' s"
    and locked_reset: "\<not> locked t k (reset k s)"
    and fails_reset: "fails t k (reset k s) = 0"
    and reset_other: "k' \<noteq> k \<Longrightarrow> locked t k' (reset k s) = locked t k' s"
    and locked_fails: "locked t k s \<Longrightarrow> LockThreshold \<le> fails t k s"
begin

text \<open>The client's use of the port: a locked key is turned away before its failure is recorded.\<close>

definition guarded_fail :: "gotime \<Rightarrow> 'k \<Rightarrow> 's \<Rightarrow> 's" where
  "guarded_fail t k s = (if locked t k s then s else snd (fail t k s))"

lemma guarded_step:
  "\<not> locked t k s \<Longrightarrow> fails t k (guarded_fail t k s) = Suc (fails t k s) \<and>
   (locked t k (guarded_fail t k s) \<longleftrightarrow> LockThreshold \<le> Suc (fails t k s))"
  using fails_fail [of t t k s] locked_fail [of t t k s]
  by (simp add: guarded_fail_def LockWindow_def nanos_per_min_def)

lemma guarded_fails:
  assumes "fails t k s = 0"
  shows "fails t k ((guarded_fail t k ^^ n) s) = min n LockThreshold \<and>
    (locked t k ((guarded_fail t k ^^ n) s) \<longleftrightarrow> LockThreshold \<le> n)"
proof (induction n)
  case 0
  show ?case using assms locked_fails [of t k s] by (auto simp: LockThreshold_def)
next
  case (Suc n)
  define x where "x = (guarded_fail t k ^^ n) s"
  have "(guarded_fail t k ^^ Suc n) s = guarded_fail t k x" by (simp add: x_def)
  moreover have "locked t k x \<Longrightarrow> guarded_fail t k x = x" by (simp add: guarded_fail_def)
  ultimately show ?case
    using Suc [folded x_def] guarded_step [of t k x] by (cases "locked t k x") (simp_all only:, auto)
qed

lemma guarded_other: "k' \<noteq> k \<Longrightarrow> locked t' k' ((guarded_fail t k ^^ n) s) = locked t' k' s"
  by (induction n) (simp_all add: guarded_fail_def fail_other)

primrec fail_run :: "gotime list \<Rightarrow> 'k \<Rightarrow> 's \<Rightarrow> 's" where
  "fail_run [] k s = s"
| "fail_run (t # ts) k s = fail_run ts k (snd (fail t k s))"

lemma fail_run_snoc: "fail_run (ts @ [t]) k s = snd (fail t k (fail_run ts k s))"
  by (induction ts arbitrary: s) simp_all

lemma fails_run:
  "ts \<noteq> [] \<Longrightarrow> close_times ts \<Longrightarrow> fails (hd ts) k s = 0 \<Longrightarrow> last ts \<le> t \<Longrightarrow> t \<le> last ts + LockWindow \<Longrightarrow>
   fails t k (fail_run ts k s) = length ts"
proof (induction ts arbitrary: t rule: rev_induct)
  case (snoc u ts)
  show ?case
  proof (cases "ts = []")
    case True
    with snoc.prems show ?thesis by (simp add: fails_fail)
  next
    case False
    note c = close_times_snoc [OF False snoc.prems(2)]
    have "fails u k (fail_run ts k s) = length ts"
      using snoc.IH [of u] False c snoc.prems(3) by simp
    with snoc.prems show ?thesis by (simp add: fail_run_snoc fails_fail)
  qed
qed simp

lemma lock_after_threshold:
  assumes "ts \<noteq> []" and "close_times ts" and "fails (hd ts) k s = 0" and "last ts \<le> t"
  shows "locked t k (fail_run ts k s) \<longleftrightarrow> t < last ts + LockWindow \<and> LockThreshold \<le> length ts"
proof -
  obtain us u where ts: "ts = us @ [u]" using assms(1) by (cases ts rule: rev_cases) auto
  have "fails u k (fail_run us k s) = length us"
  proof (cases "us = []")
    case True
    with assms ts show ?thesis by simp
  next
    case False
    note c = close_times_snoc [OF False, of u, folded ts, OF assms(2)]
    show ?thesis using fails_run [OF False, of k s u] c assms(3) ts False by simp
  qed
  with assms ts show ?thesis by (simp add: fail_run_snoc locked_fail)
qed

end

definition mem_fails :: "gotime \<Rightarrow> string \<Rightarrow> Memory \<Rightarrow> nat" where
  "mem_fails now k m = (case map_of m k of None \<Rightarrow> 0 | Some e \<Rightarrow> if until e < now then 0 else ecount e)"

interpretation ml: lockout mem_Locked mem_RecordFailure mem_Reset mem_fails
  by unfold_locales
    (auto simp: mem_Locked_def mem_RecordFailure_def mem_Reset_def mem_fails_def mem_get_def Let_def
      update_conv' delete_conv' split: option.splits)

text \<open>
  Five strikes: a key with no counted failures that then fails at the times \<open>ts\<close>, each within fifteen
  minutes of the one before, is locked afterwards exactly when there were at least five failures,
  and then for fifteen minutes from the last of them.
\<close>

theorem lock_timing:
  assumes "ts \<noteq> []" and "close_times ts" and "mem_fails (hd ts) k m = 0" and "last ts \<le> t"
  shows "mem_Locked t k (foldl (\<lambda>m t. snd (mem_RecordFailure t k m)) m ts) \<longleftrightarrow>
    t < last ts + 15 * 60 * 1000000000 \<and> 5 \<le> length ts"
proof -
  have "ml.fail_run ts k m = foldl (\<lambda>m t. snd (mem_RecordFailure t k m)) m ts"
    by (induction ts arbitrary: m) simp_all
  with ml.lock_after_threshold [OF assms] show ?thesis
    by (simp add: LockWindow_def LockThreshold_def nanos_per_min_def)
qed

theorem lock_timing_witness:
  "mem_Locked 100 ''admin'' (foldl (\<lambda>m t. snd (mem_RecordFailure t ''admin'' m)) NewMemory [1, 2, 3, 4, 5]) \<and>
   \<not> mem_Locked 100 ''admin'' (foldl (\<lambda>m t. snd (mem_RecordFailure t ''admin'' m)) NewMemory [1, 2, 3, 4])"
proof -
  have "close_times [1, 2, 3, 4, 5]" "close_times [1, 2, 3, 4]"
    by (auto simp: close_times_def LockWindow_def nanos_per_min_def nth_Cons split: nat.splits)
  with lock_timing [of "[1, 2, 3, 4, 5]" "''admin''" NewMemory 100] lock_timing [of "[1, 2, 3, 4]" "''admin''" NewMemory 100]
  show ?thesis by (simp add: mem_fails_def NewMemory_def)
qed

end
