(* ===== verification/IAM_Auth.thy ===== *)
theory IAM_Auth
  imports Errx IAM_Lockout
begin

text \<open>
  Sessions (\<open>internal/iam/app/auth.go\<close>) over the IAM tables (\<open>internal/iam/adapters/postgres/repos.go\<close>,
  \<open>admin.go\<close>) and entities (\<open>internal/iam/domain/user.go\<close>): login, refresh-token rotation, logout and
  the bootstrap of the first administrator.

  A table is a list of rows; a statement that breaks a uniqueness or reference constraint of the
  schema fails. What is not NetInv's code is in the record \<open>iam_env\<close>: the clock, the Argon2
  verification and hashing, SHA-256, the signature of an access token and its lifetime, random bytes, fresh ids, the
  case folding of PostgreSQL's \<open>citext\<close> (the type of the username column), the collation that
  orders role names, and the failure, if any, of each call to the database.

  Shown: who can obtain a session; that a refresh token is single-use and its reuse ends the whole
  family when requests run one after the other; that two refreshes of one token that overlap both
  succeed; and how the lock counts failures per spelling of a username.
\<close>

datatype UserStatus = UserActive | UserLocked | UserDeactivated

record User =
  u_ID :: string
  u_TenantID :: string
  u_Username :: string
  u_Email :: string
  u_PasswordHash :: string
  u_DisplayName :: string
  u_Status :: UserStatus
  u_PasswordChangeRequired :: bool
  u_LastLoginAt :: "gotime option"

definition CanLogin :: "User \<Rightarrow> bool" where
  "CanLogin u \<longleftrightarrow> u_Status u = UserActive"

record RefreshToken =
  rt_ID :: string
  rt_UserID :: string
  rt_TokenHash :: string
  rt_FamilyID :: string
  rt_IssuedAt :: gotime
  rt_ExpiresAt :: gotime
  rt_RotatedAt :: "gotime option"
  rt_RevokedAt :: "gotime option"

definition rt_Usable :: "gotime \<Rightarrow> RefreshToken \<Rightarrow> bool" where
  "rt_Usable now t \<longleftrightarrow> rt_RotatedAt t = None \<and> rt_RevokedAt t = None \<and> now < rt_ExpiresAt t"

definition rt_Compromised :: "RefreshToken \<Rightarrow> bool" where
  "rt_Compromised t \<longleftrightarrow> rt_RotatedAt t \<noteq> None \<or> rt_RevokedAt t \<noteq> None"

text \<open>A \<open>[]string\<close> read from the token table is never nil.\<close>

record APIToken =
  at_ID :: string
  at_UserID :: string
  at_Name :: string
  at_TokenHash :: string
  at_Scopes :: "string list"
  at_ExpiresAt :: "gotime option"
  at_LastUsedAt :: "gotime option"
  at_RevokedAt :: "gotime option"
  at_CreatedAt :: gotime

definition at_Usable :: "gotime \<Rightarrow> APIToken \<Rightarrow> bool" where
  "at_Usable now t \<longleftrightarrow> at_RevokedAt t = None \<and> (case at_ExpiresAt t of None \<Rightarrow> True | Some x \<Rightarrow> now < x)"

record TokenOwner =
  o_Username :: string
  o_TenantID :: string
  o_Status :: UserStatus
  o_Roles :: "string list"

subsection \<open>Tables and statements\<close>

record iam_db =
  db_users :: "User list"
  db_roles :: "(string \<times> string) list"
  db_user_roles :: "(string \<times> string) list"
  db_rtokens :: "RefreshToken list"
  db_atokens :: "APIToken list"

datatype iam_call = CallGetUser | CallRoleNames | CallCreate | CallCount | CallRecordLogin
  | CallInsertToken | CallGetToken | CallMarkRotated | CallRevoke | CallRevokeFamily
  | CallSetStatus | CallSetPassword | CallSetRoles | CallRoleIDsExist | CallRevokeAll
  | CallProfile | CallInsertAPI | CallRevokeAPI | CallLookupAPI | CallTouchAPI

record iam_env =
  e_now :: gotime
  e_verify :: "string \<Rightarrow> string \<Rightarrow> goerr + bool"
  e_hash :: "string \<Rightarrow> goerr + string"
  e_sha :: "string \<Rightarrow> string"
  e_issue :: "string \<Rightarrow> string \<Rightarrow> string \<Rightarrow> string list \<Rightarrow> goerr + string"
  e_ttl :: int
  e_rand :: "goerr + string"
  e_id :: "string \<Rightarrow> string"
  e_fold :: "string \<Rightarrow> string"
  e_collate :: "string list \<Rightarrow> string list"
  e_fault :: "iam_call \<Rightarrow> goerr option"

definition db_call :: "iam_env \<Rightarrow> iam_call \<Rightarrow> goerr + 'a \<Rightarrow> goerr + 'a" where
  "db_call env c x = (case e_fault env c of Some e \<Rightarrow> Inl e | None \<Rightarrow> x)"

definition scanUser :: "User option \<Rightarrow> goerr + User" where
  "scanUser r = (case r of None \<Rightarrow> Inl (errx_New KindNotFound ''user not found'') | Some u \<Rightarrow> Inr u)"

definition GetByUsername :: "iam_env \<Rightarrow> string \<Rightarrow> iam_db \<Rightarrow> goerr + User" where
  "GetByUsername env name db =
     db_call env CallGetUser (scanUser (find (\<lambda>u. e_fold env (u_Username u) = e_fold env name) (db_users db)))"

definition GetByID :: "iam_env \<Rightarrow> string \<Rightarrow> iam_db \<Rightarrow> goerr + User" where
  "GetByID env i db = db_call env CallGetUser (scanUser (find (\<lambda>u. u_ID u = i) (db_users db)))"

definition RoleNames :: "iam_env \<Rightarrow> string \<Rightarrow> iam_db \<Rightarrow> goerr + string list" where
  "RoleNames env uid db = db_call env CallRoleNames (Inr (e_collate env
     (map snd (filter (\<lambda>(i, n). (uid, i) \<in> set (db_user_roles db)) (db_roles db)))))"

definition user_conflict :: "iam_env \<Rightarrow> User \<Rightarrow> iam_db \<Rightarrow> bool" where
  "user_conflict env u db \<longleftrightarrow> list_ex (\<lambda>v. u_ID v = u_ID u \<or> e_fold env (u_Username v) = e_fold env (u_Username u) \<or>
     e_fold env (u_Email v) = e_fold env (u_Email u)) (db_users db)"

definition CreateUserRow :: "iam_env \<Rightarrow> User \<Rightarrow> string list \<Rightarrow> iam_db \<Rightarrow> goerr + iam_db" where
  "CreateUserRow env u roleIDs db = db_call env CallCreate
     (if user_conflict env u db then Inl (KindError KindConflict (ErrMsg ''insert user'' (ErrLeaf ''unique'')))
      else if \<not> list_all (\<lambda>r. r \<in> fst ` set (db_roles db)) roleIDs \<or> \<not> distinct roleIDs
      then Inl (KindError KindInvalid (ErrMsg ''grant role'' (ErrLeaf ''constraint'')))
      else Inr (db\<lparr>db_users := db_users db @ [u],
                   db_user_roles := db_user_roles db @ map (\<lambda>r. (u_ID u, r)) roleIDs\<rparr>))"

definition CountUsers :: "iam_env \<Rightarrow> iam_db \<Rightarrow> goerr + nat" where
  "CountUsers env db = db_call env CallCount (Inr (length (db_users db)))"

definition RecordLogin :: "iam_env \<Rightarrow> string \<Rightarrow> gotime \<Rightarrow> iam_db \<Rightarrow> goerr + iam_db" where
  "RecordLogin env uid at db = db_call env CallRecordLogin (Inr (db\<lparr>db_users :=
     map (\<lambda>u. if u_ID u = uid then u\<lparr>u_LastLoginAt := Some at\<rparr> else u) (db_users db)\<rparr>))"

definition InsertToken :: "iam_env \<Rightarrow> RefreshToken \<Rightarrow> iam_db \<Rightarrow> goerr + iam_db" where
  "InsertToken env t db = db_call env CallInsertToken
     (if list_ex (\<lambda>r. rt_ID r = rt_ID t \<or> rt_TokenHash r = rt_TokenHash t) (db_rtokens db) \<or>
         rt_UserID t \<notin> u_ID ` set (db_users db)
      then Inl (KindError KindTransient (ErrMsg ''insert refresh token'' (ErrLeaf ''constraint'')))
      else Inr (db\<lparr>db_rtokens := db_rtokens db @ [t\<lparr>rt_RotatedAt := None, rt_RevokedAt := None\<rparr>]\<rparr>))"

definition GetByHash :: "iam_env \<Rightarrow> string \<Rightarrow> iam_db \<Rightarrow> goerr + RefreshToken" where
  "GetByHash env h db = db_call env CallGetToken (case find (\<lambda>t. rt_TokenHash t = h) (db_rtokens db) of
       None \<Rightarrow> Inl (errx_New KindNotFound ''refresh token not found'') | Some t \<Rightarrow> Inr t)"

definition update_tokens :: "(RefreshToken \<Rightarrow> bool) \<Rightarrow> (RefreshToken \<Rightarrow> RefreshToken) \<Rightarrow> iam_db \<Rightarrow> iam_db" where
  "update_tokens P f db = db\<lparr>db_rtokens := map (\<lambda>t. if P t then f t else t) (db_rtokens db)\<rparr>"

definition MarkRotated :: "iam_env \<Rightarrow> string \<Rightarrow> gotime \<Rightarrow> iam_db \<Rightarrow> goerr + iam_db" where
  "MarkRotated env i at db = db_call env CallMarkRotated
     (Inr (update_tokens (\<lambda>t. rt_ID t = i) (\<lambda>t. t\<lparr>rt_RotatedAt := Some at\<rparr>) db))"

definition RevokeToken :: "iam_env \<Rightarrow> string \<Rightarrow> gotime \<Rightarrow> iam_db \<Rightarrow> goerr + iam_db" where
  "RevokeToken env i at db = db_call env CallRevoke
     (Inr (update_tokens (\<lambda>t. rt_ID t = i \<and> rt_RevokedAt t = None) (\<lambda>t. t\<lparr>rt_RevokedAt := Some at\<rparr>) db))"

definition RevokeFamily :: "iam_env \<Rightarrow> string \<Rightarrow> gotime \<Rightarrow> iam_db \<Rightarrow> goerr + iam_db" where
  "RevokeFamily env fam at db = db_call env CallRevokeFamily
     (Inr (update_tokens (\<lambda>t. rt_FamilyID t = fam \<and> rt_RevokedAt t = None) (\<lambda>t. t\<lparr>rt_RevokedAt := Some at\<rparr>) db))"

definition RevokeAllForUser :: "iam_env \<Rightarrow> string \<Rightarrow> gotime \<Rightarrow> iam_db \<Rightarrow> goerr + iam_db" where
  "RevokeAllForUser env uid at db = db_call env CallRevokeAll
     (Inr (update_tokens (\<lambda>t. rt_UserID t = uid \<and> rt_RevokedAt t = None) (\<lambda>t. t\<lparr>rt_RevokedAt := Some at\<rparr>) db))"

subsection \<open>The service\<close>

record ClientMeta =
  SourceIP :: string
  UserAgent :: string
  TraceID :: string

datatype audit_val = AStr string | AStrs "string list" | ATime "gotime option"

record audit_event =
  ActorKind :: string
  ActorID :: string
  Action :: string
  ResourceKind :: string
  ResourceID :: string
  Before :: "(string \<times> audit_val) list"
  After :: "(string \<times> audit_val) list"
  Meta :: ClientMeta
  Detail :: "(string \<times> string) list"

record iam =
  db :: iam_db
  lock :: Memory
  audit :: "audit_event list"

record LoginResult =
  AccessToken :: string
  ExpiresIn :: int
  RefreshPlain :: string
  LUser :: User
  LRoles :: "string list"
  PasswordChangeRequired :: bool

definition refreshTTL :: int where "refreshTTL = 30 * 24 * 60 * nanos_per_min"
definition defaultTenant :: string where "defaultTenant = ''t_default''"
definition errBadCredentials :: goerr where "errBadCredentials = errx_New KindUnauthorized ''invalid credentials''"
definition ErrLocked :: goerr where "ErrLocked = errx_New KindForbidden ''account temporarily locked''"

definition write_audit :: "audit_event \<Rightarrow> iam \<Rightarrow> iam" where
  "write_audit e s = s\<lparr>audit := audit s @ [e]\<rparr>"

definition auth_event :: "ClientMeta \<Rightarrow> string \<Rightarrow> string \<Rightarrow> (string \<times> string) list \<Rightarrow> audit_event" where
  "auth_event meta action actor detail = \<lparr>ActorKind = ''user'', ActorID = actor, Action = action,
     ResourceKind = [], ResourceID = [], Before = [], After = [], Meta = meta, Detail = detail\<rparr>"

definition newRefreshToken :: "iam_env \<Rightarrow> string \<Rightarrow> string \<Rightarrow> goerr + string \<times> RefreshToken" where
  "newRefreshToken env uid fam = (case e_rand env of Inl e \<Rightarrow> Inl e
     | Inr plain \<Rightarrow> Inr (plain, \<lparr>rt_ID = e_id env ''rt'', rt_UserID = uid, rt_TokenHash = e_sha env plain,
         rt_FamilyID = fam, rt_IssuedAt = e_now env, rt_ExpiresAt = e_now env + refreshTTL,
         rt_RotatedAt = None, rt_RevokedAt = None\<rparr>))"

definition login_failed :: "iam_env \<Rightarrow> string \<Rightarrow> ClientMeta \<Rightarrow> iam \<Rightarrow> (goerr + LoginResult) \<times> iam" where
  "login_failed env username meta s =
     (let (nowLocked, m) = mem_RecordFailure (e_now env) username (lock s);
          action = (if nowLocked then ''auth.login.lockout'' else ''auth.login.failure'')
      in (Inl errBadCredentials, write_audit (auth_event meta action [] [(''username'', username)]) (s\<lparr>lock := m\<rparr>)))"

definition login_ok :: "iam_env \<Rightarrow> string \<Rightarrow> User \<Rightarrow> ClientMeta \<Rightarrow> iam \<Rightarrow> (goerr + LoginResult) \<times> iam" where
  "login_ok env username u meta s0 =
     (let s = s0\<lparr>lock := mem_Reset username (lock s0)\<rparr> in
      case RoleNames env (u_ID u) (db s) of Inl e \<Rightarrow> (Inl e, s) | Inr roles \<Rightarrow>
      (case e_issue env (u_ID u) (u_Username u) (u_TenantID u) roles of
         Inl e \<Rightarrow> (Inl (KindError KindInternal (ErrMsg ''issue access token'' e)), s) | Inr access \<Rightarrow>
      (case newRefreshToken env (u_ID u) (e_id env ''fam'') of Inl e \<Rightarrow> (Inl e, s) | Inr (plain, tok) \<Rightarrow>
      (case InsertToken env tok (db s) of Inl e \<Rightarrow> (Inl e, s) | Inr d \<Rightarrow>
       let d = (case RecordLogin env (u_ID u) (e_now env) d of Inl e \<Rightarrow> d | Inr d \<Rightarrow> d);
           s = write_audit (auth_event meta ''auth.login.success'' (u_ID u) [(''username'', username)]) (s\<lparr>db := d\<rparr>)
       in (Inr \<lparr>AccessToken = access, ExpiresIn = e_ttl env div 1000000000, RefreshPlain = plain, LUser = u, LRoles = roles,
             PasswordChangeRequired = u_PasswordChangeRequired u\<rparr>, s)))))"

definition Login :: "iam_env \<Rightarrow> string \<Rightarrow> string \<Rightarrow> ClientMeta \<Rightarrow> iam \<Rightarrow> (goerr + LoginResult) \<times> iam" where
  "Login env username password meta s =
     (if mem_Locked (e_now env) username (lock s) then
        (Inl ErrLocked, write_audit (auth_event meta ''auth.login.locked_attempt'' [] [(''username'', username)]) s)
      else case GetByUsername env username (db s) of
        Inl e \<Rightarrow> if KindOf (Some e) \<noteq> KindNotFound then (Inl e, s) else login_failed env username meta s
      | Inr u \<Rightarrow>
          (case e_verify env password (u_PasswordHash u) of
             Inl e \<Rightarrow> (Inl (KindError KindInternal (ErrMsg ''verify password'' e)), s)
           | Inr verified \<Rightarrow>
               if \<not> verified \<or> \<not> CanLogin u then login_failed env username meta s
               else login_ok env username u meta s))"

text \<open>\<open>Refresh\<close>, in the two parts between which the database may change: up to the checks, and from the first write.\<close>

definition refresh_check ::
  "iam_env \<Rightarrow> string \<Rightarrow> ClientMeta \<Rightarrow> iam \<Rightarrow> (goerr + RefreshToken \<times> User \<times> string list) \<times> iam" where
  "refresh_check env plain meta s =
     (case GetByHash env (e_sha env plain) (db s) of
        Inl e \<Rightarrow> (Inl (if KindOf (Some e) = KindNotFound then errBadCredentials else e), s)
      | Inr t \<Rightarrow>
          if rt_Compromised t then
            (let d = (case RevokeFamily env (rt_FamilyID t) (e_now env) (db s) of Inl e \<Rightarrow> db s | Inr d \<Rightarrow> d) in
             (Inl errBadCredentials, write_audit (auth_event meta ''auth.token.reuse'' (rt_UserID t)
                [(''family_id'', rt_FamilyID t)]) (s\<lparr>db := d\<rparr>)))
          else if \<not> rt_Usable (e_now env) t then (Inl errBadCredentials, s)
          else case GetByID env (rt_UserID t) (db s) of
            Inl e \<Rightarrow> (Inl errBadCredentials, s)
          | Inr u \<Rightarrow>
              if \<not> CanLogin u then (Inl errBadCredentials, s)
              else case RoleNames env (u_ID u) (db s) of
                Inl e \<Rightarrow> (Inl e, s)
              | Inr roles \<Rightarrow> (Inr (t, u, roles), s))"

definition refresh_commit ::
  "iam_env \<Rightarrow> RefreshToken \<times> User \<times> string list \<Rightarrow> ClientMeta \<Rightarrow> iam \<Rightarrow> (goerr + LoginResult) \<times> iam" where
  "refresh_commit env x meta s = (case x of (t, u, roles) \<Rightarrow>
     (case MarkRotated env (rt_ID t) (e_now env) (db s) of Inl e \<Rightarrow> (Inl e, s) | Inr d1 \<Rightarrow>
      let s1 = s\<lparr>db := d1\<rparr> in
     (case newRefreshToken env (u_ID u) (rt_FamilyID t) of Inl e \<Rightarrow> (Inl e, s1) | Inr (plain, tok) \<Rightarrow>
     (case InsertToken env tok d1 of Inl e \<Rightarrow> (Inl e, s1) | Inr d2 \<Rightarrow>
      let s2 = s\<lparr>db := d2\<rparr> in
     (case e_issue env (u_ID u) (u_Username u) (u_TenantID u) roles of
        Inl e \<Rightarrow> (Inl (KindError KindInternal (ErrMsg ''issue access token'' e)), s2)
      | Inr access \<Rightarrow>
          (Inr \<lparr>AccessToken = access, ExpiresIn = e_ttl env div 1000000000, RefreshPlain = plain, LUser = u, LRoles = roles,
             PasswordChangeRequired = u_PasswordChangeRequired u\<rparr>,
           write_audit (auth_event meta ''auth.token.refresh'' (u_ID u) []) s2))))))"

definition Refresh :: "iam_env \<Rightarrow> string \<Rightarrow> ClientMeta \<Rightarrow> iam \<Rightarrow> (goerr + LoginResult) \<times> iam" where
  "Refresh env plain meta s =
     (case refresh_check env plain meta s of
        (Inl e, s') \<Rightarrow> (Inl e, s')
      | (Inr x, s') \<Rightarrow> refresh_commit env x meta s')"

definition Logout :: "iam_env \<Rightarrow> string \<Rightarrow> ClientMeta \<Rightarrow> iam \<Rightarrow> iam" where
  "Logout env plain meta s =
     (case GetByHash env (e_sha env plain) (db s) of
        Inl e \<Rightarrow> s
      | Inr t \<Rightarrow>
          let d = (case RevokeToken env (rt_ID t) (e_now env) (db s) of Inl e \<Rightarrow> db s | Inr d \<Rightarrow> d)
          in write_audit (auth_event meta ''auth.logout'' (rt_UserID t) []) (s\<lparr>db := d\<rparr>))"

definition no_meta :: ClientMeta where "no_meta = \<lparr>SourceIP = [], UserAgent = [], TraceID = []\<rparr>"

definition Bootstrap :: "iam_env \<Rightarrow> string \<Rightarrow> iam \<Rightarrow> (goerr option \<times> string) \<times> iam" where
  "Bootstrap env envPassword s =
     (case CountUsers env (db s) of
        Inl e \<Rightarrow> ((Some e, []), s)
      | Inr n \<Rightarrow>
          if 0 < n then ((None, []), s)
          else case (if envPassword = [] then e_rand env else Inr envPassword) of
            Inl e \<Rightarrow> ((Some e, []), s)
          | Inr password \<Rightarrow>
              (case e_hash env password of
                 Inl e \<Rightarrow> ((Some e, []), s)
               | Inr h \<Rightarrow>
                   let u = \<lparr>u_ID = e_id env ''u'', u_TenantID = defaultTenant, u_Username = ''admin'',
                        u_Email = ''admin@localhost.invalid'', u_PasswordHash = h, u_DisplayName = ''Administrator'',
                        u_Status = UserActive, u_PasswordChangeRequired = True, u_LastLoginAt = None\<rparr>
                   in (case CreateUserRow env u [''role_admin''] (db s) of
                         Inl e \<Rightarrow> ((Some e, []), s)
                       | Inr d \<Rightarrow>
                           ((None, if envPassword = [] then password else []),
                            write_audit \<lparr>ActorKind = ''system'', ActorID = [], Action = ''user.bootstrap'',
                              ResourceKind = ''user'', ResourceID = u_ID u, Before = [], After = [], Meta = no_meta,
                              Detail = [(''username'', ''admin'')]\<rparr> (s\<lparr>db := d\<rparr>)))))"

subsection \<open>Tokens stay well formed\<close>

definition wf_tokens :: "iam_db \<Rightarrow> bool" where
  "wf_tokens d \<longleftrightarrow> distinct (map rt_ID (db_rtokens d)) \<and> distinct (map rt_TokenHash (db_rtokens d))"

text \<open>A token is live while it is neither rotated nor revoked.\<close>

definition live :: "RefreshToken \<Rightarrow> bool" where
  "live t \<longleftrightarrow> \<not> rt_Compromised t"

definition one_live :: "iam_db \<Rightarrow> bool" where
  "one_live d \<longleftrightarrow> distinct (map rt_FamilyID (filter live (db_rtokens d)))"

text \<open>An update of tokens that keeps identity and can only end a token.\<close>

definition ends_only :: "(RefreshToken \<Rightarrow> RefreshToken) \<Rightarrow> bool" where
  "ends_only f \<longleftrightarrow> (\<forall>t. rt_ID (f t) = rt_ID t \<and> rt_TokenHash (f t) = rt_TokenHash t \<and>
     rt_FamilyID (f t) = rt_FamilyID t \<and> rt_UserID (f t) = rt_UserID t \<and> (live (f t) \<longrightarrow> live t))"

named_theorems token_simps

lemma ends_only_rotated [token_simps]: "ends_only (\<lambda>t. t\<lparr>rt_RotatedAt := Some at\<rparr>)"
  by (simp add: ends_only_def live_def rt_Compromised_def)

lemma ends_only_revoked [token_simps]: "ends_only (\<lambda>t. t\<lparr>rt_RevokedAt := Some at\<rparr>)"
  by (simp add: ends_only_def live_def rt_Compromised_def)

lemma update_tokens_users [simp]: "db_users (update_tokens P f d) = db_users d"
  by (simp add: update_tokens_def)

lemma wf_update_tokens: "ends_only f \<Longrightarrow> wf_tokens (update_tokens P f d) = wf_tokens d"
  by (simp add: wf_tokens_def update_tokens_def ends_only_def comp_def if_distrib cong: if_cong)

lemma one_live_map:
  "ends_only f \<Longrightarrow> distinct (map rt_FamilyID (filter live ts)) \<Longrightarrow>
   distinct (map rt_FamilyID (filter live (map (\<lambda>t. if P t then f t else t) ts)))"
proof -
  assume f: "ends_only f"
  have sub: "rt_FamilyID ` {t \<in> set (map (\<lambda>t. if P t then f t else t) us). live t} \<subseteq> rt_FamilyID ` {t \<in> set us. live t}" for us
    using f by (fastforce simp: ends_only_def split: if_splits)
  assume "distinct (map rt_FamilyID (filter live ts))"
  then show ?thesis
  proof (induction ts)
    case (Cons t ts)
    then show ?case using sub [of ts] f by (auto simp: ends_only_def split: if_splits)
  qed simp
qed

lemma one_live_update: "ends_only f \<Longrightarrow> one_live d \<Longrightarrow> one_live (update_tokens P f d)"
  using one_live_map [of f "db_rtokens d" P] by (simp add: one_live_def update_tokens_def)

lemma db_call_Inr: "db_call env c x = Inr y \<longleftrightarrow> e_fault env c = None \<and> x = Inr y"
  by (simp add: db_call_def split: option.splits)

lemma InsertToken_Inr:
  "InsertToken env t d = Inr d' \<Longrightarrow>
   d' = d\<lparr>db_rtokens := db_rtokens d @ [t\<lparr>rt_RotatedAt := None, rt_RevokedAt := None\<rparr>]\<rparr> \<and>
   rt_ID t \<notin> rt_ID ` set (db_rtokens d) \<and> rt_TokenHash t \<notin> rt_TokenHash ` set (db_rtokens d)"
  by (auto simp: InsertToken_def db_call_Inr list_ex_iff split: if_splits)

lemma wf_InsertToken: "InsertToken env t d = Inr d' \<Longrightarrow> wf_tokens d \<Longrightarrow> wf_tokens d'"
  by (drule InsertToken_Inr) (auto simp: wf_tokens_def)

lemma find_token: "distinct (map rt_TokenHash ts) \<Longrightarrow> t \<in> set ts \<Longrightarrow> find (\<lambda>r. rt_TokenHash r = rt_TokenHash t) ts = Some t"
  by (induction ts) (auto simp: rev_image_eqI)

lemma GetByHash_Inr:
  "GetByHash env h d = Inr t \<Longrightarrow> t \<in> set (db_rtokens d) \<and> rt_TokenHash t = h"
  by (auto simp: GetByHash_def db_call_Inr find_Some_iff split: option.splits)

subsection \<open>Sequences of requests\<close>

text \<open>
  Requests handled one after the other. Family and token identifiers are fresh: they carry a random
  part (\<open>id.New\<close>), so a login starts a family no row has.
\<close>

inductive session_step :: "iam \<Rightarrow> iam \<Rightarrow> bool" where
  step_login: "e_id env ''fam'' \<notin> rt_FamilyID ` set (db_rtokens (db s)) \<Longrightarrow>
     session_step s (snd (Login env name pw meta s))"
| step_refresh: "session_step s (snd (Refresh env plain meta s))"
| step_logout: "session_step s (Logout env plain meta s)"
| step_revoke_all: "RevokeAllForUser env uid at (db s) = Inr d \<Longrightarrow> session_step s (s\<lparr>db := d\<rparr>)"

lemma login_failed_db [simp]: "db (snd (login_failed env name meta s)) = db s"
  by (simp add: login_failed_def write_audit_def Let_def split: prod.splits)

lemma login_failed_error [simp]: "fst (login_failed env name meta s) = Inl errBadCredentials"
  by (simp add: login_failed_def Let_def split: prod.splits)

lemma RecordLogin_tokens: "RecordLogin env uid at d = Inr d' \<Longrightarrow> db_rtokens d' = db_rtokens d"
  by (auto simp: RecordLogin_def db_call_Inr)

definition login_token :: "iam_env \<Rightarrow> string \<Rightarrow> string \<Rightarrow> RefreshToken" where
  "login_token env uid plain = \<lparr>rt_ID = e_id env ''rt'', rt_UserID = uid, rt_TokenHash = e_sha env plain,
     rt_FamilyID = e_id env ''fam'', rt_IssuedAt = e_now env, rt_ExpiresAt = e_now env + refreshTTL,
     rt_RotatedAt = None, rt_RevokedAt = None\<rparr>"

lemma newRefreshToken_Inr:
  "newRefreshToken env uid fam = Inr (plain, tok) \<longleftrightarrow>
   e_rand env = Inr plain \<and> tok = (login_token env uid plain)\<lparr>rt_FamilyID := fam\<rparr>"
  by (auto simp: newRefreshToken_def login_token_def split: sum.splits)

lemma live_login_token [simp]: "live ((login_token env uid plain)\<lparr>rt_FamilyID := fam\<rparr>)"
  by (simp add: live_def rt_Compromised_def login_token_def)

definition adds_token :: "RefreshToken \<Rightarrow> iam_db \<Rightarrow> iam_db \<Rightarrow> bool" where
  "adds_token t d d' \<longleftrightarrow> db_rtokens d' = db_rtokens d @ [t] \<and>
     rt_ID t \<notin> rt_ID ` set (db_rtokens d) \<and> rt_TokenHash t \<notin> rt_TokenHash ` set (db_rtokens d)"

lemma wf_adds: "adds_token t d d' \<Longrightarrow> wf_tokens d \<Longrightarrow> wf_tokens d'"
  by (auto simp: adds_token_def wf_tokens_def)

lemma one_live_adds:
  "adds_token t d d' \<Longrightarrow> one_live d \<Longrightarrow> \<forall>r\<in>set (db_rtokens d). live r \<longrightarrow> rt_FamilyID r \<noteq> rt_FamilyID t \<Longrightarrow> one_live d'"
  by (auto simp: adds_token_def one_live_def)

lemma InsertToken_adds:
  "InsertToken env t d = Inr d' \<Longrightarrow> live t \<Longrightarrow> adds_token t d d'"
  using InsertToken_Inr [of env t d d'] by (simp add: adds_token_def live_def rt_Compromised_def)

lemma live_login [simp]: "live (login_token env uid plain)"
  by (simp add: live_def rt_Compromised_def login_token_def)

lemma login_family: "(login_token env uid plain)\<lparr>rt_FamilyID := e_id env ''fam''\<rparr> = login_token env uid plain"
  by (simp add: login_token_def)

lemma login_ok_tokens:
  "db_rtokens (db (snd (login_ok env name u meta s))) = db_rtokens (db s) \<or>
   (\<exists>plain. adds_token (login_token env (u_ID u) plain) (db s) (db (snd (login_ok env name u meta s))))"
  by (auto simp: login_ok_def Let_def write_audit_def newRefreshToken_Inr login_family adds_token_def
      dest!: RecordLogin_tokens InsertToken_adds split: sum.splits prod.splits)

lemma Login_tokens:
  "db_rtokens (db (snd (Login env name pw meta s))) = db_rtokens (db s) \<or>
   (\<exists>uid plain. adds_token (login_token env uid plain) (db s) (db (snd (Login env name pw meta s))))"
  using login_ok_tokens by (fastforce simp: Login_def write_audit_def split: sum.splits)

lemma RevokeFamily_db:
  "(case RevokeFamily env fam at d of Inl e \<Rightarrow> d | Inr d' \<Rightarrow> d') = d \<or>
   (case RevokeFamily env fam at d of Inl e \<Rightarrow> d | Inr d' \<Rightarrow> d') =
     update_tokens (\<lambda>t. rt_FamilyID t = fam \<and> rt_RevokedAt t = None) (\<lambda>t. t\<lparr>rt_RevokedAt := Some at\<rparr>) d"
  by (auto simp: RevokeFamily_def db_call_def split: option.splits)

lemma refresh_check_Inl:
  "refresh_check env plain meta s = (Inl e, s') \<Longrightarrow>
   db s' = db s \<or> (\<exists>P f. ends_only f \<and> db s' = update_tokens P f (db s))"
  using RevokeFamily_db ends_only_revoked
  by (fastforce simp: refresh_check_def write_audit_def Let_def split: sum.splits if_splits)

lemma refresh_check_Inr:
  "refresh_check env plain meta s = (Inr x, s') \<Longrightarrow>
   s' = s \<and> (\<exists>t u roles. x = (t, u, roles) \<and> t \<in> set (db_rtokens (db s)) \<and> rt_TokenHash t = e_sha env plain \<and>
     live t \<and> rt_Usable (e_now env) t \<and> u \<in> set (db_users (db s)) \<and> u_ID u = rt_UserID t \<and> CanLogin u)"
  by (auto simp: refresh_check_def live_def GetByID_def scanUser_def db_call_Inr find_Some_iff Let_def
      dest!: GetByHash_Inr split: sum.splits if_splits option.splits)

text \<open>The database after the old token is marked, and after its successor is inserted.\<close>

abbreviation rotated_db :: "iam_env \<Rightarrow> RefreshToken \<Rightarrow> iam_db \<Rightarrow> iam_db" where
  "rotated_db env t d \<equiv> update_tokens (\<lambda>r. rt_ID r = rt_ID t) (\<lambda>r. r\<lparr>rt_RotatedAt := Some (e_now env)\<rparr>) d"

abbreviation next_token :: "iam_env \<Rightarrow> RefreshToken \<Rightarrow> User \<Rightarrow> string \<Rightarrow> RefreshToken" where
  "next_token env t u p \<equiv> (login_token env (u_ID u) p)\<lparr>rt_FamilyID := rt_FamilyID t\<rparr>"

lemma refresh_commit_db:
  "db (snd (refresh_commit env (t, u, roles) meta s)) = db s \<or>
   db (snd (refresh_commit env (t, u, roles) meta s)) = rotated_db env t (db s) \<or>
   (\<exists>p. adds_token (next_token env t u p) (rotated_db env t (db s)) (db (snd (refresh_commit env (t, u, roles) meta s))))"
  by (auto simp: refresh_commit_def Let_def write_audit_def MarkRotated_def db_call_Inr newRefreshToken_Inr
      dest!: InsertToken_adds split: sum.splits prod.splits)

lemma refresh_commit_Inr:
  "refresh_commit env (t, u, roles) meta s = (Inr r, s') \<Longrightarrow>
   e_rand env = Inr (RefreshPlain r) \<and> LUser r = u \<and> LRoles r = roles \<and>
   adds_token (next_token env t u (RefreshPlain r)) (rotated_db env t (db s)) (db s')"
  by (auto simp: refresh_commit_def Let_def write_audit_def MarkRotated_def db_call_Inr newRefreshToken_Inr
      dest!: InsertToken_adds split: sum.splits prod.splits)

lemma one_live_unique:
  "one_live d \<Longrightarrow> t \<in> set (db_rtokens d) \<Longrightarrow> r \<in> set (db_rtokens d) \<Longrightarrow> live t \<Longrightarrow> live r \<Longrightarrow>
   rt_FamilyID r = rt_FamilyID t \<Longrightarrow> r = t"
  unfolding one_live_def distinct_map by (auto dest: inj_onD)

lemma rotation_ends_family:
  assumes "one_live d" and "t \<in> set (db_rtokens d)" and "live t"
  shows "\<forall>r\<in>set (db_rtokens (rotated_db env t d)). live r \<longrightarrow> rt_FamilyID r \<noteq> rt_FamilyID t"
proof (intro ballI impI notI)
  fix r assume r: "r \<in> set (db_rtokens (rotated_db env t d))" "live r" "rt_FamilyID r = rt_FamilyID t"
  then obtain r0 where r0: "r0 \<in> set (db_rtokens d)"
    "r = (if rt_ID r0 = rt_ID t then r0\<lparr>rt_RotatedAt := Some (e_now env)\<rparr> else r0)"
    by (auto simp: update_tokens_def)
  with r show False using one_live_unique [OF assms(1,2) r0(1) assms(3)]
    by (auto simp: live_def rt_Compromised_def split: if_splits)
qed

definition sessions_ok :: "iam \<Rightarrow> bool" where
  "sessions_ok s \<longleftrightarrow> wf_tokens (db s) \<and> one_live (db s)"

lemma sessions_ok_update:
  "ends_only f \<Longrightarrow> db s' = update_tokens P f (db s) \<Longrightarrow> sessions_ok s \<Longrightarrow> sessions_ok s'"
  by (simp add: sessions_ok_def wf_update_tokens one_live_update)

lemma sessions_ok_same: "db_rtokens (db s') = db_rtokens (db s) \<Longrightarrow> sessions_ok s' = sessions_ok s"
  by (simp add: sessions_ok_def wf_tokens_def one_live_def)

lemma sessions_ok_login:
  assumes "sessions_ok s" and "e_id env ''fam'' \<notin> rt_FamilyID ` set (db_rtokens (db s))"
  shows "sessions_ok (snd (Login env name pw meta s))"
  using Login_tokens [of env name pw meta s]
proof (elim disjE exE)
  fix uid plain assume a: "adds_token (login_token env uid plain) (db s) (db (snd (Login env name pw meta s)))"
  have "rt_FamilyID (login_token env uid plain) = e_id env ''fam''" by (simp add: login_token_def)
  with assms wf_adds [OF a] one_live_adds [OF a] show ?thesis unfolding sessions_ok_def by force
qed (use assms(1) sessions_ok_same in blast)

lemma sessions_ok_commit:
  assumes "sessions_ok s" and "t \<in> set (db_rtokens (db s))" and "live t"
  shows "sessions_ok (snd (refresh_commit env (t, u, roles) meta s))"
proof -
  let ?s = "snd (refresh_commit env (t, u, roles) meta s)" and ?d = "rotated_db env t (db s)"
  have ok: "wf_tokens ?d" "one_live ?d"
    using assms(1) by (simp_all add: sessions_ok_def wf_update_tokens one_live_update ends_only_rotated)
  have fam: "\<forall>r\<in>set (db_rtokens ?d). live r \<longrightarrow> rt_FamilyID r \<noteq> rt_FamilyID t"
    using rotation_ends_family assms unfolding sessions_ok_def by blast
  consider "db ?s = db s" | "db ?s = ?d" | p where "adds_token (next_token env t u p) ?d (db ?s)"
    using refresh_commit_db by blast
  then show ?thesis
  proof cases
    case 1
    with assms(1) show ?thesis by (simp add: sessions_ok_def)
  next
    case 2
    with ok show ?thesis by (simp add: sessions_ok_def)
  next
    case (3 p)
    have "one_live (db ?s)" by (rule one_live_adds [OF 3 ok(2)]) (use fam in simp)
    with wf_adds [OF 3 ok(1)] show ?thesis by (simp add: sessions_ok_def)
  qed
qed

lemma sessions_ok_refresh: "sessions_ok s \<Longrightarrow> sessions_ok (snd (Refresh env plain meta s))"
proof (cases "refresh_check env plain meta s")
  case (Pair r s')
  assume ok: "sessions_ok s"
  show ?thesis
  proof (cases r)
    case (Inl e)
    with Pair ok refresh_check_Inl [of env plain meta s e s'] show ?thesis
      by (auto simp: Refresh_def sessions_ok_def wf_update_tokens one_live_update)
  next
    case (Inr x)
    with Pair ok refresh_check_Inr [of env plain meta s x s'] sessions_ok_commit [OF ok] show ?thesis
      by (auto simp: Refresh_def)
  qed
qed

lemma sessions_ok_logout: "sessions_ok s \<Longrightarrow> sessions_ok (Logout env plain meta s)"
  by (auto simp: Logout_def RevokeToken_def db_call_def write_audit_def sessions_ok_def
      wf_update_tokens one_live_update ends_only_revoked split: sum.splits option.splits)

lemma sessions_ok_step: "session_step s s' \<Longrightarrow> sessions_ok s \<Longrightarrow> sessions_ok s'"
  by (induction rule: session_step.induct)
    (auto simp: sessions_ok_login sessions_ok_refresh sessions_ok_logout RevokeAllForUser_def db_call_Inr
      intro: sessions_ok_update [OF ends_only_revoked])

lemma sessions_ok_steps: "session_step\<^sup>*\<^sup>* s s' \<Longrightarrow> sessions_ok s \<Longrightarrow> sessions_ok s'"
  by (induction rule: rtranclp_induct) (auto intro: sessions_ok_step)

text \<open>
  C20. One live token per session: however logins, refreshes, logouts and revocations follow one another,
  each with its own failures of the database, of the random source and of the signer, from a state
  with no refresh tokens, no two tokens of one family can both be exchanged.
\<close>

theorem one_live_token_per_family:
  assumes "session_step\<^sup>*\<^sup>* s s'" and "db_rtokens (db s) = []"
    and "t \<in> set (db_rtokens (db s'))" and "t' \<in> set (db_rtokens (db s'))" and "rt_FamilyID t = rt_FamilyID t'"
    and "rt_Usable now t" and "rt_Usable now t'"
  shows "t = t'"
proof -
  have "sessions_ok s" using assms(2) by (simp add: sessions_ok_def wf_tokens_def one_live_def)
  then have "one_live (db s')" using sessions_ok_steps [OF assms(1)] by (simp add: sessions_ok_def)
  with assms(3-7) one_live_unique [of "db s'" t' t] show ?thesis
    by (simp add: live_def rt_Compromised_def rt_Usable_def)
qed

subsection \<open>Rotation and reuse\<close>

definition faultless :: "iam_env \<Rightarrow> bool" where
  "faultless env \<longleftrightarrow> e_fault env = (\<lambda>c. None)"

lemma db_call_faultless [simp]: "faultless env \<Longrightarrow> db_call env c x = x"
  by (simp add: db_call_def faultless_def)

abbreviation revoked_family :: "gotime \<Rightarrow> string \<Rightarrow> iam_db \<Rightarrow> iam_db" where
  "revoked_family at fam d \<equiv>
     update_tokens (\<lambda>t. rt_FamilyID t = fam \<and> rt_RevokedAt t = None) (\<lambda>t. t\<lparr>rt_RevokedAt := Some at\<rparr>) d"

lemma GetByHash_mem:
  "wf_tokens d \<Longrightarrow> t \<in> set (db_rtokens d) \<Longrightarrow> rt_TokenHash t = h \<Longrightarrow> faultless env \<Longrightarrow> GetByHash env h d = Inr t"
  by (auto simp: GetByHash_def wf_tokens_def find_token)

lemma Refresh_compromised:
  assumes "wf_tokens (db s)" and "t \<in> set (db_rtokens (db s))" and "rt_TokenHash t = e_sha env plain"
    and "rt_Compromised t" and "faultless env"
  shows "fst (Refresh env plain meta s) = Inl errBadCredentials \<and>
    db (snd (Refresh env plain meta s)) = revoked_family (e_now env) (rt_FamilyID t) (db s)"
  using GetByHash_mem [OF assms(1-3,5)] assms(4,5)
  by (simp add: Refresh_def refresh_check_def RevokeFamily_def write_audit_def Let_def)

lemma Refresh_Inr:
  assumes "Refresh env plain meta s = (Inr r, s')"
  obtains t u roles where "refresh_check env plain meta s = (Inr (t, u, roles), s)"
    and "refresh_commit env (t, u, roles) meta s = (Inr r, s')"
proof -
  obtain x s0 where x: "refresh_check env plain meta s = (Inr x, s0)"
    using assms by (auto simp: Refresh_def split: prod.splits sum.splits)
  with refresh_check_Inr [OF x] assms that show thesis by (auto simp: Refresh_def)
qed

lemma Refresh_success:
  assumes "Refresh env plain meta s = (Inr r, s')" and "wf_tokens (db s)"
  obtains t t' where "wf_tokens (db s')" and "t \<in> set (db_rtokens (db s'))" and "t' \<in> set (db_rtokens (db s'))"
    and "rt_Compromised t" and "rt_TokenHash t = e_sha env plain" and "rt_FamilyID t' = rt_FamilyID t"
    and "rt_TokenHash t' = e_sha env (RefreshPlain r)"
proof -
  obtain t u roles where c: "refresh_check env plain meta s = (Inr (t, u, roles), s)"
    "refresh_commit env (t, u, roles) meta s = (Inr r, s')" using assms(1) by (rule Refresh_Inr)
  note t = refresh_check_Inr [OF c(1)]
  note n = refresh_commit_Inr [OF c(2)]
  show thesis
  proof (rule that)
    show "wf_tokens (db s')"
      using n assms(2) by (blast intro: wf_adds iffD2 [OF wf_update_tokens [OF ends_only_rotated]])
    show "t\<lparr>rt_RotatedAt := Some (e_now env)\<rparr> \<in> set (db_rtokens (db s'))"
      using n t by (auto simp: adds_token_def update_tokens_def)
    show "next_token env t u (RefreshPlain r) \<in> set (db_rtokens (db s'))"
      using n by (simp add: adds_token_def)
  qed (use t in \<open>auto simp: rt_Compromised_def login_token_def\<close>)
qed

lemma in_revoked_family:
  "t \<in> set (db_rtokens d) \<Longrightarrow> rt_FamilyID t = fam \<Longrightarrow>
   \<exists>r \<in> set (db_rtokens (revoked_family at fam d)). rt_TokenHash r = rt_TokenHash t \<and> rt_FamilyID r = fam \<and> rt_Compromised r"
  by (rule bexI [where x = "if rt_RevokedAt t = None then t\<lparr>rt_RevokedAt := Some at\<rparr> else t"])
    (auto simp: update_tokens_def rt_Compromised_def image_iff intro!: bexI [where x = t])

text \<open>
  C21. Reuse detection, when the stores answer on the reuse and later: once a refresh token has been exchanged,
  presenting it again is refused, and from then on the token it was exchanged for is refused too, at any later
  time and from any client. (The error of the revocation is ignored, so with a store that fails on the reuse the
  second part need not hold.)
\<close>

theorem refresh_reuse_ends_family:
  assumes "wf_tokens (db s)" and "Refresh env plain meta s = (Inr r, s1)"
    and "e_sha env1 = e_sha env" and "faultless env1" and "Refresh env1 plain meta1 s1 = (r2, s2)"
    and "e_sha env2 = e_sha env" and "faultless env2"
  shows "r2 = Inl errBadCredentials \<and> fst (Refresh env2 (RefreshPlain r) meta2 s2) = Inl errBadCredentials"
proof -
  obtain t t' where a: "wf_tokens (db s1)" "t \<in> set (db_rtokens (db s1))" "t' \<in> set (db_rtokens (db s1))"
    "rt_Compromised t" "rt_TokenHash t = e_sha env plain" "rt_FamilyID t' = rt_FamilyID t"
    "rt_TokenHash t' = e_sha env (RefreshPlain r)"
    using Refresh_success [OF assms(2,1)] .
  have first: "r2 = Inl errBadCredentials" "db s2 = revoked_family (e_now env1) (rt_FamilyID t) (db s1)"
    using Refresh_compromised [OF a(1,2), of env1 plain meta1] a(4,5) assms(3-5) by simp_all
  obtain q where q: "q \<in> set (db_rtokens (db s2))" "rt_TokenHash q = rt_TokenHash t'" "rt_Compromised q"
    using in_revoked_family [OF a(3,6)] first(2) by auto
  have "wf_tokens (db s2)" using a(1) first(2) by (simp add: wf_update_tokens ends_only_revoked)
  from Refresh_compromised [OF this q(1), of env2 "RefreshPlain r" meta2] q a(7) assms(6,7) first(1)
  show ?thesis by simp
qed

subsection \<open>A concrete deployment\<close>

text \<open>One administrator; hashing, digests and random bytes are visible; upper-case A folds to a.\<close>

definition demo_env :: "gotime \<Rightarrow> string \<Rightarrow> iam_env" where
  "demo_env now r = \<lparr>e_now = now, e_verify = (\<lambda>p h. Inr (p = h)), e_hash = Inr, e_sha = (\<lambda>p. CHR ''#'' # p),
     e_issue = (\<lambda>u n t rs. Inr u), e_ttl = 900000000000, e_rand = Inr r, e_id = (\<lambda>p. p @ r),
     e_fold = List.map (\<lambda>c. if c = CHR ''A'' then CHR ''a'' else c), e_collate = (\<lambda>rs. rs), e_fault = (\<lambda>c. None)\<rparr>"

definition demo_admin :: User where
  "demo_admin = \<lparr>u_ID = ''u1'', u_TenantID = defaultTenant, u_Username = ''admin'', u_Email = ''admin@x'',
     u_PasswordHash = ''right'', u_DisplayName = ''Administrator'', u_Status = UserActive,
     u_PasswordChangeRequired = False, u_LastLoginAt = None\<rparr>"

definition demo_state :: iam where
  "demo_state = \<lparr>db = \<lparr>db_users = [demo_admin], db_roles = [(''role_admin'', ''admin'')],
     db_user_roles = [(''u1'', ''role_admin'')], db_rtokens = [], db_atokens = []\<rparr>, lock = NewMemory, audit = []\<rparr>"

lemma demo_faultless [simp]: "faultless (demo_env now r)"
  by (simp add: faultless_def demo_env_def)

lemma demo_env_simps [simp]:
  "e_now (demo_env now r) = now" "e_verify (demo_env now r) p h = Inr (p = h)" "e_sha (demo_env now r) p = CHR ''#'' # p"
  "e_issue (demo_env now r) u n t rs = Inr u" "e_rand (demo_env now r) = Inr r" "e_id (demo_env now r) p = p @ r"
  "e_collate (demo_env now r) rs = rs" "e_fold (demo_env now r) n = List.map (\<lambda>c. if c = CHR ''A'' then CHR ''a'' else c) n"
  "e_ttl (demo_env now r) = 900000000000"
  by (simp_all add: demo_env_def)

lemmas request_defs = Login_def login_ok_def Refresh_def refresh_check_def refresh_commit_def GetByUsername_def GetByID_def
  GetByHash_def RoleNames_def scanUser_def newRefreshToken_def InsertToken_def RecordLogin_def MarkRotated_def
  update_tokens_def write_audit_def mem_Locked_def mem_Reset_def NewMemory_def CanLogin_def rt_Compromised_def rt_Usable_def

definition demo_login :: iam where
  "demo_login = snd (Login (demo_env 0 ''a'') ''admin'' ''right'' no_meta demo_state)"

lemma demo_login_tokens:
  "db demo_login = (db demo_state)\<lparr>db_users := [demo_admin\<lparr>u_LastLoginAt := Some 0\<rparr>],
     db_rtokens := [login_token (demo_env 0 ''a'') ''u1'' ''a'']\<rparr>"
  by (simp add: demo_login_def demo_state_def demo_admin_def login_token_def request_defs)

lemma demo_login_steps: "session_step\<^sup>*\<^sup>* demo_state demo_login"
  unfolding demo_login_def by (rule r_into_rtranclp) (rule step_login, simp add: demo_state_def)

theorem one_live_token_per_family_witness:
  "session_step\<^sup>*\<^sup>* demo_state demo_login \<and>
   (\<exists>t. t \<in> set (db_rtokens (db demo_login)) \<and> rt_Usable 5 t \<and>
      {t' \<in> set (db_rtokens (db demo_login)). rt_FamilyID t' = rt_FamilyID t \<and> rt_Usable 5 t'} = {t})"
proof -
  let ?t = "login_token (demo_env 0 ''a'') ''u1'' ''a''"
  have t: "?t \<in> set (db_rtokens (db demo_login))" by (simp add: demo_login_tokens)
  have u: "rt_Usable 5 ?t" by (simp add: rt_Usable_def login_token_def refreshTTL_def nanos_per_min_def)
  have "t' = ?t" if "t' \<in> set (db_rtokens (db demo_login))" "rt_FamilyID t' = rt_FamilyID ?t" "rt_Usable 5 t'" for t'
    by (rule one_live_token_per_family [OF demo_login_steps _ that(1) t that(2,3) u]) (simp add: demo_state_def)
  with t u demo_login_steps show ?thesis by blast
qed

lemma demo_refresh:
  "Refresh (demo_env 1 ''b'') ''a'' no_meta demo_login =
     (Inr \<lparr>AccessToken = ''u1'', ExpiresIn = 900, RefreshPlain = ''b'', LUser = demo_admin\<lparr>u_LastLoginAt := Some 0\<rparr>,
        LRoles = [''admin''], PasswordChangeRequired = False\<rparr>, snd (Refresh (demo_env 1 ''b'') ''a'' no_meta demo_login))"
  by (simp add: demo_login_tokens demo_state_def demo_admin_def login_token_def request_defs refreshTTL_def nanos_per_min_def)

theorem refresh_reuse_ends_family_witness:
  "let s1 = snd (Refresh (demo_env 1 ''b'') ''a'' no_meta demo_login);
       s2 = snd (Refresh (demo_env 2 ''c'') ''a'' no_meta s1)
   in fst (Refresh (demo_env 2 ''c'') ''a'' no_meta s1) = Inl errBadCredentials \<and>
      fst (Refresh (demo_env 3 ''d'') ''b'' no_meta s2) = Inl errBadCredentials"
proof -
  have "wf_tokens (db demo_login)" by (simp add: wf_tokens_def demo_login_tokens)
  from refresh_reuse_ends_family [OF this demo_refresh, of "demo_env 2 ''c''" no_meta _ _ "demo_env 3 ''d''" no_meta]
  show ?thesis by (simp add: demo_env_def faultless_def Let_def prod_eq_iff)
qed

subsection \<open>Overlapping refreshes\<close>

text \<open>
  \<open>MarkRotated\<close> does not ask whether the row is still unrotated, and \<open>Refresh\<close> runs outside a transaction.
\<close>

lemma update_tokens_ids:
  assumes "ends_only f"
  shows "rt_ID ` set (db_rtokens (update_tokens P f d)) = rt_ID ` set (db_rtokens d)"
    and "rt_TokenHash ` set (db_rtokens (update_tokens P f d)) = rt_TokenHash ` set (db_rtokens d)"
proof -
  have "List.map rt_ID (db_rtokens (update_tokens P f d)) = List.map rt_ID (db_rtokens d)"
    "List.map rt_TokenHash (db_rtokens (update_tokens P f d)) = List.map rt_TokenHash (db_rtokens d)"
    using assms by (simp_all add: update_tokens_def ends_only_def)
  then show "rt_ID ` set (db_rtokens (update_tokens P f d)) = rt_ID ` set (db_rtokens d)"
    and "rt_TokenHash ` set (db_rtokens (update_tokens P f d)) = rt_TokenHash ` set (db_rtokens d)"
    by (metis set_map)+
qed

lemmas rotated_ids = update_tokens_ids [OF ends_only_rotated]

lemma InsertToken_fresh:
  "faultless env \<Longrightarrow> rt_ID t \<notin> rt_ID ` set (db_rtokens d) \<Longrightarrow> rt_TokenHash t \<notin> rt_TokenHash ` set (db_rtokens d) \<Longrightarrow>
   rt_UserID t \<in> u_ID ` set (db_users d) \<Longrightarrow>
   InsertToken env t d = Inr (d\<lparr>db_rtokens := db_rtokens d @ [t\<lparr>rt_RotatedAt := None, rt_RevokedAt := None\<rparr>]\<rparr>)"
  by (auto simp: InsertToken_def list_ex_iff rev_image_eqI)

lemma commit_succeeds:
  assumes "faultless env" and "e_rand env = Inr p" and "\<exists>a. e_issue env (u_ID u) (u_Username u) (u_TenantID u) roles = Inr a"
    and "rt_ID (next_token env t u p) \<notin> rt_ID ` set (db_rtokens (db s))"
    and "rt_TokenHash (next_token env t u p) \<notin> rt_TokenHash ` set (db_rtokens (db s))"
    and "u_ID u \<in> u_ID ` set (db_users (db s))"
  shows "\<exists>r s'. refresh_commit env (t, u, roles) meta s = (Inr r, s') \<and> RefreshPlain r = p \<and> db_users (db s') = db_users (db s) \<and>
    db_rtokens (db s') = db_rtokens (rotated_db env t (db s)) @ [next_token env t u p]"
proof -
  have "InsertToken env (next_token env t u p) (rotated_db env t (db s)) =
    Inr ((rotated_db env t (db s))\<lparr>db_rtokens := db_rtokens (rotated_db env t (db s)) @ [next_token env t u p]\<rparr>)"
    using assms(1,4-6) InsertToken_fresh [of env "next_token env t u p" "rotated_db env t (db s)"]
    by (simp add: rotated_ids login_token_def)
  moreover have "newRefreshToken env (u_ID u) (rt_FamilyID t) = Inr (p, next_token env t u p)"
    using assms(2) by (simp add: newRefreshToken_Inr)
  ultimately show ?thesis using assms(1,3)
    by (auto simp: refresh_commit_def MarkRotated_def write_audit_def Let_def)
qed

text \<open>
  The race: two requests that present one refresh token and both read it before either has
  rotated it are both answered with a session. Afterwards the family has two tokens that can be
  exchanged, so the token was not single-use and no reuse was detected.
\<close>

theorem refresh_race:
  assumes "refresh_check env1 plain meta1 s = (Inr (t, u, roles), s)"
    and "refresh_check env2 plain meta2 s = (Inr (t, u, roles), s)"
    and "wf_tokens (db s)" and "faultless env1" and "faultless env2"
    and "e_rand env1 = Inr p1" and "e_rand env2 = Inr p2"
    and "\<And>env. env \<in> {env1, env2} \<Longrightarrow> \<exists>a. e_issue env (u_ID u) (u_Username u) (u_TenantID u) roles = Inr a"
    and "distinct (e_id env2 ''rt'' # e_id env1 ''rt'' # List.map rt_ID (db_rtokens (db s)))"
    and "distinct (e_sha env2 p2 # e_sha env1 p1 # List.map rt_TokenHash (db_rtokens (db s)))"
  shows "\<exists>r1 s1 r2 s2. refresh_commit env1 (t, u, roles) meta1 s = (Inr r1, s1) \<and>
    refresh_commit env2 (t, u, roles) meta2 s1 = (Inr r2, s2) \<and> \<not> one_live (db s2)"
proof -
  note t = refresh_check_Inr [OF assms(1)]
  let ?n1 = "next_token env1 t u p1" and ?n2 = "next_token env2 t u p2"
  have u: "u_ID u \<in> u_ID ` set (db_users (db s))" using t imageI by blast
  obtain r1 s1 where c1: "refresh_commit env1 (t, u, roles) meta1 s = (Inr r1, s1)" "db_users (db s1) = db_users (db s)"
    "db_rtokens (db s1) = db_rtokens (rotated_db env1 t (db s)) @ [?n1]"
    using commit_succeeds [OF assms(4,6) _ _ _ u, of roles t meta1] assms(8-10) by (auto simp: login_token_def)
  then have "rt_ID ?n2 \<notin> rt_ID ` set (db_rtokens (db s1))" "rt_TokenHash ?n2 \<notin> rt_TokenHash ` set (db_rtokens (db s1))"
    using assms(9,10) by (simp_all add: login_token_def rotated_ids)
  with commit_succeeds [OF assms(5,7), of u roles t s1 meta2] assms(8) u c1(2)
  obtain r2 s2 where c2: "refresh_commit env2 (t, u, roles) meta2 s1 = (Inr r2, s2)"
    "db_rtokens (db s2) = db_rtokens (rotated_db env2 t (db s1)) @ [?n2]" by auto
  have "e_id env1 ''rt'' \<noteq> rt_ID t" using assms(9) t by auto
  then have "?n1 \<in> set (db_rtokens (rotated_db env2 t (db s1)))"
    using c1(3) by (auto simp: update_tokens_def login_token_def)
  then have "\<not> one_live (db s2)" using c2(2) by (auto simp: one_live_def intro!: image_eqI [where x = ?n1])
  with c1(1) c2(1) show ?thesis by blast
qed

theorem refresh_race_witness:
  "\<exists>x r1 s1 r2 s2. refresh_check (demo_env 1 ''b'') ''a'' no_meta demo_login = (Inr x, demo_login) \<and>
     refresh_check (demo_env 1 ''c'') ''a'' no_meta demo_login = (Inr x, demo_login) \<and>
     refresh_commit (demo_env 1 ''b'') x no_meta demo_login = (Inr r1, s1) \<and>
     refresh_commit (demo_env 1 ''c'') x no_meta s1 = (Inr r2, s2) \<and> \<not> one_live (db s2)"
proof -
  let ?x = "(login_token (demo_env 0 ''a'') ''u1'' ''a'', demo_admin\<lparr>u_LastLoginAt := Some 0\<rparr>, [''admin''])"
  have c: "refresh_check (demo_env 1 r) ''a'' no_meta demo_login = (Inr ?x, demo_login)" for r
    by (simp add: demo_login_tokens demo_state_def demo_admin_def login_token_def request_defs refreshTTL_def nanos_per_min_def)
  from refresh_race [OF c [of "''b''"] c [of "''c''"], of "''b''" "''c''"] c [of "''b''"] c [of "''c''"]
  show ?thesis by (fastforce simp: wf_tokens_def demo_login_tokens login_token_def)
qed

subsection \<open>Who can log in\<close>

definition healthy :: "iam_env \<Rightarrow> iam_db \<Rightarrow> bool" where
  "healthy env d \<longleftrightarrow> faultless env \<and> (\<forall>p h. \<exists>b. e_verify env p h = Inr b) \<and> (\<forall>u n t rs. \<exists>a. e_issue env u n t rs = Inr a) \<and>
     (\<exists>p. e_rand env = Inr p \<and> e_sha env p \<notin> rt_TokenHash ` set (db_rtokens d)) \<and>
     e_id env ''rt'' \<notin> rt_ID ` set (db_rtokens d)"

definition entitled :: "iam_env \<Rightarrow> string \<Rightarrow> string \<Rightarrow> User \<Rightarrow> iam \<Rightarrow> bool" where
  "entitled env name pw u s \<longleftrightarrow> \<not> mem_Locked (e_now env) name (lock s) \<and> u \<in> set (db_users (db s)) \<and>
     e_fold env (u_Username u) = e_fold env name \<and> e_verify env pw (u_PasswordHash u) = Inr True \<and> u_Status u = UserActive"

lemma GetByUsername_Inr:
  "GetByUsername env name d = Inr u \<Longrightarrow> u \<in> set (db_users d) \<and> e_fold env (u_Username u) = e_fold env name"
  by (auto simp: GetByUsername_def db_call_Inr scanUser_def find_Some_iff split: option.splits)

lemma login_ok_user: "fst (login_ok env name u meta s) = Inr r \<Longrightarrow> LUser r = u"
  by (auto simp: login_ok_def Let_def split: sum.splits prod.splits)

lemma Login_Inr:
  "fst (Login env name pw meta s) = Inr r \<Longrightarrow> entitled env name pw (LUser r) s"
  by (auto simp: Login_def entitled_def CanLogin_def dest!: GetByUsername_Inr login_ok_user split: if_splits sum.splits)

lemma login_ok_succeeds:
  assumes "healthy env (db s)" and "u \<in> set (db_users (db s))"
  shows "\<exists>r. fst (login_ok env name u meta s) = Inr r"
proof -
  obtain p where p: "e_rand env = Inr p" "e_sha env p \<notin> rt_TokenHash ` set (db_rtokens (db s))"
    using assms(1) by (auto simp: healthy_def)
  obtain a where a: "e_issue env (u_ID u) (u_Username u) (u_TenantID u) rs = Inr (a rs)" for rs
    using assms(1) unfolding healthy_def by metis
  have "InsertToken env (login_token env (u_ID u) p) (db s) =
    Inr ((db s)\<lparr>db_rtokens := db_rtokens (db s) @ [login_token env (u_ID u) p]\<rparr>)"
    using InsertToken_fresh [of env "login_token env (u_ID u) p" "db s"] assms p
    by (simp add: healthy_def login_token_def)
  moreover have "newRefreshToken env (u_ID u) (e_id env ''fam'') = Inr (p, login_token env (u_ID u) p)"
    using p by (simp add: newRefreshToken_Inr login_family)
  ultimately show ?thesis using assms(1) a
    by (auto simp: login_ok_def healthy_def RoleNames_def RecordLogin_def Let_def)
qed

text \<open>The unique constraints of the users table.\<close>

definition wf_users :: "iam_env \<Rightarrow> iam_db \<Rightarrow> bool" where
  "wf_users env d \<longleftrightarrow> distinct (map (\<lambda>u. e_fold env (u_Username u)) (db_users d)) \<and> distinct (map u_ID (db_users d))"

lemma GetByUsername_mem:
  assumes "faultless env" and "wf_users env d" and "u \<in> set (db_users d)" and "e_fold env (u_Username u) = e_fold env name"
  shows "GetByUsername env name d = Inr u"
proof -
  have "find (\<lambda>u. e_fold env (u_Username u) = e_fold env name) us = Some u"
    if "distinct (map (\<lambda>u. e_fold env (u_Username u)) us)" "u \<in> set us" for us
    using that assms(4) by (induction us) force+
  with assms show ?thesis by (simp add: GetByUsername_def scanUser_def wf_users_def)
qed

lemma Login_entitled:
  assumes "healthy env (db s)" and "wf_users env (db s)" and "entitled env name pw u s"
  shows "\<exists>r. fst (Login env name pw meta s) = Inr r"
proof -
  have "GetByUsername env name (db s) = Inr u"
    by (rule GetByUsername_mem) (use assms in \<open>auto simp: healthy_def entitled_def\<close>)
  with assms(3) login_ok_succeeds [OF assms(1)] show ?thesis
    by (auto simp: Login_def entitled_def CanLogin_def)
qed

text \<open>
  Who gets a session: when the services the login depends on answer, a login succeeds exactly when
  the typed name is not locked, an account of that name (up to case) exists, the password verifies
  against its hash and the account is active; and the session is that account's.
\<close>

theorem Login_exactly_when:
  assumes "healthy env (db s)" and "wf_users env (db s)"
  shows "(\<exists>r. fst (Login env name pw meta s) = Inr r \<and> LUser r = u) \<longleftrightarrow> entitled env name pw u s"
proof
  assume "entitled env name pw u s"
  with Login_entitled [OF assms] obtain r where r: "fst (Login env name pw meta s) = Inr r" by blast
  have eq: "GetByUsername env name (db s) = Inr v" if "entitled env name pw v s" for v
    by (rule GetByUsername_mem) (use assms that in \<open>auto simp: healthy_def entitled_def\<close>)
  from eq [OF Login_Inr [OF r]] eq [OF \<open>entitled env name pw u s\<close>] have "LUser r = u" by simp
  with r show "\<exists>r. fst (Login env name pw meta s) = Inr r \<and> LUser r = u" by blast
qed (use Login_Inr in blast)

theorem Login_exactly_when_witness:
  "(\<exists>r. fst (Login (demo_env 0 ''a'') ''Admin'' ''right'' no_meta demo_state) = Inr r \<and> LUser r = demo_admin) \<and>
   \<not> (\<exists>r. fst (Login (demo_env 0 ''a'') ''admin'' ''wrong'' no_meta demo_state) = Inr r \<and> LUser r = demo_admin)"
proof -
  have "healthy (demo_env 0 ''a'') (db demo_state)" "wf_users (demo_env 0 ''a'') (db demo_state)"
    by (simp_all add: healthy_def wf_users_def demo_state_def)
  from Login_exactly_when [OF this, of "''Admin''" "''right''" no_meta demo_admin]
    Login_exactly_when [OF this, of "''admin''" "''wrong''" no_meta demo_admin]
  show ?thesis by (simp add: entitled_def demo_state_def demo_admin_def mem_Locked_def NewMemory_def)
qed

subsection \<open>The lock and the spelling of a name\<close>

definition attempts :: "iam_env \<Rightarrow> string \<Rightarrow> string list \<Rightarrow> ClientMeta \<Rightarrow> iam \<Rightarrow> iam" where
  "attempts env name pws meta s = foldl (\<lambda>s pw. snd (Login env name pw meta s)) s pws"

lemma bad_login:
  assumes "faultless env" and "\<And>u. u \<in> set (db_users (db s)) \<Longrightarrow> e_verify env pw (u_PasswordHash u) = Inr False"
  shows "db (snd (Login env name pw meta s)) = db s \<and>
    lock (snd (Login env name pw meta s)) = ml.guarded_fail (e_now env) name (lock s)"
proof (cases "GetByUsername env name (db s)")
  case (Inl e)
  then have "KindOf (Some e) = KindNotFound"
    using assms(1) by (auto simp: GetByUsername_def scanUser_def split: option.splits)
  with Inl show ?thesis
    by (auto simp: Login_def ml.guarded_fail_def login_failed_def write_audit_def Let_def split: prod.splits)
next
  case (Inr u)
  with assms(2) GetByUsername_Inr [OF Inr] show ?thesis
    by (auto simp: Login_def ml.guarded_fail_def login_failed_def write_audit_def Let_def split: prod.splits)
qed

lemma bad_attempts:
  assumes "faultless env" and "\<And>pw u. pw \<in> set pws \<Longrightarrow> u \<in> set (db_users (db s)) \<Longrightarrow> e_verify env pw (u_PasswordHash u) = Inr False"
  shows "db (attempts env name pws meta s) = db s \<and>
    lock (attempts env name pws meta s) = (ml.guarded_fail (e_now env) name ^^ length pws) (lock s)"
  using assms(2)
proof (induction pws rule: rev_induct)
  case (snoc pw pws)
  then show ?case using bad_login [OF assms(1), where pw = pw and name = name and meta = meta and s = "attempts env name pws meta s"]
    by (simp add: attempts_def)
qed (simp add: attempts_def)

lemma Login_outcome_cong:
  "db s' = db s \<Longrightarrow> mem_Locked (e_now env) name (lock s') = mem_Locked (e_now env) name (lock s) \<Longrightarrow>
   fst (Login env name pw meta s') = fst (Login env name pw meta s)"
  by (auto simp: Login_def login_ok_def Let_def split: sum.splits prod.splits)

text \<open>
  The lock follows the spelling, not the account: names that the database takes for one account but
  that differ in case are counted apart. After any number of wrong passwords under one spelling, and
  once that spelling is locked (from the fifth on), a login under the other spelling has exactly the
  outcome it would have had without them.
\<close>

theorem lock_per_spelling:
  assumes "faultless env" and "a \<noteq> b" and "e_fold env a = e_fold env b"
    and "\<And>pw u. pw \<in> set pws \<Longrightarrow> u \<in> set (db_users (db s)) \<Longrightarrow> e_verify env pw (u_PasswordHash u) = Inr False" and "mem_fails (e_now env) a (lock s) = 0"
  shows "GetByUsername env a (db s) = GetByUsername env b (db s) \<and>
    (5 \<le> length pws \<longrightarrow> fst (Login env a pw meta (attempts env a pws meta s)) = Inl ErrLocked) \<and>
    fst (Login env b pw meta (attempts env a pws meta s)) = fst (Login env b pw meta s)"
proof -
  note b = bad_attempts [OF assms(1,4), where pws = pws and name = a and meta = meta and s = s]
  have "fst (Login env b pw meta (attempts env a pws meta s)) = fst (Login env b pw meta s)"
    by (rule Login_outcome_cong) (use b assms(2) in \<open>simp_all add: ml.guarded_other\<close>)
  moreover have "mem_Locked (e_now env) a (lock (attempts env a pws meta s)) \<longleftrightarrow> 5 \<le> length pws"
    using b ml.guarded_fails [OF assms(5), of "length pws"] by (simp add: LockThreshold_def)
  ultimately show ?thesis using assms(3) by (auto simp: GetByUsername_def Login_def)
qed

theorem lock_per_spelling_witness:
  "let s = attempts (demo_env 0 ''a'') ''admin'' (replicate 5 ''guess'') no_meta demo_state
   in fst (Login (demo_env 0 ''a'') ''admin'' ''right'' no_meta s) = Inl ErrLocked \<and>
      (\<exists>r. fst (Login (demo_env 0 ''a'') ''Admin'' ''right'' no_meta s) = Inr r \<and> LUser r = demo_admin)"
proof -
  have "fst (Login (demo_env 0 ''a'') ''Admin'' ''right'' no_meta demo_state) = Inr \<lparr>AccessToken = ''u1'', ExpiresIn = 900,
      RefreshPlain = ''a'', LUser = demo_admin, LRoles = [''admin''], PasswordChangeRequired = False\<rparr>"
    by (simp add: demo_state_def demo_admin_def request_defs)
  with lock_per_spelling [of "demo_env 0 ''a''" "''admin''" "''Admin''" "replicate 5 ''guess''" demo_state "''right''" no_meta]
  show ?thesis by (simp add: Let_def demo_state_def demo_admin_def mem_fails_def NewMemory_def)
qed

end
