(* ===== verification/IAM_Access.thy ===== *)
theory IAM_Access
  imports IAM_Auth
begin

text \<open>
  Authorisation and user administration: permission checking (\<open>internal/platform/authz\<close>), the claims
  of a caller (\<open>internal/platform/authn\<close>), the HTTP gates and error statuses
  (\<open>internal/platform/httpx\<close>), personal API tokens (\<open>internal/iam/app/apitokens.go\<close> and their table)
  and the user service (\<open>internal/iam/app/users.go\<close> and its statements in \<open>admin.go\<close>).

  The locale \<open>checker\<close> is the \<open>Checker\<close> interface's contract, failing closed on unknown roles; it is
  interpreted on the cached checker of the API server and on the fixed map of the tests. The signature
  check of an access token is a parameter.

  Shown: an API token never reaches anything its scopes or its owner's current roles do not, and
  deactivating an account ends every way in at once, even when revoking its tokens fails.
\<close>

subsection \<open>Permissions\<close>

definition authz_All :: "string list" where
  "authz_All = [''devices:read'', ''devices:write'', ''devices:admin'', ''metrics:read'', ''maps:read'', ''maps:write'',
     ''alerts:read'', ''alerts:ack'', ''alerts:admin'', ''credentials:read'', ''credentials:write'',
     ''platform:read'', ''platform:write'', ''users:read'', ''users:write'', ''settings:write'',
     ''audit:read'', ''exports:run'']"

type_synonym permset = "(string, bool) gomap"
type_synonym PGChecker = "(string, permset) gomap"

text \<open>A row of \<open>iam.roles\<close> scans to an error or a name with its permissions, themselves an error when the JSON is bad.\<close>

primrec load_rows :: "(goerr + string \<times> (goerr + string list)) list \<Rightarrow> PGChecker \<Rightarrow> goerr + PGChecker" where
  "load_rows [] nxt = Inr nxt"
| "load_rows (r # rs) nxt =
     (case r of Inl e \<Rightarrow> Inl e
      | Inr (name, raw) \<Rightarrow> (case raw of Inl e \<Rightarrow> Inl e
          | Inr perms \<Rightarrow> load_rows rs (AList.update name (foldl (\<lambda>m p. AList.update p True m) [] perms) nxt)))"

definition checker_load ::
  "goerr + (goerr + string \<times> (goerr + string list)) list \<times> goerr option \<Rightarrow> PGChecker \<Rightarrow> goerr option \<times> PGChecker" where
  "checker_load query c =
     (case query of Inl e \<Rightarrow> (Some e, c)
      | Inr (rows, rows_err) \<Rightarrow> (case load_rows rows [] of Inl e \<Rightarrow> (Some e, c)
          | Inr nxt \<Rightarrow> (case rows_err of Some e \<Rightarrow> (Some e, c) | None \<Rightarrow> (None, nxt))))"

definition flag :: "permset \<Rightarrow> string \<Rightarrow> bool" where
  "flag s p = (case map_of s p of None \<Rightarrow> False | Some b \<Rightarrow> b)"

primrec pg_Has :: "PGChecker \<Rightarrow> string list \<Rightarrow> string \<Rightarrow> bool" where
  "pg_Has c [] perm = False"
| "pg_Has c (r # rs) perm =
     (case map_of c r of None \<Rightarrow> pg_Has c rs perm
      | Some s \<Rightarrow> if flag s ''*'' \<or> flag s perm then True else pg_Has c rs perm)"

definition static_Has :: "(string, string list) gomap \<Rightarrow> string list \<Rightarrow> string \<Rightarrow> bool" where
  "static_Has m roles perm =
     list_ex (\<lambda>r. list_ex (\<lambda>p. p = ''*'' \<or> p = perm) (case map_of m r of None \<Rightarrow> [] | Some ps \<Rightarrow> ps)) roles"

subsection \<open>Claims and gates\<close>

record Claims =
  c_Username :: string
  c_Roles :: "string list"
  c_Tenant :: string
  c_Subject :: string
  c_APITokenID :: string
  c_Scopes :: "string list option"

definition Allows :: "Claims \<Rightarrow> string \<Rightarrow> bool" where
  "Allows c perm = (case c_Scopes c of None \<Rightarrow> True | Some ss \<Rightarrow> list_ex (\<lambda>s. s = perm) ss)"

definition Interactive :: "Claims \<Rightarrow> bool" where
  "Interactive c \<longleftrightarrow> c_APITokenID c = []"

definition APITokenPrefix :: string where "APITokenPrefix = ''nv_''"

definition IsAPIToken :: "string \<Rightarrow> bool" where
  "IsAPIToken raw \<longleftrightarrow> take (length APITokenPrefix) raw = APITokenPrefix"

definition NewAPIToken :: "iam_env \<Rightarrow> goerr + string \<times> string" where
  "NewAPIToken env = (case e_rand env of Inl e \<Rightarrow> Inl e
     | Inr b \<Rightarrow> let plain = APITokenPrefix @ b in Inr (plain, e_sha env plain))"

text \<open>The chain with both verifiers; verifying an API token may write.\<close>

definition chain_Verify ::
  "(string \<Rightarrow> goerr + Claims) \<Rightarrow> (string \<Rightarrow> 's \<Rightarrow> (goerr + Claims) \<times> 's) \<Rightarrow> string \<Rightarrow> 's \<Rightarrow> (goerr + Claims) \<times> 's" where
  "chain_Verify jwt api raw s = (if IsAPIToken raw then api raw s else (jwt raw, s))"

definition bearer_prefix :: string where "bearer_prefix = ''Bearer ''"

definition RequireAuth ::
  "(string \<Rightarrow> 's \<Rightarrow> (goerr + Claims) \<times> 's) \<Rightarrow> string \<Rightarrow> 's \<Rightarrow> (goerr + Claims) \<times> 's" where
  "RequireAuth verify raw s =
     (if length raw \<le> length bearer_prefix \<or> take (length bearer_prefix) raw \<noteq> bearer_prefix
      then (Inl (errx_New KindUnauthorized ''missing bearer token''), s)
      else verify (drop (length bearer_prefix) raw) s)"

definition RequirePerm :: "(string list \<Rightarrow> string \<Rightarrow> bool) \<Rightarrow> string \<Rightarrow> Claims \<Rightarrow> goerr option" where
  "RequirePerm has perm c =
     (if \<not> has (c_Roles c) perm \<or> \<not> Allows c perm
      then Some (errx_New KindForbidden (''missing permission: '' @ perm)) else None)"

definition RequireInteractive :: "Claims \<Rightarrow> goerr option" where
  "RequireInteractive c =
     (if \<not> Interactive c then Some (errx_New KindForbidden ''not available to API tokens; sign in'') else None)"

text \<open>The status, code and message of an HTTP error.\<close>

definition error_status :: "goerr \<Rightarrow> nat \<times> string \<times> string" where
  "error_status err = (case KindOf (Some err) of
       KindInvalid \<Rightarrow> (422, ''validation_failed'', err_text err)
     | KindUnauthorized \<Rightarrow> (401, ''unauthorized'', ''authentication required or invalid'')
     | KindForbidden \<Rightarrow> (403, ''forbidden'', err_text err)
     | KindNotFound \<Rightarrow> (404, ''not_found'', ''resource not found'')
     | KindConflict \<Rightarrow> (409, ''conflict'', err_text err)
     | KindTransient \<Rightarrow> (503, ''unavailable'', ''temporarily unavailable'')
     | _ \<Rightarrow> (500, ''internal'', ''internal error''))"

subsection \<open>API tokens\<close>

definition InsertAPI :: "iam_env \<Rightarrow> APIToken \<Rightarrow> iam_db \<Rightarrow> goerr + iam_db" where
  "InsertAPI env t d = db_call env CallInsertAPI
     (if list_ex (\<lambda>r. at_ID r = at_ID t \<or> at_TokenHash r = at_TokenHash t) (db_atokens d) \<or>
         at_UserID t \<notin> u_ID ` set (db_users d)
      then Inl (KindError KindTransient (ErrMsg ''insert api token'' (ErrLeaf ''constraint'')))
      else Inr (d\<lparr>db_atokens := db_atokens d @ [t\<lparr>at_LastUsedAt := None, at_RevokedAt := None\<rparr>]\<rparr>))"

definition revocable :: "string \<Rightarrow> string \<Rightarrow> APIToken \<Rightarrow> bool" where
  "revocable uid i t \<longleftrightarrow> at_ID t = i \<and> at_UserID t = uid \<and> at_RevokedAt t = None"

definition RevokeAPI :: "iam_env \<Rightarrow> string \<Rightarrow> string \<Rightarrow> gotime \<Rightarrow> iam_db \<Rightarrow> goerr + iam_db" where
  "RevokeAPI env uid i at d = db_call env CallRevokeAPI
     (if list_ex (revocable uid i) (db_atokens d)
      then Inr (d\<lparr>db_atokens := map (\<lambda>t. if revocable uid i t then t\<lparr>at_RevokedAt := Some at\<rparr> else t) (db_atokens d)\<rparr>)
      else Inl (errx_New KindNotFound ''api token not found''))"

definition owner_roles :: "iam_env \<Rightarrow> string \<Rightarrow> iam_db \<Rightarrow> string list" where
  "owner_roles env uid d = e_collate env (map snd (filter (\<lambda>(i, n). (uid, i) \<in> set (db_user_roles d)) (db_roles d)))"

definition LookupAPI :: "iam_env \<Rightarrow> string \<Rightarrow> iam_db \<Rightarrow> goerr + APIToken \<times> TokenOwner" where
  "LookupAPI env h d = db_call env CallLookupAPI
     (case find (\<lambda>t. at_TokenHash t = h) (db_atokens d) of
        None \<Rightarrow> Inl (errx_New KindNotFound ''api token not found'')
      | Some t \<Rightarrow> (case find (\<lambda>u. u_ID u = at_UserID t) (db_users d) of
          None \<Rightarrow> Inl (errx_New KindNotFound ''api token not found'')
        | Some u \<Rightarrow> Inr (t, \<lparr>o_Username = u_Username u, o_TenantID = u_TenantID u, o_Status = u_Status u,
            o_Roles = owner_roles env (u_ID u) d\<rparr>)))"

definition TouchAPI :: "iam_env \<Rightarrow> string \<Rightarrow> gotime \<Rightarrow> iam_db \<Rightarrow> goerr + iam_db" where
  "TouchAPI env i at d = db_call env CallTouchAPI (Inr (d\<lparr>db_atokens :=
     map (\<lambda>t. if at_ID t = i \<and> (case at_LastUsedAt t of None \<Rightarrow> True | Some x \<Rightarrow> x < at - nanos_per_min)
              then t\<lparr>at_LastUsedAt := Some at\<rparr> else t) (db_atokens d)\<rparr>))"

record CreateAPITokenCmd =
  ct_Name :: string
  ct_Scopes :: "string list"
  ct_ExpiresAt :: "gotime option"
  ct_Meta :: ClientMeta

definition quoted :: "string \<Rightarrow> string" where
  "quoted s = CHR 0x22 # s @ [CHR 0x22]"

primrec scopes_loop :: "(string list \<Rightarrow> string \<Rightarrow> bool) \<Rightarrow> string list \<Rightarrow> string list \<Rightarrow> string list \<Rightarrow> goerr + string list" where
  "scopes_loop has roles [] scopes = Inr scopes"
| "scopes_loop has roles (sc # rest) scopes =
     (if sc \<notin> set authz_All then Inl (errx_New KindInvalid (''unknown scope '' @ quoted sc))
      else if \<not> has roles sc then Inl (errx_New KindInvalid (''scope '' @ quoted sc @ '' is not one of your permissions''))
      else scopes_loop has roles rest (if sc \<in> set scopes then scopes else scopes @ [sc]))"

definition api_event :: "string \<Rightarrow> string \<Rightarrow> string \<Rightarrow> (string \<times> audit_val) list \<Rightarrow> ClientMeta \<Rightarrow> audit_event" where
  "api_event actor action rid after meta = \<lparr>ActorKind = ''user'', ActorID = actor, Action = action,
     ResourceKind = ''api_token'', ResourceID = rid, Before = [], After = after, Meta = meta, Detail = []\<rparr>"

definition CreateAPIToken ::
  "iam_env \<Rightarrow> (string list \<Rightarrow> string \<Rightarrow> bool) \<Rightarrow> Claims \<Rightarrow> CreateAPITokenCmd \<Rightarrow> iam \<Rightarrow> (goerr + APIToken \<times> string) \<times> iam" where
  "CreateAPIToken env has caller cmd s =
     (let name = TrimSpace (ct_Name cmd) in
      if name = [] \<or> 100 < length name then
        (Inl (errx_New KindInvalid ''name is required (at most 100 characters)''), s)
      else if ct_Scopes cmd = [] then (Inl (errx_New KindInvalid ''at least one scope is required''), s)
      else case scopes_loop has (c_Roles caller) (ct_Scopes cmd) [] of Inl e \<Rightarrow> (Inl e, s) | Inr scopes \<Rightarrow>
      if (case ct_ExpiresAt cmd of None \<Rightarrow> False | Some x \<Rightarrow> \<not> e_now env < x) then
        (Inl (errx_New KindInvalid ''expires_at must be in the future''), s)
      else case NewAPIToken env of
        Inl e \<Rightarrow> (Inl (KindError KindInternal (ErrMsg ''generate api token'' e)), s)
      | Inr (plain, h) \<Rightarrow>
          (let t = \<lparr>at_ID = e_id env ''tok'', at_UserID = c_Subject caller, at_Name = name, at_TokenHash = h,
                 at_Scopes = scopes, at_ExpiresAt = ct_ExpiresAt cmd, at_LastUsedAt = None, at_RevokedAt = None,
                 at_CreatedAt = e_now env\<rparr>
           in case InsertAPI env t (db s) of Inl e \<Rightarrow> (Inl e, s)
            | Inr d \<Rightarrow> (Inr (t, plain), write_audit (api_event (c_Subject caller) ''api_token.create'' (at_ID t)
                 [(''name'', AStr name), (''scopes'', AStrs scopes), (''expires_at'', ATime (ct_ExpiresAt cmd))] (ct_Meta cmd))
                 (s\<lparr>db := d\<rparr>))))"

definition RevokeAPIToken :: "iam_env \<Rightarrow> string \<Rightarrow> string \<Rightarrow> ClientMeta \<Rightarrow> iam \<Rightarrow> goerr option \<times> iam" where
  "RevokeAPIToken env uid tid meta s =
     (case RevokeAPI env uid tid (e_now env) (db s) of Inl e \<Rightarrow> (Some e, s)
      | Inr d \<Rightarrow> (None, write_audit (api_event uid ''api_token.revoke'' tid [] meta) (s\<lparr>db := d\<rparr>)))"

definition denied :: goerr where "denied = errx_New KindUnauthorized ''invalid api token''"

definition VerifyAPIToken :: "iam_env \<Rightarrow> string \<Rightarrow> iam \<Rightarrow> (goerr + Claims) \<times> iam" where
  "VerifyAPIToken env raw s =
     (case LookupAPI env (e_sha env raw) (db s) of
        Inl e \<Rightarrow> (Inl (if KindOf (Some e) = KindNotFound then denied else e), s)
      | Inr (t, own) \<Rightarrow>
          if \<not> at_Usable (e_now env) t \<or> o_Status own \<noteq> UserActive then (Inl denied, s)
          else (Inr \<lparr>c_Username = o_Username own, c_Roles = o_Roles own, c_Tenant = o_TenantID own,
                  c_Subject = at_UserID t, c_APITokenID = at_ID t, c_Scopes = Some (at_Scopes t)\<rparr>,
                (case TouchAPI env (at_ID t) (e_now env) (db s) of Inl e \<Rightarrow> s | Inr d \<Rightarrow> s\<lparr>db := d\<rparr>)))"

subsection \<open>User administration\<close>

definition update_user :: "string \<Rightarrow> (User \<Rightarrow> User) \<Rightarrow> iam_db \<Rightarrow> iam_db" where
  "update_user i f d = d\<lparr>db_users := map (\<lambda>u. if u_ID u = i then f u else u) (db_users d)\<rparr>"

definition has_user :: "string \<Rightarrow> iam_db \<Rightarrow> bool" where
  "has_user i d \<longleftrightarrow> list_ex (\<lambda>u. u_ID u = i) (db_users d)"

definition UpdateProfile :: "iam_env \<Rightarrow> string \<Rightarrow> string option \<Rightarrow> string option \<Rightarrow> iam_db \<Rightarrow> goerr + iam_db" where
  "UpdateProfile env i email display d = db_call env CallProfile
     (if has_user i d \<and> (case email of None \<Rightarrow> False | Some m \<Rightarrow>
           list_ex (\<lambda>u. u_ID u \<noteq> i \<and> e_fold env (u_Email u) = e_fold env m) (db_users d))
      then Inl (KindError KindTransient (ErrMsg ''update profile'' (ErrLeaf ''unique'')))
      else Inr (update_user i (\<lambda>u. u\<lparr>u_Email := case_option (u_Email u) id email,
        u_DisplayName := case_option (u_DisplayName u) id display\<rparr>) d))"

definition SetStatus :: "iam_env \<Rightarrow> string \<Rightarrow> UserStatus \<Rightarrow> iam_db \<Rightarrow> goerr + iam_db" where
  "SetStatus env i st d = db_call env CallSetStatus
     (if has_user i d then Inr (update_user i (\<lambda>u. u\<lparr>u_Status := st\<rparr>) d)
      else Inl (errx_New KindNotFound ''user not found''))"

definition SetPassword :: "iam_env \<Rightarrow> string \<Rightarrow> string \<Rightarrow> bool \<Rightarrow> iam_db \<Rightarrow> goerr + iam_db" where
  "SetPassword env i h changeRequired d = db_call env CallSetPassword
     (if has_user i d then Inr (update_user i (\<lambda>u. u\<lparr>u_PasswordHash := h, u_PasswordChangeRequired := changeRequired\<rparr>) d)
      else Inl (errx_New KindNotFound ''user not found''))"

text \<open>One transaction: the roles are replaced, or nothing is.\<close>

definition SetRolesRows :: "iam_env \<Rightarrow> string \<Rightarrow> string list \<Rightarrow> string \<Rightarrow> iam_db \<Rightarrow> goerr + iam_db" where
  "SetRolesRows env uid roleIDs grantedBy d = db_call env CallSetRoles
     (if \<not> distinct roleIDs \<or> \<not> list_all (\<lambda>r. r \<in> fst ` set (db_roles d)) roleIDs \<or>
         (roleIDs \<noteq> [] \<and> (\<not> has_user uid d \<or> (grantedBy \<noteq> [] \<and> \<not> has_user grantedBy d)))
      then Inl (KindError KindInvalid (ErrMsg ''grant role'' (ErrLeaf ''constraint'')))
      else Inr (d\<lparr>db_user_roles := filter (\<lambda>(u, r). u \<noteq> uid) (db_user_roles d) @ map (\<lambda>r. (uid, r)) roleIDs\<rparr>))"

definition RoleIDsExist :: "iam_env \<Rightarrow> string list \<Rightarrow> iam_db \<Rightarrow> goerr + bool" where
  "RoleIDsExist env roleIDs d = db_call env CallRoleIDsExist
     (Inr (length (filter (\<lambda>(i, n). i \<in> set roleIDs) (db_roles d)) = length roleIDs))"

definition lower_or_digit :: "char \<Rightarrow> bool" where
  "lower_or_digit c \<longleftrightarrow> (of_char c :: nat) \<in> {97..122} \<union> {48..57}"

definition usernameRe :: "string \<Rightarrow> bool" where
  "usernameRe s = (case s of [] \<Rightarrow> False
     | c # rest \<Rightarrow> lower_or_digit c \<and> 1 \<le> length rest \<and> length rest \<le> 62 \<and>
         list_all (\<lambda>c. lower_or_digit c \<or> c = CHR ''.'' \<or> c = CHR ''_'' \<or> c = CHR ''-'') rest)"

definition ValidatePassword :: "string \<Rightarrow> goerr option" where
  "ValidatePassword pw = (if length pw < 12 then Some (errx_New KindInvalid ''password must be at least 12 characters'') else None)"

record CreateUserCmd =
  cu_Username :: string
  cu_Email :: string
  cu_DisplayName :: string
  cu_RoleIDs :: "string list"
  cu_TempPassword :: string
  cu_Actor :: string
  cu_Meta :: ClientMeta

definition user_event ::
  "string \<Rightarrow> string \<Rightarrow> string \<Rightarrow> (string \<times> audit_val) list \<Rightarrow> (string \<times> audit_val) list \<Rightarrow> ClientMeta \<Rightarrow> audit_event" where
  "user_event actor action uid before after meta = \<lparr>ActorKind = ''user'', ActorID = actor, Action = action,
     ResourceKind = ''user'', ResourceID = uid, Before = before, After = after, Meta = meta, Detail = []\<rparr>"

definition CreateUser :: "iam_env \<Rightarrow> CreateUserCmd \<Rightarrow> iam \<Rightarrow> (goerr + User \<times> string) \<times> iam" where
  "CreateUser env cmd s =
     (if \<not> usernameRe (cu_Username cmd) then
        (Inl (errx_New KindInvalid ''invalid username (lowercase, 2-63 chars, [a-z0-9._-])''), s)
      else if cu_Email cmd = [] \<or> cu_DisplayName cmd = [] then
        (Inl (errx_New KindInvalid ''email and display_name are required''), s)
      else if cu_RoleIDs cmd = [] then (Inl (errx_New KindInvalid ''at least one role is required''), s)
      else case RoleIDsExist env (cu_RoleIDs cmd) (db s) of Inl e \<Rightarrow> (Inl e, s) | Inr exist \<Rightarrow>
      if \<not> exist then (Inl (errx_New KindInvalid ''unknown role id''), s)
      else case (if cu_TempPassword cmd = [] then e_rand env
                 else case ValidatePassword (cu_TempPassword cmd) of Some e \<Rightarrow> Inl e | None \<Rightarrow> Inr (cu_TempPassword cmd)) of
        Inl e \<Rightarrow> (Inl e, s) | Inr pw \<Rightarrow>
      (case e_hash env pw of Inl e \<Rightarrow> (Inl (KindError KindInternal (ErrMsg ''hash password'' e)), s) | Inr h \<Rightarrow>
       let u = \<lparr>u_ID = e_id env ''u'', u_TenantID = defaultTenant, u_Username = cu_Username cmd, u_Email = cu_Email cmd,
             u_PasswordHash = h, u_DisplayName = cu_DisplayName cmd, u_Status = UserActive,
             u_PasswordChangeRequired = True, u_LastLoginAt = None\<rparr>
       in case CreateUserRow env u (cu_RoleIDs cmd) (db s) of Inl e \<Rightarrow> (Inl e, s)
        | Inr d \<Rightarrow> (Inr (u, pw), write_audit (user_event (cu_Actor cmd) ''user.create'' (u_ID u) []
             [(''username'', AStr (u_Username u)), (''roles'', AStrs (cu_RoleIDs cmd))] (cu_Meta cmd)) (s\<lparr>db := d\<rparr>))))"

definition SetRoles :: "iam_env \<Rightarrow> string \<Rightarrow> string list \<Rightarrow> string \<Rightarrow> ClientMeta \<Rightarrow> iam \<Rightarrow> goerr option \<times> iam" where
  "SetRoles env uid roleIDs actor meta s =
     (case RoleIDsExist env roleIDs (db s) of Inl e \<Rightarrow> (Some e, s) | Inr exist \<Rightarrow>
      if \<not> exist then (Some (errx_New KindInvalid ''unknown role id''), s)
      else case RoleNames env uid (db s) of Inl e \<Rightarrow> (Some e, s) | Inr before \<Rightarrow>
      (case SetRolesRows env uid roleIDs actor (db s) of Inl e \<Rightarrow> (Some e, s) | Inr d \<Rightarrow>
       let after = (case RoleNames env uid d of Inl e \<Rightarrow> [] | Inr ns \<Rightarrow> ns)
       in (None, write_audit (user_event actor ''user.roles.set'' uid [(''roles'', AStrs before)]
            [(''roles'', AStrs after)] meta) (s\<lparr>db := d\<rparr>))))"

definition revoke_all :: "iam_env \<Rightarrow> string \<Rightarrow> iam_db \<Rightarrow> iam_db" where
  "revoke_all env uid d = (case RevokeAllForUser env uid (e_now env) d of Inl e \<Rightarrow> d | Inr d' \<Rightarrow> d')"

definition Deactivate :: "iam_env \<Rightarrow> string \<Rightarrow> string \<Rightarrow> ClientMeta \<Rightarrow> iam \<Rightarrow> goerr option \<times> iam" where
  "Deactivate env uid actor meta s =
     (if uid = actor then (Some (errx_New KindInvalid ''cannot deactivate your own account''), s)
      else case SetStatus env uid UserDeactivated (db s) of Inl e \<Rightarrow> (Some e, s)
       | Inr d \<Rightarrow> (None, write_audit (user_event actor ''user.deactivate'' uid [] [] meta) (s\<lparr>db := revoke_all env uid d\<rparr>)))"

definition Activate :: "iam_env \<Rightarrow> string \<Rightarrow> string \<Rightarrow> ClientMeta \<Rightarrow> iam \<Rightarrow> goerr option \<times> iam" where
  "Activate env uid actor meta s =
     (case SetStatus env uid UserActive (db s) of Inl e \<Rightarrow> (Some e, s)
       | Inr d \<Rightarrow> (None, write_audit (user_event actor ''user.activate'' uid [] [] meta) (s\<lparr>db := d\<rparr>)))"

definition ResetPassword :: "iam_env \<Rightarrow> string \<Rightarrow> string \<Rightarrow> ClientMeta \<Rightarrow> iam \<Rightarrow> (goerr + string) \<times> iam" where
  "ResetPassword env uid actor meta s =
     (case e_rand env of Inl e \<Rightarrow> (Inl e, s) | Inr pw \<Rightarrow>
      (case e_hash env pw of Inl e \<Rightarrow> (Inl e, s) | Inr h \<Rightarrow>
      (case SetPassword env uid h True (db s) of Inl e \<Rightarrow> (Inl e, s)
       | Inr d \<Rightarrow> (Inr pw, write_audit (user_event actor ''user.password.reset'' uid [] [] meta) (s\<lparr>db := revoke_all env uid d\<rparr>)))))"

definition ChangeOwnPassword :: "iam_env \<Rightarrow> string \<Rightarrow> string \<Rightarrow> string \<Rightarrow> ClientMeta \<Rightarrow> iam \<Rightarrow> goerr option \<times> iam" where
  "ChangeOwnPassword env uid oldPw newPw meta s =
     (case ValidatePassword newPw of Some e \<Rightarrow> (Some e, s) | None \<Rightarrow>
      (case GetByID env uid (db s) of Inl e \<Rightarrow> (Some e, s) | Inr u \<Rightarrow>
      (case e_verify env oldPw (u_PasswordHash u) of
         Inl e \<Rightarrow> (Some (KindError KindInternal (ErrMsg ''verify password'' e)), s)
       | Inr ok \<Rightarrow>
           if \<not> ok then (Some (errx_New KindUnauthorized ''current password incorrect''), s)
           else case e_hash env newPw of Inl e \<Rightarrow> (Some e, s) | Inr h \<Rightarrow>
           (case SetPassword env uid h False (db s) of Inl e \<Rightarrow> (Some e, s)
            | Inr d \<Rightarrow> (None, write_audit (user_event uid ''user.password.change'' uid [] [] meta) (s\<lparr>db := d\<rparr>))))))"

subsection \<open>The checker's contract\<close>

locale checker =
  fixes has :: "string list \<Rightarrow> string \<Rightarrow> bool"
  assumes has_Nil: "\<not> has [] p"
    and has_Cons: "has (r # rs) p \<longleftrightarrow> has [r] p \<or> has rs p"
begin

lemma has_iff: "has roles p \<longleftrightarrow> (\<exists>r\<in>set roles. has [r] p)"
proof (induction roles)
  case (Cons r roles)
  then show ?case using has_Cons [of r roles p] by auto
qed (simp add: has_Nil)

lemma has_mono: "set rs \<subseteq> set rs' \<Longrightarrow> has rs p \<Longrightarrow> has rs' p"
  using has_iff by blast

lemma scopes_loop_held:
  "scopes_loop has roles ss acc = Inr out \<Longrightarrow>
   set out = set acc \<union> set ss \<and> (\<forall>p\<in>set ss. p \<in> set authz_All \<and> has roles p) \<and> (distinct acc \<longrightarrow> distinct out)"
  by (induction ss arbitrary: acc) (auto split: if_splits)

lemma RequirePerm_admits:
  "RequirePerm has perm c = None \<longleftrightarrow> (\<exists>r\<in>set (c_Roles c). has [r] perm) \<and>
   (case c_Scopes c of None \<Rightarrow> True | Some ss \<Rightarrow> perm \<in> set ss)"
  using has_iff [of "c_Roles c" perm] by (auto simp: RequirePerm_def Allows_def list_ex_iff split: option.splits)

end

interpretation pc: checker "pg_Has c" for c
  by unfold_locales (auto split: option.splits)

interpretation sc: checker "static_Has m" for m
  by unfold_locales (auto simp: static_Has_def)

lemma flag_set: "flag (foldl (\<lambda>m p. AList.update p True m) m ps) p \<longleftrightarrow> p \<in> set ps \<or> flag m p"
  by (induction ps arbitrary: m) (auto simp: flag_def update_conv')

lemma load_rows_ok:
  "distinct (map fst rows) \<Longrightarrow>
   \<exists>c. load_rows (map (\<lambda>(n, ps). Inr (n, Inr ps)) rows) acc = Inr c \<and>
     map_of c = map_of acc ++ (\<lambda>n. map_option (\<lambda>ps. foldl (\<lambda>m p. AList.update p True m) [] ps) (map_of rows n))"
proof (induction rows arbitrary: acc)
  case Nil
  then show ?case by (simp add: map_add_def)
next
  case (Cons r rows)
  obtain n ps where r: "r = (n, ps)" by force
  define acc' where "acc' = AList.update n (foldl (\<lambda>m p. AList.update p True m) [] ps) acc"
  have fresh: "map_of rows n = None" using Cons.prems r by (simp add: map_of_eq_None_iff)
  obtain c where c: "load_rows (map (\<lambda>(n, ps). Inr (n, Inr ps)) rows) acc' = Inr c"
    "map_of c = map_of acc' ++ (\<lambda>n. map_option (\<lambda>ps. foldl (\<lambda>m p. AList.update p True m) [] ps) (map_of rows n))"
    using Cons.IH [of acc'] Cons.prems by auto
  have "map_of c = map_of acc ++ (\<lambda>k. map_option (\<lambda>ps. foldl (\<lambda>m p. AList.update p True m) [] ps) (map_of (r # rows) k))"
    using c(2) fresh r by (auto simp: fun_eq_iff map_add_def acc'_def update_conv' split: option.splits)
  with c(1) r show ?case by (simp add: acc'_def)
qed

text \<open>
  The cached checker answers as the role table says: after a load of the rows \<open>rows\<close> it agrees, for
  all roles and permissions, with the direct reading of the table (a role grants what it lists, or
  everything with a star; an unknown role grants nothing), and a load that fails anywhere leaves the
  permissions in force unchanged.
\<close>

theorem checker_reads_roles:
  assumes "distinct (map fst rows)"
  shows "\<exists>c'. checker_load (Inr (map (\<lambda>(n, ps). Inr (n, Inr ps)) rows, None)) c = (None, c') \<and> pg_Has c' = static_Has rows \<and>
    snd (checker_load (Inr (map (\<lambda>(n, ps). Inr (n, Inr ps)) rows @ Inl e # tail_rows, re)) c) = c"
proof -
  obtain c' where c': "load_rows (map (\<lambda>(n, ps). Inr (n, Inr ps)) rows) [] = Inr c'"
    "map_of c' = (\<lambda>n. map_option (\<lambda>ps. foldl (\<lambda>m p. AList.update p True m) [] ps) (map_of rows n))"
    using load_rows_ok [OF assms, of "[]"] by auto
  have "pg_Has c' roles p = static_Has rows roles p" for roles p
    by (induction roles) (auto simp: c'(2) static_Has_def flag_set list_ex_iff flag_def [of "[]"] split: option.splits)
  moreover have "load_rows (map (\<lambda>(n, ps). Inr (n, Inr ps)) rows @ Inl e # tail_rows) acc = Inl e" for acc
    by (induction rows arbitrary: acc) auto
  ultimately show ?thesis using c'(1) by (simp add: checker_load_def fun_eq_iff)
qed

theorem checker_reads_roles_witness:
  "\<exists>c'. checker_load (Inr ([Inr (''admin'', Inr [''*'']), Inr (''viewer'', Inr [''devices:read''])], None)) [] = (None, c') \<and>
     pg_Has c' [''viewer'', ''ghost''] ''devices:read'' \<and> \<not> pg_Has c' [''viewer'', ''ghost''] ''devices:write'' \<and>
     pg_Has c' [''admin''] ''devices:write''"
proof -
  have "\<exists>c'. checker_load (Inr (map (\<lambda>(n, ps). Inr (n, Inr ps)) [(''admin'', [''*'']), (''viewer'', [''devices:read''])], None)) [] =
      (None, c') \<and> pg_Has c' = static_Has [(''admin'', [''*'']), (''viewer'', [''devices:read''])]"
    using checker_reads_roles [of "[(''admin'', [''*'']), (''viewer'', [''devices:read''])]" "[]"] by fastforce
  then show ?thesis by (auto simp: static_Has_def simp del: pg_Has.simps)
qed

subsection \<open>API tokens subtract\<close>

lemma find_SomeD: "find P xs = Some x \<Longrightarrow> x \<in> set xs \<and> P x"
  by (induction xs) (auto split: if_splits)

lemma LookupAPI_Inr:
  assumes "LookupAPI env h d = Inr (t, own)"
  obtains u where "t \<in> set (db_atokens d)" and "at_TokenHash t = h" and "u \<in> set (db_users d)" and "u_ID u = at_UserID t"
    and "own = \<lparr>o_Username = u_Username u, o_TenantID = u_TenantID u, o_Status = u_Status u,
      o_Roles = owner_roles env (u_ID u) d\<rparr>"
proof -
  obtain u where "find (\<lambda>t. at_TokenHash t = h) (db_atokens d) = Some t" "find (\<lambda>u. u_ID u = at_UserID t) (db_users d) = Some u"
    "own = \<lparr>o_Username = u_Username u, o_TenantID = u_TenantID u, o_Status = u_Status u, o_Roles = owner_roles env (u_ID u) d\<rparr>"
    using assms by (auto simp: LookupAPI_def db_call_Inr split: option.splits)
  with that show thesis by (blast dest: find_SomeD)
qed

lemma VerifyAPIToken_Inr:
  assumes "fst (VerifyAPIToken env raw s) = Inr c"
  obtains t u where "t \<in> set (db_atokens (db s))" and "at_TokenHash t = e_sha env raw" and "at_Usable (e_now env) t"
    and "u \<in> set (db_users (db s))" and "u_ID u = at_UserID t" and "u_Status u = UserActive"
    and "c_Subject c = u_ID u" and "c_APITokenID c = at_ID t" and "c_Scopes c = Some (at_Scopes t)"
    and "c_Roles c = owner_roles env (u_ID u) (db s)"
proof -
  obtain t own where l: "LookupAPI env (e_sha env raw) (db s) = Inr (t, own)" "at_Usable (e_now env) t" "o_Status own = UserActive"
    "c = \<lparr>c_Username = o_Username own, c_Roles = o_Roles own, c_Tenant = o_TenantID own,
       c_Subject = at_UserID t, c_APITokenID = at_ID t, c_Scopes = Some (at_Scopes t)\<rparr>"
    using assms by (auto simp: VerifyAPIToken_def split: sum.splits if_splits)
  from l(1) show thesis by (rule LookupAPI_Inr) (rule that, use l in auto)
qed

text \<open>
  C29. An API token only subtracts: a request it authenticates passes the gate for a permission only if
  the token is in force, its scopes name that permission, its owner is active, and one of the roles the
  owner holds in the database at that moment grants it; and the gate for interactive callers always
  refuses it.
\<close>

theorem token_never_widens:
  assumes "fst (VerifyAPIToken env raw s) = Inr c" and "RequirePerm (pg_Has chk) perm c = None"
    and "\<forall>rs. set (e_collate env rs) = set rs" and "\<forall>t \<in> set (db_atokens (db s)). at_ID t \<noteq> []"
  shows "(\<exists>t u i r. t \<in> set (db_atokens (db s)) \<and> at_TokenHash t = e_sha env raw \<and> at_Usable (e_now env) t \<and>
      perm \<in> set (at_Scopes t) \<and> u \<in> set (db_users (db s)) \<and> u_ID u = at_UserID t \<and> u_Status u = UserActive \<and>
      (u_ID u, i) \<in> set (db_user_roles (db s)) \<and> (i, r) \<in> set (db_roles (db s)) \<and> pg_Has chk [r] perm) \<and>
    RequireInteractive c \<noteq> None"
proof (rule VerifyAPIToken_Inr [OF assms(1)])
  fix t u
  assume a: "t \<in> set (db_atokens (db s))" "at_TokenHash t = e_sha env raw" "at_Usable (e_now env) t"
    "u \<in> set (db_users (db s))" "u_ID u = at_UserID t" "u_Status u = UserActive" "c_APITokenID c = at_ID t"
    "c_Scopes c = Some (at_Scopes t)"
    "c_Roles c = owner_roles env (u_ID u) (db s)"
  have p: "perm \<in> set (at_Scopes t)" "\<exists>r\<in>set (c_Roles c). pg_Has chk [r] perm"
    using iffD1 [OF pc.RequirePerm_admits assms(2)] a(8) by simp_all
  then obtain i r where "(u_ID u, i) \<in> set (db_user_roles (db s))" "(i, r) \<in> set (db_roles (db s))" "pg_Has chk [r] perm"
    using assms(3) a(9) by (auto simp: owner_roles_def)
  moreover have "RequireInteractive c \<noteq> None" using a(1,7) assms(4) by (auto simp: RequireInteractive_def Interactive_def)
  ultimately show ?thesis using a p(1) by blast
qed

definition demo_roles :: PGChecker where
  "demo_roles = [(''admin'', [(''*'', True)])]"

definition demo_token :: APIToken where
  "demo_token = \<lparr>at_ID = ''tok1'', at_UserID = ''u1'', at_Name = ''grafana'', at_TokenHash = ''#nv_x'', at_Scopes = [''metrics:read''],
     at_ExpiresAt = Some 100, at_LastUsedAt = None, at_RevokedAt = None, at_CreatedAt = 0\<rparr>"

definition demo_token_state :: iam where
  "demo_token_state = demo_state\<lparr>db := (db demo_state)\<lparr>db_atokens := [demo_token]\<rparr>\<rparr>"

definition demo_claims :: Claims where
  "demo_claims = \<lparr>c_Username = ''admin'', c_Roles = [''admin''], c_Tenant = defaultTenant, c_Subject = ''u1'',
     c_APITokenID = ''tok1'', c_Scopes = Some [''metrics:read'']\<rparr>"

lemma demo_verify: "fst (VerifyAPIToken (demo_env 5 r) ''nv_x'' demo_token_state) = Inr demo_claims"
  by (simp add: VerifyAPIToken_def LookupAPI_def owner_roles_def demo_token_state_def demo_state_def demo_token_def
      demo_admin_def demo_claims_def at_Usable_def)

theorem token_never_widens_witness:
  "fst (VerifyAPIToken (demo_env 5 ''r'') ''nv_x'' demo_token_state) = Inr demo_claims \<and>
   RequirePerm (pg_Has demo_roles) ''metrics:read'' demo_claims = None \<and>
   RequirePerm (pg_Has demo_roles) ''users:write'' demo_claims \<noteq> None \<and> RequireInteractive demo_claims \<noteq> None"
proof -
  have p: "RequirePerm (pg_Has demo_roles) ''metrics:read'' demo_claims = None"
    by (simp add: RequirePerm_def demo_roles_def demo_claims_def flag_def Allows_def)
  have "RequireInteractive demo_claims \<noteq> None"
    using token_never_widens [OF demo_verify [of "''r''"] p]
    by (simp add: demo_token_state_def demo_state_def demo_token_def)
  with p demo_verify show ?thesis by (simp add: RequirePerm_def demo_claims_def Allows_def)
qed

subsection \<open>Minting\<close>

definition wf_api :: "iam_db \<Rightarrow> bool" where
  "wf_api d \<longleftrightarrow> distinct (map at_TokenHash (db_atokens d)) \<and> distinct (map at_ID (db_atokens d))"

lemma CreateAPIToken_Inr:
  assumes "CreateAPIToken env has caller cmd s = (Inr (t, plain), s')"
  obtains b d scopes where "e_rand env = Inr b" and "plain = APITokenPrefix @ b" and "at_TokenHash t = e_sha env plain"
    and "scopes_loop has (c_Roles caller) (ct_Scopes cmd) [] = Inr scopes" and "at_Scopes t = scopes" and "ct_Scopes cmd \<noteq> []"
    and "at_UserID t = c_Subject caller" and "at_LastUsedAt t = None" and "at_RevokedAt t = None"
    and "InsertAPI env t (db s) = Inr d" and "db s' = d" and "at_ID t = e_id env ''tok''"
    and "case at_ExpiresAt t of None \<Rightarrow> True | Some x \<Rightarrow> e_now env < x"
  using assms
  by (auto simp: CreateAPIToken_def NewAPIToken_def Let_def write_audit_def split: if_splits sum.splits prod.splits option.splits)

lemma InsertAPI_Inr:
  "InsertAPI env t d = Inr d' \<Longrightarrow>
   d' = d\<lparr>db_atokens := db_atokens d @ [t\<lparr>at_LastUsedAt := None, at_RevokedAt := None\<rparr>]\<rparr> \<and>
   at_ID t \<notin> at_ID ` set (db_atokens d) \<and> at_TokenHash t \<notin> at_TokenHash ` set (db_atokens d) \<and>
   at_UserID t \<in> u_ID ` set (db_users d)"
  by (auto simp: InsertAPI_def db_call_Inr list_ex_iff split: if_splits)

lemma find_snoc_fresh: "f x \<notin> f ` set xs \<Longrightarrow> find (\<lambda>y. f y = f x) (xs @ [x]) = Some x"
  by (induction xs) auto

lemma find_user: "distinct (map u_ID us) \<Longrightarrow> u \<in> set us \<Longrightarrow> find (\<lambda>v. u_ID v = u_ID u) us = Some u"
  by (induction us) (auto simp: rev_image_eqI)

text \<open>
  A token is minted as a narrowed copy of its owner and then works: its scopes are exactly those
  asked for, without repetition, each one a known permission the caller holds; its plain value carries
  the API prefix and differs from what is stored; and presenting that value, while the token has not
  expired and its owner is active, authenticates as the caller with exactly those scopes.
\<close>

theorem minted_token_works:
  assumes "CreateAPIToken env (pg_Has chk) caller cmd s = (Inr (t, plain), s')"
    and "e_sha env' = e_sha env" and "faultless env'" and "at_Usable (e_now env') t"
    and "u \<in> set (db_users (db s))" and "u_ID u = c_Subject caller" and "u_Status u = UserActive"
    and "distinct (map u_ID (db_users (db s)))"
  shows "set (at_Scopes t) = set (ct_Scopes cmd) \<and> distinct (at_Scopes t) \<and>
    (\<forall>p \<in> set (at_Scopes t). p \<in> set authz_All \<and> pg_Has chk (c_Roles caller) p) \<and> IsAPIToken plain \<and>
    (\<exists>c. fst (chain_Verify jwt (VerifyAPIToken env') plain s') = Inr c \<and> c_Subject c = c_Subject caller \<and>
       c_Username c = u_Username u \<and> c_APITokenID c = at_ID t \<and> c_Scopes c = Some (at_Scopes t))"
proof (rule CreateAPIToken_Inr [OF assms(1)])
  fix b d scopes
  assume a: "plain = APITokenPrefix @ b" "at_TokenHash t = e_sha env plain" "at_UserID t = c_Subject caller"
    "scopes_loop (pg_Has chk) (c_Roles caller) (ct_Scopes cmd) [] = Inr scopes" "at_Scopes t = scopes"
    "InsertAPI env t (db s) = Inr d" "db s' = d" "at_LastUsedAt t = None" "at_RevokedAt t = None"
  note i = InsertAPI_Inr [OF a(6)]
  have t: "t\<lparr>at_LastUsedAt := None, at_RevokedAt := None\<rparr> = t" using a(8,9) by simp
  have "find (\<lambda>r. at_TokenHash r = at_TokenHash t) (db_atokens d) = Some t"
    using find_snoc_fresh [of at_TokenHash t "db_atokens (db s)"] i t by simp
  moreover have "find (\<lambda>v. u_ID v = at_UserID t) (db_users d) = Some u"
    using find_user [OF assms(8,5)] i assms(6) a(3) by simp
  moreover have "IsAPIToken plain" using a(1) by (simp add: IsAPIToken_def)
  ultimately have "\<exists>c. fst (chain_Verify jwt (VerifyAPIToken env') plain s') = Inr c \<and> c_Subject c = c_Subject caller \<and>
       c_Username c = u_Username u \<and> c_APITokenID c = at_ID t \<and> c_Scopes c = Some (at_Scopes t)"
    using assms(2-4,7) a by (simp add: chain_Verify_def VerifyAPIToken_def LookupAPI_def)
  with pc.scopes_loop_held [OF a(4)] a(5) \<open>IsAPIToken plain\<close> show ?thesis by auto
qed

subsection \<open>Deactivation\<close>

lemma revoke_all_users [simp]: "db_users (revoke_all env uid d) = db_users d"
  by (simp add: revoke_all_def RevokeAllForUser_def db_call_def split: option.splits)

lemma Deactivate_users:
  assumes "Deactivate env uid actor meta s = (None, s')" and "u \<in> set (db_users (db s'))" and "u_ID u = uid"
  shows "u_Status u = UserDeactivated"
proof -
  obtain d where "SetStatus env uid UserDeactivated (db s) = Inr d" "db s' = revoke_all env uid d"
    using assms(1) by (auto simp: Deactivate_def write_audit_def split: if_splits sum.splits)
  then have "db_users (db s') = map (\<lambda>u. if u_ID u = uid then u\<lparr>u_Status := UserDeactivated\<rparr> else u) (db_users (db s))"
    by (auto simp: SetStatus_def db_call_Inr update_user_def split: if_splits)
  with assms(2) have "u \<in> (\<lambda>u. if u_ID u = uid then u\<lparr>u_Status := UserDeactivated\<rparr> else u) ` set (db_users (db s))"
    by (simp only: set_map)
  then show ?thesis by (rule imageE) (use assms(3) in \<open>auto split: if_split_asm\<close>)
qed

lemma Refresh_user: "fst (Refresh env plain meta s) = Inr r \<Longrightarrow> LUser r \<in> set (db_users (db s)) \<and> CanLogin (LUser r)"
proof -
  assume "fst (Refresh env plain meta s) = Inr r"
  then have "Refresh env plain meta s = (Inr r, snd (Refresh env plain meta s))" by (simp add: prod_eq_iff)
  then show ?thesis
    by (rule Refresh_Inr) (auto dest!: refresh_check_Inr refresh_commit_Inr)
qed

text \<open>
  C30. Deactivation is immediate: once an account has been deactivated, and even if revoking its refresh
  tokens failed, no password, no refresh token and no API token gives access as that account, at any
  later time and whatever else fails.
\<close>

theorem deactivation_cuts_access:
  assumes "Deactivate env uid actor meta s = (None, s')"
  shows "(\<nexists>env' name pw m r. fst (Login env' name pw m s') = Inr r \<and> u_ID (LUser r) = uid) \<and>
    (\<nexists>env' plain m r. fst (Refresh env' plain m s') = Inr r \<and> u_ID (LUser r) = uid) \<and>
    (\<nexists>env' raw c. fst (VerifyAPIToken env' raw s') = Inr c \<and> c_Subject c = uid)"
proof (intro conjI notI; elim exE conjE)
  note off = Deactivate_users [OF assms]
  show False if "fst (Login env' name pw m s') = Inr r" "u_ID (LUser r) = uid" for env' name pw m r
    using Login_Inr [OF that(1)] off that(2) by (auto simp: entitled_def)
  show False if "fst (Refresh env' plain m s') = Inr r" "u_ID (LUser r) = uid" for env' plain m r
    using Refresh_user [OF that(1)] off that(2) by (auto simp: CanLogin_def)
  show False if "fst (VerifyAPIToken env' raw s') = Inr c" "c_Subject c = uid" for env' raw c
    using that(1) by (rule VerifyAPIToken_Inr) (use off that(2) in auto)
qed

definition flaky_env :: iam_env where
  "flaky_env = (demo_env 5 ''r'')\<lparr>e_fault := (\<lambda>c. if c = CallRevokeAll then Some (ErrLeaf ''timeout'') else None)\<rparr>"

theorem deactivation_cuts_access_witness:
  "fst (Deactivate flaky_env ''u1'' ''root'' no_meta demo_token_state) = None \<and>
   (\<nexists>env' raw c. fst (VerifyAPIToken env' raw (snd (Deactivate flaky_env ''u1'' ''root'' no_meta demo_token_state))) = Inr c \<and> c_Subject c = ''u1'')"
proof -
  have d: "fst (Deactivate flaky_env ''u1'' ''root'' no_meta demo_token_state) = None"
    by (simp add: Deactivate_def SetStatus_def flaky_env_def db_call_def has_user_def demo_token_state_def demo_state_def demo_admin_def)
  then have "Deactivate flaky_env ''u1'' ''root'' no_meta demo_token_state =
      (None, snd (Deactivate flaky_env ''u1'' ''root'' no_meta demo_token_state))" by (simp add: prod_eq_iff)
  from deactivation_cuts_access [OF this] d show ?thesis by blast
qed

definition demo_cmd :: CreateAPITokenCmd where
  "demo_cmd = \<lparr>ct_Name = ''grafana'', ct_Scopes = [''metrics:read'', ''metrics:read''], ct_ExpiresAt = Some 100, ct_Meta = no_meta\<rparr>"

lemma demo_create:
  "CreateAPIToken (demo_env 0 ''x'') (pg_Has demo_roles) (demo_claims\<lparr>c_Scopes := None\<rparr>) demo_cmd demo_state =
     (Inr (demo_token\<lparr>at_ID := ''tokx''\<rparr>, ''nv_x''),
      snd (CreateAPIToken (demo_env 0 ''x'') (pg_Has demo_roles) (demo_claims\<lparr>c_Scopes := None\<rparr>) demo_cmd demo_state))"
  by (simp add: CreateAPIToken_def TrimSpace_def space_runes_def demo_cmd_def demo_state_def demo_claims_def demo_roles_def demo_admin_def
      demo_token_def NewAPIToken_def APITokenPrefix_def InsertAPI_def flag_def authz_All_def Let_def)

theorem minted_token_works_witness:
  "\<exists>c. fst (chain_Verify (\<lambda>raw. Inl denied) (VerifyAPIToken (demo_env 5 ''y'')) ''nv_x''
      (snd (CreateAPIToken (demo_env 0 ''x'') (pg_Has demo_roles) (demo_claims\<lparr>c_Scopes := None\<rparr>) demo_cmd demo_state))) = Inr c \<and>
    c_Scopes c = Some [''metrics:read'']"
  using minted_token_works [OF demo_create, of "demo_env 5 ''y''" demo_admin "\<lambda>raw. Inl denied"]
  by (simp add: demo_env_def faultless_def at_Usable_def demo_token_def demo_state_def demo_admin_def demo_claims_def) blast

end
