(* ===== verification/Redis_Server.thy ===== *)
theory Redis_Server
  imports NetInv_Prelude
begin

text \<open>
  What the parts that call Redis assume about keys and their expiry. The server itself is a parameter of
  their models; a key is seen through a view that gives its value and the time it expires, if any.
  Before that time the key is present, after it (with the documented precision of a millisecond) it is
  absent, and in between nothing is assumed.
\<close>

definition redis_slack :: int where "redis_slack = 1000000"

type_synonym 'v view = "string \<Rightarrow> ('v \<times> gotime option) option"

definition present :: "gotime \<Rightarrow> ('v \<times> gotime option) option \<Rightarrow> bool" where
  "present now v \<longleftrightarrow> (case v of None \<Rightarrow> False | Some (n, None) \<Rightarrow> True | Some (n, Some t) \<Rightarrow> now < t)"

definition absent :: "gotime \<Rightarrow> ('v \<times> gotime option) option \<Rightarrow> bool" where
  "absent now v \<longleftrightarrow> (case v of None \<Rightarrow> True | Some (n, None) \<Rightarrow> False | Some (n, Some t) \<Rightarrow> t + redis_slack \<le> now)"

lemma absent_not_present: "absent now v \<Longrightarrow> \<not> present now v"
  by (auto simp: absent_def present_def redis_slack_def split: option.splits prod.splits)

lemma present_None [simp]: "\<not> present now None" and absent_None [simp]: "absent now None"
  by (simp_all add: present_def absent_def)

lemma present_Some [simp]: "present now (Some (v, Some t)) \<longleftrightarrow> now < t"
  by (simp add: present_def)

text \<open>A server that drops a key exactly at its expiry, for concrete runs.\<close>

type_synonym 'v store = "(string, 'v \<times> gotime option) gomap"

definition store_get :: "gotime \<Rightarrow> string \<Rightarrow> 'v store \<Rightarrow> ('v \<times> gotime option) option" where
  "store_get now k s = (if present now (map_of s k) then map_of s k else None)"

end
