(* ===== verification/IAM_Redis.thy ===== *)
theory IAM_Redis
  imports IAM_Lockout Redis_Server Errx
begin

text \<open>
  The Redis-backed login throttle (\<open>internal/iam/adapters/lockout\<close>, type \<open>Redis\<close>). The server is a
  parameter: the record \<open>redis\<close> holds the commands the adapter sends, and \<open>redis_laws\<close> states what
  their documentation promises, relative to a view of the keys with their expiry.

  Shown: a deployment on Redis and the in-memory implementation give the same answers to the same
  calls.
\<close>

text \<open>\<open>GET\<close> read as an integer, \<open>INCR\<close>, \<open>EXPIRE\<close> (in nanoseconds here), \<open>DEL\<close>, and the fate of a transaction.\<close>

record 'r redis =
  r_get :: "gotime \<Rightarrow> string \<Rightarrow> 'r \<Rightarrow> goerr + int option"
  r_incr :: "gotime \<Rightarrow> string \<Rightarrow> 'r \<Rightarrow> int \<times> 'r"
  r_expire :: "gotime \<Rightarrow> string \<Rightarrow> int \<Rightarrow> 'r \<Rightarrow> 'r"
  r_exec :: "gotime \<Rightarrow> 'r \<Rightarrow> (goerr \<times> bool) option"
  r_del :: "gotime \<Rightarrow> string \<Rightarrow> 'r \<Rightarrow> goerr option \<times> 'r"

definition redis_key :: "string \<Rightarrow> string" where
  "redis_key k = ''lockout:'' @ k"

definition redis_Locked :: "'r redis \<Rightarrow> gotime \<Rightarrow> string \<Rightarrow> 'r \<Rightarrow> goerr + bool" where
  "redis_Locked srv now k r = (case r_get srv now (redis_key k) r of
       Inl e \<Rightarrow> Inl e | Inr None \<Rightarrow> Inr False | Inr (Some n) \<Rightarrow> Inr (int LockThreshold \<le> n))"

text \<open>A transaction that fails may or may not have been applied.\<close>

definition redis_RecordFailure :: "'r redis \<Rightarrow> gotime \<Rightarrow> string \<Rightarrow> 'r \<Rightarrow> (goerr + bool) \<times> 'r" where
  "redis_RecordFailure srv now k r =
     (let (n, r1) = r_incr srv now (redis_key k) r; r2 = r_expire srv now (redis_key k) LockWindow r1 in
      case r_exec srv now r of Some (e, applied) \<Rightarrow> (Inl e, if applied then r2 else r)
      | None \<Rightarrow> (Inr (n = int LockThreshold), r2))"

definition redis_Reset :: "'r redis \<Rightarrow> gotime \<Rightarrow> string \<Rightarrow> 'r \<Rightarrow> goerr option \<times> 'r" where
  "redis_Reset srv now k r = r_del srv now (redis_key k) r"

subsection \<open>What the server promises\<close>

text \<open>
  \<open>GET\<close> of a key before its expiry returns its value and after it nothing; \<open>INCR\<close> adds one and keeps the
  expiry, a missing key counting as zero without expiry; \<open>EXPIRE\<close> sets the expiry of an existing key;
  \<open>DEL\<close> removes the key; and no command touches another key.
\<close>

definition redis_laws :: "'r redis \<Rightarrow> ('r \<Rightarrow> int view) \<Rightarrow> bool" where
  "redis_laws srv view \<longleftrightarrow>
     (\<forall>now k r. present now (view r k) \<longrightarrow> r_get srv now k r = Inr (map_option fst (view r k))) \<and>
     (\<forall>now k r. absent now (view r k) \<longrightarrow> r_get srv now k r = Inr None) \<and>
     (\<forall>now k r n ex. view r k = Some (n, ex) \<longrightarrow> present now (view r k) \<longrightarrow>
        fst (r_incr srv now k r) = n + 1 \<and> view (snd (r_incr srv now k r)) = (view r)(k \<mapsto> (n + 1, ex))) \<and>
     (\<forall>now k r. absent now (view r k) \<longrightarrow>
        fst (r_incr srv now k r) = 1 \<and> view (snd (r_incr srv now k r)) = (view r)(k \<mapsto> (1, None))) \<and>
     (\<forall>now k r d n ex. view r k = Some (n, ex) \<longrightarrow> present now (view r k) \<longrightarrow>
        view (r_expire srv now k d r) = (view r)(k \<mapsto> (n, Some (now + d)))) \<and>
     (\<forall>now k r. fst (r_del srv now k r) = None \<longrightarrow> view (snd (r_del srv now k r)) = (view r)(k := None))"

lemma redis_incr_law:
  assumes "redis_laws srv view" and "r_incr srv now k r = (n, r1)"
  shows "view r k = Some (m, ex) \<Longrightarrow> present now (view r k) \<Longrightarrow> n = m + 1 \<and> view r1 = (view r)(k \<mapsto> (n, ex))"
    and "absent now (view r k) \<Longrightarrow> n = 1 \<and> view r1 = (view r)(k \<mapsto> (n, None))"
  using assms unfolding redis_laws_def by (metis fst_conv snd_conv)+

definition redis_up :: "'r redis \<Rightarrow> bool" where
  "redis_up srv \<longleftrightarrow> (\<forall>now k r. fst (r_del srv now k r) = None \<and> r_exec srv now r = None)"

subsection \<open>Agreement with the in-memory throttle\<close>

text \<open>The calls of the port, with their answers.\<close>

datatype lock_op = OpLocked string | OpFailure string | OpReset string

fun op_key :: "lock_op \<Rightarrow> string" where
  "op_key (OpLocked k) = k" | "op_key (OpFailure k) = k" | "op_key (OpReset k) = k"

fun mem_op :: "gotime \<Rightarrow> lock_op \<Rightarrow> Memory \<Rightarrow> bool option \<times> Memory" where
  "mem_op now (OpLocked k) m = (Some (mem_Locked now k m), m)"
| "mem_op now (OpFailure k) m = (case mem_RecordFailure now k m of (b, m) \<Rightarrow> (Some b, m))"
| "mem_op now (OpReset k) m = (None, mem_Reset k m)"

fun redis_op :: "'r redis \<Rightarrow> gotime \<Rightarrow> lock_op \<Rightarrow> 'r \<Rightarrow> (goerr + bool option) \<times> 'r" where
  "redis_op srv now (OpLocked k) r = (map_sum id Some (redis_Locked srv now k r), r)"
| "redis_op srv now (OpFailure k) r = (case redis_RecordFailure srv now k r of (b, r) \<Rightarrow> (map_sum id Some b, r))"
| "redis_op srv now (OpReset k) r = (case redis_Reset srv now k r of (e, r) \<Rightarrow> (case e of None \<Rightarrow> Inr None | Some e \<Rightarrow> Inl e, r))"

primrec mem_run :: "(gotime \<times> lock_op) list \<Rightarrow> Memory \<Rightarrow> bool option list" where
  "mem_run [] m = []"
| "mem_run (x # xs) m = (case mem_op (fst x) (snd x) m of (a, m) \<Rightarrow> a # mem_run xs m)"

primrec redis_run :: "'r redis \<Rightarrow> (gotime \<times> lock_op) list \<Rightarrow> 'r \<Rightarrow> (goerr + bool option) list" where
  "redis_run srv [] r = []"
| "redis_run srv (x # xs) r = (case redis_op srv (fst x) (snd x) r of (a, r) \<Rightarrow> a # redis_run srv xs r)"

text \<open>No call falls into the moment at which its key expires.\<close>

definition off_edge :: "gotime \<Rightarrow> string \<Rightarrow> Memory \<Rightarrow> bool" where
  "off_edge now k m \<longleftrightarrow> (case map_of m k of None \<Rightarrow> True | Some e \<Rightarrow> now < until e \<or> until e + redis_slack \<le> now)"

primrec off_edges :: "(gotime \<times> lock_op) list \<Rightarrow> Memory \<Rightarrow> bool" where
  "off_edges [] m = True"
| "off_edges (x # xs) m = (off_edge (fst x) (op_key (snd x)) m \<and> off_edges xs (snd (mem_op (fst x) (snd x) m)))"

definition lock_sim :: "('r \<Rightarrow> int view) \<Rightarrow> Memory \<Rightarrow> 'r \<Rightarrow> bool" where
  "lock_sim view m r \<longleftrightarrow> (\<forall>k. view r (redis_key k) = map_option (\<lambda>e. (int (ecount e), Some (until e))) (map_of m k))"

lemma redis_key_inject [simp]: "redis_key k = redis_key k' \<longleftrightarrow> k = k'"
  by (simp add: redis_key_def)

lemma off_edge_cases:
  assumes "off_edge now k m" and "lock_sim view m r"
  obtains e where "map_of m k = Some e" "now < until e" "view r (redis_key k) = Some (int (ecount e), Some (until e))"
      "present now (view r (redis_key k))"
  | "absent now (view r (redis_key k))" "map_of m k = None \<or> (\<exists>e. map_of m k = Some e \<and> until e < now)"
proof (cases "map_of m k")
  case None
  with assms(2) have "view r (redis_key k) = None" by (simp add: lock_sim_def)
  with None that(2) show ?thesis by (simp add: absent_def)
next
  case (Some e)
  with assms(2) have v: "view r (redis_key k) = Some (int (ecount e), Some (until e))" by (simp add: lock_sim_def)
  from assms(1) Some consider "now < until e" | "until e + redis_slack \<le> now" by (auto simp: off_edge_def)
  then show ?thesis
  proof cases
    case 1
    with Some v that(1) show ?thesis by (simp add: present_def)
  next
    case 2
    then have "until e < now" by (simp add: redis_slack_def)
    with 2 Some v that(2) show ?thesis by (simp add: absent_def)
  qed
qed

lemma redis_Locked_sim:
  assumes "redis_laws srv view" and "off_edge now k m" and "lock_sim view m r"
  shows "redis_Locked srv now k r = Inr (mem_Locked now k m)"
  using assms(2,3)
proof (cases rule: off_edge_cases)
  case (1 e)
  then have "r_get srv now (redis_key k) r = Inr (Some (int (ecount e)))"
    using assms(1) by (simp add: redis_laws_def)
  with 1 show ?thesis by (simp add: redis_Locked_def mem_Locked_def)
next
  case 2
  then have "r_get srv now (redis_key k) r = Inr None" using assms(1) by (simp add: redis_laws_def)
  with 2 show ?thesis by (auto simp: redis_Locked_def mem_Locked_def split: option.splits)
qed

lemma view_fun_upd: "lock_sim view m r \<Longrightarrow> view r' = (view r)(redis_key k \<mapsto> (int (ecount e), Some (until e))) \<Longrightarrow>
    lock_sim view (AList.update k e m) r'"
  by (simp add: lock_sim_def update_conv')

lemma redis_RecordFailure_sim:
  assumes "redis_laws srv view" and "redis_up srv" and "off_edge now k m" and "lock_sim view m r"
  shows "fst (redis_RecordFailure srv now k r) = Inr (fst (mem_RecordFailure now k m)) \<and>
    lock_sim view (snd (mem_RecordFailure now k m)) (snd (redis_RecordFailure srv now k r))"
proof -
  obtain n r1 where i: "r_incr srv now (redis_key k) r = (n, r1)" by force
  define e where "e = \<lparr>ecount = ecount (mem_get now k m) + 1, until = now + LockWindow\<rparr>"
  have mem: "mem_RecordFailure now k m = (ecount e = LockThreshold, AList.update k e m)"
    by (cases "mem_get now k m") (simp add: mem_RecordFailure_def e_def Let_def)
  have "\<exists>ex. n = int (ecount e) \<and> view r1 = (view r)(redis_key k \<mapsto> (n, ex)) \<and> present now (Some (n, ex))"
    using assms(3,4)
  proof (cases rule: off_edge_cases)
    case (1 e0)
    then have "n = int (ecount e0) + 1" "view r1 = (view r)(redis_key k \<mapsto> (n, Some (until e0)))"
      using redis_incr_law(1) [OF assms(1) i] by blast+
    moreover have "ecount e = ecount e0 + 1" using 1 by (simp add: e_def mem_get_def)
    ultimately show ?thesis using 1 by (intro exI [of _ "Some (until e0)"]) (simp add: present_def)
  next
    case 2
    then have "n = 1" "view r1 = (view r)(redis_key k \<mapsto> (n, None))"
      using redis_incr_law(2) [OF assms(1) i] by blast+
    moreover have "ecount e = 1" using 2 by (auto simp: e_def mem_get_def)
    ultimately show ?thesis by (intro exI [of _ None]) (simp add: present_def)
  qed
  then obtain ex where n: "n = int (ecount e)" and v1: "view r1 = (view r)(redis_key k \<mapsto> (n, ex))" "present now (Some (n, ex))"
    by blast
  have "view r1 (redis_key k) = Some (n, ex)" "present now (view r1 (redis_key k))" using v1 by simp_all
  then have "view (r_expire srv now (redis_key k) LockWindow r1) = (view r1)(redis_key k \<mapsto> (n, Some (now + LockWindow)))"
    using assms(1) unfolding redis_laws_def by blast
  then have v2: "view (r_expire srv now (redis_key k) LockWindow r1) = (view r)(redis_key k \<mapsto> (int (ecount e), Some (until e)))"
    using v1(1) n by (simp add: e_def)
  have up: "r_exec srv now r = None" using assms(2) by (simp add: redis_up_def)
  show ?thesis using n view_fun_upd [OF assms(4) v2] by (simp add: redis_RecordFailure_def mem i up Let_def)
qed

lemma redis_op_sim:
  assumes "redis_laws srv view" and "redis_up srv" and "off_edge now (op_key op) m" and "lock_sim view m r"
  shows "fst (redis_op srv now op r) = Inr (fst (mem_op now op m)) \<and> lock_sim view (snd (mem_op now op m)) (snd (redis_op srv now op r))"
proof (cases op)
  case (OpLocked k)
  then show ?thesis using redis_Locked_sim [OF assms(1) _ assms(4)] assms(3,4) by simp
next
  case (OpFailure k)
  with assms(3) have "off_edge now k m" by simp
  from redis_RecordFailure_sim [OF assms(1,2) this assms(4)] show ?thesis
    using OpFailure by (auto split: prod.splits)
next
  case (OpReset k)
  have "fst (r_del srv now (redis_key k) r) = None" using assms(2) by (simp add: redis_up_def)
  moreover have "view (snd (r_del srv now (redis_key k) r)) = (view r)(redis_key k := None)"
    using assms(1) calculation by (simp add: redis_laws_def)
  then have "lock_sim view (mem_Reset k m) (snd (r_del srv now (redis_key k) r))"
    using assms(4) by (simp add: lock_sim_def mem_Reset_def delete_conv')
  ultimately show ?thesis using OpReset by (auto simp: redis_Reset_def split: prod.splits)
qed

text \<open>
  C40. The two throttles are interchangeable: from an empty server, while Redis answers and no call falls
  into the millisecond in which its key expires, the Redis-backed implementation answers every call of
  any sequence as the in-memory one does.
\<close>

theorem redis_agrees_with_memory:
  assumes "redis_laws srv view" and "redis_up srv" and "\<forall>k. view r (redis_key k) = None" and "off_edges xs NewMemory"
  shows "redis_run srv xs r = map Inr (mem_run xs NewMemory)"
proof -
  have "redis_run srv xs r = map Inr (mem_run xs m)" if "off_edges xs m" "lock_sim view m r" for m r
    using that
  proof (induction xs arbitrary: m r)
    case (Cons x xs)
    from Cons.prems(1) have "off_edge (fst x) (op_key (snd x)) m" by simp
    note st = redis_op_sim [OF assms(1,2) this Cons.prems(2)]
    with Cons.IH [OF _ st [THEN conjunct2]] Cons.prems(1) show ?case by (auto split: prod.splits)
  qed simp
  moreover have "lock_sim view NewMemory r" using assms(3) by (simp add: lock_sim_def NewMemory_def)
  ultimately show ?thesis using assms(4) by blast
qed

text \<open>A server that drops a key at its expiry satisfies the laws.\<close>

definition demo_redis :: "int store redis" where
  "demo_redis = \<lparr>r_get = (\<lambda>now k s. Inr (map_option fst (store_get now k s))),
     r_incr = (\<lambda>now k s. case store_get now k s of None \<Rightarrow> (1, AList.update k (1, None) s)
       | Some (n, ex) \<Rightarrow> (n + 1, AList.update k (n + 1, ex) s)),
     r_expire = (\<lambda>now k d s. case store_get now k s of None \<Rightarrow> s | Some (n, ex) \<Rightarrow> AList.update k (n, Some (now + d)) s),
     r_exec = (\<lambda>now s. None),
     r_del = (\<lambda>now k s. (None, AList.delete k s))\<rparr>"

lemma demo_redis_laws: "redis_laws demo_redis map_of"
  by (auto simp: redis_laws_def demo_redis_def store_get_def update_conv' delete_conv' dest: absent_not_present)

theorem redis_agrees_with_memory_witness:
  "redis_run demo_redis (map (\<lambda>t. (t, OpFailure ''admin'')) [1, 2, 3, 4, 5] @ [(6, OpLocked ''admin''), (7, OpReset ''admin''), (8, OpLocked ''admin'')]) [] =
     map (Inr \<circ> Some) [False, False, False, False, True] @ [Inr (Some True), Inr None, Inr (Some False)]"
proof -
  let ?xs = "map (\<lambda>t. (t, OpFailure ''admin'')) [1, 2, 3, 4, 5] @ [(6, OpLocked ''admin''), (7, OpReset ''admin''), (8, OpLocked ''admin'')]"
  note defs = off_edge_def NewMemory_def mem_RecordFailure_def mem_get_def mem_Reset_def mem_Locked_def LockThreshold_def LockWindow_def nanos_per_min_def Let_def
  have up: "redis_up demo_redis" by (simp add: redis_up_def demo_redis_def)
  have edge: "off_edges ?xs NewMemory" by (simp add: defs)
  have "mem_run ?xs NewMemory = [Some False, Some False, Some False, Some False, Some True, Some True, None, Some False]"
    by (simp add: defs)
  with redis_agrees_with_memory [OF demo_redis_laws up _ edge, of "[]"] show ?thesis by (simp del: map_append)
qed

end
