(* ===== verification/Alerting.thy ===== *)
theory Alerting
  imports Errx "HOL-Library.Char_ord" "HOL-Library.List_Lexorder"
begin

text \<open>
  Alert rules and the alert lifecycle: the entities (\<open>internal/alerting/domain/alert.go\<close>), the rule
  evaluator (\<open>internal/alerting/app/evaluator.go\<close>), rule validation (\<open>internal/alerting/app/rules.go\<close>)
  and the statements behind them (\<open>internal/alerting/adapters/postgres/store.go\<close>).

  The alert table is a list of instances; its unique index admits one unresolved instance per rule and
  fingerprint. What the evaluator is given is in the record \<open>alert_env\<close>: the clock, the metrics
  backend, SHA-256, fresh ids, the interface and exporter lookups, the silence check, the order in which
  Go visits a map, and the failure, if any, of each call to the store for each key. A \<open>float64\<close> is only
  carried, as its bits.

  Shown: what identifies a series; that a pass leaves exactly the matching series live, whatever its
  history, and touches no other rule; how re-firing counts as flapping and what is then still
  published; and that suppression removes only series it has a reason to remove.
\<close>

type_synonym labels = "(string, string) gomap"

definition lbl :: "labels \<Rightarrow> string \<Rightarrow> string" where
  "lbl ls k = (case map_of ls k of None \<Rightarrow> [] | Some v \<Rightarrow> v)"

datatype Severity = SevCritical | SevWarning | SevInfo
datatype AlertState = StateFiring | StateAcked | StateResolved | StateFlapping

record Rule =
  r_ID :: string
  r_Name :: string
  r_Kind :: string
  r_Severity :: Severity
  r_Expr :: string
  r_Annotations :: labels
  r_Enabled :: bool
  r_Builtin :: bool

record Instance =
  i_ID :: string
  i_RuleID :: string
  i_RuleName :: string
  i_Fingerprint :: string
  i_State :: AlertState
  i_Severity :: Severity
  i_DeviceID :: string
  i_InterfaceID :: string
  i_Labels :: labels
  i_Value :: float64
  i_FiredAt :: gotime
  i_AckedAt :: "gotime option"
  i_AckedBy :: string
  i_AckComment :: string
  i_ResolvedAt :: "gotime option"
  i_FlapCount :: int

definition FlapWindow :: int where "FlapWindow = 15 * nanos_per_min"
definition FlapThreshold :: int where "FlapThreshold = 3"

text \<open>The bytes that are hashed: the rule, then the labels by name, each with its two separators.\<close>

definition fp_keys :: "labels \<Rightarrow> string list" where
  "fp_keys ls = sort (filter (\<lambda>k. k \<noteq> ''__name__'') (map fst ls))"

definition fp_bytes :: "string \<Rightarrow> labels \<Rightarrow> string" where
  "fp_bytes rid ls = rid @ concat (map (\<lambda>k. CHR 0x00 # k @ CHR 0x01 # lbl ls k) (fp_keys ls))"

definition Fingerprint :: "(string \<Rightarrow> string) \<Rightarrow> string \<Rightarrow> labels \<Rightarrow> string" where
  "Fingerprint sha rid ls = take 32 (sha (fp_bytes rid ls))"

subsection \<open>The evaluator's surroundings\<close>

record Series =
  s_Labels :: labels
  s_Value :: float64

record InterfaceInfo =
  if_Name :: string
  if_Alias :: string
  if_EverUp :: bool

definition no_info :: InterfaceInfo where
  "no_info = \<lparr>if_Name = [], if_Alias = [], if_EverUp = False\<rparr>"

type_synonym ifmap = "(string, InterfaceInfo) gomap"

datatype alert_call = CallLive | CallRecent | CallFire | CallResolve | CallFlap | CallEvent | CallPublish

record alert_env =
  a_now :: gotime
  a_query :: "string \<Rightarrow> goerr + Series list"
  a_sha :: "string \<Rightarrow> string"
  a_id :: "nat \<Rightarrow> string"
  a_ifaces :: "((string \<Rightarrow> string \<Rightarrow> string) \<times> (string \<Rightarrow> ifmap)) option"
  a_exporters :: "(string \<Rightarrow> string \<times> string) option"
  a_silenced :: "(labels \<Rightarrow> goerr + bool) option"
  a_publisher :: bool
  a_order :: "string list \<Rightarrow> string list"
  a_fault :: "alert_call \<Rightarrow> string \<Rightarrow> goerr option"

datatype detail = NoDetail | FireDetail float64 int

record alerts =
  al_insts :: "Instance list"
  al_events :: "(string \<times> string \<times> string \<times> detail) list"
  al_pub :: "(string \<times> Instance \<times> Rule) list"
  al_next :: nat

subsection \<open>Statements\<close>

definition live_inst :: "Instance \<Rightarrow> bool" where
  "live_inst i \<longleftrightarrow> i_State i \<noteq> StateResolved"

definition LiveByRule :: "alert_env \<Rightarrow> string \<Rightarrow> alerts \<Rightarrow> goerr + Instance list" where
  "LiveByRule env rid s = (case a_fault env CallLive rid of Some e \<Rightarrow> Inl e
     | None \<Rightarrow> Inr (filter (\<lambda>i. i_RuleID i = rid \<and> live_inst i) (al_insts s)))"

definition newer :: "Instance option \<Rightarrow> Instance \<Rightarrow> Instance option" where
  "newer best i = (case best of None \<Rightarrow> Some i
     | Some j \<Rightarrow> if (case (i_ResolvedAt j, i_ResolvedAt i) of (Some a, Some b) \<Rightarrow> a < b | _ \<Rightarrow> False) then Some i else Some j)"

definition RecentResolved :: "alert_env \<Rightarrow> string \<Rightarrow> string \<Rightarrow> gotime \<Rightarrow> alerts \<Rightarrow> goerr + Instance option" where
  "RecentResolved env rid fp since s = (case a_fault env CallRecent fp of Some e \<Rightarrow> Inl e
     | None \<Rightarrow> Inr (foldl newer None (filter (\<lambda>i. i_RuleID i = rid \<and> i_Fingerprint i = fp \<and> i_State i = StateResolved \<and>
         (case i_ResolvedAt i of None \<Rightarrow> False | Some t \<Rightarrow> since \<le> t)) (al_insts s))))"

text \<open>A row starts firing, unacknowledged and unresolved; the indexes may refuse it.\<close>

definition fire_conflict :: "Instance \<Rightarrow> alerts \<Rightarrow> bool" where
  "fire_conflict i s \<longleftrightarrow> list_ex (\<lambda>j. i_ID j = i_ID i \<or>
     (i_RuleID j = i_RuleID i \<and> i_Fingerprint j = i_Fingerprint i \<and> live_inst j)) (al_insts s)"

definition fired_row :: "Instance \<Rightarrow> Instance" where
  "fired_row i = i\<lparr>i_State := StateFiring, i_AckedAt := None, i_AckedBy := [], i_AckComment := [], i_ResolvedAt := None\<rparr>"

definition Fire :: "alert_env \<Rightarrow> Instance \<Rightarrow> alerts \<Rightarrow> goerr option \<times> alerts" where
  "Fire env i s = (case a_fault env CallFire (i_ID i) of Some e \<Rightarrow> (Some e, s)
     | None \<Rightarrow> if fire_conflict i s then (Some (KindError KindTransient (ErrMsg ''fire alert'' (ErrLeaf ''unique''))), s)
               else (None, s\<lparr>al_insts := al_insts s @ [fired_row i]\<rparr>))"

definition update_inst :: "(Instance \<Rightarrow> bool) \<Rightarrow> (Instance \<Rightarrow> Instance) \<Rightarrow> alerts \<Rightarrow> alerts" where
  "update_inst P f s = s\<lparr>al_insts := map (\<lambda>i. if P i then f i else i) (al_insts s)\<rparr>"

definition Resolve :: "alert_env \<Rightarrow> string \<Rightarrow> gotime \<Rightarrow> alerts \<Rightarrow> goerr option \<times> alerts" where
  "Resolve env iid at s = (case a_fault env CallResolve iid of Some e \<Rightarrow> (Some e, s)
     | None \<Rightarrow> (None, update_inst (\<lambda>i. i_ID i = iid \<and> live_inst i)
         (\<lambda>i. i\<lparr>i_State := StateResolved, i_ResolvedAt := Some at\<rparr>) s))"

definition SetFlapping :: "alert_env \<Rightarrow> string \<Rightarrow> alerts \<Rightarrow> goerr option \<times> alerts" where
  "SetFlapping env iid s = (case a_fault env CallFlap iid of Some e \<Rightarrow> (Some e, s)
     | None \<Rightarrow> (None, update_inst (\<lambda>i. i_ID i = iid) (\<lambda>i. i\<lparr>i_State := StateFlapping\<rparr>) s))"

definition AppendEvent :: "alert_env \<Rightarrow> string \<Rightarrow> string \<Rightarrow> string \<Rightarrow> detail \<Rightarrow> alerts \<Rightarrow> alerts" where
  "AppendEvent env iid event actor d s = (case a_fault env CallEvent iid of Some e \<Rightarrow> s
     | None \<Rightarrow> s\<lparr>al_events := al_events s @ [(iid, event, actor, d)]\<rparr>)"

definition Ack :: "string \<Rightarrow> string \<Rightarrow> string \<Rightarrow> gotime \<Rightarrow> alerts \<Rightarrow> goerr option \<times> alerts" where
  "Ack iid uid comment at s =
     (let P = (\<lambda>i. i_ID i = iid \<and> (i_State i = StateFiring \<or> i_State i = StateFlapping)) in
      if list_ex P (al_insts s)
      then (None, update_inst P (\<lambda>i. i\<lparr>i_State := StateAcked, i_AckedAt := Some at, i_AckedBy := uid, i_AckComment := comment\<rparr>) s)
      else (Some (errx_New KindConflict ''alert is not in an acknowledgeable state''), s))"

definition Unack :: "string \<Rightarrow> alerts \<Rightarrow> goerr option \<times> alerts" where
  "Unack iid s =
     (let P = (\<lambda>i. i_ID i = iid \<and> i_State i = StateAcked) in
      if list_ex P (al_insts s)
      then (None, update_inst P (\<lambda>i. i\<lparr>i_State := StateFiring, i_AckedAt := None, i_AckedBy := [], i_AckComment := []\<rparr>) s)
      else (Some (errx_New KindConflict ''alert is not acknowledged''), s))"

text \<open>
  The rows of the active silences: a row may fail to scan, and a scope that is not a JSON object of
  strings is \<open>None\<close>; the query may fail at its start or, after its rows, at its end.
\<close>

definition scope_matches :: "labels \<Rightarrow> labels \<Rightarrow> bool" where
  "scope_matches ls scope \<longleftrightarrow> scope \<noteq> [] \<and> list_all (\<lambda>(k, v). lbl ls k = v) scope"

primrec silence_rows :: "labels \<Rightarrow> goerr option \<Rightarrow> (goerr + labels option) list \<Rightarrow> goerr + bool" where
  "silence_rows ls end_err [] = (case end_err of None \<Rightarrow> Inr False | Some e \<Rightarrow> Inl e)"
| "silence_rows ls end_err (r # rs) =
     (case r of Inl e \<Rightarrow> Inl e
      | Inr None \<Rightarrow> silence_rows ls end_err rs
      | Inr (Some sc) \<Rightarrow> if scope_matches ls sc then Inr True else silence_rows ls end_err rs)"

definition Silenced :: "goerr + (goerr + labels option) list \<times> goerr option \<Rightarrow> labels \<Rightarrow> goerr + bool" where
  "Silenced q ls = (case q of Inl e \<Rightarrow> Inl e | Inr (rows, end_err) \<Rightarrow> silence_rows ls end_err rows)"

subsection \<open>Suppression\<close>

text \<open>\<open>name[:strings.LastIndex(name, ".")]\<close> when the dot is not at the front.\<close>

primrec last_dot :: "string \<Rightarrow> nat \<Rightarrow> nat option \<Rightarrow> nat option" where
  "last_dot [] n best = best"
| "last_dot (c # cs) n best = last_dot cs (n + 1) (if c = CHR ''.'' then Some n else best)"

definition parentInterface :: "string \<Rightarrow> string" where
  "parentInterface name = (case last_dot name 0 None of None \<Rightarrow> [] | Some i \<Rightarrow> if 0 < i then take i name else [])"

type_synonym devmap = "(string, ifmap) gomap"
type_synonym firingmap = "(string, (string, bool) gomap) gomap"

definition if_info :: "devmap \<Rightarrow> string \<Rightarrow> string \<Rightarrow> InterfaceInfo option" where
  "if_info m dev ix = (case map_of m dev of None \<Rightarrow> None | Some im \<Rightarrow> map_of im ix)"

definition is_firing :: "firingmap \<Rightarrow> string \<Rightarrow> string \<Rightarrow> bool" where
  "is_firing m dev n = (case map_of m dev of None \<Rightarrow> False | Some nm \<Rightarrow> (case map_of nm n of None \<Rightarrow> False | Some b \<Rightarrow> b))"

definition note_series :: "(string \<Rightarrow> ifmap) \<Rightarrow> devmap \<times> firingmap \<Rightarrow> Series \<Rightarrow> devmap \<times> firingmap" where
  "note_series get mm s =
     (let (ifaces, firing) = mm; dev = lbl (s_Labels s) ''device_id''; ix = lbl (s_Labels s) ''if_index'' in
      if dev = [] \<or> ix = [] then mm
      else let (ifaces, firing) = (if map_of ifaces dev = None
                 then (AList.update dev (get dev) ifaces, AList.update dev [] firing) else (ifaces, firing));
               n = (case if_info ifaces dev ix of None \<Rightarrow> [] | Some i \<Rightarrow> if_Name i)
           in if n = [] then (ifaces, firing)
              else (ifaces, AList.update dev (AList.update n True (case map_of firing dev of None \<Rightarrow> [] | Some m \<Rightarrow> m)) firing))"

definition suppressed :: "devmap \<Rightarrow> firingmap \<Rightarrow> Series \<Rightarrow> bool" where
  "suppressed ifaces firing s =
     (let dev = lbl (s_Labels s) ''device_id''; ix = lbl (s_Labels s) ''if_index'';
          known = if_info ifaces dev ix; info = (case known of None \<Rightarrow> no_info | Some i \<Rightarrow> i)
      in (if_Name info \<noteq> [] \<and> is_firing firing dev (parentInterface (if_Name info))) \<or>
         (known \<noteq> None \<and> \<not> if_EverUp info))"

definition suppressNoise :: "alert_env \<Rightarrow> Series list \<Rightarrow> Series list \<times> devmap" where
  "suppressNoise env ss =
     (case a_ifaces env of None \<Rightarrow> (ss, [])
      | Some (ifid, get) \<Rightarrow>
          let (ifaces, firing) = foldl (note_series get) ([], []) ss
          in (filter (\<lambda>s. \<not> suppressed ifaces firing s) ss, ifaces))"

subsection \<open>The evaluator\<close>

definition notify :: "alert_env \<Rightarrow> string \<Rightarrow> Instance \<Rightarrow> Rule \<Rightarrow> alerts \<Rightarrow> alerts" where
  "notify env event i rule s =
     (if i_State i = StateFlapping \<and> event = ''alert.fired'' then s
      else if (case a_silenced env of None \<Rightarrow> False | Some f \<Rightarrow> f (i_Labels i) = Inr True)
      then AppendEvent env (i_ID i) ''silenced'' [] NoDetail s
      else if a_publisher env \<and> a_fault env CallPublish (i_ID i) = None
      then s\<lparr>al_pub := al_pub s @ [(event, i, rule)]\<rparr> else s)"

definition put_label :: "string \<Rightarrow> string \<Rightarrow> labels \<Rightarrow> labels" where
  "put_label k v ls = (if v = [] then ls else AList.update k v ls)"

definition new_instance :: "alert_env \<Rightarrow> Rule \<Rightarrow> devmap \<Rightarrow> string \<Rightarrow> int \<Rightarrow> string \<Rightarrow> Series \<Rightarrow> Instance" where
  "new_instance env rule ifaces fp flap iid s =
     (let ls = s_Labels s; dev = lbl ls ''device_id''; ix = lbl ls ''if_index'';
          base = \<lparr>i_ID = iid, i_RuleID = r_ID rule, i_RuleName = r_Name rule, i_Fingerprint = fp, i_State = StateFiring,
            i_Severity = r_Severity rule, i_DeviceID = dev, i_InterfaceID = [], i_Labels = ls, i_Value = s_Value s,
            i_FiredAt = a_now env, i_AckedAt = None, i_AckedBy = [], i_AckComment = [], i_ResolvedAt = None, i_FlapCount = flap\<rparr>;
          inst = (case a_ifaces env of None \<Rightarrow> base
            | Some (ifid, get) \<Rightarrow>
                if ix \<noteq> [] \<and> dev \<noteq> [] then
                  let info = (case if_info ifaces dev ix of None \<Rightarrow> no_info | Some i \<Rightarrow> i)
                  in base\<lparr>i_InterfaceID := ifid dev ix,
                       i_Labels := put_label ''if_alias'' (if_Alias info) (put_label ''if_name'' (if_Name info) ls)\<rparr>
                else base);
          ex = lbl ls ''exporter''
      in if ex \<noteq> [] \<and> i_DeviceID inst = [] then
           let (did, name) = (case a_exporters env of None \<Rightarrow> ([], ex)
                 | Some f \<Rightarrow> (case f ex of (did, devName) \<Rightarrow>
                     if did \<noteq> [] then (did, if devName \<noteq> [] then devName else ex) else ([], ex)))
           in inst\<lparr>i_DeviceID := did, i_Labels := put_label ''device'' name (i_Labels inst)\<rparr>
         else inst)"

text \<open>The flap count of a new firing, and the firing itself.\<close>

definition flap_of :: "alert_env \<Rightarrow> Rule \<Rightarrow> string \<Rightarrow> alerts \<Rightarrow> int" where
  "flap_of env rule fp st = (case RecentResolved env (r_ID rule) fp (a_now env - FlapWindow) st of
     Inr (Some prev) \<Rightarrow> i_FlapCount prev + 1 | _ \<Rightarrow> 0)"

definition fire_inst :: "alert_env \<Rightarrow> Rule \<Rightarrow> Instance \<Rightarrow> alerts \<Rightarrow> alerts" where
  "fire_inst env rule inst st =
     (case Fire env inst st of (Some e, st) \<Rightarrow> st
      | (None, st) \<Rightarrow>
          let (inst, event, st) = (if FlapThreshold \<le> i_FlapCount inst then
                 (case SetFlapping env (i_ID inst) st of (None, st) \<Rightarrow> (inst\<lparr>i_State := StateFlapping\<rparr>, ''flap_start'', st)
                    | (Some e, st) \<Rightarrow> (inst, ''fired'', st))
               else (inst, ''fired'', st));
              st = AppendEvent env (i_ID inst) event [] (FireDetail (i_Value inst) (i_FlapCount inst)) st
          in notify env ''alert.fired'' inst rule st)"

definition fire_series :: "alert_env \<Rightarrow> Rule \<Rightarrow> devmap \<Rightarrow> string \<Rightarrow> Series \<Rightarrow> alerts \<Rightarrow> alerts" where
  "fire_series env rule ifaces fp s st =
     fire_inst env rule (new_instance env rule ifaces fp (flap_of env rule fp st) (a_id env (al_next st)) s)
       (st\<lparr>al_next := al_next st + 1\<rparr>)"

primrec fire_loop ::
  "alert_env \<Rightarrow> Rule \<Rightarrow> devmap \<Rightarrow> string list \<Rightarrow> Series list \<Rightarrow> string list \<Rightarrow> alerts \<Rightarrow> string list \<times> alerts" where
  "fire_loop env rule ifaces liveFP [] matched st = (matched, st)"
| "fire_loop env rule ifaces liveFP (s # ss) matched st =
     (let fp = Fingerprint (a_sha env) (r_ID rule) (s_Labels s) in
      if fp \<in> set matched then fire_loop env rule ifaces liveFP ss matched st
      else fire_loop env rule ifaces liveFP ss (fp # matched)
             (if fp \<in> set liveFP then st else fire_series env rule ifaces fp s st))"

definition resolve_inst :: "alert_env \<Rightarrow> Rule \<Rightarrow> Instance \<Rightarrow> alerts \<Rightarrow> alerts" where
  "resolve_inst env rule i st =
     (case Resolve env (i_ID i) (a_now env) st of (Some e, st) \<Rightarrow> st
      | (None, st) \<Rightarrow> notify env ''alert.resolved'' (i\<lparr>i_State := StateResolved\<rparr>) rule
           (AppendEvent env (i_ID i) ''resolved'' [] NoDetail st))"

primrec resolve_loop ::
  "alert_env \<Rightarrow> Rule \<Rightarrow> (string, Instance) gomap \<Rightarrow> string list \<Rightarrow> string list \<Rightarrow> alerts \<Rightarrow> alerts" where
  "resolve_loop env rule liveByFP matched [] st = st"
| "resolve_loop env rule liveByFP matched (fp # fps) st =
     resolve_loop env rule liveByFP matched fps
       (if fp \<in> set matched then st
        else case map_of liveByFP fp of None \<Rightarrow> st | Some i \<Rightarrow> resolve_inst env rule i st)"

definition live_map :: "Instance list \<Rightarrow> (string, Instance) gomap" where
  "live_map is = foldl (\<lambda>m i. AList.update (i_Fingerprint i) i m) [] is"

definition evalRule :: "alert_env \<Rightarrow> Rule \<Rightarrow> alerts \<Rightarrow> goerr option \<times> alerts" where
  "evalRule env rule st =
     (case a_query env (r_Expr rule) of Inl e \<Rightarrow> (Some (ErrMsg ''query'' e), st)
      | Inr ss \<Rightarrow>
          let (ss, ifaces) = suppressNoise env ss in
          (case LiveByRule env (r_ID rule) st of Inl e \<Rightarrow> (Some e, st)
           | Inr live \<Rightarrow>
               let liveByFP = live_map live;
                   (matched, st) = fire_loop env rule ifaces (map fst liveByFP) ss [] st
               in (None, resolve_loop env rule liveByFP matched (a_order env (map fst liveByFP)) st)))"

definition Cycle :: "alert_env \<Rightarrow> goerr + Rule list \<Rightarrow> alerts \<Rightarrow> alerts" where
  "Cycle env rules st = (case rules of Inl e \<Rightarrow> st
     | Inr rs \<Rightarrow> foldl (\<lambda>st rule. if r_Expr rule = [] then st else snd (evalRule env rule st)) st rs)"

subsection \<open>What a pass does to the table\<close>

abbreviation series_key :: "Instance \<Rightarrow> string \<times> string" where
  "series_key i \<equiv> (i_RuleID i, i_Fingerprint i)"

definition wf_alerts :: "alerts \<Rightarrow> bool" where
  "wf_alerts st \<longleftrightarrow> distinct (map i_ID (al_insts st)) \<and> distinct (map series_key (filter live_inst (al_insts st)))"

lemma AppendEvent_keeps [simp]:
  "al_insts (AppendEvent env iid ev act d st) = al_insts st" "al_next (AppendEvent env iid ev act d st) = al_next st"
  "al_pub (AppendEvent env iid ev act d st) = al_pub st"
  by (simp_all add: AppendEvent_def split: option.splits)

lemma notify_keeps [simp]:
  "al_insts (notify env ev i rule st) = al_insts st" "al_next (notify env ev i rule st) = al_next st"
  by (simp_all add: notify_def)

lemma new_instance_simps [simp]:
  "i_ID (new_instance env rule ifaces fp flap iid s) = iid" "i_RuleID (new_instance env rule ifaces fp flap iid s) = r_ID rule"
  "i_Fingerprint (new_instance env rule ifaces fp flap iid s) = fp" "i_FlapCount (new_instance env rule ifaces fp flap iid s) = flap"
  "i_FiredAt (new_instance env rule ifaces fp flap iid s) = a_now env" "i_State (new_instance env rule ifaces fp flap iid s) = StateFiring"
  by (auto simp: new_instance_def Let_def split: option.splits prod.splits)

lemma fired_row_simps [simp]:
  "i_ID (fired_row i) = i_ID i" "i_RuleID (fired_row i) = i_RuleID i" "i_Fingerprint (fired_row i) = i_Fingerprint i"
  "i_State (fired_row i) = StateFiring" "i_FlapCount (fired_row i) = i_FlapCount i" "i_ResolvedAt (fired_row i) = None"
  by (simp_all add: fired_row_def)

text \<open>The row a firing leaves in the table.\<close>

definition fire_row :: "alert_env \<Rightarrow> Rule \<Rightarrow> devmap \<Rightarrow> string \<Rightarrow> Series \<Rightarrow> alerts \<Rightarrow> Instance" where
  "fire_row env rule ifaces fp s st =
     (let flap = flap_of env rule fp st;
          i = fired_row (new_instance env rule ifaces fp flap (a_id env (al_next st)) s)
      in if FlapThreshold \<le> flap \<and> a_fault env CallFlap (a_id env (al_next st)) = None then i\<lparr>i_State := StateFlapping\<rparr> else i)"

lemma fire_row_simps [simp]:
  "i_ID (fire_row env rule ifaces fp s st) = a_id env (al_next st)" "i_RuleID (fire_row env rule ifaces fp s st) = r_ID rule"
  "i_Fingerprint (fire_row env rule ifaces fp s st) = fp" "live_inst (fire_row env rule ifaces fp s st)"
  "i_FlapCount (fire_row env rule ifaces fp s st) = flap_of env rule fp st"
  by (simp_all add: fire_row_def live_inst_def Let_def)

lemma update_new_id:
  "i_ID x \<notin> i_ID ` set xs \<Longrightarrow> map (\<lambda>i. if i_ID i = i_ID x then f i else i) (xs @ [x]) = xs @ [f x]"
  by (induction xs) auto

definition can_fire :: "alert_env \<Rightarrow> Rule \<Rightarrow> string \<Rightarrow> alerts \<Rightarrow> bool" where
  "can_fire env rule fp st \<longleftrightarrow> a_fault env CallFire (a_id env (al_next st)) = None \<and>
     (\<forall>j\<in>set (al_insts st). i_ID j \<noteq> a_id env (al_next st) \<and> \<not> (series_key j = (r_ID rule, fp) \<and> live_inst j))"

lemma fire_series_insts:
  "al_insts (fire_series env rule ifaces fp s st) =
     al_insts st @ (if can_fire env rule fp st then [fire_row env rule ifaces fp s st] else [])"
proof -
  define flap where "flap = flap_of env rule fp st"
  define inst where "inst = new_instance env rule ifaces fp flap (a_id env (al_next st)) s"
  define st1 where "st1 = st\<lparr>al_next := al_next st + 1\<rparr>"
  have id: "i_ID inst = a_id env (al_next st)" and st1: "al_insts st1 = al_insts st" by (simp_all add: inst_def st1_def)
  have conflict: "fire_conflict inst st1 \<longleftrightarrow>
      (\<exists>j\<in>set (al_insts st). i_ID j = a_id env (al_next st) \<or> series_key j = (r_ID rule, fp) \<and> live_inst j)"
    by (auto simp: fire_conflict_def inst_def st1_def list_ex_iff)
  have fs: "fire_series env rule ifaces fp s st = fire_inst env rule inst st1" and flap: "i_FlapCount inst = flap"
    by (simp_all add: fire_series_def inst_def st1_def flap_def)
  show ?thesis
  proof (cases "can_fire env rule fp st")
    case False
    then have "fst (Fire env inst st1) \<noteq> None" "snd (Fire env inst st1) = st1"
      using conflict by (auto simp: Fire_def can_fire_def id split: option.splits)
    with False show ?thesis by (auto simp: fs fire_inst_def st1 split: prod.splits option.splits)
  next
    case True
    then have fire: "Fire env inst st1 = (None, st1\<lparr>al_insts := al_insts st @ [fired_row inst]\<rparr>)"
      using conflict by (auto simp: Fire_def can_fire_def id st1 split: option.splits)
    have "i_ID (fired_row inst) \<notin> i_ID ` set (al_insts st)" using True by (auto simp: can_fire_def id)
    from update_new_id [OF this] have upd: "map (\<lambda>i. if i_ID i = a_id env (al_next st) then i\<lparr>i_State := StateFlapping\<rparr> else i)
        (al_insts st @ [fired_row inst]) = al_insts st @ [(fired_row inst)\<lparr>i_State := StateFlapping\<rparr>]"
      by (simp only: fired_row_simps id)
    have row: "fire_row env rule ifaces fp s st = (if FlapThreshold \<le> flap \<and> a_fault env CallFlap (a_id env (al_next st)) = None
        then (fired_row inst)\<lparr>i_State := StateFlapping\<rparr> else fired_row inst)"
      by (simp add: fire_row_def flap_def inst_def Let_def)
    show ?thesis using True upd
      by (simp add: fs fire_inst_def fire row flap SetFlapping_def update_inst_def id Let_def split: option.splits)
  qed
qed

lemma fire_series_next [simp]: "al_next (fire_series env rule ifaces fp s st) = al_next st + 1"
  by (auto simp: fire_series_def fire_inst_def Fire_def SetFlapping_def update_inst_def Let_def split: option.splits sum.splits)

lemma wf_append_live:
  assumes "wf_alerts st" and "al_insts st' = al_insts st @ [i]" and "live_inst i"
    and "\<forall>j\<in>set (al_insts st). i_ID j \<noteq> i_ID i \<and> \<not> (series_key j = series_key i \<and> live_inst j)"
  shows "wf_alerts st'"
  using assms by (auto simp: wf_alerts_def)

lemma wf_fire_series: "wf_alerts st \<Longrightarrow> wf_alerts (fire_series env rule ifaces fp s st)"
proof (cases "can_fire env rule fp st")
  case True
  assume "wf_alerts st"
  then show ?thesis
    by (rule wf_append_live [where i = "fire_row env rule ifaces fp s st"])
      (use True fire_series_insts [of env rule ifaces fp s st] in \<open>auto simp: can_fire_def\<close>)
next
  case False
  assume "wf_alerts st"
  with False show ?thesis by (simp add: wf_alerts_def fire_series_insts)
qed

abbreviation fp_of :: "alert_env \<Rightarrow> Rule \<Rightarrow> Series \<Rightarrow> string" where
  "fp_of env rule s \<equiv> Fingerprint (a_sha env) (r_ID rule) (s_Labels s)"

lemma fire_loop_matched: "set (fst (fire_loop env rule ifaces liveFP ss matched st)) = set matched \<union> fp_of env rule ` set ss"
  by (induction ss arbitrary: matched st) (auto simp: Let_def)

lemma fire_loop_wf: "wf_alerts st \<Longrightarrow> wf_alerts (snd (fire_loop env rule ifaces liveFP ss matched st))"
  by (induction ss arbitrary: matched st) (simp_all add: Let_def wf_fire_series)

lemma fire_loop_insts:
  "\<exists>rows. al_insts (snd (fire_loop env rule ifaces liveFP ss matched st)) = al_insts st @ rows \<and>
     (\<forall>i\<in>set rows. i_RuleID i = r_ID rule \<and> live_inst i \<and> i_Fingerprint i \<in> fp_of env rule ` set ss)"
proof (induction ss arbitrary: matched st)
  case (Cons s ss)
  let ?fp = "fp_of env rule s"
  show ?case
  proof (cases "?fp \<in> set matched")
    case True
    with Cons.IH [of matched st] show ?thesis by auto
  next
    case False
    let ?st = "if ?fp \<in> set liveFP then st else fire_series env rule ifaces ?fp s st"
    obtain rows where rows: "al_insts (snd (fire_loop env rule ifaces liveFP ss (?fp # matched) ?st)) = al_insts ?st @ rows"
      "\<forall>i\<in>set rows. i_RuleID i = r_ID rule \<and> live_inst i \<and> i_Fingerprint i \<in> fp_of env rule ` set ss"
      using Cons.IH [of "?fp # matched" ?st] by blast
    obtain r1 where r1: "al_insts ?st = al_insts st @ r1"
      "\<forall>i\<in>set r1. i_RuleID i = r_ID rule \<and> live_inst i \<and> i_Fingerprint i = ?fp"
    proof (cases "?fp \<notin> set liveFP \<and> can_fire env rule ?fp st")
      case True
      then show thesis by (intro that [of "[fire_row env rule ifaces ?fp s st]"]) (simp_all add: fire_series_insts)
    next
      case False
      then show thesis by (intro that [of "[]"]) (auto simp: fire_series_insts)
    qed
    show ?thesis
      by (rule exI [where x = "r1 @ rows"]) (use False rows r1 in \<open>auto simp: Let_def\<close>)
  qed
qed simp

definition live_fps :: "string \<Rightarrow> alerts \<Rightarrow> string set" where
  "live_fps rid st = i_Fingerprint ` {i \<in> set (al_insts st). i_RuleID i = rid \<and> live_inst i}"

definition healthy_alerts :: "alert_env \<Rightarrow> alerts \<Rightarrow> bool" where
  "healthy_alerts env st \<longleftrightarrow> a_fault env = (\<lambda>c k. None) \<and> inj (a_id env) \<and>
     (\<forall>n\<ge>al_next st. a_id env n \<notin> i_ID ` set (al_insts st)) \<and> (\<forall>ks. set (a_order env ks) = set ks)"

lemma healthy_fire:
  assumes "healthy_alerts env st"
  shows "healthy_alerts env (fire_series env rule ifaces fp s st)"
    and "live_fps (r_ID rule) (fire_series env rule ifaces fp s st) = insert fp (live_fps (r_ID rule) st)"
proof -
  have fresh: "\<forall>j\<in>set (al_insts st). i_ID j \<noteq> a_id env n" if "al_next st \<le> n" for n
    using assms that unfolding healthy_alerts_def by (metis imageI)
  have ok: "a_fault env = (\<lambda>c k. None)" "inj (a_id env)" using assms by (auto simp: healthy_alerts_def)
  show "healthy_alerts env (fire_series env rule ifaces fp s st)"
    unfolding healthy_alerts_def
  proof (intro conjI allI impI)
    fix n assume "al_next (fire_series env rule ifaces fp s st) \<le> n"
    then show "a_id env n \<notin> i_ID ` set (al_insts (fire_series env rule ifaces fp s st))"
      using fresh [of n] ok(2) by (auto simp: fire_series_insts inj_eq)
  qed (use assms in \<open>auto simp: healthy_alerts_def\<close>)
  show "live_fps (r_ID rule) (fire_series env rule ifaces fp s st) = insert fp (live_fps (r_ID rule) st)"
  proof (cases "can_fire env rule fp st")
    case True
    then show ?thesis
      by (auto simp: live_fps_def fire_series_insts intro: image_eqI [where x = "fire_row env rule ifaces fp s st"])
  next
    case False
    then have "fp \<in> live_fps (r_ID rule) st"
      using ok(1) fresh [of "al_next st"] by (auto simp: can_fire_def live_fps_def)
    with False show ?thesis by (auto simp: live_fps_def fire_series_insts)
  qed
qed

lemma fire_loop_live:
  assumes "healthy_alerts env st" and "set liveFP \<subseteq> live_fps (r_ID rule) st" and "set matched \<subseteq> live_fps (r_ID rule) st"
  shows "healthy_alerts env (snd (fire_loop env rule ifaces liveFP ss matched st)) \<and>
    live_fps (r_ID rule) (snd (fire_loop env rule ifaces liveFP ss matched st)) = live_fps (r_ID rule) st \<union> fp_of env rule ` set ss"
  using assms
proof (induction ss arbitrary: matched st)
  case (Cons s ss)
  let ?fp = "fp_of env rule s"
  let ?st = "if ?fp \<in> set liveFP then st else fire_series env rule ifaces ?fp s st"
  have st: "healthy_alerts env ?st" "live_fps (r_ID rule) ?st = insert ?fp (live_fps (r_ID rule) st)"
    using Cons.prems healthy_fire [OF Cons.prems(1)] by auto
  show ?case
  proof (cases "?fp \<in> set matched")
    case True
    then show ?thesis using Cons.IH [OF Cons.prems] Cons.prems(3) by (auto simp: Let_def)
  next
    case False
    have "set liveFP \<subseteq> live_fps (r_ID rule) ?st" "set (?fp # matched) \<subseteq> live_fps (r_ID rule) ?st"
      using Cons.prems(2,3) st(2) by auto
    from Cons.IH [OF st(1) this] False st(2) show ?thesis by (simp add: Let_def)
  qed
qed simp

text \<open>Resolving ends the rows with the given ids and leaves all others as they are.\<close>

definition resolved_row :: "gotime \<Rightarrow> string set \<Rightarrow> Instance \<Rightarrow> Instance" where
  "resolved_row at R i = (if i_ID i \<in> R \<and> live_inst i then i\<lparr>i_State := StateResolved, i_ResolvedAt := Some at\<rparr> else i)"

lemma resolved_row_simps [simp]:
  "i_ID (resolved_row at R i) = i_ID i" "i_RuleID (resolved_row at R i) = i_RuleID i"
  "i_Fingerprint (resolved_row at R i) = i_Fingerprint i" "resolved_row at {} i = i"
  "live_inst (resolved_row at R i) \<longleftrightarrow> live_inst i \<and> i_ID i \<notin> R"
  by (auto simp: resolved_row_def live_inst_def)

lemma map_resolved_none [simp]: "map (resolved_row at {}) is = is"
  by (induction "is") simp_all

lemma resolved_row_comp: "resolved_row at R (resolved_row at R' i) = resolved_row at (R' \<union> R) i"
  by (auto simp: resolved_row_def live_inst_def)

lemma resolve_inst_insts:
  "al_insts (resolve_inst env rule i st) =
     map (resolved_row (a_now env) (if a_fault env CallResolve (i_ID i) = None then {i_ID i} else {})) (al_insts st)"
  by (auto simp: resolve_inst_def Resolve_def update_inst_def resolved_row_def split: option.splits)

definition to_resolve :: "(string, Instance) gomap \<Rightarrow> string list \<Rightarrow> string list \<Rightarrow> string set" where
  "to_resolve m matched fps = {i_ID i | i fp. fp \<in> set fps \<and> fp \<notin> set matched \<and> map_of m fp = Some i}"

lemma resolve_loop_insts:
  "\<exists>R \<subseteq> to_resolve m matched fps. al_insts (resolve_loop env rule m matched fps st) = map (resolved_row (a_now env) R) (al_insts st) \<and>
     (a_fault env = (\<lambda>c k. None) \<longrightarrow> R = to_resolve m matched fps)"
proof (induction fps arbitrary: st)
  case Nil
  then show ?case by (auto simp: to_resolve_def intro!: exI [where x = "{}"])
next
  case (Cons fp fps)
  define st1 where "st1 = (if fp \<in> set matched then st else case map_of m fp of None \<Rightarrow> st | Some i \<Rightarrow> resolve_inst env rule i st)"
  obtain R1 where R1: "R1 \<subseteq> to_resolve m matched [fp]" "al_insts st1 = map (resolved_row (a_now env) R1) (al_insts st)"
    "a_fault env = (\<lambda>c k. None) \<longrightarrow> R1 = to_resolve m matched [fp]"
  proof (cases "fp \<in> set matched \<or> map_of m fp = None")
    case True
    then have "al_insts st1 = map (resolved_row (a_now env) {}) (al_insts st)" "to_resolve m matched [fp] = {}"
      by (auto simp: st1_def to_resolve_def)
    then show thesis by (intro that [of "{}"]) auto
  next
    case False
    then obtain i where "fp \<notin> set matched" "map_of m fp = Some i" by auto
    then show thesis
      by (intro that [of "if a_fault env CallResolve (i_ID i) = None then {i_ID i} else {}"])
        (auto simp: st1_def to_resolve_def resolve_inst_insts)
  qed
  obtain R where R: "R \<subseteq> to_resolve m matched fps" "a_fault env = (\<lambda>c k. None) \<longrightarrow> R = to_resolve m matched fps"
    "al_insts (resolve_loop env rule m matched fps st1) = map (resolved_row (a_now env) R) (al_insts st1)"
    using Cons.IH [of st1] by blast
  have "to_resolve m matched (fp # fps) = to_resolve m matched [fp] \<union> to_resolve m matched fps"
    by (auto simp: to_resolve_def)
  with R R1 show ?case
    by (intro exI [where x = "R1 \<union> R"]) (auto simp: st1_def [symmetric] resolved_row_comp comp_def)
qed

lemma wf_resolved:
  assumes "wf_alerts st" and "al_insts st' = map (resolved_row at R) (al_insts st)"
  shows "wf_alerts st'"
proof -
  have "distinct (map series_key (filter live_inst (map (resolved_row at R) is)))"
    if "distinct (map series_key (filter live_inst is))" for "is"
    using that by (induction "is") (auto simp: image_iff split: if_splits)
  with assms show ?thesis by (simp add: wf_alerts_def comp_def)
qed

lemma live_map_snoc: "live_map (is @ [i]) = AList.update (i_Fingerprint i) i (live_map is)"
  by (simp add: live_map_def)

lemma map_of_live_map:
  "distinct (map i_Fingerprint is) \<Longrightarrow> map_of (live_map is) fp = Some i \<longleftrightarrow> i \<in> set is \<and> i_Fingerprint i = fp"
  by (induction "is" rule: rev_induct) (auto simp: live_map_def [of "[]"] live_map_snoc update_conv' image_iff)

lemma live_map_keys: "set (map fst (live_map is)) = i_Fingerprint ` set is"
  by (induction "is" rule: rev_induct) (auto simp: live_map_def [of "[]"] live_map_snoc dom_update)

lemma wf_live_fps: "wf_alerts st \<Longrightarrow> distinct (map i_Fingerprint (filter (\<lambda>i. i_RuleID i = rid \<and> live_inst i) (al_insts st)))"
proof -
  have "distinct (map i_Fingerprint (filter (\<lambda>i. i_RuleID i = rid \<and> live_inst i) is))"
    if "distinct (map series_key (filter live_inst is))" for "is"
    using that by (induction "is") (auto simp: image_iff split: if_splits)
  then show "wf_alerts st \<Longrightarrow> ?thesis" by (simp add: wf_alerts_def)
qed

lemma live_fps_resolved:
  assumes "al_insts st' = map (resolved_row at R) xs"
  shows "live_fps rid st' = i_Fingerprint ` {i \<in> set xs. i_RuleID i = rid \<and> live_inst i \<and> i_ID i \<notin> R}"
proof -
  have "{j \<in> resolved_row at R ` set xs. i_RuleID j = rid \<and> live_inst j} =
      resolved_row at R ` {i \<in> set xs. i_RuleID i = rid \<and> live_inst i \<and> i_ID i \<notin> R}" by auto
  then show ?thesis by (simp add: live_fps_def assms image_image)
qed

text \<open>The whole pass over one rule, when its query and the read of its live alerts succeed.\<close>

lemma evalRule_insts:
  assumes "wf_alerts st" and "a_query env (r_Expr rule) = Inr ss" and "a_fault env CallLive (r_ID rule) = None"
  obtains rows R where "al_insts (snd (evalRule env rule st)) = map (resolved_row (a_now env) R) (al_insts st @ rows)"
    and "wf_alerts (snd (evalRule env rule st))"
    and "\<forall>i\<in>set rows. i_RuleID i = r_ID rule \<and> live_inst i \<and> i_Fingerprint i \<in> fp_of env rule ` set (fst (suppressNoise env ss))"
    and "R \<subseteq> {i_ID i | i. i \<in> set (al_insts st) \<and> i_RuleID i = r_ID rule \<and> live_inst i \<and>
           i_Fingerprint i \<notin> fp_of env rule ` set (fst (suppressNoise env ss))}"
    and "healthy_alerts env st \<longrightarrow>
      R = {i_ID i | i. i \<in> set (al_insts st) \<and> i_RuleID i = r_ID rule \<and> live_inst i \<and>
           i_Fingerprint i \<notin> fp_of env rule ` set (fst (suppressNoise env ss))} \<and>
      i_Fingerprint ` {i \<in> set (al_insts st @ rows). i_RuleID i = r_ID rule \<and> live_inst i} =
        live_fps (r_ID rule) st \<union> fp_of env rule ` set (fst (suppressNoise env ss))"
proof -
  obtain ss' ifaces where sup: "suppressNoise env ss = (ss', ifaces)" by force
  define live where "live = filter (\<lambda>i. i_RuleID i = r_ID rule \<and> live_inst i) (al_insts st)"
  define m where "m = live_map live"
  obtain matched st1 where fl: "fire_loop env rule ifaces (map fst m) ss' [] st = (matched, st1)" by force
  have ev: "snd (evalRule env rule st) = resolve_loop env rule m matched (a_order env (map fst m)) st1"
    using assms(2,3) sup fl by (simp add: evalRule_def LiveByRule_def live_def m_def Let_def)
  have matched: "set matched = fp_of env rule ` set ss'"
    using fire_loop_matched [of env rule ifaces "map fst m" ss' "[]" st] fl by simp
  obtain rows where rows: "al_insts st1 = al_insts st @ rows"
    "\<forall>i\<in>set rows. i_RuleID i = r_ID rule \<and> live_inst i \<and> i_Fingerprint i \<in> fp_of env rule ` set ss'"
    using fire_loop_insts [of env rule ifaces "map fst m" ss' "[]" st] fl by auto
  obtain R where R: "R \<subseteq> to_resolve m matched (a_order env (map fst m))"
    "al_insts (resolve_loop env rule m matched (a_order env (map fst m)) st1) = map (resolved_row (a_now env) R) (al_insts st1)"
    "a_fault env = (\<lambda>c k. None) \<longrightarrow> R = to_resolve m matched (a_order env (map fst m))"
    using resolve_loop_insts [of m matched "a_order env (map fst m)" env rule st1] by (elim exE conjE) (rule that)
  let ?old = "{i_ID i | i. i \<in> set (al_insts st) \<and> i_RuleID i = r_ID rule \<and> live_inst i \<and> i_Fingerprint i \<notin> fp_of env rule ` set ss'}"
  have dist: "distinct (map i_Fingerprint live)" using wf_live_fps [OF assms(1)] by (simp add: live_def)
  have sub: "to_resolve m matched (a_order env (map fst m)) \<subseteq> ?old"
    using map_of_live_map [OF dist] by (auto simp: to_resolve_def m_def matched live_def)
  have wf: "wf_alerts st1" using fire_loop_wf [OF assms(1)] fl by (metis snd_conv)
  have healthy: "R = ?old \<and> i_Fingerprint ` {i \<in> set (al_insts st @ rows). i_RuleID i = r_ID rule \<and> live_inst i} =
      live_fps (r_ID rule) st \<union> fp_of env rule ` set ss'" if h: "healthy_alerts env st"
  proof
    have ord: "set (a_order env (map fst m)) = i_Fingerprint ` set live" and nofault: "a_fault env = (\<lambda>c k. None)"
      using h unfolding healthy_alerts_def m_def by (metis live_map_keys)+
    have "?old \<subseteq> to_resolve m matched (a_order env (map fst m))"
      unfolding to_resolve_def ord using map_of_live_map [OF dist] by (auto simp: m_def matched live_def)
    with R(3) nofault sub show "R = ?old" by auto
    have "set (map fst m) \<subseteq> live_fps (r_ID rule) st" unfolding m_def live_map_keys by (auto simp: live_def live_fps_def)
    from fire_loop_live [OF h this, of "[]" ifaces ss'] fl rows(1)
    show "i_Fingerprint ` {i \<in> set (al_insts st @ rows). i_RuleID i = r_ID rule \<and> live_inst i} =
      live_fps (r_ID rule) st \<union> fp_of env rule ` set ss'" by (simp add: live_fps_def)
  qed
  show thesis
    by (rule that [of R rows])
      (use ev R rows sub sup healthy wf_resolved [OF wf R(2)] in \<open>auto simp: matched\<close>)
qed

text \<open>
  C22. A pass over a rule makes the live alerts match the metrics: whatever the history, afterwards the
  unresolved instances of the rule are exactly one for each fingerprint among the series that survive
  suppression; an alert that was live and still matches is the same row, unchanged (an acknowledgement
  included); one that no longer matches is resolved as of now; and the rows of every other rule are
  untouched.
\<close>

theorem evalRule_matches_metrics:
  assumes "wf_alerts st" and "healthy_alerts env st" and "a_query env (r_Expr rule) = Inr ss"
  defines "now_matching \<equiv> (\<lambda>s. Fingerprint (a_sha env) (r_ID rule) (s_Labels s)) ` set (fst (suppressNoise env ss))"
    and "st' \<equiv> snd (evalRule env rule st)"
  shows "live_fps (r_ID rule) st' = now_matching \<and> wf_alerts st' \<and>
    (\<forall>i \<in> set (al_insts st). i_RuleID i = r_ID rule \<and> live_inst i \<longrightarrow>
       (if i_Fingerprint i \<in> now_matching then i else i\<lparr>i_State := StateResolved, i_ResolvedAt := Some (a_now env)\<rparr>) \<in> set (al_insts st')) \<and>
    filter (\<lambda>i. i_RuleID i \<noteq> r_ID rule) (al_insts st') = filter (\<lambda>i. i_RuleID i \<noteq> r_ID rule) (al_insts st)"
proof -
  have "a_fault env CallLive (r_ID rule) = None" using assms(2) by (simp add: healthy_alerts_def)
  from assms(1,3) this obtain rows R where ins: "al_insts st' = map (resolved_row (a_now env) R) (al_insts st @ rows)"
    and wf: "wf_alerts st'" and rows: "\<forall>i\<in>set rows. i_RuleID i = r_ID rule \<and> live_inst i \<and> i_Fingerprint i \<in> now_matching"
    and "healthy_alerts env st \<longrightarrow>
      R = {i_ID i | i. i \<in> set (al_insts st) \<and> i_RuleID i = r_ID rule \<and> live_inst i \<and> i_Fingerprint i \<notin> now_matching} \<and>
      i_Fingerprint ` {i \<in> set (al_insts st @ rows). i_RuleID i = r_ID rule \<and> live_inst i} = live_fps (r_ID rule) st \<union> now_matching"
    unfolding now_matching_def st'_def by (rule evalRule_insts)
  then have R: "R = {i_ID i | i. i \<in> set (al_insts st) \<and> i_RuleID i = r_ID rule \<and> live_inst i \<and> i_Fingerprint i \<notin> now_matching}"
    and fps: "i_Fingerprint ` {i \<in> set (al_insts st @ rows). i_RuleID i = r_ID rule \<and> live_inst i} = live_fps (r_ID rule) st \<union> now_matching"
    using assms(2) by auto
  have ids: "distinct (map i_ID (al_insts st @ rows))"
    using wf ins by (simp add: wf_alerts_def comp_def)
  have inR: "i_ID i \<in> R \<longleftrightarrow> i_RuleID i = r_ID rule \<and> live_inst i \<and> i_Fingerprint i \<notin> now_matching"
    if "i \<in> set (al_insts st @ rows)" for i
  proof
    assume "i_ID i \<in> R"
    then obtain j where "j \<in> set (al_insts st)" "i_ID j = i_ID i" "i_RuleID j = r_ID rule" "live_inst j" "i_Fingerprint j \<notin> now_matching"
      unfolding R by auto
    moreover from this have "j = i" using that ids by (auto simp: distinct_map dest: inj_onD)
    ultimately show "i_RuleID i = r_ID rule \<and> live_inst i \<and> i_Fingerprint i \<notin> now_matching" by simp
  qed (use that rows in \<open>auto simp: R\<close>)
  have "live_fps (r_ID rule) st' =
      i_Fingerprint ` {i \<in> set (al_insts st @ rows). i_RuleID i = r_ID rule \<and> live_inst i \<and> i_Fingerprint i \<in> now_matching}"
    unfolding live_fps_resolved [OF ins] by (rule image_cong) (use inR in blast)+
  also have "\<dots> = now_matching" using fps by auto
  finally have "live_fps (r_ID rule) st' = now_matching" .
  moreover have "resolved_row (a_now env) R i = (if i_Fingerprint i \<in> now_matching then i else i\<lparr>i_State := StateResolved, i_ResolvedAt := Some (a_now env)\<rparr>)"
    if "i \<in> set (al_insts st)" "i_RuleID i = r_ID rule" "live_inst i" for i
    using inR [of i] that by (auto simp: resolved_row_def)
  moreover have other: "resolved_row (a_now env) R i = i" if "i \<in> set (al_insts st @ rows)" "i_RuleID i \<noteq> r_ID rule" for i
    using inR [OF that(1)] that(2) by (auto simp: resolved_row_def)
  moreover have "filter (\<lambda>i. i_RuleID i \<noteq> r_ID rule) (al_insts st') = filter (\<lambda>i. i_RuleID i \<noteq> r_ID rule) (al_insts st)"
  proof -
    have "filter (\<lambda>i. i_RuleID i \<noteq> r_ID rule) rows = []" using rows by (simp add: filter_empty_conv)
    then have "filter (\<lambda>i. i_RuleID i \<noteq> r_ID rule) (al_insts st') =
        map (resolved_row (a_now env) R) (filter (\<lambda>i. i_RuleID i \<noteq> r_ID rule) (al_insts st))"
      by (simp add: ins filter_map comp_def)
    also have "\<dots> = filter (\<lambda>i. i_RuleID i \<noteq> r_ID rule) (al_insts st)" by (rule map_idI) (use other in auto)
    finally show ?thesis .
  qed
  moreover have "resolved_row (a_now env) R i \<in> set (al_insts st')" if "i \<in> set (al_insts st)" for i using that ins by simp
  ultimately show ?thesis using wf by (metis (no_types, lifting))
qed

subsection \<open>The lifecycle\<close>

lemma evalRule_cases:
  "snd (evalRule env rule st) = st \<or>
   (\<exists>ss. a_query env (r_Expr rule) = Inr ss \<and> a_fault env CallLive (r_ID rule) = None)"
  by (auto simp: evalRule_def LiveByRule_def Let_def split: sum.splits option.splits prod.splits)

lemma evalRule_wf: "wf_alerts st \<Longrightarrow> wf_alerts (snd (evalRule env rule st))"
  using evalRule_cases [of env rule st] by (metis evalRule_insts)

lemma evalRule_other:
  assumes "wf_alerts st" and "rid \<noteq> r_ID rule"
  shows "filter (\<lambda>i. i_RuleID i = rid) (al_insts (snd (evalRule env rule st))) = filter (\<lambda>i. i_RuleID i = rid) (al_insts st)"
  using evalRule_cases [of env rule st]
proof (elim disjE exE conjE)
  fix ss assume q: "a_query env (r_Expr rule) = Inr ss" "a_fault env CallLive (r_ID rule) = None"
  obtain rows R where a: "al_insts (snd (evalRule env rule st)) = map (resolved_row (a_now env) R) (al_insts st @ rows)"
    "wf_alerts (snd (evalRule env rule st))" "\<forall>i\<in>set rows. i_RuleID i = r_ID rule"
    "R \<subseteq> {i_ID i | i. i \<in> set (al_insts st) \<and> i_RuleID i = r_ID rule}"
    by (rule evalRule_insts [OF assms(1) q]) (rule that, assumption+, force, force)
  have "i_ID i \<notin> R" if i: "i \<in> set (al_insts st)" "i_RuleID i = rid" for i
  proof
    assume "i_ID i \<in> R"
    with a(4) obtain j where "j \<in> set (al_insts st)" "i_RuleID j = r_ID rule" "i_ID j = i_ID i" by auto
    moreover from this have "j = i" using assms(1) i(1) by (auto simp: wf_alerts_def distinct_map dest: inj_onD)
    ultimately show False using i(2) assms(2) by simp
  qed
  then have "map (resolved_row (a_now env) R) (filter (\<lambda>i. i_RuleID i = rid) (al_insts st)) = filter (\<lambda>i. i_RuleID i = rid) (al_insts st)"
    by (intro map_idI) (simp add: resolved_row_def)
  moreover have "filter (\<lambda>i. i_RuleID i = rid) rows = []" using a(3) assms(2) by (simp add: filter_empty_conv)
  ultimately show ?thesis by (simp add: a(1) filter_map comp_def)
qed simp

lemma wf_update_live:
  assumes "wf_alerts st" and "\<And>i. P i \<Longrightarrow> i_ID (f i) = i_ID i \<and> series_key (f i) = series_key i \<and> live_inst (f i) = live_inst i"
  shows "wf_alerts (update_inst P f st)"
proof -
  let ?g = "\<lambda>i. if P i then f i else i"
  have g: "i_ID (?g i) = i_ID i" "series_key (?g i) = series_key i" "live_inst (?g i) = live_inst i" for i using assms(2) by auto
  have "filter live_inst (map ?g is) = map ?g (filter live_inst is)" for "is" by (simp add: filter_map comp_def g(3))
  then have "map series_key (filter live_inst (map ?g is)) = map series_key (filter live_inst is)" for "is"
    by (simp add: g(2) cong: map_cong)
  moreover have "map (\<lambda>i. i_ID (?g i)) is = map i_ID is" for "is" by (simp only: g(1))
  ultimately show ?thesis using assms(1) unfolding wf_alerts_def update_inst_def by (simp add: comp_def g(1))
qed

text \<open>Everything that changes the alert table, with any failures.\<close>

inductive alert_step :: "alerts \<Rightarrow> alerts \<Rightarrow> bool" where
  step_cycle: "alert_step st (Cycle env rules st)"
| step_ack: "alert_step st (snd (Ack iid uid comment at st))"
| step_unack: "alert_step st (snd (Unack iid st))"

lemma Cycle_wf: "wf_alerts st \<Longrightarrow> wf_alerts (Cycle env rules st)"
proof (cases rules)
  case (Inr rs)
  assume "wf_alerts st"
  then have "wf_alerts (foldl (\<lambda>st rule. if r_Expr rule = [] then st else snd (evalRule env rule st)) st rs)"
    by (induction rs arbitrary: st) (auto simp: evalRule_wf)
  with Inr show ?thesis by (simp add: Cycle_def)
qed (simp add: Cycle_def)

lemma Ack_wf: "wf_alerts st \<Longrightarrow> wf_alerts (snd (Ack iid uid comment at st))"
  by (auto simp: Ack_def Let_def live_inst_def intro!: wf_update_live)

lemma Unack_wf: "wf_alerts st \<Longrightarrow> wf_alerts (snd (Unack iid st))"
  by (auto simp: Unack_def Let_def live_inst_def intro!: wf_update_live)

lemma alert_steps_wf: "alert_step\<^sup>*\<^sup>* st st' \<Longrightarrow> wf_alerts st \<Longrightarrow> wf_alerts st'"
  by (induction rule: rtranclp_induct) (auto elim!: alert_step.cases intro: Cycle_wf Ack_wf Unack_wf)

text \<open>
  C23. One alert per series: over any sequence of evaluation passes, acknowledgements and their
  withdrawals, whatever fails in between, no series of a rule ever has two unresolved alerts.
\<close>

theorem one_alert_per_series:
  assumes "alert_step\<^sup>*\<^sup>* st st'" and "al_insts st = []" and "i \<in> set (al_insts st')" and "j \<in> set (al_insts st')"
    and "i_RuleID i = i_RuleID j" and "i_Fingerprint i = i_Fingerprint j"
    and "i_State i \<noteq> StateResolved" and "i_State j \<noteq> StateResolved"
  shows "i = j"
proof -
  have "wf_alerts st" using assms(2) by (simp add: wf_alerts_def)
  from alert_steps_wf [OF assms(1) this] have "inj_on series_key (set (filter live_inst (al_insts st')))"
    by (simp add: wf_alerts_def distinct_map)
  then show ?thesis by (rule inj_onD) (use assms(3-8) in \<open>auto simp: live_inst_def\<close>)
qed

text \<open>
  A pass reaches only the rules it evaluates: the alerts of a rule that is disabled or has no
  expression stay exactly as they are, so an alert that was firing when its rule was disabled goes on
  firing whatever the metrics say.
\<close>

theorem disabled_rule_keeps_alerts:
  assumes "wf_alerts st" and "list_all (\<lambda>rule. r_ID rule \<noteq> rid \<or> r_Expr rule = []) rules"
  shows "filter (\<lambda>i. i_RuleID i = rid) (al_insts (Cycle env (Inr rules) st)) = filter (\<lambda>i. i_RuleID i = rid) (al_insts st)"
  using assms
proof (induction rules arbitrary: st)
  case (Cons rule rules)
  let ?st = "if r_Expr rule = [] then st else snd (evalRule env rule st)"
  have "wf_alerts ?st" using Cons.prems(1) evalRule_wf by simp
  moreover have "filter (\<lambda>i. i_RuleID i = rid) (al_insts ?st) = filter (\<lambda>i. i_RuleID i = rid) (al_insts st)"
    using Cons.prems evalRule_other [of st rid rule env] by auto
  ultimately show ?case using Cons.IH [of ?st] Cons.prems(2) by (simp add: Cycle_def)
qed (simp add: Cycle_def)

subsection \<open>What is published\<close>

text \<open>A publication that flapping does not hold back.\<close>

definition quiet_pub :: "string \<times> Instance \<times> Rule \<Rightarrow> bool" where
  "quiet_pub x = (case x of (event, i, rule) \<Rightarrow> event = ''alert.fired'' \<longrightarrow> i_FlapCount i < FlapThreshold)"

definition pubs_grow :: "alerts \<Rightarrow> alerts \<Rightarrow> bool" where
  "pubs_grow st st' \<longleftrightarrow> set (al_pub st) \<subseteq> set (al_pub st') \<and> (\<forall>x \<in> set (al_pub st'). x \<in> set (al_pub st) \<or> quiet_pub x)"

lemma pubs_grow_refl [simp]: "pubs_grow st st" and pubs_grow_trans: "pubs_grow st st' \<Longrightarrow> pubs_grow st' st'' \<Longrightarrow> pubs_grow st st''"
  by (auto simp: pubs_grow_def)

lemma pubs_same: "al_pub st' = al_pub st \<Longrightarrow> pubs_grow st st'"
  by (simp add: pubs_grow_def)

lemma notify_grows:
  "event \<noteq> ''alert.fired'' \<or> i_FlapCount i < FlapThreshold \<or> i_State i = StateFlapping \<Longrightarrow> pubs_grow st (notify env event i rule st)"
  by (auto simp: notify_def pubs_grow_def quiet_pub_def)

lemma fire_inst_grows:
  assumes "a_fault env = (\<lambda>c k. None)"
  shows "pubs_grow st (fire_inst env rule inst st)"
proof (cases "fire_conflict inst st")
  case True
  then show ?thesis using assms by (simp add: fire_inst_def Fire_def)
next
  case False
  let ?flap = "FlapThreshold \<le> i_FlapCount inst"
  define st2 where "st2 = st\<lparr>al_insts := al_insts st @ [fired_row inst]\<rparr>"
  define i where "i = (if ?flap then inst\<lparr>i_State := StateFlapping\<rparr> else inst)"
  define st3 where "st3 = AppendEvent env (i_ID i) (if ?flap then ''flap_start'' else ''fired'') []
     (FireDetail (i_Value i) (i_FlapCount i)) (if ?flap then snd (SetFlapping env (i_ID inst) st2) else st2)"
  have "fire_inst env rule inst st = notify env ''alert.fired'' i rule st3"
    using False assms by (simp add: fire_inst_def Fire_def st2_def i_def st3_def SetFlapping_def Let_def)
  moreover have "pubs_grow st st3"
    using assms by (intro pubs_same) (simp add: st3_def st2_def SetFlapping_def update_inst_def)
  moreover have "pubs_grow st3 (notify env ''alert.fired'' i rule st3)" by (rule notify_grows) (simp add: i_def not_le)
  ultimately show ?thesis using pubs_grow_trans by simp
qed

lemma fire_series_grows:
  assumes "a_fault env = (\<lambda>c k. None)"
  shows "pubs_grow st (fire_series env rule ifaces fp s st)"
  unfolding fire_series_def
  by (rule pubs_grow_trans [OF pubs_same fire_inst_grows [OF assms]]) simp

lemma fire_loop_grows:
  "a_fault env = (\<lambda>c k. None) \<Longrightarrow> pubs_grow st (snd (fire_loop env rule ifaces liveFP ss matched st))"
proof (induction ss arbitrary: matched st)
  case (Cons s ss)
  let ?fp = "fp_of env rule s"
  have "pubs_grow st (if ?fp \<in> set liveFP then st else fire_series env rule ifaces ?fp s st)"
    using fire_series_grows [OF Cons.prems] by simp
  from pubs_grow_trans [OF this] Cons show ?case by (simp add: Let_def)
qed simp

lemma resolve_inst_pubs:
  assumes "a_fault env = (\<lambda>c k. None)"
  shows "pubs_grow st (resolve_inst env rule i st)"
    and "a_silenced env = None \<Longrightarrow> a_publisher env \<Longrightarrow>
      (''alert.resolved'', i\<lparr>i_State := StateResolved\<rparr>, rule) \<in> set (al_pub (resolve_inst env rule i st))"
  using assms by (auto simp: resolve_inst_def Resolve_def update_inst_def notify_def pubs_grow_def quiet_pub_def)

lemma resolve_loop_pubs:
  assumes "a_fault env = (\<lambda>c k. None)"
  shows "pubs_grow st (resolve_loop env rule m matched fps st)"
    and "a_silenced env = None \<Longrightarrow> a_publisher env \<Longrightarrow> fp \<in> set fps \<Longrightarrow> fp \<notin> set matched \<Longrightarrow> map_of m fp = Some i \<Longrightarrow>
      (''alert.resolved'', i\<lparr>i_State := StateResolved\<rparr>, rule) \<in> set (al_pub (resolve_loop env rule m matched fps st))"
proof -
  have grow: "pubs_grow st (resolve_loop env rule m matched fps st)" for fps st
  proof (induction fps arbitrary: st)
    case (Cons fp fps)
    have "pubs_grow st (if fp \<in> set matched then st else case map_of m fp of None \<Rightarrow> st | Some i \<Rightarrow> resolve_inst env rule i st)"
      using resolve_inst_pubs(1) [OF assms] by (simp split: option.splits)
    from pubs_grow_trans [OF this Cons] show ?case by simp
  qed simp
  then show "pubs_grow st (resolve_loop env rule m matched fps st)" .
  assume a: "a_silenced env = None" "a_publisher env" "fp \<notin> set matched" "map_of m fp = Some i"
  show "fp \<in> set fps \<Longrightarrow> (''alert.resolved'', i\<lparr>i_State := StateResolved\<rparr>, rule) \<in> set (al_pub (resolve_loop env rule m matched fps st))"
  proof (induction fps arbitrary: st)
    case (Cons g fps)
    show ?case
    proof (cases "g = fp")
      case True
      have "(''alert.resolved'', i\<lparr>i_State := StateResolved\<rparr>, rule) \<in> set (al_pub (resolve_inst env rule i st))"
        by (rule resolve_inst_pubs(2) [OF assms a(1,2)])
      with grow [of "resolve_inst env rule i st" fps] True a(3,4) show ?thesis by (auto simp: pubs_grow_def)
    qed (use Cons in auto)
  qed simp
qed

text \<open>
  Flapping mutes only half: in a pass no firing of a series that has re-fired three times is
  published, but the resolution of every alert that stops matching is, a flapping one included; so a
  flapping series still produces one notification for each time it clears.
\<close>

theorem flapping_notifications:
  assumes "wf_alerts st" and "healthy_alerts env st" and "a_query env (r_Expr rule) = Inr ss"
    and "a_silenced env = None" and "a_publisher env"
  shows "(\<forall>x \<in> set (al_pub (snd (evalRule env rule st))). x \<in> set (al_pub st) \<or>
      (case x of (event, i, r) \<Rightarrow> event = ''alert.fired'' \<longrightarrow> i_FlapCount i < 3)) \<and>
    (\<forall>i \<in> set (al_insts st). i_RuleID i = r_ID rule \<and> i_State i \<noteq> StateResolved \<and>
       i_Fingerprint i \<notin> (\<lambda>s. Fingerprint (a_sha env) (r_ID rule) (s_Labels s)) ` set (fst (suppressNoise env ss)) \<longrightarrow>
       (''alert.resolved'', i\<lparr>i_State := StateResolved\<rparr>, rule) \<in> set (al_pub (snd (evalRule env rule st))))"
proof -
  obtain ss' ifaces where sup: "suppressNoise env ss = (ss', ifaces)" by force
  define live where "live = filter (\<lambda>i. i_RuleID i = r_ID rule \<and> live_inst i) (al_insts st)"
  define m where "m = live_map live"
  obtain matched st1 where fl: "fire_loop env rule ifaces (map fst m) ss' [] st = (matched, st1)" by force
  have nofault: "a_fault env = (\<lambda>c k. None)" and ord: "set (a_order env (map fst m)) = i_Fingerprint ` set live"
    using assms(2) unfolding healthy_alerts_def m_def by (metis live_map_keys)+
  have ev: "snd (evalRule env rule st) = resolve_loop env rule m matched (a_order env (map fst m)) st1"
    using assms(3) sup fl nofault by (simp add: evalRule_def LiveByRule_def live_def m_def Let_def)
  have matched: "set matched = fp_of env rule ` set ss'"
    using fire_loop_matched [of env rule ifaces "map fst m" ss' "[]" st] fl by simp
  have "pubs_grow st st1" using fire_loop_grows [OF nofault, of st rule ifaces "map fst m" ss' "[]"] fl by simp
  from pubs_grow_trans [OF this resolve_loop_pubs(1) [OF nofault]]
  have "pubs_grow st (snd (evalRule env rule st))" unfolding ev .
  moreover have "(''alert.resolved'', i\<lparr>i_State := StateResolved\<rparr>, rule) \<in> set (al_pub (snd (evalRule env rule st)))"
    if "i \<in> set (al_insts st)" "i_RuleID i = r_ID rule" "i_State i \<noteq> StateResolved" "i_Fingerprint i \<notin> set matched" for i
  proof -
    have i: "i \<in> set live" using that by (simp add: live_def live_inst_def)
    then have "map_of m (i_Fingerprint i) = Some i"
      using map_of_live_map [OF wf_live_fps [OF assms(1)]] by (simp add: m_def live_def)
    with i ord that(4) show ?thesis unfolding ev by (intro resolve_loop_pubs(2) [OF nofault assms(4,5)]) auto
  qed
  ultimately show ?thesis unfolding pubs_grow_def quiet_pub_def FlapThreshold_def using sup matched by auto
qed

subsection \<open>A concrete deployment\<close>

definition demo_rule :: Rule where
  "demo_rule = \<lparr>r_ID = ''ar'', r_Name = ''down'', r_Kind = ''threshold'', r_Severity = SevCritical, r_Expr = ''up == 0'',
     r_Annotations = [], r_Enabled = True, r_Builtin = True\<rparr>"

definition demo_alert_env :: "gotime \<Rightarrow> Series list \<Rightarrow> alert_env" where
  "demo_alert_env now ss = \<lparr>a_now = now, a_query = (\<lambda>e. Inr ss), a_sha = (\<lambda>b. b), a_id = (\<lambda>n. replicate (Suc n) (CHR ''a'')), a_ifaces = None, a_exporters = None,
     a_silenced = None, a_publisher = True, a_order = (\<lambda>ks. ks), a_fault = (\<lambda>c k. None)\<rparr>"

definition demo_series :: Series where
  "demo_series = \<lparr>s_Labels = [(''d'', ''r1'')], s_Value = 0\<rparr>"

definition demo_fp :: string where
  "demo_fp = ''ar'' @ CHR 0x00 # ''d'' @ CHR 0x01 # ''r1''"

lemma demo_fp_eq: "Fingerprint (\<lambda>b. b) ''ar'' [(''d'', ''r1'')] = demo_fp"
  by (simp add: Fingerprint_def fp_bytes_def fp_keys_def lbl_def demo_fp_def)

text \<open>A flapping alert that is live, and an acknowledged one of another series.\<close>

definition demo_inst :: "string \<Rightarrow> string \<Rightarrow> AlertState \<Rightarrow> Instance" where
  "demo_inst iid fp state = \<lparr>i_ID = iid, i_RuleID = ''ar'', i_RuleName = ''down'', i_Fingerprint = fp, i_State = state,
     i_Severity = SevCritical, i_DeviceID = [], i_InterfaceID = [], i_Labels = [], i_Value = 0, i_FiredAt = 0, i_AckedAt = None,
     i_AckedBy = [], i_AckComment = [], i_ResolvedAt = None, i_FlapCount = 4\<rparr>"

definition demo_alerts :: alerts where
  "demo_alerts = \<lparr>al_insts = [demo_inst ''x'' ''gone'' StateFlapping, demo_inst ''y'' demo_fp StateAcked], al_events = [], al_pub = [], al_next = 0\<rparr>"

lemma demo_healthy: "healthy_alerts (demo_alert_env now ss) demo_alerts" and demo_wf: "wf_alerts demo_alerts"
  by (auto simp: healthy_alerts_def demo_alert_env_def demo_alerts_def demo_inst_def wf_alerts_def live_inst_def inj_def demo_fp_def)

lemma demo_query: "a_query (demo_alert_env now ss) (r_Expr demo_rule) = Inr ss"
  by (simp add: demo_alert_env_def)

lemma demo_suppress: "suppressNoise (demo_alert_env now ss) ss = (ss, [])"
  by (simp add: suppressNoise_def demo_alert_env_def)

theorem evalRule_matches_metrics_witness:
  "live_fps ''ar'' demo_alerts = {''gone'', demo_fp} \<and>
   live_fps ''ar'' (snd (evalRule (demo_alert_env 7 [demo_series]) demo_rule demo_alerts)) = {demo_fp} \<and>
   demo_inst ''y'' demo_fp StateAcked \<in> set (al_insts (snd (evalRule (demo_alert_env 7 [demo_series]) demo_rule demo_alerts)))"
proof -
  have "live_fps ''ar'' demo_alerts = {''gone'', demo_fp}"
  proof -
    have "{i \<in> set (al_insts demo_alerts). i_RuleID i = ''ar'' \<and> live_inst i} = set (al_insts demo_alerts)"
      by (auto simp: demo_alerts_def demo_inst_def live_inst_def)
    then show ?thesis by (simp add: live_fps_def demo_alerts_def demo_inst_def)
  qed
  moreover have "(\<lambda>s. Fingerprint (a_sha (demo_alert_env 7 [demo_series])) (r_ID demo_rule) (s_Labels s)) `
      set (fst (suppressNoise (demo_alert_env 7 [demo_series]) [demo_series])) = {demo_fp}"
    unfolding demo_suppress by (simp add: demo_alert_env_def demo_rule_def demo_series_def demo_fp_eq)
  moreover have "r_ID demo_rule = ''ar''" by (simp add: demo_rule_def)
  moreover have "demo_inst ''y'' demo_fp StateAcked \<in> set (al_insts demo_alerts)" by (simp add: demo_alerts_def)
  moreover have "i_Fingerprint (demo_inst ''y'' demo_fp StateAcked) = demo_fp" "live_inst (demo_inst ''y'' demo_fp StateAcked)"
    "i_RuleID (demo_inst ''y'' demo_fp StateAcked) = ''ar''" by (simp_all add: demo_inst_def live_inst_def)
  ultimately show ?thesis
    using evalRule_matches_metrics [OF demo_wf demo_healthy demo_query, of 7 "[demo_series]"] by force
qed

theorem flapping_notifications_witness:
  "(''alert.resolved'', demo_inst ''x'' ''gone'' StateResolved, demo_rule) \<in>
     set (al_pub (snd (evalRule (demo_alert_env 7 []) demo_rule demo_alerts)))"
proof -
  have "demo_inst ''x'' ''gone'' StateFlapping \<in> set (al_insts demo_alerts)" by (simp add: demo_alerts_def)
  moreover have "(demo_inst ''x'' ''gone'' StateFlapping)\<lparr>i_State := StateResolved\<rparr> = demo_inst ''x'' ''gone'' StateResolved"
    "i_RuleID (demo_inst ''x'' ''gone'' StateFlapping) = r_ID demo_rule" "i_State (demo_inst ''x'' ''gone'' StateFlapping) \<noteq> StateResolved"
    by (simp_all add: demo_inst_def demo_rule_def)
  moreover have "a_silenced (demo_alert_env 7 []) = None" "a_publisher (demo_alert_env 7 [])" by (simp_all add: demo_alert_env_def)
  ultimately show ?thesis
    using flapping_notifications [OF demo_wf demo_healthy demo_query, of 7 "[]"] by (simp add: demo_suppress) metis
qed

theorem one_alert_per_series_witness:
  "\<exists>i. i \<in> set (al_insts (Cycle (demo_alert_env 7 [demo_series]) (Inr [demo_rule]) (demo_alerts\<lparr>al_insts := []\<rparr>))) \<and>
     i_State i \<noteq> StateResolved \<and>
     {j \<in> set (al_insts (Cycle (demo_alert_env 7 [demo_series]) (Inr [demo_rule]) (demo_alerts\<lparr>al_insts := []\<rparr>))).
        i_RuleID j = i_RuleID i \<and> i_Fingerprint j = i_Fingerprint i \<and> i_State j \<noteq> StateResolved} = {i}"
proof -
  let ?init = "demo_alerts\<lparr>al_insts := []\<rparr>" and ?st = "Cycle (demo_alert_env 7 [demo_series]) (Inr [demo_rule]) (demo_alerts\<lparr>al_insts := []\<rparr>)"
  have "alert_step ?init ?st" by (rule step_cycle)
  then have steps: "alert_step\<^sup>*\<^sup>* ?init ?st" by (rule r_into_rtranclp)
  have "\<exists>i. i \<in> set (al_insts ?st) \<and> i_State i \<noteq> StateResolved"
    by (simp add: Cycle_def demo_rule_def evalRule_def demo_alert_env_def suppressNoise_def LiveByRule_def live_map_def Let_def
        fire_series_insts can_fire_def demo_alerts_def) (use live_inst_def fire_row_simps(4) in blast)
  then obtain i where i: "i \<in> set (al_insts ?st)" "i_State i \<noteq> StateResolved" by blast
  have "j = i" if "j \<in> set (al_insts ?st)" "i_RuleID j = i_RuleID i" "i_Fingerprint j = i_Fingerprint i" "i_State j \<noteq> StateResolved" for j
    by (rule one_alert_per_series [OF steps _ that(1) i(1) that(2,3,4) i(2)]) simp
  with i show ?thesis by blast
qed

theorem disabled_rule_keeps_alerts_witness:
  "filter (\<lambda>i. i_RuleID i = ''ar'') (al_insts (Cycle (demo_alert_env 7 []) (Inr [demo_rule\<lparr>r_ID := ''other''\<rparr>]) demo_alerts)) =
     al_insts demo_alerts"
  using disabled_rule_keeps_alerts [OF demo_wf, of "''ar''" "[demo_rule\<lparr>r_ID := ''other''\<rparr>]" "demo_alert_env 7 []"]
  by (simp add: demo_alerts_def demo_inst_def)

end
