(* ===== verification/Alert_Series.thy ===== *)
theory Alert_Series
  imports Alerting
begin

text \<open>
  The series an alert rule sees: their identity (\<open>Fingerprint\<close>), the suppression of interface series
  that report no fault of their own (\<open>suppressNoise\<close>), silences (\<open>Silenced\<close>) and the validation of the
  rules that select them (\<open>internal/alerting/app/rules.go\<close>).
\<close>

subsection \<open>Identity\<close>

definition clean :: "string \<Rightarrow> bool" where
  "clean s \<longleftrightarrow> CHR 0x00 \<notin> set s \<and> CHR 0x01 \<notin> set s"

definition clean_labels :: "labels \<Rightarrow> bool" where
  "clean_labels ls \<longleftrightarrow> gm_ok ls \<and> (\<forall>(k, v) \<in> set ls. clean k \<and> clean v)"

lemma split_at: "x \<notin> set a \<Longrightarrow> x \<notin> set b \<Longrightarrow> a @ x # c = b @ x # d \<longleftrightarrow> a = b \<and> c = d"
proof (induction a arbitrary: b)
  case Nil
  then show ?case by (cases b) auto
next
  case (Cons y a)
  then show ?case by (cases b) auto
qed

definition enc_labels :: "(string \<times> string) list \<Rightarrow> string" where
  "enc_labels kvs = concat (map (\<lambda>(k, v). CHR 0x00 # k @ CHR 0x01 # v) kvs)"

lemma enc_labels_inject:
  assumes "list_all (\<lambda>(k, v). clean k \<and> clean v) xs" and "list_all (\<lambda>(k, v). clean k \<and> clean v) ys"
    and "clean a" and "clean b" and "a @ enc_labels xs = b @ enc_labels ys"
  shows "a = b \<and> xs = ys"
  using assms
proof (induction xs arbitrary: ys a b)
  case Nil
  then show ?case by (cases ys) (auto simp: enc_labels_def clean_def)
next
  case (Cons x xs)
  obtain k v where x: "x = (k, v)" by force
  obtain y ys' where y: "ys = y # ys'" using Cons.prems by (cases ys) (auto simp: enc_labels_def clean_def)
  obtain k' v' where y': "y = (k', v')" by force
  have "a @ CHR 0x00 # (k @ CHR 0x01 # (v @ enc_labels xs)) = b @ CHR 0x00 # (k' @ CHR 0x01 # (v' @ enc_labels ys'))"
    using Cons.prems(5) by (simp add: x y y' enc_labels_def)
  then have "a = b" "k @ CHR 0x01 # (v @ enc_labels xs) = k' @ CHR 0x01 # (v' @ enc_labels ys')"
    using Cons.prems(3,4) by (simp_all add: split_at clean_def)
  moreover from this(2) have "k = k'" "v @ enc_labels xs = v' @ enc_labels ys'"
    using Cons.prems(1,2) by (simp_all add: split_at clean_def x y y')
  moreover have "v = v' \<and> xs = ys'"
    by (rule Cons.IH) (use Cons.prems calculation x y y' in auto)
  ultimately show ?case by (simp add: x y y')
qed

lemma fp_keys_set: "set (fp_keys ls) = fst ` set ls - {''__name__''}"
  by (auto simp: fp_keys_def)

lemma fp_keys_distinct: "gm_ok ls \<Longrightarrow> sorted (fp_keys ls) \<and> distinct (fp_keys ls)"
  by (simp add: fp_keys_def distinct_map_filter)

definition named :: "labels \<Rightarrow> string \<Rightarrow> string option" where
  "named ls k = (if k = ''__name__'' then None else map_of ls k)"

lemma fp_bytes_enc: "fp_bytes rid ls = rid @ enc_labels (map (\<lambda>k. (k, lbl ls k)) (fp_keys ls))"
  by (simp add: fp_bytes_def enc_labels_def comp_def)

lemma named_pairs: "named ls k = Some v \<longleftrightarrow> (k, v) \<in> set (map (\<lambda>k. (k, lbl ls k)) (fp_keys ls))"
proof (cases "map_of ls k")
  case None
  then have "k \<notin> fst ` set ls" by (simp add: map_of_eq_None_iff)
  with None show ?thesis by (auto simp: named_def fp_keys_set)
next
  case (Some w)
  then have "k \<in> fst ` set ls" by (metis map_of_eq_None_iff option.distinct(1))
  with Some show ?thesis by (auto simp: named_def fp_keys_set lbl_def)
qed

lemma clean_pairs:
  assumes "clean_labels ls"
  shows "list_all (\<lambda>(k, v). clean k \<and> clean v) (map (\<lambda>k. (k, lbl ls k)) (fp_keys ls))"
  using assms by (fastforce simp: clean_labels_def list_all_iff fp_keys_set lbl_def clean_def split: option.splits dest: map_of_SomeD)

text \<open>
  A series is its rule and its labels, whatever their order and apart from the metric name: for
  names and values without the two separator bytes, the bytes that are hashed into a fingerprint are
  equal exactly when the rules and the labels are.
\<close>

theorem fingerprint_identity:
  assumes "clean rid" and "clean rid'" and "clean_labels ls" and "clean_labels ls'"
  shows "fp_bytes rid ls = fp_bytes rid' ls' \<longleftrightarrow> rid = rid' \<and> named ls = named ls'"
proof
  have ok: "gm_ok ls" "gm_ok ls'" using assms by (auto simp: clean_labels_def)
  {
    assume "fp_bytes rid ls = fp_bytes rid' ls'"
    from enc_labels_inject [OF clean_pairs [OF assms(3)] clean_pairs [OF assms(4)] assms(1,2) this [unfolded fp_bytes_enc]]
    have eq: "rid = rid'" "map (\<lambda>k. (k, lbl ls k)) (fp_keys ls) = map (\<lambda>k. (k, lbl ls' k)) (fp_keys ls')" by auto
    have "named ls k = Some v \<longleftrightarrow> named ls' k = Some v" for k v
      unfolding named_pairs eq(2) ..
    then have "named ls k = named ls' k" for k by (metis not_None_eq)
    with eq(1) show "rid = rid' \<and> named ls = named ls'" by auto
  }
  assume r: "rid = rid' \<and> named ls = named ls'"
  then have pairs: "(k, v) \<in> set (map (\<lambda>k. (k, lbl ls k)) (fp_keys ls)) \<longleftrightarrow> (k, v) \<in> set (map (\<lambda>k. (k, lbl ls' k)) (fp_keys ls'))" for k v
    using named_pairs [of ls k v] named_pairs [of ls' k v] by simp
  then have "set (fp_keys ls) = set (fp_keys ls')" by auto
  then have keys: "fp_keys ls = fp_keys ls'" using fp_keys_distinct [OF ok(1)] fp_keys_distinct [OF ok(2)] sorted_distinct_set_unique by blast
  moreover have "lbl ls k = lbl ls' k" if "k \<in> set (fp_keys ls)" for k using pairs [of k "lbl ls k"] that by auto
  ultimately show "fp_bytes rid ls = fp_bytes rid' ls'" using r by (simp add: fp_bytes_enc cong: map_cong)
qed

theorem fingerprint_identity_witness:
  "fp_bytes ''r'' [(''a'', ''1''), (''b'', ''2''), (''__name__'', ''up'')] = fp_bytes ''r'' [(''b'', ''2''), (''a'', ''1'')] \<and>
   fp_bytes ''r'' [(''a'', ''1'')] \<noteq> fp_bytes ''r'' [(''b'', ''1'')]"
proof -
  have c: "clean ''r''" "clean_labels [(''a'', ''1''), (''b'', ''2''), (''__name__'', ''up'')]" "clean_labels [(''b'', ''2''), (''a'', ''1'')]"
    "clean_labels [(''a'', ''1'')]" "clean_labels [(''b'', ''1'')]"
    by (simp_all add: clean_def clean_labels_def)
  have "named [(''a'', ''1''), (''b'', ''2''), (''__name__'', ''up'')] = named [(''b'', ''2''), (''a'', ''1'')]"
    by (simp add: named_def fun_eq_iff)
  moreover have "named [(''a'', ''1'')] \<noteq> named [(''b'', ''1'')]"
    by (auto simp: named_def fun_eq_iff dest: spec [where x = "''a''"])
  ultimately show ?thesis using fingerprint_identity [OF c(1,1,2,3)] fingerprint_identity [OF c(1,1,4,5)] by simp
qed

subsection \<open>Suppression\<close>

abbreviation dev_of :: "Series \<Rightarrow> string" where "dev_of s \<equiv> lbl (s_Labels s) ''device_id''"
abbreviation ix_of :: "Series \<Rightarrow> string" where "ix_of s \<equiv> lbl (s_Labels s) ''if_index''"

text \<open>What inventory knows about the interface of a series, and the name it is firing under.\<close>

definition info_of :: "(string \<Rightarrow> ifmap) \<Rightarrow> Series \<Rightarrow> InterfaceInfo option" where
  "info_of get s = (if dev_of s = [] \<or> ix_of s = [] then None else map_of (get (dev_of s)) (ix_of s))"

definition name_of :: "(string \<Rightarrow> ifmap) \<Rightarrow> Series \<Rightarrow> string" where
  "name_of get s = (case info_of get s of None \<Rightarrow> [] | Some i \<Rightarrow> if_Name i)"

text \<open>A series that depends on another of the same rule: its parent interface is firing too.\<close>

definition dependent :: "(string \<Rightarrow> ifmap) \<Rightarrow> Series list \<Rightarrow> Series \<Rightarrow> bool" where
  "dependent get ss s \<longleftrightarrow> name_of get s \<noteq> [] \<and>
     (\<exists>p \<in> set ss. dev_of p = dev_of s \<and> name_of get p \<noteq> [] \<and> name_of get p = parentInterface (name_of get s))"

definition never_up :: "(string \<Rightarrow> ifmap) \<Rightarrow> Series \<Rightarrow> bool" where
  "never_up get s \<longleftrightarrow> (case info_of get s of None \<Rightarrow> False | Some i \<Rightarrow> \<not> if_EverUp i)"

definition scoped :: "Series \<Rightarrow> bool" where
  "scoped s \<longleftrightarrow> dev_of s \<noteq> [] \<and> ix_of s \<noteq> []"

lemma note_series_ifaces:
  "map_of (fst (note_series get mm s)) =
     (if scoped s \<and> map_of (fst mm) (dev_of s) = None then (map_of (fst mm))(dev_of s \<mapsto> get (dev_of s)) else map_of (fst mm))"
  by (auto simp: note_series_def scoped_def Let_def update_conv' split: prod.splits)

lemma noted_ifaces:
  "map_of (fst (foldl (note_series get) ([], []) ss)) dev = (if \<exists>s\<in>set ss. scoped s \<and> dev_of s = dev then Some (get dev) else None)"
proof (induction ss rule: rev_induct)
  case (snoc s ss)
  then show ?case by (auto simp: note_series_ifaces split: if_splits)
qed simp

lemma note_series_firing:
  assumes "\<forall>d. map_of (fst mm) d \<in> {None, Some (get d)}"
    and "\<forall>d. map_of (fst mm) d = None \<longrightarrow> map_of (snd mm) d = None"
  shows "is_firing (snd (note_series get mm s)) dev n \<longleftrightarrow>
      is_firing (snd mm) dev n \<or> (dev_of s = dev \<and> name_of get s = n \<and> n \<noteq> [])"
proof (cases "scoped s")
  case False
  then have "note_series get mm s = mm" "name_of get s = []"
    by (auto simp: note_series_def scoped_def name_of_def info_of_def Let_def split: prod.splits)
  then show ?thesis by auto
next
  case True
  define fm where "fm = (if map_of (fst mm) (dev_of s) = None then AList.update (dev_of s) [] (snd mm) else snd mm)"
  obtain ifs fir where mm: "mm = (ifs, fir)" by force
  consider "map_of ifs (dev_of s) = None" | "map_of ifs (dev_of s) = Some (get (dev_of s))" 
    using spec [OF assms(1), of "dev_of s"] mm by auto
  then have "snd (note_series get mm s) = (if name_of get s = [] then fm
      else AList.update (dev_of s) (AList.update (name_of get s) True (case map_of fm (dev_of s) of None \<Rightarrow> [] | Some m \<Rightarrow> m)) fm)"
    by cases (use True mm in \<open>simp_all add: note_series_def fm_def name_of_def info_of_def scoped_def if_info_def update_conv' Let_def
        split: option.splits\<close>)
  moreover have "is_firing fm dev n = is_firing (snd mm) dev n"
    using assms(2) by (auto simp: fm_def is_firing_def update_conv' split: option.splits)
  ultimately show ?thesis
    by (auto simp: is_firing_def update_conv' split: option.splits)
qed

lemma noted_firing:
  "is_firing (snd (foldl (note_series get) ([], []) ss)) dev n \<longleftrightarrow> (\<exists>s\<in>set ss. dev_of s = dev \<and> name_of get s = n \<and> n \<noteq> [])"
proof -
  let ?inv = "\<lambda>mm. (\<forall>d. map_of (fst mm) d \<in> {None, Some (get d)}) \<and> (\<forall>d. map_of (fst mm) d = None \<longrightarrow> map_of (snd mm) d = None)"
  have keys: "map_of (snd (note_series get mm s)) d = None" if "?inv mm" "map_of (fst (note_series get mm s)) d = None" for mm s d
    using that by (auto simp: note_series_def Let_def update_conv' split: prod.splits if_splits option.splits)
  have inv: "?inv (foldl (note_series get) ([], []) ss)" for ss
  proof (induction ss rule: rev_induct)
    case (snoc s ss)
    then show ?case using keys [of "foldl (note_series get) ([], []) ss" s] by (auto simp: note_series_ifaces)
  qed simp
  show ?thesis
  proof (induction ss rule: rev_induct)
    case (snoc s ss)
    then show ?case using note_series_firing [of "foldl (note_series get) ([], []) ss" get s dev n] inv [of ss] by auto
  qed (simp add: is_firing_def)
qed

lemma suppressed_iff:
  assumes "\<And>d. map_of (get d) [] = None" and "s \<in> set ss"
    and "foldl (note_series get) ([], []) ss = (ifaces, firing)"
  shows "suppressed ifaces firing s \<longleftrightarrow> dependent get ss s \<or> never_up get s"
proof -
  have info: "if_info ifaces (dev_of s) (ix_of s) = info_of get s"
  proof (cases "ix_of s = []")
    case True
    then show ?thesis using assms(1) noted_ifaces [of get ss "dev_of s"] assms(3)
      by (auto simp: if_info_def info_of_def)
  next
    case False
    then show ?thesis using noted_ifaces [of get ss "dev_of s"] assms(2,3)
      by (auto simp: if_info_def info_of_def scoped_def)
  qed
  have firing: "is_firing firing dev n \<longleftrightarrow> (\<exists>p\<in>set ss. dev_of p = dev \<and> name_of get p = n \<and> n \<noteq> [])" for dev n
    using noted_firing [of get ss dev n] assms(3) by simp
  show ?thesis
    unfolding suppressed_def Let_def info firing dependent_def never_up_def name_of_def [of get s]
    by (cases "info_of get s") (auto simp: no_info_def)
qed

lemma suppress_filter:
  assumes "a_ifaces env = Some (ifid, get)" and "\<And>d. map_of (get d) [] = None"
  shows "fst (suppressNoise env ss) = filter (\<lambda>s. \<not> dependent get ss s \<and> \<not> never_up get s) ss"
proof -
  obtain ifaces firing where f: "foldl (note_series get) ([], []) ss = (ifaces, firing)" by force
  have "filter (\<lambda>s. \<not> suppressed ifaces firing s) ss = filter (\<lambda>s. \<not> dependent get ss s \<and> \<not> never_up get s) ss"
    by (rule filter_cong) (use suppressed_iff [OF assms(2) _ f] in auto)
  then show ?thesis using assms(1) f by (simp add: suppressNoise_def)
qed

text \<open>
  Suppression removes exactly what it says: a series survives if and only if inventory does not say
  its interface was never in service and no other series of the same rule fires on the interface it
  hangs off on the same device; the order of the survivors is kept, and a series that names no
  interface always survives.
\<close>

theorem suppression_exact:
  assumes "a_ifaces env = Some (ifid, get)" and "\<And>d. map_of (get d) [] = None"
  shows "fst (suppressNoise env ss) = filter (\<lambda>s. \<not> dependent get ss s \<and> \<not> never_up get s) ss \<and>
    filter (\<lambda>s. dev_of s = [] \<or> ix_of s = []) (fst (suppressNoise env ss)) = filter (\<lambda>s. dev_of s = [] \<or> ix_of s = []) ss"
proof -
  have "\<not> dependent get ss s \<and> \<not> never_up get s" if "dev_of s = [] \<or> ix_of s = []" for s
    using that by (auto simp: dependent_def never_up_def name_of_def info_of_def)
  then have "filter (\<lambda>s. dev_of s = [] \<or> ix_of s = []) (filter (\<lambda>s. \<not> dependent get ss s \<and> \<not> never_up get s) ss) =
      filter (\<lambda>s. dev_of s = [] \<or> ix_of s = []) ss" by (auto intro!: filter_cong)
  then show ?thesis by (simp add: suppress_filter [OF assms])
qed

definition demo_ifs :: "string \<Rightarrow> ifmap" where
  "demo_ifs d = [(''1'', \<lparr>if_Name = ''eth9'', if_Alias = [], if_EverUp = True\<rparr>),
     (''2'', \<lparr>if_Name = ''eth9.101'', if_Alias = [], if_EverUp = True\<rparr>), (''3'', \<lparr>if_Name = ''eth3'', if_Alias = [], if_EverUp = False\<rparr>)]"

definition port_series :: "string \<Rightarrow> Series" where
  "port_series ix = \<lparr>s_Labels = [(''device_id'', ''d1''), (''if_index'', ix)], s_Value = 0\<rparr>"

lemma port_series_simps [simp]: "dev_of (port_series ix) = ''d1''" "ix_of (port_series ix) = ix"
  by (simp_all add: port_series_def lbl_def)

theorem suppression_exact_witness:
  "fst (suppressNoise ((demo_alert_env 0 [])\<lparr>a_ifaces := Some (\<lambda>d x. [], demo_ifs)\<rparr>) [port_series ''1'', port_series ''2'', port_series ''3'', port_series ''4'']) =
     [port_series ''1'', port_series ''4'']"
proof -
  let ?env = "(demo_alert_env 0 [])\<lparr>a_ifaces := Some (\<lambda>d x. [], demo_ifs)\<rparr>"
  have a: "a_ifaces ?env = Some (\<lambda>d x. [], demo_ifs)" by simp
  have b: "map_of (demo_ifs d) [] = None" for d by (simp add: demo_ifs_def)
  have n: "name_of demo_ifs (port_series ''1'') = ''eth9''" "name_of demo_ifs (port_series ''2'') = ''eth9.101''"
    "name_of demo_ifs (port_series ''3'') = ''eth3''" "name_of demo_ifs (port_series ''4'') = []"
    by (simp_all add: name_of_def info_of_def demo_ifs_def)
  have "never_up demo_ifs (port_series ''3'')" "\<not> never_up demo_ifs (port_series ''1'')" "\<not> never_up demo_ifs (port_series ''4'')"
    by (simp_all add: never_up_def info_of_def demo_ifs_def)
  with suppression_exact [OF a b, of "[port_series ''1'', port_series ''2'', port_series ''3'', port_series ''4'']"] show ?thesis
    by (simp add: dependent_def n parentInterface_def)
qed

lemma last_dot_bound: "last_dot cs n best = Some i \<Longrightarrow> best = Some i \<or> n \<le> i \<and> i < n + length cs"
  by (induction cs arbitrary: n best) (fastforce split: if_splits)+

lemma parent_prefix:
  "parentInterface n \<noteq> [] \<Longrightarrow> length (parentInterface n) < length n \<and> take (length (parentInterface n)) n = parentInterface n"
  using last_dot_bound [of n 0 None] by (auto simp: parentInterface_def min_def split: option.splits if_splits)

lemma dependent_has_root:
  assumes "dependent get ss s" and "s \<in> set ss"
  shows "\<exists>r \<in> set ss. dev_of r = dev_of s \<and> name_of get r \<noteq> [] \<and> length (name_of get r) < length (name_of get s) \<and>
    take (length (name_of get r)) (name_of get s) = name_of get r \<and> \<not> dependent get ss r"
  using assms
proof (induction "length (name_of get s)" arbitrary: s rule: less_induct)
  case less
  then obtain p where p: "p \<in> set ss" "dev_of p = dev_of s" "name_of get p \<noteq> []" "name_of get p = parentInterface (name_of get s)"
    by (auto simp: dependent_def)
  have pre: "length (name_of get p) < length (name_of get s)" "take (length (name_of get p)) (name_of get s) = name_of get p"
    using parent_prefix [of "name_of get s"] p(3,4) by auto
  show ?case
  proof (cases "dependent get ss p")
    case True
    from less.hyps [OF pre(1) True p(1)] obtain r where r: "r \<in> set ss" "dev_of r = dev_of p" "name_of get r \<noteq> []"
      "length (name_of get r) < length (name_of get p)" "take (length (name_of get r)) (name_of get p) = name_of get r" "\<not> dependent get ss r"
      by auto
    have "take (length (name_of get r)) (name_of get s) = take (length (name_of get r)) (take (length (name_of get p)) (name_of get s))"
      using r(4) by (simp add: min_def)
    with r pre p(2) show ?thesis by (intro bexI [of _ r]) auto
  qed (use p pre in blast)
qed

text \<open>
  Suppression never hides a fault behind its consequences alone: a series that is dropped although
  inventory does not call its interface never in service leaves, on the same device and in the same
  rule, a firing series on an interface it hangs off directly or through others; that one is reported
  unless inventory says it was never in service.
\<close>

theorem suppression_keeps_root:
  assumes "a_ifaces env = Some (ifid, get)" and "\<And>d. map_of (get d) [] = None"
    and "s \<in> set ss" and "s \<notin> set (fst (suppressNoise env ss))" and "\<not> never_up get s"
  shows "\<exists>r. r \<in> set ss \<and> dev_of r = dev_of s \<and> name_of get r \<noteq> [] \<and> length (name_of get r) < length (name_of get s) \<and>
    take (length (name_of get r)) (name_of get s) = name_of get r \<and>
    (never_up get r \<or> r \<in> set (fst (suppressNoise env ss)))"
proof -
  note kept = suppress_filter [OF assms(1,2), of ss]
  have "dependent get ss s" using assms(3-5) by (simp add: kept)
  from dependent_has_root [OF this assms(3)] show ?thesis unfolding kept by auto
qed

theorem suppression_keeps_root_witness:
  "\<exists>r. r \<in> set [port_series ''1'', port_series ''2''] \<and> name_of demo_ifs r \<noteq> [] \<and>
     take (length (name_of demo_ifs r)) ''eth9.101'' = name_of demo_ifs r \<and>
     (never_up demo_ifs r \<or> r \<in> set (fst (suppressNoise ((demo_alert_env 0 [])\<lparr>a_ifaces := Some (\<lambda>d x. [], demo_ifs)\<rparr>) [port_series ''1'', port_series ''2''])))"
proof -
  let ?env = "(demo_alert_env 0 [])\<lparr>a_ifaces := Some (\<lambda>d x. [], demo_ifs)\<rparr>"
  have a: "a_ifaces ?env = Some (\<lambda>d x. [], demo_ifs)" by simp
  have b: "map_of (demo_ifs d) [] = None" for d by (simp add: demo_ifs_def)
  have n: "name_of demo_ifs (port_series ''2'') = ''eth9.101''" by (simp add: name_of_def info_of_def demo_ifs_def)
  have d: "dependent demo_ifs [port_series ''1'', port_series ''2''] (port_series ''2'')"
    by (simp add: dependent_def name_of_def info_of_def demo_ifs_def parentInterface_def)
  have u: "\<not> never_up demo_ifs (port_series ''2'')" by (simp add: never_up_def info_of_def demo_ifs_def)
  have "port_series ''2'' \<notin> set (fst (suppressNoise ?env [port_series ''1'', port_series ''2'']))"
    using d suppress_filter [OF a b, of "[port_series ''1'', port_series ''2'']"] by (simp only: set_filter) simp
  from suppression_keeps_root [OF a b _ this u] n show ?thesis by auto
qed

subsection \<open>Silences\<close>

text \<open>
  A silence covers an alert when every label of its scope has the alert's value for it, and an
  alert without that label counts as having the empty value: so a scope that asks for an empty value
  also silences every alert that does not carry the label at all.
\<close>

theorem silence_empty_value:
  "Silenced (Inr ([Inr (Some [(k, [])])], None)) ls = Inr (map_of ls k = None \<or> map_of ls k = Some [])"
  by (auto simp: Silenced_def scope_matches_def lbl_def split: option.splits)

subsection \<open>Rule validation\<close>

record 'v RuleInput =
  ri_Name :: string
  ri_Kind :: string
  ri_Severity :: string
  ri_Expr :: string
  ri_Condition :: "(string, 'v) gomap"
  ri_Annotations :: "(string, 'v) gomap"
  ri_Enabled :: "bool option"

definition ruleKinds :: "string list" where "ruleKinds = [''threshold'', ''state'', ''inventory'']"
definition ruleSeverities :: "string list" where "ruleSeverities = [''critical'', ''warning'', ''info'']"

text \<open>An ellipsis is three bytes.\<close>

definition queryError :: "goerr \<Rightarrow> string" where
  "queryError e = (let msg = TrimSpace (err_text e) in if 300 < length msg then take 300 msg @ [CHR 0xE2, CHR 0x80, CHR 0xA6] else msg)"

definition invalid :: "string \<Rightarrow> goerr option" where
  "invalid msg = Some (errx_New KindInvalid msg)"

definition Validate :: "(string \<Rightarrow> goerr + Series list) option \<Rightarrow> bool \<Rightarrow> 'v RuleInput \<Rightarrow> goerr option \<times> 'v RuleInput" where
  "Validate v creating inp =
     (let inp = inp\<lparr>ri_Name := TrimSpace (ri_Name inp), ri_Expr := TrimSpace (ri_Expr inp)\<rparr> in
      if (creating \<or> ri_Name inp \<noteq> []) \<and> ri_Name inp = [] then (invalid ''name is required'', inp)
      else if (creating \<or> ri_Name inp \<noteq> []) \<and> 120 < length (ri_Name inp) then (invalid ''name must be 120 characters or fewer'', inp)
      else if ri_Kind inp \<noteq> [] \<and> ri_Kind inp \<notin> set ruleKinds then (invalid ''kind must be one of threshold, state, inventory'', inp)
      else if ri_Severity inp \<noteq> [] \<and> ri_Severity inp \<notin> set ruleSeverities then
        (invalid ''severity must be one of critical, warning, info'', inp)
      else
        let inp = (if creating then
              inp\<lparr>ri_Kind := if ri_Kind inp = [] then ''threshold'' else ri_Kind inp,
                  ri_Severity := if ri_Severity inp = [] then ''warning'' else ri_Severity inp\<rparr> else inp) in
        if creating \<and> ri_Kind inp = ''threshold'' \<and> ri_Expr inp = [] then
          (invalid ''a threshold rule needs an expression to evaluate'', inp)
        else case v of None \<Rightarrow> (None, inp)
        | Some q \<Rightarrow>
            if ri_Expr inp = [] then (None, inp)
            else case q (ri_Expr inp) of
              Inl e \<Rightarrow> (invalid (''the metrics backend rejected this expression: '' @ queryError e), inp)
            | Inr ss \<Rightarrow> (None, inp))"

text \<open>
  A created rule is accepted exactly when it can work: its trimmed name has 1 to 120 bytes, its kind
  and severity are among the known ones or left out (then \<open>threshold\<close> and \<open>warning\<close>), a threshold rule
  has an expression, and an expression is one the metrics backend accepts; every refusal is of kind
  invalid, never an internal error.
\<close>

theorem created_rule_can_work:
  "(fst (Validate (Some q) True inp) = None \<longleftrightarrow>
      1 \<le> length (TrimSpace (ri_Name inp)) \<and> length (TrimSpace (ri_Name inp)) \<le> 120 \<and> ri_Kind inp \<in> set ([] # ruleKinds) \<and>
      ri_Severity inp \<in> set ([] # ruleSeverities) \<and>
      (if TrimSpace (ri_Expr inp) = [] then ri_Kind inp \<in> {''state'', ''inventory''} else \<exists>ss. q (TrimSpace (ri_Expr inp)) = Inr ss)) \<and>
   (case Validate (Some q) True inp of
      (None, out) \<Rightarrow> ri_Kind out \<in> set ruleKinds \<and> ri_Severity out \<in> set ruleSeverities
    | (Some e, out) \<Rightarrow> KindOf (Some e) = KindInvalid)"
proof -
  have "TrimSpace (ri_Name inp) \<noteq> [] \<longleftrightarrow> 1 \<le> length (TrimSpace (ri_Name inp))" by (cases "TrimSpace (ri_Name inp)") auto
  then show ?thesis
    by (auto simp: Validate_def Let_def invalid_def ruleKinds_def ruleSeverities_def split: sum.splits)
qed

end
