(* ===== verification/Leader_Lease.thy ===== *)
theory Leader_Lease
  imports Redis_Server Errx
begin

text \<open>
  Leader election for the singleton loops (\<open>internal/collection/adapters/leader\<close>) over the Redis lock of
  \<open>internal/platform/redisx\<close>: a key that holds the token of its owner and expires unless it is
  extended. The server is a parameter with the laws of the commands used; a script runs at one moment
  of the server, and a call that reports an error may or may not have been carried out.

  \<open>TryAcquire\<close> makes up to two calls, and other instances may act between them; so the step relation of
  a cluster lets every instance make one call at a time, at times that never go back.

  Shown: at every moment at most one instance is within the lease it was last granted, whatever calls
  fail; and once the key has expired the next instance to try becomes leader.
\<close>

record 'r lock_server =
  l_get :: "gotime \<Rightarrow> string \<Rightarrow> 'r \<Rightarrow> string option"
  l_setnx :: "gotime \<Rightarrow> string \<Rightarrow> string \<Rightarrow> int \<Rightarrow> 'r \<Rightarrow> bool \<times> 'r"
  l_pexpire :: "gotime \<Rightarrow> string \<Rightarrow> int \<Rightarrow> 'r \<Rightarrow> int \<times> 'r"
  l_del :: "gotime \<Rightarrow> string \<Rightarrow> 'r \<Rightarrow> int \<times> 'r"

text \<open>One round trip: \<open>fault\<close> is the error of the call and whether the server acted all the same.\<close>

type_synonym fault = "(goerr \<times> bool) option"

definition call :: "fault \<Rightarrow> 'a \<times> 'r \<Rightarrow> 'r \<Rightarrow> (goerr + 'a) \<times> 'r" where
  "call fault res r = (case fault of None \<Rightarrow> (Inr (fst res), snd res) | Some (e, acted) \<Rightarrow> (Inl e, if acted then snd res else r))"

subsection \<open>Locks\<close>

text \<open>\<open>tok\<close> is what the random source gives.\<close>

definition TryLock ::
  "'r lock_server \<Rightarrow> fault \<Rightarrow> gotime \<Rightarrow> string \<Rightarrow> goerr + string \<Rightarrow> int \<Rightarrow> 'r \<Rightarrow> (goerr + string option) \<times> 'r" where
  "TryLock srv fault now key tok ttl r = (case tok of Inl e \<Rightarrow> (Inl e, r)
     | Inr token \<Rightarrow> (case call fault (l_setnx srv now key token ttl r) r of
          (Inl e, r) \<Rightarrow> (Inl (KindError KindTransient (ErrMsg ''redisx: setnx'' e)), r)
        | (Inr ok, r) \<Rightarrow> (Inr (if ok then Some token else None), r)))"

definition release_script :: "'r lock_server \<Rightarrow> gotime \<Rightarrow> string \<Rightarrow> string \<Rightarrow> 'r \<Rightarrow> int \<times> 'r" where
  "release_script srv now key token r = (if l_get srv now key r = Some token then l_del srv now key r else (0, r))"

definition lock_Release :: "'r lock_server \<Rightarrow> fault \<Rightarrow> gotime \<Rightarrow> string \<Rightarrow> string \<Rightarrow> 'r \<Rightarrow> goerr option \<times> 'r" where
  "lock_Release srv fault now key token r = (case call fault (release_script srv now key token r) r of
     (Inl e, r) \<Rightarrow> (Some e, r) | (Inr n, r) \<Rightarrow> (None, r))"

definition extend_script :: "'r lock_server \<Rightarrow> gotime \<Rightarrow> string \<Rightarrow> string \<Rightarrow> int \<Rightarrow> 'r \<Rightarrow> int \<times> 'r" where
  "extend_script srv now key token ms r = (if l_get srv now key r = Some token then l_pexpire srv now key ms r else (0, r))"

definition lock_Extend :: "'r lock_server \<Rightarrow> fault \<Rightarrow> gotime \<Rightarrow> string \<Rightarrow> string \<Rightarrow> int \<Rightarrow> 'r \<Rightarrow> (goerr + bool) \<times> 'r" where
  "lock_Extend srv fault now key token ttl r = (case call fault (extend_script srv now key token (ttl div nanos_per_ms) r) r of
     (Inl e, r) \<Rightarrow> (Inl e, r) | (Inr n, r) \<Rightarrow> (Inr (n = 1), r))"

subsection \<open>Leases\<close>

record Lease =
  lease_TTL :: int
  lease_lock :: "string option"

definition lease_ttl :: "Lease \<Rightarrow> int" where
  "lease_ttl l = (if lease_TTL l = 0 then 15 * nanos_per_s else lease_TTL l)"

text \<open>\<open>TryAcquire\<close>, as its two calls.\<close>

definition renew :: "'r lock_server \<Rightarrow> fault \<Rightarrow> gotime \<Rightarrow> string \<Rightarrow> Lease \<Rightarrow> 'r \<Rightarrow> bool \<times> Lease \<times> 'r" where
  "renew srv fault now key l r = (case lease_lock l of None \<Rightarrow> (False, l, r)
     | Some token \<Rightarrow> (case lock_Extend srv fault now key token (lease_ttl l) r of
          (Inr True, r) \<Rightarrow> (True, l, r) | (_, r) \<Rightarrow> (False, l\<lparr>lease_lock := None\<rparr>, r)))"

definition acquire :: "'r lock_server \<Rightarrow> fault \<Rightarrow> gotime \<Rightarrow> string \<Rightarrow> goerr + string \<Rightarrow> Lease \<Rightarrow> 'r \<Rightarrow> bool \<times> Lease \<times> 'r" where
  "acquire srv fault now key tok l r = (case TryLock srv fault now key tok (lease_ttl l) r of
     (Inl e, r) \<Rightarrow> (False, l, r) | (Inr None, r) \<Rightarrow> (False, l, r) | (Inr (Some token), r) \<Rightarrow> (True, l\<lparr>lease_lock := Some token\<rparr>, r))"

definition TryAcquire ::
  "'r lock_server \<Rightarrow> fault \<Rightarrow> fault \<Rightarrow> gotime \<Rightarrow> gotime \<Rightarrow> string \<Rightarrow> goerr + string \<Rightarrow> Lease \<Rightarrow> 'r \<Rightarrow> bool \<times> Lease \<times> 'r" where
  "TryAcquire srv f1 f2 t1 t2 key tok l r = (case renew srv f1 t1 key l r of
     (True, l, r) \<Rightarrow> (True, l, r) | (False, l, r) \<Rightarrow> acquire srv f2 t2 key tok l r)"

definition lease_Release :: "'r lock_server \<Rightarrow> fault \<Rightarrow> gotime \<Rightarrow> string \<Rightarrow> Lease \<Rightarrow> 'r \<Rightarrow> Lease \<times> 'r" where
  "lease_Release srv fault now key l r = (case lease_lock l of None \<Rightarrow> (l, r)
     | Some token \<Rightarrow> (l\<lparr>lease_lock := None\<rparr>, snd (lock_Release srv fault now key token r)))"

subsection \<open>What the server promises\<close>

text \<open>
  \<open>GET\<close> returns the value of a present key, nothing for an absent one, and in no case another value;
  \<open>SET NX PX\<close> sets an absent key with its expiry, leaves a present one alone, and does one or the other
  in between; \<open>PEXPIRE\<close> moves the expiry of a key that \<open>GET\<close> finds at the same moment; \<open>DEL\<close> removes one.
\<close>

definition lock_laws :: "'r lock_server \<Rightarrow> ('r \<Rightarrow> string view) \<Rightarrow> bool" where
  "lock_laws srv view \<longleftrightarrow>
     (\<forall>now k r. present now (view r k) \<longrightarrow> l_get srv now k r = map_option fst (view r k)) \<and>
     (\<forall>now k r. absent now (view r k) \<longrightarrow> l_get srv now k r = None) \<and>
     (\<forall>now k r v. l_get srv now k r = Some v \<longrightarrow> (\<exists>ex. view r k = Some (v, ex))) \<and>
     (\<forall>now k v d r. present now (view r k) \<longrightarrow> \<not> fst (l_setnx srv now k v d r)) \<and>
     (\<forall>now k v d r. absent now (view r k) \<longrightarrow> fst (l_setnx srv now k v d r)) \<and>
     (\<forall>now k v d r. view (snd (l_setnx srv now k v d r)) =
        (if fst (l_setnx srv now k v d r) then (view r)(k \<mapsto> (v, Some (now + d))) else view r)) \<and>
     (\<forall>now k ms r v. l_get srv now k r = Some v \<longrightarrow> fst (l_pexpire srv now k ms r) = 1 \<and>
        view (snd (l_pexpire srv now k ms r)) = (view r)(k \<mapsto> (v, Some (now + ms * nanos_per_ms)))) \<and>
     (\<forall>now k r. view (snd (l_del srv now k r)) = (view r)(k := None))"

lemma lock_lawsD:
  assumes "lock_laws srv view"
  shows get_present: "present now (view r k) \<Longrightarrow> l_get srv now k r = map_option fst (view r k)"
    and get_absent: "absent now (view r k) \<Longrightarrow> l_get srv now k r = None"
    and get_value: "l_get srv now k r = Some v \<Longrightarrow> \<exists>ex. view r k = Some (v, ex)"
    and setnx_present: "present now (view r k) \<Longrightarrow> \<not> fst (l_setnx srv now k v d r)"
    and setnx_absent: "absent now (view r k) \<Longrightarrow> fst (l_setnx srv now k v d r)"
    and setnx_view: "view (snd (l_setnx srv now k v d r)) =
        (if fst (l_setnx srv now k v d r) then (view r)(k \<mapsto> (v, Some (now + d))) else view r)"
    and pexpire_law: "l_get srv now k r = Some v \<Longrightarrow> fst (l_pexpire srv now k ms r) = 1 \<and>
        view (snd (l_pexpire srv now k ms r)) = (view r)(k \<mapsto> (v, Some (now + ms * nanos_per_ms)))"
    and del_law: "view (snd (l_del srv now k r)) = (view r)(k := None)"
  using assms by (simp_all add: lock_laws_def)

subsection \<open>A cluster\<close>

datatype lead_event = Led gotime | Released

text \<open>The instances by number; \<open>c_owner\<close> and \<open>c_log\<close> record who drew a token and who was granted what.\<close>

record 'r cluster =
  c_server :: 'r
  c_lease :: "nat \<Rightarrow> Lease"
  c_now :: gotime
  c_owner :: "string \<Rightarrow> nat option"
  c_log :: "(nat \<times> lead_event) list"

definition renewed :: "'r lock_server \<Rightarrow> string \<Rightarrow> fault \<Rightarrow> gotime \<Rightarrow> nat \<Rightarrow> 'r cluster \<Rightarrow> 'r cluster" where
  "renewed srv key fault t i c = (case renew srv fault t key (c_lease c i) (c_server c) of (ok, l, r) \<Rightarrow>
     c\<lparr>c_server := r, c_lease := (c_lease c)(i := l), c_now := t, c_log := c_log c @ (if ok then [(i, Led t)] else [])\<rparr>)"

definition acquired :: "'r lock_server \<Rightarrow> string \<Rightarrow> fault \<Rightarrow> gotime \<Rightarrow> nat \<Rightarrow> goerr + string \<Rightarrow> 'r cluster \<Rightarrow> 'r cluster" where
  "acquired srv key fault t i tok c = (case acquire srv fault t key tok (c_lease c i) (c_server c) of (ok, l, r) \<Rightarrow>
     c\<lparr>c_server := r, c_lease := (c_lease c)(i := l), c_now := t,
       c_owner := (case tok of Inl e \<Rightarrow> c_owner c | Inr token \<Rightarrow> (c_owner c)(token \<mapsto> i)),
       c_log := c_log c @ (if ok then [(i, Led t)] else [])\<rparr>)"

definition released :: "'r lock_server \<Rightarrow> string \<Rightarrow> fault \<Rightarrow> gotime \<Rightarrow> nat \<Rightarrow> 'r cluster \<Rightarrow> 'r cluster" where
  "released srv key fault t i c = (case lease_Release srv fault t key (c_lease c i) (c_server c) of (l, r) \<Rightarrow>
     c\<lparr>c_server := r, c_lease := (c_lease c)(i := l), c_now := t, c_log := c_log c @ [(i, Released)]\<rparr>)"

text \<open>A token is drawn once; \<open>SET NX\<close> is only reached without a lock in hand.\<close>

inductive cluster_step :: "'r lock_server \<Rightarrow> string \<Rightarrow> 'r cluster \<Rightarrow> 'r cluster \<Rightarrow> bool" for srv key where
  renew: "c_now c \<le> t \<Longrightarrow> cluster_step srv key c (renewed srv key fault t i c)"
| acquire: "c_now c \<le> t \<Longrightarrow> lease_lock (c_lease c i) = None \<Longrightarrow> (case tok of Inl e \<Rightarrow> True | Inr token \<Rightarrow> c_owner c token = None) \<Longrightarrow>
    cluster_step srv key c (acquired srv key fault t i tok c)"
| release: "c_now c \<le> t \<Longrightarrow> cluster_step srv key c (released srv key fault t i c)"

definition cluster_init :: "('r \<Rightarrow> string view) \<Rightarrow> string \<Rightarrow> 'r cluster \<Rightarrow> bool" where
  "cluster_init view key c \<longleftrightarrow> view (c_server c) key = None \<and> (\<forall>i. lease_lock (c_lease c i) = None) \<and> c_owner c = (\<lambda>tok. None) \<and>
     c_log c = [] \<and> (\<forall>i. 0 < lease_ttl (c_lease c i) \<and> nanos_per_ms dvd lease_ttl (c_lease c i))"

text \<open>The grant an instance still holds: its last one, unless it released since.\<close>

definition lead_since :: "(nat \<times> lead_event) list \<Rightarrow> nat \<Rightarrow> gotime option" where
  "lead_since log i = foldl (\<lambda>a e. if fst e = i then (case snd e of Led t \<Rightarrow> Some t | Released \<Rightarrow> None) else a) None log"

definition leads :: "'r cluster \<Rightarrow> nat \<Rightarrow> bool" where
  "leads c i \<longleftrightarrow> (case lead_since (c_log c) i of None \<Rightarrow> False | Some t \<Rightarrow> c_now c < t + lease_ttl (c_lease c i))"

lemma lead_since_snoc [simp]:
  "lead_since (log @ [e]) i = (if fst e = i then (case snd e of Led t \<Rightarrow> Some t | Released \<Rightarrow> None) else lead_since log i)"
  by (simp add: lead_since_def)

text \<open>While an instance leads, the key holds a token it drew and does not expire before its lease.\<close>

definition cluster_inv :: "('r \<Rightarrow> string view) \<Rightarrow> string \<Rightarrow> 'r cluster \<Rightarrow> bool" where
  "cluster_inv view key c \<longleftrightarrow>
     (\<forall>i. 0 < lease_ttl (c_lease c i) \<and> nanos_per_ms dvd lease_ttl (c_lease c i)) \<and>
     (\<forall>i tok. lease_lock (c_lease c i) = Some tok \<longrightarrow> c_owner c tok = Some i) \<and>
     (\<forall>i t. lead_since (c_log c) i = Some t \<longrightarrow> t \<le> c_now c) \<and>
     (\<forall>i t. lead_since (c_log c) i = Some t \<longrightarrow> c_now c < t + lease_ttl (c_lease c i) \<longrightarrow>
        (\<exists>tok ex. view (c_server c) key = Some (tok, Some ex) \<and> c_owner c tok = Some i \<and> t + lease_ttl (c_lease c i) \<le> ex))"


lemma renew_effect:
  assumes "lock_laws srv view" and "renew srv fault t key l r = (ok, l', r')"
  shows "lease_TTL l' = lease_TTL l \<and> lease_lock l' \<in> {lease_lock l, None} \<and>
    (view r' = view r \<and> \<not> ok \<or> (\<exists>tok. lease_lock l = Some tok \<and> l_get srv t key r = Some tok \<and>
       view r' = (view r)(key \<mapsto> (tok, Some (t + lease_ttl l div nanos_per_ms * nanos_per_ms)))))"
proof (cases "lease_lock l")
  case None
  with assms(2) show ?thesis by (simp add: renew_def)
next
  case (Some tok)
  show ?thesis
  proof (cases "l_get srv t key r = Some tok")
    case True
    note pe = pexpire_law [OF assms(1) True, of "lease_ttl l div nanos_per_ms"]
    obtain n r2 where ex: "l_pexpire srv t key (lease_ttl l div nanos_per_ms) r = (n, r2)" by force
    from assms(2) Some True pe show ?thesis
      by (auto simp: renew_def lock_Extend_def call_def extend_script_def ex split: option.splits prod.splits if_splits)
  next
    case False
    with assms(2) Some show ?thesis
      by (auto simp: renew_def lock_Extend_def call_def extend_script_def split: option.splits prod.splits)
  qed
qed

lemma acquire_effect:
  assumes "lock_laws srv view" and "acquire srv fault t key tok l r = (ok, l', r')"
  shows "lease_TTL l' = lease_TTL l \<and>
    (view r' = view r \<and> \<not> ok \<and> l' = l \<or> (\<exists>token. tok = Inr token \<and> \<not> present t (view r key) \<and>
       view r' = (view r)(key \<mapsto> (token, Some (t + lease_ttl l))) \<and> lease_lock l' = (if ok then Some token else lease_lock l)))"
proof (cases tok)
  case (Inl e)
  with assms(2) show ?thesis by (simp add: acquire_def TryLock_def)
next
  case (Inr token)
  obtain set r2 where sx: "l_setnx srv t key token (lease_ttl l) r = (set, r2)" by force
  with setnx_present [OF assms(1), of t r key token "lease_ttl l"] setnx_view [OF assms(1), of t key token "lease_ttl l" r]
  have "present t (view r key) \<Longrightarrow> \<not> set" "view r2 = (if set then (view r)(key \<mapsto> (token, Some (t + lease_ttl l))) else view r)"
    by simp_all
  with assms(2) Inr sx show ?thesis
    by (auto simp: acquire_def TryLock_def call_def split: option.splits prod.splits if_splits)
qed

lemma release_effect:
  assumes "lock_laws srv view" and "lease_Release srv fault t key l r = (l', r')"
  shows "lease_TTL l' = lease_TTL l \<and> lease_lock l' = None \<and>
    (view r' = view r \<or> (\<exists>tok. lease_lock l = Some tok \<and> l_get srv t key r = Some tok \<and> view r' = (view r)(key := None)))"
  using assms(2) del_law [OF assms(1), of t key r]
  by (auto simp: lease_Release_def lock_Release_def release_script_def call_def split: option.splits prod.splits if_splits)

lemma cluster_invD:
  assumes "cluster_inv view key c"
  shows inv_ttl: "0 < lease_ttl (c_lease c i)" "lease_ttl (c_lease c i) div nanos_per_ms * nanos_per_ms = lease_ttl (c_lease c i)"
    and inv_owner: "lease_lock (c_lease c i) = Some tok \<Longrightarrow> c_owner c tok = Some i"
    and inv_past: "lead_since (c_log c) i = Some t \<Longrightarrow> t \<le> c_now c"
    and inv_key: "lead_since (c_log c) i = Some t \<Longrightarrow> c_now c < t + lease_ttl (c_lease c i) \<Longrightarrow>
      \<exists>tok ex. view (c_server c) key = Some (tok, Some ex) \<and> c_owner c tok = Some i \<and> t + lease_ttl (c_lease c i) \<le> ex"
  using assms by (auto simp: cluster_inv_def)

text \<open>A token found in the key excludes every leader but the one who drew it, and an absent key excludes all.\<close>

lemma key_excludes:
  assumes "lock_laws srv view" and "cluster_inv view key c" and "l_get srv t key (c_server c) = Some tok" and "c_owner c tok = Some i"
    and "lead_since (c_log c) j = Some t0" and "c_now c < t0 + lease_ttl (c_lease c j)"
  shows "j = i"
  using inv_key [OF assms(2,5,6)] get_value [OF assms(1,3)] assms(4) by auto

lemma absent_excludes:
  assumes "cluster_inv view key c" and "\<not> present t (view (c_server c) key)"
    and "lead_since (c_log c) j = Some t0" and "c_now c \<le> t"
  shows "t0 + lease_ttl (c_lease c j) \<le> t"
proof (rule ccontr)
  assume n: "\<not> t0 + lease_ttl (c_lease c j) \<le> t"
  with assms(4) have "c_now c < t0 + lease_ttl (c_lease c j)" by simp
  with inv_key [OF assms(1,3)] n assms(2) show False by auto
qed

lemma lease_ttl_eq: "lease_TTL l' = lease_TTL l \<Longrightarrow> lease_ttl l' = lease_ttl l"
  by (simp add: lease_ttl_def)

text \<open>A step of instance \<open>i\<close> keeps the invariant if it keeps its parts for \<open>i\<close> and the key for every leader.\<close>

lemma cluster_invI:
  assumes "cluster_inv view key c" and "c_now c \<le> t" and "lease_TTL l = lease_TTL (c_lease c i)"
    and "\<And>tok. lease_lock l = Some tok \<Longrightarrow> own tok = Some i" and "\<And>tok j. c_owner c tok = Some j \<Longrightarrow> own tok = Some j"
    and "log = c_log c \<or> log = c_log c @ [(i, Led t)] \<or> log = c_log c @ [(i, Released)]"
    and "\<And>j t0. lead_since log j = Some t0 \<Longrightarrow> t < t0 + lease_ttl (c_lease c j) \<Longrightarrow> t0 \<le> t \<Longrightarrow>
      \<exists>tok ex. view r key = Some (tok, Some ex) \<and> own tok = Some j \<and> t0 + lease_ttl (c_lease c j) \<le> ex"
  shows "cluster_inv view key (c\<lparr>c_server := r, c_lease := (c_lease c)(i := l), c_now := t, c_owner := own, c_log := log\<rparr>)"
proof -
  have ttl: "lease_ttl (((c_lease c)(i := l)) j) = lease_ttl (c_lease c j)" for j using lease_ttl_eq [OF assms(3)] by simp
  have past: "t0 \<le> t" if "lead_since log j = Some t0" for j t0
    using assms(2,6) that inv_past [OF assms(1), of j t0] by (auto split: if_splits)
  show ?thesis
    unfolding cluster_inv_def ttl using assms(1,4,5,7) past
    by (auto simp: cluster_inv_def ttl simp del: fun_upd_apply) (auto split: if_splits)
qed

lemma renewed_inv:
  assumes "lock_laws srv view" and "cluster_inv view key c" and "c_now c \<le> t"
  shows "cluster_inv view key (renewed srv key fault t i c)"
proof -
  obtain ok l r where e: "renew srv fault t key (c_lease c i) (c_server c) = (ok, l, r)" by (metis prod_cases3)
  note eff = renew_effect [OF assms(1) e]
  have "cluster_inv view key (c\<lparr>c_server := r, c_lease := (c_lease c)(i := l), c_now := t, c_owner := c_owner c,
      c_log := c_log c @ (if ok then [(i, Led t)] else [])\<rparr>)"
  proof (rule cluster_invI [OF assms(2,3)])
    fix j t0
    assume j: "lead_since (c_log c @ (if ok then [(i, Led t)] else [])) j = Some t0" "t < t0 + lease_ttl (c_lease c j)" "t0 \<le> t"
    then have now: "c_now c < t0 + lease_ttl (c_lease c j)" using assms(3) by simp
    from eff consider "view r = view (c_server c)" "\<not> ok"
      | tok where "lease_lock (c_lease c i) = Some tok" "l_get srv t key (c_server c) = Some tok"
        "view r = (view (c_server c))(key \<mapsto> (tok, Some (t + lease_ttl (c_lease c i))))"
      unfolding inv_ttl(2) [OF assms(2)] by blast
    then show "\<exists>tok ex. view r key = Some (tok, Some ex) \<and> c_owner c tok = Some j \<and> t0 + lease_ttl (c_lease c j) \<le> ex"
    proof cases
      case 1
      with inv_key [OF assms(2) _ now] j(1) show ?thesis by simp
    next
      case 2
      note own = inv_owner [OF assms(2) 2(1)]
      have "j = i" using key_excludes [OF assms(1,2) 2(2) own _ now] j(1) by (cases ok) (auto split: if_splits)
      with 2(3) own j(3) show ?thesis by simp
    qed
  qed (use eff inv_owner [OF assms(2)] in auto)
  then show ?thesis by (simp add: renewed_def e)
qed

lemma acquired_inv:
  assumes "lock_laws srv view" and "cluster_inv view key c" and "c_now c \<le> t" and "lease_lock (c_lease c i) = None"
    and "case tok of Inl e \<Rightarrow> True | Inr token \<Rightarrow> c_owner c token = None"
  shows "cluster_inv view key (acquired srv key fault t i tok c)"
proof -
  obtain ok l r where e: "acquire srv fault t key tok (c_lease c i) (c_server c) = (ok, l, r)" by (metis prod_cases3)
  note eff = acquire_effect [OF assms(1) e]
  define own where "own = (case tok of Inl e \<Rightarrow> c_owner c | Inr token \<Rightarrow> (c_owner c)(token \<mapsto> i))"
  have keep: "own token = Some j" if "c_owner c token = Some j" for token j
    using that assms(5) by (auto simp: own_def split: sum.splits)
  have "cluster_inv view key (c\<lparr>c_server := r, c_lease := (c_lease c)(i := l), c_now := t, c_owner := own,
      c_log := c_log c @ (if ok then [(i, Led t)] else [])\<rparr>)"
  proof (rule cluster_invI [OF assms(2,3)])
    fix j t0
    assume j: "lead_since (c_log c @ (if ok then [(i, Led t)] else [])) j = Some t0" "t < t0 + lease_ttl (c_lease c j)" "t0 \<le> t"
    then have now: "c_now c < t0 + lease_ttl (c_lease c j)" using assms(3) by simp
    from eff consider "view r = view (c_server c)" "\<not> ok"
      | token where "tok = Inr token" "\<not> present t (view (c_server c) key)"
        "view r = (view (c_server c))(key \<mapsto> (token, Some (t + lease_ttl (c_lease c i))))" by blast
    then show "\<exists>tok ex. view r key = Some (tok, Some ex) \<and> own tok = Some j \<and> t0 + lease_ttl (c_lease c j) \<le> ex"
    proof cases
      case 1
      with inv_key [OF assms(2) _ now] j(1) keep show ?thesis by fastforce
    next
      case 2
      have "j = i" "ok" "t0 = t"
        using absent_excludes [OF assms(2) 2(2) _ assms(3), of j t0] j(1,2) by (cases ok; auto split: if_splits)+
      with 2 show ?thesis by (simp add: own_def)
    qed
  qed (use eff keep assms(4) in \<open>auto simp: own_def split: if_splits\<close>)
  then show ?thesis by (simp add: acquired_def e own_def)
qed

lemma released_inv:
  assumes "lock_laws srv view" and "cluster_inv view key c" and "c_now c \<le> t"
  shows "cluster_inv view key (released srv key fault t i c)"
proof -
  obtain l r where e: "lease_Release srv fault t key (c_lease c i) (c_server c) = (l, r)" by force
  note eff = release_effect [OF assms(1) e]
  have "cluster_inv view key (c\<lparr>c_server := r, c_lease := (c_lease c)(i := l), c_now := t, c_owner := c_owner c, c_log := c_log c @ [(i, Released)]\<rparr>)"
  proof (rule cluster_invI [OF assms(2,3)])
    fix j t0
    assume j: "lead_since (c_log c @ [(i, Released)]) j = Some t0" "t < t0 + lease_ttl (c_lease c j)" "t0 \<le> t"
    then have j': "lead_since (c_log c) j = Some t0" "j \<noteq> i" and now: "c_now c < t0 + lease_ttl (c_lease c j)"
      using assms(3) by (auto split: if_splits)
    have "view r = view (c_server c)"
      using eff key_excludes [OF assms(1,2) _ _ j'(1) now] inv_owner [OF assms(2)] j'(2) by blast
    with inv_key [OF assms(2) j'(1) now] show "\<exists>tok ex. view r key = Some (tok, Some ex) \<and> c_owner c tok = Some j \<and>
        t0 + lease_ttl (c_lease c j) \<le> ex" by simp
  qed (use eff in auto)
  then show ?thesis by (simp add: released_def e)
qed

lemma cluster_steps_inv:
  assumes "lock_laws srv view" and "(cluster_step srv key)\<^sup>*\<^sup>* c c'" and "cluster_inv view key c"
  shows "cluster_inv view key c'"
  using assms(2,3)
proof (induction rule: rtranclp_induct)
  case (step c1 c2)
  then have "cluster_inv view key c1" by simp
  with step.hyps(2) show ?case
    by cases (simp_all add: renewed_inv [OF assms(1)] acquired_inv [OF assms(1)] released_inv [OF assms(1)])
qed simp

text \<open>
  C6. One leader at a time: start any number of instances on a server without the key and let them renew,
  acquire and release in any order, their calls failing as they may, with or without effect. At every
  moment at most one of them is within the lease it was last granted and has not released.
\<close>

theorem leader_exclusive:
  assumes "lock_laws srv view" and "cluster_init view key c0" and "(cluster_step srv key)\<^sup>*\<^sup>* c0 c"
    and "leads c i" and "leads c j"
  shows "i = j"
proof -
  have "cluster_inv view key c0" using assms(2) by (auto simp: cluster_init_def cluster_inv_def lead_since_def)
  note inv = cluster_steps_inv [OF assms(1,3) this]
  obtain ti where "lead_since (c_log c) i = Some ti" "c_now c < ti + lease_ttl (c_lease c i)"
    using assms(4) by (auto simp: leads_def split: option.splits)
  moreover obtain tj where "lead_since (c_log c) j = Some tj" "c_now c < tj + lease_ttl (c_lease c j)"
    using assms(5) by (auto simp: leads_def split: option.splits)
  ultimately show ?thesis using inv_key [OF inv, of i ti] inv_key [OF inv, of j tj] by auto
qed

text \<open>
  Failover: when the key has expired, an instance that tries, whether it never held the lease or
  believes it still does, becomes leader at once if its calls succeed, and the key then holds its
  token for a full lease.
\<close>

theorem leader_failover:
  assumes "lock_laws srv view" and "absent t1 (view r key)" and "t1 \<le> t2"
  shows "\<exists>r'. TryAcquire srv None None t1 t2 key (Inr token) l r = (True, l\<lparr>lease_lock := Some token\<rparr>, r') \<and>
    view r' key = Some (token, Some (t2 + lease_ttl l))"
proof -
  have get: "l_get srv t1 key r = None" by (rule get_absent [OF assms(1,2)])
  have "absent t2 (view r key)" using assms(2,3) by (auto simp: absent_def split: option.splits)
  then have set: "fst (l_setnx srv t2 key token (lease_ttl l) r)" by (rule setnx_absent [OF assms(1)])
  have "renew srv None t1 key l r = (False, l\<lparr>lease_lock := None\<rparr>, r)"
    by (cases "lease_lock l") (simp_all add: renew_def lock_Extend_def extend_script_def call_def get)
  moreover have "acquire srv None t2 key (Inr token) (l\<lparr>lease_lock := None\<rparr>) r =
      (True, l\<lparr>lease_lock := Some token\<rparr>, snd (l_setnx srv t2 key token (lease_ttl l) r))"
    using set lease_ttl_eq [of "l\<lparr>lease_lock := None\<rparr>" l] by (simp add: acquire_def TryLock_def call_def)
  ultimately show ?thesis using setnx_view [OF assms(1), of t2 key token "lease_ttl l" r] set by (simp add: TryAcquire_def)
qed

subsection \<open>A concrete server\<close>

definition demo_locks :: "string store lock_server" where
  "demo_locks = \<lparr>l_get = (\<lambda>now k s. map_option fst (store_get now k s)),
     l_setnx = (\<lambda>now k v d s. if store_get now k s = None then (True, AList.update k (v, Some (now + d)) s) else (False, s)),
     l_pexpire = (\<lambda>now k ms s. case store_get now k s of None \<Rightarrow> (0, s)
        | Some (v, ex) \<Rightarrow> (1, AList.update k (v, Some (now + ms * nanos_per_ms)) s)),
     l_del = (\<lambda>now k s. (1, AList.delete k s))\<rparr>"

lemma store_get_Some: "store_get now k s = Some x \<longleftrightarrow> present now (Some x) \<and> map_of s k = Some x"
  by (auto simp: store_get_def)

lemma demo_locks_laws: "lock_laws demo_locks map_of"
  unfolding lock_laws_def
proof (intro conjI allI impI)
  fix now k ms v and s :: "string store"
  assume "l_get demo_locks now k s = Some v"
  then obtain ex where st: "store_get now k s = Some (v, ex)" by (auto simp: demo_locks_def)
  then have "map_of s k = Some (v, ex)" by (simp add: store_get_Some)
  with st show "fst (l_pexpire demo_locks now k ms s) = 1"
    "map_of (snd (l_pexpire demo_locks now k ms s)) = (map_of s)(k \<mapsto> (v, Some (now + ms * nanos_per_ms)))"
    "\<exists>ex. map_of s k = Some (v, ex)"
    by (simp_all add: demo_locks_def update_conv')
qed (auto simp: demo_locks_def update_conv' delete_conv' store_get_def present_def dest: absent_not_present split: option.splits)

definition demo_cluster :: "string store cluster" where
  "demo_cluster = \<lparr>c_server = [], c_lease = (\<lambda>i. \<lparr>lease_TTL = 0, lease_lock = None\<rparr>), c_now = 0, c_owner = (\<lambda>tok. None), c_log = []\<rparr>"

theorem leader_exclusive_witness:
  "leads (acquired demo_locks ''leader:scheduler'' None 5 1 (Inr ''b'') (acquired demo_locks ''leader:scheduler'' None 1 0 (Inr ''a'') demo_cluster)) 0 \<and>
   \<not> leads (acquired demo_locks ''leader:scheduler'' None 5 1 (Inr ''b'') (acquired demo_locks ''leader:scheduler'' None 1 0 (Inr ''a'') demo_cluster)) 1"
proof -
  let ?step = "cluster_step demo_locks ''leader:scheduler''"
  let ?c1 = "acquired demo_locks ''leader:scheduler'' None 1 0 (Inr ''a'') demo_cluster"
  let ?c2 = "acquired demo_locks ''leader:scheduler'' None 5 1 (Inr ''b'') ?c1"
  note defs = acquired_def acquire_def TryLock_def call_def demo_locks_def demo_cluster_def store_get_def lease_ttl_def nanos_per_s_def
  have c1: "?c1 = demo_cluster\<lparr>c_server := [(''leader:scheduler'', ''a'', Some 15000000001)], c_now := 1, c_owner := [''a'' \<mapsto> 0],
      c_lease := (c_lease demo_cluster)(0 := \<lparr>lease_TTL = 0, lease_lock = Some ''a''\<rparr>), c_log := [(0, Led 1)]\<rparr>"
    by (simp add: defs)
  have c2: "?c2 = ?c1\<lparr>c_now := 5, c_owner := [''a'' \<mapsto> 0, ''b'' \<mapsto> 1]\<rparr>"
    unfolding c1 by (simp add: defs fun_upd_twist) (simp add: fun_eq_iff)
  have "?step demo_cluster ?c1" by (rule cluster_step.acquire) (simp_all add: demo_cluster_def)
  moreover have "?step ?c1 ?c2" by (rule cluster_step.acquire; simp only: c1; simp add: demo_cluster_def)
  ultimately have run: "?step\<^sup>*\<^sup>* demo_cluster ?c2" by simp
  have init: "cluster_init map_of ''leader:scheduler'' demo_cluster"
    by (simp add: cluster_init_def demo_cluster_def lease_ttl_def nanos_per_s_def nanos_per_ms_def)
  have lead: "leads ?c2 0" by (subst c2, subst c1) (simp add: leads_def lead_since_def lease_ttl_def nanos_per_s_def)
  with leader_exclusive [OF demo_locks_laws init run lead, of 1] show ?thesis by auto
qed

theorem leader_failover_witness:
  "\<exists>r'. TryAcquire demo_locks None None 20000000000 20000000001 ''leader:scheduler'' (Inr ''b'') \<lparr>lease_TTL = 0, lease_lock = Some ''c''\<rparr>
     [(''leader:scheduler'', ''a'', Some 15000000000)] = (True, \<lparr>lease_TTL = 0, lease_lock = Some ''b''\<rparr>, r') \<and>
     map_of r' ''leader:scheduler'' = Some (''b'', Some 35000000001)"
proof -
  let ?r = "[(''leader:scheduler'', ''a'', Some 15000000000)] :: string store"
  have "absent 20000000000 (map_of ?r ''leader:scheduler'')" by (simp add: absent_def redis_slack_def)
  moreover have "(20000000000 :: gotime) \<le> 20000000001" by simp
  ultimately obtain r' where "TryAcquire demo_locks None None 20000000000 20000000001 ''leader:scheduler'' (Inr ''b'')
      \<lparr>lease_TTL = 0, lease_lock = Some ''c''\<rparr> ?r = (True, \<lparr>lease_TTL = 0, lease_lock = Some ''c''\<rparr>\<lparr>lease_lock := Some ''b''\<rparr>, r')"
    "map_of r' ''leader:scheduler'' = Some (''b'', Some (20000000001 + lease_ttl \<lparr>lease_TTL = 0, lease_lock = Some ''c''\<rparr>))"
    using leader_failover [OF demo_locks_laws] by blast
  then show ?thesis by (intro exI [of _ r'] conjI) (simp_all only: lease_ttl_def nanos_per_s_def, simp_all)
qed

end
