(* ===== verification/Inventory_Sync.thy ===== *)
theory Inventory_Sync
  imports Errx "HOL-Library.Multiset"
begin

text \<open>
  Inventory reconciliation: the differ (\<open>internal/inventory/app/sync.go\<close>) compares the stored interfaces of
  a device with what it reports, and the repository (\<open>internal/inventory/adapters/postgres/sync.go\<close>)
  writes the difference in one transaction, under the unique index of present interfaces.

  The table holds the rows of one device; every statement of the transaction touches only these. A
  statement that would break the index, or whose values the columns refuse, fails, and with it the
  transaction. The order in which a Go map is walked, fresh row ids, the cast to a MAC address and the
  text of a time in the process's time zone are parameters. What is proved of them is in the next two
  theories.
\<close>

definition RemoveAfterMisses :: int where "RemoveAfterMisses = 3"

definition int_str :: "int \<Rightarrow> string" where
  "int_str n = (if n < 0 then CHR ''-'' # nat_str (nat (- n)) else nat_str (nat n))"

lemma nat_str_digits: "c \<in> set (nat_str n) \<Longrightarrow> 48 \<le> (of_char c :: nat)"
proof (induction n rule: nat_str.induct)
  case (1 n)
  have "48 \<le> (of_char (digit_char k) :: nat)" if "k < 10" for k
    using that by (simp add: digit_char_def)
  with 1 show ?case by (subst (asm) (2) nat_str.simps) (auto split: if_splits)
qed

lemma int_str_inject [simp]: "int_str i = int_str j \<longleftrightarrow> i = j"
proof
  assume e: "int_str i = int_str j"
  have sign: "nat_str n \<noteq> CHR ''-'' # s" for n s using nat_str_digits [of "CHR ''-''" n] by auto
  show "i = j" using e sign by (auto simp: int_str_def dest: sym split: if_splits)
qed simp

definition lower_char :: "char \<Rightarrow> char" where
  "lower_char c = (if of_char c \<in> {65..90 :: nat} then char_of (of_char c + 32 :: nat) else c)"

text \<open>\<open>strings.ToLower\<close>, used here on MAC addresses only.\<close>

definition ToLower :: "string \<Rightarrow> string" where
  "ToLower s = map lower_char s"

record SyncInterface =
  si_IfIndex :: int
  si_Name :: string
  si_Alias :: string
  si_Descr :: string
  si_IfType :: int
  si_MTU :: int
  si_SpeedBPS :: int
  si_PhysAddress :: string
  si_AdminStatus :: int
  si_OperStatus :: int

record SyncAdjacency =
  adj_LocalIfIndex :: int
  adj_RemoteSysName :: string
  adj_RemotePortID :: string
  adj_RemoteChassis :: string
  adj_Protocol :: string

record SyncSnapshot =
  ss_SysName :: string
  ss_SysDescr :: string
  ss_SysObjectID :: string
  ss_SysLocation :: string
  ss_SysContact :: string
  ss_UptimeS :: int
  ss_Vendor :: string
  ss_Model :: string
  ss_Serial :: string
  ss_OSVersion :: string
  ss_Interfaces :: "SyncInterface list"
  ss_Adjacencies :: "SyncAdjacency list"

datatype presence = Present | Missing | Removed

record IfState =
  if_ID :: string
  if_IfIndex :: int
  if_Name :: string
  if_Alias :: string
  if_Descr :: string
  if_IfType :: int
  if_MTU :: int
  if_SpeedBPS :: int
  if_PhysAddress :: string
  if_AdminStatus :: int
  if_OperStatus :: int
  if_State :: presence
  if_MissStreak :: int

record DeviceState =
  ds_DeviceID :: string
  ds_ConnectorID :: string
  ds_SysName :: string
  ds_SysDescr :: string
  ds_SysObjectID :: string
  ds_SysLocation :: string
  ds_SysContact :: string
  ds_Vendor :: string
  ds_Model :: string
  ds_Serial :: string
  ds_OSVersion :: string
  ds_UptimeBasis :: "gotime option"
  ds_Interfaces :: "IfState list"

record FieldChange =
  fc_ObjectKind :: string
  fc_ObjectID :: string
  fc_Field :: string
  fc_Old :: string
  fc_New :: string
  fc_ChangeKind :: string

record IfUpsert =
  up_ExistingID :: string
  up_Rec :: SyncInterface

record DiffResult =
  dr_DeviceFields :: "(string, string) gomap"
  dr_NewUptime :: "gotime option"
  dr_Rebooted :: bool
  dr_Upserts :: "IfUpsert list"
  dr_MissingIDs :: "string list"
  dr_StreakIDs :: "string list"
  dr_RemovedIDs :: "string list"
  dr_RestoredIDs :: "string list"
  dr_Changes :: "FieldChange list"

text \<open>How stored and computed times print, and the order a map is walked in.\<close>

record diff_env =
  de_local :: "gotime \<Rightarrow> string"
  de_utc :: "gotime \<Rightarrow> string"
  de_order :: "string list \<Rightarrow> string list"

subsection \<open>The differ\<close>

definition orKeep :: "string \<Rightarrow> string \<Rightarrow> string" where
  "orKeep current reported = (if reported = [] then current else reported)"

definition changeKind :: "string \<Rightarrow> string" where
  "changeKind old = (if old = [] then ''created'' else ''updated'')"

definition change :: "string \<Rightarrow> string \<Rightarrow> string \<Rightarrow> string \<Rightarrow> string \<Rightarrow> string \<Rightarrow> FieldChange" where
  "change kind oid field old new ck = \<lparr>fc_ObjectKind = kind, fc_ObjectID = oid, fc_Field = field, fc_Old = old, fc_New = new, fc_ChangeKind = ck\<rparr>"

definition devFields :: "DeviceState \<Rightarrow> SyncSnapshot \<Rightarrow> (string \<times> string \<times> string) list" where
  "devFields cur snap =
     [(''sys_name'', ds_SysName cur, ss_SysName snap),
      (''sys_descr'', ds_SysDescr cur, ss_SysDescr snap),
      (''sys_object_id'', ds_SysObjectID cur, ss_SysObjectID snap),
      (''sys_location'', ds_SysLocation cur, ss_SysLocation snap),
      (''sys_contact'', ds_SysContact cur, ss_SysContact snap),
      (''vendor'', ds_Vendor cur, orKeep (ds_Vendor cur) (ss_Vendor snap)),
      (''model'', ds_Model cur, orKeep (ds_Model cur) (ss_Model snap)),
      (''serial_number'', ds_Serial cur, orKeep (ds_Serial cur) (ss_Serial snap)),
      (''os_version'', ds_OSVersion cur, orKeep (ds_OSVersion cur) (ss_OSVersion snap))]"

definition diff_fields :: "DeviceState \<Rightarrow> SyncSnapshot \<Rightarrow> (string, string) gomap \<times> FieldChange list" where
  "diff_fields cur snap =
     (let fs = filter (\<lambda>(col, old, new). new \<noteq> old) (devFields cur snap)
      in (map (\<lambda>(col, old, new). (col, new)) fs,
          map (\<lambda>(col, old, new). change ''device'' (ds_DeviceID cur) col old new (changeKind old)) fs))"

text \<open>Reboot detection: new basis, whether it was a reboot, and its history row.\<close>

definition duration_s :: "int \<Rightarrow> int" where
  "duration_s n = sint (word_of_int (n * nanos_per_s) :: u64)"

definition absDur :: "int \<Rightarrow> int" where
  "absDur d = (if d < 0 then sint (- word_of_int d :: u64) else d)"

definition diff_uptime :: "diff_env \<Rightarrow> DeviceState \<Rightarrow> SyncSnapshot \<Rightarrow> gotime \<Rightarrow> gotime option \<times> bool \<times> FieldChange list" where
  "diff_uptime env cur snap at =
     (let boot = at + duration_s (- ss_UptimeS snap) in
      case ds_UptimeBasis cur of None \<Rightarrow> (Some boot, False, [])
      | Some basis \<Rightarrow>
          if 5 * nanos_per_min < absDur (time_sub boot basis)
          then (if basis < boot
                then (Some boot, True, [change ''device'' (ds_DeviceID cur) ''uptime'' (de_local env basis) (de_utc env boot) ''status''])
                else (Some boot, False, []))
          else (None, False, []))"

definition idx_name :: "int \<Rightarrow> string \<Rightarrow> string" where
  "idx_name i n = int_str i @ ''/'' @ n"

definition phys_type :: "string \<Rightarrow> int \<Rightarrow> string" where
  "phys_type p t = ToLower p @ ''/'' @ int_str t"

record ifmaps =
  m_unmatched :: "(string, IfState) gomap"
  m_byIdxName :: "(string, IfState) gomap"
  m_byName :: "(string, IfState) gomap"
  m_byPhys :: "(string, IfState) gomap"

definition index_if :: "ifmaps \<Rightarrow> IfState \<Rightarrow> ifmaps" where
  "index_if m i = (if if_State i = Removed then m
     else \<lparr>m_unmatched = AList.update (if_ID i) i (m_unmatched m),
           m_byIdxName = AList.update (idx_name (if_IfIndex i) (if_Name i)) i (m_byIdxName m),
           m_byName = (if if_Name i \<noteq> [] then AList.update (if_Name i) i (m_byName m) else m_byName m),
           m_byPhys = (if if_PhysAddress i \<noteq> [] then AList.update (phys_type (if_PhysAddress i) (if_IfType i)) i (m_byPhys m) else m_byPhys m)\<rparr>)"

definition index_ifs :: "IfState list \<Rightarrow> ifmaps" where
  "index_ifs is = foldl index_if \<lparr>m_unmatched = [], m_byIdxName = [], m_byName = [], m_byPhys = []\<rparr> is"

text \<open>A row found by a key, if it is still unmatched.\<close>

definition unmatched_at :: "ifmaps \<Rightarrow> (string, IfState) gomap \<Rightarrow> string \<Rightarrow> IfState option" where
  "unmatched_at m by key = (case map_of by key of None \<Rightarrow> None
     | Some i \<Rightarrow> if map_of (m_unmatched m) (if_ID i) = None then None else Some i)"

definition match :: "ifmaps \<Rightarrow> SyncInterface \<Rightarrow> IfState option" where
  "match m rec = (case unmatched_at m (m_byIdxName m) (idx_name (si_IfIndex rec) (si_Name rec)) of Some i \<Rightarrow> Some i
     | None \<Rightarrow> (case (if si_Name rec \<noteq> [] then unmatched_at m (m_byName m) (si_Name rec) else None) of Some i \<Rightarrow> Some i
        | None \<Rightarrow> if si_PhysAddress rec \<noteq> [] then unmatched_at m (m_byPhys m) (phys_type (si_PhysAddress rec) (si_IfType rec)) else None))"

definition if_changes :: "IfState \<Rightarrow> SyncInterface \<Rightarrow> FieldChange list" where
  "if_changes m rec =
     (if if_State m = Missing then [change ''interface'' (if_ID m) ''state'' ''missing'' ''present'' ''status''] else []) @
     (if si_IfIndex rec \<noteq> if_IfIndex m
      then [change ''interface'' (if_ID m) ''if_index'' (int_str (if_IfIndex m)) (int_str (si_IfIndex rec)) ''updated''] else []) @
     map (\<lambda>(f, old, new). change ''interface'' (if_ID m) f old new ''updated'')
       (filter (\<lambda>(f, old, new). old \<noteq> new)
         [(''name'', if_Name m, si_Name rec), (''alias'', if_Alias m, si_Alias rec),
          (''speed_bps'', int_str (if_SpeedBPS m), int_str (si_SpeedBPS rec)), (''mtu'', int_str (if_MTU m), int_str (si_MTU rec))])"

text \<open>The reported interfaces in order: upserts, restored ids, history rows, and what stays unmatched.\<close>

primrec diff_recs :: "SyncInterface list \<Rightarrow> ifmaps \<Rightarrow> IfUpsert list \<times> string list \<times> FieldChange list \<times> ifmaps" where
  "diff_recs [] m = ([], [], [], m)"
| "diff_recs (rec # recs) m = (case match m rec of
     None \<Rightarrow> (case diff_recs recs m of (us, rs, cs, m) \<Rightarrow>
        (\<lparr>up_ExistingID = [], up_Rec = rec\<rparr> # us, rs,
         change ''interface'' (''ifindex:'' @ int_str (si_IfIndex rec)) ''interface'' [] (si_Name rec) ''created'' # cs, m))
   | Some i \<Rightarrow> (case diff_recs recs (m\<lparr>m_unmatched := AList.delete (if_ID i) (m_unmatched m)\<rparr>) of (us, rs, cs, m) \<Rightarrow>
        (\<lparr>up_ExistingID = if_ID i, up_Rec = rec\<rparr> # us, (if if_State i = Missing then [if_ID i] else []) @ rs, if_changes i rec @ cs, m)))"

text \<open>The interfaces that were not reported: newly missing, still missing, removed.\<close>

primrec diff_absent :: "(string, IfState) gomap \<Rightarrow> string list \<Rightarrow> string list \<times> string list \<times> string list \<times> FieldChange list" where
  "diff_absent un [] = ([], [], [], [])"
| "diff_absent un (i # is) = (case diff_absent un is of (mi, st, re, cs) \<Rightarrow>
     (case map_of un i of None \<Rightarrow> (mi, st, re, cs)
      | Some m \<Rightarrow>
          if if_State m = Present then (i # mi, st, re, change ''interface'' i ''state'' ''present'' ''missing'' ''status'' # cs)
          else if RemoveAfterMisses \<le> if_MissStreak m + 1 then (mi, st, i # re, change ''interface'' i ''state'' ''missing'' ''removed'' ''removed'' # cs)
          else (mi, i # st, re, cs)))"

definition Diff :: "diff_env \<Rightarrow> DeviceState \<Rightarrow> SyncSnapshot \<Rightarrow> gotime \<Rightarrow> DiffResult" where
  "Diff env cur snap at =
     (let (fields, fchanges) = diff_fields cur snap;
          (uptime, rebooted, uchanges) = diff_uptime env cur snap at;
          (us, rs, cs, m) = diff_recs (ss_Interfaces snap) (index_ifs (ds_Interfaces cur));
          (mi, st, re, acs) = diff_absent (m_unmatched m) (de_order env (map fst (m_unmatched m)))
      in \<lparr>dr_DeviceFields = fields, dr_NewUptime = uptime, dr_Rebooted = rebooted, dr_Upserts = us,
          dr_MissingIDs = mi, dr_StreakIDs = st, dr_RemovedIDs = re, dr_RestoredIDs = rs,
          dr_Changes = fchanges @ uchanges @ cs @ acs\<rparr>)"

subsection \<open>The transaction\<close>

record if_row = IfState +
  if_EverUp :: bool

text \<open>
  Fresh ids by number, the cast to \<open>macaddr\<close> in its text form, the server's clock, and an error of the
  server, with whether the transaction was committed all the same (an error of the commit).
\<close>

record apply_env =
  ae_id :: "nat \<Rightarrow> string"
  ae_mac :: "string \<Rightarrow> string option"
  ae_now :: gotime
  ae_fault :: "(goerr \<times> bool) option"

definition int4 :: "int \<Rightarrow> bool" where
  "int4 n \<longleftrightarrow> - (2 ^ 31) \<le> n \<and> n < 2 ^ 31"

text \<open>The values the columns accept; an empty address is stored as \<open>NULL\<close> and read back empty.\<close>

definition mac_text :: "apply_env \<Rightarrow> string \<Rightarrow> string option" where
  "mac_text env p = (if p = [] then Some [] else ae_mac env p)"

definition rec_ok :: "apply_env \<Rightarrow> SyncInterface \<Rightarrow> bool" where
  "rec_ok env rec \<longleftrightarrow> int4 (si_IfIndex rec) \<and> int4 (si_IfType rec) \<and> int4 (si_MTU rec) \<and> int4 (si_AdminStatus rec) \<and> int4 (si_OperStatus rec) \<and>
     mac_text env (si_PhysAddress rec) \<noteq> None"

definition phys_of :: "apply_env \<Rightarrow> SyncInterface \<Rightarrow> string" where
  "phys_of env rec = (case mac_text env (si_PhysAddress rec) of None \<Rightarrow> [] | Some p \<Rightarrow> p)"

text \<open>The unique index on the indexes of present rows.\<close>

definition index_holds :: "if_row list \<Rightarrow> bool" where
  "index_holds rows \<longleftrightarrow> distinct (map if_IfIndex (filter (\<lambda>r. if_State r = Present) rows))"

definition upd :: "(if_row \<Rightarrow> bool) \<Rightarrow> (if_row \<Rightarrow> if_row) \<Rightarrow> if_row list \<Rightarrow> if_row list" where
  "upd P f rows = map (\<lambda>r. if P r then f r else r) rows"

definition lifecycle :: "DiffResult \<Rightarrow> if_row list \<Rightarrow> if_row list" where
  "lifecycle res rows =
     upd (\<lambda>r. if_ID r \<in> set (dr_RemovedIDs res)) (\<lambda>r. r\<lparr>if_State := Removed\<rparr>)
       (upd (\<lambda>r. if_ID r \<in> set (dr_StreakIDs res)) (\<lambda>r. r\<lparr>if_MissStreak := if_MissStreak r + 1\<rparr>)
         (upd (\<lambda>r. if_ID r \<in> set (dr_MissingIDs res)) (\<lambda>r. r\<lparr>if_State := Missing, if_MissStreak := 1\<rparr>) rows))"

definition park :: "DiffResult \<Rightarrow> if_row list \<Rightarrow> if_row list" where
  "park res rows =
     (let ids = filter (\<lambda>i. i \<noteq> []) (map up_ExistingID (dr_Upserts res)) in
      upd (\<lambda>r. if_ID r \<in> set ids \<and> 0 < if_IfIndex r) (\<lambda>r. r\<lparr>if_IfIndex := - if_IfIndex r\<rparr>) rows)"

definition inserted_row :: "apply_env \<Rightarrow> string \<Rightarrow> SyncInterface \<Rightarrow> if_row" where
  "inserted_row env i rec = \<lparr>if_ID = i, if_IfIndex = si_IfIndex rec, if_Name = si_Name rec, if_Alias = si_Alias rec, if_Descr = si_Descr rec,
     if_IfType = si_IfType rec, if_MTU = si_MTU rec, if_SpeedBPS = si_SpeedBPS rec, if_PhysAddress = phys_of env rec,
     if_AdminStatus = si_AdminStatus rec, if_OperStatus = si_OperStatus rec, if_State = Present, if_MissStreak = 0, if_EverUp = (si_OperStatus rec = 1)\<rparr>"

definition updated_row :: "apply_env \<Rightarrow> SyncInterface \<Rightarrow> if_row \<Rightarrow> if_row" where
  "updated_row env rec r = r\<lparr>if_IfIndex := si_IfIndex rec, if_Name := si_Name rec, if_Alias := si_Alias rec, if_Descr := si_Descr rec,
     if_IfType := si_IfType rec, if_MTU := si_MTU rec, if_SpeedBPS := si_SpeedBPS rec, if_PhysAddress := phys_of env rec,
     if_AdminStatus := si_AdminStatus rec, if_OperStatus := si_OperStatus rec, if_EverUp := if_EverUp r \<or> si_OperStatus rec = 1,
     if_State := Present, if_MissStreak := 0\<rparr>"

text \<open>One upsert; \<open>None\<close> is a refused statement.\<close>

definition upsert :: "apply_env \<Rightarrow> string \<Rightarrow> IfUpsert \<Rightarrow> if_row list \<Rightarrow> if_row list option" where
  "upsert env newid u rows =
     (let rec = up_Rec u in
      if \<not> rec_ok env rec then None
      else if up_ExistingID u = [] then
        (if list_ex (\<lambda>r. if_State r = Present \<and> if_IfIndex r = si_IfIndex rec) rows
         then Some (upd (\<lambda>r. if_State r = Present \<and> if_IfIndex r = si_IfIndex rec)
           (\<lambda>r. r\<lparr>if_Name := si_Name rec, if_Alias := si_Alias rec, if_EverUp := if_EverUp r \<or> si_OperStatus rec = 1,
                 if_State := Present, if_MissStreak := 0\<rparr>) rows)
         else if list_ex (\<lambda>r. if_ID r = newid) rows then None
         else Some (rows @ [inserted_row env newid rec]))
      else let rows' = upd (\<lambda>r. if_ID r = up_ExistingID u) (updated_row env rec) rows in
        if index_holds rows' then Some rows' else None)"

primrec upserts :: "apply_env \<Rightarrow> nat \<Rightarrow> IfUpsert list \<Rightarrow> if_row list \<Rightarrow> if_row list option" where
  "upserts env n [] rows = Some rows"
| "upserts env n (u # us) rows = (case upsert env (ae_id env n) u rows of None \<Rightarrow> None | Some rows \<Rightarrow> upserts env (n + 1) us rows)"

text \<open>Interface ids by reported index, for the adjacencies; a later record wins.\<close>

primrec new_ids :: "apply_env \<Rightarrow> nat \<Rightarrow> IfUpsert list \<Rightarrow> (int, string) gomap \<Rightarrow> (int, string) gomap" where
  "new_ids env n [] ids = ids"
| "new_ids env n (u # us) ids =
     new_ids env (n + 1) us (AList.update (si_IfIndex (up_Rec u)) (if up_ExistingID u = [] then ae_id env n else up_ExistingID u) ids)"

text \<open>An empty text is stored as \<open>NULL\<close>, which equals nothing in a unique constraint.\<close>

record topology_link =
  tl_IfID :: string
  tl_Sysname :: string
  tl_Port :: string
  tl_Chassis :: string
  tl_Protocol :: string
  tl_Active :: bool
  tl_LastSeen :: gotime

definition same_link :: "topology_link \<Rightarrow> topology_link \<Rightarrow> bool" where
  "same_link a b \<longleftrightarrow> tl_IfID a = tl_IfID b \<and> tl_Chassis a = tl_Chassis b \<and> tl_Port a = tl_Port b \<and>
     tl_IfID a \<noteq> [] \<and> tl_Chassis a \<noteq> [] \<and> tl_Port a \<noteq> []"

definition adjacency_link :: "gotime \<Rightarrow> (int, string) gomap \<Rightarrow> SyncAdjacency \<Rightarrow> topology_link" where
  "adjacency_link now ids a = \<lparr>tl_IfID = (case map_of ids (adj_LocalIfIndex a) of None \<Rightarrow> [] | Some i \<Rightarrow> i), tl_Sysname = adj_RemoteSysName a,
     tl_Port = adj_RemotePortID a, tl_Chassis = adj_RemoteChassis a, tl_Protocol = adj_Protocol a, tl_Active = True, tl_LastSeen = now\<rparr>"

definition put_link :: "if_row list \<Rightarrow> topology_link \<Rightarrow> topology_link list \<Rightarrow> topology_link list option" where
  "put_link rows l links =
     (if tl_IfID l \<noteq> [] \<and> \<not> list_ex (\<lambda>r. if_ID r = tl_IfID l) rows then None
      else if list_ex (same_link l) links
      then Some (map (\<lambda>k. if same_link l k then k\<lparr>tl_Sysname := tl_Sysname l, tl_Active := True, tl_LastSeen := tl_LastSeen l\<rparr> else k) links)
      else Some (links @ [l]))"

primrec put_links :: "if_row list \<Rightarrow> topology_link list \<Rightarrow> topology_link list \<Rightarrow> topology_link list option" where
  "put_links rows [] links = Some links"
| "put_links rows (l # ls) links = (case put_link rows l links of None \<Rightarrow> None | Some links \<Rightarrow> put_links rows ls links)"

definition stale_links :: "gotime \<Rightarrow> topology_link list \<Rightarrow> topology_link list" where
  "stale_links now links = map (\<lambda>l. if tl_Active l \<and> tl_LastSeen l < now - 24 * 60 * nanos_per_min then l\<lparr>tl_Active := False\<rparr> else l) links"

record SyncRunRecord =
  run_ID :: string
  run_Trigger :: string
  run_StartedAt :: gotime
  run_Status :: string
  run_Error :: string
  run_Changes :: nat

record sync_db =
  sy_Status :: string
  sy_Device :: DeviceState
  sy_Rows :: "if_row list"
  sy_Links :: "topology_link list"
  sy_History :: "(FieldChange \<times> string) list"
  sy_Runs :: "SyncRunRecord list"

definition set_col :: "DeviceState \<Rightarrow> string \<times> string \<Rightarrow> DeviceState" where
  "set_col d cv = (case cv of (col, v) \<Rightarrow>
     if col = ''sys_name'' then d\<lparr>ds_SysName := v\<rparr> else if col = ''sys_descr'' then d\<lparr>ds_SysDescr := v\<rparr>
     else if col = ''sys_object_id'' then d\<lparr>ds_SysObjectID := v\<rparr> else if col = ''sys_location'' then d\<lparr>ds_SysLocation := v\<rparr>
     else if col = ''sys_contact'' then d\<lparr>ds_SysContact := v\<rparr> else if col = ''vendor'' then d\<lparr>ds_Vendor := v\<rparr>
     else if col = ''model'' then d\<lparr>ds_Model := v\<rparr> else if col = ''serial_number'' then d\<lparr>ds_Serial := v\<rparr>
     else if col = ''os_version'' then d\<lparr>ds_OSVersion := v\<rparr> else if col = ''connector_id'' then d\<lparr>ds_ConnectorID := v\<rparr> else d)"

definition put_device :: "DiffResult \<Rightarrow> sync_db \<Rightarrow> sync_db" where
  "put_device res db =
     (if sy_Status db \<in> set [''pending'', ''active'', ''unreachable''] then
        let d = foldl set_col (sy_Device db) (dr_DeviceFields res) in
        db\<lparr>sy_Status := ''active'', sy_Device := (case dr_NewUptime res of None \<Rightarrow> d | Some t \<Rightarrow> d\<lparr>ds_UptimeBasis := Some t\<rparr>)\<rparr>
      else db)"

text \<open>
  The whole transaction: the number of history rows, or an error and the tables as they were. The message
  of a refused statement names the statement in the code; here all of them read the same.
\<close>

definition apply_rows :: "apply_env \<Rightarrow> DiffResult \<Rightarrow> if_row list \<Rightarrow> if_row list option" where
  "apply_rows env res rows =
     (let parked = park res (lifecycle res rows) in if index_holds parked then upserts env 0 (dr_Upserts res) parked else None)"

definition Apply :: "apply_env \<Rightarrow> DiffResult \<Rightarrow> SyncAdjacency list \<Rightarrow> SyncRunRecord \<Rightarrow> sync_db \<Rightarrow> (goerr + nat) \<times> sync_db" where
  "Apply env res adjs run db =
     (let db1 = put_device res db;
          refused = (Inl (KindError KindTransient (ErrMsg ''apply'' (ErrLeaf ''constraint''))), db)
      in case apply_rows env res (sy_Rows db1) of None \<Rightarrow> refused
         | Some rows \<Rightarrow>
             (case put_links rows (map (adjacency_link (ae_now env) (new_ids env 0 (dr_Upserts res) [])) adjs) (sy_Links db1) of None \<Rightarrow> refused
              | Some links \<Rightarrow>
                  let n = length (dr_Changes res);
                      db2 = db1\<lparr>sy_Rows := rows, sy_Links := stale_links (ae_now env) links,
                        sy_History := sy_History db1 @ map (\<lambda>c. (c, run_ID run)) (dr_Changes res),
                        sy_Runs := sy_Runs db1 @ [run\<lparr>run_Changes := n\<rparr>]\<rparr>
                  in if list_ex (\<lambda>r. run_ID r = run_ID run) (sy_Runs db) then refused
                     else case ae_fault env of None \<Rightarrow> (Inr n, db2)
                       | Some (e, committed) \<Rightarrow> (Inl e, if committed then db2 else db)))"

definition if_state :: "if_row \<Rightarrow> IfState" where
  "if_state r = IfState.truncate r"

text \<open>Where loading fails, with the driver's error: the device row, the interface query, or reading its rows.\<close>

datatype load_fault = AtDevice goerr | AtQuery goerr | AtRows goerr

definition LoadState :: "load_fault option \<Rightarrow> sync_db option \<Rightarrow> goerr + DeviceState" where
  "LoadState fault db = (case fault of Some (AtDevice e) \<Rightarrow> Inl (KindError KindTransient (ErrMsg ''load device state'' e))
     | _ \<Rightarrow> (case db of None \<Rightarrow> Inl (errx_New KindNotFound ''device not found'')
        | Some db \<Rightarrow> if sy_Status db = ''retired'' then Inl (errx_New KindNotFound ''device not found'')
            else (case fault of Some (AtQuery e) \<Rightarrow> Inl (KindError KindTransient (ErrMsg ''load interfaces'' e))
              | Some (AtRows e) \<Rightarrow> Inl e
              | _ \<Rightarrow> Inr ((sy_Device db)\<lparr>ds_Interfaces := map if_state (sy_Rows db)\<rparr>))))"

text \<open>A run of a device that is not there breaks the foreign key.\<close>

definition RecordFailedRun :: "goerr option \<Rightarrow> SyncRunRecord \<Rightarrow> sync_db option \<Rightarrow> goerr option \<times> sync_db option" where
  "RecordFailedRun fault run dev = (case (fault, dev) of
       (Some e, dev) \<Rightarrow> (Some (KindError KindTransient (ErrMsg ''record failed run'' e)), dev)
     | (None, None) \<Rightarrow> (Some (KindError KindTransient (ErrMsg ''record failed run'' (ErrLeaf ''foreign key''))), None)
     | (None, Some db) \<Rightarrow> (None, Some (if list_ex (\<lambda>r. run_ID r = run_ID run) (sy_Runs db) then db else db\<lparr>sy_Runs := sy_Runs db @ [run]\<rparr>)))"

subsection \<open>The service\<close>

record SyncResult =
  sres_JobID :: string
  sres_DeviceID :: string
  sres_PollerID :: string
  sres_Trigger :: string
  sres_CollectedAt :: gotime
  sres_Error :: string
  sres_Snapshot :: "SyncSnapshot option"

datatype sync_audit = ConnectorMatched string string string | SyncCompleted nat string bool

record sync_env =
  sv_diff :: diff_env
  sv_apply :: apply_env
  sv_lock :: "goerr + bool"
  sv_load :: "load_fault option"
  sv_record :: "goerr option"
  sv_match :: "(string \<Rightarrow> string \<Rightarrow> string) option"

definition orDefault :: "string \<Rightarrow> string \<Rightarrow> string" where
  "orDefault v def = (if v = [] then def else v)"

definition rematch :: "(string \<Rightarrow> string \<Rightarrow> string) option \<Rightarrow> DeviceState \<Rightarrow> SyncSnapshot \<Rightarrow> DiffResult \<Rightarrow> string \<times> DiffResult" where
  "rematch matcher cur snap diff = (case matcher of None \<Rightarrow> ([], diff)
     | Some f \<Rightarrow>
         if ds_ConnectorID cur \<noteq> ''generic'' \<or> ss_SysObjectID snap = [] then ([], diff)
         else let m = f (ss_SysObjectID snap) (ss_SysDescr snap) in
           if m = [] \<or> m = ds_ConnectorID cur then ([], diff)
           else (m, diff\<lparr>dr_DeviceFields := AList.update ''connector_id'' m (dr_DeviceFields diff),
              dr_Changes := dr_Changes diff @ [change ''device'' (ds_DeviceID cur) ''connector_id'' (ds_ConnectorID cur) m ''updated'']\<rparr>))"

definition WithLock :: "goerr + bool \<Rightarrow> (unit \<Rightarrow> goerr option \<times> 's) \<Rightarrow> 's \<Rightarrow> goerr option \<times> 's" where
  "WithLock got fn s = (case got of Inl e \<Rightarrow> (Some e, s)
     | Inr ok \<Rightarrow> if \<not> ok then (Some (errx_New KindConflict ''device sync already in progress''), s) else fn ())"

definition HandleResult :: "sync_env \<Rightarrow> SyncResult \<Rightarrow> string \<Rightarrow> sync_db option \<Rightarrow> goerr option \<times> sync_db option \<times> sync_audit list" where
  "HandleResult env res runID dev =
     (let run = \<lparr>run_ID = runID, run_Trigger = orDefault (sres_Trigger res) ''scheduled'', run_StartedAt = sres_CollectedAt res,
            run_Status = ''ok'', run_Error = [], run_Changes = 0\<rparr>;
          failed = (case RecordFailedRun (sv_record env) (run\<lparr>run_Status := ''failed'', run_Error := sres_Error res\<rparr>) dev of (e, dev) \<Rightarrow> (e, dev, []))
      in if sres_Error res \<noteq> [] then failed
         else case sres_Snapshot res of None \<Rightarrow> failed
         | Some snap \<Rightarrow> WithLock (sv_lock env) (\<lambda>_.
             case LoadState (sv_load env) dev of
               Inl e \<Rightarrow> (if KindOf (Some e) = KindNotFound then None else Some e, dev, [])
             | Inr cur \<Rightarrow>
                 let (matched, diff) = rematch (sv_match env) cur snap (Diff (sv_diff env) cur snap (sres_CollectedAt res)) in
                 (case dev of None \<Rightarrow> (None, dev, []) | Some db \<Rightarrow>
                   (case Apply (sv_apply env) diff (ss_Adjacencies snap) run db of
                      (Inl e, db) \<Rightarrow> (Some e, Some db, [])
                    | (Inr n, db) \<Rightarrow> (None, Some db,
                        (if matched \<noteq> [] then [ConnectorMatched (ds_ConnectorID cur) matched (ss_SysObjectID snap)] else []) @
                        (if 0 < n then [SyncCompleted n (run_Trigger run) (dr_Rebooted diff)] else []))))) (dev, []))"

end
