(* ===== verification/Inventory_Reconcile.thy ===== *)
theory Inventory_Reconcile
  imports Inventory_Sync
begin

text \<open>
  What one reconciliation of a device does. Every stored interface that is not removed is dealt with
  exactly once, and every reported one is written exactly once. The transaction never runs into its own
  index when the report has distinct indexes, and afterwards the present rows are the report. A row is
  removed on the third consecutive sync without it and never before. Records that share a MAC address
  can take over the row of an interface that is still there.
\<close>

subsection \<open>Every interface is dealt with once\<close>

definition known :: "IfState list \<Rightarrow> IfState list" where
  "known is = filter (\<lambda>i. if_State i \<noteq> Removed) is"

definition existing :: "IfUpsert list \<Rightarrow> string list" where
  "existing us = filter (\<lambda>i. i \<noteq> []) (map up_ExistingID us)"

lemma existing_simps [simp]: "existing [] = []" "existing (u # us) = (if up_ExistingID u = [] then existing us else up_ExistingID u # existing us)"
  by (simp_all add: existing_def)

definition entries_of :: "(string, IfState) gomap \<Rightarrow> bool" where
  "entries_of un \<longleftrightarrow> gm_ok un \<and> (\<forall>x \<in> set un. fst x = if_ID (snd x))"

text \<open>What the lookup maps point to is a known interface.\<close>

definition maps_ok :: "IfState list \<Rightarrow> ifmaps \<Rightarrow> bool" where
  "maps_ok is m \<longleftrightarrow> entries_of (m_unmatched m) \<and> snd ` set (m_unmatched m) \<subseteq> set (known is) \<and>
     snd ` set (m_byIdxName m) \<subseteq> set (known is) \<and> snd ` set (m_byName m) \<subseteq> set (known is) \<and> snd ` set (m_byPhys m) \<subseteq> set (known is)"

lemma update_new: "k \<notin> fst ` set al \<Longrightarrow> AList.update k v al = al @ [(k, v)]"
  by (induction al) auto

lemma update_vals: "snd ` set (AList.update k v al) \<subseteq> insert v (snd ` set al)"
  by (induction al) auto

lemma index_ifs_snoc: "index_ifs (is @ [i]) = index_if (index_ifs is) i"
  by (simp add: index_ifs_def)

lemma index_unmatched:
  "distinct (map if_ID is) \<Longrightarrow> m_unmatched (index_ifs is) = map (\<lambda>i. (if_ID i, i)) (known is)"
proof (induction "is" rule: rev_induct)
  case (snoc i "is")
  have "if_ID i \<notin> fst ` set (map (\<lambda>i. (if_ID i, i)) (known is))" using snoc.prems by (auto simp: known_def)
  with snoc show ?case by (simp add: index_ifs_snoc index_if_def known_def update_new)
qed (simp add: index_ifs_def known_def)

lemma index_vals:
  "snd ` set (m_byIdxName (index_ifs is)) \<subseteq> set (known is) \<and> snd ` set (m_byName (index_ifs is)) \<subseteq> set (known is) \<and>
   snd ` set (m_byPhys (index_ifs is)) \<subseteq> set (known is)"
proof (induction "is" rule: rev_induct)
  case (snoc i "is")
  have k: "known (is @ [i]) = known is @ (if if_State i = Removed then [] else [i])" by (simp add: known_def)
  have one: "snd ` set (AList.update key i al) \<subseteq> set (known is @ [i])" if "snd ` set al \<subseteq> set (known is)" for key al
    using update_vals [of key i al] that by auto
  show ?case
  proof (cases "if_State i = Removed")
    case True
    with snoc k show ?thesis by (simp add: index_ifs_snoc index_if_def)
  next
    case False
    have old: "snd ` set al \<subseteq> set (known is @ [i])" if "snd ` set al \<subseteq> set (known is)" for al using that by auto
    have k': "known (is @ [i]) = known is @ [i]" using False k by simp
    have maps: "m_byIdxName (index_ifs (is @ [i])) = AList.update (idx_name (if_IfIndex i) (if_Name i)) i (m_byIdxName (index_ifs is))"
      "m_byName (index_ifs (is @ [i])) \<in> {AList.update (if_Name i) i (m_byName (index_ifs is)), m_byName (index_ifs is)}"
      "m_byPhys (index_ifs (is @ [i])) \<in> {AList.update (phys_type (if_PhysAddress i) (if_IfType i)) i (m_byPhys (index_ifs is)), m_byPhys (index_ifs is)}"
      using False by (simp_all add: index_ifs_snoc index_if_def)
    have step: "snd ` set al' \<subseteq> set (known (is @ [i]))" if "al' \<in> {AList.update key i al, al}" "snd ` set al \<subseteq> set (known is)" for al al' key
      using that(1) one [OF that(2), of key] old [OF that(2)] unfolding k' by (elim insertE) simp_all
    show ?thesis
      using step [OF maps(2)] step [OF maps(3)] one [OF conjunct1 [OF snoc]] snoc unfolding k' maps(1) by simp
  qed
qed (simp add: index_ifs_def)

lemma index_maps_ok: "distinct (map if_ID is) \<Longrightarrow> maps_ok is (index_ifs is)"
  using index_vals [of "is"]
  by (auto simp: maps_ok_def index_unmatched entries_of_def known_def comp_def distinct_map_filter)

lemma map_of_vals: "map_of al k = Some v \<Longrightarrow> v \<in> snd ` set al"
  by (metis map_of_SomeD imageI snd_conv)

lemma match_known:
  assumes "maps_ok is m" and "distinct (map if_ID is)" and "match m rec = Some i"
  shows "i \<in> set (known is)" and "map_of (m_unmatched m) (if_ID i) = Some i"
proof -
  have "\<exists>al key. al \<in> {m_byIdxName m, m_byName m, m_byPhys m} \<and> map_of al key = Some i \<and> map_of (m_unmatched m) (if_ID i) \<noteq> None"
    using assms(3) unfolding match_def unmatched_at_def by (auto split: option.splits if_splits)
  then obtain al key where al: "al \<in> {m_byIdxName m, m_byName m, m_byPhys m}" "map_of al key = Some i" "map_of (m_unmatched m) (if_ID i) \<noteq> None"
    by blast
  from map_of_vals [OF al(2)] al(1) assms(1) show kn: "i \<in> set (known is)" by (auto simp: maps_ok_def)
  obtain j where j: "map_of (m_unmatched m) (if_ID i) = Some j" using al(3) by auto
  then have "(if_ID i, j) \<in> set (m_unmatched m)" by (rule map_of_SomeD)
  then have "if_ID j = if_ID i" "j \<in> set (known is)"
    using assms(1) unfolding maps_ok_def entries_of_def by (metis fst_conv snd_conv, metis imageI snd_conv subset_iff)
  with kn assms(2) have "j = i" by (auto simp: known_def distinct_map inj_on_def)
  with j show "map_of (m_unmatched m) (if_ID i) = Some i" by simp
qed

lemma delete_subset: "set (AList.delete k al) \<subseteq> set al"
  by (auto simp: AList.delete_eq)

lemma maps_ok_delete:
  assumes "maps_ok is m" shows "maps_ok is (m\<lparr>m_unmatched := AList.delete k (m_unmatched m)\<rparr>)"
proof -
  note sub = delete_subset [of k "m_unmatched m"]
  have "gm_ok (AList.delete k (m_unmatched m))" using assms by (intro distinct_delete) (simp add: maps_ok_def entries_of_def)
  moreover have "\<forall>x \<in> set (AList.delete k (m_unmatched m)). fst x = if_ID (snd x)"
    using assms sub unfolding maps_ok_def entries_of_def by (meson subset_iff)
  moreover have "snd ` set (AList.delete k (m_unmatched m)) \<subseteq> set (known is)"
    by (rule order_trans [OF image_mono [OF sub]]) (use assms in \<open>simp add: maps_ok_def\<close>)
  ultimately show ?thesis using assms by (cases m) (simp only: maps_ok_def entries_of_def ifmaps.simps ifmaps.select_convs ifmaps.update_convs simp_thms)
qed

lemma delete_mset:
  assumes "gm_ok al" and "map_of al k = Some v"
  shows "mset (map fst al) = add_mset k (mset (map fst (AList.delete k al)))"
proof -
  have "k \<in> set (map fst al)" using assms(2) by (metis map_of_eq_None_iff option.distinct(1) set_map)
  moreover have "distinct (map fst al)" by (rule assms(1))
  ultimately show ?thesis
    unfolding delete_keys by (metis distinct_remove1_removeAll mset_remove1 insert_DiffM set_mset_mset)
qed

lemma diff_recs_recs: "diff_recs recs m = (us, rs, cs, m') \<Longrightarrow> map up_Rec us = recs"
  by (induction recs arbitrary: m us rs cs) (auto split: option.splits prod.splits)

lemma diff_recs_ids:
  assumes "maps_ok is m" and "distinct (map if_ID is)" and "\<forall>i \<in> set is. if_ID i \<noteq> []"
    and "diff_recs recs m = (us, rs, cs, m')"
  shows "maps_ok is m'" and "mset (map fst (m_unmatched m)) = mset (existing us) + mset (map fst (m_unmatched m'))"
proof -
  have "maps_ok is m' \<and> mset (map fst (m_unmatched m)) = mset (existing us) + mset (map fst (m_unmatched m'))"
    using assms
  proof (induction recs arbitrary: m us rs cs)
    case (Cons rec recs)
    show ?case
    proof (cases "match m rec")
      case None
      with Cons.prems(4) obtain us1 cs1 where "diff_recs recs m = (us1, rs, cs1, m')" "us = \<lparr>up_ExistingID = [], up_Rec = rec\<rparr> # us1"
        by (auto split: prod.splits)
      with Cons.IH [OF Cons.prems(1-3)] show ?thesis by simp
    next
      case (Some i)
      let ?m = "m\<lparr>m_unmatched := AList.delete (if_ID i) (m_unmatched m)\<rparr>"
      from Some Cons.prems(4) obtain us1 rs1 cs1 where d: "diff_recs recs ?m = (us1, rs1, cs1, m')"
        and us: "us = \<lparr>up_ExistingID = if_ID i, up_Rec = rec\<rparr> # us1"
        by (auto split: prod.splits)
      note i = match_known [OF Cons.prems(1,2) Some]
      have ne: "if_ID i \<noteq> []" using i(1) Cons.prems(3) by (auto simp: known_def)
      have "gm_ok (m_unmatched m)" using Cons.prems(1) by (simp add: maps_ok_def entries_of_def)
      from delete_mset [OF this i(2)] Cons.IH [OF maps_ok_delete [OF Cons.prems(1)] Cons.prems(2,3) d] us ne show ?thesis by simp
    qed
  qed simp
  then show "maps_ok is m'" and "mset (map fst (m_unmatched m)) = mset (existing us) + mset (map fst (m_unmatched m'))" by auto
qed

lemma diff_absent_ids:
  assumes "diff_absent un is = (mi, st, re, cs)" and "set is \<subseteq> fst ` set un"
  shows "mset is = mset mi + mset st + mset re"
  using assms
proof (induction "is" arbitrary: mi st re cs)
  case (Cons i "is")
  obtain mi1 st1 re1 cs1 where d: "diff_absent un is = (mi1, st1, re1, cs1)" by (metis prod_cases4)
  from Cons.prems(2) obtain v where "map_of un i = Some v" by (metis insert_subset list.simps(15) map_of_eq_None_iff not_None_eq)
  with d Cons.prems(1) have "mset mi + mset st + mset re = add_mset i (mset mi1 + mset st1 + mset re1)" by (auto split: if_splits)
  with Cons.IH [OF d] Cons.prems(2) show ?case by simp
qed simp

text \<open>What the differ says of an interface that was not reported, by its state.\<close>

lemma diff_absent_state:
  assumes "diff_absent un is = (mi, st, re, cs)"
  shows "set mi = {i \<in> set is. \<exists>v. map_of un i = Some v \<and> if_State v = Present}"
    and "set re = {i \<in> set is. \<exists>v. map_of un i = Some v \<and> if_State v \<noteq> Present \<and> RemoveAfterMisses \<le> if_MissStreak v + 1}"
    and "set st = {i \<in> set is. \<exists>v. map_of un i = Some v \<and> if_State v \<noteq> Present \<and> if_MissStreak v + 1 < RemoveAfterMisses}"
  using assms by (induction "is" arbitrary: mi st re cs) (auto split: option.splits if_splits prod.splits)

lemma Diff_parts:
  assumes "diff_recs (ss_Interfaces snap) (index_ifs (ds_Interfaces cur)) = (us, rs, cs, m)"
    and "diff_absent (m_unmatched m) (de_order env (map fst (m_unmatched m))) = (mi, st, re, acs)"
  shows "dr_Upserts (Diff env cur snap at) = us" and "dr_MissingIDs (Diff env cur snap at) = mi"
    and "dr_StreakIDs (Diff env cur snap at) = st" and "dr_RemovedIDs (Diff env cur snap at) = re"
  using assms by (simp_all add: Diff_def split: prod.split)

lemma Diff_split:
  fixes cur snap at
  assumes "distinct (map if_ID (ds_Interfaces cur))" and "\<forall>i \<in> set (ds_Interfaces cur). if_ID i \<noteq> []"
    and "\<forall>xs. mset (de_order env xs) = mset xs"
  defines "r \<equiv> Diff env cur snap at"
  obtains un where "map up_Rec (dr_Upserts r) = ss_Interfaces snap" and "maps_ok (ds_Interfaces cur) un"
    and "mset (map if_ID (known (ds_Interfaces cur))) = mset (existing (dr_Upserts r)) + mset (map fst (m_unmatched un))"
    and "mset (map fst (m_unmatched un)) = mset (dr_MissingIDs r) + mset (dr_StreakIDs r) + mset (dr_RemovedIDs r)"
    and "diff_absent (m_unmatched un) (de_order env (map fst (m_unmatched un))) =
           (dr_MissingIDs r, dr_StreakIDs r, dr_RemovedIDs r, snd (snd (snd (diff_absent (m_unmatched un) (de_order env (map fst (m_unmatched un)))))))"
proof -
  obtain us rs cs m where d: "diff_recs (ss_Interfaces snap) (index_ifs (ds_Interfaces cur)) = (us, rs, cs, m)" by (metis prod_cases4)
  obtain mi st re acs where a: "diff_absent (m_unmatched m) (de_order env (map fst (m_unmatched m))) = (mi, st, re, acs)" by (metis prod_cases4)
  note parts = Diff_parts [OF d a, of at, folded r_def]
  note ids = diff_recs_ids [OF index_maps_ok [OF assms(1)] assms(1,2) d]
  have s: "set (de_order env (map fst (m_unmatched m))) \<subseteq> fst ` set (m_unmatched m)"
    by (metis assms(3) mset_eq_setD set_map order_refl)
  show ?thesis
  proof (rule that [of m])
    show "map up_Rec (dr_Upserts r) = ss_Interfaces snap" using diff_recs_recs [OF d] parts(1) by simp
    show "maps_ok (ds_Interfaces cur) m" by (rule ids(1))
    show "mset (map if_ID (known (ds_Interfaces cur))) = mset (existing (dr_Upserts r)) + mset (map fst (m_unmatched m))"
      using ids(2) parts(1) by (simp add: index_unmatched [OF assms(1)] comp_def)
    show "mset (map fst (m_unmatched m)) = mset (dr_MissingIDs r) + mset (dr_StreakIDs r) + mset (dr_RemovedIDs r)"
      using diff_absent_ids [OF a s] assms(3) parts by metis
    show "diff_absent (m_unmatched m) (de_order env (map fst (m_unmatched m))) =
           (dr_MissingIDs r, dr_StreakIDs r, dr_RemovedIDs r, snd (snd (snd (diff_absent (m_unmatched m) (de_order env (map fst (m_unmatched m)))))))"
      using a parts by simp
  qed
qed

text \<open>
  The differ leaves nothing out and does nothing twice: the upserts are the reported interfaces in
  the order of the report, and every stored interface that is not removed is either the target of exactly
  one upsert or in exactly one of the lists of newly missing, still missing and removed interfaces.
\<close>

theorem Diff_accounts:
  assumes "distinct (map if_ID (ds_Interfaces cur))" and "\<forall>i \<in> set (ds_Interfaces cur). if_ID i \<noteq> []"
    and "\<forall>xs. mset (de_order env xs) = mset xs"
  shows "map up_Rec (dr_Upserts (Diff env cur snap at)) = ss_Interfaces snap \<and>
    mset (existing (dr_Upserts (Diff env cur snap at))) + mset (dr_MissingIDs (Diff env cur snap at)) +
      mset (dr_StreakIDs (Diff env cur snap at)) + mset (dr_RemovedIDs (Diff env cur snap at)) =
    mset (map if_ID (known (ds_Interfaces cur)))"
  by (rule Diff_split [OF assms, of snap at]) simp

subsection \<open>The transaction writes the report\<close>

definition present_rows :: "if_row list \<Rightarrow> if_row list" where
  "present_rows rows = filter (\<lambda>r. if_State r = Present) rows"

text \<open>A row as the device would report it, and a reported interface as the columns hold it.\<close>

definition if_view :: "if_row \<Rightarrow> SyncInterface" where
  "if_view r = \<lparr>si_IfIndex = if_IfIndex r, si_Name = if_Name r, si_Alias = if_Alias r, si_Descr = if_Descr r, si_IfType = if_IfType r,
     si_MTU = if_MTU r, si_SpeedBPS = if_SpeedBPS r, si_PhysAddress = if_PhysAddress r, si_AdminStatus = if_AdminStatus r, si_OperStatus = if_OperStatus r\<rparr>"

definition stored :: "apply_env \<Rightarrow> SyncInterface \<Rightarrow> SyncInterface" where
  "stored env rec = rec\<lparr>si_PhysAddress := phys_of env rec\<rparr>"

lemma view_written [simp]: "if_view (inserted_row env i rec) = stored env rec" "if_view (updated_row env rec r) = stored env rec"
  by (simp_all add: if_view_def stored_def inserted_row_def updated_row_def)

lemma written_present [simp]: "if_State (inserted_row env i rec) = Present" "if_State (updated_row env rec r) = Present"
  "if_ID (inserted_row env i rec) = i" "if_ID (updated_row env rec r) = if_ID r"
  "if_IfIndex (inserted_row env i rec) = si_IfIndex rec" "if_IfIndex (updated_row env rec r) = si_IfIndex rec"
  by (simp_all add: inserted_row_def updated_row_def)

lemma view_index [simp]: "si_IfIndex (if_view r) = if_IfIndex r" "si_IfIndex (stored env rec) = si_IfIndex rec"
  by (simp_all add: if_view_def stored_def)

text \<open>The present rows that wait for no upsert.\<close>

definition settled :: "string set \<Rightarrow> if_row list \<Rightarrow> SyncInterface multiset" where
  "settled waiting rows = mset (map if_view (filter (\<lambda>r. if_State r = Present \<and> if_ID r \<notin> waiting) rows))"

lemma settled_nil [simp]: "settled w [] = {#}"
  by (simp add: settled_def)

lemma settled_append: "settled w (xs @ ys) = settled w xs + settled w ys"
  by (simp add: settled_def)

lemma settled_Cons: "settled w (r # rs) = (if if_State r = Present \<and> if_ID r \<notin> w then {#if_view r#} else {#}) + settled w rs"
  by (simp add: settled_def)

lemma settled_other: "i \<notin> if_ID ` set rows \<Longrightarrow> settled (insert i w) rows = settled w rows"
  by (induction rows) (auto simp: settled_Cons)

definition gone :: "string set \<Rightarrow> if_row list \<Rightarrow> if_row list" where
  "gone waiting rows = filter (\<lambda>r. if_State r \<noteq> Present \<and> if_ID r \<notin> waiting) rows"

lemma gone_simps [simp]: "gone w [] = []" "gone w (r # rs) = (if if_State r \<noteq> Present \<and> if_ID r \<notin> w then r # gone w rs else gone w rs)"
  "gone w (xs @ ys) = gone w xs @ gone w ys"
  by (simp_all add: gone_def)

lemma gone_other: "i \<notin> if_ID ` set rows \<Longrightarrow> gone (insert i w) rows = gone w rows"
  by (induction rows) auto

text \<open>
  The state between two upserts: the rows that wait for theirs hold negative indexes while they are
  present, the other present rows are what has been written, and the others are not touched.
\<close>

definition midway :: "apply_env \<Rightarrow> nat \<Rightarrow> if_row list \<Rightarrow> SyncInterface list \<Rightarrow> IfUpsert list \<Rightarrow> if_row list \<Rightarrow> bool" where
  "midway env n rest written us rows \<longleftrightarrow>
     distinct (map if_ID rows) \<and> [] \<notin> if_ID ` set rows \<and> index_holds rows \<and>
     distinct (existing us) \<and> set (existing us) \<subseteq> if_ID ` set rows \<and>
     (\<forall>k \<ge> n. ae_id env k \<notin> if_ID ` set rows) \<and>
     (\<forall>r \<in> set rows. if_State r = Present \<longrightarrow> if_ID r \<in> set (existing us) \<longrightarrow> if_IfIndex r < 0) \<and>
     settled (set (existing us)) rows = mset (map (stored env) written) \<and> gone (set (existing us)) rows = rest"

lemma midway_free:
  assumes "midway env n rest written us rows" and "0 < si_IfIndex rec" and "si_IfIndex rec \<notin> si_IfIndex ` set written"
  shows "\<forall>r \<in> set rows. if_State r = Present \<longrightarrow> if_IfIndex r \<noteq> si_IfIndex rec"
proof (intro ballI impI)
  fix r assume r: "r \<in> set rows" "if_State r = Present"
  show "if_IfIndex r \<noteq> si_IfIndex rec"
  proof (cases "if_ID r \<in> set (existing us)")
    case True
    with assms(1) r have "if_IfIndex r < 0" by (auto simp: midway_def)
    with assms(2) show ?thesis by simp
  next
    case False
    with r have "if_view r \<in># settled (set (existing us)) rows" by (auto simp: settled_def)
    then have "if_view r \<in># mset (map (stored env) written)" using assms(1) unfolding midway_def by metis
    then obtain w where "w \<in> set written" "if_view r = stored env w" by auto
    with assms(3) show ?thesis by (metis view_index image_eqI)
  qed
qed

lemma midway_insert:
  assumes "midway env n rest written (u # us) rows" and "up_ExistingID u = []" and "inj (ae_id env)" and "\<forall>k. ae_id env k \<noteq> []"
    and "rec_ok env (up_Rec u)" and "0 < si_IfIndex (up_Rec u)" and "si_IfIndex (up_Rec u) \<notin> si_IfIndex ` set written"
  shows "\<exists>rows'. upsert env (ae_id env n) u rows = Some rows' \<and> midway env (n + 1) rest (written @ [up_Rec u]) us rows'"
proof -
  let ?rows = "rows @ [inserted_row env (ae_id env n) (up_Rec u)]"
  note free = midway_free [OF assms(1,6,7)]
  have fresh: "ae_id env n \<notin> if_ID ` set rows" using assms(1) by (simp add: midway_def)
  have "\<not> list_ex (\<lambda>r. if_State r = Present \<and> if_IfIndex r = si_IfIndex (up_Rec u)) rows" "\<not> list_ex (\<lambda>r. if_ID r = ae_id env n) rows"
    using free fresh by (force simp: list_ex_iff)+
  then have "upsert env (ae_id env n) u rows = Some ?rows"
    using assms(2,5) by (simp add: upsert_def Let_def)
  moreover have "midway env (n + 1) rest (written @ [up_Rec u]) us ?rows"
  proof -
    have "\<forall>k \<ge> n + 1. ae_id env k \<notin> if_ID ` set ?rows"
    proof (intro allI impI)
      fix k assume "n + 1 \<le> k"
      with injD [OF assms(3), of k n] have "ae_id env k \<noteq> ae_id env n" by auto
      moreover have "ae_id env k \<notin> if_ID ` set rows" using assms(1) \<open>n + 1 \<le> k\<close> by (simp add: midway_def)
      ultimately show "ae_id env k \<notin> if_ID ` set ?rows" by simp
    qed
    moreover have "index_holds ?rows" using assms(1) free by (auto simp: midway_def index_holds_def)
    moreover have "settled (set (existing us)) ?rows = mset (map (stored env) (written @ [up_Rec u]))"
      using assms(1,2) fresh by (auto simp: midway_def settled_append settled_Cons)
    moreover have "[] \<noteq> ae_id env n" using assms(4) by metis
    ultimately show ?thesis using assms(1,2) fresh unfolding midway_def by auto
  qed
  ultimately show ?thesis by blast
qed

lemma upd_id:
  assumes "distinct (map if_ID rows)" and "r \<in> set rows"
  obtains as bs where "rows = as @ r # bs" and "upd (\<lambda>x. if_ID x = if_ID r) f rows = as @ f r # bs"
    and "if_ID r \<notin> if_ID ` set as" and "if_ID r \<notin> if_ID ` set bs"
proof -
  obtain as bs where rows: "rows = as @ r # bs" using assms(2) by (auto simp: in_set_conv_decomp)
  with assms(1) have n: "if_ID r \<notin> if_ID ` set as" "if_ID r \<notin> if_ID ` set bs" by auto
  have same: "map (\<lambda>x. if if_ID x = if_ID r then f x else x) xs = xs" if "if_ID r \<notin> if_ID ` set xs" for xs
    using that by (induction xs) auto
  have "upd (\<lambda>x. if_ID x = if_ID r) f rows = as @ f r # bs" using same [OF n(1)] same [OF n(2)] by (simp add: upd_def rows)
  with rows n show ?thesis by (intro that)
qed

lemma midway_update:
  assumes "midway env n rest written (u # us) rows" and "up_ExistingID u \<noteq> []"
    and "rec_ok env (up_Rec u)" and "0 < si_IfIndex (up_Rec u)" and "si_IfIndex (up_Rec u) \<notin> si_IfIndex ` set written"
  shows "\<exists>rows'. upsert env (ae_id env n) u rows = Some rows' \<and> midway env (n + 1) rest (written @ [up_Rec u]) us rows'"
proof -
  note free = midway_free [OF assms(1,4,5)]
  have m: "distinct (map if_ID rows)" "index_holds rows" "up_ExistingID u \<notin> set (existing us)" "up_ExistingID u \<in> if_ID ` set rows"
    using assms(1,2) by (auto simp: midway_def)
  obtain r where r: "r \<in> set rows" "if_ID r = up_ExistingID u" using m(4) by auto
  let ?f = "updated_row env (up_Rec u)"
  obtain as bs where rows: "rows = as @ r # bs" and upd: "upd (\<lambda>x. if_ID x = if_ID r) ?f rows = as @ ?f r # bs"
    and n: "if_ID r \<notin> if_ID ` set as" "if_ID r \<notin> if_ID ` set bs"
    by (rule upd_id [OF m(1) r(1), of ?f])
  have ix: "index_holds (as @ ?f r # bs)"
    using m(2) free unfolding rows index_holds_def by (auto split: if_splits simp: image_iff)
  have "upsert env (ae_id env n) u rows = Some (as @ ?f r # bs)"
    using assms(2,3) upd ix by (simp add: upsert_def r(2))
  moreover have "midway env (n + 1) rest (written @ [up_Rec u]) us (as @ ?f r # bs)"
  proof -
    note other = settled_other [of _ _ "set (existing us)"]
    have "settled (set (existing us)) (as @ ?f r # bs) = mset (map (stored env) (written @ [up_Rec u]))"
      using assms(1,2) m(3) r(2) other [OF n(1)] other [OF n(2)] unfolding midway_def rows by (simp add: settled_append settled_Cons)
    moreover have "\<forall>x \<in> set (as @ ?f r # bs). if_State x = Present \<longrightarrow> if_ID x \<in> set (existing us) \<longrightarrow> if_IfIndex x < 0"
      using assms(1,2) m(3) r(2) unfolding midway_def rows by auto
    moreover have "gone (set (existing us)) (as @ ?f r # bs) = rest"
      using assms(1,2) r(2) gone_other [OF n(1)] gone_other [OF n(2)] unfolding midway_def rows by simp
    ultimately show ?thesis using assms(1,2) ix m(1) r(2) unfolding midway_def rows by auto
  qed
  ultimately show ?thesis by blast
qed

lemma upserts_write:
  assumes "midway env n rest written us rows" and "inj (ae_id env)" and "\<forall>k. ae_id env k \<noteq> []"
    and "\<forall>u \<in> set us. rec_ok env (up_Rec u) \<and> 0 < si_IfIndex (up_Rec u)"
    and "distinct (map si_IfIndex (written @ map up_Rec us))"
  shows "\<exists>rows'. upserts env n us rows = Some rows' \<and> midway env (n + length us) rest (written @ map up_Rec us) [] rows'"
  using assms
proof (induction us arbitrary: n written rows)
  case (Cons u us)
  have new: "rec_ok env (up_Rec u)" "0 < si_IfIndex (up_Rec u)" "si_IfIndex (up_Rec u) \<notin> si_IfIndex ` set written" using Cons.prems(4,5) by auto
  then obtain rows' where one: "upsert env (ae_id env n) u rows = Some rows'" and mid: "midway env (n + 1) rest (written @ [up_Rec u]) us rows'"
    using midway_insert [OF Cons.prems(1) _ Cons.prems(2,3)] midway_update [OF Cons.prems(1)] by (cases "up_ExistingID u = []") blast+
  from Cons.IH [OF mid Cons.prems(2,3)] Cons.prems(4,5) show ?case by (simp add: one)
qed simp

text \<open>What happens to a stored interface depends on its state and on whether it was matched.\<close>

lemma Diff_classes:
  fixes cur snap at
  assumes "distinct (map if_ID (ds_Interfaces cur))" and "\<forall>i \<in> set (ds_Interfaces cur). if_ID i \<noteq> []"
    and "\<forall>xs. mset (de_order env xs) = mset xs" and i: "i \<in> set (ds_Interfaces cur)"
  defines "r \<equiv> Diff env cur snap at"
  shows "if_ID i \<in> set (dr_MissingIDs r) \<longleftrightarrow> if_State i = Present \<and> if_ID i \<notin> set (existing (dr_Upserts r))"
    and "if_ID i \<in> set (dr_StreakIDs r) \<longleftrightarrow> if_State i = Missing \<and> if_ID i \<notin> set (existing (dr_Upserts r)) \<and> if_MissStreak i + 1 < RemoveAfterMisses"
    and "if_ID i \<in> set (dr_RemovedIDs r) \<longleftrightarrow> if_State i = Missing \<and> if_ID i \<notin> set (existing (dr_Upserts r)) \<and> RemoveAfterMisses \<le> if_MissStreak i + 1"
    and "if_ID i \<in> set (existing (dr_Upserts r)) \<Longrightarrow> if_State i \<noteq> Removed"
proof -
  obtain un where un: "maps_ok (ds_Interfaces cur) un"
    and ids: "mset (map if_ID (known (ds_Interfaces cur))) = mset (existing (dr_Upserts r)) + mset (map fst (m_unmatched un))"
    and ab: "diff_absent (m_unmatched un) (de_order env (map fst (m_unmatched un))) =
           (dr_MissingIDs r, dr_StreakIDs r, dr_RemovedIDs r, snd (snd (snd (diff_absent (m_unmatched un) (de_order env (map fst (m_unmatched un)))))))"
    unfolding r_def by (rule Diff_split [OF assms(1-3), of snap at])
  have ord: "set (de_order env (map fst (m_unmatched un))) = fst ` set (m_unmatched un)" by (metis assms(3) mset_eq_setD set_map)
  have dk: "distinct (map if_ID (known (ds_Interfaces cur)))" using assms(1) by (simp add: known_def distinct_map_filter)
  then have split: "distinct (existing (dr_Upserts r))" "set (existing (dr_Upserts r)) \<inter> fst ` set (m_unmatched un) = {}"
    and all: "if_ID ` set (known (ds_Interfaces cur)) = set (existing (dr_Upserts r)) \<union> fst ` set (m_unmatched un)"
    using ids mset_eq_imp_distinct_iff [of "map if_ID (known (ds_Interfaces cur))" "existing (dr_Upserts r) @ map fst (m_unmatched un)"]
      mset_eq_setD [of "map if_ID (known (ds_Interfaces cur))" "existing (dr_Upserts r) @ map fst (m_unmatched un)"] by auto
  have known: "if_ID i \<in> if_ID ` set (known (ds_Interfaces cur)) \<longleftrightarrow> if_State i \<noteq> Removed"
    using i assms(1) by (auto simp: known_def distinct_map inj_on_def)
  have here: "map_of (m_unmatched un) (if_ID i) = (if if_State i \<noteq> Removed \<and> if_ID i \<notin> set (existing (dr_Upserts r)) then Some i else None)"
  proof (cases "map_of (m_unmatched un) (if_ID i)")
    case None
    then show ?thesis using all known by (auto simp: map_of_eq_None_iff)
  next
    case (Some v)
    then have v: "(if_ID i, v) \<in> set (m_unmatched un)" by (rule map_of_SomeD)
    then have "if_ID v = if_ID i" "v \<in> set (known (ds_Interfaces cur))"
      using un unfolding maps_ok_def entries_of_def by (metis fst_conv snd_conv, metis imageI snd_conv subset_iff)
    then have "v = i" using i assms(1) by (auto simp: known_def distinct_map inj_on_def)
    moreover have "if_ID i \<in> fst ` set (m_unmatched un)" using v by force
    ultimately show ?thesis using Some split(2) all known by auto
  qed
  have key: "if_ID i \<in> fst ` set (m_unmatched un) \<longleftrightarrow> if_State i \<noteq> Removed \<and> if_ID i \<notin> set (existing (dr_Upserts r))"
    using here by (metis map_of_eq_None_iff option.distinct(1))
  note st = diff_absent_state [OF ab, unfolded ord]
  have missing: "if_State i \<noteq> Present \<and> if_State i \<noteq> Removed \<longleftrightarrow> if_State i = Missing" by (cases "if_State i") auto
  show "if_ID i \<in> set (dr_MissingIDs r) \<longleftrightarrow> if_State i = Present \<and> if_ID i \<notin> set (existing (dr_Upserts r))"
    unfolding st(1) using key here by auto
  show "if_ID i \<in> set (dr_StreakIDs r) \<longleftrightarrow> if_State i = Missing \<and> if_ID i \<notin> set (existing (dr_Upserts r)) \<and> if_MissStreak i + 1 < RemoveAfterMisses"
    unfolding st(3) using key here missing by auto
  show "if_ID i \<in> set (dr_RemovedIDs r) \<longleftrightarrow> if_State i = Missing \<and> if_ID i \<notin> set (existing (dr_Upserts r)) \<and> RemoveAfterMisses \<le> if_MissStreak i + 1"
    unfolding st(2) using key here missing by auto
  show "if_ID i \<in> set (existing (dr_Upserts r)) \<Longrightarrow> if_State i \<noteq> Removed" using all known by auto
qed

text \<open>Lifecycle and parking, row by row.\<close>

definition touch :: "(if_row \<Rightarrow> bool) \<Rightarrow> (if_row \<Rightarrow> if_row) \<Rightarrow> if_row \<Rightarrow> if_row" where
  "touch P f r = (if P r then f r else r)"

definition parked :: "DiffResult \<Rightarrow> if_row \<Rightarrow> if_row" where
  "parked res r =
     touch (\<lambda>r. if_ID r \<in> set (existing (dr_Upserts res)) \<and> 0 < if_IfIndex r) (\<lambda>r. r\<lparr>if_IfIndex := - if_IfIndex r\<rparr>)
       (touch (\<lambda>r. if_ID r \<in> set (dr_RemovedIDs res)) (\<lambda>r. r\<lparr>if_State := Removed\<rparr>)
         (touch (\<lambda>r. if_ID r \<in> set (dr_StreakIDs res)) (\<lambda>r. r\<lparr>if_MissStreak := if_MissStreak r + 1\<rparr>)
           (touch (\<lambda>r. if_ID r \<in> set (dr_MissingIDs res)) (\<lambda>r. r\<lparr>if_State := Missing, if_MissStreak := 1\<rparr>) r)))"

lemma upd_touch: "upd P f rows = map (touch P f) rows"
  by (simp add: upd_def touch_def)

lemma park_lifecycle: "park res (lifecycle res rows) = map (parked res) rows"
  by (simp add: park_def lifecycle_def upd_touch parked_def existing_def Let_def comp_def)

lemma parked_simps [simp]:
  "if_ID (parked res r) = if_ID r"
  "if_IfIndex (parked res r) = (if if_ID r \<in> set (existing (dr_Upserts res)) \<and> 0 < if_IfIndex r then - if_IfIndex r else if_IfIndex r)"
  "if_State (parked res r) = (if if_ID r \<in> set (dr_RemovedIDs res) then Removed else if if_ID r \<in> set (dr_MissingIDs res) then Missing else if_State r)"
  "if_MissStreak (parked res r) = (if if_ID r \<in> set (dr_MissingIDs res) then 1 else if_MissStreak r) + (if if_ID r \<in> set (dr_StreakIDs res) then 1 else 0)"
  by (simp_all add: parked_def touch_def)

subsection \<open>One reconciliation\<close>

text \<open>The interface rows after a device was loaded, compared with a report and written back.\<close>

definition sync_rows :: "diff_env \<Rightarrow> apply_env \<Rightarrow> DeviceState \<Rightarrow> SyncSnapshot \<Rightarrow> gotime \<Rightarrow> if_row list \<Rightarrow> if_row list option" where
  "sync_rows denv aenv dev snap at rows = apply_rows aenv (Diff denv (dev\<lparr>ds_Interfaces := map if_state rows\<rparr>) snap at) rows"

definition rows_ok :: "if_row list \<Rightarrow> bool" where
  "rows_ok rows \<longleftrightarrow> distinct (map if_ID rows) \<and> [] \<notin> if_ID ` set rows \<and> index_holds rows \<and> (\<forall>r \<in> set (present_rows rows). 0 < if_IfIndex r)"

definition walks :: "diff_env \<Rightarrow> bool" where
  "walks denv \<longleftrightarrow> (\<forall>xs. mset (de_order denv xs) = mset xs)"

definition fresh_ids :: "apply_env \<Rightarrow> if_row list \<Rightarrow> bool" where
  "fresh_ids aenv rows \<longleftrightarrow> inj (ae_id aenv) \<and> (\<forall>k. ae_id aenv k \<noteq> [] \<and> ae_id aenv k \<notin> if_ID ` set rows)"

definition report_ok :: "apply_env \<Rightarrow> SyncSnapshot \<Rightarrow> bool" where
  "report_ok aenv snap \<longleftrightarrow> distinct (map si_IfIndex (ss_Interfaces snap)) \<and> (\<forall>rec \<in> set (ss_Interfaces snap). rec_ok aenv rec \<and> 0 < si_IfIndex rec)"

lemma if_state_simps [simp]:
  "if_ID (if_state r) = if_ID r" "if_IfIndex (if_state r) = if_IfIndex r" "if_Name (if_state r) = if_Name r" "if_State (if_state r) = if_State r"
  "if_MissStreak (if_state r) = if_MissStreak r" "if_PhysAddress (if_state r) = if_PhysAddress r" "if_IfType (if_state r) = if_IfType r"
  "if_Alias (if_state r) = if_Alias r" "if_SpeedBPS (if_state r) = if_SpeedBPS r" "if_MTU (if_state r) = if_MTU r"
  by (simp_all add: if_state_def IfState.truncate_def)

lemma row_classes:
  fixes dev snap at
  assumes "distinct (map if_ID rows)" and "[] \<notin> if_ID ` set rows" and "walks denv" and r: "r \<in> set rows"
  defines "d \<equiv> Diff denv (dev\<lparr>ds_Interfaces := map if_state rows\<rparr>) snap at"
  shows "if_ID r \<in> set (dr_MissingIDs d) \<longleftrightarrow> if_State r = Present \<and> if_ID r \<notin> set (existing (dr_Upserts d))"
    and "if_ID r \<in> set (dr_StreakIDs d) \<longleftrightarrow> if_State r = Missing \<and> if_ID r \<notin> set (existing (dr_Upserts d)) \<and> if_MissStreak r + 1 < RemoveAfterMisses"
    and "if_ID r \<in> set (dr_RemovedIDs d) \<longleftrightarrow> if_State r = Missing \<and> if_ID r \<notin> set (existing (dr_Upserts d)) \<and> RemoveAfterMisses \<le> if_MissStreak r + 1"
    and "if_ID r \<in> set (existing (dr_Upserts d)) \<Longrightarrow> if_State r \<noteq> Removed"
proof -
  let ?cur = "dev\<lparr>ds_Interfaces := map if_state rows\<rparr>"
  have "distinct (map if_ID (ds_Interfaces ?cur))" "\<forall>i \<in> set (ds_Interfaces ?cur). if_ID i \<noteq> []" "if_state r \<in> set (ds_Interfaces ?cur)"
    using assms(1,2) r by (auto simp: comp_def image_iff)
  note c = Diff_classes [OF this(1,2) assms(3) [unfolded walks_def] this(3), of snap at, folded d_def, simplified]
  show "if_ID r \<in> set (dr_MissingIDs d) \<longleftrightarrow> if_State r = Present \<and> if_ID r \<notin> set (existing (dr_Upserts d))" by (rule c(1))
  show "if_ID r \<in> set (dr_StreakIDs d) \<longleftrightarrow> if_State r = Missing \<and> if_ID r \<notin> set (existing (dr_Upserts d)) \<and> if_MissStreak r + 1 < RemoveAfterMisses" by (rule c(2))
  show "if_ID r \<in> set (dr_RemovedIDs d) \<longleftrightarrow> if_State r = Missing \<and> if_ID r \<notin> set (existing (dr_Upserts d)) \<and> RemoveAfterMisses \<le> if_MissStreak r + 1" by (rule c(3))
  show "if_ID r \<in> set (existing (dr_Upserts d)) \<Longrightarrow> if_State r \<noteq> Removed" by (rule c(4))
qed

lemma row_upserts:
  fixes dev snap at
  assumes "distinct (map if_ID rows)" and "[] \<notin> if_ID ` set rows" and "walks denv"
  defines "d \<equiv> Diff denv (dev\<lparr>ds_Interfaces := map if_state rows\<rparr>) snap at"
  shows "map up_Rec (dr_Upserts d) = ss_Interfaces snap" and "distinct (existing (dr_Upserts d))" and "set (existing (dr_Upserts d)) \<subseteq> if_ID ` set rows"
proof -
  let ?cur = "dev\<lparr>ds_Interfaces := map if_state rows\<rparr>"
  have cur: "distinct (map if_ID (ds_Interfaces ?cur))" "\<forall>i \<in> set (ds_Interfaces ?cur). if_ID i \<noteq> []"
    using assms(1,2) by (auto simp: comp_def image_iff)
  obtain un where u: "map up_Rec (dr_Upserts d) = ss_Interfaces snap" and "maps_ok (ds_Interfaces ?cur) un" and
    u2: "mset (map if_ID (known (ds_Interfaces ?cur))) = mset (existing (dr_Upserts d)) + mset (map fst (m_unmatched un))"
    unfolding d_def by (rule Diff_split [OF cur assms(3) [unfolded walks_def], of snap at]) blast
  have dk: "distinct (map if_ID (known (ds_Interfaces ?cur)))" using cur(1) by (simp add: known_def distinct_map_filter)
  have m: "mset (map if_ID (known (ds_Interfaces ?cur))) = mset (existing (dr_Upserts d) @ map fst (m_unmatched un))" using u2 by simp
  show "map up_Rec (dr_Upserts d) = ss_Interfaces snap" by (rule u)
  show "distinct (existing (dr_Upserts d))" using dk mset_eq_imp_distinct_iff [OF m] by simp
  show "set (existing (dr_Upserts d)) \<subseteq> if_ID ` set rows" using mset_eq_setD [OF m] by (force simp: known_def)
qed

lemma parked_midway:
  fixes dev snap at
  assumes "rows_ok rows" and "walks denv" and "fresh_ids aenv rows"
  defines "d \<equiv> Diff denv (dev\<lparr>ds_Interfaces := map if_state rows\<rparr>) snap at"
  shows "midway aenv 0 (gone (set (existing (dr_Upserts d))) (map (parked d) rows)) [] (dr_Upserts d) (map (parked d) rows)"
proof -
  have rows: "distinct (map if_ID rows)" "[] \<notin> if_ID ` set rows" and ix: "index_holds rows" and pos: "\<forall>r \<in> set rows. if_State r = Present \<longrightarrow> 0 < if_IfIndex r"
    using assms(1) by (auto simp: rows_ok_def present_rows_def)
  note c = row_classes [OF rows assms(2), of _ dev snap at, folded d_def]
  have still: "if_State (parked d r) = Present \<longleftrightarrow> if_State r = Present \<and> if_ID r \<in> set (existing (dr_Upserts d))" if "r \<in> set rows" for r
    using c [OF that] by auto
  let ?still = "filter (\<lambda>r. if_State r = Present \<and> if_ID r \<in> set (existing (dr_Upserts d))) rows"
  have kept: "filter (\<lambda>r. if_State r = Present) (map (parked d) rows) = map (parked d) ?still"
    using still by (simp add: filter_map comp_def cong: filter_cong)
  have "map if_IfIndex (map (parked d) ?still) = map uminus (map if_IfIndex ?still)" using pos by auto
  moreover have "distinct (map if_IfIndex ?still)"
    using ix rows(1) unfolding index_holds_def by (simp add: distinct_map inj_on_def)
  ultimately have "index_holds (map (parked d) rows)" unfolding index_holds_def kept by (simp add: distinct_map inj_on_def)
  moreover have "settled (set (existing (dr_Upserts d))) (map (parked d) rows) = {#}"
    using still by (auto simp: settled_def filter_mset_eq_conv filter_empty_conv)
  moreover have "\<forall>r \<in> set (map (parked d) rows). if_State r = Present \<longrightarrow> if_ID r \<in> set (existing (dr_Upserts d)) \<longrightarrow> if_IfIndex r < 0"
    using still pos by auto
  moreover have "distinct (map if_ID (map (parked d) rows))" "if_ID ` set (map (parked d) rows) = if_ID ` set rows"
    using rows(1) by (simp_all add: comp_def image_image)
  ultimately show ?thesis
    using row_upserts(2,3) [OF rows assms(2), of dev snap at, folded d_def] assms(3) rows(2) unfolding midway_def fresh_ids_def by simp
qed

lemma sync_rows_midway:
  fixes dev snap at
  assumes "rows_ok rows" and "walks denv" and "fresh_ids aenv rows" and "report_ok aenv snap"
  defines "d \<equiv> Diff denv (dev\<lparr>ds_Interfaces := map if_state rows\<rparr>) snap at"
  obtains rows' where "sync_rows denv aenv dev snap at rows = Some rows'"
    and "midway aenv (length (ss_Interfaces snap)) (gone (set (existing (dr_Upserts d))) (map (parked d) rows)) (ss_Interfaces snap) [] rows'"
proof -
  note mid = parked_midway [OF assms(1-3), of dev snap at, folded d_def]
  have rows: "distinct (map if_ID rows)" "[] \<notin> if_ID ` set rows" using assms(1) by (simp_all add: rows_ok_def)
  have recs: "map up_Rec (dr_Upserts d) = ss_Interfaces snap" unfolding d_def by (rule row_upserts [OF rows assms(2)])
  then have len: "length (dr_Upserts d) = length (ss_Interfaces snap)" by (metis length_map)
  have ok: "\<forall>u \<in> set (dr_Upserts d). rec_ok aenv (up_Rec u) \<and> 0 < si_IfIndex (up_Rec u)"
    using assms(4) recs unfolding report_ok_def by (metis image_eqI set_map)
  have "distinct (map si_IfIndex ([] @ map up_Rec (dr_Upserts d)))" using assms(4) recs by (simp add: report_ok_def)
  from upserts_write [OF mid _ _ ok this] obtain rows' where
    up: "upserts aenv 0 (dr_Upserts d) (map (parked d) rows) = Some rows'"
    and m: "midway aenv (length (ss_Interfaces snap)) (gone (set (existing (dr_Upserts d))) (map (parked d) rows)) (ss_Interfaces snap) [] rows'"
    using assms(3) recs len by (auto simp: fresh_ids_def)
  have "sync_rows denv aenv dev snap at rows = Some rows'"
    using mid up by (simp add: sync_rows_def apply_rows_def park_lifecycle midway_def Let_def d_def)
  from that [OF this m] show ?thesis .
qed

lemma midway_end:
  assumes "midway aenv n rest (ss_Interfaces snap) [] rows'" and "report_ok aenv snap"
  shows "rows_ok rows'" and "mset (map if_view (present_rows rows')) = mset (map (stored aenv) (ss_Interfaces snap))"
proof -
  show seen: "mset (map if_view (present_rows rows')) = mset (map (stored aenv) (ss_Interfaces snap))"
    using assms(1) by (simp add: midway_def settled_def present_rows_def)
  have "0 < if_IfIndex r" if "r \<in> set (present_rows rows')" for r
  proof -
    have "if_view r \<in> set (map (stored aenv) (ss_Interfaces snap))" using mset_eq_setD [OF seen] that by auto
    then obtain rec where "rec \<in> set (ss_Interfaces snap)" "if_view r = stored aenv rec" by auto
    then show ?thesis using assms(2) view_index unfolding report_ok_def by metis
  qed
  then show "rows_ok rows'" using assms(1) by (simp add: midway_def rows_ok_def)
qed

lemma sync_rows_report:
  assumes "rows_ok rows" and "walks denv" and "fresh_ids aenv rows" and "report_ok aenv snap"
  shows "\<exists>rows'. sync_rows denv aenv dev snap at rows = Some rows' \<and> rows_ok rows' \<and>
    mset (map if_view (present_rows rows')) = mset (map (stored aenv) (ss_Interfaces snap))"
  by (rule sync_rows_midway [OF assms, of dev at]) (use midway_end assms(4) in blast)

text \<open>
  After a sync the table shows the device: for a report with distinct positive indexes and values the
  columns accept, the transaction is never refused, even when interfaces swapped or shifted their indexes,
  and the present rows are exactly the reported interfaces. The table's invariant holds again.
\<close>

theorem sync_writes_report:
  assumes "rows_ok rows" and "walks denv" and "fresh_ids aenv rows" and "report_ok aenv snap"
  shows "\<exists>rows'. sync_rows denv aenv dev snap at rows = Some rows' \<and> rows_ok rows' \<and>
    mset (map if_view (present_rows rows')) = mset (map (stored aenv) (ss_Interfaces snap))"
  by (rule sync_rows_report [OF assms])

text \<open>A device with two interfaces that swap their indexes.\<close>

definition demo_diff :: diff_env where
  "demo_diff = \<lparr>de_local = (\<lambda>_. []), de_utc = (\<lambda>_. []), de_order = (\<lambda>xs. xs)\<rparr>"

definition demo_apply :: apply_env where
  "demo_apply = \<lparr>ae_id = (\<lambda>n. CHR ''n'' # replicate n CHR ''n''), ae_mac = (\<lambda>p. Some p), ae_now = 0, ae_fault = None\<rparr>"

definition demo_dev :: DeviceState where
  "demo_dev = \<lparr>ds_DeviceID = ''d'', ds_ConnectorID = [], ds_SysName = [], ds_SysDescr = [], ds_SysObjectID = [], ds_SysLocation = [], ds_SysContact = [],
     ds_Vendor = [], ds_Model = [], ds_Serial = [], ds_OSVersion = [], ds_UptimeBasis = None, ds_Interfaces = []\<rparr>"

definition demo_row :: "string \<Rightarrow> int \<Rightarrow> string \<Rightarrow> if_row" where
  "demo_row i n name = \<lparr>if_ID = i, if_IfIndex = n, if_Name = name, if_Alias = [], if_Descr = [], if_IfType = 6, if_MTU = 1500, if_SpeedBPS = 0,
     if_PhysAddress = [], if_AdminStatus = 1, if_OperStatus = 1, if_State = Present, if_MissStreak = 0, if_EverUp = True\<rparr>"

definition demo_rec :: "int \<Rightarrow> string \<Rightarrow> SyncInterface" where
  "demo_rec n name = \<lparr>si_IfIndex = n, si_Name = name, si_Alias = [], si_Descr = [], si_IfType = 6, si_MTU = 1500, si_SpeedBPS = 0,
     si_PhysAddress = [], si_AdminStatus = 1, si_OperStatus = 1\<rparr>"

definition demo_snap :: "SyncInterface list \<Rightarrow> SyncSnapshot" where
  "demo_snap recs = \<lparr>ss_SysName = [], ss_SysDescr = [], ss_SysObjectID = [], ss_SysLocation = [], ss_SysContact = [], ss_UptimeS = 0, ss_Vendor = [],
     ss_Model = [], ss_Serial = [], ss_OSVersion = [], ss_Interfaces = recs, ss_Adjacencies = []\<rparr>"

lemma demo_ok:
  "rows_ok [demo_row ''x'' 1 ''a'', demo_row ''y'' 2 ''b'']" "walks demo_diff"
  "fresh_ids demo_apply [demo_row ''x'' 1 ''a'', demo_row ''y'' 2 ''b'']" "report_ok demo_apply (demo_snap [demo_rec 2 ''a'', demo_rec 1 ''b''])"
  by (simp_all add: rows_ok_def demo_row_def present_rows_def index_holds_def walks_def demo_diff_def fresh_ids_def demo_apply_def inj_def report_ok_def
      demo_snap_def demo_rec_def rec_ok_def int4_def mac_text_def)

theorem sync_writes_report_witness:
  "\<exists>rows'. sync_rows demo_diff demo_apply demo_dev (demo_snap [demo_rec 2 ''a'', demo_rec 1 ''b'']) 0 [demo_row ''x'' 1 ''a'', demo_row ''y'' 2 ''b''] = Some rows' \<and>
    rows_ok rows' \<and> mset (map if_view (present_rows rows')) = mset (map (stored demo_apply) (ss_Interfaces (demo_snap [demo_rec 2 ''a'', demo_rec 1 ''b''])))"
  by (rule sync_writes_report [OF demo_ok])

theorem Diff_accounts_witness:
  "map up_Rec (dr_Upserts (Diff demo_diff demo_dev (demo_snap [demo_rec 2 ''a'']) 0)) = ss_Interfaces (demo_snap [demo_rec 2 ''a'']) \<and>
    mset (existing (dr_Upserts (Diff demo_diff demo_dev (demo_snap [demo_rec 2 ''a'']) 0))) + mset (dr_MissingIDs (Diff demo_diff demo_dev (demo_snap [demo_rec 2 ''a'']) 0)) +
      mset (dr_StreakIDs (Diff demo_diff demo_dev (demo_snap [demo_rec 2 ''a'']) 0)) + mset (dr_RemovedIDs (Diff demo_diff demo_dev (demo_snap [demo_rec 2 ''a'']) 0)) =
    mset (map if_ID (known (ds_Interfaces demo_dev)))"
  by (rule Diff_accounts) (simp_all add: demo_dev_def demo_diff_def)

subsection \<open>The life of an interface that is no longer reported\<close>

definition ids_ok :: "if_row list \<Rightarrow> bool" where
  "ids_ok rows \<longleftrightarrow> distinct (map if_ID rows) \<and> [] \<notin> set (map if_ID rows)"

lemma upd_ids: "(\<And>r. if_ID (f r) = if_ID r) \<Longrightarrow> map if_ID (upd P f rows) = map if_ID rows"
  by (simp add: upd_def)

lemma upsert_ids:
  assumes "upsert env newid u rows = Some rows'" and "ids_ok rows" and "newid \<noteq> []"
  shows "ids_ok rows'"
proof -
  from assms(1) have "map if_ID rows' = map if_ID rows \<or> (map if_ID rows' = map if_ID rows @ [newid] \<and> newid \<notin> set (map if_ID rows))"
    by (auto simp: upsert_def Let_def upd_ids list_ex_iff split: if_splits)
  then show ?thesis using assms(2,3) unfolding ids_ok_def by (elim disjE) auto
qed

lemma upserts_ids: "upserts env n us rows = Some rows' \<Longrightarrow> ids_ok rows \<Longrightarrow> \<forall>k. ae_id env k \<noteq> [] \<Longrightarrow> ids_ok rows'"
  by (induction us arbitrary: n rows) (auto split: option.splits dest: upsert_ids)

lemma upsert_keeps:
  assumes "upsert env newid u rows = Some rows'" and "r \<in> set rows" and "if_State r \<noteq> Present" and "if_ID r \<noteq> up_ExistingID u"
  shows "r \<in> set rows'"
proof -
  have kept: "r \<in> set (upd P f rows)" if "\<not> P r" for P f using assms(2) that by (force simp: upd_def)
  show ?thesis using assms by (auto simp: upsert_def Let_def split: if_splits intro!: kept)
qed

lemma upserts_keep:
  "upserts env n us rows = Some rows' \<Longrightarrow> r \<in> set rows \<Longrightarrow> if_State r \<noteq> Present \<Longrightarrow> if_ID r \<noteq> [] \<Longrightarrow> if_ID r \<notin> set (existing us) \<Longrightarrow> r \<in> set rows'"
proof (induction us arbitrary: n rows)
  case (Cons u us)
  then obtain rows1 where one: "upsert env (ae_id env n) u rows = Some rows1" and rest: "upserts env (n + 1) us rows1 = Some rows'"
    by (auto split: option.splits)
  have "if_ID r \<noteq> up_ExistingID u" "if_ID r \<notin> set (existing us)" using Cons.prems(4,5) by (auto split: if_splits)
  with Cons.IH [OF rest upsert_keeps [OF one]] Cons.prems show ?case by blast
qed simp

text \<open>Where an interface stands after a number of syncs that did not see it.\<close>

definition life :: "nat \<Rightarrow> if_row \<Rightarrow> bool" where
  "life k r \<longleftrightarrow> (if k = 0 then if_State r = Present
     else if k < nat RemoveAfterMisses then if_State r = Missing \<and> if_MissStreak r = int k else if_State r = Removed)"

lemma sync_unseen:
  fixes dev snap at
  assumes "ids_ok rows" and "walks denv" and "r \<in> set rows" and "life k r"
    and "sync_rows denv aenv dev snap at rows = Some rows'" and "\<forall>k. ae_id aenv k \<noteq> []"
  defines "d \<equiv> Diff denv (dev\<lparr>ds_Interfaces := map if_state rows\<rparr>) snap at"
  assumes "if_ID r \<notin> set (existing (dr_Upserts d))"
  shows "ids_ok rows'" and "\<exists>r' \<in> set rows'. if_ID r' = if_ID r \<and> life (k + 1) r'"
proof -
  have rows: "distinct (map if_ID rows)" "[] \<notin> if_ID ` set rows" using assms(1) by (simp_all add: ids_ok_def)
  note c = row_classes [OF rows assms(2,3), of dev snap at, folded d_def]
  have up: "upserts aenv 0 (dr_Upserts d) (map (parked d) rows) = Some rows'"
    using assms(5) unfolding sync_rows_def apply_rows_def d_def by (simp add: park_lifecycle Let_def split: if_splits)
  have "map if_ID (map (parked d) rows) = map if_ID rows" by simp
  with assms(1) have "ids_ok (map (parked d) rows)" unfolding ids_ok_def by metis
  from upserts_ids [OF up this assms(6)] show "ids_ok rows'" .
  have l: "life (k + 1) (parked d r)" "if_State (parked d r) \<noteq> Present"
    using assms(4,8) c by (auto simp: life_def RemoveAfterMisses_def split: if_splits)
  moreover have "if_ID (parked d r) \<noteq> []" using rows(2) assms(3) by (metis imageI parked_simps(1))
  ultimately have "parked d r \<in> set rows'"
    using upserts_keep [OF up, of "parked d r"] assms(3,8) by simp
  with l(1) show "\<exists>r' \<in> set rows'. if_ID r' = if_ID r \<and> life (k + 1) r'" by (metis parked_simps(1))
qed

text \<open>A series of syncs of one device, and that none of them matched an interface.\<close>

type_synonym sync_step = "apply_env \<times> DeviceState \<times> SyncSnapshot \<times> gotime"

primrec run_syncs :: "diff_env \<Rightarrow> sync_step list \<Rightarrow> if_row list \<Rightarrow> if_row list option" where
  "run_syncs denv [] rows = Some rows"
| "run_syncs denv (s # ss) rows = (case s of (aenv, dev, snap, at) \<Rightarrow>
     (case sync_rows denv aenv dev snap at rows of None \<Rightarrow> None | Some rows' \<Rightarrow> run_syncs denv ss rows'))"

primrec unseen :: "diff_env \<Rightarrow> string \<Rightarrow> sync_step list \<Rightarrow> if_row list \<Rightarrow> bool" where
  "unseen denv i [] rows = True"
| "unseen denv i (s # ss) rows = (case s of (aenv, dev, snap, at) \<Rightarrow>
     i \<notin> set (existing (dr_Upserts (Diff denv (dev\<lparr>ds_Interfaces := map if_state rows\<rparr>) snap at))) \<and>
     (case sync_rows denv aenv dev snap at rows of None \<Rightarrow> True | Some rows' \<Rightarrow> unseen denv i ss rows'))"

lemma run_unseen:
  assumes "ids_ok rows" and "walks denv" and "r \<in> set rows" and "life k r" and "\<forall>(aenv, _) \<in> set ss. \<forall>k. ae_id aenv k \<noteq> []"
    and "run_syncs denv ss rows = Some rows'" and "unseen denv (if_ID r) ss rows"
  shows "\<exists>r' \<in> set rows'. if_ID r' = if_ID r \<and> life (k + length ss) r'"
  using assms
proof (induction ss arbitrary: rows r k)
  case (Cons s ss)
  obtain aenv dev snap at where s: "s = (aenv, dev, snap, at)" by (rule prod_cases4)
  with Cons.prems(6) obtain rows1 where one: "sync_rows denv aenv dev snap at rows = Some rows1" and rest: "run_syncs denv ss rows1 = Some rows'"
    by (auto split: option.splits)
  have ids: "\<forall>k. ae_id aenv k \<noteq> []" using Cons.prems(5) s by auto
  have un: "if_ID r \<notin> set (existing (dr_Upserts (Diff denv (dev\<lparr>ds_Interfaces := map if_state rows\<rparr>) snap at)))" "unseen denv (if_ID r) ss rows1"
    using Cons.prems(7) s one by auto
  note step = sync_unseen [OF Cons.prems(1-4) one ids un(1)]
  from step(2) obtain r1 where r1: "r1 \<in> set rows1" "if_ID r1 = if_ID r" "life (k + 1) r1" by blast
  have "\<forall>(aenv, _) \<in> set ss. \<forall>k. ae_id aenv k \<noteq> []" using Cons.prems(5) by auto
  from Cons.IH [OF step(1) Cons.prems(2) r1(1,3) this rest] un(2) r1(2) show ?case by simp
qed auto

text \<open>
  C25. Over any series of successful syncs that do not match a present interface, its row stays in the
  table: missing, with the number of misses counted, after the first and the second, and removed from the
  third on, for good.
\<close>

theorem removed_on_third:
  assumes "ids_ok rows" and "walks denv" and "r \<in> set rows" and "if_State r = Present" and "\<forall>(aenv, _) \<in> set ss. \<forall>k. ae_id aenv k \<noteq> []"
    and "run_syncs denv ss rows = Some rows'" and "unseen denv (if_ID r) ss rows" and "ss \<noteq> []"
  shows "\<exists>r' \<in> set rows'. if_ID r' = if_ID r \<and>
    (if length ss < 3 then if_State r' = Missing \<and> if_MissStreak r' = int (length ss) else if_State r' = Removed)"
proof -
  have "life 0 r" using assms(4) by (simp add: life_def)
  from run_unseen [OF assms(1-3) this assms(5-7)] assms(8) show ?thesis
    by (auto simp: life_def RemoveAfterMisses_def numeral_eq_Suc split: if_splits)
qed

lemmas demo_sync = sync_rows_def apply_rows_def park_def lifecycle_def upd_def Diff_def diff_fields_def devFields_def orKeep_def diff_uptime_def
  index_ifs_def index_if_def index_holds_def RemoveAfterMisses_def demo_dev_def demo_diff_def demo_apply_def demo_snap_def demo_row_def if_state_def
  IfState.truncate_def change_def Let_def

lemma empty_report: "ss_Interfaces snap = [] \<Longrightarrow> dr_Upserts (Diff env cur snap at) = []"
  by (simp add: Diff_def split: prod.split)

theorem removed_on_third_witness:
  "\<exists>r' \<in> set [(demo_row ''x'' 1 ''a'')\<lparr>if_State := Removed, if_MissStreak := 2\<rparr>]. if_ID r' = if_ID (demo_row ''x'' 1 ''a'') \<and>
    (if length (replicate 3 (demo_apply, demo_dev, demo_snap [], 0 :: gotime)) < 3
     then if_State r' = Missing \<and> if_MissStreak r' = int (length (replicate 3 (demo_apply, demo_dev, demo_snap [], 0 :: gotime))) else if_State r' = Removed)"
proof (rule removed_on_third [of "[demo_row ''x'' 1 ''a'']" demo_diff])
  have 1: "sync_rows demo_diff demo_apply demo_dev (demo_snap []) 0 [demo_row ''x'' 1 ''a''] = Some [(demo_row ''x'' 1 ''a'')\<lparr>if_State := Missing, if_MissStreak := 1\<rparr>]"
    by (simp add: demo_sync)
  have 2: "sync_rows demo_diff demo_apply demo_dev (demo_snap []) 0 [(demo_row ''x'' 1 ''a'')\<lparr>if_State := Missing, if_MissStreak := 1\<rparr>] = Some [(demo_row ''x'' 1 ''a'')\<lparr>if_State := Missing, if_MissStreak := 2\<rparr>]"
    by (simp add: demo_sync)
  have 3: "sync_rows demo_diff demo_apply demo_dev (demo_snap []) 0 [(demo_row ''x'' 1 ''a'')\<lparr>if_State := Missing, if_MissStreak := 2\<rparr>] = Some [(demo_row ''x'' 1 ''a'')\<lparr>if_State := Removed, if_MissStreak := 2\<rparr>]"
    by (simp add: demo_sync)
  show "run_syncs demo_diff (replicate 3 (demo_apply, demo_dev, demo_snap [], 0)) [demo_row ''x'' 1 ''a''] =
      Some [(demo_row ''x'' 1 ''a'')\<lparr>if_State := Removed, if_MissStreak := 2\<rparr>]"
    by (simp add: numeral_3_eq_3 1 2 3)
  show "unseen demo_diff (if_ID (demo_row ''x'' 1 ''a'')) (replicate 3 (demo_apply, demo_dev, demo_snap [], 0)) [demo_row ''x'' 1 ''a'']"
    by (simp add: numeral_3_eq_3 1 2 3 empty_report [of "demo_snap []"] demo_snap_def [of "[]", THEN arg_cong [of _ _ ss_Interfaces]])
qed (simp_all add: ids_ok_def demo_row_def walks_def demo_diff_def demo_apply_def)

subsection \<open>Whose row a record takes\<close>

lemma idx_name_inject [simp]: "idx_name i n = idx_name j m \<longleftrightarrow> i = j \<and> n = m"
proof
  assume e: "idx_name i n = idx_name j m"
  have "CHR ''/'' \<notin> set (nat_str k)" for k using nat_str_digits [of "CHR ''/''" k] by auto
  then have "CHR ''/'' \<notin> set (int_str k)" for k by (simp add: int_str_def)
  then have "takeWhile (\<lambda>c. c \<noteq> CHR ''/'') (idx_name k x) = int_str k" for k x
    unfolding idx_name_def by (subst takeWhile_append2) auto
  with e have "int_str i = int_str j" by metis
  with e show "i = j \<and> n = m" by (simp add: idx_name_def)
qed simp

text \<open>
  Identity is resolved record by record: a new interface that is reported before a stored one and
  shares its MAC address and type takes its row, although the stored interface is still reported under its
  own index and name, which then becomes a new row; no interface counts as missing.
\<close>

theorem shared_mac_takes_row:
  assumes "ds_Interfaces cur = [i]" and "if_State i = Present" and "if_PhysAddress i \<noteq> []" and "if_ID i \<noteq> []"
    and "ss_Interfaces snap = [new, old]"
    and "si_IfIndex old = if_IfIndex i" and "si_Name old = if_Name i" and "si_PhysAddress old = if_PhysAddress i" and "si_IfType old = if_IfType i"
    and "si_Name new \<noteq> if_Name i" and "si_PhysAddress new = if_PhysAddress i" and "si_IfType new = if_IfType i"
  shows "dr_Upserts (Diff env cur snap at) = [\<lparr>up_ExistingID = if_ID i, up_Rec = new\<rparr>, \<lparr>up_ExistingID = [], up_Rec = old\<rparr>]"
proof -
  let ?m = "index_ifs (ds_Interfaces cur)"
  have m: "m_unmatched ?m = [(if_ID i, i)]" "m_byIdxName ?m = [(idx_name (if_IfIndex i) (if_Name i), i)]"
    "m_byName ?m = (if if_Name i \<noteq> [] then [(if_Name i, i)] else [])" "m_byPhys ?m = [(phys_type (if_PhysAddress i) (if_IfType i), i)]"
    using assms(1-3) by (simp_all add: index_ifs_def index_if_def)
  have one: "match ?m new = Some i"
    using m assms(3,10-12) by (simp add: match_def unmatched_at_def)
  let ?m1 = "?m\<lparr>m_unmatched := AList.delete (if_ID i) (m_unmatched ?m)\<rparr>"
  have two: "match ?m1 old = None" using m by (simp add: match_def unmatched_at_def split: option.split)
  obtain rs cs m' where d: "diff_recs (ss_Interfaces snap) ?m = ([\<lparr>up_ExistingID = if_ID i, up_Rec = new\<rparr>, \<lparr>up_ExistingID = [], up_Rec = old\<rparr>], rs, cs, m')"
    using one two by (simp add: assms(5))
  show ?thesis by (cases "diff_absent (m_unmatched m') (de_order env (map fst (m_unmatched m')))") (rule Diff_parts(1) [OF d])
qed

theorem shared_mac_takes_row_witness:
  "dr_Upserts (Diff demo_diff (demo_dev\<lparr>ds_Interfaces := [if_state ((demo_row ''x'' 1 ''a'')\<lparr>if_PhysAddress := ''m''\<rparr>)]\<rparr>)
      (demo_snap [(demo_rec 2 ''b'')\<lparr>si_PhysAddress := ''m''\<rparr>, (demo_rec 1 ''a'')\<lparr>si_PhysAddress := ''m''\<rparr>]) 0) =
    [\<lparr>up_ExistingID = if_ID (if_state ((demo_row ''x'' 1 ''a'')\<lparr>if_PhysAddress := ''m''\<rparr>)), up_Rec = (demo_rec 2 ''b'')\<lparr>si_PhysAddress := ''m''\<rparr>\<rparr>,
     \<lparr>up_ExistingID = [], up_Rec = (demo_rec 1 ''a'')\<lparr>si_PhysAddress := ''m''\<rparr>\<rparr>]"
  by (rule shared_mac_takes_row) (simp_all add: demo_dev_def demo_snap_def demo_row_def demo_rec_def)

end
