(* ===== verification/Inventory_Resync.thy ===== *)
theory Inventory_Resync
  imports Inventory_Reconcile
begin

text \<open>
  Syncing an unchanged device again. The reconciliation keeps the pairs of index and name of the stored
  interfaces distinct, so the first rule of identity (same index and name) decides every record of a
  report that was written before. At the end, the service as a whole: a result is taken over whole or not
  at all.
\<close>

definition key :: "'a IfState_scheme \<Rightarrow> int \<times> string" where
  "key i = (if_IfIndex i, if_Name i)"

definition keys_ok :: "if_row list \<Rightarrow> bool" where
  "keys_ok rows \<longleftrightarrow> distinct (map key (filter (\<lambda>r. if_State r \<noteq> Removed) rows))"

definition rec_key :: "SyncInterface \<Rightarrow> int \<times> string" where
  "rec_key rec = (si_IfIndex rec, si_Name rec)"

lemma key_if_state [simp]: "key (if_state r) = key r"
  by (simp add: key_def)

lemma index_byIdxName:
  "distinct (map key (known is)) \<Longrightarrow> m_byIdxName (index_ifs is) = map (\<lambda>i. (idx_name (if_IfIndex i) (if_Name i), i)) (known is)"
proof (induction "is" rule: rev_induct)
  case (snoc i "is")
  show ?case
  proof (cases "if_State i = Removed")
    case True
    with snoc show ?thesis by (simp add: index_ifs_snoc index_if_def known_def)
  next
    case False
    with snoc.prems have "idx_name (if_IfIndex i) (if_Name i) \<notin> fst ` set (map (\<lambda>i. (idx_name (if_IfIndex i) (if_Name i), i)) (known is))"
      by (auto simp: known_def key_def)
    with snoc False show ?thesis by (simp add: index_ifs_snoc index_if_def known_def update_new)
  qed
qed (simp add: index_ifs_def known_def)

lemma byIdxName_lookup:
  assumes "distinct (map key (known is))" and "i \<in> set (known is)"
  shows "map_of (m_byIdxName (index_ifs is)) (idx_name (if_IfIndex i) (if_Name i)) = Some i"
proof -
  have "distinct (map fst (map (\<lambda>i. (idx_name (if_IfIndex i) (if_Name i), i)) (known is)))"
    using assms(1) by (auto simp: distinct_map inj_on_def key_def)
  then show ?thesis unfolding index_byIdxName [OF assms(1)] using assms(2) by (intro map_of_is_SomeI) auto
qed

subsection \<open>A row nobody matched has a key nobody reported\<close>

definition taken :: "ifmaps \<Rightarrow> SyncInterface \<Rightarrow> ifmaps" where
  "taken m rec = (case match m rec of None \<Rightarrow> m | Some j \<Rightarrow> m\<lparr>m_unmatched := AList.delete (if_ID j) (m_unmatched m)\<rparr>)"

lemma diff_recs_Cons:
  assumes "diff_recs (rec # recs) m = (us, rs, cs, m')"
  obtains us1 rs1 cs1 where "diff_recs recs (taken m rec) = (us1, rs1, cs1, m')"
  using assms by (auto simp: taken_def split: option.splits prod.splits)

lemma taken_simps: "m_byIdxName (taken m rec) = m_byIdxName m" "map_of (m_unmatched (taken m rec)) k \<noteq> None \<Longrightarrow> map_of (m_unmatched m) k \<noteq> None"
  by (auto simp: taken_def AList.delete_conv' split: option.splits if_splits)

lemma diff_recs_shrinks: "diff_recs recs m = (us, rs, cs, m') \<Longrightarrow> map_of (m_unmatched m') k \<noteq> None \<Longrightarrow> map_of (m_unmatched m) k \<noteq> None"
proof (induction recs arbitrary: m us rs cs)
  case (Cons rec recs)
  from Cons.prems(1) obtain us1 rs1 cs1 where "diff_recs recs (taken m rec) = (us1, rs1, cs1, m')" by (rule diff_recs_Cons)
  from Cons.IH [OF this Cons.prems(2)] show ?case by (rule taken_simps(2))
qed simp

lemma unmatched_key:
  assumes "diff_recs recs m = (us, rs, cs, m')" and "map_of (m_unmatched m') (if_ID i) \<noteq> None"
    and "map_of (m_byIdxName m) (idx_name (if_IfIndex i) (if_Name i)) = Some i"
  shows "key i \<notin> rec_key ` set recs"
  using assms
proof (induction recs arbitrary: m us rs cs)
  case (Cons rec recs)
  have here: "map_of (m_unmatched m) (if_ID i) \<noteq> None" by (rule diff_recs_shrinks [OF Cons.prems(1,2)])
  from Cons.prems(1) obtain us1 rs1 cs1 where rest: "diff_recs recs (taken m rec) = (us1, rs1, cs1, m')" by (rule diff_recs_Cons)
  have "rec_key rec \<noteq> key i"
  proof
    assume "rec_key rec = key i"
    then have "match m rec = Some i" using Cons.prems(3) here by (auto simp: match_def unmatched_at_def rec_key_def key_def)
    then have "map_of (m_unmatched (taken m rec)) (if_ID i) = None" by (simp add: taken_def AList.delete_conv')
    with diff_recs_shrinks [OF rest Cons.prems(2)] show False by simp
  qed
  then show ?case using Cons.IH [OF rest Cons.prems(2)] Cons.prems(3) by (auto simp: taken_simps(1))
qed simp

subsection \<open>A report that was written before\<close>

lemma diff_recs_again:
  assumes "\<forall>rec \<in> set recs. map_of (m_byIdxName m) (idx_name (si_IfIndex rec) (si_Name rec)) = Some (f rec) \<and>
      map_of (m_unmatched m) (if_ID (f rec)) \<noteq> None \<and> if_State (f rec) = Present \<and> if_changes (f rec) rec = []"
    and "distinct (map (if_ID \<circ> f) recs)"
  shows "\<exists>m'. diff_recs recs m = (map (\<lambda>rec. \<lparr>up_ExistingID = if_ID (f rec), up_Rec = rec\<rparr>) recs, [], [], m')"
  using assms
proof (induction recs arbitrary: m)
  case (Cons rec recs)
  let ?m = "m\<lparr>m_unmatched := AList.delete (if_ID (f rec)) (m_unmatched m)\<rparr>"
  have "match m rec = Some (f rec)" using Cons.prems(1) by (auto simp: match_def unmatched_at_def)
  moreover have "\<exists>m'. diff_recs recs ?m = (map (\<lambda>rec. \<lparr>up_ExistingID = if_ID (f rec), up_Rec = rec\<rparr>) recs, [], [], m')"
  proof (rule Cons.IH)
    have "if_ID (f rec') \<noteq> if_ID (f rec)" if "rec' \<in> set recs" for rec'
      using that Cons.prems(2) by (simp add: image_iff) metis
    then show "\<forall>rec \<in> set recs. map_of (m_byIdxName ?m) (idx_name (si_IfIndex rec) (si_Name rec)) = Some (f rec) \<and>
      map_of (m_unmatched ?m) (if_ID (f rec)) \<noteq> None \<and> if_State (f rec) = Present \<and> if_changes (f rec) rec = []"
      using Cons.prems(1) by (auto simp: AList.delete_conv')
  qed (use Cons.prems(2) in simp)
  then obtain m' where "diff_recs recs ?m = (map (\<lambda>rec. \<lparr>up_ExistingID = if_ID (f rec), up_Rec = rec\<rparr>) recs, [], [], m')" by blast
  ultimately show ?case using Cons.prems(1) by simp
qed simp

lemma parked_key:
  assumes "if_ID r \<notin> set (existing (dr_Upserts d))"
  shows "key (parked d r) = key r"
  using assms by (simp add: key_def parked_def touch_def)

text \<open>A reconciliation keeps the keys of the stored interfaces distinct.\<close>

lemma unmatched_row_key:
  fixes denv dev snap at
  assumes "ids_ok rows" and "keys_ok rows" and "r \<in> set rows" and "if_State r \<noteq> Removed"
  defines "d \<equiv> Diff denv (dev\<lparr>ds_Interfaces := map if_state rows\<rparr>) snap at"
  assumes "if_ID r \<notin> set (existing (dr_Upserts d))"
  shows "key r \<notin> rec_key ` set (ss_Interfaces snap)"
proof -
  let ?is = "map if_state rows"
  obtain us rs cs m' where dr: "diff_recs (ss_Interfaces snap) (index_ifs ?is) = (us, rs, cs, m')" by (metis prod_cases4)
  obtain mi st re acs where "diff_absent (m_unmatched m') (de_order denv (map fst (m_unmatched m'))) = (mi, st, re, acs)" by (metis prod_cases4)
  from Diff_parts(1) [of snap "dev\<lparr>ds_Interfaces := ?is\<rparr>", simplified, OF dr this] have us: "dr_Upserts d = us" by (simp add: d_def)
  have ids: "distinct (map if_ID ?is)" "\<forall>i \<in> set ?is. if_ID i \<noteq> []" using assms(1) by (auto simp: ids_ok_def comp_def image_iff)
  have kn: "if_state r \<in> set (known ?is)" using assms(3,4) by (simp add: known_def)
  have keys: "distinct (map key (known ?is))" using assms(2) by (simp add: keys_ok_def known_def filter_map comp_def)
  have "if_ID r \<in># mset (map fst (m_unmatched (index_ifs ?is)))" using kn by (force simp: index_unmatched [OF ids(1)])
  then have "if_ID r \<in># mset (map fst (m_unmatched m'))" 
    unfolding diff_recs_ids(2) [OF index_maps_ok [OF ids(1)] ids dr] using assms(6) us by simp
  then have "map_of (m_unmatched m') (if_ID (if_state r)) \<noteq> None" by (simp add: map_of_eq_None_iff)
  from unmatched_key [OF dr this byIdxName_lookup [OF keys kn]] show ?thesis by simp
qed

lemma rows_ids: "rows_ok rows \<Longrightarrow> ids_ok rows"
  by (simp add: rows_ok_def ids_ok_def)

lemma rest_keys:
  fixes denv dev snap at
  assumes "ids_ok rows" and "keys_ok rows" and "walks denv"
  defines "d \<equiv> Diff denv (dev\<lparr>ds_Interfaces := map if_state rows\<rparr>) snap at"
  defines "missing \<equiv> filter (\<lambda>r. if_State r = Missing) (gone (set (existing (dr_Upserts d))) (map (parked d) rows))"
  shows "distinct (map key missing)" and "key ` set missing \<inter> rec_key ` set (ss_Interfaces snap) = {}"
proof -
  let ?P = "\<lambda>r. if_State (parked d r) = Missing \<and> if_ID r \<notin> set (existing (dr_Upserts d))"
  have m: "missing = map (parked d) (filter ?P rows)"
    by (auto simp: missing_def gone_def filter_map comp_def intro!: arg_cong [where f = "map (parked d)"] filter_cong)
  have "map key missing = map key (filter ?P rows)" unfolding m by (simp add: parked_key)
  moreover have known: "if_State r \<noteq> Removed" if "r \<in> set rows" "?P r" for r
    using that row_classes [of rows denv r dev snap at] assms(1,3) by (auto simp: d_def ids_ok_def split: if_splits)
  moreover have "distinct rows" using assms(1) by (simp add: ids_ok_def distinct_map)
  ultimately show "distinct (map key missing)" using assms(2) by (auto simp: keys_ok_def distinct_map inj_on_def)
  show "key ` set missing \<inter> rec_key ` set (ss_Interfaces snap) = {}"
  proof -
    have "key x \<notin> rec_key ` set (ss_Interfaces snap)" if x: "x \<in> set missing" for x
    proof -
      from x obtain r where r: "r \<in> set rows" "?P r" "x = parked d r" by (auto simp: m)
      with unmatched_row_key [OF assms(1,2) r(1) known [OF r(1,2)], of denv dev snap at, folded d_def] show ?thesis by (simp add: parked_key)
    qed
    then show ?thesis by blast
  qed
qed

lemma view_key: "if_view r = stored env rec \<Longrightarrow> key r = rec_key rec"
  by (auto simp: if_view_def stored_def key_def rec_key_def dest: arg_cong [of _ _ si_IfIndex] arg_cong [of _ _ si_Name])

lemma sync_keys:
  fixes denv dev snap at
  assumes "ids_ok rows" and "keys_ok rows" and "walks denv"
  defines "d \<equiv> Diff denv (dev\<lparr>ds_Interfaces := map if_state rows\<rparr>) snap at"
  assumes mid: "midway aenv n (gone (set (existing (dr_Upserts d))) (map (parked d) rows)) (ss_Interfaces snap) [] rows'"
  shows "keys_ok rows'"
proof -
  let ?missing = "filter (\<lambda>r. if_State r = Missing) (gone (set (existing (dr_Upserts d))) (map (parked d) rows))"
  note rest = rest_keys [OF assms(1-3), of dev snap at, folded d_def]
  have gone: "gone {} rows' = gone (set (existing (dr_Upserts d))) (map (parked d) rows)"
    and seen: "mset (map if_view (present_rows rows')) = mset (map (stored aenv) (ss_Interfaces snap))" and ix: "index_holds rows'" and ids: "distinct (map if_ID rows')"
    using mid by (simp_all add: midway_def settled_def present_rows_def)
  have missing: "filter (\<lambda>r. if_State r = Missing) rows' = ?missing"
    unfolding gone [symmetric] by (auto simp: gone_def intro: filter_cong)
  have keys: "key r \<in> rec_key ` set (ss_Interfaces snap)" if "r \<in> set (present_rows rows')" for r
  proof -
    have "if_view r \<in> set (map (stored aenv) (ss_Interfaces snap))" using mset_eq_setD [OF seen] that by auto
    then obtain rec where "rec \<in> set (ss_Interfaces snap)" "if_view r = stored aenv rec" by auto
    then show ?thesis by (simp add: view_key)
  qed
  have "inj_on key (set (present_rows rows'))" using ix by (auto simp: index_holds_def present_rows_def distinct_map inj_on_def key_def)
  moreover have "inj_on key (set ?missing)" using rest(1) by (simp only: distinct_map)
  moreover have "{r \<in> set rows'. if_State r \<noteq> Removed} = set (present_rows rows') \<union> set (filter (\<lambda>r. if_State r = Missing) rows')"
    by (auto simp: present_rows_def) (metis presence.exhaust)
  ultimately have "inj_on key {r \<in> set rows'. if_State r \<noteq> Removed}"
    using keys rest(2) unfolding missing by (auto simp: inj_on_Un)
  then show ?thesis using ids by (auto simp: keys_ok_def distinct_map)
qed

lemma diff_absent_quiet:
  "diff_absent un is = ([], st, re, cs) \<Longrightarrow> cs = map (\<lambda>i. change ''interface'' i ''state'' ''missing'' ''removed'' ''removed'') re"
  by (induction "is" arbitrary: st re cs) (auto split: option.splits if_splits prod.splits)

lemma device_changes:
  "\<forall>c \<in> set (snd (diff_fields cur snap)). fc_ObjectKind c \<noteq> ''interface''"
  "\<forall>c \<in> set (snd (snd (diff_uptime env cur snap at))). fc_ObjectKind c \<noteq> ''interface''"
  by (auto simp: diff_fields_def change_def Let_def) (auto simp: diff_uptime_def change_def Let_def split: option.splits if_splits)

lemma Diff_changes:
  assumes "diff_recs (ss_Interfaces snap) (index_ifs (ds_Interfaces cur)) = (us, rs, cs, m)"
    and "diff_absent (m_unmatched m) (de_order env (map fst (m_unmatched m))) = (mi, st, re, acs)"
  shows "dr_Changes (Diff env cur snap at) = snd (diff_fields cur snap) @ snd (snd (diff_uptime env cur snap at)) @ cs @ acs"
    and "dr_RestoredIDs (Diff env cur snap at) = rs"
  using assms by (simp_all add: Diff_def split: prod.split)

text \<open>The row each record of a written report is stored in.\<close>

lemma written_rows:
  assumes "rows_ok rows" and "mset (map if_view (present_rows rows)) = mset (map (stored env) recs)" and "distinct (map si_IfIndex recs)"
  obtains g where "\<forall>rec \<in> set recs. g rec \<in> set (present_rows rows) \<and> if_view (g rec) = stored env rec" and "distinct (map (if_ID \<circ> g) recs)"
    and "set (present_rows rows) \<subseteq> g ` set recs"
proof -
  have "\<forall>rec \<in> set recs. \<exists>r. r \<in> set (present_rows rows) \<and> if_view r = stored env rec"
    using mset_eq_setD [OF assms(2)] by (auto simp: set_eq_iff image_iff) metis
  from bchoice [OF this] obtain g where g: "\<forall>rec \<in> set recs. g rec \<in> set (present_rows rows) \<and> if_view (g rec) = stored env rec" by blast
  have ids: "inj_on if_ID (set rows)" and ix: "inj_on if_IfIndex (set (present_rows rows))"
    using assms(1) by (simp_all add: rows_ok_def index_holds_def present_rows_def distinct_map)
  have at: "if_IfIndex (g rec) = si_IfIndex rec" if "rec \<in> set recs" for rec
    using g that by (metis view_index)
  have "inj_on (if_ID \<circ> g) (set recs)"
  proof (rule inj_onI)
    fix a b assume ab: "a \<in> set recs" "b \<in> set recs" "(if_ID \<circ> g) a = (if_ID \<circ> g) b"
    then have "g a = g b" using g ids by (auto simp: present_rows_def inj_on_def)
    with at [OF ab(1)] at [OF ab(2)] have "si_IfIndex a = si_IfIndex b" by simp
    with ab assms(3) show "a = b" by (auto simp: distinct_map inj_on_def)
  qed
  then have inj: "distinct (map (if_ID \<circ> g) recs)" using assms(3) by (auto simp: distinct_map)
  have "r \<in> g ` set recs" if r: "r \<in> set (present_rows rows)" for r
  proof -
    have "if_view r \<in> set (map (stored env) recs)" using mset_eq_setD [OF assms(2)] r by auto
    then obtain rec where rec: "rec \<in> set recs" "if_view r = stored env rec" by auto
    then have "if_IfIndex r = if_IfIndex (g rec)" by (metis at view_index)
    with g ix r rec(1) have "r = g rec" by (auto simp: inj_on_def)
    with rec(1) show ?thesis by blast
  qed
  with that [OF g inj] show ?thesis by blast
qed

lemma if_changes_written:
  assumes "if_view r = stored env rec" and "if_State r = Present"
  shows "if_changes (if_state r) rec = []"
proof -
  note eq = arg_cong [OF assms(1)]
  have "if_IfIndex r = si_IfIndex rec" "if_Name r = si_Name rec" "if_Alias r = si_Alias rec"
    "if_SpeedBPS r = si_SpeedBPS rec" "if_MTU r = si_MTU rec"
    using eq [of si_IfIndex] eq [of si_Name] eq [of si_Alias] eq [of si_SpeedBPS] eq [of si_MTU] by (simp_all add: if_view_def stored_def)
  with assms(2) show ?thesis by (simp add: if_changes_def)
qed

lemma missing_are_rows:
  fixes dev snap at
  assumes "ids_ok rows" and "walks denv"
  defines "d \<equiv> Diff denv (dev\<lparr>ds_Interfaces := map if_state rows\<rparr>) snap at"
  shows "set (dr_MissingIDs d) \<subseteq> if_ID ` set rows"
proof -
  let ?cur = "dev\<lparr>ds_Interfaces := map if_state rows\<rparr>"
  have cur: "distinct (map if_ID (ds_Interfaces ?cur))" "\<forall>i \<in> set (ds_Interfaces ?cur). if_ID i \<noteq> []"
    using assms(1) by (auto simp: ids_ok_def comp_def image_iff)
  obtain un where "maps_ok (ds_Interfaces ?cur) un"
    and a: "mset (map if_ID (known (ds_Interfaces ?cur))) = mset (existing (dr_Upserts d)) + mset (map fst (m_unmatched un))"
    and b: "mset (map fst (m_unmatched un)) = mset (dr_MissingIDs d) + mset (dr_StreakIDs d) + mset (dr_RemovedIDs d)"
    unfolding d_def by (rule Diff_split [OF cur assms(2) [unfolded walks_def], of snap at]) blast
  have "set_mset (mset (dr_MissingIDs d)) \<subseteq> set_mset (mset (map if_ID (known (ds_Interfaces ?cur))))" unfolding a b by auto
  then show ?thesis by (auto simp: known_def)
qed

lemma written_lookup:
  assumes "ids_ok rows" and "keys_ok rows" and "r \<in> set (present_rows rows)" and "if_view r = stored env rec"
  shows "map_of (m_byIdxName (index_ifs (map if_state rows))) (idx_name (si_IfIndex rec) (si_Name rec)) = Some (if_state r) \<and>
    map_of (m_unmatched (index_ifs (map if_state rows))) (if_ID (if_state r)) \<noteq> None \<and> if_State (if_state r) = Present \<and> if_changes (if_state r) rec = []"
proof -
  let ?is = "map if_state rows"
  have r: "r \<in> set rows" "if_State r = Present" using assms(3) by (auto simp: present_rows_def)
  have kn: "if_state r \<in> set (known ?is)" using r by (simp add: known_def)
  have ids: "distinct (map if_ID ?is)" using assms(1) by (simp add: ids_ok_def comp_def)
  have dk: "distinct (map key (known ?is))" using assms(2) by (simp add: keys_ok_def known_def filter_map comp_def)
  have "if_ID (if_state r) \<in> fst ` set (m_unmatched (index_ifs ?is))" using kn by (force simp: index_unmatched [OF ids])
  then show ?thesis
    using byIdxName_lookup [OF dk kn] view_key [OF assms(4)] r(2) if_changes_written [OF assms(4) r(2)]
    by (simp add: map_of_eq_None_iff key_def rec_key_def)
qed

text \<open>What the differ says of a report that the table already shows.\<close>

lemma written_quiet:
  fixes dev snap at
  assumes "rows_ok rows" and "keys_ok rows" and "walks denv"
    and "mset (map if_view (present_rows rows)) = mset (map (stored env) (ss_Interfaces snap))" and "distinct (map si_IfIndex (ss_Interfaces snap))"
  defines "d \<equiv> Diff denv (dev\<lparr>ds_Interfaces := map if_state rows\<rparr>) snap at"
  shows "dr_MissingIDs d = []" and "dr_RestoredIDs d = []" and "\<forall>u \<in> set (dr_Upserts d). up_ExistingID u \<noteq> []"
    and "filter (\<lambda>c. fc_ObjectKind c = ''interface'') (dr_Changes d) =
      map (\<lambda>i. change ''interface'' i ''state'' ''missing'' ''removed'' ''removed'') (dr_RemovedIDs d)"
proof -
  let ?recs = "ss_Interfaces snap"
  note ids = rows_ids [OF assms(1)]
  obtain g where g: "\<forall>rec \<in> set ?recs. g rec \<in> set (present_rows rows) \<and> if_view (g rec) = stored env rec" and inj: "distinct (map (if_ID \<circ> g) ?recs)"
    and onto: "set (present_rows rows) \<subseteq> g ` set ?recs"
    by (rule written_rows [OF assms(1,4,5)])
  have inj': "distinct (map (if_ID \<circ> (if_state \<circ> g)) ?recs)" using inj by (simp add: comp_def)
  have "\<exists>m'. diff_recs ?recs (index_ifs (map if_state rows)) = (map (\<lambda>rec. \<lparr>up_ExistingID = if_ID ((if_state \<circ> g) rec), up_Rec = rec\<rparr>) ?recs, [], [], m')"
    by (rule diff_recs_again [OF _ inj']) (use written_lookup [OF ids assms(2)] g in simp)
  then obtain m' where again: "diff_recs ?recs (index_ifs (map if_state rows)) = (map (\<lambda>rec. \<lparr>up_ExistingID = if_ID (g rec), up_Rec = rec\<rparr>) ?recs, [], [], m')"
    by auto
  obtain mi st re acs where ab: "diff_absent (m_unmatched m') (de_order denv (map fst (m_unmatched m'))) = (mi, st, re, acs)" by (metis prod_cases4)
  note parts = Diff_parts [of snap "dev\<lparr>ds_Interfaces := map if_state rows\<rparr>" _ _ _ _ denv _ _ _ _ at, simplified, OF again ab, folded d_def]
    and chg = Diff_changes [of snap "dev\<lparr>ds_Interfaces := map if_state rows\<rparr>" _ _ _ _ denv _ _ _ _ at, simplified, OF again ab, folded d_def]
  have ne: "if_ID (g rec) \<noteq> []" if "rec \<in> set ?recs" for rec
  proof -
    have "g rec \<in> set rows" using g that by (simp add: present_rows_def)
    then show ?thesis using ids unfolding ids_ok_def by (metis image_eqI set_map)
  qed
  then show "\<forall>u \<in> set (dr_Upserts d). up_ExistingID u \<noteq> []" by (auto simp: parts(1))
  have ex: "set (existing (dr_Upserts d)) = (if_ID \<circ> g) ` set ?recs" using ne by (auto simp: parts(1) existing_def)
  have "if_ID r \<notin> set (dr_MissingIDs d)" if "r \<in> set rows" for r
    using row_classes(1) [of rows denv r dev snap at] ids assms(3) that onto ex by (auto simp: d_def ids_ok_def present_rows_def)
  then show none: "dr_MissingIDs d = []" using missing_are_rows [OF ids assms(3), of dev snap at, folded d_def] by (cases "dr_MissingIDs d") auto
  show "dr_RestoredIDs d = []" by (rule chg(2))
  have acs: "acs = map (\<lambda>i. change ''interface'' i ''state'' ''missing'' ''removed'' ''removed'') re" using diff_absent_quiet ab none parts(2) by metis
  have "filter (\<lambda>c. fc_ObjectKind c = ''interface'') acs = acs" by (simp add: acs change_def filter_True)
  then show "filter (\<lambda>c. fc_ObjectKind c = ''interface'') (dr_Changes d) =
      map (\<lambda>i. change ''interface'' i ''state'' ''missing'' ''removed'' ''removed'') (dr_RemovedIDs d)"
    using device_changes by (simp add: chg(1) parts(4) acs filter_False)
qed

text \<open>
  C26. Syncing an unchanged device is quiet: when the same interfaces are reported again, every record is
  matched to the row it was written to, no interface becomes missing or is restored, and the only history
  about interfaces is the removal of those that were missing before. The reconciliation keeps the pairs
  of index and name of the stored interfaces distinct, on which this rests.
\<close>

theorem resync_quiet:
  assumes "rows_ok rows" and "keys_ok rows" and "walks denv" and "fresh_ids aenv rows" and "report_ok aenv snap"
    and "ss_Interfaces snap' = ss_Interfaces snap"
  shows "\<exists>rows'. sync_rows denv aenv dev snap at rows = Some rows' \<and> keys_ok rows' \<and>
    (let d' = Diff denv (dev'\<lparr>ds_Interfaces := map if_state rows'\<rparr>) snap' at' in
      dr_MissingIDs d' = [] \<and> dr_RestoredIDs d' = [] \<and> (\<forall>u \<in> set (dr_Upserts d'). up_ExistingID u \<noteq> []) \<and>
      filter (\<lambda>c. fc_ObjectKind c = ''interface'') (dr_Changes d') =
        map (\<lambda>i. change ''interface'' i ''state'' ''missing'' ''removed'' ''removed'') (dr_RemovedIDs d'))"
proof -
  obtain rows' where s: "sync_rows denv aenv dev snap at rows = Some rows'" and
    m: "midway aenv (length (ss_Interfaces snap)) (gone (set (existing (dr_Upserts (Diff denv (dev\<lparr>ds_Interfaces := map if_state rows\<rparr>) snap at))))
        (map (parked (Diff denv (dev\<lparr>ds_Interfaces := map if_state rows\<rparr>) snap at)) rows)) (ss_Interfaces snap) [] rows'"
    by (rule sync_rows_midway [OF assms(1,3-5)])
  have keys: "keys_ok rows'" by (rule sync_keys [OF rows_ids [OF assms(1)] assms(2,3) m])
  note ends = midway_end [OF m assms(5)]
  have "distinct (map si_IfIndex (ss_Interfaces snap'))" using assms(5,6) by (simp add: report_ok_def)
  note quiet = written_quiet [OF ends(1) keys assms(3) ends(2) [folded assms(6)] this]
  show ?thesis using s keys quiet [of dev' at'] unfolding Let_def by blast
qed

theorem resync_quiet_witness:
  "\<exists>rows'. sync_rows demo_diff demo_apply demo_dev (demo_snap [demo_rec 2 ''a'', demo_rec 1 ''b'']) 0 [demo_row ''x'' 1 ''a'', demo_row ''y'' 2 ''b''] = Some rows' \<and> keys_ok rows' \<and>
    (let d' = Diff demo_diff (demo_dev\<lparr>ds_Interfaces := map if_state rows'\<rparr>) (demo_snap [demo_rec 2 ''a'', demo_rec 1 ''b'']) 5 in
      dr_MissingIDs d' = [] \<and> dr_RestoredIDs d' = [] \<and> (\<forall>u \<in> set (dr_Upserts d'). up_ExistingID u \<noteq> []) \<and>
      filter (\<lambda>c. fc_ObjectKind c = ''interface'') (dr_Changes d') =
        map (\<lambda>i. change ''interface'' i ''state'' ''missing'' ''removed'' ''removed'') (dr_RemovedIDs d'))"
  by (rule resync_quiet) (use demo_ok in \<open>simp_all add: keys_ok_def key_def demo_row_def demo_snap_def\<close>)

subsection \<open>The service\<close>

lemma rematch_interfaces:
  assumes "rematch f cur snap diff = (m, diff')"
  shows "apply_rows env diff' rows = apply_rows env diff rows"
  using assms
  by (auto simp: rematch_def Let_def apply_rows_def park_def lifecycle_def upd_def split: option.splits if_splits)

lemma Apply_outcome:
  assumes "Apply env d adjs run db = (r, db')" and "\<forall>x. ae_fault env \<noteq> Some (x, True)"
  shows "case r of Inl e \<Rightarrow> db' = db
    | Inr n \<Rightarrow> n = length (dr_Changes d) \<and> apply_rows env d (sy_Rows db) = Some (sy_Rows db') \<and>
        sy_History db' = sy_History db @ map (\<lambda>c. (c, run_ID run)) (dr_Changes d) \<and> sy_Runs db' = sy_Runs db @ [run\<lparr>run_Changes := n\<rparr>]"
proof -
  have keep: "sy_Rows (put_device d db) = sy_Rows db" "sy_History (put_device d db) = sy_History db" "sy_Runs (put_device d db) = sy_Runs db"
    by (simp_all add: put_device_def Let_def)
  show ?thesis using assms by (auto simp: Apply_def Let_def keep split: option.splits if_splits prod.splits)
qed

text \<open>Errors of the driver carry no classification.\<close>

definition driver_fault :: "load_fault \<Rightarrow> bool" where
  "driver_fault f \<longleftrightarrow> (case f of AtDevice e \<Rightarrow> errors_as e = None | AtQuery e \<Rightarrow> errors_as e = None | AtRows e \<Rightarrow> errors_as e = None)"

lemma load_error_kind:
  assumes "LoadState fault (Some db) = Inl e" and "\<forall>f. fault = Some f \<longrightarrow> driver_fault f" and "KindOf (Some e) = KindNotFound"
  shows "sy_Status db = ''retired''"
  using assms by (auto simp: LoadState_def driver_fault_def KindOf_def kind_loop_innermost innermost_as split: option.splits load_fault.splits if_splits)

lemma HandleResult_outcome:
  assumes "HandleResult env res runID (Some db) = (e, dev', au)" and "\<forall>x. ae_fault (sv_apply env) \<noteq> Some (x, True)"
    and "\<forall>f. sv_load env = Some f \<longrightarrow> driver_fault f" and "sres_Error res = []" and "sres_Snapshot res = Some snap"
  shows "(dev' = Some db \<and> au = [] \<and> (e \<noteq> None \<or> sy_Status db = ''retired'')) \<or>
    (e = None \<and> (\<exists>db' h r. dev' = Some db' \<and>
       sync_rows (sv_diff env) (sv_apply env) (sy_Device db) snap (sres_CollectedAt res) (sy_Rows db) = Some (sy_Rows db') \<and>
       sy_History db' = sy_History db @ map (\<lambda>c. (c, runID)) h \<and>
       sy_Runs db' = sy_Runs db @ [r] \<and> run_ID r = runID \<and> run_Status r = ''ok'' \<and> run_Changes r = length h \<and>
       (h \<noteq> [] \<longleftrightarrow> (\<exists>n t b. SyncCompleted n t b \<in> set au))))"
proof (cases "sv_lock env = Inr True \<and> (\<exists>cur. LoadState (sv_load env) (Some db) = Inr cur)")
  case False
  have lock: "e \<noteq> None \<and> dev' = Some db \<and> au = []" if "sv_lock env \<noteq> Inr True"
    using that assms(1,4,5) by (cases "sv_lock env") (auto simp: HandleResult_def WithLock_def Let_def)
  have load: "dev' = Some db \<and> au = [] \<and> (e \<noteq> None \<or> sy_Status db = ''retired'')"
    if "sv_lock env = Inr True" "LoadState (sv_load env) (Some db) = Inl x" for x
    using that assms(1,4,5) load_error_kind [OF that(2) assms(3)] by (auto simp: HandleResult_def WithLock_def Let_def split: if_splits)
  from False lock load show ?thesis by (cases "sv_lock env = Inr True"; cases "LoadState (sv_load env) (Some db)") auto
next
  case True
  let ?cur = "(sy_Device db)\<lparr>ds_Interfaces := map if_state (sy_Rows db)\<rparr>"
  let ?run = "\<lparr>run_ID = runID, run_Trigger = orDefault (sres_Trigger res) ''scheduled'', run_StartedAt = sres_CollectedAt res, run_Status = ''ok'', run_Error = [], run_Changes = 0\<rparr>"
  from True have cur: "LoadState (sv_load env) (Some db) = Inr ?cur"
    by (auto simp: LoadState_def split: option.splits load_fault.splits if_splits)
  obtain m d where d: "rematch (sv_match env) ?cur snap (Diff (sv_diff env) ?cur snap (sres_CollectedAt res)) = (m, d)" by (metis prod.exhaust)
  obtain r db' where a: "Apply (sv_apply env) d (ss_Adjacencies snap) ?run db = (r, db')" by (metis prod.exhaust)
  note out = Apply_outcome [OF a assms(2)]
  have h: "HandleResult env res runID (Some db) = (case r of Inl e \<Rightarrow> (Some e, Some db', [])
      | Inr n \<Rightarrow> (None, Some db', (if m \<noteq> [] then [ConnectorMatched (ds_ConnectorID ?cur) m (ss_SysObjectID snap)] else []) @
          (if 0 < n then [SyncCompleted n (run_Trigger ?run) (dr_Rebooted d)] else [])))"
    using True cur assms(4,5) d a by (simp add: HandleResult_def WithLock_def Let_def split: sum.split)
  show ?thesis
  proof (cases r)
    case (Inl x)
    with out h assms(1) show ?thesis by simp
  next
    case (Inr n)
    with out h assms(1) rematch_interfaces [OF d] show ?thesis by (auto simp: sync_rows_def)
  qed
qed

text \<open>
  A result is taken over whole or not at all: unless the commit itself reports an error, either
  nothing is written and nothing audited, and then an error is returned or the device is retired; or the
  interface rows are reconciled, every change found is a history row of this run, the run is recorded with
  that number of changes, and a completed sync is audited exactly when there were changes.
\<close>

theorem HandleResult_whole:
  assumes "HandleResult env res runID (Some db) = (e, dev', au)" and "\<forall>x. ae_fault (sv_apply env) \<noteq> Some (x, True)"
    and "\<forall>f. sv_load env = Some f \<longrightarrow> driver_fault f" and "sres_Error res = []" and "sres_Snapshot res = Some snap"
  shows "(dev' = Some db \<and> au = [] \<and> (e \<noteq> None \<or> sy_Status db = ''retired'')) \<or>
    (e = None \<and> (\<exists>db' h r. dev' = Some db' \<and>
       sync_rows (sv_diff env) (sv_apply env) (sy_Device db) snap (sres_CollectedAt res) (sy_Rows db) = Some (sy_Rows db') \<and>
       sy_History db' = sy_History db @ map (\<lambda>c. (c, runID)) h \<and>
       sy_Runs db' = sy_Runs db @ [r] \<and> run_ID r = runID \<and> run_Status r = ''ok'' \<and> run_Changes r = length h \<and>
       (h \<noteq> [] \<longleftrightarrow> (\<exists>n t b. SyncCompleted n t b \<in> set au))))"
  using assms by (rule HandleResult_outcome)

definition demo_sync_env :: sync_env where
  "demo_sync_env = \<lparr>sv_diff = demo_diff, sv_apply = demo_apply, sv_lock = Inr True, sv_load = None, sv_record = None, sv_match = None\<rparr>"

definition demo_db :: sync_db where
  "demo_db = \<lparr>sy_Status = ''active'', sy_Device = demo_dev, sy_Rows = [demo_row ''x'' 1 ''a'', demo_row ''y'' 2 ''b''], sy_Links = [], sy_History = [], sy_Runs = []\<rparr>"

definition demo_result :: SyncResult where
  "demo_result = \<lparr>sres_JobID = ''j'', sres_DeviceID = ''d'', sres_PollerID = ''p'', sres_Trigger = [], sres_CollectedAt = 0, sres_Error = [], sres_Snapshot = Some (demo_snap [demo_rec 2 ''a'', demo_rec 1 ''b''])\<rparr>"

theorem HandleResult_whole_witness:
  "\<exists>e dev' au. HandleResult demo_sync_env demo_result ''r'' (Some demo_db) = (e, dev', au) \<and>
   ((dev' = Some demo_db \<and> au = [] \<and> (e \<noteq> None \<or> sy_Status demo_db = ''retired'')) \<or>
    (e = None \<and> (\<exists>db' h r. dev' = Some db' \<and>
       sync_rows (sv_diff demo_sync_env) (sv_apply demo_sync_env) (sy_Device demo_db) (demo_snap [demo_rec 2 ''a'', demo_rec 1 ''b'']) (sres_CollectedAt demo_result) (sy_Rows demo_db) = Some (sy_Rows db') \<and>
       sy_History db' = sy_History demo_db @ map (\<lambda>c. (c, ''r'')) h \<and>
       sy_Runs db' = sy_Runs demo_db @ [r] \<and> run_ID r = ''r'' \<and> run_Status r = ''ok'' \<and> run_Changes r = length h \<and>
       (h \<noteq> [] \<longleftrightarrow> (\<exists>n t b. SyncCompleted n t b \<in> set au)))))"
proof -
  obtain e dev' au where h: "HandleResult demo_sync_env demo_result ''r'' (Some demo_db) = (e, dev', au)" by (metis prod_cases3)
  from HandleResult_whole [OF h, of "demo_snap [demo_rec 2 ''a'', demo_rec 1 ''b'']"] h show ?thesis
    by (auto simp: demo_sync_env_def demo_apply_def demo_result_def)
qed

end
