(* ===== verification/Net_Text.thy ===== *)
theory Net_Text
  imports Net_Addr
begin

unbundle bit_operations_syntax

text \<open>
  Reading addresses and prefixes: \<open>netip.ParseAddr\<close> and \<open>netip.ParsePrefix\<close> of Go's standard library, as the
  settings, allow-lists, discovery sweeps and address tables of NetInv use them. A parsed address comes
  with its zone, which is empty unless an IPv6 address names one. \<open>None\<close> is the error return.
\<close>

type_synonym zaddr = "Addr \<times> string"

definition is_digit :: "char \<Rightarrow> bool" where
  "is_digit c \<longleftrightarrow> 48 \<le> (of_char c :: nat) \<and> (of_char c :: nat) \<le> 57"

definition hex_val :: "char \<Rightarrow> nat option" where
  "hex_val c = (let n = of_char c :: nat in
     if 48 \<le> n \<and> n \<le> 57 then Some (n - 48) else if 97 \<le> n \<and> n \<le> 102 then Some (n - 87)
     else if 65 \<le> n \<and> n \<le> 70 then Some (n - 55) else None)"

definition hex_num :: "string \<Rightarrow> nat" where
  "hex_num h = foldl (\<lambda>v c. 16 * v + (case hex_val c of None \<Rightarrow> 0 | Some d \<Rightarrow> d)) 0 h"

text \<open>The octets read so far, whether this is the first character, and whether a dot came before.\<close>

primrec parseIPv4Fields :: "string \<Rightarrow> bool \<Rightarrow> bool \<Rightarrow> nat list \<Rightarrow> nat \<Rightarrow> nat \<Rightarrow> nat list option" where
  "parseIPv4Fields [] first dot fs v d = (if length fs < 3 then None else Some (fs @ [v]))"
| "parseIPv4Fields (c # cs) first dot fs v d =
     (if is_digit c then
        (if d = 1 \<and> v = 0 then None
         else let v' = 10 * v + char_digit c in if 255 < v' then None else parseIPv4Fields cs False False fs v' (d + 1))
      else if c = CHR ''.'' then
        (if first \<or> cs = [] \<or> dot then None else if length fs = 3 then None else parseIPv4Fields cs False True (fs @ [v]) 0 0)
      else None)"

definition octets :: "string \<Rightarrow> nat list option" where
  "octets s = parseIPv4Fields s True False [] 0 0"

definition v4_word :: "nat list \<Rightarrow> u32" where
  "v4_word fs = word_of_nat (foldl (\<lambda>v f. 256 * v + f) 0 fs)"

definition parseIPv4 :: "string \<Rightarrow> zaddr option" where
  "parseIPv4 s = (case octets s of None \<Rightarrow> None | Some fs \<Rightarrow> Some (Addr4 (v4_word fs), []))"

text \<open>The groups of an IPv6 address; \<open>n\<close> is how many are left, and the ellipsis stands behind that many groups.\<close>

primrec v6_fields :: "nat \<Rightarrow> string \<Rightarrow> nat list \<Rightarrow> nat option \<Rightarrow> (nat list \<times> string \<times> nat option) option" where
  "v6_fields 0 s gs el = Some (gs, s, el)"
| "v6_fields (Suc n) s gs el =
     (let h = takeWhile (\<lambda>c. hex_val c \<noteq> None) s; rest = drop (length h) s in
      if 4 < length h \<or> h = [] then None
      else if rest \<noteq> [] \<and> hd rest = CHR ''.'' then
        (if el = None \<and> length gs \<noteq> 6 then None
         else if 6 < length gs then None
         else case octets s of None \<Rightarrow> None
           | Some fs \<Rightarrow> Some (gs @ [256 * fs ! 0 + fs ! 1, 256 * fs ! 2 + fs ! 3], [], el))
      else let gs = gs @ [hex_num h] in
        (case rest of [] \<Rightarrow> Some (gs, [], el)
         | c # rest \<Rightarrow>
             if c \<noteq> CHR '':'' \<or> rest = [] then None
             else if hd rest = CHR '':'' then
               (if el \<noteq> None then None
                else if tl rest = [] then Some (gs, [], Some (length gs)) else v6_fields n (tl rest) gs (Some (length gs)))
             else v6_fields n rest gs el))"

definition v6_word :: "nat list \<Rightarrow> 128 word" where
  "v6_word gs = word_of_nat (foldl (\<lambda>v g. 65536 * v + g) 0 gs)"

definition v6_finish :: "nat list \<times> string \<times> nat option \<Rightarrow> 128 word option" where
  "v6_finish r = (case r of (gs, s, el) \<Rightarrow>
     if s \<noteq> [] then None
     else if length gs < 8 then
       (case el of None \<Rightarrow> None | Some e \<Rightarrow> Some (v6_word (take e gs @ replicate (8 - length gs) 0 @ drop e gs)))
     else if el \<noteq> None then None else Some (v6_word gs))"

definition parseIPv6 :: "string \<Rightarrow> zaddr option" where
  "parseIPv6 input =
     (let s = takeWhile (\<lambda>c. c \<noteq> CHR ''%'') input; zone = drop (length s + 1) input in
      if CHR ''%'' \<in> set input \<and> zone = [] then None
      else
        let ell = take 2 s = ''::''; s' = (if ell then drop 2 s else s) in
        if ell \<and> s' = [] then Some (Addr6 0, zone)
        else case v6_fields 8 s' [] (if ell then Some 0 else None) of None \<Rightarrow> None
          | Some r \<Rightarrow> (case v6_finish r of None \<Rightarrow> None | Some w \<Rightarrow> Some (Addr6 w, zone)))"

definition ParseAddr :: "string \<Rightarrow> zaddr option" where
  "ParseAddr s = (case find (\<lambda>c. c \<in> set ''.:%'') s of
       None \<Rightarrow> None
     | Some c \<Rightarrow> if c = CHR ''.'' then parseIPv4 s else if c = CHR '':'' then parseIPv6 s else None)"

text \<open>The number behind the slash: no sign, no leading zeros.\<close>

definition prefix_len :: "string \<Rightarrow> nat option" where
  "prefix_len s = (if s = [] \<or> \<not> list_all is_digit s then None
     else if 1 < length s \<and> hd s = CHR ''0'' then None else Some (str_nat s))"

definition last_index :: "char \<Rightarrow> string \<Rightarrow> nat option" where
  "last_index c s = (if c \<in> set s then Some (length s - 1 - length (takeWhile (\<lambda>x. x \<noteq> c) (rev s))) else None)"

definition ParsePrefix :: "string \<Rightarrow> prefix option" where
  "ParsePrefix s = (case last_index (CHR ''/'') s of None \<Rightarrow> None
     | Some i \<Rightarrow> (case ParseAddr (take i s) of None \<Rightarrow> None
        | Some (a, zone) \<Rightarrow> if zone \<noteq> [] then None
            else (case prefix_len (drop (i + 1) s) of None \<Rightarrow> None
              | Some bits \<Rightarrow> if addr_bitlen a < bits then None else Some (prefix_from a (int bits)))))"

definition Masked :: "prefix \<Rightarrow> prefix" where
  "Masked p = (case addr_prefix (pfx_ip p) (pfx_bits p) of None \<Rightarrow> Pfx AddrZero (- 1) | Some q \<Rightarrow> q)"

text \<open>\<open>Addr.Next\<close>: the zero address behind the last one of a family.\<close>

fun addr_next :: "Addr \<Rightarrow> Addr" where
  "addr_next AddrZero = AddrZero"
| "addr_next (Addr4 w) = (if w + 1 = 0 then AddrZero else Addr4 (w + 1))"
| "addr_next (Addr6 w) = (if w + 1 = 0 then AddrZero else Addr6 (w + 1))"

subsection \<open>What is written is read back\<close>

lemma is_digit_digit_char: "d < 10 \<Longrightarrow> is_digit (digit_char d) \<and> char_digit (digit_char d) = d"
  by (simp add: is_digit_def digit_char_def char_digit_def)

lemma nat_str_small:
  "n < 10 \<Longrightarrow> nat_str n = [digit_char n]"
  "10 \<le> n \<Longrightarrow> n < 100 \<Longrightarrow> nat_str n = [digit_char (n div 10), digit_char (n mod 10)]"
  by (simp_all add: nat_str.simps [of n] nat_str.simps [of "n div 10"])

lemma nat_str_three: "100 \<le> n \<Longrightarrow> n < 1000 \<Longrightarrow> nat_str n = [digit_char (n div 100), digit_char (n div 10 mod 10), digit_char (n mod 10)]"
  using nat_str_small(2) [of "n div 10"] by (simp add: nat_str.simps [of n] div_mult2_eq [of n 10 10, simplified])

lemma digit_step:
  assumes "k < 10" and "\<not> (d = 1 \<and> v = 0)" and "10 * v + k \<le> 255"
  shows "parseIPv4Fields (digit_char k # cs) first dot fs v d = parseIPv4Fields cs False False fs (10 * v + k) (d + 1)"
  using assms is_digit_digit_char [OF assms(1)] by auto

lemma fields_octet:
  assumes "n \<le> 255"
  shows "\<exists>d. parseIPv4Fields (nat_str n @ cs) first dot fs 0 0 = parseIPv4Fields cs False False fs n d"
proof -
  consider "n < 10" | "10 \<le> n" "n < 100" | "100 \<le> n" "n < 1000" using assms by linarith
  then show ?thesis
  proof cases
    case 1
    with assms digit_step [of n 0 0 cs first dot fs] show ?thesis by (auto simp: nat_str_small)
  next
    case 2
    then have "10 * (n div 10) + n mod 10 = n" by simp
    with 2 assms digit_step [of "n div 10" 0 0 "digit_char (n mod 10) # cs" first dot fs] digit_step [of "n mod 10" 1 "n div 10" cs False False fs]
    show ?thesis by (auto simp: nat_str_small)
  next
    case 3
    let ?h = "n div 100" and ?t = "n div 10 mod 10"
    have e: "n div 10 = 10 * ?h + ?t" "n = 10 * (n div 10) + n mod 10" by (simp_all add: div_mult2_eq [of n 10 10, simplified])
    have b: "?h < 10" "0 < ?h" "n div 10 \<le> 255" using 3 assms by auto
    have "parseIPv4Fields (nat_str n @ cs) first dot fs 0 0 = parseIPv4Fields (digit_char ?t # digit_char (n mod 10) # cs) False False fs ?h 1"
      using 3 b digit_step [of ?h 0 0 "digit_char ?t # digit_char (n mod 10) # cs" first dot fs] by (simp add: nat_str_three)
    also have "\<dots> = parseIPv4Fields (digit_char (n mod 10) # cs) False False fs (n div 10) 2"
      using b e(1) digit_step [of ?t 1 ?h "digit_char (n mod 10) # cs" False False fs] by (simp add: numeral_2_eq_2)
    also have "\<dots> = parseIPv4Fields cs False False fs n 3"
      using b e(2) assms digit_step [of "n mod 10" 2 "n div 10" cs False False fs] by simp
    finally show ?thesis by blast
  qed
qed

lemma dot_no_digit: "\<not> is_digit CHR ''.''"
  by (simp add: is_digit_def)

lemma octets_text:
  assumes "a \<le> 255" "b \<le> 255" "c \<le> 255" "d \<le> 255"
  shows "octets (nat_str a @ ''.'' @ nat_str b @ ''.'' @ nat_str c @ ''.'' @ nat_str d) = Some [a, b, c, d]"
proof -
  have dot: "parseIPv4Fields (CHR ''.'' # nat_str n @ cs) False False fs v k = parseIPv4Fields (nat_str n @ cs) False True (fs @ [v]) 0 0"
    if "length fs < 3" for n cs fs v k using that by (simp add: dot_no_digit)
  obtain k1 where "parseIPv4Fields (nat_str a @ ''.'' @ nat_str b @ ''.'' @ nat_str c @ ''.'' @ nat_str d) True False [] 0 0 =
      parseIPv4Fields (''.'' @ nat_str b @ ''.'' @ nat_str c @ ''.'' @ nat_str d) False False [] a k1" using fields_octet [OF assms(1)] by metis
  moreover obtain k2 where "parseIPv4Fields (nat_str b @ ''.'' @ nat_str c @ ''.'' @ nat_str d) False True [a] 0 0 =
      parseIPv4Fields (''.'' @ nat_str c @ ''.'' @ nat_str d) False False [a] b k2" using fields_octet [OF assms(2)] by metis
  moreover obtain k3 where "parseIPv4Fields (nat_str c @ ''.'' @ nat_str d) False True [a, b] 0 0 =
      parseIPv4Fields (''.'' @ nat_str d) False False [a, b] c k3" using fields_octet [OF assms(3)] by metis
  moreover obtain k4 where "parseIPv4Fields (nat_str d @ []) False True [a, b, c] 0 0 = parseIPv4Fields [] False False [a, b, c] d k4"
    using fields_octet [OF assms(4)] by metis
  ultimately show ?thesis using dot [of "[]"] dot [of "[a]"] dot [of "[a, b]" d "[]"] by (simp add: octets_def)
qed

lemma low_byte: "unat (w AND 255 :: u32) = unat w mod 256"
proof -
  have "w AND 255 = take_bit 8 w" by (simp add: take_bit_eq_mask mask_eq_exp_minus_1)
  then show ?thesis by (simp add: take_bit_eq_mod unat_mod_distrib)
qed

lemma byte_le: "unat (w AND 255 :: u32) \<le> 255"
  using mod_less_divisor [of 256 "unat w"] by (simp add: low_byte)

lemma v4_word_text: "v4_word [unat (drop_bit 24 w AND 255), unat (drop_bit 16 w AND 255), unat (drop_bit 8 w AND 255), unat (w AND 255)] = w"
proof -
  have "unat w < 2 ^ 32" using unsigned_less [of w, where ?'a = nat] by simp
  then have top: "unat w div 2 ^ 24 < 256" by (simp add: less_mult_imp_div_less)
  have e: "unat w div 2 ^ 16 = unat w div 2 ^ 8 div 256" "unat w div 2 ^ 24 = unat w div 2 ^ 16 div 256"
    by (simp_all add: div_mult2_eq [symmetric])
  have "256 * (256 * (256 * (unat w div 2 ^ 24 mod 256) + unat w div 2 ^ 16 mod 256) + unat w div 2 ^ 8 mod 256) + unat w mod 256 = unat w"
    using mult_div_mod_eq [of 256 "unat w"] mult_div_mod_eq [of 256 "unat w div 2 ^ 8"] mult_div_mod_eq [of 256 "unat w div 2 ^ 16"]
    unfolding mod_less [OF top] e(1) [symmetric] e(2) [symmetric] by simp
  then have "foldl (\<lambda>v f. 256 * v + f) 0 [unat (drop_bit 24 w AND 255), unat (drop_bit 16 w AND 255), unat (drop_bit 8 w AND 255), unat (w AND 255)] = unat w"
    unfolding low_byte unat_drop_bit_eq using top by (simp add: drop_bit_eq_div)
  then have "v4_word [unat (drop_bit 24 w AND 255), unat (drop_bit 16 w AND 255), unat (drop_bit 8 w AND 255), unat (w AND 255)] = word_of_nat (unat w)"
    unfolding v4_word_def by (rule arg_cong)
  then show ?thesis by (simp only: unsigned_of_nat of_nat_unat word_unat_eq_iff) simp
qed

lemma nat_str_chars: "c \<in> set (nat_str n) \<Longrightarrow> is_digit c"
proof (induction n rule: nat_str.induct)
  case (1 n)
  then show ?case using is_digit_digit_char [of n] is_digit_digit_char [of "n mod 10"]
    by (subst (asm) (2) nat_str.simps) (auto split: if_splits)
qed

lemma find_skip: "\<forall>c \<in> set xs. \<not> P c \<Longrightarrow> find P (xs @ ys) = find P ys"
  by (induction xs) auto

text \<open>An IPv4 address is read back from its text.\<close>

lemma ParseAddr_v4: "ParseAddr (addr_string (Addr4 w)) = Some (Addr4 w, [])"
proof -
  have "find (\<lambda>c. c \<in> set ''.:%'') (v4_str w) = Some (CHR ''.'')"
    unfolding v4_str_def by (subst find_skip) (auto dest!: nat_str_chars simp: is_digit_def)
  moreover have "octets (v4_str w) = Some [unat (drop_bit 24 w AND 255), unat (drop_bit 16 w AND 255), unat (drop_bit 8 w AND 255), unat (w AND 255)]"
    unfolding v4_str_def by (rule octets_text) (rule byte_le)+
  ultimately show ?thesis by (simp add: ParseAddr_def parseIPv4_def v4_word_text)
qed

end
