(* ===== verification/Schedule_Claims.thy ===== *)
theory Schedule_Claims
  imports Errx "HOL-Library.Multiset"
begin

text \<open>
  What the scheduler reads: the claim of due schedules
  (\<open>internal/collection/adapters/postgres/schedule.go\<close>) and the cache of decrypted credentials in front
  of the vault (\<open>internal/collection/adapters/secrets\<close>). The tables are lists of rows; a statement acts
  at once, and one that reports an error may or may not have been carried out. The random jitter, the
  rows locked by other transactions and the order of the returned rows are parameters.

  Shown: claims take the longest overdue first and at most the limit; one schedule is never claimed
  twice within 95 percent of its interval, whoever claims; and a cached credential is never older than
  the cache's time to live.
\<close>

record schedule =
  sr_ID :: int
  sr_DeviceID :: string
  sr_Family :: string
  sr_IntervalS :: int
  sr_NextDue :: gotime
  sr_LastRun :: "gotime option"
  sr_Enabled :: bool

record poll_device =
  pd_ID :: string
  pd_SiteID :: string
  pd_Status :: string
  pd_MgmtIP :: string
  pd_Port :: "int option"
  pd_ConnectorID :: string
  pd_CredentialID :: string
  pd_ProfileID :: string

record poll_profile =
  pf_ID :: string
  pf_TimeoutMS :: int
  pf_Retries :: int

record poll_db =
  pdb_schedules :: "schedule list"
  pdb_devices :: "poll_device list"
  pdb_profiles :: "poll_profile list"

record DueSchedule =
  d_ScheduleID :: int
  d_DeviceID :: string
  d_SiteID :: string
  d_Family :: string
  d_MgmtIP :: string
  d_Port :: int
  d_ConnectorID :: string
  d_CredentialID :: string
  d_IntervalS :: int
  d_TimeoutMS :: int
  d_Retries :: int

text \<open>An error of the statement: whether it came from \<open>Query\<close> itself, and whether the update took place.\<close>

record claim_env =
  q_locked :: "int \<Rightarrow> bool"
  q_jitter :: "int \<Rightarrow> int"
  q_order :: "DueSchedule list \<Rightarrow> DueSchedule list"
  q_fault :: "(goerr \<times> bool \<times> bool) option"

subsection \<open>Due\<close>

definition device_of :: "poll_db \<Rightarrow> schedule \<Rightarrow> poll_device option" where
  "device_of db ps = find (\<lambda>d. pd_ID d = sr_DeviceID ps) (pdb_devices db)"

definition profile_of :: "poll_db \<Rightarrow> poll_device \<Rightarrow> poll_profile option" where
  "profile_of db d = find (\<lambda>p. pf_ID p = pd_ProfileID d) (pdb_profiles db)"

definition eligible :: "poll_db \<Rightarrow> (int \<Rightarrow> bool) \<Rightarrow> gotime \<Rightarrow> schedule \<Rightarrow> bool" where
  "eligible db locked now ps \<longleftrightarrow> sr_Enabled ps \<and> sr_NextDue ps \<le> now \<and>
     (case device_of db ps of None \<Rightarrow> False | Some d \<Rightarrow> pd_Status d \<in> set [''pending'', ''active'', ''unreachable'']) \<and> \<not> locked (sr_ID ps)"

definition due_ids :: "poll_db \<Rightarrow> (int \<Rightarrow> bool) \<Rightarrow> gotime \<Rightarrow> nat \<Rightarrow> int list" where
  "due_ids db locked now limit = map sr_ID (take limit (sort_key sr_NextDue (filter (eligible db locked now) (pdb_schedules db))))"

definition due_row :: "poll_db \<Rightarrow> schedule \<Rightarrow> DueSchedule option" where
  "due_row db ps = (case device_of db ps of None \<Rightarrow> None | Some d \<Rightarrow>
     (case profile_of db d of None \<Rightarrow> None | Some p \<Rightarrow>
        Some \<lparr>d_ScheduleID = sr_ID ps, d_DeviceID = pd_ID d, d_SiteID = pd_SiteID d, d_Family = sr_Family ps, d_MgmtIP = pd_MgmtIP d,
          d_Port = (case pd_Port d of None \<Rightarrow> 161 | Some p \<Rightarrow> p), d_ConnectorID = pd_ConnectorID d, d_CredentialID = pd_CredentialID d,
          d_IntervalS = sr_IntervalS ps, d_TimeoutMS = pf_TimeoutMS p, d_Retries = pf_Retries p\<rparr>))"

definition claim :: "gotime \<Rightarrow> (int \<Rightarrow> int) \<Rightarrow> schedule \<Rightarrow> schedule" where
  "claim now jitter ps = ps\<lparr>sr_NextDue := now + sr_IntervalS ps * nanos_per_s + jitter (sr_ID ps), sr_LastRun := Some now\<rparr>"

definition claimed :: "claim_env \<Rightarrow> gotime \<Rightarrow> nat \<Rightarrow> poll_db \<Rightarrow> schedule \<Rightarrow> bool" where
  "claimed env now limit db ps \<longleftrightarrow> sr_ID ps \<in> set (due_ids db (q_locked env) now limit) \<and> due_row db ps \<noteq> None"

definition Due :: "claim_env \<Rightarrow> gotime \<Rightarrow> nat \<Rightarrow> poll_db \<Rightarrow> (goerr + DueSchedule list) \<times> poll_db" where
  "Due env now limit db =
     (let db' = db\<lparr>pdb_schedules := map (\<lambda>ps. if claimed env now limit db ps then claim now (q_jitter env) ps else ps) (pdb_schedules db)\<rparr>;
          rows = q_order env (List.map_filter (due_row db) (filter (claimed env now limit db) (pdb_schedules db)))
      in case q_fault env of None \<Rightarrow> (Inr rows, db')
         | Some (e, at_query, acted) \<Rightarrow>
             (Inl (if at_query then KindError KindTransient (ErrMsg ''claim due schedules'' e) else e), if acted then db' else db))"

definition ActiveSites :: "(string list \<Rightarrow> string list) \<Rightarrow> (goerr \<times> bool) option \<Rightarrow> poll_db \<Rightarrow> goerr + string list" where
  "ActiveSites order fault db = (case fault of
       None \<Rightarrow> Inr (order (remdups (map pd_SiteID (filter (\<lambda>d. pd_Status d \<noteq> ''retired'') (pdb_devices db)))))
     | Some (e, at_query) \<Rightarrow> Inl (if at_query then KindError KindTransient (ErrMsg ''active sites'' e) else e))"

subsection \<open>The tables\<close>

text \<open>Primary and foreign keys.\<close>

definition wf_polls :: "poll_db \<Rightarrow> bool" where
  "wf_polls db \<longleftrightarrow> distinct (map sr_ID (pdb_schedules db)) \<and>
     list_all (\<lambda>ps. list_ex (\<lambda>d. pd_ID d = sr_DeviceID ps) (pdb_devices db)) (pdb_schedules db) \<and>
     list_all (\<lambda>d. list_ex (\<lambda>p. pf_ID p = pd_ProfileID d) (pdb_profiles db)) (pdb_devices db)"

lemma find_ex: "list_ex P xs \<Longrightarrow> \<exists>x. find P xs = Some x \<and> x \<in> set xs"
  by (induction xs) auto

lemma due_row_Some: "wf_polls db \<Longrightarrow> ps \<in> set (pdb_schedules db) \<Longrightarrow> \<exists>row. due_row db ps = Some row"
proof -
  assume wf: "wf_polls db" and ps: "ps \<in> set (pdb_schedules db)"
  then have "list_ex (\<lambda>d. pd_ID d = sr_DeviceID ps) (pdb_devices db)" by (auto simp: wf_polls_def list_all_iff)
  from find_ex [OF this] obtain d where d: "device_of db ps = Some d" "d \<in> set (pdb_devices db)" by (auto simp: device_of_def)
  with wf have "list_ex (\<lambda>p. pf_ID p = pd_ProfileID d) (pdb_profiles db)" by (auto simp: wf_polls_def list_all_iff)
  from find_ex [OF this] obtain p where "profile_of db d = Some p" by (auto simp: profile_of_def)
  with d show "\<exists>row. due_row db ps = Some row" by (simp add: due_row_def)
qed

lemma due_row_ID: "due_row db ps = Some row \<Longrightarrow> d_ScheduleID row = sr_ID ps"
  by (auto simp: due_row_def split: option.splits)

lemma map_filter_ids:
  "list_all (\<lambda>ps. due_row db ps \<noteq> None) xs \<Longrightarrow> map d_ScheduleID (List.map_filter (due_row db) xs) = map sr_ID xs"
  by (induction xs) (auto simp: map_filter_simps due_row_ID split: option.splits)

lemma Due_db:
  "snd (Due env now limit db) = db \<or>
   snd (Due env now limit db) = db\<lparr>pdb_schedules := map (\<lambda>ps. if claimed env now limit db ps then claim now (q_jitter env) ps else ps) (pdb_schedules db)\<rparr>"
  by (auto simp: Due_def Let_def split: option.splits)

lemma claim_simps [simp]: "sr_ID (claim now j ps) = sr_ID ps" "sr_DeviceID (claim now j ps) = sr_DeviceID ps"
    "sr_IntervalS (claim now j ps) = sr_IntervalS ps"
  by (simp_all add: claim_def)

lemma Due_ids [simp]: "map sr_ID (pdb_schedules (snd (Due env now limit db))) = map sr_ID (pdb_schedules db)"
  using Due_db [of env now limit db] by (auto simp: comp_def)

lemma wf_Due: "wf_polls db \<Longrightarrow> wf_polls (snd (Due env now limit db))"
  using Due_db [of env now limit db] by (auto simp: wf_polls_def list_all_iff comp_def)

text \<open>The rows a claim returns are rows of the table that were eligible.\<close>

lemma due_ids_eligible:
  assumes "i \<in> set (due_ids db locked now limit)"
  shows "\<exists>ps \<in> set (pdb_schedules db). sr_ID ps = i \<and> eligible db locked now ps"
  using assms by (auto simp: due_ids_def dest!: in_set_takeD)

lemma claimed_eligible:
  assumes "wf_polls db" and "ps \<in> set (pdb_schedules db)" and "claimed env now limit db ps"
  shows "eligible db (q_locked env) now ps"
proof -
  obtain ps' where "ps' \<in> set (pdb_schedules db)" "sr_ID ps' = sr_ID ps" "eligible db (q_locked env) now ps'"
    using assms(3) due_ids_eligible unfolding claimed_def by blast
  moreover have "ps' = ps" using assms(1,2) calculation(1,2) by (auto simp: wf_polls_def distinct_map inj_on_def)
  ultimately show ?thesis by simp
qed

subsection \<open>The longest overdue first\<close>

definition order_ok :: "claim_env \<Rightarrow> bool" where
  "order_ok env \<longleftrightarrow> (\<forall>rows. mset (q_order env rows) = mset rows)"

lemma order_set: "order_ok env \<Longrightarrow> set (q_order env rows) = set rows"
  unfolding order_ok_def by (metis set_mset_mset)

lemma Due_rows:
  assumes "wf_polls db" and "order_ok env" and "fst (Due env now limit db) = Inr rows"
  shows "mset (map d_ScheduleID rows) = mset (map sr_ID (filter (claimed env now limit db) (pdb_schedules db)))"
    and "snd (Due env now limit db) = db\<lparr>pdb_schedules := map (\<lambda>ps. if claimed env now limit db ps then claim now (q_jitter env) ps else ps) (pdb_schedules db)\<rparr>"
proof -
  let ?xs = "filter (claimed env now limit db) (pdb_schedules db)"
  have none: "q_fault env = None" and rows: "rows = q_order env (List.map_filter (due_row db) ?xs)"
    using assms(3) by (auto simp: Due_def Let_def split: option.splits)
  have "map d_ScheduleID (List.map_filter (due_row db) ?xs) = map sr_ID ?xs"
    by (rule map_filter_ids) (simp add: list_all_iff claimed_def)
  then show "mset (map d_ScheduleID rows) = mset (map sr_ID ?xs)"
    using assms(2) rows by (metis mset_map order_ok_def)
  show "snd (Due env now limit db) = db\<lparr>pdb_schedules := map (\<lambda>ps. if claimed env now limit db ps then claim now (q_jitter env) ps else ps) (pdb_schedules db)\<rparr>"
    using none by (simp add: Due_def Let_def)
qed

lemma claimed_iff:
  assumes "wf_polls db" and "ps \<in> set (pdb_schedules db)"
  shows "claimed env now limit db ps \<longleftrightarrow> ps \<in> set (take limit (sort_key sr_NextDue (filter (eligible db (q_locked env) now) (pdb_schedules db))))"
proof -
  let ?S = "take limit (sort_key sr_NextDue (filter (eligible db (q_locked env) now) (pdb_schedules db)))"
  have "set ?S \<subseteq> set (pdb_schedules db)" by (auto dest!: in_set_takeD)
  then have "sr_ID ps \<in> sr_ID ` set ?S \<longleftrightarrow> ps \<in> set ?S"
    using assms by (auto simp: wf_polls_def distinct_map inj_on_def image_iff)
  with due_row_Some [OF assms] show ?thesis by (auto simp: claimed_def due_ids_def)
qed

lemma sorted_take_drop: "sorted (map f xs) \<Longrightarrow> x \<in> set (take n xs) \<Longrightarrow> y \<in> set (drop n xs) \<Longrightarrow> f x \<le> (f y :: 'b :: linorder)"
  using sorted_append [of "map f (take n xs)" "map f (drop n xs)"] by (simp flip: map_append)

text \<open>
  A claim that succeeds takes exactly as many schedules as are due and allowed, up to the limit; each of
  them was enabled, due, unlocked and of a pollable device; and every one passed over is at most as
  overdue as every one taken.
\<close>

theorem Due_oldest_first:
  assumes "wf_polls db" and "order_ok env" and "fst (Due env now limit db) = Inr rows"
  shows "length rows = min limit (length (filter (eligible db (q_locked env) now) (pdb_schedules db))) \<and>
    (\<forall>ps \<in> set (pdb_schedules db). sr_ID ps \<in> d_ScheduleID ` set rows \<longrightarrow> eligible db (q_locked env) now ps) \<and>
    (\<forall>ps \<in> set (pdb_schedules db). \<forall>ps' \<in> set (pdb_schedules db).
       sr_ID ps \<in> d_ScheduleID ` set rows \<and> sr_ID ps' \<notin> d_ScheduleID ` set rows \<and> eligible db (q_locked env) now ps' \<longrightarrow>
       sr_NextDue ps \<le> sr_NextDue ps')"
proof -
  let ?xs = "filter (claimed env now limit db) (pdb_schedules db)"
  define S where "S = sort_key sr_NextDue (filter (eligible db (q_locked env) now) (pdb_schedules db))"
  have dist: "distinct (pdb_schedules db)" using assms(1) by (auto simp: wf_polls_def distinct_map)
  note ids = Due_rows(1) [OF assms]
  have returned: "sr_ID ps \<in> d_ScheduleID ` set rows \<longleftrightarrow> ps \<in> set (take limit S)" if "ps \<in> set (pdb_schedules db)" for ps
  proof -
    have "d_ScheduleID ` set rows = sr_ID ` set ?xs" using ids by (metis set_map set_mset_mset)
    then have "sr_ID ps \<in> d_ScheduleID ` set rows \<longleftrightarrow> claimed env now limit db ps"
      using assms(1) that by (auto simp: wf_polls_def distinct_map inj_on_def image_iff)
    with claimed_iff [OF assms(1) that] show ?thesis by (simp add: S_def)
  qed
  have sub: "set (take limit S) \<subseteq> set (pdb_schedules db)" by (auto simp: S_def dest!: in_set_takeD)
  have "set ?xs = set (take limit S)" using claimed_iff [OF assms(1)] sub unfolding S_def by auto
  then have "length ?xs = length (take limit S)"
    using dist distinct_card [of ?xs] distinct_card [of "take limit S"] by (simp add: S_def)
  moreover have "length rows = length ?xs" using ids by (metis length_map size_mset)
  ultimately have "length rows = min limit (length (filter (eligible db (q_locked env) now) (pdb_schedules db)))"
    by (simp add: S_def min.commute)
  moreover have "eligible db (q_locked env) now ps" if "ps \<in> set (take limit S)" for ps
    using that by (auto simp: S_def dest!: in_set_takeD)
  moreover have "sr_NextDue ps \<le> sr_NextDue ps'"
    if "ps \<in> set (take limit S)" "ps' \<in> set (pdb_schedules db)" "ps' \<notin> set (take limit S)" "eligible db (q_locked env) now ps'" for ps ps'
  proof -
    have "ps' \<in> set S" using that(2,4) by (simp add: S_def)
    then have "ps' \<in> set (drop limit S)" using that(3) by (metis Un_iff append_take_drop_id set_append)
    with that(1) show ?thesis by (rule sorted_take_drop [rotated]) (simp add: S_def)
  qed
  ultimately show ?thesis using returned by blast
qed

subsection \<open>Claims are spaced\<close>

text \<open>The jitter stays within five percent of the interval.\<close>

definition jitter_ok :: "(int \<times> int) set \<Rightarrow> claim_env \<Rightarrow> bool" where
  "jitter_ok ivs env \<longleftrightarrow> (\<forall>(i, secs) \<in> ivs. 20 * \<bar>q_jitter env i\<bar> \<le> secs * nanos_per_s)"

definition intervals :: "poll_db \<Rightarrow> (int \<times> int) set" where
  "intervals db = set (map (\<lambda>ps. (sr_ID ps, sr_IntervalS ps)) (pdb_schedules db))"

lemma Due_intervals [simp]: "intervals (snd (Due env now limit db)) = intervals db"
proof -
  have "map (\<lambda>ps. (sr_ID ps, sr_IntervalS ps)) (pdb_schedules (snd (Due env now limit db))) = map (\<lambda>ps. (sr_ID ps, sr_IntervalS ps)) (pdb_schedules db)"
    using Due_db [of env now limit db] by (auto simp: comp_def)
  then show ?thesis by (simp only: intervals_def)
qed

definition next_from :: "int \<Rightarrow> int \<Rightarrow> poll_db \<Rightarrow> bool" where
  "next_from m i db \<longleftrightarrow> (\<forall>ps \<in> set (pdb_schedules db). sr_ID ps = i \<longrightarrow> m \<le> 20 * sr_NextDue ps)"

lemma claim_next:
  assumes "jitter_ok (intervals db) env" and "ps \<in> set (pdb_schedules db)"
  shows "20 * now + 19 * (sr_IntervalS ps * nanos_per_s) \<le> 20 * sr_NextDue (claim now (q_jitter env) ps)" and "0 \<le> sr_IntervalS ps"
proof -
  have "20 * \<bar>q_jitter env (sr_ID ps)\<bar> \<le> sr_IntervalS ps * nanos_per_s"
    using assms by (auto simp: jitter_ok_def intervals_def)
  then show "20 * now + 19 * (sr_IntervalS ps * nanos_per_s) \<le> 20 * sr_NextDue (claim now (q_jitter env) ps)" "0 \<le> sr_IntervalS ps"
    by (auto simp: claim_def nanos_per_s_def)
qed

lemma next_from_Due:
  assumes "wf_polls db" and "jitter_ok (intervals db) env" and "next_from m i db"
  shows "next_from m i (snd (Due env now limit db))"
proof -
  have "m \<le> 20 * sr_NextDue (claim now (q_jitter env) ps)"
    if "ps \<in> set (pdb_schedules db)" "claimed env now limit db ps" "sr_ID ps = i" for ps
  proof -
    have "sr_NextDue ps \<le> now" using claimed_eligible [OF assms(1) that(1,2)] by (simp add: eligible_def)
    moreover have "m \<le> 20 * sr_NextDue ps" using assms(3) that by (simp add: next_from_def)
    moreover have "0 \<le> sr_IntervalS ps * nanos_per_s" using claim_next(2) [OF assms(2) that(1)] by (simp add: nanos_per_s_def)
    ultimately show ?thesis using claim_next(1) [OF assms(2) that(1), of now] by linarith
  qed
  with assms(3) Due_db [of env now limit db] show ?thesis by (auto simp: next_from_def)
qed

lemma Due_keeps:
  assumes "Due env now limit db = (res, db')" and "wf_polls db" and "jitter_ok (intervals db) env"
  shows "wf_polls db'" and "intervals db' = intervals db" and "next_from m i db \<Longrightarrow> next_from m i db'"
  using wf_Due [OF assms(2), of env now limit] Due_intervals [of env now limit db] next_from_Due [OF assms(2,3), of m i now limit]
  unfolding assms(1) by simp_all

primrec claim_run :: "(claim_env \<times> gotime \<times> nat) list \<Rightarrow> poll_db \<Rightarrow> (gotime \<times> int list) list" where
  "claim_run [] db = []"
| "claim_run (x # xs) db = (case x of (env, now, limit) \<Rightarrow> case Due env now limit db of (res, db') \<Rightarrow>
     (now, case res of Inl e \<Rightarrow> [] | Inr rows \<Rightarrow> map d_ScheduleID rows) # claim_run xs db')"

lemma returned_claimed:
  assumes "wf_polls db" and "order_ok env" and "Due env now limit db = (res, db')"
    and "i \<in> set (case res of Inl e \<Rightarrow> [] | Inr rows \<Rightarrow> map d_ScheduleID rows)"
  obtains ps where "ps \<in> set (pdb_schedules db)" "sr_ID ps = i" "claimed env now limit db ps"
    "db' = db\<lparr>pdb_schedules := map (\<lambda>ps. if claimed env now limit db ps then claim now (q_jitter env) ps else ps) (pdb_schedules db)\<rparr>"
proof -
  obtain rows where rows: "fst (Due env now limit db) = Inr rows" "i \<in> set (map d_ScheduleID rows)"
    using assms(3,4) by (cases res) auto
  have "i \<in> set (map sr_ID (filter (claimed env now limit db) (pdb_schedules db)))"
    using Due_rows(1) [OF assms(1,2) rows(1)] rows(2) by (metis set_mset_mset)
  then obtain ps where "ps \<in> set (pdb_schedules db)" "sr_ID ps = i" "claimed env now limit db ps" by auto
  with Due_rows(2) [OF assms(1,2) rows(1)] assms(3) show ?thesis by (auto intro!: that)
qed

lemma claim_run_after:
  assumes "list_all (\<lambda>(env, now, limit). jitter_ok (intervals db) env \<and> order_ok env) xs" and "wf_polls db"
    and "next_from m i db" and "j < length xs" and "i \<in> set (snd (claim_run xs db ! j))"
  shows "m \<le> 20 * fst (claim_run xs db ! j)"
  using assms
proof (induction xs arbitrary: db j)
  case (Cons x xs)
  obtain env now limit where x: "x = (env, now, limit)" by (metis prod_cases3)
  obtain res db' where due: "Due env now limit db = (res, db')" by force
  have ok: "jitter_ok (intervals db) env" "order_ok env" using Cons.prems(1) x by simp_all
  note after = Due_keeps [OF due Cons.prems(2) ok(1)]
  show ?case
  proof (cases j)
    case 0
    with Cons.prems(5) x due have mem: "i \<in> set (case res of Inl e \<Rightarrow> [] | Inr rows \<Rightarrow> map d_ScheduleID rows)" by simp
    obtain ps where ps: "ps \<in> set (pdb_schedules db)" "sr_ID ps = i" "claimed env now limit db ps"
      using returned_claimed [OF Cons.prems(2) ok(2) due mem] by metis
    then have "sr_NextDue ps \<le> now" using claimed_eligible [OF Cons.prems(2)] by (simp add: eligible_def)
    with Cons.prems(3) ps have "m \<le> 20 * now" by (fastforce simp: next_from_def)
    with 0 x due show ?thesis by simp
  next
    case (Suc j')
    have "m \<le> 20 * fst (claim_run xs db' ! j')"
      using Cons.prems Suc x due by (intro Cons.IH) (simp_all add: after)
    with Suc x due show ?thesis by simp
  qed
qed simp

text \<open>
  No schedule is booked twice: whatever instances claim, with whatever limits, failures and locked rows,
  two claims that return the same schedule lie at least 95 percent of its interval apart.
\<close>

theorem claims_spaced:
  assumes "wf_polls db" and "list_all (\<lambda>(env, now, limit). jitter_ok (intervals db) env \<and> order_ok env) xs"
    and "(i, secs) \<in> intervals db" and "j < k" and "k < length xs"
    and "i \<in> set (snd (claim_run xs db ! j))" and "i \<in> set (snd (claim_run xs db ! k))"
  shows "19 * (secs * nanos_per_s) \<le> 20 * (fst (claim_run xs db ! k) - fst (claim_run xs db ! j))"
  using assms
proof (induction xs arbitrary: db j k)
  case (Cons x xs)
  obtain env now limit where x: "x = (env, now, limit)" by (metis prod_cases3)
  obtain res db' where due: "Due env now limit db = (res, db')" by force
  have ok: "jitter_ok (intervals db) env" "order_ok env" using Cons.prems(2) x by simp_all
  note after = Due_keeps [OF due Cons.prems(1) ok(1)]
  obtain k' where k: "k = Suc k'" using Cons.prems(4) by (cases k) auto
  have rest: "wf_polls db'" "list_all (\<lambda>(env, now, limit). jitter_ok (intervals db') env \<and> order_ok env) xs" "k' < length xs"
    "i \<in> set (snd (claim_run xs db' ! k'))" using Cons.prems x due k by (simp_all add: after)
  show ?case
  proof (cases j)
    case 0
    with Cons.prems(6) x due have mem: "i \<in> set (case res of Inl e \<Rightarrow> [] | Inr rows \<Rightarrow> map d_ScheduleID rows)" by simp
    obtain ps where ps: "ps \<in> set (pdb_schedules db)" "sr_ID ps = i" "claimed env now limit db ps"
        "db' = db\<lparr>pdb_schedules := map (\<lambda>ps. if claimed env now limit db ps then claim now (q_jitter env) ps else ps) (pdb_schedules db)\<rparr>"
      by (rule returned_claimed [OF Cons.prems(1) ok(2) due mem])
    have one: "q \<in> set (pdb_schedules db) \<Longrightarrow> sr_ID q = i \<Longrightarrow> q = ps" for q
      using Cons.prems(1) ps(1,2) by (auto simp: wf_polls_def distinct_map inj_on_def)
    then have secs: "sr_IntervalS ps = secs" using Cons.prems(3) by (auto simp: intervals_def)
    have "next_from (20 * now + 19 * (secs * nanos_per_s)) i db'"
      using claim_next(1) [OF ok(1) ps(1), of now] one ps(3,4) secs by (auto simp: next_from_def)
    from claim_run_after [OF rest(2,1) this rest(3,4)] 0 x due k show ?thesis by simp
  next
    case (Suc j')
    have "19 * (secs * nanos_per_s) \<le> 20 * (fst (claim_run xs db' ! k') - fst (claim_run xs db' ! j'))"
      using Cons.prems Suc k x due rest by (intro Cons.IH) (simp_all add: after)
    with Suc k x due show ?thesis by simp
  qed
qed simp

subsection \<open>A concrete table\<close>

definition demo_sched :: "int \<Rightarrow> gotime \<Rightarrow> schedule" where
  "demo_sched i next_due = \<lparr>sr_ID = i, sr_DeviceID = ''d'', sr_Family = ''icmp'', sr_IntervalS = 60, sr_NextDue = next_due, sr_LastRun = None, sr_Enabled = True\<rparr>"

definition demo_polls :: poll_db where
  "demo_polls = \<lparr>pdb_schedules = [demo_sched 1 5, demo_sched 2 3, demo_sched 3 100],
     pdb_devices = [\<lparr>pd_ID = ''d'', pd_SiteID = ''s'', pd_Status = ''active'', pd_MgmtIP = ''192.0.2.1'', pd_Port = None,
       pd_ConnectorID = ''c'', pd_CredentialID = ''k'', pd_ProfileID = ''p''\<rparr>],
     pdb_profiles = [\<lparr>pf_ID = ''p'', pf_TimeoutMS = 2000, pf_Retries = 1\<rparr>]\<rparr>"

definition demo_claim :: claim_env where
  "demo_claim = \<lparr>q_locked = (\<lambda>i. False), q_jitter = (\<lambda>i. 0), q_order = (\<lambda>rows. rows), q_fault = None\<rparr>"

lemmas demo_polls_simps = demo_polls_def demo_sched_def demo_claim_def eligible_def device_of_def profile_of_def due_row_def claimed_def due_ids_def
  Due_def Let_def map_filter_simps claim_def nanos_per_s_def

lemma demo_polls_wf: "wf_polls demo_polls" and demo_order: "order_ok demo_claim"
  by (simp_all add: wf_polls_def demo_polls_def demo_sched_def order_ok_def demo_claim_def)

theorem Due_oldest_first_witness:
  "\<exists>rows. fst (Due demo_claim 10 1 demo_polls) = Inr rows \<and> length rows = 1 \<and> d_ScheduleID ` set rows = {2}"
proof -
  obtain rows where r: "fst (Due demo_claim 10 1 demo_polls) = Inr rows" "d_ScheduleID ` set rows = {2}"
    by (simp add: demo_polls_simps)
  have "filter (eligible demo_polls (q_locked demo_claim) 10) (pdb_schedules demo_polls) = [demo_sched 1 5, demo_sched 2 3]"
    by (simp add: demo_polls_simps)
  with Due_oldest_first [OF demo_polls_wf demo_order r(1)] r show ?thesis by auto
qed

theorem claims_spaced_witness:
  "19 * 60 * 1000000000 \<le> 20 * (fst (claim_run [(demo_claim, 10, 5), (demo_claim, 70000000000, 5)] demo_polls ! 1) -
     fst (claim_run [(demo_claim, 10, 5), (demo_claim, 70000000000, 5)] demo_polls ! 0))"
proof -
  have ivs: "intervals demo_polls = {(1, 60), (2, 60), (3, 60)}" by (simp add: intervals_def demo_polls_def demo_sched_def)
  have ok: "list_all (\<lambda>(env, now, limit). jitter_ok (intervals demo_polls) env \<and> order_ok env) [(demo_claim, 10, 5), (demo_claim, 70000000000, 5)]"
    by (simp add: jitter_ok_def ivs demo_order) (simp add: demo_claim_def nanos_per_s_def)
  define db where "db = demo_polls\<lparr>pdb_schedules := [(demo_sched 1 60000000010)\<lparr>sr_LastRun := Some 10\<rparr>, (demo_sched 2 60000000010)\<lparr>sr_LastRun := Some 10\<rparr>, demo_sched 3 100]\<rparr>"
  obtain rows where "Due demo_claim 10 5 demo_polls = (Inr rows, db)" "map d_ScheduleID rows = [1, 2]"
    by (simp add: demo_polls_simps db_def)
  moreover obtain rows' db' where "Due demo_claim 70000000000 5 db = (Inr rows', db')" "map d_ScheduleID rows' = [1, 2, 3]"
    by (simp add: demo_polls_simps db_def)
  ultimately have runs: "claim_run [(demo_claim, 10, 5), (demo_claim, 70000000000, 5)] demo_polls = [(10, [1, 2]), (70000000000, [1, 2, 3])]"
    by simp
  show ?thesis
    using claims_spaced [OF demo_polls_wf ok, of 1 60 0 1] unfolding runs by (simp add: ivs nanos_per_s_def)
qed

subsection \<open>Credentials\<close>

record SNMPCred =
  sc_Version :: string
  sc_Community :: string
  sc_Username :: string
  sc_AuthProto :: string
  sc_AuthPass :: string
  sc_PrivProto :: string
  sc_PrivPass :: string
  sc_Context :: string

record Secret =
  se_Community :: string
  se_Username :: string
  se_AuthProtocol :: string
  se_AuthPassword :: string
  se_PrivProtocol :: string
  se_PrivPassword :: string
  se_Context :: string

definition SNMPv2c :: string where "SNMPv2c = ''snmp_v2c''"

definition toWire :: "string \<Rightarrow> Secret \<Rightarrow> SNMPCred" where
  "toWire kind s = (if kind = SNMPv2c
     then \<lparr>sc_Version = ''v2c'', sc_Community = se_Community s, sc_Username = [], sc_AuthProto = [], sc_AuthPass = [], sc_PrivProto = [],
       sc_PrivPass = [], sc_Context = []\<rparr>
     else \<lparr>sc_Version = ''v3'', sc_Community = [], sc_Username = se_Username s, sc_AuthProto = se_AuthProtocol s, sc_AuthPass = se_AuthPassword s,
       sc_PrivProto = se_PrivProtocol s, sc_PrivPass = se_PrivPassword s, sc_Context = se_Context s\<rparr>)"

text \<open>The vault: the kind of a credential and its secret.\<close>

record vault =
  v_Get :: "string \<Rightarrow> goerr + string"
  v_Decrypt :: "string \<Rightarrow> goerr + Secret"

record Resolver =
  rv_TTL :: int
  rv_cache :: "(string, SNMPCred \<times> gotime) gomap"

text \<open>The clock is read at the lookup and again when the answer is stored.\<close>

definition Resolve_cred :: "vault \<Rightarrow> gotime \<Rightarrow> gotime \<Rightarrow> string \<Rightarrow> Resolver \<Rightarrow> (goerr + SNMPCred) \<times> Resolver" where
  "Resolve_cred v t1 t2 cid r0 =
     (let r = (if rv_TTL r0 = 0 then r0\<lparr>rv_TTL := nanos_per_min\<rparr> else r0);
          fetch = (case v_Get v cid of Inl e \<Rightarrow> (Inl e, r) | Inr kind \<Rightarrow>
            (case v_Decrypt v cid of Inl e \<Rightarrow> (Inl e, r) | Inr secret \<Rightarrow>
               let cred = toWire kind secret in (Inr cred, r\<lparr>rv_cache := AList.update cid (cred, t2) (rv_cache r)\<rparr>)))
      in case map_of (rv_cache r) cid of
           Some (cred, at) \<Rightarrow> if time_sub t1 at < rv_TTL r then (Inr cred, r) else fetch
         | None \<Rightarrow> fetch)"

text \<open>What the vault itself answers.\<close>

definition vault_cred :: "vault \<Rightarrow> string \<Rightarrow> goerr + SNMPCred" where
  "vault_cred v cid = (case v_Get v cid of Inl e \<Rightarrow> Inl e | Inr kind \<Rightarrow> map_sum id (toWire kind) (v_Decrypt v cid))"

primrec resolve_run :: "(vault \<times> gotime \<times> gotime \<times> string) list \<Rightarrow> Resolver \<Rightarrow> (goerr + SNMPCred) list" where
  "resolve_run [] r = []"
| "resolve_run (x # xs) r = (case x of (v, t1, t2, cid) \<Rightarrow> case Resolve_cred v t1 t2 cid r of (res, r) \<Rightarrow> res # resolve_run xs r)"

text \<open>Where an answer came from: the vault now, or a call for the same credential within the time to live.\<close>

definition fresh_from :: "(vault \<times> gotime \<times> gotime \<times> string) list \<Rightarrow> int \<Rightarrow> vault \<times> gotime \<times> gotime \<times> string \<Rightarrow> goerr + SNMPCred \<Rightarrow> bool" where
  "fresh_from past ttl x res \<longleftrightarrow> (case x of (v, t1, t2, cid) \<Rightarrow>
     res = vault_cred v cid \<or> list_ex (\<lambda>(v', t1', t2', cid'). cid' = cid \<and> vault_cred v' cid = res \<and> t1 - t2' < ttl) past)"

definition cache_from :: "(vault \<times> gotime \<times> gotime \<times> string) list \<Rightarrow> Resolver \<Rightarrow> bool" where
  "cache_from past r \<longleftrightarrow> (\<forall>cid cred at. map_of (rv_cache r) cid = Some (cred, at) \<longrightarrow>
     list_ex (\<lambda>(v', t1', t2', cid'). cid' = cid \<and> vault_cred v' cid = Inr cred \<and> t2' = at) past)"

lemma time_sub_less: "ttl < 2 ^ 63 \<Longrightarrow> time_sub a b < ttl \<Longrightarrow> a - b < ttl"
  by (auto simp: time_sub_def)

lemma Resolve_effect:
  assumes "Resolve_cred v t1 t2 cid r = (res, r')" and "rv_TTL r \<in> {0, nanos_per_min}" and "cache_from past r"
  shows "fresh_from past nanos_per_min (v, t1, t2, cid) res" and "cache_from (past @ [(v, t1, t2, cid)]) r'" and "rv_TTL r' = nanos_per_min"
proof -
  let ?r = "if rv_TTL r = 0 then r\<lparr>rv_TTL := nanos_per_min\<rparr> else r"
  have ttl: "rv_TTL ?r = nanos_per_min" and cache: "rv_cache ?r = rv_cache r" using assms(2) by auto
  have keep: "cache_from (past @ [x]) ?r" for x using assms(3) by (auto simp: cache_from_def)
  consider (hit) cred at where "map_of (rv_cache r) cid = Some (cred, at)" "time_sub t1 at < nanos_per_min" "res = Inr cred" "r' = ?r"
    | (miss) e where "res = Inl e" "vault_cred v cid = Inl e" "r' = ?r"
    | (got) cred where "res = Inr cred" "vault_cred v cid = Inr cred" "r' = ?r\<lparr>rv_cache := AList.update cid (cred, t2) (rv_cache r)\<rparr>"
    using assms(1) ttl cache unfolding Resolve_cred_def vault_cred_def Let_def
    by (auto split: option.splits if_splits sum.splits prod.splits)
  then have "fresh_from past nanos_per_min (v, t1, t2, cid) res \<and> cache_from (past @ [(v, t1, t2, cid)]) r' \<and> rv_TTL r' = nanos_per_min"
  proof cases
    case hit
    then have "t1 - at < nanos_per_min" by (intro time_sub_less) (simp_all add: nanos_per_min_def)
    with hit assms(3) keep ttl show ?thesis by (fastforce simp: cache_from_def fresh_from_def list_ex_iff)
  next
    case miss
    with keep ttl show ?thesis by (simp add: fresh_from_def)
  next
    case got
    with assms(3) ttl show ?thesis by (auto simp: fresh_from_def cache_from_def update_conv' split: if_splits)
  qed
  then show "fresh_from past nanos_per_min (v, t1, t2, cid) res" "cache_from (past @ [(v, t1, t2, cid)]) r'" "rv_TTL r' = nanos_per_min"
    by blast+
qed

text \<open>
  A credential is never served stale: from an empty cache with the default time to live, every call
  returns what the vault answers at that moment, errors included, or what it answered for the same
  credential to a call whose answer was stored less than a minute before.
\<close>

theorem resolver_staleness:
  assumes "k < length xs"
  shows "fresh_from (take k xs) nanos_per_min (xs ! k) (resolve_run xs \<lparr>rv_TTL = 0, rv_cache = []\<rparr> ! k)"
proof -
  have "fresh_from (past @ take k xs) nanos_per_min (xs ! k) (resolve_run xs r ! k)"
    if "k < length xs" "cache_from past r" "rv_TTL r \<in> {0, nanos_per_min}" for past r
    using that
  proof (induction xs arbitrary: k past r)
    case (Cons x xs)
    obtain v t1 t2 cid where x: "x = (v, t1, t2, cid)" by (metis prod_cases4)
    obtain res r' where e: "Resolve_cred v t1 t2 cid r = (res, r')" by force
    note eff = Resolve_effect [OF e Cons.prems(3,2)]
    show ?case
    proof (cases k)
      case 0
      with eff(1) x e show ?thesis by simp
    next
      case (Suc k')
      with Cons.IH [OF _ eff(2), of k'] eff(3) Cons.prems(1) x e show ?thesis by simp
    qed
  qed simp
  from this [of "[]"] assms show ?thesis by (simp add: cache_from_def)
qed

theorem resolver_staleness_witness:
  "fresh_from [(\<lparr>v_Get = (\<lambda>c. Inr SNMPv2c), v_Decrypt = (\<lambda>c. Inl (ErrLeaf ''down''))\<rparr>, 1, 2, ''k'')] nanos_per_min
     (\<lparr>v_Get = (\<lambda>c. Inl (ErrLeaf ''gone'')), v_Decrypt = (\<lambda>c. Inl (ErrLeaf ''down''))\<rparr>, 3, 4, ''k'')
     (resolve_run [(\<lparr>v_Get = (\<lambda>c. Inr SNMPv2c), v_Decrypt = (\<lambda>c. Inl (ErrLeaf ''down''))\<rparr>, 1, 2, ''k''),
       (\<lparr>v_Get = (\<lambda>c. Inl (ErrLeaf ''gone'')), v_Decrypt = (\<lambda>c. Inl (ErrLeaf ''down''))\<rparr>, 3, 4, ''k'')] \<lparr>rv_TTL = 0, rv_cache = []\<rparr> ! 1)"
  using resolver_staleness [of 1 "[(\<lparr>v_Get = (\<lambda>c. Inr SNMPv2c), v_Decrypt = (\<lambda>c. Inl (ErrLeaf ''down''))\<rparr>, 1, 2, ''k''),
       (\<lparr>v_Get = (\<lambda>c. Inl (ErrLeaf ''gone'')), v_Decrypt = (\<lambda>c. Inl (ErrLeaf ''down''))\<rparr>, 3, 4, ''k'')]"]
  by (simp del: resolve_run.simps)

end
