(* ===== verification/Discovery_Sweep.thy ===== *)
theory Discovery_Sweep
  imports Net_Text Schedule_Claims
begin

unbundle bit_operations_syntax

text \<open>
  The subnet sweep a poller runs (\<open>internal/collection/pollerrt/discovery.go\<close>). Parameters: the SNMP exchange
  with a host and the order in which concurrent probes finish. Shown: a sweep asks exactly the usable
  hosts of its prefix and never more than 4096.
\<close>

subsection \<open>The sweep\<close>

definition discoveryMaxHosts :: nat where "discoveryMaxHosts = 4096"

text \<open>The addresses from the \<open>i\<close>-th on, \<open>n\<close> of them left.\<close>

primrec expand_loop :: "nat \<Rightarrow> nat \<Rightarrow> int \<Rightarrow> nat \<Rightarrow> Addr \<Rightarrow> string list" where
  "expand_loop 0 tot bits i addr = []"
| "expand_loop (Suc n) tot bits i addr =
     (if (0 < i \<or> 31 \<le> bits) \<and> \<not> (bits < 31 \<and> i = tot - 1) then [addr_string addr] else []) @
     expand_loop n tot bits (i + 1) (addr_next addr)"

definition expandCIDR :: "string \<Rightarrow> string + string list" where
  "expandCIDR cidr = (case ParsePrefix cidr of None \<Rightarrow> Inl ''invalid prefix''
     | Some p \<Rightarrow>
         let p = Masked p in
         case pfx_ip p of Addr4 w \<Rightarrow>
           (let tot = 2 ^ (32 - nat (pfx_bits p)) in
            if discoveryMaxHosts + 2 < tot then Inl ''prefix too large: max /20 (4096 hosts) per sweep''
            else Inr (expand_loop tot tot (pfx_bits p) 0 (Addr4 w)))
         | _ \<Rightarrow> Inl ''only IPv4 prefixes are supported'')"

record NamedCred =
  nc_CredentialID :: string
  nc_Name :: string
  nc_Cred :: SNMPCred

record DiscoveryJob =
  dj_JobID :: string
  dj_RuleID :: string
  dj_SiteID :: string
  dj_CIDR :: string
  dj_Port :: int
  dj_Creds :: "NamedCred list"
  dj_TimeoutMS :: int

record DiscoveredHost =
  dh_IP :: string
  dh_SysName :: string
  dh_SysDescr :: string
  dh_SysObjectID :: string
  dh_CredentialID :: string

record DiscoveryResult =
  ds_JobID :: string
  ds_RuleID :: string
  ds_PollerID :: string
  ds_Scanned :: nat
  ds_Found :: "DiscoveredHost list"
  ds_Error :: string

text \<open>A value of an SNMP answer: bytes, a string, a whole PDU, a value that prints itself, or another.\<close>

datatype snmp_value = VBytes string | VString string | VPDU | VStringer string | VOther

fun snmpString :: "snmp_value \<Rightarrow> string" where
  "snmpString (VBytes s) = s"
| "snmpString (VString s) = s"
| "snmpString VPDU = []"
| "snmpString (VStringer s) = s"
| "snmpString VOther = []"

definition put_var :: "DiscoveredHost \<Rightarrow> string \<times> snmp_value \<Rightarrow> DiscoveredHost" where
  "put_var h v =
     (if fst v = ''.1.3.6.1.2.1.1.5.0'' then h\<lparr>dh_SysName := snmpString (snd v)\<rparr>
      else if fst v = ''.1.3.6.1.2.1.1.1.0'' then h\<lparr>dh_SysDescr := snmpString (snd v)\<rparr>
      else if fst v = ''.1.3.6.1.2.1.1.2.0'' then h\<lparr>dh_SysObjectID := snmpString (snd v)\<rparr>
      else h)"

text \<open>Opening a session and reading the system group: an error, or the variables of the answer.\<close>

type_synonym snmp_get = "string \<Rightarrow> int \<Rightarrow> int \<Rightarrow> SNMPCred \<Rightarrow> goerr + (string \<times> snmp_value) list"

primrec probeHost :: "snmp_get \<Rightarrow> string \<Rightarrow> int \<Rightarrow> int \<Rightarrow> NamedCred list \<Rightarrow> DiscoveredHost option" where
  "probeHost get ip port timeout [] = None"
| "probeHost get ip port timeout (c # cs) = (case get ip port timeout (nc_Cred c) of
     Inl e \<Rightarrow> probeHost get ip port timeout cs
   | Inr vars \<Rightarrow>
       if vars = [] then probeHost get ip port timeout cs
       else let h = foldl put_var \<lparr>dh_IP = ip, dh_SysName = [], dh_SysDescr = [], dh_SysObjectID = [], dh_CredentialID = nc_CredentialID c\<rparr> vars in
         if dh_SysName h = [] \<and> dh_SysDescr h = [] then probeHost get ip port timeout cs else Some h)"

text \<open>
  The sweep and what it publishes. \<open>stop\<close> is the number of hosts started when the context was cancelled,
  if it was; \<open>order\<close> the order in which the probes finished.
\<close>

definition executeDiscovery :: "string \<Rightarrow> snmp_get \<Rightarrow> nat option \<Rightarrow> (DiscoveredHost list \<Rightarrow> DiscoveredHost list) \<Rightarrow> DiscoveryJob \<Rightarrow> DiscoveryResult" where
  "executeDiscovery pollerID get stop order job =
     (let res = \<lparr>ds_JobID = dj_JobID job, ds_RuleID = dj_RuleID job, ds_PollerID = pollerID, ds_Scanned = 0, ds_Found = [], ds_Error = []\<rparr> in
      case expandCIDR (dj_CIDR job) of Inl e \<Rightarrow> res\<lparr>ds_Error := e\<rparr>
      | Inr hosts \<Rightarrow>
          let timeout = (if dj_TimeoutMS job \<le> 0 then 1500 else dj_TimeoutMS job);
              port = (if dj_Port job = 0 then 161 else dj_Port job);
              started = (case stop of None \<Rightarrow> hosts | Some k \<Rightarrow> take k hosts);
              found = order (List.map_filter (\<lambda>ip. probeHost get ip port timeout (dj_Creds job)) started)
          in res\<lparr>ds_Scanned := length hosts, ds_Found := found,
                 ds_Error := (case stop of Some k \<Rightarrow> if k < length hosts then ''cancelled'' else [] | None \<Rightarrow> [])\<rparr>)"

subsection \<open>Which hosts a sweep asks\<close>

lemma addr_string_v4_inject: "addr_string (Addr4 a) = addr_string (Addr4 b) \<longleftrightarrow> a = b"
  by (metis ParseAddr_v4 Addr.inject(1) prod.inject option.inject)

lemma unat_drop: "unat (drop_bit k (w :: u32)) = unat w div 2 ^ k"
  unfolding unat_drop_bit_eq by (rule drop_bit_eq_div)

lemma unat_and_not_mask: "unat (w AND NOT (mask k) :: u32) = unat w - unat w mod 2 ^ k"
proof -
  have "w AND NOT (mask k) = push_bit k (drop_bit k w)"
    by (rule bit_word_eqI) (auto simp: bit_simps)
  then have "unat (w AND NOT (mask k)) = take_bit (LENGTH(32)) (push_bit k (unat (drop_bit k w)))"
    by (simp only: unsigned_push_bit_eq)
  also have "\<dots> = unat (drop_bit k w) * 2 ^ k mod 2 ^ 32"
    by (simp add: take_bit_eq_mod push_bit_eq_mult)
  also have "\<dots> = unat w div 2 ^ k * 2 ^ k"
  proof -
    have "unat w div 2 ^ k * 2 ^ k \<le> unat w" by simp
    also have "\<dots> < 2 ^ 32" using unsigned_less [of w, where ?'a = nat] by simp
    finally show ?thesis by (simp add: unat_drop)
  qed
  finally show ?thesis by (simp add: minus_mod_eq_div_mult)
qed

lemma addr_next_v4: "unat w + 1 < 2 ^ 32 \<Longrightarrow> addr_next (Addr4 w) = Addr4 (w + 1)"
  by (auto simp: word_unat_eq_iff unat_word_ariths)

lemma expand_loop_map:
  assumes "unat w + i + n \<le> 2 ^ 32"
  shows "expand_loop n tot bits i (Addr4 (w + word_of_nat i)) =
    map (\<lambda>j. addr_string (Addr4 (w + word_of_nat j))) (filter (\<lambda>j. (0 < j \<or> 31 \<le> bits) \<and> \<not> (bits < 31 \<and> j = tot - 1)) [i..<i + n])"
  using assms
proof (induction n arbitrary: i)
  case (Suc n)
  show ?case
  proof (cases n)
    case 0
    then show ?thesis by simp
  next
    case (Suc m)
    have "unat (w + word_of_nat i) = unat w + i"
      using Suc.prems by (simp add: unat_word_ariths unsigned_of_nat take_bit_eq_mod)
    then have "addr_next (Addr4 (w + word_of_nat i)) = Addr4 (w + word_of_nat (i + 1))"
      using Suc.prems \<open>n = Suc m\<close> addr_next_v4 [of "w + word_of_nat i"] by (simp add: add.assoc add.commute)
    with Suc.IH [of "i + 1"] Suc.prems show ?thesis by (simp add: upt_conv_Cons del: addr_next.simps upt_Suc)
  qed
qed simp

text \<open>The addresses of a prefix, counted from its network address.\<close>

lemma block_end: "k \<le> 32 \<Longrightarrow> unat (v AND NOT (mask k) :: u32) + 2 ^ k \<le> 2 ^ 32"
proof -
  assume k: "k \<le> 32"
  have "unat v < 2 ^ k * 2 ^ (32 - k)" using unsigned_less [of v, where ?'a = nat] k by (simp add: power_add [symmetric])
  then have "unat v div 2 ^ k < 2 ^ (32 - k)" by (simp add: less_mult_imp_div_less mult.commute)
  then have "(unat v div 2 ^ k + 1) * 2 ^ k \<le> 2 ^ (32 - k) * 2 ^ k" by (intro mult_right_mono) simp_all
  with k show ?thesis by (simp add: unat_and_not_mask minus_mod_eq_div_mult algebra_simps power_add [symmetric])
qed

lemma block_members:
  assumes "k \<le> 32"
  shows "drop_bit k a = drop_bit k (v :: u32) \<longleftrightarrow> (\<exists>i < 2 ^ k. a = (v AND NOT (mask k)) + word_of_nat i)"
proof -
  let ?b = "v AND NOT (mask k)"
  have b: "unat ?b = unat v div 2 ^ k * 2 ^ k" by (simp add: unat_and_not_mask minus_mod_eq_div_mult)
  have sum: "unat (?b + word_of_nat i) = unat ?b + i" if "i < 2 ^ k" for i
    using block_end [OF assms, of v] that by (simp add: unat_word_ariths unsigned_of_nat take_bit_eq_mod)
  have "drop_bit k a = drop_bit k v \<longleftrightarrow> unat a div 2 ^ k = unat v div 2 ^ k"
    by (simp only: word_unat_eq_iff unat_drop)
  also have "\<dots> \<longleftrightarrow> (\<exists>i < 2 ^ k. unat a = unat v div 2 ^ k * 2 ^ k + i)"
  proof
    assume "unat a div 2 ^ k = unat v div 2 ^ k"
    with div_mult_mod_eq [of "unat a" "2 ^ k"] show "\<exists>i < 2 ^ k. unat a = unat v div 2 ^ k * 2 ^ k + i"
      by (intro exI [of _ "unat a mod 2 ^ k"]) simp
  qed auto
  also have "\<dots> \<longleftrightarrow> (\<exists>i < 2 ^ k. a = ?b + word_of_nat i)" using sum b by (metis word_unat_eq_iff)
  finally show ?thesis .
qed

lemma block_ends:
  assumes "k \<le> 32"
  shows "(v OR mask k :: u32) = (v AND NOT (mask k)) + word_of_nat (2 ^ k - 1)"
proof -
  have "(v AND NOT (mask k)) + mask k = (v AND NOT (mask k)) OR mask k"
    by (rule disjunctive_add) (auto simp: bit_simps)
  also have "\<dots> = v OR mask k" by (rule bit_word_eqI) (auto simp: bit_simps)
  finally show ?thesis by (simp add: mask_eq_exp_minus_1 of_nat_diff)
qed

text \<open>The hosts of an IPv4 prefix: all its addresses, without the first and the last if it is a real subnet.\<close>

definition usable :: "u32 \<Rightarrow> int \<Rightarrow> u32 set" where
  "usable v n = {a. prefix_contains (Pfx (Addr4 v) n) (Addr4 a) \<and>
     (n < 31 \<longrightarrow> a \<noteq> v AND NOT (mask (32 - nat n)) \<and> a \<noteq> v OR mask (32 - nat n))}"

lemma image_restrict: "\<forall>i < (m :: nat). P i \<longleftrightarrow> Q (f i) \<Longrightarrow> {a. (\<exists>i < m. a = f i) \<and> Q a} = f ` {i. i < m \<and> P i}"
  by auto

lemma expand_loop_usable:
  assumes "0 \<le> n" and "n \<le> 32"
  shows "distinct (expand_loop (2 ^ (32 - nat n)) (2 ^ (32 - nat n)) n 0 (Addr4 (v AND NOT (mask (32 - nat n)))))"
    and "set (expand_loop (2 ^ (32 - nat n)) (2 ^ (32 - nat n)) n 0 (Addr4 (v AND NOT (mask (32 - nat n))))) = (\<lambda>a. addr_string (Addr4 a)) ` usable v n"
    and "length (expand_loop (2 ^ (32 - nat n)) (2 ^ (32 - nat n)) n 0 (Addr4 (v AND NOT (mask (32 - nat n))))) \<le> 2 ^ (32 - nat n)"
proof -
  let ?k = "32 - nat n" let ?b = "v AND NOT (mask ?k)"
  let ?P = "\<lambda>j. (0 < j \<or> 31 \<le> n) \<and> \<not> (n < 31 \<and> j = (2 ^ ?k :: nat) - 1)"
  have k: "?k \<le> 32" by simp
  have loop: "expand_loop (2 ^ ?k) (2 ^ ?k) n 0 (Addr4 ?b) = map (\<lambda>j. addr_string (Addr4 (?b + word_of_nat j))) (filter ?P [0..<2 ^ ?k])"
    using expand_loop_map [of ?b 0 "2 ^ ?k" "2 ^ ?k" n] block_end [OF k, of v] by simp
  have inj: "word_of_nat i = (word_of_nat j :: u32) \<longleftrightarrow> i = j" if "i < 2 ^ ?k" "j < 2 ^ ?k" for i j
  proof -
    have "i < 2 ^ 32" "j < 2 ^ 32" using that by (meson k less_le_trans one_le_numeral power_increasing)+
    then show ?thesis by (simp add: word_of_nat_eq_iff take_bit_eq_mod)
  qed
  have "inj_on (\<lambda>j. addr_string (Addr4 (?b + word_of_nat j))) {..<2 ^ ?k}"
    by (rule inj_onI) (simp add: addr_string_v4_inject inj del: addr_string.simps)
  then show "distinct (expand_loop (2 ^ ?k) (2 ^ ?k) n 0 (Addr4 ?b))"
    unfolding loop by (auto simp: distinct_map intro: inj_on_subset)
  show "length (expand_loop (2 ^ ?k) (2 ^ ?k) n 0 (Addr4 ?b)) \<le> 2 ^ ?k"
    unfolding loop using length_filter_le [of ?P "[0..<2 ^ ?k]"] by simp
  have P: "\<forall>i < 2 ^ ?k. ?P i \<longleftrightarrow> (n < 31 \<longrightarrow> ?b + word_of_nat i \<noteq> ?b \<and> ?b + word_of_nat i \<noteq> v OR mask ?k)"
    using inj [of _ 0] inj [of _ "2 ^ ?k - 1"] block_ends [OF k, of v] by auto
  have "usable v n = {a. (\<exists>i < 2 ^ ?k. a = ?b + word_of_nat i) \<and> (n < 31 \<longrightarrow> a \<noteq> ?b \<and> a \<noteq> v OR mask ?k)}"
    unfolding usable_def prefix_contains_v4 block_members [OF k, symmetric] using assms(1) by simp
  also have "\<dots> = (\<lambda>i. ?b + word_of_nat i) ` {i. i < 2 ^ ?k \<and> ?P i}" by (rule image_restrict) (rule P)
  finally have "usable v n = (\<lambda>i. ?b + word_of_nat i) ` {i. i < 2 ^ ?k \<and> ?P i}" .
  then show "set (expand_loop (2 ^ ?k) (2 ^ ?k) n 0 (Addr4 ?b)) = (\<lambda>a. addr_string (Addr4 a)) ` usable v n"
    unfolding loop by (auto simp: image_image simp del: addr_string.simps)
qed

lemma ParseAddr_valid: "ParseAddr s = Some (a, z) \<Longrightarrow> a \<noteq> AddrZero"
  by (auto simp: ParseAddr_def parseIPv4_def parseIPv6_def Let_def split: option.splits if_splits)

lemma ParsePrefix_bits: "ParsePrefix s = Some (Pfx a n) \<Longrightarrow> 0 \<le> n \<and> n \<le> int (addr_bitlen a) \<and> a \<noteq> AddrZero"
  by (auto simp: ParsePrefix_def prefix_from_def dest: ParseAddr_valid split: option.splits if_splits)

lemma prefix_size:
  assumes "0 \<le> n" and "n \<le> 32"
  shows "4098 < (2 :: nat) ^ (32 - nat n) \<longleftrightarrow> n < 20"
proof
  assume "4098 < (2 :: nat) ^ (32 - nat n)"
  then have "(2 :: nat) ^ 12 < 2 ^ (32 - nat n)" by simp
  then have "12 < 32 - nat n" by (rule power_less_imp_less_exp [rotated]) simp
  then show "n < 20" by linarith
next
  assume "n < 20"
  then have "(2 :: nat) ^ 13 \<le> 2 ^ (32 - nat n)" using assms by (intro power_increasing) auto
  then show "4098 < (2 :: nat) ^ (32 - nat n)" by simp
qed

text \<open>
  C28. A sweep asks exactly the usable hosts: an IPv4 prefix of at least 20 bits expands to the text of
  every address it contains, each once, without network and broadcast address unless it is a /31 or /32;
  a text that is no prefix, an IPv6 prefix and a larger prefix are refused. So no sweep asks more than
  4096 hosts.
\<close>

theorem expandCIDR_exact:
  "case ParsePrefix cidr of
     Some (Pfx (Addr4 v) n) \<Rightarrow>
       if n < 20 then \<exists>e. expandCIDR cidr = Inl e
       else \<exists>hosts. expandCIDR cidr = Inr hosts \<and> distinct hosts \<and> set hosts = (\<lambda>a. addr_string (Addr4 a)) ` usable v n \<and> length hosts \<le> discoveryMaxHosts
   | _ \<Rightarrow> \<exists>e. expandCIDR cidr = Inl e"
proof (cases "ParsePrefix cidr")
  case None
  then show ?thesis by (simp add: expandCIDR_def)
next
  case (Some p)
  obtain a n where p: "p = Pfx a n" by (cases p)
  note bits = ParsePrefix_bits [OF Some [unfolded p]]
  show ?thesis
  proof (cases a)
    case AddrZero
    with bits show ?thesis by simp
  next
    case (Addr6 w)
    with bits Some p show ?thesis by (auto simp: expandCIDR_def Masked_def addr_prefix_def prefix_from_def)
  next
    case (Addr4 v)
    let ?k = "32 - nat n"
    have masked: "Masked p = Pfx (Addr4 (v AND NOT (mask ?k))) n"
      using bits by (simp add: p Addr4 Masked_def addr_prefix_def prefix_from_def)
    have n: "0 \<le> n" "n \<le> 32" using bits Addr4 by auto
    note big = prefix_size [OF n]
    show ?thesis
    proof (cases "n < 20")
      case True
      with Some p Addr4 masked big show ?thesis by (simp add: expandCIDR_def discoveryMaxHosts_def)
    next
      case False
      then have "(2 :: nat) ^ ?k \<le> 2 ^ 12" by (intro power_increasing) auto
      with expand_loop_usable [OF n, of v] False Some p Addr4 masked big show ?thesis
        by (auto simp: expandCIDR_def discoveryMaxHosts_def Let_def)
    qed
  qed
qed

theorem expandCIDR_exact_witness:
  "\<exists>hosts. expandCIDR ''192.0.2.0/30'' = Inr hosts \<and> distinct hosts \<and> set hosts = (\<lambda>a. addr_string (Addr4 a)) ` usable 0xC0000200 30 \<and> length hosts \<le> discoveryMaxHosts"
proof -
  have "ParsePrefix ''192.0.2.0/30'' = Some (Pfx (Addr4 0xC0000200) 30)"
    by (simp add: ParsePrefix_def last_index_def ParseAddr_def parseIPv4_def octets_def is_digit_def char_digit_def v4_word_def prefix_len_def str_nat_def prefix_from_def)
  with expandCIDR_exact [of "''192.0.2.0/30''"] show ?thesis by simp
qed

end
