(* ===== verification/Discovery.thy ===== *)
theory Discovery
  imports Discovery_Sweep
begin

text \<open>
  What sweeps found and what the operator makes of it: the service (\<open>internal/collection/app/discovery.go\<close>),
  the repository (\<open>internal/collection/adapters/postgres/discovery.go\<close>) and the approval route
  (\<open>internal/collection/adapters/httpapi/discovery.go\<close>).

  Parameters: fresh ids, the clock, the cast of a text to an address by the database, the order in which
  the database returns rows, errors of statements, and the functions of the inventory the approval route
  calls.

  Shown: over all sweeps, decisions and administration of rules, devices come into being only by an
  approval, and what an operator decided about a find stays decided; what each answer of the approval
  route means; a find that is not among the 500 seen last cannot be approved.
\<close>

subsection \<open>Rules and finds\<close>

record DiscoveryRule =
  rl_ID :: string
  rl_SiteID :: string
  rl_CIDR :: string
  rl_CredentialIDs :: "string list"
  rl_Enabled :: bool

datatype find_state = Pending | Approved | Ignored

record found_row =
  fd_ID :: string
  fd_RuleID :: string
  fd_IP :: string
  fd_SysName :: string
  fd_SysDescr :: string
  fd_SysObjectID :: string
  fd_ConnectorID :: string
  fd_CredentialID :: string
  fd_State :: find_state
  fd_SeenLast :: gotime

text \<open>A managed device, as far as discovery looks at it.\<close>

record managed =
  mg_ID :: string
  mg_IP :: string
  mg_Retired :: bool

record disc_db =
  dd_Rules :: "DiscoveryRule list"
  dd_Found :: "found_row list"
  dd_Devices :: "managed list"

record disc_env =
  dv_id :: "nat \<Rightarrow> string"
  dv_now :: gotime
  dv_cidr :: "string \<Rightarrow> string option"
  dv_inet :: "string \<Rightarrow> string option"
  dv_known :: "string \<Rightarrow> bool"
  dv_fault :: "nat \<Rightarrow> (goerr \<times> bool) option"
  dv_order :: "found_row list \<Rightarrow> found_row list"

text \<open>A statement that fails leaves the table alone, unless the error came after it took effect.\<close>

definition after_fault :: "(goerr \<times> bool) option \<Rightarrow> 's \<Rightarrow> 's \<Rightarrow> 's" where
  "after_fault f old new = (case f of None \<Rightarrow> new | Some (e, applied) \<Rightarrow> if applied then new else old)"

definition repo_CreateRule :: "disc_env \<Rightarrow> DiscoveryRule \<Rightarrow> disc_db \<Rightarrow> goerr option \<times> disc_db" where
  "repo_CreateRule env rule db =
     (case dv_cidr env (rl_CIDR rule) of None \<Rightarrow> (Some (KindError KindInvalid (ErrMsg ''insert discovery rule'' (ErrLeaf ''cidr''))), db)
      | Some c \<Rightarrow>
          let new = db\<lparr>dd_Rules := dd_Rules db @ [rule\<lparr>rl_CIDR := c\<rparr>]\<rparr> in
          (case dv_fault env 0 of None \<Rightarrow> None | Some (e, applied) \<Rightarrow> Some (KindError KindInvalid (ErrMsg ''insert discovery rule'' e)),
           after_fault (dv_fault env 0) db new))"

definition scanRule :: "goerr option \<Rightarrow> DiscoveryRule option \<Rightarrow> goerr + DiscoveryRule" where
  "scanRule fault row = (case fault of Some e \<Rightarrow> Inl (KindError KindTransient (ErrMsg ''scan discovery rule'' e))
     | None \<Rightarrow> (case row of None \<Rightarrow> Inl (errx_New KindNotFound ''discovery rule not found'') | Some r \<Rightarrow> Inr r))"

definition GetRule :: "disc_env \<Rightarrow> string \<Rightarrow> disc_db \<Rightarrow> goerr + DiscoveryRule" where
  "GetRule env ruleID db = scanRule (map_option fst (dv_fault env 0)) (find (\<lambda>r. rl_ID r = ruleID) (dd_Rules db))"

text \<open>The finds of a deleted rule go with it.\<close>

definition DeleteRule :: "disc_env \<Rightarrow> string \<Rightarrow> disc_db \<Rightarrow> goerr option \<times> disc_db" where
  "DeleteRule env ruleID db =
     (let new = db\<lparr>dd_Rules := filter (\<lambda>r. rl_ID r \<noteq> ruleID) (dd_Rules db), dd_Found := filter (\<lambda>f. fd_RuleID f \<noteq> ruleID) (dd_Found db)\<rparr> in
      case dv_fault env 0 of
        Some (e, applied) \<Rightarrow> (Some (KindError KindTransient (ErrMsg ''delete discovery rule'' e)), after_fault (dv_fault env 0) db new)
      | None \<Rightarrow> if find (\<lambda>r. rl_ID r = ruleID) (dd_Rules db) = None then (Some (errx_New KindNotFound ''discovery rule not found''), db) else (None, new))"

text \<open>One host: refresh the find of this rule and address, or insert a pending one.\<close>

definition put_found :: "gotime \<Rightarrow> string \<Rightarrow> string \<Rightarrow> string \<Rightarrow> string \<Rightarrow> DiscoveredHost \<Rightarrow> found_row list \<Rightarrow> found_row list" where
  "put_found now newid ruleID ip connector h rows =
     (if list_ex (\<lambda>f. fd_RuleID f = ruleID \<and> fd_IP f = ip) rows
      then map (\<lambda>f. if fd_RuleID f = ruleID \<and> fd_IP f = ip
             then f\<lparr>fd_SysName := dh_SysName h, fd_SysObjectID := dh_SysObjectID h, fd_SysDescr := dh_SysDescr h, fd_ConnectorID := connector,
                    fd_CredentialID := dh_CredentialID h, fd_SeenLast := now\<rparr> else f) rows
      else rows @ [\<lparr>fd_ID = newid, fd_RuleID = ruleID, fd_IP = ip, fd_SysName = dh_SysName h, fd_SysDescr = dh_SysDescr h,
             fd_SysObjectID = dh_SysObjectID h, fd_ConnectorID = connector, fd_CredentialID = dh_CredentialID h, fd_State = Pending, fd_SeenLast = now\<rparr>])"

text \<open>The hosts in order; the first refused or failing statement ends the loop, and those before it stay.\<close>

primrec UpsertFound :: "disc_env \<Rightarrow> string \<Rightarrow> (string \<Rightarrow> string \<Rightarrow> string) option \<Rightarrow> nat \<Rightarrow> DiscoveredHost list \<Rightarrow> disc_db \<Rightarrow> goerr option \<times> nat \<times> disc_db" where
  "UpsertFound env ruleID match n [] db = (None, n, db)"
| "UpsertFound env ruleID match n (h # hs) db =
     (let connector = (case match of None \<Rightarrow> [] | Some f \<Rightarrow> f (dh_SysObjectID h) (dh_SysDescr h));
          refused = (\<lambda>e. KindError KindTransient (ErrMsg ''upsert discovered device'' e))
      in case dv_inet env (dh_IP h) of None \<Rightarrow> (Some (refused (ErrLeaf ''inet'')), n, db)
      | Some ip \<Rightarrow>
          if \<not> list_ex (\<lambda>r. rl_ID r = ruleID) (dd_Rules db) \<or> connector \<noteq> [] \<and> \<not> dv_known env connector \<or> list_ex (\<lambda>f. fd_ID f = dv_id env n) (dd_Found db)
          then (Some (refused (ErrLeaf ''constraint'')), n, db)
          else
            let new = db\<lparr>dd_Found := put_found (dv_now env) (dv_id env n) ruleID ip connector h (dd_Found db)\<rparr> in
            case dv_fault env n of
              Some (e, applied) \<Rightarrow> (Some (refused e), n, after_fault (dv_fault env n) db new)
            | None \<Rightarrow> UpsertFound env ruleID match (n + 1) hs new)"

record Discovered =
  dc_Row :: found_row
  dc_SiteID :: string
  dc_Managed :: bool

definition is_managed :: "disc_db \<Rightarrow> string \<Rightarrow> bool" where
  "is_managed db ip \<longleftrightarrow> list_ex (\<lambda>d. mg_IP d = ip \<and> \<not> mg_Retired d) (dd_Devices db)"

definition site_of :: "disc_db \<Rightarrow> string \<Rightarrow> string option" where
  "site_of db ruleID = (case find (\<lambda>r. rl_ID r = ruleID) (dd_Rules db) of None \<Rightarrow> None | Some r \<Rightarrow> Some (rl_SiteID r))"

definition ListFound :: "disc_env \<Rightarrow> find_state option \<Rightarrow> disc_db \<Rightarrow> goerr + Discovered list" where
  "ListFound env st db = (case dv_fault env 0 of
       Some (e, at_query) \<Rightarrow> Inl (if at_query then KindError KindTransient (ErrMsg ''list discovered'' e) else e)
     | None \<Rightarrow> Inr (map (\<lambda>f. \<lparr>dc_Row = f, dc_SiteID = (case site_of db (fd_RuleID f) of None \<Rightarrow> [] | Some s \<Rightarrow> s), dc_Managed = is_managed db (fd_IP f)\<rparr>)
         (take 500 (dv_order env (filter (\<lambda>f. site_of db (fd_RuleID f) \<noteq> None \<and> (case st of None \<Rightarrow> True | Some s \<Rightarrow> fd_State f = s)) (dd_Found db))))))"

definition GetFound :: "disc_env \<Rightarrow> string \<Rightarrow> disc_db \<Rightarrow> goerr + Discovered" where
  "GetFound env foundID db = (case ListFound env None db of Inl e \<Rightarrow> Inl e
     | Inr ds \<Rightarrow> (case find (\<lambda>d. fd_ID (dc_Row d) = foundID) ds of
         None \<Rightarrow> Inl (errx_New KindNotFound ''discovered device not found'') | Some d \<Rightarrow> Inr d))"

definition SetFoundState :: "(goerr \<times> bool) option \<Rightarrow> string \<Rightarrow> find_state \<Rightarrow> disc_db \<Rightarrow> goerr option \<times> disc_db" where
  "SetFoundState fault foundID st db =
     (let new = db\<lparr>dd_Found := map (\<lambda>f. if fd_ID f = foundID then f\<lparr>fd_State := st\<rparr> else f) (dd_Found db)\<rparr> in
      case fault of
        Some (e, applied) \<Rightarrow> (Some (KindError KindTransient (ErrMsg ''set discovered state'' e)), after_fault fault db new)
      | None \<Rightarrow> if \<not> list_ex (\<lambda>f. fd_ID f = foundID) (dd_Found db) then (Some (errx_New KindNotFound ''discovered device not found''), db) else (None, new))"

subsection \<open>The service and the approval route\<close>

datatype disc_audit = RuleCreated string | SweepStarted string | SweepCompleted string nat nat | FindIgnored string

definition CreateRule :: "disc_env \<Rightarrow> string \<Rightarrow> string \<Rightarrow> string \<Rightarrow> string list \<Rightarrow> disc_db \<Rightarrow> (goerr + DiscoveryRule) \<times> disc_db \<times> disc_audit list" where
  "CreateRule env newid siteID cidr creds db =
     (if siteID = [] \<or> cidr = [] \<or> creds = [] then (Inl (errx_New KindInvalid ''site_id, cidr and at least one credential are required''), db, [])
      else let rule = \<lparr>rl_ID = newid, rl_SiteID = siteID, rl_CIDR = cidr, rl_CredentialIDs = creds, rl_Enabled = True\<rparr> in
        case repo_CreateRule env rule db of
          (Some e, db) \<Rightarrow> (Inl e, db, [])
        | (None, db) \<Rightarrow> (Inr rule, db, [RuleCreated newid]))"

text \<open>The credentials of a rule that can be resolved.\<close>

definition Named :: "(string \<Rightarrow> goerr + SNMPCred) \<Rightarrow> (string \<Rightarrow> string) option \<Rightarrow> string list \<Rightarrow> NamedCred list" where
  "Named resolve names ids =
     List.map_filter (\<lambda>cid. case resolve cid of Inl e \<Rightarrow> None
       | Inr c \<Rightarrow> Some \<lparr>nc_CredentialID = cid, nc_Name = (case names of None \<Rightarrow> [] | Some f \<Rightarrow> f cid), nc_Cred = c\<rparr>) ids"

definition Run_sweep :: "disc_env \<Rightarrow> string \<Rightarrow> (string \<Rightarrow> goerr + SNMPCred) \<Rightarrow> (string \<Rightarrow> string) option \<Rightarrow> (DiscoveryJob \<Rightarrow> goerr option) \<Rightarrow> string \<Rightarrow> disc_db \<Rightarrow>
    (goerr + DiscoveryJob) \<times> disc_audit list" where
  "Run_sweep env jobID resolve names dispatch ruleID db =
     (case GetRule env ruleID db of Inl e \<Rightarrow> (Inl e, [])
      | Inr rule \<Rightarrow>
          let creds = Named resolve names (rl_CredentialIDs rule);
              job = \<lparr>dj_JobID = jobID, dj_RuleID = rl_ID rule, dj_SiteID = rl_SiteID rule, dj_CIDR = rl_CIDR rule, dj_Port = 161, dj_Creds = creds, dj_TimeoutMS = 1500\<rparr>
          in if creds = [] then (Inl (errx_New KindInvalid ''no usable credentials on this rule''), [])
             else case dispatch job of Some e \<Rightarrow> (Inl e, []) | None \<Rightarrow> (Inr job, [SweepStarted (rl_ID rule)]))"

definition disc_HandleResult :: "disc_env \<Rightarrow> (string \<Rightarrow> string \<Rightarrow> string) option \<Rightarrow> DiscoveryResult \<Rightarrow> disc_db \<Rightarrow> goerr option \<times> disc_db \<times> disc_audit list" where
  "disc_HandleResult env match res db = (case UpsertFound env (ds_RuleID res) match 0 (ds_Found res) db of
       (Some e, n, db) \<Rightarrow> (Some e, db, [])
     | (None, n, db) \<Rightarrow> (None, db, [SweepCompleted (ds_RuleID res) (ds_Scanned res) (length (ds_Found res))]))"

definition Ignore :: "disc_env \<Rightarrow> string \<Rightarrow> disc_db \<Rightarrow> goerr option \<times> disc_db \<times> disc_audit list" where
  "Ignore env foundID db = (case SetFoundState (dv_fault env 0) foundID Ignored db of
       (Some e, db) \<Rightarrow> (Some e, db, []) | (None, db) \<Rightarrow> (None, db, [FindIgnored foundID]))"

record OnboardInput =
  oi_Name :: string
  oi_MgmtIP :: string
  oi_SiteID :: string
  oi_CredentialID :: string
  oi_ConnectorID :: string

record approve_req =
  rq_Name :: string
  rq_SiteID :: string
  rq_Force :: bool
  rq_AttachTo :: string

text \<open>The inventory as the route sees it; each function may be missing.\<close>

record onboarding =
  ob_Match :: "(string \<Rightarrow> goerr + string) option"
  ob_Attach :: "(string \<Rightarrow> string \<Rightarrow> goerr option) option"
  ob_Onboard :: "(OnboardInput \<Rightarrow> managed list \<Rightarrow> (goerr + string) \<times> managed list) option"

datatype approval = Refused goerr | Duplicate string | Attached string string | Created string

definition orElse :: "string \<Rightarrow> string \<Rightarrow> string" where
  "orElse a b = (if a = [] then b else a)"

definition settle :: "(goerr \<times> bool) option \<Rightarrow> string \<Rightarrow> approval \<Rightarrow> disc_db \<Rightarrow> approval \<times> disc_db" where
  "settle fault foundID answer db = (case SetFoundState fault foundID Approved db of (Some e, db) \<Rightarrow> (Refused e, db) | (None, db) \<Rightarrow> (answer, db))"

definition approve :: "disc_env \<Rightarrow> onboarding \<Rightarrow> approve_req \<Rightarrow> string \<Rightarrow> disc_db \<Rightarrow> approval \<times> disc_db" where
  "approve env ob req foundID db = (case ob_Onboard ob of
     None \<Rightarrow> (Refused (errx_New KindTransient ''onboarding unavailable''), db)
   | Some onboard \<Rightarrow> (case GetFound env foundID db of Inl e \<Rightarrow> (Refused e, db)
     | Inr d \<Rightarrow>
         let f = dc_Row d in
         if dc_Managed d then (Refused (errx_New KindConflict ''a device with that management IP is already managed''), db)
         else if rq_AttachTo req \<noteq> [] then
           (case ob_Attach ob of None \<Rightarrow> (Refused (errx_New KindTransient ''attaching addresses is unavailable''), db)
            | Some attach \<Rightarrow> (case attach (rq_AttachTo req) (fd_IP f) of Some e \<Rightarrow> (Refused e, db)
                | None \<Rightarrow> settle (dv_fault env 1) (fd_ID f) (Attached (rq_AttachTo req) (fd_IP f)) db))
         else
           let same = (if rq_Force req \<or> fd_SysName f = [] then None
                  else case ob_Match ob of None \<Rightarrow> None
                    | Some m \<Rightarrow> (case m (fd_SysName f) of Inl e \<Rightarrow> None | Inr i \<Rightarrow> if i = [] then None else Some i)) in
           (case same of Some i \<Rightarrow> (Duplicate i, db)
            | None \<Rightarrow>
                (case onboard \<lparr>oi_Name = orElse (orElse (rq_Name req) (fd_SysName f)) (fd_IP f), oi_MgmtIP = fd_IP f, oi_SiteID = orElse (rq_SiteID req) (dc_SiteID d),
                    oi_CredentialID = fd_CredentialID f, oi_ConnectorID = fd_ConnectorID f\<rparr> (dd_Devices db) of
                   (Inl e, devs) \<Rightarrow> (Refused e, db\<lparr>dd_Devices := devs\<rparr>)
                 | (Inr i, devs) \<Rightarrow> settle (dv_fault env 1) (fd_ID f) (Created i) (db\<lparr>dd_Devices := devs\<rparr>)))))"

subsection \<open>Decisions\<close>

datatype disc_op =
    OpCreateRule string string string "string list"
  | OpDeleteRule string
  | OpResult "(string \<Rightarrow> string \<Rightarrow> string) option" DiscoveryResult
  | OpIgnore string
  | OpApprove onboarding approve_req string

definition disc_step :: "disc_env \<times> disc_op \<Rightarrow> disc_db \<Rightarrow> disc_db" where
  "disc_step eo db = (case eo of (env, op) \<Rightarrow> (case op of
     OpCreateRule newid siteID cidr creds \<Rightarrow> fst (snd (CreateRule env newid siteID cidr creds db))
   | OpDeleteRule ruleID \<Rightarrow> snd (DeleteRule env ruleID db)
   | OpResult match res \<Rightarrow> fst (snd (disc_HandleResult env match res db))
   | OpIgnore foundID \<Rightarrow> fst (snd (Ignore env foundID db))
   | OpApprove ob req foundID \<Rightarrow> snd (approve env ob req foundID db)))"

text \<open>An operator's decision about a find, or the end of the rule it belongs to.\<close>

fun decides :: "string \<Rightarrow> string \<Rightarrow> disc_op \<Rightarrow> bool" where
  "decides i ruleID (OpIgnore j) = (j = i)"
| "decides i ruleID (OpApprove ob req j) = (j = i)"
| "decides i ruleID (OpDeleteRule r) = (r = ruleID)"
| "decides i ruleID (OpCreateRule newid s c cs) = False"
| "decides i ruleID (OpResult m res) = False"

fun approves :: "disc_op \<Rightarrow> bool" where
  "approves (OpApprove ob req j) = True"
| "approves _ = False"

text \<open>The rule and the state of a find.\<close>

definition mark_of :: "string \<Rightarrow> disc_db \<Rightarrow> (string \<times> find_state) option" where
  "mark_of i db = map_option (\<lambda>f. (fd_RuleID f, fd_State f)) (find (\<lambda>f. fd_ID f = i) (dd_Found db))"

lemma find_map_same: "\<forall>x. P (h x) = P x \<Longrightarrow> find P (map h xs) = map_option h (find P xs)"
  by (induction xs) auto

lemma find_filter_same: "find P xs = Some x \<Longrightarrow> Q x \<Longrightarrow> find P (filter Q xs) = Some x"
  by (induction xs) (auto split: if_splits)

lemma find_append: "find P (xs @ ys) = (case find P xs of None \<Rightarrow> find P ys | Some x \<Rightarrow> Some x)"
  by (induction xs) auto

lemma mark_put:
  assumes "mark_of i db = Some m"
  shows "mark_of i (db\<lparr>dd_Found := put_found now newid r ip c h (dd_Found db)\<rparr>) = Some m"
proof (cases "list_ex (\<lambda>f. fd_RuleID f = r \<and> fd_IP f = ip) (dd_Found db)")
  case True
  with assms show ?thesis by (fastforce simp: mark_of_def put_found_def find_map_same option.map_comp o_def if_distrib cong: if_cong)
next
  case False
  with assms show ?thesis by (auto simp: mark_of_def put_found_def find_append)
qed

lemma UpsertFound_keeps:
  assumes "UpsertFound env r match n hs db = (e, m, db')" and "mark_of i db = Some k"
  shows "mark_of i db' = Some k"
  using assms
proof (induction hs arbitrary: n db)
  case (Cons h hs)
  let ?c = "case match of None \<Rightarrow> [] | Some f \<Rightarrow> f (dh_SysObjectID h) (dh_SysDescr h)"
  let ?new = "\<lambda>ip. db\<lparr>dd_Found := put_found (dv_now env) (dv_id env n) r ip ?c h (dd_Found db)\<rparr>"
  from Cons.prems(1) consider "db' = db" | ip where "db' = ?new ip" | ip where "UpsertFound env r match (n + 1) hs (?new ip) = (e, m, db')"
    by (auto simp: Let_def after_fault_def split: option.splits if_splits)
  then show ?case
    by cases (use Cons.prems(2) mark_put Cons.IH in blast)+
qed simp

lemma UpsertFound_devices: "UpsertFound env r match n hs db = (e, m, db') \<Longrightarrow> dd_Devices db' = dd_Devices db"
  by (induction hs arbitrary: n db) (fastforce simp: Let_def after_fault_def split: option.splits if_splits)+

lemma SetFoundState_keeps:
  assumes "SetFoundState fault j st db = (e, db')"
  shows "dd_Devices db' = dd_Devices db" and "i \<noteq> j \<Longrightarrow> mark_of i db' = mark_of i db"
    and "e = None \<Longrightarrow> mark_of j db' = map_option (\<lambda>m. (fst m, st)) (mark_of j db) \<and> mark_of j db \<noteq> None"
proof -
  show "dd_Devices db' = dd_Devices db"
    using assms by (auto simp: SetFoundState_def Let_def after_fault_def split: option.splits if_splits)
  show "mark_of i db' = mark_of i db" if "i \<noteq> j"
  proof -
    have "find (\<lambda>f. fd_ID f = i) (map (\<lambda>f. if fd_ID f = j then f\<lparr>fd_State := st\<rparr> else f) xs) = find (\<lambda>f. fd_ID f = i) xs" for xs :: "found_row list"
      using that by (induction xs) auto
    with assms show ?thesis
      by (auto simp: mark_of_def SetFoundState_def Let_def after_fault_def split: option.splits if_splits)
  qed
  show "mark_of j db' = map_option (\<lambda>m. (fst m, st)) (mark_of j db) \<and> mark_of j db \<noteq> None" if "e = None"
  proof -
    have "map_option (\<lambda>f. (fd_RuleID f, fd_State f)) (find (\<lambda>f. fd_ID f = j) (map (\<lambda>f. if fd_ID f = j then f\<lparr>fd_State := st\<rparr> else f) xs)) =
        map_option (\<lambda>f. (fd_RuleID f, st)) (find (\<lambda>f. fd_ID f = j) xs)" for xs :: "found_row list"
      by (induction xs) auto
    with assms that show ?thesis
      by (auto simp: mark_of_def SetFoundState_def Let_def find_None_iff list_ex_iff option.map_comp o_def split: option.splits if_splits)
  qed
qed

lemma CreateRule_keeps:
  shows "dd_Devices (fst (snd (CreateRule env newid siteID cidr creds db))) = dd_Devices db"
    and "mark_of i (fst (snd (CreateRule env newid siteID cidr creds db))) = mark_of i db"
  by (auto simp: mark_of_def CreateRule_def repo_CreateRule_def Let_def after_fault_def split: option.splits prod.splits if_splits)

lemma DeleteRule_keeps:
  shows "dd_Devices (snd (DeleteRule env ruleID db)) = dd_Devices db"
    and "mark_of i db = Some (r, s) \<Longrightarrow> r \<noteq> ruleID \<Longrightarrow> mark_of i (snd (DeleteRule env ruleID db)) = Some (r, s)"
  by (auto simp: DeleteRule_def Let_def after_fault_def mark_of_def split: option.splits if_splits dest: find_filter_same)

lemma HandleResult_keeps:
  shows "dd_Devices (fst (snd (disc_HandleResult env match res db))) = dd_Devices db"
    and "mark_of i db = Some k \<Longrightarrow> mark_of i (fst (snd (disc_HandleResult env match res db))) = Some k"
  using UpsertFound_devices UpsertFound_keeps by (auto simp: disc_HandleResult_def split: prod.splits option.splits)

lemma Ignore_keeps:
  shows "dd_Devices (fst (snd (Ignore env j db))) = dd_Devices db"
    and "i \<noteq> j \<Longrightarrow> mark_of i (fst (snd (Ignore env j db))) = mark_of i db"
  using SetFoundState_keeps(1,2) by (auto simp: Ignore_def split: prod.splits option.splits)

lemma GetFound_id: "GetFound env foundID db = Inr d \<Longrightarrow> fd_ID (dc_Row d) = foundID"
  by (auto simp: GetFound_def find_Some_iff split: sum.splits option.splits)

lemma settle_keeps:
  assumes "i \<noteq> j"
  shows "mark_of i (snd (settle fault j ans db)) = mark_of i db"
  using SetFoundState_keeps(2) [of fault j Approved db, OF _ assms] by (auto simp: settle_def split: prod.splits option.splits)

lemma mark_devices [simp]: "mark_of i (db\<lparr>dd_Devices := ds\<rparr>) = mark_of i db"
  by (simp add: mark_of_def)

lemma settle_done:
  assumes "settle fault i a db = (b, db')"
  shows "dd_Devices db' = dd_Devices db \<and> (b = a \<and> map_option snd (mark_of i db') = Some Approved \<or> (\<exists>e. b = Refused e \<and> (fault \<noteq> None \<or> i \<notin> fd_ID ` set (dd_Found db))))"
proof -
  obtain e db'' where s: "SetFoundState fault i Approved db = (e, db'')" by fastforce
  show ?thesis
  proof (cases e)
    case None
    with s assms SetFoundState_keeps(1,3) [OF s] show ?thesis by (auto simp: settle_def)
  next
    case (Some x)
    with s have "fault \<noteq> None \<or> i \<notin> fd_ID ` set (dd_Found db)"
      by (auto simp: SetFoundState_def Let_def list_ex_iff split: option.splits if_splits)
    with s Some assms SetFoundState_keeps(1) [OF s] show ?thesis by (auto simp: settle_def)
  qed
qed

text \<open>What the inventory is asked to create for a find, and when the identity check lets it pass.\<close>

definition request_for :: "approve_req \<Rightarrow> disc_db \<Rightarrow> found_row \<Rightarrow> OnboardInput" where
  "request_for req db f = \<lparr>oi_Name = orElse (orElse (rq_Name req) (fd_SysName f)) (fd_IP f), oi_MgmtIP = fd_IP f,
     oi_SiteID = orElse (rq_SiteID req) (case site_of db (fd_RuleID f) of None \<Rightarrow> [] | Some s \<Rightarrow> s), oi_CredentialID = fd_CredentialID f, oi_ConnectorID = fd_ConnectorID f\<rparr>"

definition passes :: "onboarding \<Rightarrow> approve_req \<Rightarrow> string \<Rightarrow> bool" where
  "passes ob req name \<longleftrightarrow> rq_Force req \<or> name = [] \<or> (case ob_Match ob of None \<Rightarrow> True | Some m \<Rightarrow> (case m name of Inl e \<Rightarrow> True | Inr j \<Rightarrow> j = []))"

lemma identity_check:
  "(if rq_Force req \<or> name = [] then None else case ob_Match ob of None \<Rightarrow> None | Some m \<Rightarrow> (case m name of Inl e \<Rightarrow> None | Inr i \<Rightarrow> if i = [] then None else Some i)) =
   (if passes ob req name then None else Some (case ob_Match ob of None \<Rightarrow> [] | Some m \<Rightarrow> (case m name of Inl e \<Rightarrow> [] | Inr j \<Rightarrow> j)))"
  by (simp add: passes_def split: option.split sum.split)

lemma GetFound_fields: "GetFound env i db = Inr d \<Longrightarrow> dc_SiteID d = (case site_of db (fd_RuleID (dc_Row d)) of None \<Rightarrow> [] | Some s \<Rightarrow> s) \<and> fd_ID (dc_Row d) = i"
  by (auto simp: GetFound_def ListFound_def find_Some_iff split: sum.splits option.splits)

lemma approve_cases [consumes 1, case_names nothing duplicate attached refused created]:
  assumes "approve env ob req i db = (ans, db')"
  obtains e where "ans = Refused e" "db' = db"
  | dev where "ans = Duplicate dev" "db' = db" "dev \<noteq> []" "\<not> rq_Force req"
  | d attach where "GetFound env i db = Inr d" "\<not> dc_Managed d" "rq_AttachTo req \<noteq> []" "ob_Attach ob = Some attach"
      "attach (rq_AttachTo req) (fd_IP (dc_Row d)) = None" "settle (dv_fault env 1) i (Attached (rq_AttachTo req) (fd_IP (dc_Row d))) db = (ans, db')"
  | e onboard inp devs where "ob_Onboard ob = Some onboard" "onboard inp (dd_Devices db) = (Inl e, devs)" "ans = Refused e" "db' = db\<lparr>dd_Devices := devs\<rparr>"
  | d onboard dev devs where "GetFound env i db = Inr d" "\<not> dc_Managed d" "rq_AttachTo req = []" "passes ob req (fd_SysName (dc_Row d))" "ob_Onboard ob = Some onboard"
      "onboard (request_for req db (dc_Row d)) (dd_Devices db) = (Inr dev, devs)" "settle (dv_fault env 1) i (Created dev) (db\<lparr>dd_Devices := devs\<rparr>) = (ans, db')"
proof (cases "ob_Onboard ob")
  case None
  with assms that(1) show ?thesis by (auto simp: approve_def)
next
  case (Some onboard)
  show ?thesis
  proof (cases "GetFound env i db")
    case (Inl e)
    with Some assms that(1) show ?thesis by (auto simp: approve_def)
  next
    case (Inr d)
    let ?f = "dc_Row d"
    note d = GetFound_fields [OF Inr]
    have step: "approve env ob req i db =
      (if dc_Managed d then (Refused (errx_New KindConflict ''a device with that management IP is already managed''), db)
       else if rq_AttachTo req \<noteq> [] then
         (case ob_Attach ob of None \<Rightarrow> (Refused (errx_New KindTransient ''attaching addresses is unavailable''), db)
          | Some attach \<Rightarrow> (case attach (rq_AttachTo req) (fd_IP ?f) of Some e \<Rightarrow> (Refused e, db)
              | None \<Rightarrow> settle (dv_fault env 1) i (Attached (rq_AttachTo req) (fd_IP ?f)) db))
       else if passes ob req (fd_SysName ?f) then
         (case onboard (request_for req db ?f) (dd_Devices db) of (Inl e, devs) \<Rightarrow> (Refused e, db\<lparr>dd_Devices := devs\<rparr>)
          | (Inr dev, devs) \<Rightarrow> settle (dv_fault env 1) i (Created dev) (db\<lparr>dd_Devices := devs\<rparr>))
       else (Duplicate (case ob_Match ob of None \<Rightarrow> [] | Some m \<Rightarrow> (case m (fd_SysName ?f) of Inl e \<Rightarrow> [] | Inr j \<Rightarrow> j)), db))"
      unfolding approve_def Some Inr Let_def request_for_def identity_check using d by (simp cong: option.case_cong sum.case_cong prod.case_cong)
    consider "dc_Managed d" | "\<not> dc_Managed d" "rq_AttachTo req \<noteq> []" | "\<not> dc_Managed d" "rq_AttachTo req = []" "passes ob req (fd_SysName ?f)"
      | "\<not> dc_Managed d" "rq_AttachTo req = []" "\<not> passes ob req (fd_SysName ?f)" by blast
    then show ?thesis
    proof cases
      case 1
      with assms step that(1) show ?thesis by auto
    next
      case 2
      with assms step that(1) that(3) [OF Inr] show ?thesis by (auto split: option.splits)
    next
      case 3
      obtain r devs where "onboard (request_for req db ?f) (dd_Devices db) = (r, devs)" by fastforce
      with 3 assms step Some that(4) [OF Some] that(5) [OF Inr] show ?thesis by (cases r) auto
    next
      case 4
      with assms step that(2) show ?thesis by (auto simp: passes_def split: option.splits sum.splits)
    qed
  qed
qed

lemma approve_keeps:
  assumes "i \<noteq> j"
  shows "mark_of i (snd (approve env ob req j db)) = mark_of i db"
proof -
  obtain ans db' where a: "approve env ob req j db = (ans, db')" by fastforce
  then show ?thesis
    by (cases rule: approve_cases) (use a assms settle_keeps [OF assms] in \<open>fastforce dest: arg_cong [where f = snd]\<close>)+
qed

lemma disc_step_keeps:
  shows "mark_of i db = Some (r, s) \<Longrightarrow> \<not> decides i r (snd eo) \<Longrightarrow> mark_of i (disc_step eo db) = Some (r, s)"
    and "\<not> approves (snd eo) \<Longrightarrow> dd_Devices (disc_step eo db) = dd_Devices db"
proof -
  obtain env op where eo: "eo = (env, op)" by (cases eo)
  show "mark_of i (disc_step eo db) = Some (r, s)" if "mark_of i db = Some (r, s)" "\<not> decides i r (snd eo)"
    using that by (cases op) (simp_all add: disc_step_def eo CreateRule_keeps DeleteRule_keeps(2) HandleResult_keeps(2) [of i db "(r, s)"] Ignore_keeps(2) approve_keeps)
  show "dd_Devices (disc_step eo db) = dd_Devices db" if "\<not> approves (snd eo)"
    using that by (cases op) (simp_all add: disc_step_def eo CreateRule_keeps DeleteRule_keeps HandleResult_keeps Ignore_keeps)
qed

text \<open>
  C27. What an operator decided stays decided, and nothing is managed on its own: over any sequence of
  sweep results, administration of rules and decisions, with whatever database errors, a find keeps its
  state unless the operator ignores or approves that very find or deletes its rule, and the set of
  managed devices changes only if a find is approved.
\<close>

theorem decision_sticks:
  assumes "mark_of i db = Some (r, s)" and "\<forall>eo \<in> set eos. \<not> decides i r (snd eo)"
  shows "mark_of i (fold disc_step eos db) = Some (r, s) \<and>
    ((\<forall>eo \<in> set eos. \<not> approves (snd eo)) \<longrightarrow> dd_Devices (fold disc_step eos db) = dd_Devices db)"
  using assms
proof (induction eos arbitrary: db)
  case (Cons eo eos)
  have "mark_of i (disc_step eo db) = Some (r, s)" using Cons.prems disc_step_keeps(1) by simp
  with Cons.IH [of "disc_step eo db"] Cons.prems disc_step_keeps(2) [of eo db] show ?case by simp
qed simp


theorem decision_sticks_witness:
  "\<exists>db eos. mark_of ''dd1'' db = Some (''dr1'', Ignored) \<and> eos \<noteq> [] \<and> mark_of ''dd1'' (fold disc_step eos db) = Some (''dr1'', Ignored)"
proof -
  define env :: disc_env where "env = \<lparr>dv_id = \<lambda>n. ''dd2'', dv_now = 7, dv_cidr = Some, dv_inet = Some, dv_known = \<lambda>c. True, dv_fault = \<lambda>n. None, dv_order = id\<rparr>"
  define db :: disc_db where "db = \<lparr>dd_Rules = [\<lparr>rl_ID = ''dr1'', rl_SiteID = ''s1'', rl_CIDR = ''192.0.2.0/30'', rl_CredentialIDs = [''c1''], rl_Enabled = True\<rparr>],
    dd_Found = [\<lparr>fd_ID = ''dd1'', fd_RuleID = ''dr1'', fd_IP = ''192.0.2.1'', fd_SysName = ''r1'', fd_SysDescr = [], fd_SysObjectID = [], fd_ConnectorID = [],
      fd_CredentialID = ''c1'', fd_State = Ignored, fd_SeenLast = 1\<rparr>], dd_Devices = []\<rparr>"
  define res :: DiscoveryResult where "res = \<lparr>ds_JobID = ''j1'', ds_RuleID = ''dr1'', ds_PollerID = ''p1'', ds_Scanned = 2,
    ds_Found = [\<lparr>dh_IP = ''192.0.2.1'', dh_SysName = ''r1'', dh_SysDescr = ''x'', dh_SysObjectID = [], dh_CredentialID = ''c1''\<rparr>], ds_Error = []\<rparr>"
  have "mark_of ''dd1'' db = Some (''dr1'', Ignored)" by (simp add: mark_of_def db_def)
  moreover have "mark_of ''dd1'' (fold disc_step [(env, OpResult None res)] db) = Some (''dr1'', Ignored)"
    using decision_sticks [of "''dd1''" db "''dr1''" Ignored "[(env, OpResult None res)]"] calculation by simp
  ultimately show ?thesis by blast
qed

subsection \<open>What the approval route answers\<close>

text \<open>The find an approval speaks of, as the list of finds gives it.\<close>

lemma GetFound_row:
  assumes "GetFound env i db = Inr d" and "\<forall>xs. mset (dv_order env xs) = mset xs"
  shows "dc_Row d \<in> set (dd_Found db) \<and> fd_ID (dc_Row d) = i \<and> dc_Managed d = is_managed db (fd_IP (dc_Row d)) \<and> site_of db (fd_RuleID (dc_Row d)) = Some (dc_SiteID d)"
proof -
  have members: "set (dv_order env xs) = set xs" for xs using assms(2) by (metis mset_eq_setD)
  from assms(1) obtain ds where ds: "ListFound env None db = Inr ds" "d \<in> set ds" "fd_ID (dc_Row d) = i"
    by (auto simp: GetFound_def find_Some_iff split: sum.splits option.splits)
  then show ?thesis
    by (auto simp: ListFound_def members dest!: in_set_takeD split: option.splits)
qed

text \<open>
  What the answers of the approval route mean. \<open>Created\<close>: the find exists, no device that is not retired
  has its address, the operator did not ask to attach it, the identity check had nothing to say or was
  overruled, one device was requested of the inventory, with the find's address and credential and
  the name and the site falling back to the find's, and the find is approved. \<open>Attached\<close>: the address was
  handed to the device the operator named, no device was created, and the find is approved. \<open>Duplicate\<close>:
  nothing changed. \<open>Refused\<close>: no device was created, unless the inventory reported the error itself or
  marking the find failed after the inventory was asked.
\<close>

theorem approve_outcome:
  assumes "approve env ob req i db = (ans, db')" and "\<forall>xs. mset (dv_order env xs) = mset xs"
  shows "case ans of
      Created dev \<Rightarrow> map_option snd (mark_of i db') = Some Approved \<and>
        (\<exists>f onboard. f \<in> set (dd_Found db) \<and> fd_ID f = i \<and> \<not> is_managed db (fd_IP f) \<and> rq_AttachTo req = [] \<and> passes ob req (fd_SysName f) \<and>
           ob_Onboard ob = Some onboard \<and> onboard (request_for req db f) (dd_Devices db) = (Inr dev, dd_Devices db'))
    | Attached dev ip \<Rightarrow> map_option snd (mark_of i db') = Some Approved \<and> dd_Devices db' = dd_Devices db \<and> dev = rq_AttachTo req \<and> dev \<noteq> [] \<and>
        (\<exists>f attach. f \<in> set (dd_Found db) \<and> fd_ID f = i \<and> fd_IP f = ip \<and> \<not> is_managed db ip \<and> ob_Attach ob = Some attach \<and> attach dev ip = None)
    | Duplicate dev \<Rightarrow> db' = db \<and> dev \<noteq> [] \<and> \<not> rq_Force req
    | Refused e \<Rightarrow> dd_Devices db' = dd_Devices db \<or> (\<exists>onboard inp r. ob_Onboard ob = Some onboard \<and> onboard inp (dd_Devices db) = (r, dd_Devices db') \<and>
        (r = Inl e \<or> dv_fault env 1 \<noteq> None))"
proof -
  from assms(2) have order: "\<forall>xs. mset (dv_order env xs) = mset xs" .
  show ?thesis
    using assms(1)
  proof (cases rule: approve_cases)
    case (attached d attach)
    then show ?thesis using settle_done [OF attached(6)] GetFound_row [OF attached(1) order] by (cases ans) auto
  next
    case (refused e onboard inp devs)
    then show ?thesis by auto
  next
    case (created d onboard dev devs)
    then show ?thesis using settle_done [OF created(7)] GetFound_row [OF created(1) order] by (cases ans) (auto 4 4)
  qed auto
qed

definition demo_disc_env :: disc_env where
  "demo_disc_env = \<lparr>dv_id = \<lambda>n. ''dd'', dv_now = 7, dv_cidr = Some, dv_inet = Some, dv_known = \<lambda>c. True, dv_fault = \<lambda>n. None, dv_order = \<lambda>xs. rev (sort_key fd_SeenLast xs)\<rparr>"

definition demo_find :: "string \<Rightarrow> gotime \<Rightarrow> found_row" where
  "demo_find i seen = \<lparr>fd_ID = i, fd_RuleID = ''dr1'', fd_IP = ''192.0.2.1'', fd_SysName = ''r1'', fd_SysDescr = [], fd_SysObjectID = [], fd_ConnectorID = [],
     fd_CredentialID = ''c1'', fd_State = Pending, fd_SeenLast = seen\<rparr>"

definition demo_disc :: "found_row list \<Rightarrow> disc_db" where
  "demo_disc rows = \<lparr>dd_Rules = [\<lparr>rl_ID = ''dr1'', rl_SiteID = ''s1'', rl_CIDR = ''192.0.2.0/30'', rl_CredentialIDs = [''c1''], rl_Enabled = True\<rparr>], dd_Found = rows, dd_Devices = []\<rparr>"

lemmas demo_defs = demo_disc_env_def demo_find_def demo_disc_def

lemma demo_disc_order: "mset (dv_order demo_disc_env xs) = mset xs" "sorted_wrt (\<lambda>f g. fd_SeenLast g \<le> fd_SeenLast f) (dv_order demo_disc_env xs)"
  using sorted_sort_key [of fd_SeenLast xs] by (simp_all add: demo_disc_env_def sorted_wrt_rev sorted_map)

theorem approve_outcome_witness:
  "let ob = \<lparr>ob_Match = None, ob_Attach = None, ob_Onboard = Some (\<lambda>inp ds. (Inr ''d1'', \<lparr>mg_ID = ''d1'', mg_IP = oi_MgmtIP inp, mg_Retired = False\<rparr> # ds))\<rparr>;
       req = \<lparr>rq_Name = [], rq_SiteID = [], rq_Force = False, rq_AttachTo = []\<rparr>;
       db' = snd (approve demo_disc_env ob req ''dd1'' (demo_disc [demo_find ''dd1'' 1]))
   in map_option snd (mark_of ''dd1'' db') = Some Approved \<and> dd_Devices db' = [\<lparr>mg_ID = ''d1'', mg_IP = ''192.0.2.1'', mg_Retired = False\<rparr>]"
proof -
  define ob :: onboarding where "ob = \<lparr>ob_Match = None, ob_Attach = None, ob_Onboard = Some (\<lambda>inp ds. (Inr ''d1'', \<lparr>mg_ID = ''d1'', mg_IP = oi_MgmtIP inp, mg_Retired = False\<rparr> # ds))\<rparr>"
  define req where "req = \<lparr>rq_Name = [], rq_SiteID = [], rq_Force = False, rq_AttachTo = []\<rparr>"
  obtain ans db' where a: "approve demo_disc_env ob req ''dd1'' (demo_disc [demo_find ''dd1'' 1]) = (ans, db')" by fastforce
  have "ans = Created ''d1''"
    using a by (simp add: approve_def GetFound_def ListFound_def settle_def SetFoundState_def site_of_def is_managed_def demo_defs ob_def req_def)
  with approve_outcome [OF a] demo_disc_order a show ?thesis
    by (simp add: ob_def [symmetric] req_def [symmetric] Let_def) (simp add: ob_def request_for_def demo_defs)
qed

subsection \<open>Finds out of reach\<close>

lemma sorted_prefix_full:
  assumes "sorted_wrt (\<lambda>a b. k b \<le> (k a :: int)) xs" and "x \<in> set (take n xs)" and "n \<le> length (filter (\<lambda>y. k x < k y) xs)"
  shows False
proof -
  from assms(2) obtain j where j: "j < n" "j < length xs" "x = xs ! j" by (auto simp: in_set_conv_nth)
  have "{i. i < length xs \<and> k x < k (xs ! i)} \<subseteq> {..<j}"
  proof
    fix i assume "i \<in> {i. i < length xs \<and> k x < k (xs ! i)}"
    then have i: "i < length xs" "k x < k (xs ! i)" by auto
    have "\<not> j < i" using sorted_wrt_nth_less [OF assms(1), of j i] i j by auto
    moreover have "i \<noteq> j" using i j by auto
    ultimately show "i \<in> {..<j}" by simp
  qed
  then have "card {i. i < length xs \<and> k x < k (xs ! i)} \<le> j" using card_mono [of "{..<j}"] by fastforce
  with assms(3) j show False by (simp add: length_filter_conv_card)
qed

text \<open>The finds the list shows: those whose rule exists.\<close>

definition listed :: "disc_db \<Rightarrow> found_row list" where
  "listed db = filter (\<lambda>f. site_of db (fd_RuleID f) \<noteq> None) (dd_Found db)"

text \<open>
  A find can become unreachable: the approval route looks a find up in the list of the 500 finds seen
  last, of all rules and in whatever state. Where 500 finds were seen later than a find, its approval is
  refused, with whatever request, and nothing changes.
\<close>

theorem found_beyond_500:
  assumes "\<forall>xs. mset (dv_order env xs) = mset xs \<and> sorted_wrt (\<lambda>f g. fd_SeenLast g \<le> fd_SeenLast f) (dv_order env xs)"
    and "\<forall>f \<in> set (listed db). fd_ID f = i \<longrightarrow> 500 \<le> length (filter (\<lambda>g. fd_SeenLast f < fd_SeenLast g) (listed db))"
  shows "\<exists>e. approve env ob req i db = (Refused e, db)"
proof -
  have False if d: "GetFound env i db = Inr d" for d
  proof -
    let ?xs = "dv_order env (listed db)"
    from assms(1) have m: "mset ?xs = mset (listed db)" and s: "sorted_wrt (\<lambda>f g. fd_SeenLast g \<le> fd_SeenLast f) ?xs" by auto
    from d have f: "dc_Row d \<in> set (take 500 ?xs)" "fd_ID (dc_Row d) = i"
      by (auto simp: GetFound_def ListFound_def listed_def find_Some_iff in_set_conv_nth split: sum.splits option.splits)
    then have "dc_Row d \<in> set (listed db)" using m by (metis in_set_takeD mset_eq_setD)
    with assms(2) f(2) have "500 \<le> size (filter_mset (\<lambda>g. fd_SeenLast (dc_Row d) < fd_SeenLast g) (mset (listed db)))"
      by (simp flip: mset_filter)
    then have "500 \<le> length (filter (\<lambda>g. fd_SeenLast (dc_Row d) < fd_SeenLast g) ?xs)"
      unfolding m [symmetric] by (simp flip: mset_filter)
    with sorted_prefix_full [OF s f(1)] show False by simp
  qed
  then show ?thesis
    by (cases "GetFound env i db") (auto simp: approve_def split: option.splits)
qed

theorem found_beyond_500_witness:
  "\<exists>e. approve demo_disc_env \<lparr>ob_Match = None, ob_Attach = None, ob_Onboard = Some (\<lambda>inp ds. (Inr ''d1'', ds))\<rparr> \<lparr>rq_Name = [], rq_SiteID = [], rq_Force = True, rq_AttachTo = []\<rparr>
     ''dd1'' (demo_disc (demo_find ''dd1'' 1 # map (\<lambda>n. demo_find (nat_str n) 2) [0..<500])) = (Refused e, demo_disc (demo_find ''dd1'' 1 # map (\<lambda>n. demo_find (nat_str n) 2) [0..<500]))"
proof (rule found_beyond_500)
  show "\<forall>xs. mset (dv_order demo_disc_env xs) = mset xs \<and> sorted_wrt (\<lambda>f g. fd_SeenLast g \<le> fd_SeenLast f) (dv_order demo_disc_env xs)"
    using demo_disc_order by blast
  let ?rows = "demo_find ''dd1'' 1 # map (\<lambda>n. demo_find (nat_str n) 2) [0..<500]"
  have all: "listed (demo_disc ?rows) = ?rows"
    by (auto simp: listed_def demo_defs site_of_def filter_map o_def)
  have dd: "nat_str n \<noteq> ''dd1''" for n using nat_str_chars [of "CHR ''d''" n] by (auto simp: is_digit_def)
  show "\<forall>f \<in> set (listed (demo_disc ?rows)). fd_ID f = ''dd1'' \<longrightarrow> 500 \<le> length (filter (\<lambda>g. fd_SeenLast f < fd_SeenLast g) (listed (demo_disc ?rows)))"
  proof (intro ballI impI)
    fix f assume "f \<in> set (listed (demo_disc ?rows))" and i: "fd_ID f = ''dd1''"
    then have "f = demo_find ''dd1'' 1" unfolding all using dd by (auto simp: demo_find_def)
    then show "500 \<le> length (filter (\<lambda>g. fd_SeenLast f < fd_SeenLast g) (listed (demo_disc ?rows)))"
      unfolding all by (simp add: demo_find_def filter_map o_def)
  qed
qed

end
