(* ===== verification/Poll_Buffer.thy ===== *)
theory Poll_Buffer
  imports Errx "HOL-Library.Char_ord" "HOL-Library.List_Lexorder" "HOL-Library.Multiset"
begin

text \<open>
  The poller's overflow store (\<open>internal/collection/pollerrt/buffer.go\<close>): metric batches are kept as
  one file each while the link to the core is down, the oldest dropped at a byte cap, and replayed
  oldest first.

  A directory is a map from the names of its regular files to their contents. The record \<open>buf_env\<close>
  holds what the buffer calls: the clock, the JSON encoding of a batch, and which file operations fail;
  a write that fails may leave any content behind. \<open>Drain\<close> runs with fuel, and \<open>None\<close> is a run that
  has not returned.

  Shown: the buffer refines a queue that forgets its oldest entries at the cap; a replay over a working
  link empties it in order and returns; and a file that can be neither used nor removed makes the
  replay spin without ever returning.
\<close>

type_synonym dir = "(string, string) gomap"

record DiskBuffer =
  MaxBytes :: int
  dropped :: int
  files :: dir

record 'b buf_env =
  w_now :: nat
  w_marshal :: "'b \<Rightarrow> goerr + string"
  w_unmarshal :: "string \<Rightarrow> goerr + 'b"
  w_write :: "string \<Rightarrow> (goerr \<times> string option) option"
  w_remove :: "string \<Rightarrow> bool"
  w_info :: "string \<Rightarrow> bool"
  w_read :: "string \<Rightarrow> bool"

definition NewDiskBuffer :: "goerr option \<Rightarrow> goerr + DiskBuffer" where
  "NewDiskBuffer mkdir = (case mkdir of Some e \<Rightarrow> Inl (ErrMsg ''buffer'' e)
     | None \<Rightarrow> Inr \<lparr>MaxBytes = 64 * 2 ^ 20, dropped = 0, files = []\<rparr>)"

text \<open>\<open>filepath.Ext\<close>: from the last dot on.\<close>

definition ext :: "string \<Rightarrow> string" where
  "ext name = (if CHR ''.'' \<in> set name then CHR ''.'' # rev (takeWhile (\<lambda>c. c \<noteq> CHR ''.'') (rev name)) else [])"

definition inventory :: "'b buf_env \<Rightarrow> DiskBuffer \<Rightarrow> (string \<times> int) list \<times> int" where
  "inventory env b =
     (let fs = map (\<lambda>(name, raw). (name, int (length raw))) (filter (\<lambda>(name, raw). ext name = ''.batch'' \<and> w_info env name) (files b))
      in (sort_key fst fs, sum_list (map snd fs)))"

definition rm_file :: "'b buf_env \<Rightarrow> string \<Rightarrow> DiskBuffer \<Rightarrow> DiskBuffer" where
  "rm_file env name b = (if w_remove env name then b\<lparr>files := AList.delete name (files b)\<rparr> else b)"

primrec cap_loop :: "'b buf_env \<Rightarrow> (string \<times> int) list \<Rightarrow> int \<Rightarrow> DiskBuffer \<Rightarrow> DiskBuffer" where
  "cap_loop env [] tot b = b"
| "cap_loop env (f # fs) tot b =
     (if tot \<le> MaxBytes b then b
      else cap_loop env fs (tot - snd f) ((rm_file env (fst f) b)\<lparr>dropped := dropped b + 1\<rparr>))"

definition enforceCap :: "'b buf_env \<Rightarrow> DiskBuffer \<Rightarrow> DiskBuffer" where
  "enforceCap env b = (case inventory env b of (fs, tot) \<Rightarrow> cap_loop env fs tot b)"

definition batch_name :: "nat \<Rightarrow> string" where
  "batch_name t = nat_str t @ ''.batch''"

definition Put :: "'b buf_env \<Rightarrow> 'b \<Rightarrow> DiskBuffer \<Rightarrow> goerr option \<times> DiskBuffer" where
  "Put env batch b =
     (case w_marshal env batch of Inl e \<Rightarrow> (Some e, b)
      | Inr raw \<Rightarrow>
          let name = batch_name (w_now env) in
          case w_write env name of
            Some (e, left) \<Rightarrow> (Some e, case left of None \<Rightarrow> b | Some c \<Rightarrow> b\<lparr>files := AList.update name c (files b)\<rparr>)
          | None \<Rightarrow> (None, enforceCap env (b\<lparr>files := AList.update name raw (files b)\<rparr>)))"

definition Depth :: "'b buf_env \<Rightarrow> DiskBuffer \<Rightarrow> nat \<times> int" where
  "Depth env b = (case inventory env b of (fs, tot) \<Rightarrow> (length fs, tot))"

text \<open>The replay: \<open>cancelled n\<close> and \<open>stopped n\<close> say whether the context is done before the n-th round and in its pause.\<close>

primrec drain_loop ::
  "nat \<Rightarrow> 'b buf_env \<Rightarrow> (nat \<Rightarrow> bool) \<Rightarrow> (nat \<Rightarrow> bool) \<Rightarrow> (nat \<Rightarrow> 'b \<Rightarrow> goerr option) \<Rightarrow> nat \<Rightarrow> DiskBuffer \<Rightarrow> 'b list \<Rightarrow>
     ('b list \<times> DiskBuffer) option" where
  "drain_loop 0 env cancelled stopped send n b sent = None"
| "drain_loop (Suc fuel) env cancelled stopped send n b sent =
     (if cancelled n then Some (sent, b)
      else case fst (inventory env b) of [] \<Rightarrow> Some (sent, b)
      | f # fs \<Rightarrow>
          (case map_of (files b) (fst f) of
             Some raw \<Rightarrow>
               if \<not> w_read env (fst f) then drain_loop fuel env cancelled stopped send (n + 1) (rm_file env (fst f) b) sent
               else (case w_unmarshal env raw of
                 Inl e \<Rightarrow> drain_loop fuel env cancelled stopped send (n + 1) (rm_file env (fst f) b) sent
               | Inr batch \<Rightarrow>
                   if send n batch \<noteq> None then Some (sent, b)
                   else let b = rm_file env (fst f) b; sent = sent @ [batch] in
                     if stopped n then Some (sent, b)
                     else drain_loop fuel env cancelled stopped send (n + 1) b sent)
           | None \<Rightarrow> drain_loop fuel env cancelled stopped send (n + 1) (rm_file env (fst f) b) sent))"

definition buf_Drain :: "nat \<Rightarrow> 'b buf_env \<Rightarrow> (nat \<Rightarrow> bool) \<Rightarrow> (nat \<Rightarrow> bool) \<Rightarrow> (nat \<Rightarrow> 'b \<Rightarrow> goerr option) \<Rightarrow> DiskBuffer \<Rightarrow>
    ('b list \<times> DiskBuffer) option" where
  "buf_Drain fuel env cancelled stopped send b = drain_loop fuel env cancelled stopped send 0 b []"

subsection \<open>Names sort by time\<close>

lemma digit_char_mono: "a < b \<Longrightarrow> b < 10 \<Longrightarrow> digit_char a < digit_char b"
  by (simp add: digit_char_def less_char_def)

lemma lex_append_eq: "length (a :: string) = length b \<Longrightarrow> a < b \<Longrightarrow> a @ x < b @ y"
  unfolding list_less_def by (rule lexord_sufI) simp_all

lemma nat_str_less:
  "length (nat_str m) = length (nat_str n) \<Longrightarrow> m < n \<Longrightarrow> nat_str m < nat_str n"
proof (induction n arbitrary: m rule: nat_str.induct)
  case (1 n)
  show ?case
  proof (cases "n < 10")
    case True
    with "1.prems"(2) show ?thesis by (simp add: nat_str.simps digit_char_mono)
  next
    case False
    have "m \<ge> 10"
    proof (rule ccontr)
      assume "\<not> m \<ge> 10"
      with "1.prems"(1) False have "length (nat_str (n div 10)) = 0"
        by (simp add: nat_str.simps [of m] nat_str.simps [of n])
      then show False by simp
    qed
    then have m: "nat_str m = nat_str (m div 10) @ [digit_char (m mod 10)]" by (simp add: nat_str.simps [of m])
    have n: "nat_str n = nat_str (n div 10) @ [digit_char (n mod 10)]" using False by (simp add: nat_str.simps [of n])
    have len: "length (nat_str (m div 10)) = length (nat_str (n div 10))" using "1.prems"(1) m n by simp
    consider "m div 10 < n div 10" | "m div 10 = n div 10" "m mod 10 < n mod 10"
      using "1.prems"(2) by (metis div_le_mono le_neq_implies_less less_imp_le_nat mod_less_eq_dividend
          div_mult_mod_eq nat_add_left_cancel_less)
    then show ?thesis
    proof cases
      case 1
      with "1.IH" [OF False len] show ?thesis unfolding m n by (intro lex_append_eq len) simp
    next
      case 2
      then have "digit_char (m mod 10) < digit_char (n mod 10)" by (simp add: digit_char_mono)
      with 2 show ?thesis unfolding m n by (simp add: list_less_def lexord_append_leftI)
    qed
  qed
qed

lemma batch_name_less:
  "length (nat_str m) = length (nat_str n) \<Longrightarrow> m < n \<Longrightarrow> batch_name m < batch_name n"
  by (simp add: batch_name_def lex_append_eq nat_str_less)

lemma ext_batch [simp]: "ext (batch_name t) = ''.batch''"
  by (simp add: ext_def batch_name_def)

subsection \<open>The queue a directory stands for\<close>

text \<open>The batch files by name, and their contents.\<close>

definition entries :: "DiskBuffer \<Rightarrow> (string \<times> string) list" where
  "entries b = sort_key fst (filter (\<lambda>(name, raw). ext name = ''.batch'') (files b))"

definition contents :: "DiskBuffer \<Rightarrow> string list" where
  "contents b = map snd (entries b)"

definition bytes_of :: "string list \<Rightarrow> int" where
  "bytes_of q = sum_list (map (\<lambda>raw. int (length raw)) q)"

text \<open>The abstract buffer: drop the oldest while the rest is too large.\<close>

primrec capped :: "int \<Rightarrow> string list \<Rightarrow> string list" where
  "capped m [] = []"
| "capped m (raw # q) = (if bytes_of (raw # q) \<le> m then raw # q else capped m q)"

definition enqueue :: "int \<Rightarrow> string \<Rightarrow> string list \<Rightarrow> string list" where
  "enqueue m raw q = capped m (q @ [raw])"

definition working :: "'b buf_env \<Rightarrow> bool" where
  "working env \<longleftrightarrow> w_write env = (\<lambda>n. None) \<and> w_remove env = (\<lambda>n. True) \<and> w_info env = (\<lambda>n. True) \<and> w_read env = (\<lambda>n. True)"

lemma capped_suffix: "\<exists>k. capped m q = drop k q \<and> (bytes_of (capped m q) \<le> m \<or> capped m q = [])"
proof (induction q)
  case (Cons raw q)
  then obtain k where "capped m q = drop k q" "bytes_of (capped m q) \<le> m \<or> capped m q = []" by blast
  then show ?case
    by (cases "bytes_of (raw # q) \<le> m") (auto intro: exI [where x = 0] exI [where x = "Suc k"])
qed simp

lemma capped_fits: "bytes_of q \<le> m \<Longrightarrow> capped m q = q"
  by (cases q) simp_all

lemma enqueue_bytes: "0 \<le> m \<Longrightarrow> bytes_of (enqueue m raw q) \<le> m"
  using capped_suffix [of m "q @ [raw]"] by (auto simp: enqueue_def bytes_of_def)

lemma insort_map: "insort_key f (g x) (map g xs) = map g (insort_key (f \<circ> g) x xs)"
  by (induction xs) simp_all

lemma sort_key_map: "sort_key f (map g xs) = map g (sort_key (f \<circ> g) xs)"
  by (induction xs) (simp_all add: insort_map comp_def)

lemma insort_snoc: "f a \<le> f x \<Longrightarrow> insort_key f a (ys @ [x]) = insort_key f a ys @ [x]"
  by (induction ys) auto

lemma sort_key_snoc: "\<forall>y\<in>set xs. f y \<le> f x \<Longrightarrow> sort_key f (xs @ [x]) = sort_key f xs @ [x]"
  by (induction xs) (simp_all add: insort_snoc)

lemma inventory_entries:
  assumes "w_info env = (\<lambda>n. True)"
  shows "inventory env b = (map (\<lambda>(name, raw). (name, int (length raw))) (entries b), bytes_of (contents b))"
proof -
  let ?g = "\<lambda>(name, raw). (name, int (length raw))" and ?fs = "filter (\<lambda>(name, raw). ext name = ''.batch'') (files b)"
  have "sort_key fst (map ?g ?fs) = map ?g (entries b)"
    by (simp add: sort_key_map entries_def comp_def case_prod_beta)
  moreover have "sum_list (map snd (map ?g ?fs)) = bytes_of (contents b)"
  proof -
    have "mset (map snd (map ?g ?fs)) = mset (map (\<lambda>raw. int (length raw)) (contents b))"
      by (simp add: contents_def entries_def comp_def case_prod_beta)
    from arg_cong [OF this, of sum_mset] show ?thesis by (simp only: sum_mset_sum_list bytes_of_def)
  qed
  ultimately show ?thesis using assms by (simp add: inventory_def)
qed

lemma entries_delete:
  "entries (b\<lparr>files := AList.delete name (files b)\<rparr>) = filter (\<lambda>e. name \<noteq> fst e) (entries b)"
  by (simp add: entries_def AList.delete_eq filter_sort case_prod_beta conj_commute)

lemma entries_distinct: "gm_ok (files b) \<Longrightarrow> distinct (map fst (entries b))"
  by (simp add: entries_def distinct_map distinct_map_filter inj_on_def)

lemma entries_set: "set (entries b) = {(n, r) \<in> set (files b). ext n = ''.batch''}"
  by (auto simp: entries_def)

lemma entries_pop:
  assumes "gm_ok (files b)" and "entries b = e # es"
  shows "entries (b\<lparr>files := AList.delete (fst e) (files b)\<rparr>) = es"
  using entries_distinct [OF assms(1)] assms(2) by (auto simp: entries_delete filter_id_conv)

lemma cap_loop_entries:
  assumes "w_remove env = (\<lambda>n. True)" and "gm_ok (files b)" and "entries b = es"
  shows "contents (cap_loop env (map (\<lambda>(name, raw). (name, int (length raw))) es) (bytes_of (map snd es)) b) =
      capped (MaxBytes b) (map snd es) \<and>
    gm_ok (files (cap_loop env (map (\<lambda>(name, raw). (name, int (length raw))) es) (bytes_of (map snd es)) b)) \<and>
    dropped (cap_loop env (map (\<lambda>(name, raw). (name, int (length raw))) es) (bytes_of (map snd es)) b) =
      dropped b + int (length es) - int (length (capped (MaxBytes b) (map snd es))) \<and>
    MaxBytes (cap_loop env (map (\<lambda>(name, raw). (name, int (length raw))) es) (bytes_of (map snd es)) b) = MaxBytes b"
  using assms
proof (induction es arbitrary: b)
  case Nil
  then show ?case by (simp add: contents_def)
next
  case (Cons e es)
  obtain n r where e: "e = (n, r)" by force
  let ?b = "(rm_file env n b)\<lparr>dropped := dropped b + 1\<rparr>"
  have rm: "rm_file env n b = b\<lparr>files := AList.delete n (files b)\<rparr>" using Cons.prems(1) by (simp add: rm_file_def)
  have ok: "gm_ok (files ?b)" using Cons.prems(2) by (simp add: rm distinct_delete)
  have "entries (b\<lparr>files := AList.delete n (files b)\<rparr>) = es"
    using entries_pop [OF Cons.prems(2,3)] by (simp add: e)
  then have en: "entries ?b = es" by (simp add: rm entries_def)
  have tot: "bytes_of (map snd (e # es)) - int (length r) = bytes_of (map snd es)" by (simp add: bytes_of_def e)
  show ?case
  proof (cases "bytes_of (map snd (e # es)) \<le> MaxBytes b")
    case True
    then show ?thesis using Cons.prems by (simp add: contents_def)
  next
    case False
    with Cons.IH [OF Cons.prems(1) ok en] tot show ?thesis by (simp add: e rm)
  qed
qed

lemma enforceCap_contents:
  assumes "working env" and "gm_ok (files b)"
  shows "contents (enforceCap env b) = capped (MaxBytes b) (contents b) \<and> gm_ok (files (enforceCap env b)) \<and>
    dropped (enforceCap env b) = dropped b + int (length (contents b)) - int (length (capped (MaxBytes b) (contents b))) \<and>
    MaxBytes (enforceCap env b) = MaxBytes b"
proof -
  have env: "w_info env = (\<lambda>n. True)" "w_remove env = (\<lambda>n. True)" using assms(1) by (auto simp: working_def)
  show ?thesis
    using cap_loop_entries [OF env(2) assms(2) refl] inventory_entries [OF env(1), of b]
    by (simp add: enforceCap_def contents_def)
qed

lemma update_fresh: "k \<notin> fst ` set al \<Longrightarrow> AList.update k v al = al @ [(k, v)]"
  by (induction al) auto

lemma contents_update:
  assumes "\<forall>n \<in> fst ` set (files b). ext n = ''.batch'' \<longrightarrow> n < batch_name t" and "batch_name t \<notin> fst ` set (files b)"
  shows "contents (b\<lparr>files := AList.update (batch_name t) raw (files b)\<rparr>) = contents b @ [raw]"
proof -
  have "sort_key fst (filter (\<lambda>(name, raw). ext name = ''.batch'') (files b) @ [(batch_name t, raw)]) =
      sort_key fst (filter (\<lambda>(name, raw). ext name = ''.batch'') (files b)) @ [(batch_name t, raw)]"
    using assms(1) by (intro sort_key_snoc) (force intro: less_imp_le)
  then show ?thesis using assms(2) by (simp add: contents_def entries_def update_fresh)
qed

subsection \<open>Refinement\<close>

text \<open>The directory holds batches named before \<open>t\<close> only.\<close>

definition before :: "nat \<Rightarrow> DiskBuffer \<Rightarrow> bool" where
  "before t b \<longleftrightarrow> gm_ok (files b) \<and> (\<forall>n \<in> fst ` set (files b). n < batch_name t)"

lemma Put_refines:
  assumes "working env" and "before (w_now env) b" and "w_marshal env batch = Inr raw"
  shows "fst (Put env batch b) = None \<and> contents (snd (Put env batch b)) = enqueue (MaxBytes b) raw (contents b) \<and>
    gm_ok (files (snd (Put env batch b))) \<and> MaxBytes (snd (Put env batch b)) = MaxBytes b \<and>
    dropped (snd (Put env batch b)) =
      dropped b + int (length (contents b) + 1) - int (length (enqueue (MaxBytes b) raw (contents b))) \<and>
    fst ` set (files (snd (Put env batch b))) \<subseteq> insert (batch_name (w_now env)) (fst ` set (files b))"
proof -
  define b1 where "b1 = b\<lparr>files := AList.update (batch_name (w_now env)) raw (files b)\<rparr>"
  have put: "Put env batch b = (None, enforceCap env b1)"
    using assms(1,3) by (simp add: Put_def working_def b1_def Let_def)
  have c: "contents b1 = contents b @ [raw]" using assms(2) unfolding b1_def by (intro contents_update) (auto simp: before_def)
  have ok: "gm_ok (files b1)" using assms(2) by (simp add: b1_def before_def distinct_update)
  have sub: "fst ` set (files (cap_loop env fs tot b')) \<subseteq> fst ` set (files b')" for fs tot and b' :: DiskBuffer
  proof (induction fs arbitrary: tot b')
    case (Cons f fs)
    have "fst ` set (files (rm_file env (fst f) b')) \<subseteq> fst ` set (files b')"
      by (auto simp: rm_file_def AList.delete_eq)
    with Cons [of "tot - snd f" "(rm_file env (fst f) b')\<lparr>dropped := dropped b' + 1\<rparr>"] show ?case by auto
  qed simp
  have "fst ` set (files (enforceCap env b1)) \<subseteq> fst ` set (files b1)"
    using sub by (simp add: enforceCap_def split: prod.splits)
  also have "\<dots> \<subseteq> insert (batch_name (w_now env)) (fst ` set (files b))" by (auto simp: b1_def dom_update)
  finally show ?thesis
    using put c enforceCap_contents [OF assms(1) ok] by (simp add: b1_def enqueue_def)
qed

text \<open>A run of puts, each at its own time.\<close>

primrec put_all :: "'b buf_env \<Rightarrow> (nat \<times> 'b) list \<Rightarrow> DiskBuffer \<Rightarrow> DiskBuffer" where
  "put_all env [] b = b"
| "put_all env (x # xs) b = put_all env xs (snd (Put (env\<lparr>w_now := fst x\<rparr>) (snd x) b))"

definition nano :: "nat \<Rightarrow> bool" where
  "nano t \<longleftrightarrow> length (nat_str t) = 19"

lemma before_mono: "before t b \<Longrightarrow> nano t \<Longrightarrow> nano t' \<Longrightarrow> t < t' \<Longrightarrow> before t' b \<and> batch_name t < batch_name t'"
  using batch_name_less [of t t'] by (fastforce simp: before_def nano_def dest: less_trans)

lemma put_all_refines:
  assumes "working env" and "sorted_wrt (<) (map fst xs)" and "\<forall>x\<in>set xs. nano (fst x) \<and> w_marshal env (snd x) = Inr (enc (snd x))"
    and "xs = [] \<or> before (fst (hd xs)) b" and "gm_ok (files b)"
  shows "contents (put_all env xs b) = foldl (\<lambda>q x. enqueue (MaxBytes b) (enc (snd x)) q) (contents b) xs \<and>
    gm_ok (files (put_all env xs b)) \<and> MaxBytes (put_all env xs b) = MaxBytes b \<and>
    dropped (put_all env xs b) + int (length (contents (put_all env xs b))) = dropped b + int (length (contents b)) + int (length xs)"
  using assms(2-)
proof (induction xs arbitrary: b)
  case (Cons x xs)
  let ?env = "env\<lparr>w_now := fst x\<rparr>" and ?b = "snd (Put (env\<lparr>w_now := fst x\<rparr>) (snd x) b)"
  have "working ?env" "before (w_now ?env) b" "w_marshal ?env (snd x) = Inr (enc (snd x))"
    using assms(1) Cons.prems by (auto simp: working_def)
  note p = Put_refines [OF this]
  have hd: "before (fst (hd xs)) ?b" if ne: "xs \<noteq> []"
  proof -
    obtain y ys where y: "xs = y # ys" using ne by (cases xs) auto
    have m: "before (fst y) b" "batch_name (fst x) < batch_name (fst y)"
      using before_mono [of "fst x" b "fst y"] Cons.prems y by auto
    have "n < batch_name (fst y)" if "n \<in> fst ` set (files ?b)" for n
    proof -
      have "n \<in> insert (batch_name (fst x)) (fst ` set (files b))" using that p by auto
      then show ?thesis using m by (auto simp: before_def)
    qed
    then show ?thesis using p y by (simp add: before_def)
  qed
  have "sorted_wrt (<) (map fst xs)" "\<forall>x\<in>set xs. nano (fst x) \<and> w_marshal env (snd x) = Inr (enc (snd x))"
    "xs = [] \<or> before (fst (hd xs)) ?b" "gm_ok (files ?b)" using Cons.prems hd p by auto
  from Cons.IH [OF this] p show ?case by (elim conjE) (intro conjI, simp_all add: algebra_simps)
qed simp

subsection \<open>Replay\<close>

text \<open>The batches a list of stored contents stands for: what does not decode is discarded.\<close>

definition decoded :: "'b buf_env \<Rightarrow> string list \<Rightarrow> 'b list" where
  "decoded env q = concat (map (\<lambda>raw. case w_unmarshal env raw of Inl e \<Rightarrow> [] | Inr x \<Rightarrow> [x]) q)"

lemma entries_lookup: "gm_ok (files b) \<Longrightarrow> entries b = e # es \<Longrightarrow> map_of (files b) (fst e) = Some (snd e)"
proof -
  assume ok: "gm_ok (files b)" and "entries b = e # es"
  then have "e \<in> {(n, r) \<in> set (files b). ext n = ''.batch''}" using entries_set [of b] by auto
  with ok show ?thesis by (auto simp: map_of_eq_Some_iff)
qed

lemma inventory_first:
  "working env \<Longrightarrow> entries b = e # es \<Longrightarrow> \<exists>fs. fst (inventory env b) = (fst e, int (length (snd e))) # fs"
  using inventory_entries [of env b] by (auto simp: working_def split: prod.splits)

lemma inventory_empty: "working env \<Longrightarrow> entries b = [] \<Longrightarrow> fst (inventory env b) = []"
  using inventory_entries [of env b] by (simp add: working_def)

lemma drain_loop_returns:
  assumes "working env" and "gm_ok (files b)" and "length (contents b) < fuel"
  shows "\<exists>k b'. drain_loop fuel env cancelled stopped send n b sent = Some (sent @ decoded env (take k (contents b)), b') \<and>
    contents b' = drop k (contents b) \<and> gm_ok (files b') \<and>
    ((\<forall>i. \<not> cancelled i \<and> \<not> stopped i) \<and> (\<forall>i x. send i x = None) \<longrightarrow> contents b' = [])"
  using assms(2,3)
proof (induction fuel arbitrary: n b sent)
  case (Suc fuel)
  show ?case
  proof (cases "entries b")
    case Nil
    then have "contents b = []" by (simp add: contents_def)
    then show ?thesis using Suc.prems inventory_empty [OF assms(1) Nil] by (auto simp: decoded_def)
  next
    case (Cons e es)
    define b1 where "b1 = b\<lparr>files := AList.delete (fst e) (files b)\<rparr>"
    have rm: "rm_file env (fst e) b = b1" using assms(1) by (simp add: rm_file_def working_def b1_def)
    have c: "contents b = snd e # map snd es" using Cons by (simp add: contents_def)
    have c1: "contents b1 = map snd es" and ok1: "gm_ok (files b1)"
      using entries_pop [OF Suc.prems(1) Cons] Suc.prems(1) by (simp_all add: contents_def b1_def distinct_delete)
    have "length (contents b1) < fuel" using Suc.prems(2) c c1 by simp
    note ih = Suc.IH [OF ok1 this]
    obtain fs where inv: "fst (inventory env b) = (fst e, int (length (snd e))) # fs"
      using inventory_first [OF assms(1) Cons] by blast
    note simps = inv entries_lookup [OF Suc.prems(1) Cons] rm Let_def
    have rd: "w_read env = (\<lambda>n. True)" using assms(1) by (simp add: working_def)
    consider "cancelled n" | "\<not> cancelled n" "\<exists>err. w_unmarshal env (snd e) = Inl err"
      | x where "\<not> cancelled n" "w_unmarshal env (snd e) = Inr x" by (cases "w_unmarshal env (snd e)") auto
    then show ?thesis
    proof cases
      case 1
      then show ?thesis using Suc.prems by (intro exI [where x = 0] exI [where x = b]) (auto simp: decoded_def)
    next
      case 2
      then obtain k b' where r: "drain_loop fuel env cancelled stopped send (n + 1) b1 sent = Some (sent @ decoded env (take k (contents b1)), b')"
        "contents b' = drop k (contents b1)" "gm_ok (files b')"
        "(\<forall>i. \<not> cancelled i \<and> \<not> stopped i) \<and> (\<forall>i x. send i x = None) \<longrightarrow> contents b' = []"
        using ih [of "n + 1" sent] by blast
      with 2 show ?thesis
        by (intro exI [where x = "Suc k"] exI [where x = b']) (auto simp: simps rd c c1 decoded_def)
    next
      case (3 x)
      show ?thesis
      proof (cases "send n x = None \<and> \<not> stopped n")
        case True
        obtain k b' where r: "drain_loop fuel env cancelled stopped send (n + 1) b1 (sent @ [x]) =
            Some ((sent @ [x]) @ decoded env (take k (contents b1)), b')"
          "contents b' = drop k (contents b1)" "gm_ok (files b')"
          "(\<forall>i. \<not> cancelled i \<and> \<not> stopped i) \<and> (\<forall>i x. send i x = None) \<longrightarrow> contents b' = []"
          using ih [of "n + 1" "sent @ [x]"] by blast
        with 3 True show ?thesis
          by (intro exI [where x = "Suc k"] exI [where x = b']) (auto simp: simps rd c c1 decoded_def)
      next
        case False
        then show ?thesis
        proof (cases "send n x = None")
          case True
          with False 3 show ?thesis using ok1
            by (intro exI [where x = 1] exI [where x = b1]) (auto simp: simps rd c c1 decoded_def)
        next
          case False
          with 3 show ?thesis using Suc.prems(1)
            by (intro exI [where x = 0] exI [where x = b]) (auto simp: simps rd c decoded_def)
        qed
      qed
    qed
  qed
qed simp

text \<open>
  C24. The buffer refines a bounded queue: batches put at increasing times are held in the order of their
  arrival, the directory being at every moment what the abstract queue holds that forgets its oldest
  entries while it is too large; the stored bytes never exceed the cap; and every batch put is either
  held or counted as dropped.
\<close>

theorem buffer_refines_queue:
  assumes "working env" and "sorted_wrt (<) (map fst xs)"
    and "\<forall>x\<in>set xs. nano (fst x) \<and> w_marshal env (snd x) = Inr (enc (snd x))"
    and "files b = []" and "0 \<le> MaxBytes b"
  shows "contents (put_all env xs b) = foldl (\<lambda>q x. enqueue (MaxBytes b) (enc (snd x)) q) [] xs \<and>
    bytes_of (contents (put_all env xs b)) \<le> MaxBytes b \<and>
    int (length xs) = int (length (contents (put_all env xs b))) + (dropped (put_all env xs b) - dropped b)"
proof -
  have b: "xs = [] \<or> before (fst (hd xs)) b" "gm_ok (files b)" "contents b = []"
    using assms(4) by (auto simp: before_def contents_def entries_def)
  have "bytes_of (foldl (\<lambda>q x. enqueue (MaxBytes b) (enc (snd x)) q) [] xs) \<le> MaxBytes b"
    using assms(5) by (cases xs rule: rev_cases) (simp_all add: enqueue_bytes bytes_of_def [of "[]"])
  with put_all_refines [OF assms(1-3) b(1,2)] b(3) show ?thesis by auto
qed

text \<open>
  C38. Nothing is lost, duplicated or reordered by a replay: whatever the link and the context do, with a
  working disk a drain returns (one round more than there are files is enough), it has sent the batches
  of the oldest files in order, skipping only those that do not decode, and exactly the other files are
  left; over a link that stays up nothing is left.
\<close>

theorem Drain_returns:
  assumes "working env" and "gm_ok (files b)" and "length (contents b) < fuel"
  shows "\<exists>k b'. buf_Drain fuel env cancelled stopped send b = Some (decoded env (take k (contents b)), b') \<and>
    contents b' = drop k (contents b) \<and>
    ((\<forall>i. \<not> cancelled i \<and> \<not> stopped i) \<and> (\<forall>i x. send i x = None) \<longrightarrow> contents b' = [])"
  using drain_loop_returns [OF assms, of cancelled stopped send 0 "[]"] unfolding buf_Drain_def append_Nil by metis

text \<open>
  A replay that cannot end: when the oldest file is unreadable or does not decode and cannot be
  removed either, the loop reads it again at once, and no number of rounds makes the drain return; the
  batches behind it are never sent.
\<close>

theorem Drain_spins:
  assumes "w_info env = (\<lambda>n. True)" and "gm_ok (files b)" and "entries b = (name, raw) # es"
    and "\<not> w_read env name \<or> (\<exists>e. w_unmarshal env raw = Inl e)" and "\<not> w_remove env name" and "\<forall>n. \<not> cancelled n"
  shows "buf_Drain fuel env cancelled stopped send b = None"
proof -
  obtain fs where inv: "fst (inventory env b) = (name, int (length raw)) # fs"
    using inventory_entries [OF assms(1), of b] assms(3) by auto
  have lk: "map_of (files b) name = Some raw" using entries_lookup [OF assms(2,3)] by simp
  have rm: "rm_file env name b = b" using assms(5) by (simp add: rm_file_def)
  have "drain_loop fuel env cancelled stopped send n b sent = None" for n sent
  proof (induction fuel arbitrary: n sent)
    case (Suc fuel)
    show ?case
    proof (cases "w_read env name")
      case True
      then obtain e where "w_unmarshal env raw = Inl e" using assms(4) by blast
      then show ?thesis using True assms(6) Suc by (simp add: inv lk rm)
    next
      case False
      then show ?thesis using assms(6) Suc by (simp add: inv lk rm)
    qed
  qed simp
  then show ?thesis by (simp add: buf_Drain_def)
qed

subsection \<open>A concrete disk\<close>

definition demo_disk :: "string buf_env" where
  "demo_disk = \<lparr>w_now = 0, w_marshal = Inr, w_unmarshal = (\<lambda>raw. if raw = ''bad'' then Inl (ErrLeaf ''json'') else Inr raw),
     w_write = (\<lambda>n. None), w_remove = (\<lambda>n. True), w_info = (\<lambda>n. True), w_read = (\<lambda>n. True)\<rparr>"

lemma demo_working: "working demo_disk"
  by (simp add: working_def demo_disk_def)

definition demo_puts :: "(nat \<times> string) list" where
  "demo_puts = [(1700000000000000000, ''aaaa''), (1700000000000000001, ''bb''), (1700000000000000002, ''cc'')]"

lemma nano_range: "10 ^ 18 \<le> t \<Longrightarrow> t < 10 ^ 19 \<Longrightarrow> nano t"
proof -
  have "10 ^ k \<le> t \<Longrightarrow> t < 10 ^ Suc k \<Longrightarrow> length (nat_str t) = Suc k" for k t
  proof (induction k arbitrary: t)
    case (Suc k)
    then have "10 ^ k \<le> t div 10" "t div 10 < 10 ^ Suc k" by (simp_all add: less_eq_div_iff_mult_less_eq div_less_iff_less_mult)
    moreover have "\<not> t < 10" using Suc.prems(1) by (meson le_less_trans not_le one_le_numeral one_le_power self_le_power
          zero_less_Suc less_le_trans)
    ultimately show ?case using Suc.IH [of "t div 10"] by (subst nat_str.simps) simp
  qed (simp add: nat_str.simps)
  from this [of 18 t] show "10 ^ 18 \<le> t \<Longrightarrow> t < 10 ^ 19 \<Longrightarrow> nano t" by (simp add: nano_def)
qed

theorem buffer_refines_queue_witness:
  "contents (put_all demo_disk demo_puts \<lparr>MaxBytes = 5, dropped = 0, files = []\<rparr>) = [''bb'', ''cc'']"
proof -
  have "contents (put_all demo_disk demo_puts \<lparr>MaxBytes = 5, dropped = 0, files = []\<rparr>) =
      foldl (\<lambda>q x. enqueue 5 (id (snd x)) q) [] demo_puts"
    using buffer_refines_queue [OF demo_working, of demo_puts id "\<lparr>MaxBytes = 5, dropped = 0, files = []\<rparr>"]
    by (simp add: demo_puts_def nano_range demo_disk_def)
  then show ?thesis by (simp add: demo_puts_def enqueue_def bytes_of_def)
qed

definition demo_buffer :: DiskBuffer where
  "demo_buffer = \<lparr>MaxBytes = 100, dropped = 0, files = [(''2.batch'', ''two''), (''1.batch'', ''bad''), (''note.txt'', ''x'')]\<rparr>"

lemma demo_entries: "entries demo_buffer = [(''1.batch'', ''bad''), (''2.batch'', ''two'')]"
proof -
  have "filter (\<lambda>(name, raw). ext name = ''.batch'') (files demo_buffer) = [(''2.batch'', ''two''), (''1.batch'', ''bad'')]"
    by (simp add: demo_buffer_def ext_def)
  moreover have "''1.batch'' < ''2.batch''" by (simp add: less_char_def)
  ultimately show ?thesis by (auto simp: entries_def)
qed

theorem Drain_returns_witness:
  "\<exists>b'. buf_Drain 3 demo_disk (\<lambda>n. False) (\<lambda>n. False) (\<lambda>n x. None) demo_buffer = Some ([''two''], b') \<and> contents b' = []"
proof -
  have c: "contents demo_buffer = [''bad'', ''two'']" by (simp add: contents_def demo_entries)
  have ok: "gm_ok (files demo_buffer)" by (simp add: demo_buffer_def)
  obtain k b' where r: "buf_Drain 3 demo_disk (\<lambda>n. False) (\<lambda>n. False) (\<lambda>n x. None) demo_buffer =
      Some (decoded demo_disk (take k [''bad'', ''two'']), b')" "contents b' = drop k [''bad'', ''two'']" "contents b' = []"
    using Drain_returns [OF demo_working ok, of 3 "\<lambda>n. False" "\<lambda>n. False" "\<lambda>n x. None"] c by auto
  then have "take k [''bad'', ''two''] = [''bad'', ''two'']" by (metis append_Nil2 append_take_drop_id)
  with r show ?thesis by (simp add: decoded_def demo_disk_def)
qed

theorem Drain_spins_witness:
  "buf_Drain 1000 (demo_disk\<lparr>w_remove := (\<lambda>n. False)\<rparr>) (\<lambda>n. False) (\<lambda>n. False) (\<lambda>n x. None) demo_buffer = None"
  by (rule Drain_spins [OF _ _ demo_entries]) (simp_all add: demo_disk_def demo_buffer_def)

end
