(* ===== verification/Scheduler.thy ===== *)
theory Scheduler
  imports Schedule_Claims "HOL-Library.Sublist"
begin

text \<open>
  The scheduler's loop (\<open>internal/collection/app/scheduler.go\<close>): on every tick the leader announces the
  sites, claims due schedules and publishes one job for each, declaring a site's queue when it has not
  looked at it for a minute. The record \<open>tick_env\<close> holds what one tick meets: whether it leads, the
  clock, the answers of the broker, the vault and the tables; \<open>n\<close> numbers the jobs of a tick. What the
  scheduler does to the outside is a trace of events.

  Shown: every claimed schedule is either published once or counted as failed, and the jobs say what
  the schedules say; nothing is published to a queue that was not declared; a queue is declared at most
  once a minute; and the log names only changes between served and unserved.
\<close>

definition siteQueueRecheck :: int where "siteQueueRecheck = nanos_per_min"
definition siteAnnounce :: int where "siteAnnounce = 15 * nanos_per_s"

record SiteQueueState =
  qs_Consumers :: int
  qs_Queued :: int

record PollJob =
  j_JobID :: string
  j_DeviceID :: string
  j_SiteID :: string
  j_Family :: string
  j_Trigger :: string
  j_MgmtIP :: string
  j_Port :: int
  j_ConnectorID :: string
  j_Cred :: SNMPCred
  j_ScheduledAt :: gotime
  j_IntervalS :: int
  j_TimeoutMS :: int
  j_Retries :: int

datatype sched_event =
    EvAnnounce "string list"
  | EvDeclare string gotime gotime
  | EvRecord string SiteQueueState
  | EvUnserved string int
  | EvServed string
  | EvPublish string PollJob
  | EvTick nat nat nat

text \<open>The optional parts of a scheduler, and its batch size (zero means the default).\<close>

record Scheduler =
  sd_SiteHealth :: bool
  sd_Sites :: bool
  sd_Batch :: nat

record tick_env =
  k_leader :: bool
  k_start :: gotime
  k_active :: "(goerr \<times> bool) option"
  k_site_order :: "string list \<Rightarrow> string list"
  k_announce :: "string list \<Rightarrow> goerr option"
  k_claim :: claim_env
  k_check :: "nat \<Rightarrow> gotime"
  k_stamp :: "nat \<Rightarrow> gotime"
  k_declare :: "nat \<Rightarrow> string \<Rightarrow> goerr + SiteQueueState"
  k_record :: "nat \<Rightarrow> goerr option"
  k_vault :: "nat \<Rightarrow> vault"
  k_vclock :: "nat \<Rightarrow> gotime \<times> gotime"
  k_id :: "nat \<Rightarrow> string"
  k_publish :: "nat \<Rightarrow> PollJob \<Rightarrow> goerr option"

text \<open>What \<open>Run\<close> keeps between ticks, with the tables, the credential cache and the trace.\<close>

record sched =
  lastQueueCheck :: "(string, gotime) gomap"
  lastAnnounce :: gotime
  hadConsumers :: "(string, bool) gomap"
  s_polls :: poll_db
  s_creds :: Resolver
  s_trace :: "sched_event list"

definition emit :: "sched_event \<Rightarrow> sched \<Rightarrow> sched" where
  "emit ev s = s\<lparr>s_trace := s_trace s @ [ev]\<rparr>"

subsection \<open>The loop\<close>

definition noteSiteQueue :: "Scheduler \<Rightarrow> goerr option \<Rightarrow> string \<Rightarrow> SiteQueueState \<Rightarrow> sched \<Rightarrow> sched" where
  "noteSiteQueue cfg rec_err site st s0 =
     (let s1 = (if sd_SiteHealth cfg \<and> rec_err = None then emit (EvRecord site st) s0 else s0);
          served = (0 < qs_Consumers st);
          prev = map_of (hadConsumers s1) site;
          s2 = s1\<lparr>hadConsumers := AList.update site served (hadConsumers s1)\<rparr>
      in if prev = Some served then s2
         else if \<not> served then emit (EvUnserved site (qs_Queued st)) s2
         else if prev \<noteq> None then emit (EvServed site) s2
         else s2)"

definition job_of :: "tick_env \<Rightarrow> nat \<Rightarrow> DueSchedule \<Rightarrow> SNMPCred \<Rightarrow> PollJob" where
  "job_of env n d cred = \<lparr>j_JobID = k_id env n, j_DeviceID = d_DeviceID d, j_SiteID = d_SiteID d, j_Family = d_Family d, j_Trigger = [],
     j_MgmtIP = d_MgmtIP d, j_Port = d_Port d, j_ConnectorID = d_ConnectorID d, j_Cred = cred, j_ScheduledAt = k_start env,
     j_IntervalS = d_IntervalS d, j_TimeoutMS = d_TimeoutMS d, j_Retries = d_Retries d\<rparr>"

text \<open>The queue check of one job: \<open>None\<close> when the declare failed.\<close>

definition check_queue :: "Scheduler \<Rightarrow> tick_env \<Rightarrow> nat \<Rightarrow> string \<Rightarrow> sched \<Rightarrow> sched option" where
  "check_queue cfg env n site s =
     (let last = (case map_of (lastQueueCheck s) site of None \<Rightarrow> zero_time | Some t \<Rightarrow> t) in
      if siteQueueRecheck \<le> time_sub (k_check env n) last
      then (case k_declare env n site of Inl e \<Rightarrow> None
            | Inr st \<Rightarrow> Some (noteSiteQueue cfg (k_record env n) site st
                (emit (EvDeclare site (k_check env n) (k_stamp env n)) (s\<lparr>lastQueueCheck := AList.update site (k_stamp env n) (lastQueueCheck s)\<rparr>))))
      else Some s)"

text \<open>One job: whether it was published.\<close>

definition dispatch :: "Scheduler \<Rightarrow> tick_env \<Rightarrow> nat \<Rightarrow> DueSchedule \<Rightarrow> sched \<Rightarrow> bool \<times> sched" where
  "dispatch cfg env n d s0 = (case check_queue cfg env n (d_SiteID d) s0 of None \<Rightarrow> (False, s0)
     | Some s \<Rightarrow> (case Resolve_cred (k_vault env n) (fst (k_vclock env n)) (snd (k_vclock env n)) (d_CredentialID d) (s_creds s) of
         (Inl e, r) \<Rightarrow> (False, s\<lparr>s_creds := r\<rparr>)
       | (Inr cred, r) \<Rightarrow>
           let s = s\<lparr>s_creds := r\<rparr>; job = job_of env n d cred in
           if k_publish env n job \<noteq> None then (False, s) else (True, emit (EvPublish (d_SiteID d) job) s)))"

primrec dispatch_loop :: "Scheduler \<Rightarrow> tick_env \<Rightarrow> nat \<Rightarrow> DueSchedule list \<Rightarrow> nat \<Rightarrow> nat \<Rightarrow> sched \<Rightarrow> nat \<times> nat \<times> sched" where
  "dispatch_loop cfg env n [] published failed s = (published, failed, s)"
| "dispatch_loop cfg env n (d # ds) published failed s =
     (case dispatch cfg env n d s of
        (True, s) \<Rightarrow> dispatch_loop cfg env (n + 1) ds (published + 1) failed s
      | (False, s) \<Rightarrow> dispatch_loop cfg env (n + 1) ds published (failed + 1) s)"

definition announce :: "Scheduler \<Rightarrow> tick_env \<Rightarrow> sched \<Rightarrow> sched" where
  "announce cfg env s =
     (if sd_Sites cfg \<and> siteAnnounce \<le> time_sub (k_start env) (lastAnnounce s)
      then let s = s\<lparr>lastAnnounce := k_start env\<rparr> in
           (case ActiveSites (k_site_order env) (k_active env) (s_polls s) of Inl e \<Rightarrow> s
            | Inr sites \<Rightarrow> if k_announce env sites \<noteq> None then s else emit (EvAnnounce sites) s)
      else s)"

definition batch_size :: "Scheduler \<Rightarrow> nat" where
  "batch_size cfg = (if sd_Batch cfg = 0 then 5000 else sd_Batch cfg)"

definition tick :: "Scheduler \<Rightarrow> tick_env \<Rightarrow> sched \<Rightarrow> sched" where
  "tick cfg env s =
     (if \<not> k_leader env then s
      else let s = announce cfg env s in
        case Due (k_claim env) (k_start env) (batch_size cfg) (s_polls s) of
          (Inl e, db) \<Rightarrow> s\<lparr>s_polls := db\<rparr>
        | (Inr due, db) \<Rightarrow>
            (case dispatch_loop cfg env 0 due 0 0 (s\<lparr>s_polls := db\<rparr>) of (published, failed, s) \<Rightarrow>
               if 0 < published \<or> 0 < failed then emit (EvTick (length due) published failed) s else s))"

definition run_start :: "poll_db \<Rightarrow> sched" where
  "run_start db = \<lparr>lastQueueCheck = [], lastAnnounce = zero_time, hadConsumers = [], s_polls = db,
     s_creds = \<lparr>rv_TTL = 0, rv_cache = []\<rparr>, s_trace = []\<rparr>"

definition run_ticks :: "Scheduler \<Rightarrow> tick_env list \<Rightarrow> poll_db \<Rightarrow> sched" where
  "run_ticks cfg envs db = foldl (\<lambda>s env. tick cfg env s) (run_start db) envs"

subsection \<open>What a part of the loop may do\<close>

lemma emit_simps [simp]: "s_trace (emit ev s) = s_trace s @ [ev]" "lastQueueCheck (emit ev s) = lastQueueCheck s"
    "hadConsumers (emit ev s) = hadConsumers s" "s_polls (emit ev s) = s_polls s" "lastAnnounce (emit ev s) = lastAnnounce s" "s_creds (emit ev s) = s_creds s"
  by (simp_all add: emit_def)

text \<open>The jobs in a trace, the declares of a site with their clock readings, and what the log says of it.\<close>

definition pubs :: "sched_event list \<Rightarrow> (string \<times> PollJob) list" where
  "pubs tr = List.map_filter (\<lambda>ev. case ev of EvPublish site job \<Rightarrow> Some (site, job) | _ \<Rightarrow> None) tr"

definition decls :: "string \<Rightarrow> sched_event list \<Rightarrow> (gotime \<times> gotime) list" where
  "decls site tr = List.map_filter (\<lambda>ev. case ev of EvDeclare s c t \<Rightarrow> if s = site then Some (c, t) else None | _ \<Rightarrow> None) tr"

definition marks :: "string \<Rightarrow> sched_event list \<Rightarrow> bool list" where
  "marks site tr = List.map_filter (\<lambda>ev. case ev of EvUnserved s q \<Rightarrow> if s = site then Some False else None
     | EvServed s \<Rightarrow> if s = site then Some True else None | _ \<Rightarrow> None) tr"

lemma map_filter_append: "List.map_filter f (xs @ ys) = List.map_filter f xs @ List.map_filter f ys"
  by (simp add: List.map_filter_def)

lemma trace_append [simp]: "pubs (a @ b) = pubs a @ pubs b" "decls site (a @ b) = decls site a @ decls site b"
    "marks site (a @ b) = marks site a @ marks site b"
  by (simp_all add: pubs_def decls_def marks_def map_filter_append)

lemma trace_Nil [simp]: "pubs [] = []" "decls site [] = []" "marks site [] = []"
  by (simp_all add: pubs_def decls_def marks_def map_filter_simps)

lemma trace_Cons [simp]:
  "pubs (ev # tr) = (case ev of EvPublish site job \<Rightarrow> [(site, job)] | _ \<Rightarrow> []) @ pubs tr"
  "decls site (ev # tr) = (case ev of EvDeclare s c t \<Rightarrow> if s = site then [(c, t)] else [] | _ \<Rightarrow> []) @ decls site tr"
  "marks site (ev # tr) = (case ev of EvUnserved s q \<Rightarrow> if s = site then [False] else [] | EvServed s \<Rightarrow> if s = site then [True] else [] | _ \<Rightarrow> []) @ marks site tr"
  by (cases ev; simp add: pubs_def decls_def marks_def map_filter_simps)+

lemma noteSiteQueue_pubs [simp]: "pubs (s_trace (noteSiteQueue cfg e site st s)) = pubs (s_trace s)"
  by (simp add: noteSiteQueue_def Let_def)

lemma check_queue_pubs: "check_queue cfg env n site s = Some s' \<Longrightarrow> pubs (s_trace s') = pubs (s_trace s)"
  by (auto simp: check_queue_def Let_def split: if_splits sum.splits)

definition job_for :: "tick_env \<Rightarrow> DueSchedule \<Rightarrow> string \<times> PollJob \<Rightarrow> bool" where
  "job_for env d x \<longleftrightarrow> (\<exists>n cred. x = (d_SiteID d, job_of env n d cred))"

lemma job_forI [simp]: "job_for env d (d_SiteID d, job_of env n d cred)"
  unfolding job_for_def by blast

lemma dispatch_pubs:
  assumes "dispatch cfg env n d s = (ok, s')"
  shows "\<exists>xs. pubs (s_trace s') = pubs (s_trace s) @ xs \<and> (if ok then \<exists>x. xs = [x] \<and> job_for env d x else xs = [])"
proof (cases "check_queue cfg env n (d_SiteID d) s")
  case None
  with assms show ?thesis by (simp add: dispatch_def)
next
  case (Some s1)
  note keep = check_queue_pubs [OF Some]
  obtain res r where "Resolve_cred (k_vault env n) (fst (k_vclock env n)) (snd (k_vclock env n)) (d_CredentialID d) (s_creds s1) = (res, r)" by force
  with assms Some keep show ?thesis
    by (cases res) (auto simp: dispatch_def Let_def split: if_splits)
qed

lemma dispatch_loop_pubs:
  assumes "dispatch_loop cfg env n ds p f s = (p', f', s')"
  shows "\<exists>xs sub. pubs (s_trace s') = pubs (s_trace s) @ xs \<and> subseq sub ds \<and> list_all2 (job_for env) sub xs \<and>
    p' = p + length xs \<and> f' + length xs = f + length ds"
  using assms
proof (induction ds arbitrary: n p f s)
  case Nil
  then show ?case by (intro exI [of _ "[]"]) simp
next
  case (Cons d ds)
  obtain ok s1 where one: "dispatch cfg env n d s = (ok, s1)" by force
  note eff = dispatch_pubs [OF one]
  show ?case
  proof (cases ok)
    case True
    with eff obtain x where x: "pubs (s_trace s1) = pubs (s_trace s) @ [x]" "job_for env d x" by auto
    from Cons.prems one True have "dispatch_loop cfg env (n + 1) ds (p + 1) f s1 = (p', f', s')" by simp
    from Cons.IH [OF this] obtain xs sub where "pubs (s_trace s') = pubs (s_trace s1) @ xs" "subseq sub ds" "list_all2 (job_for env) sub xs"
      "p' = p + 1 + length xs" "f' + length xs = f + length ds" by auto
    with x show ?thesis by (intro exI [of _ "x # xs"] exI [of _ "d # sub"]) simp
  next
    case False
    with Cons.prems one have "dispatch_loop cfg env (n + 1) ds p (f + 1) s1 = (p', f', s')" by simp
    from Cons.IH [OF this] obtain xs sub where "pubs (s_trace s') = pubs (s_trace s1) @ xs" "subseq sub ds" "list_all2 (job_for env) sub xs"
      "p' = p + length xs" "f' + length xs = f + 1 + length ds" by auto
    with eff False show ?thesis by (intro exI [of _ xs] exI [of _ sub]) (auto intro: list_emb_Cons)
  qed
qed

lemma announce_keeps [simp]: "s_polls (announce cfg env s) = s_polls s" "pubs (s_trace (announce cfg env s)) = pubs (s_trace s)"
    "lastQueueCheck (announce cfg env s) = lastQueueCheck s" "hadConsumers (announce cfg env s) = hadConsumers s"
    "decls site (s_trace (announce cfg env s)) = decls site (s_trace s)" "marks site (s_trace (announce cfg env s)) = marks site (s_trace s)"
  by (simp_all add: announce_def Let_def split: sum.splits)

text \<open>
  Every claimed schedule is accounted for: on a tick of the leader whose claim returns schedules, the
  jobs published are those of a subsequence of them, in order, each naming the device, address,
  timing and connector of its schedule; and the tick ends with a record of how many were claimed,
  published and failed, the last two adding up to the first.
\<close>

theorem tick_accounts:
  assumes "k_leader env" and "Due (k_claim env) (k_start env) (batch_size cfg) (s_polls s) = (Inr due, db)" and "due \<noteq> []"
  shows "\<exists>xs sub. pubs (s_trace (tick cfg env s)) = pubs (s_trace s) @ xs \<and> subseq sub due \<and> list_all2 (job_for env) sub xs \<and>
    last (s_trace (tick cfg env s)) = EvTick (length due) (length xs) (length due - length xs) \<and> length xs \<le> length due"
proof -
  obtain p f s1 where loop: "dispatch_loop cfg env 0 due 0 0 (announce cfg env s\<lparr>s_polls := db\<rparr>) = (p, f, s1)" by (metis prod_cases3)
  from dispatch_loop_pubs [OF loop] obtain xs sub where xs: "pubs (s_trace s1) = pubs (s_trace s) @ xs" "subseq sub due"
    "list_all2 (job_for env) sub xs" "p = length xs" "f + length xs = length due" by auto
  then have "0 < p \<or> 0 < f" "f = length due - length xs" "length xs \<le> length due" using assms(3) by auto
  then have "tick cfg env s = emit (EvTick (length due) (length xs) (length due - length xs)) s1"
    using assms(1,2) loop xs(4) by (simp add: tick_def Let_def)
  with xs show ?thesis by (intro exI [of _ xs] exI [of _ sub]) simp
qed

subsection \<open>Queues\<close>

text \<open>A publish has a declare of its site before it.\<close>

primrec declared_first :: "sched_event list \<Rightarrow> string set \<Rightarrow> bool" where
  "declared_first [] known = True"
| "declared_first (ev # evs) known = (case ev of
     EvPublish site job \<Rightarrow> site \<in> known \<and> declared_first evs known
   | EvDeclare site c t \<Rightarrow> declared_first evs (insert site known)
   | _ \<Rightarrow> declared_first evs known)"

text \<open>Successive declares are a minute apart, from the end of one to the start of the next.\<close>

definition spaced :: "(gotime \<times> gotime) list \<Rightarrow> bool" where
  "spaced ds \<longleftrightarrow> (\<forall>i. Suc i < length ds \<longrightarrow> snd (ds ! i) + siteQueueRecheck \<le> fst (ds ! Suc i))"

definition site_inv :: "string \<Rightarrow> sched \<Rightarrow> bool" where
  "site_inv site s \<longleftrightarrow> spaced (decls site (s_trace s)) \<and>
     map_of (lastQueueCheck s) site = (if decls site (s_trace s) = [] then None else Some (snd (last (decls site (s_trace s))))) \<and>
     (\<forall>i < length (marks site (s_trace s)). marks site (s_trace s) ! i = odd i) \<and>
     (map_of (hadConsumers s) site = None \<longrightarrow> marks site (s_trace s) = []) \<and>
     (\<forall>b. map_of (hadConsumers s) site = Some b \<longrightarrow> b = even (length (marks site (s_trace s))))"

definition sched_inv :: "sched \<Rightarrow> bool" where
  "sched_inv s \<longleftrightarrow> declared_first (s_trace s) {} \<and> (\<forall>site. site_inv site s)"

lemma declared_first_append:
  "declared_first (a @ b) known \<longleftrightarrow> declared_first a known \<and> declared_first b (known \<union> {site. decls site a \<noteq> []})"
proof (induction a arbitrary: known)
  case (Cons e a)
  show ?case
  proof (cases e)
    case (EvDeclare x c t)
    have "known \<union> {site. decls site (EvDeclare x c t # a) \<noteq> []} = insert x known \<union> {site. decls site a \<noteq> []}" by auto
    then show ?thesis unfolding EvDeclare by (simp only: append_Cons declared_first.simps sched_event.case Cons.IH)
  qed (simp_all add: Cons.IH)
qed simp

lemma spaced_snoc: "spaced (ds @ [d]) \<longleftrightarrow> spaced ds \<and> (ds \<noteq> [] \<longrightarrow> snd (last ds) + siteQueueRecheck \<le> fst d)"
proof
  assume a: "spaced (ds @ [d])"
  have "snd (ds ! i) + siteQueueRecheck \<le> fst (ds ! Suc i)" if "Suc i < length ds" for i
    using a that unfolding spaced_def by (metis Suc_lessD butlast_snoc length_append_singleton less_SucI nth_butlast)
  moreover have "snd (last ds) + siteQueueRecheck \<le> fst d" if ne: "ds \<noteq> []"
  proof -
    obtain m where m: "length ds = Suc m" using ne by (cases ds) auto
    then have "snd ((ds @ [d]) ! m) + siteQueueRecheck \<le> fst ((ds @ [d]) ! Suc m)" using a unfolding spaced_def by (metis length_append_singleton lessI)
    with m ne show ?thesis by (simp add: nth_append last_conv_nth)
  qed
  ultimately show "spaced ds \<and> (ds \<noteq> [] \<longrightarrow> snd (last ds) + siteQueueRecheck \<le> fst d)" by (simp add: spaced_def)
next
  assume "spaced ds \<and> (ds \<noteq> [] \<longrightarrow> snd (last ds) + siteQueueRecheck \<le> fst d)"
  then show "spaced (ds @ [d])"
    unfolding spaced_def by (auto simp: nth_append last_conv_nth less_Suc_eq) (metis One_nat_def diff_Suc_1)
qed

text \<open>Events that say nothing about queues change nothing.\<close>

lemma site_inv_cong:
  "decls site (s_trace s') = decls site (s_trace s) \<Longrightarrow> marks site (s_trace s') = marks site (s_trace s) \<Longrightarrow>
   map_of (lastQueueCheck s') site = map_of (lastQueueCheck s) site \<Longrightarrow> map_of (hadConsumers s') site = map_of (hadConsumers s) site \<Longrightarrow>
   site_inv site s' = site_inv site s"
  unfolding site_inv_def by (simp only:)

lemma noteSiteQueue_simps [simp]:
  "decls x (s_trace (noteSiteQueue cfg e site st s)) = decls x (s_trace s)"
  "lastQueueCheck (noteSiteQueue cfg e site st s) = lastQueueCheck s"
  "map_of (hadConsumers (noteSiteQueue cfg e site st s)) = (map_of (hadConsumers s))(site \<mapsto> 0 < qs_Consumers st)"
  by (simp_all add: noteSiteQueue_def Let_def update_conv')

lemma noteSiteQueue_marks:
  "marks x (s_trace (noteSiteQueue cfg e site st s)) = marks x (s_trace s) @
     (if x = site then (if 0 < qs_Consumers st then (if map_of (hadConsumers s) site = Some False then [True] else [])
        else (if map_of (hadConsumers s) site = Some False then [] else [False])) else [])"
  by (auto simp: noteSiteQueue_def Let_def)

lemma noteSiteQueue_declared: "declared_first (s_trace s) {} \<Longrightarrow> declared_first (s_trace (noteSiteQueue cfg e site st s)) {}"
  by (simp add: noteSiteQueue_def Let_def declared_first_append)

lemma noteSiteQueue_inv: "site_inv x s \<Longrightarrow> site_inv x (noteSiteQueue cfg e site st s)"
proof (cases "x = site")
  case False
  assume "site_inv x s"
  moreover have "site_inv x (noteSiteQueue cfg e site st s) = site_inv x s"
    by (rule site_inv_cong) (use False in \<open>simp_all add: noteSiteQueue_marks\<close>)
  ultimately show ?thesis by simp
next
  case True
  assume inv: "site_inv x s"
  let ?m = "marks site (s_trace s)"
  have m: "\<And>i. i < length ?m \<Longrightarrow> ?m ! i = odd i" using inv True by (simp add: site_inv_def)
  have snoc: "(?m @ [b]) ! i = odd i" if "b = odd (length ?m)" "i < Suc (length ?m)" for b i
    using that m by (cases "i = length ?m") (simp_all add: nth_append)
  consider "map_of (hadConsumers s) site = None" "?m = []" | "map_of (hadConsumers s) site = Some True" "even (length ?m)"
    | "map_of (hadConsumers s) site = Some False" "odd (length ?m)"
    using inv True by (cases "map_of (hadConsumers s) site") (auto simp: site_inv_def)
  then show ?thesis
  proof cases
    case 1
    with inv True show ?thesis by (simp add: site_inv_def noteSiteQueue_marks)
  next
    case 2
    with inv True snoc [of False] show ?thesis by (auto simp: site_inv_def noteSiteQueue_marks simp del: append_assoc)
  next
    case 3
    with inv True snoc [of True] show ?thesis by (auto simp: site_inv_def noteSiteQueue_marks simp del: append_assoc)
  qed
qed

lemma recheck_gap: "siteQueueRecheck \<le> time_sub a b \<Longrightarrow> b + siteQueueRecheck \<le> a"
  by (auto simp: time_sub_def siteQueueRecheck_def nanos_per_min_def)

lemma declared_inv:
  assumes "site_inv x s" and "siteQueueRecheck \<le> time_sub c (case map_of (lastQueueCheck s) site of None \<Rightarrow> zero_time | Some t \<Rightarrow> t)"
  shows "site_inv x (emit (EvDeclare site c t) (s\<lparr>lastQueueCheck := AList.update site t (lastQueueCheck s)\<rparr>))"
proof (cases "x = site")
  case False
  then have "site_inv x (emit (EvDeclare site c t) (s\<lparr>lastQueueCheck := AList.update site t (lastQueueCheck s)\<rparr>)) = site_inv x s"
    by (intro site_inv_cong) (simp_all add: update_conv')
  with assms(1) show ?thesis by simp
next
  case True
  have "snd (last (decls site (s_trace s))) + siteQueueRecheck \<le> c" if "decls site (s_trace s) \<noteq> []"
    using recheck_gap [OF assms(2)] assms(1) True that by (simp add: site_inv_def)
  with assms(1) True show ?thesis by (simp add: site_inv_def spaced_snoc update_conv')
qed

text \<open>After its queue check, a site has been declared.\<close>

lemma check_queue_inv:
  assumes "check_queue cfg env n site s = Some s'" and "sched_inv s" and "zero_time + nanos_per_min \<le> k_check env n"
  shows "sched_inv s' \<and> decls site (s_trace s') \<noteq> []"
proof -
  let ?last = "case map_of (lastQueueCheck s) site of None \<Rightarrow> zero_time | Some t \<Rightarrow> t"
  have inv: "declared_first (s_trace s) {}" "\<And>x. site_inv x s" using assms(2) by (simp_all add: sched_inv_def)
  show ?thesis
  proof (cases "siteQueueRecheck \<le> time_sub (k_check env n) ?last")
    case True
    with assms(1) obtain st where "k_declare env n site = Inr st" "s' = noteSiteQueue cfg (k_record env n) site st
        (emit (EvDeclare site (k_check env n) (k_stamp env n)) (s\<lparr>lastQueueCheck := AList.update site (k_stamp env n) (lastQueueCheck s)\<rparr>))"
      by (auto simp: check_queue_def Let_def split: sum.splits)
    then show ?thesis
      using inv(1) noteSiteQueue_inv [OF declared_inv [OF inv(2) True]]
      by (simp add: sched_inv_def noteSiteQueue_declared declared_first_append)
  next
    case False
    then have "map_of (lastQueueCheck s) site \<noteq> None"
      using assms(3) by (cases "map_of (lastQueueCheck s) site") (simp_all add: time_sub_def siteQueueRecheck_def nanos_per_min_def)
    then have "decls site (s_trace s) \<noteq> []" using inv(2) [of site] by (auto simp: site_inv_def)
    with False assms(1,2) show ?thesis by (simp add: check_queue_def)
  qed
qed

lemma dispatch_inv:
  assumes "dispatch cfg env n d s = (ok, s')" and "sched_inv s" and "zero_time + nanos_per_min \<le> k_check env n"
  shows "sched_inv s'"
proof (cases "check_queue cfg env n (d_SiteID d) s")
  case None
  with assms(1,2) show ?thesis by (simp add: dispatch_def)
next
  case (Some s1)
  note q = check_queue_inv [OF Some assms(2,3)]
  have creds: "sched_inv (s1\<lparr>s_creds := r\<rparr>)" for r using q by (simp add: sched_inv_def site_inv_def)
  have pub: "sched_inv (emit (EvPublish (d_SiteID d) job) (s1\<lparr>s_creds := r\<rparr>))" for r job
    using q by (simp add: sched_inv_def site_inv_def declared_first_append)
  from assms(1) Some creds pub show ?thesis
    by (auto simp: dispatch_def Let_def split: prod.splits sum.splits if_splits)
qed

lemma dispatch_loop_inv:
  "dispatch_loop cfg env n ds p f s = (p', f', s') \<Longrightarrow> sched_inv s \<Longrightarrow> (\<And>n. zero_time + nanos_per_min \<le> k_check env n) \<Longrightarrow> sched_inv s'"
proof (induction ds arbitrary: n p f s)
  case (Cons d ds)
  obtain ok s1 where one: "dispatch cfg env n d s = (ok, s1)" by force
  from dispatch_inv [OF one Cons.prems(2,3)] Cons.prems(1,3) one show ?case by (auto split: bool.splits intro: Cons.IH)
qed simp

lemma tick_inv:
  assumes "sched_inv s" and "\<And>n. zero_time + nanos_per_min \<le> k_check env n"
  shows "sched_inv (tick cfg env s)"
proof -
  have ann: "sched_inv (announce cfg env s\<lparr>s_polls := db\<rparr>)" for db
    using assms(1) by (auto simp: sched_inv_def site_inv_def announce_def Let_def declared_first_append split: sum.splits if_splits)
  have fin: "sched_inv (emit (EvTick a b c) s1)" if "sched_inv s1" for a b c s1
    using that by (simp add: sched_inv_def site_inv_def declared_first_append)
  show ?thesis
    using assms(1) ann fin dispatch_loop_inv [OF _ ann assms(2)]
    by (auto simp: tick_def Let_def split: prod.splits sum.splits)
qed

lemma run_inv:
  assumes "\<forall>env \<in> set envs. \<forall>n. zero_time + nanos_per_min \<le> k_check env n"
  shows "sched_inv (run_ticks cfg envs db)"
proof -
  have "sched_inv (run_start db)" by (simp add: run_start_def sched_inv_def site_inv_def spaced_def)
  then have "sched_inv (foldl (\<lambda>s env. tick cfg env s) s envs)" if "sched_inv s" for s
    using assms that by (induction envs arbitrary: s) (simp_all add: tick_inv)
  with \<open>sched_inv (run_start db)\<close> show ?thesis by (simp add: run_ticks_def)
qed

text \<open>
  C39. Jobs go only where a queue exists, and the broker is asked sparingly: over any sequence of ticks, led
  or not and with any failures, no job is published to a site whose queue was not declared before,
  and after a declare the same site's queue is not declared again for a minute.
\<close>

theorem queues_declared:
  assumes "\<forall>env \<in> set envs. \<forall>n. zero_time + nanos_per_min \<le> k_check env n"
  shows "declared_first (s_trace (run_ticks cfg envs db)) {} \<and> spaced (decls site (s_trace (run_ticks cfg envs db)))"
  using run_inv [OF assms, of cfg db] by (simp add: sched_inv_def site_inv_def)

text \<open>
  The log reports changes only: over any sequence of ticks the lines about a site alternate, beginning
  with the one that says nothing consumes its queue; and the last queue check of the site found a
  consumer exactly when the number of lines is even.
\<close>

theorem unserved_log_alternates:
  assumes "\<forall>env \<in> set envs. \<forall>n. zero_time + nanos_per_min \<le> k_check env n"
  shows "(\<forall>i < length (marks site (s_trace (run_ticks cfg envs db))). marks site (s_trace (run_ticks cfg envs db)) ! i = odd i) \<and>
    (\<forall>b. map_of (hadConsumers (run_ticks cfg envs db)) site = Some b \<longrightarrow> b = even (length (marks site (s_trace (run_ticks cfg envs db)))))"
  using run_inv [OF assms, of cfg db] by (auto simp: sched_inv_def site_inv_def)

subsection \<open>A concrete run\<close>

definition demo_vault :: vault where
  "demo_vault = \<lparr>v_Get = (\<lambda>c. Inr SNMPv2c), v_Decrypt = (\<lambda>c. Inr \<lparr>se_Community = ''public'', se_Username = [], se_AuthProtocol = [],
     se_AuthPassword = [], se_PrivProtocol = [], se_PrivPassword = [], se_Context = []\<rparr>)\<rparr>"

definition demo_tick :: "gotime \<Rightarrow> int \<Rightarrow> tick_env" where
  "demo_tick t consumers = \<lparr>k_leader = True, k_start = t, k_active = None, k_site_order = (\<lambda>ss. ss), k_announce = (\<lambda>ss. None), k_claim = demo_claim,
     k_check = (\<lambda>n. t), k_stamp = (\<lambda>n. t), k_declare = (\<lambda>n site. Inr \<lparr>qs_Consumers = consumers, qs_Queued = 7\<rparr>), k_record = (\<lambda>n. None),
     k_vault = (\<lambda>n. demo_vault), k_vclock = (\<lambda>n. (t, t)), k_id = (\<lambda>n. ''job''), k_publish = (\<lambda>n job. None)\<rparr>"

definition demo_scheduler :: Scheduler where
  "demo_scheduler = \<lparr>sd_SiteHealth = False, sd_Sites = False, sd_Batch = 1\<rparr>"

lemma demo_clock: "\<forall>env \<in> set [demo_tick 10 0, demo_tick 70000000000 2]. \<forall>n. zero_time + nanos_per_min \<le> k_check env n"
  by (simp add: demo_tick_def zero_time_def nanos_per_min_def)

lemma demo_due: "\<exists>d db. Due demo_claim 10 1 demo_polls = (Inr [d], db) \<and> d_SiteID d = ''s'' \<and>
    pdb_schedules db = [demo_sched 1 5, (demo_sched 2 60000000010)\<lparr>sr_LastRun := Some 10\<rparr>, demo_sched 3 100] \<and>
    pdb_devices db = pdb_devices demo_polls \<and> pdb_profiles db = pdb_profiles demo_polls"
  by (simp add: demo_polls_simps)

theorem tick_accounts_witness:
  "\<exists>xs. pubs (s_trace (tick demo_scheduler (demo_tick 10 0) (run_start demo_polls))) = xs \<and>
     last (s_trace (tick demo_scheduler (demo_tick 10 0) (run_start demo_polls))) = EvTick 1 (length xs) (1 - length xs)"
proof -
  obtain d db where "Due demo_claim 10 1 demo_polls = (Inr [d], db)" using demo_due by blast
  then have "Due (k_claim (demo_tick 10 0)) (k_start (demo_tick 10 0)) (batch_size demo_scheduler) (s_polls (run_start demo_polls)) = (Inr [d], db)"
    by (simp add: demo_tick_def demo_scheduler_def batch_size_def run_start_def)
  moreover have "k_leader (demo_tick 10 0)" by (simp add: demo_tick_def)
  ultimately show ?thesis using tick_accounts [of "demo_tick 10 0" demo_scheduler "run_start demo_polls" "[d]" db]
    by (auto simp: run_start_def)
qed

theorem queues_declared_witness:
  "declared_first (s_trace (run_ticks demo_scheduler [demo_tick 10 0, demo_tick 70000000000 2] demo_polls)) {} \<and>
   spaced (decls ''s'' (s_trace (run_ticks demo_scheduler [demo_tick 10 0, demo_tick 70000000000 2] demo_polls)))"
  using queues_declared [OF demo_clock] by blast

theorem unserved_log_alternates_witness:
  "marks ''s'' (s_trace (run_ticks demo_scheduler [demo_tick 10 0] demo_polls)) = [False] \<and>
   marks ''s'' (s_trace (run_ticks demo_scheduler [demo_tick 10 0] demo_polls)) ! 0 = odd (0 :: nat)"
proof -
  let ?m = "marks ''s'' (s_trace (run_ticks demo_scheduler [demo_tick 10 0] demo_polls))"
  obtain d db where d: "Due demo_claim 10 1 demo_polls = (Inr [d], db)" "d_SiteID d = ''s''" using demo_due by blast
  have m: "?m = [False]"
    by (simp add: run_ticks_def run_start_def tick_def demo_tick_def demo_scheduler_def announce_def batch_size_def d(2) d(1) [unfolded One_nat_def] dispatch_def check_queue_def
        noteSiteQueue_def Let_def time_sub_def zero_time_def siteQueueRecheck_def nanos_per_min_def emit_def Resolve_cred_def demo_vault_def)
  have "\<forall>env \<in> set [demo_tick 10 0]. \<forall>n. zero_time + nanos_per_min \<le> k_check env n" using demo_clock by simp
  from unserved_log_alternates [OF this, of "''s''" demo_scheduler demo_polls] have "?m ! 0 = odd (0 :: nat)" unfolding m by simp
  with m show ?thesis by blast
qed

end
