(* ===== verification/Poller_Runtime.thy ===== *)
theory Poller_Runtime
  imports Poll_Buffer Scheduler Inventory_Sync Discovery_Sweep
begin

unbundle bit_operations_syntax

text \<open>
  The poller (\<open>internal/collection/pollerrt/runtime.go\<close>, \<open>icmp.go\<close>, \<open>session.go\<close>): jobs of a site queue are run
  through a connector, the samples are collected in memory and flushed in batches, a batch that cannot be
  published goes to the disk buffer or back into memory.

  A \<open>float64\<close> is its bit pattern, and arithmetic on it is a parameter. Parameters are further the connectors,
  opening an SNMP connection, the ping, the JSON encoding and the broker, the clock, and the disk. A
  connector returns a snapshot or an error.

  Shown here and in \<open>Poller_Flow\<close>: what a job leaves behind on every branch; that no interleaving of workers,
  tickers and replays loses a sample that was not on a batch dropped at the disk cap; and that one value
  JSON cannot encode stops all metrics of a poller for good.
\<close>

subsection \<open>Messages\<close>

record Sample =
  sm_DeviceID :: string
  sm_Name :: string
  sm_Labels :: "(string, string) gomap"
  sm_TSMillis :: int
  sm_Value :: float64

record MetricBatch =
  mb_PollerID :: string
  mb_SiteID :: string
  mb_Samples :: "Sample list"

definition f64_zero :: float64 where "f64_zero = 0"

definition f64_one :: float64 where "f64_one = 0x3FF0000000000000"

definition f64_hundred :: float64 where "f64_hundred = 0x4059000000000000"

text \<open>An exponent of all ones: an infinity, or not a number.\<close>

definition f64_special :: "float64 \<Rightarrow> bool" where
  "f64_special v \<longleftrightarrow> v AND 0x7FF0000000000000 = 0x7FF0000000000000"

definition IsNaN :: "float64 \<Rightarrow> bool" where
  "IsNaN v \<longleftrightarrow> f64_special v \<and> v AND 0x000FFFFFFFFFFFFF \<noteq> 0"

record f64_ops =
  fl_add :: "float64 \<Rightarrow> float64 \<Rightarrow> float64"
  fl_sub :: "float64 \<Rightarrow> float64 \<Rightarrow> float64"
  fl_div :: "float64 \<Rightarrow> float64 \<Rightarrow> float64"
  fl_abs :: "float64 \<Rightarrow> float64"
  fl_of_int :: "int \<Rightarrow> float64"
  fl_seconds :: "int \<Rightarrow> float64"

text \<open>\<open>UnixMilli\<close>, rounding down.\<close>

definition unix_milli :: "gotime \<Rightarrow> int" where
  "unix_milli t = t div 1000000"

subsection \<open>SNMP sessions\<close>

datatype auth_proto = AuthUnset | SHA256 | SHA | MD5
datatype priv_proto = PrivUnset | AES256 | AES | DES
datatype msg_flags = AuthNoPriv | AuthPriv

record UsmParameters =
  us_UserName :: string
  us_AuthPass :: string
  us_PrivPass :: string
  us_Auth :: auth_proto
  us_Priv :: priv_proto
  us_Flags :: msg_flags
  us_Context :: string

datatype snmp_security = Version2c string | Version3 UsmParameters

record SNMPSession =
  sn_Target :: string
  sn_Port :: "16 word"
  sn_Timeout :: int
  sn_Retries :: int
  sn_Security :: snmp_security

definition auth_of :: "string \<Rightarrow> auth_proto" where
  "auth_of p = (if p = ''sha256'' then SHA256 else if p = ''sha1'' then SHA else if p = ''md5'' then MD5 else AuthUnset)"

definition priv_of :: "string \<Rightarrow> priv_proto \<times> msg_flags" where
  "priv_of p = (if p = ''aes256'' then (AES256, AuthPriv) else if p = ''aes128'' then (AES, AuthPriv) else if p = ''des'' then (DES, AuthPriv)
     else (PrivUnset, AuthNoPriv))"

definition NewSNMPSession :: "(SNMPSession \<Rightarrow> goerr option) \<Rightarrow> PollJob \<Rightarrow> goerr + SNMPSession" where
  "NewSNMPSession connect job =
     (let timeout = (if j_TimeoutMS job = 0 then 5 * nanos_per_s else j_TimeoutMS job * 1000000); cred = j_Cred job in
      if j_Port job < 1 \<or> 65535 < j_Port job
      then Inl (ErrLeaf (''snmp port '' @ int_str (j_Port job) @ '' is out of range for device '' @ j_DeviceID job))
      else
        let open_with = (\<lambda>sec.
              let g = \<lparr>sn_Target = j_MgmtIP job, sn_Port = word_of_int (j_Port job), sn_Timeout = timeout, sn_Retries = j_Retries job, sn_Security = sec\<rparr> in
              case connect g of Some e \<Rightarrow> Inl (ErrMsg ''pollerrt: connect'' e) | None \<Rightarrow> Inr g)
        in if sc_Version cred = ''v2c'' then open_with (Version2c (sc_Community cred))
           else if sc_Version cred = ''v3'' then
             (case priv_of (sc_PrivProto cred) of (priv, flags) \<Rightarrow>
                open_with (Version3 \<lparr>us_UserName = sc_Username cred, us_AuthPass = sc_AuthPass cred, us_PrivPass = sc_PrivPass cred,
                  us_Auth = auth_of (sc_AuthProto cred), us_Priv = priv, us_Flags = flags, us_Context = sc_Context cred\<rparr>))
           else Inl (ErrLeaf (''pollerrt: unsupported credential version '' @ sc_Version cred)))"

subsection \<open>Connectors\<close>

record SdkSample =
  sd_Name :: string
  sd_Labels :: "(string, string) gomap"
  sd_Value :: float64
  sd_At :: gotime

record InterfaceRecord =
  ir_IfIndex :: int
  ir_Name :: string
  ir_Alias :: string
  ir_Descr :: string
  ir_IfType :: int
  ir_MTU :: int
  ir_SpeedBPS :: int
  ir_PhysAddress :: string
  ir_AdminStatus :: int
  ir_OperStatus :: int

record InventorySnapshot =
  iv_SysName :: string
  iv_SysDescr :: string
  iv_SysObjectID :: string
  iv_SysLocation :: string
  iv_SysContact :: string
  iv_UptimeS :: int
  iv_Vendor :: string
  iv_Model :: string
  iv_Serial :: string
  iv_OSVersion :: string
  iv_Interfaces :: "InterfaceRecord list"

record Adjacency =
  aj_LocalIfIndex :: int
  aj_RemoteSysName :: string
  aj_RemotePortID :: string
  aj_RemoteChassis :: string
  aj_Protocol :: string

text \<open>A connector by the collector interfaces it implements.\<close>

record connector =
  cn_CollectInterfaces :: "(SNMPSession \<Rightarrow> goerr + SdkSample list) option"
  cn_CollectHealth :: "(SNMPSession \<Rightarrow> goerr + SdkSample list) option"
  cn_CollectInventory :: "(SNMPSession \<Rightarrow> goerr + InventorySnapshot) option"
  cn_CollectTopology :: "(SNMPSession \<Rightarrow> goerr + Adjacency list) option"

text \<open>No interface can be had of a nil connector.\<close>

definition nil_connector :: connector where
  "nil_connector = \<lparr>cn_CollectInterfaces = None, cn_CollectHealth = None, cn_CollectInventory = None, cn_CollectTopology = None\<rparr>"

record PingStats =
  pg_PacketsRecv :: int
  pg_PacketLoss :: float64
  pg_Rtts :: "int list"
  pg_MinRtt :: int
  pg_AvgRtt :: int
  pg_MaxRtt :: int

subsection \<open>The broker\<close>

text \<open>
  A publication that returns without error was confirmed by the broker; one that returns an error may have
  arrived all the same. The error of a channel that cannot be had, of the publication, of the confirmation or
  of a refusal is the one given here.
\<close>

datatype delivery = Confirmed | Unconfirmed goerr bool

datatype message = MsgSync SyncResult | MsgDiscovery DiscoveryResult

definition PublishJSON :: "('m \<Rightarrow> goerr + string) \<Rightarrow> ('m \<Rightarrow> delivery) \<Rightarrow> 'm \<Rightarrow> goerr option \<times> bool" where
  "PublishJSON marshal send m = (case marshal m of
     Inl e \<Rightarrow> (Some (KindError KindInternal (ErrMsg ''amqpx: marshal'' e)), False)
   | Inr body \<Rightarrow> (case send m of Confirmed \<Rightarrow> (None, True) | Unconfirmed e arrived \<Rightarrow> (Some e, arrived)))"

subsection \<open>Running a job\<close>

record poll_env =
  pe_ByID :: "string \<Rightarrow> connector option"
  pe_connect :: "SNMPSession \<Rightarrow> goerr option"
  pe_get :: snmp_get
  pe_ping :: "string \<Rightarrow> bool \<Rightarrow> goerr + PingStats"
  pe_fl :: f64_ops
  pe_start :: gotime
  pe_end :: gotime
  pe_collected :: gotime
  pe_probed :: gotime
  pe_stop :: "nat option"
  pe_order :: "DiscoveredHost list \<Rightarrow> DiscoveredHost list"
  pe_marshal :: "message \<Rightarrow> goerr + string"
  pe_send :: "message \<Rightarrow> delivery"

definition sample :: "PollJob \<Rightarrow> int \<Rightarrow> string \<Rightarrow> (string, string) gomap \<Rightarrow> float64 \<Rightarrow> Sample" where
  "sample job ts name labels v = \<lparr>sm_DeviceID = j_DeviceID job, sm_Name = name, sm_Labels = labels, sm_TSMillis = ts, sm_Value = v\<rparr>"

fun rtt_steps :: "f64_ops \<Rightarrow> int list \<Rightarrow> float64 \<Rightarrow> float64" where
  "rtt_steps fl (a # b # rs) acc = rtt_steps fl (b # rs) (fl_add fl acc (fl_abs fl (fl_sub fl (fl_seconds fl b) (fl_seconds fl a))))"
| "rtt_steps fl rs acc = acc"

definition jitter_of :: "f64_ops \<Rightarrow> int list \<Rightarrow> float64" where
  "jitter_of fl rtts = (if 1 < length rtts then fl_div fl (rtt_steps fl rtts f64_zero) (fl_of_int fl (int (length rtts) - 1)) else f64_zero)"

definition probeICMP :: "poll_env \<Rightarrow> bool \<Rightarrow> PollJob \<Rightarrow> Sample list \<times> goerr option" where
  "probeICMP env privileged job = (let now = unix_milli (pe_probed env); fl = pe_fl env in
     case pe_ping env (j_MgmtIP job) privileged of
       Inl e \<Rightarrow> ([sample job now ''netinv_icmp_probe_error'' [] f64_one], Some e)
     | Inr st \<Rightarrow>
         let up = (if 0 < pg_PacketsRecv st then f64_one else f64_zero);
             loss = fl_div fl (pg_PacketLoss st) f64_hundred;
             loss = (if IsNaN loss then f64_one else loss)
         in ([sample job now ''netinv_icmp_up'' [] up, sample job now ''netinv_icmp_loss_ratio'' [] loss, sample job now ''netinv_icmp_probe_error'' [] f64_zero] @
             (if 0 < pg_PacketsRecv st
              then [sample job now ''netinv_icmp_rtt_seconds'' [(''stat'', ''min'')] (fl_seconds fl (pg_MinRtt st)),
                    sample job now ''netinv_icmp_rtt_seconds'' [(''stat'', ''avg'')] (fl_seconds fl (pg_AvgRtt st)),
                    sample job now ''netinv_icmp_rtt_seconds'' [(''stat'', ''max'')] (fl_seconds fl (pg_MaxRtt st)),
                    sample job now ''netinv_icmp_jitter_seconds'' [] (jitter_of fl (pg_Rtts st))]
              else []), None))"

definition wire_samples :: "PollJob \<Rightarrow> SdkSample list \<Rightarrow> Sample list" where
  "wire_samples job xs = map (\<lambda>x. sample job (unix_milli (sd_At x)) (sd_Name x) (sd_Labels x) (sd_Value x)) xs"

definition wire_interface :: "InterfaceRecord \<Rightarrow> SyncInterface" where
  "wire_interface i = \<lparr>si_IfIndex = ir_IfIndex i, si_Name = ir_Name i, si_Alias = ir_Alias i, si_Descr = ir_Descr i, si_IfType = ir_IfType i, si_MTU = ir_MTU i,
     si_SpeedBPS = ir_SpeedBPS i, si_PhysAddress = ir_PhysAddress i, si_AdminStatus = ir_AdminStatus i, si_OperStatus = ir_OperStatus i\<rparr>"

definition wire_adjacency :: "Adjacency \<Rightarrow> SyncAdjacency" where
  "wire_adjacency a = \<lparr>adj_LocalIfIndex = aj_LocalIfIndex a, adj_RemoteSysName = aj_RemoteSysName a, adj_RemotePortID = aj_RemotePortID a,
     adj_RemoteChassis = aj_RemoteChassis a, adj_Protocol = aj_Protocol a\<rparr>"

definition wire_snapshot :: "InventorySnapshot \<Rightarrow> Adjacency list \<Rightarrow> SyncSnapshot" where
  "wire_snapshot s adjs = \<lparr>ss_SysName = iv_SysName s, ss_SysDescr = iv_SysDescr s, ss_SysObjectID = iv_SysObjectID s, ss_SysLocation = iv_SysLocation s,
     ss_SysContact = iv_SysContact s, ss_UptimeS = iv_UptimeS s, ss_Vendor = iv_Vendor s, ss_Model = iv_Model s, ss_Serial = iv_Serial s,
     ss_OSVersion = iv_OSVersion s, ss_Interfaces = map wire_interface (iv_Interfaces s), ss_Adjacencies = map wire_adjacency adjs\<rparr>"

text \<open>The messages that arrived at the broker are returned along with the error.\<close>

definition executeSync :: "poll_env \<Rightarrow> string \<Rightarrow> connector \<Rightarrow> PollJob \<Rightarrow> goerr option \<times> message list" where
  "executeSync env pollerID conn job = (case cn_CollectInventory conn of None \<Rightarrow> (None, [])
     | Some collect \<Rightarrow>
         let res = \<lparr>sres_JobID = j_JobID job, sres_DeviceID = j_DeviceID job, sres_PollerID = pollerID, sres_Trigger = j_Trigger job, sres_CollectedAt = pe_collected env,
               sres_Error = [], sres_Snapshot = None\<rparr>;
             got = (case NewSNMPSession (pe_connect env) job of Inl e \<Rightarrow> Inl e
               | Inr sess \<Rightarrow> (case collect sess of Inl e \<Rightarrow> Inl e
                   | Inr snap \<Rightarrow> Inr (wire_snapshot snap (case cn_CollectTopology conn of None \<Rightarrow> []
                       | Some topo \<Rightarrow> (case topo sess of Inl e \<Rightarrow> [] | Inr adjs \<Rightarrow> adjs)))));
             res = (case got of Inl e \<Rightarrow> res\<lparr>sres_Error := err_text e\<rparr> | Inr ws \<Rightarrow> res\<lparr>sres_Snapshot := Some ws\<rparr>)
         in case PublishJSON (pe_marshal env) (pe_send env) (MsgSync res) of
              (Some perr, arrived) \<Rightarrow> (Some perr, if arrived then [MsgSync res] else [])
            | (None, arrived) \<Rightarrow> (case got of Inl e \<Rightarrow> Some e | Inr ws \<Rightarrow> None, [MsgSync res]))"

definition collect_with :: "poll_env \<Rightarrow> (SNMPSession \<Rightarrow> goerr + SdkSample list) option \<Rightarrow> PollJob \<Rightarrow> Sample list \<times> goerr option" where
  "collect_with env collector job = (case collector of None \<Rightarrow> ([], None)
     | Some collect \<Rightarrow> (case NewSNMPSession (pe_connect env) job of Inl e \<Rightarrow> ([], Some e)
         | Inr sess \<Rightarrow> (case collect sess of Inl e \<Rightarrow> ([], Some e) | Inr xs \<Rightarrow> (wire_samples job xs, None))))"

definition execute :: "poll_env \<Rightarrow> string \<Rightarrow> bool \<Rightarrow> PollJob \<Rightarrow> (Sample list \<times> goerr option) \<times> message list" where
  "execute env pollerID privileged job =
     (let conn = (case pe_ByID env (j_ConnectorID job) of Some c \<Rightarrow> c
            | None \<Rightarrow> (case pe_ByID env ''generic'' of Some c \<Rightarrow> c | None \<Rightarrow> nil_connector)) in
      if j_Family job = ''traffic'' then (collect_with env (cn_CollectInterfaces conn) job, [])
      else if j_Family job = ''icmp'' then (probeICMP env privileged job, [])
      else if j_Family job = ''sync'' then (case executeSync env pollerID conn job of (e, out) \<Rightarrow> (([], e), out))
      else if j_Family job = ''health'' then (collect_with env (cn_CollectHealth conn) job, [])
      else (([], None), []))"


subsection \<open>Batches\<close>

record Runtime =
  rt_PollerID :: string
  rt_SiteID :: string
  rt_SiteIDs :: "string list"
  rt_ICMPPrivileged :: bool
  rt_Buffer :: "DiskBuffer option"
  rt_PollsOK :: int
  rt_PollsFailed :: int
  rt_Batches :: int
  rt_batch :: "Sample list"

record flush_env =
  fe_disk :: "MetricBatch buf_env"
  fe_send :: "MetricBatch \<Rightarrow> delivery"

definition batchFlushSize :: nat where "batchFlushSize = 500"

text \<open>The sections under the lock: \<open>append_section\<close> and \<open>flush_take\<close>. What follows a take is \<open>flush_settle\<close>, which
  returns the batches that arrived.\<close>

definition append_section :: "Sample list \<Rightarrow> Runtime \<Rightarrow> bool \<times> Runtime" where
  "append_section samples r = (let r = r\<lparr>rt_batch := rt_batch r @ samples\<rparr> in (batchFlushSize \<le> length (rt_batch r), r))"

definition flush_take :: "Runtime \<Rightarrow> Sample list option \<times> Runtime" where
  "flush_take r = (if rt_batch r = [] then (None, r) else (Some (rt_batch r), r\<lparr>rt_batch := []\<rparr>))"

definition flush_settle :: "flush_env \<Rightarrow> Sample list \<Rightarrow> Runtime \<Rightarrow> MetricBatch list \<times> Runtime" where
  "flush_settle env out r =
     (let batch = \<lparr>mb_PollerID = rt_PollerID r, mb_SiteID = rt_SiteID r, mb_Samples = out\<rparr> in
      case PublishJSON (w_marshal (fe_disk env)) (fe_send env) batch of
        (None, arrived) \<Rightarrow> ([batch], r\<lparr>rt_Batches := rt_Batches r + 1\<rparr>)
      | (Some err, arrived) \<Rightarrow>
          let (spilled, r) = (case rt_Buffer r of None \<Rightarrow> (False, r)
                | Some b \<Rightarrow> (case Put (fe_disk env) batch b of (berr, b) \<Rightarrow> (berr = None, r\<lparr>rt_Buffer := Some b\<rparr>)))
          in (if arrived then [batch] else [], if spilled then r else r\<lparr>rt_batch := out @ rt_batch r\<rparr>))"

definition flush :: "flush_env \<Rightarrow> Runtime \<Rightarrow> MetricBatch list \<times> Runtime" where
  "flush env r = (case flush_take r of (None, r) \<Rightarrow> ([], r) | (Some out, r) \<Rightarrow> flush_settle env out r)"

definition append_samples :: "flush_env \<Rightarrow> Sample list \<Rightarrow> Runtime \<Rightarrow> MetricBatch list \<times> Runtime" where
  "append_samples env samples r =
     (if samples = [] then ([], r)
      else case append_section samples r of (full, r) \<Rightarrow> if full then flush env r else ([], r))"

text \<open>The replay tick of \<open>Run\<close>.\<close>

definition replay_tick :: "nat \<Rightarrow> flush_env \<Rightarrow> (nat \<Rightarrow> bool) \<Rightarrow> (nat \<Rightarrow> bool) \<Rightarrow> Runtime \<Rightarrow> (MetricBatch list \<times> Runtime) option" where
  "replay_tick fuel env cancelled stopped r = (case rt_Buffer r of None \<Rightarrow> Some ([], r)
     | Some b \<Rightarrow> map_option (\<lambda>(sent, b). (sent, r\<lparr>rt_Buffer := Some b\<rparr>))
         (buf_Drain fuel (fe_disk env) cancelled stopped (\<lambda>n batch. fst (PublishJSON (w_marshal (fe_disk env)) (fe_send env) batch)) b))"

definition Stats :: "flush_env \<Rightarrow> Runtime \<Rightarrow> int \<times> int \<times> int \<times> nat \<times> int" where
  "Stats env r = (rt_PollsOK r, rt_PollsFailed r, rt_Batches r, case rt_Buffer r of None \<Rightarrow> (0, 0) | Some b \<Rightarrow> Depth (fe_disk env) b)"

subsection \<open>Jobs\<close>

datatype verdict = Ack | Reject

text \<open>A body as the two decoders see it.\<close>

record job_body =
  jb_poll :: "goerr + PollJob"
  jb_discovery :: "goerr + DiscoveryJob"

record handled =
  hd_verdict :: verdict
  hd_results :: "message list"
  hd_batches :: "MetricBatch list"
  hd_runtime :: Runtime

definition poll_outcome :: "poll_env \<Rightarrow> PollJob \<Rightarrow> goerr option \<Rightarrow> Sample list" where
  "poll_outcome env job err = (let now = unix_milli (pe_end env) in
     [sample job now ''netinv_poll_success'' [(''family'', j_Family job)] (if err = None then f64_one else f64_zero),
      sample job now ''netinv_poll_duration_seconds'' [(''family'', j_Family job)] (fl_seconds (pe_fl env) (pe_end env - pe_start env))])"

definition handle_job :: "poll_env \<Rightarrow> flush_env \<Rightarrow> job_body \<Rightarrow> Runtime \<Rightarrow> handled" where
  "handle_job env fenv body r = (case jb_poll body of
     Inl e \<Rightarrow> \<lparr>hd_verdict = Reject, hd_results = [], hd_batches = [], hd_runtime = r\<rparr>
   | Inr job \<Rightarrow>
       if j_Family job = ''discovery'' then
         (case jb_discovery body of Inl e \<Rightarrow> \<lparr>hd_verdict = Reject, hd_results = [], hd_batches = [], hd_runtime = r\<rparr>
          | Inr dj \<Rightarrow>
              let res = MsgDiscovery (executeDiscovery (rt_PollerID r) (pe_get env) (pe_stop env) (pe_order env) dj) in
              \<lparr>hd_verdict = Ack, hd_results = (if snd (PublishJSON (pe_marshal env) (pe_send env) res) then [res] else []), hd_batches = [], hd_runtime = r\<rparr>)
       else
         case execute env (rt_PollerID r) (rt_ICMPPrivileged r) job of ((samples, err), out) \<Rightarrow>
           let r = (if err \<noteq> None then r\<lparr>rt_PollsFailed := rt_PollsFailed r + 1\<rparr> else r\<lparr>rt_PollsOK := rt_PollsOK r + 1\<rparr>) in
           case append_samples fenv (samples @ poll_outcome env job err) r of (arrived, r) \<Rightarrow>
             \<lparr>hd_verdict = Ack, hd_results = out, hd_batches = arrived, hd_runtime = r\<rparr>)"

subsection \<open>Sites\<close>

definition sites :: "Runtime \<Rightarrow> string list" where
  "sites r = (if rt_SiteIDs r \<noteq> [] then rt_SiteIDs r else if rt_SiteID r \<noteq> [] then [rt_SiteID r] else [])"

definition AllSitesToken :: string where "AllSitesToken = ''*''"

definition allSites :: "Runtime \<Rightarrow> bool" where
  "allSites r \<longleftrightarrow> sites r = [AllSitesToken]"

definition reconcileSites :: "(string, 'c) gomap \<Rightarrow> string list \<Rightarrow> string list \<times> string list" where
  "reconcileSites running desired =
     (let wanted = filter (\<lambda>s. s \<noteq> []) desired in
      (sort (filter (\<lambda>s. map_of running s = None) wanted), sort (filter (\<lambda>s. s \<notin> set wanted) (map fst running))))"

text \<open>
  The consumers a poller has started and not cancelled, with the site each serves; \<open>fw_running\<close> is the map
  from a site to the handle_job that cancels its consumer.
\<close>

record follower =
  fw_running :: "(string, nat) gomap"
  fw_live :: "(nat \<times> string) list"
  fw_next :: nat

definition stop_site :: "string \<Rightarrow> follower \<Rightarrow> follower" where
  "stop_site site f = f\<lparr>fw_live := (case map_of (fw_running f) site of None \<Rightarrow> fw_live f | Some h \<Rightarrow> filter (\<lambda>c. fst c \<noteq> h) (fw_live f)),
     fw_running := AList.delete site (fw_running f)\<rparr>"

definition start_site :: "string \<Rightarrow> follower \<Rightarrow> follower" where
  "start_site site f = f\<lparr>fw_running := AList.update site (fw_next f) (fw_running f), fw_live := (fw_next f, site) # fw_live f, fw_next := fw_next f + 1\<rparr>"

text \<open>One announcement; a malformed one is ignored.\<close>

definition follow_announcement :: "goerr + string list \<Rightarrow> follower \<Rightarrow> follower" where
  "follow_announcement msg f = (case msg of Inl e \<Rightarrow> f
     | Inr announced \<Rightarrow> (case reconcileSites (fw_running f) announced of (start, stopping) \<Rightarrow> fold start_site start (fold stop_site stopping f)))"

definition followSites :: "(goerr + string list) list \<Rightarrow> follower" where
  "followSites msgs = fold follow_announcement msgs \<lparr>fw_running = [], fw_live = [], fw_next = 0\<rparr>"

end
