(* ===== verification/Poller_Flow.thy ===== *)
theory Poller_Flow
  imports Poller_Runtime
begin

text \<open>
  What happens to the samples of a poller whose workers, flush ticker and replay ticker run side by side,
  and which sites it consumes.
\<close>

subsection \<open>The disk buffer under a poller\<close>

text \<open>
  A disk of which only the encoding of batches is fixed: every file operation, listing, reading, writing
  and removing, may fail.
\<close>

definition disk_of :: "(MetricBatch \<Rightarrow> goerr + string) \<Rightarrow> (string \<Rightarrow> goerr + MetricBatch) \<Rightarrow> MetricBatch buf_env \<Rightarrow> bool" where
  "disk_of enc dec d \<longleftrightarrow> w_marshal d = enc \<and> w_unmarshal d = dec"

text \<open>
  What a batch becomes on its way through \<open>encoding/json\<close>: strings that are not UTF-8 are repaired, nothing
  else changes, and a repaired string stays as it is.
\<close>

definition json_repairs :: "(MetricBatch \<Rightarrow> goerr + string) \<Rightarrow> (string \<Rightarrow> goerr + MetricBatch) \<Rightarrow> (Sample \<Rightarrow> Sample) \<Rightarrow> bool" where
  "json_repairs enc dec fx \<longleftrightarrow> (\<forall>x raw. enc x = Inr raw \<longrightarrow> (\<exists>y. dec raw = Inr y \<and> mb_Samples y = map fx (mb_Samples x))) \<and> (\<forall>s. fx (fx s) = fx s)"

definition raw_samples :: "(string \<Rightarrow> goerr + MetricBatch) \<Rightarrow> string list \<Rightarrow> Sample list" where
  "raw_samples dec raws = concat (map (\<lambda>raw. case dec raw of Inl e \<Rightarrow> [] | Inr b \<Rightarrow> mb_Samples b) raws)"

definition batch_samples :: "MetricBatch list \<Rightarrow> Sample list" where
  "batch_samples bs = concat (map mb_Samples bs)"

lemma raw_samples_append [simp]: "raw_samples dec (xs @ ys) = raw_samples dec xs @ raw_samples dec ys"
  by (simp add: raw_samples_def)

lemma raw_samples_Nil [simp]: "raw_samples dec [] = []"
  by (simp add: raw_samples_def)

lemma batch_samples_append [simp]: "batch_samples (xs @ ys) = batch_samples xs @ batch_samples ys"
  by (simp add: batch_samples_def)

lemma batch_samples_Nil [simp]: "batch_samples [] = []"
  by (simp add: batch_samples_def)

text \<open>Samples up to the repair, and the samples in the files of a buffer.\<close>

definition fixed :: "(Sample \<Rightarrow> Sample) \<Rightarrow> Sample list \<Rightarrow> Sample multiset" where
  "fixed fx xs = image_mset fx (mset xs)"

lemma fixed_append [simp]: "fixed fx (xs @ ys) = fixed fx xs + fixed fx ys" "fixed fx [] = {#}"
  by (simp_all add: fixed_def)

lemma fixed_map: "json_repairs enc dec fx \<Longrightarrow> fixed fx (map fx xs) = fixed fx xs"
  by (simp add: fixed_def json_repairs_def multiset.map_comp o_def)

lemma mset_raw_samples: "mset (raw_samples dec raws) = (\<Sum>raw \<in># mset raws. mset (case dec raw of Inl e \<Rightarrow> [] | Inr b \<Rightarrow> mb_Samples b))"
  by (induction raws) (simp_all add: raw_samples_def)

lemma fixed_raw_samples: "mset xs = mset ys + mset zs \<Longrightarrow> fixed fx (raw_samples dec xs) = fixed fx (raw_samples dec ys) + fixed fx (raw_samples dec zs)"
  by (simp add: fixed_def mset_raw_samples)

text \<open>Removing a file takes its content away or nothing.\<close>

lemma rm_file_contents:
  assumes "gm_ok (files b)"
  shows "\<exists>gone. mset (contents b) = mset (contents (rm_file env n b)) + mset gone \<and> (gone = [] \<or> w_remove env n \<and> (\<exists>raw. map_of (files b) n = Some raw \<and> gone = [raw]))"
    and "gm_ok (files (rm_file env n b))" and "dropped (rm_file env n b) = dropped b" and "MaxBytes (rm_file env n b) = MaxBytes b"
proof -
  show "\<exists>gone. mset (contents b) = mset (contents (rm_file env n b)) + mset gone \<and> (gone = [] \<or> w_remove env n \<and> (\<exists>raw. map_of (files b) n = Some raw \<and> gone = [raw]))"
  proof (cases "w_remove env n")
    case True
    let ?gone = "map snd (filter (\<lambda>e. n = fst e) (entries b))"
    have "contents (rm_file env n b) = map snd (filter (\<lambda>e. n \<noteq> fst e) (entries b))"
      using True entries_delete [of n b] by (simp add: rm_file_def contents_def)
    then have g1: "mset (contents b) = mset (contents (rm_file env n b)) + mset ?gone"
      by (simp add: contents_def flip: image_mset_union multiset_partition)
    have g2: "?gone = [] \<or> (\<exists>raw. map_of (files b) n = Some raw \<and> ?gone = [raw])"
    proof (cases "n \<in> fst ` set (entries b)")
      case True
      then obtain raw where raw: "(n, raw) \<in> set (entries b)" by force
      have "filter (\<lambda>e. n = fst e) es = [(n, raw)]" if "(n, raw) \<in> set es" "gm_ok es" for es
        using that by (induction es) (force simp: filter_empty_conv)+
      then have "filter (\<lambda>e. n = fst e) (entries b) = [(n, raw)]" using raw entries_distinct [OF assms] by blast
      moreover have "map_of (files b) n = Some raw" using raw assms by (simp add: entries_set)
      ultimately show ?thesis by simp
    qed (auto simp: filter_empty_conv)
    show ?thesis using True g2 by (intro exI [of _ ?gone] conjI g1) blast
  qed (auto simp: rm_file_def)
  show "gm_ok (files (rm_file env n b))" using assms by (simp add: rm_file_def distinct_delete)
  show "dropped (rm_file env n b) = dropped b" "MaxBytes (rm_file env n b) = MaxBytes b" by (simp_all add: rm_file_def)
qed

lemma cap_loop_contents:
  assumes "gm_ok (files b)"
  shows "\<exists>gone. mset (contents b) = mset (contents (cap_loop env fs tot b)) + mset gone \<and> gm_ok (files (cap_loop env fs tot b)) \<and>
    dropped b + int (length gone) \<le> dropped (cap_loop env fs tot b)"
  using assms
proof (induction fs arbitrary: tot b)
  case (Cons f fs)
  let ?b = "(rm_file env (fst f) b)\<lparr>dropped := dropped b + 1\<rparr>"
  from rm_file_contents [OF Cons.prems, of env "fst f"] obtain g where
    g: "mset (contents b) = mset (contents (rm_file env (fst f) b)) + mset g" "length g \<le> 1" "gm_ok (files ?b)" by auto
  have c: "contents ?b = contents (rm_file env (fst f) b)" by (simp add: contents_def entries_def)
  from Cons.IH [OF g(3), of "tot - snd f"] obtain gone where
    "mset (contents ?b) = mset (contents (cap_loop env fs (tot - snd f) ?b)) + mset gone" "gm_ok (files (cap_loop env fs (tot - snd f) ?b))"
    "dropped ?b + int (length gone) \<le> dropped (cap_loop env fs (tot - snd f) ?b)" by blast
  with g c show ?case
    by (cases "tot \<le> MaxBytes b") (auto simp: Cons.prems intro: exI [of _ "[]"] exI [of _ "gone @ g"])
qed (auto intro: exI [of _ "[]"])

lemma Put_kept:
  assumes "disk_of enc dec d" and "json_repairs enc dec fx" and "before (w_now d) b" and put: "Put d batch b = (berr, b')"
  shows "\<exists>gone. fixed fx (raw_samples dec (contents b)) + (if berr = None then fixed fx (mb_Samples batch) else {#}) \<subseteq>#
      fixed fx (raw_samples dec (contents b')) + fixed fx (raw_samples dec gone) \<and> gm_ok (files b') \<and> dropped b + int (length gone) \<le> dropped b'"
proof -
  have ok: "gm_ok (files b)" using assms(3) by (simp add: before_def)
  have fresh: "contents (b\<lparr>files := AList.update (batch_name (w_now d)) c (files b)\<rparr>) = contents b @ [c]" for c
    using assms(3) by (intro contents_update) (auto simp: before_def)
  have enc: "w_marshal d = enc" using assms(1) by (simp add: disk_of_def)
  show ?thesis
  proof (cases "enc batch")
    case (Inl e)
    with put enc ok show ?thesis by (intro exI [of _ "[]"]) (auto simp: Put_def)
  next
    case (Inr raw)
    show ?thesis
    proof (cases "w_write d (batch_name (w_now d))")
      case (Some f)
      with put enc Inr have "berr = Some (fst f) \<and> (b' = b \<or> (\<exists>c. b' = b\<lparr>files := AList.update (batch_name (w_now d)) c (files b)\<rparr>))"
        by (auto simp: Put_def Let_def split: prod.splits option.splits)
      then show ?thesis using ok fresh by (intro exI [of _ "[]"]) (auto simp: distinct_update)
    next
      case None
      define b1 where "b1 = b\<lparr>files := AList.update (batch_name (w_now d)) raw (files b)\<rparr>"
      have b': "berr = None" "b' = enforceCap d b1" using put None enc Inr by (auto simp: Put_def Let_def b1_def)
      have "gm_ok (files b1)" using ok by (simp add: b1_def distinct_update)
      moreover obtain fs tot where "inventory d b1 = (fs, tot)" by force
      ultimately obtain gone where gone: "mset (contents b1) = mset (contents b') + mset gone" "gm_ok (files b')"
        "dropped b1 + int (length gone) \<le> dropped b'"
        using cap_loop_contents [of b1 d fs tot] b'(2) by (auto simp: enforceCap_def)
      have "raw_samples dec [raw] = map fx (mb_Samples batch)" using assms(2) Inr by (force simp: raw_samples_def json_repairs_def)
      then have "fixed fx (raw_samples dec (contents b1)) = fixed fx (raw_samples dec (contents b)) + fixed fx (mb_Samples batch)"
        using fresh [of raw] fixed_map [OF assms(2)] by (simp add: b1_def)
      with gone b'(1) fixed_raw_samples [OF gone(1), of fx dec] show ?thesis by (intro exI [of _ gone]) (simp add: b1_def)
    qed
  qed
qed

text \<open>What the replay throws away unread: the contents of the files it removes because reading them failed.\<close>

primrec drain_unread :: "nat \<Rightarrow> 'b buf_env \<Rightarrow> (nat \<Rightarrow> bool) \<Rightarrow> (nat \<Rightarrow> bool) \<Rightarrow> (nat \<Rightarrow> 'b \<Rightarrow> goerr option) \<Rightarrow> nat \<Rightarrow> DiskBuffer \<Rightarrow> string list" where
  "drain_unread 0 env cancelled stopped send n b = []"
| "drain_unread (Suc fuel) env cancelled stopped send n b =
     (if cancelled n then [] else case fst (inventory env b) of [] \<Rightarrow> []
      | f # fs \<Rightarrow> let rest = drain_unread fuel env cancelled stopped send (n + 1) (rm_file env (fst f) b) in
          (case map_of (files b) (fst f) of None \<Rightarrow> rest
           | Some raw \<Rightarrow> if \<not> w_read env (fst f) then (if w_remove env (fst f) then [raw] else []) @ rest
               else (case w_unmarshal env raw of Inl e \<Rightarrow> rest
                 | Inr batch \<Rightarrow> if send n batch \<noteq> None \<or> stopped n then [] else rest)))"

lemma rm_file_samples:
  assumes "gm_ok (files b)"
  shows "fixed fx (raw_samples dec (contents b)) \<subseteq># fixed fx (raw_samples dec (contents (rm_file env n b))) +
    (case map_of (files b) n of None \<Rightarrow> {#} | Some raw \<Rightarrow> if w_remove env n then fixed fx (raw_samples dec [raw]) else {#})"
proof -
  from rm_file_contents(1) [OF assms, of env n] obtain gone where g: "mset (contents b) = mset (contents (rm_file env n b)) + mset gone"
    "gone = [] \<or> w_remove env n \<and> (\<exists>raw. map_of (files b) n = Some raw \<and> gone = [raw])" by blast
  from fixed_raw_samples [OF g(1), of fx dec] g(2) show ?thesis by (auto split: option.splits)
qed

lemma drain_loop_kept:
  assumes "disk_of enc dec d" and "gm_ok (files b)" and "drain_loop fuel d c s send n b sent = Some (sent', b')"
  shows "\<exists>new. sent' = sent @ new \<and> fixed fx (raw_samples dec (contents b)) \<subseteq>#
      fixed fx (raw_samples dec (contents b')) + fixed fx (batch_samples new) + fixed fx (raw_samples dec (drain_unread fuel d c s send n b)) \<and>
    gm_ok (files b') \<and> dropped b' = dropped b"
  using assms(2,3)
proof (induction fuel arbitrary: n b sent)
  case (Suc fuel)
  have dec: "w_unmarshal d = dec" using assms(1) by (simp add: disk_of_def)
  show ?case
  proof (cases "c n \<or> fst (inventory d b) = []")
    case True
    with Suc.prems show ?thesis by auto
  next
    case False
    then obtain f fs where f: "\<not> c n" "fst (inventory d b) = f # fs" by (cases "fst (inventory d b)") auto
    define b1 where "b1 = rm_file d (fst f) b"
    note ok1 = rm_file_contents(2-3) [OF Suc.prems(1), of d "fst f", folded b1_def]
    note rm = rm_file_samples [OF Suc.prems(1), of fx dec d "fst f", folded b1_def]
    note ih = Suc.IH [OF ok1(1), of "n + 1"]
    show ?thesis
    proof (cases "map_of (files b) (fst f)")
      case None
      with f Suc.prems(2) have "drain_loop fuel d c s send (n + 1) b1 sent = Some (sent', b')" by (simp add: b1_def)
      from ih [OF this] None f rm ok1(2) show ?thesis by (auto simp: Let_def b1_def intro: subset_mset.order_trans)
    next
      case (Some raw)
      note rm = rm [unfolded Some option.case]
      consider "\<not> w_read d (fst f)" | e where "w_read d (fst f)" "dec raw = Inl e" | batch where "w_read d (fst f)" "dec raw = Inr batch"
        by (cases "dec raw") auto
      then show ?thesis
      proof cases
        case 1
        with f Some Suc.prems(2) have "drain_loop fuel d c s send (n + 1) b1 sent = Some (sent', b')" by (simp add: b1_def)
        from ih [OF this] obtain new where new: "sent' = sent @ new" "fixed fx (raw_samples dec (contents b1)) \<subseteq>#
            fixed fx (raw_samples dec (contents b')) + fixed fx (batch_samples new) + fixed fx (raw_samples dec (drain_unread fuel d c s send (n + 1) b1))"
          "gm_ok (files b')" "dropped b' = dropped b1" by blast
        have un: "drain_unread (Suc fuel) d c s send n b = (if w_remove d (fst f) then [raw] else []) @ drain_unread fuel d c s send (n + 1) b1"
          using 1 f Some by (simp add: b1_def Let_def)
        have "fixed fx (raw_samples dec (contents b)) \<subseteq># fixed fx (raw_samples dec (contents b')) + fixed fx (batch_samples new) +
            fixed fx (raw_samples dec (drain_unread (Suc fuel) d c s send n b))"
          using subset_mset.order_trans [OF rm subset_mset.add_right_mono [OF new(2)]] unfolding un by (simp add: ac_simps split: if_splits)
        with new ok1(2) show ?thesis by auto
      next
        case (2 e)
        with f Some Suc.prems(2) dec have "drain_loop fuel d c s send (n + 1) b1 sent = Some (sent', b')" by (simp add: b1_def)
        from ih [OF this] 2 f Some dec rm ok1(2) show ?thesis
          by (auto simp: Let_def b1_def raw_samples_def split: if_splits intro: subset_mset.order_trans)
      next
        case (3 batch)
        have rm: "fixed fx (raw_samples dec (contents b)) \<subseteq># fixed fx (raw_samples dec (contents b1)) + fixed fx (mb_Samples batch)"
          using rm 3 by (auto simp: raw_samples_def split: if_splits intro: subset_mset.order_trans)
        show ?thesis
        proof (cases "send n batch = None \<and> \<not> s n")
          case True
          with f Some Suc.prems(2) dec 3 have "drain_loop fuel d c s send (n + 1) b1 (sent @ [batch]) = Some (sent', b')" by (simp add: b1_def Let_def)
          from ih [OF this] obtain new where new: "sent' = (sent @ [batch]) @ new" "fixed fx (raw_samples dec (contents b1)) \<subseteq>#
              fixed fx (raw_samples dec (contents b')) + fixed fx (batch_samples new) + fixed fx (raw_samples dec (drain_unread fuel d c s send (n + 1) b1))"
            "gm_ok (files b')" "dropped b' = dropped b1" by blast
          have "drain_unread (Suc fuel) d c s send n b = drain_unread fuel d c s send (n + 1) b1" using True f Some dec 3 by (simp add: b1_def Let_def)
          with new ok1(2) subset_mset.order_trans [OF rm subset_mset.add_right_mono [OF new(2)]] show ?thesis
            by (intro exI [of _ "batch # new"]) (simp add: batch_samples_def ac_simps)
        next
          case False
          with f Some Suc.prems dec 3 have "sent' = sent \<and> b' = b \<or> sent' = sent @ [batch] \<and> b' = b1"
            by (auto simp: b1_def Let_def split: if_splits)
          moreover have "drain_unread (Suc fuel) d c s send n b = []" using False f Some dec 3 by (auto simp: Let_def)
          ultimately show ?thesis using rm ok1 Suc.prems(1) by (auto simp del: drain_unread.simps simp: batch_samples_def)
        qed
      qed
    qed
  qed
qed simp

subsection \<open>Side by side\<close>

text \<open>
  A poller with what its flushes have taken and not yet settled, the batches that arrived at the broker,
  what the replay has thrown away unread, and all samples its workers ever appended. Each critical section
  is a step, so is what a flush does with the batch it took, and so is a replay: it may be cut short after
  every round, so that a replay during which batches are spilled is a sequence of such steps. Batch files are
  named by the nanosecond, and no two spills fall into the same one.
\<close>

record poller =
  po_rt :: Runtime
  po_inflight :: "Sample list list"
  po_arrived :: "MetricBatch list"
  po_unread :: "string list"
  po_taken :: "Sample list"

definition replay_unread :: "nat \<Rightarrow> flush_env \<Rightarrow> (nat \<Rightarrow> bool) \<Rightarrow> (nat \<Rightarrow> bool) \<Rightarrow> Runtime \<Rightarrow> string list" where
  "replay_unread fuel env c s r = (case rt_Buffer r of None \<Rightarrow> []
     | Some b \<Rightarrow> drain_unread fuel (fe_disk env) c s (\<lambda>n batch. fst (PublishJSON (w_marshal (fe_disk env)) (fe_send env) batch)) 0 b)"

inductive poller_step :: "(MetricBatch \<Rightarrow> goerr + string) \<Rightarrow> (string \<Rightarrow> goerr + MetricBatch) \<Rightarrow> poller \<Rightarrow> poller \<Rightarrow> bool"
  for enc dec where
  counted: "poller_step enc dec p (p\<lparr>po_rt := (po_rt p)\<lparr>rt_PollsOK := a, rt_PollsFailed := f\<rparr>\<rparr>)"
| appended: "poller_step enc dec p (p\<lparr>po_rt := snd (append_section xs (po_rt p)), po_taken := po_taken p @ xs\<rparr>)"
| taken: "flush_take (po_rt p) = (Some out, r) \<Longrightarrow> poller_step enc dec p (p\<lparr>po_rt := r, po_inflight := out # po_inflight p\<rparr>)"
| settled: "out \<in> set (po_inflight p) \<Longrightarrow> disk_of enc dec (fe_disk env) \<Longrightarrow>
    (\<forall>b. rt_Buffer (po_rt p) = Some b \<longrightarrow> before (w_now (fe_disk env)) b) \<Longrightarrow> flush_settle env out (po_rt p) = (bs, r) \<Longrightarrow>
    poller_step enc dec p (p\<lparr>po_rt := r, po_inflight := remove1 out (po_inflight p), po_arrived := po_arrived p @ bs\<rparr>)"
| drained: "disk_of enc dec (fe_disk env) \<Longrightarrow> replay_tick fuel env c s (po_rt p) = Some (bs, r) \<Longrightarrow>
    poller_step enc dec p (p\<lparr>po_rt := r, po_arrived := po_arrived p @ bs, po_unread := po_unread p @ replay_unread fuel env c s (po_rt p)\<rparr>)"

text \<open>Where samples are: in memory, with a flush, on disk, at the broker, or thrown away unread.\<close>

definition on_disk :: "(string \<Rightarrow> goerr + MetricBatch) \<Rightarrow> Runtime \<Rightarrow> Sample list" where
  "on_disk dec r = (case rt_Buffer r of None \<Rightarrow> [] | Some b \<Rightarrow> raw_samples dec (contents b))"

definition whereabouts :: "(Sample \<Rightarrow> Sample) \<Rightarrow> (string \<Rightarrow> goerr + MetricBatch) \<Rightarrow> poller \<Rightarrow> Sample multiset" where
  "whereabouts fx dec p = fixed fx (rt_batch (po_rt p)) + fixed fx (concat (po_inflight p)) + fixed fx (on_disk dec (po_rt p)) +
     fixed fx (batch_samples (po_arrived p)) + fixed fx (raw_samples dec (po_unread p))"

definition cap_drops :: "Runtime \<Rightarrow> int" where
  "cap_drops r = (case rt_Buffer r of None \<Rightarrow> 0 | Some b \<Rightarrow> dropped b)"

definition buffer_ok :: "Runtime \<Rightarrow> bool" where
  "buffer_ok r \<longleftrightarrow> (case rt_Buffer r of None \<Rightarrow> True | Some b \<Rightarrow> gm_ok (files b))"

definition kept :: "(Sample \<Rightarrow> Sample) \<Rightarrow> (string \<Rightarrow> goerr + MetricBatch) \<Rightarrow> int \<Rightarrow> poller \<Rightarrow> bool" where
  "kept fx dec n p \<longleftrightarrow> buffer_ok (po_rt p) \<and>
     (\<exists>lost. fixed fx (po_taken p) \<subseteq># whereabouts fx dec p + fixed fx (raw_samples dec lost) \<and> n + int (length lost) \<le> cap_drops (po_rt p))"

lemma PublishJSON_arrived: "PublishJSON marshal send m = (None, a) \<Longrightarrow> a"
  by (auto simp: PublishJSON_def split: sum.splits delivery.splits)

lemma settle_kept:
  assumes "disk_of enc dec (fe_disk env)" and "json_repairs enc dec fx"
    and "\<forall>b. rt_Buffer r = Some b \<longrightarrow> before (w_now (fe_disk env)) b" and "buffer_ok r" and s: "flush_settle env out r = (bs, r')"
  shows "\<exists>gone. fixed fx out + fixed fx (rt_batch r) + fixed fx (on_disk dec r) \<subseteq>#
      fixed fx (rt_batch r') + fixed fx (on_disk dec r') + fixed fx (batch_samples bs) + fixed fx (raw_samples dec gone) \<and>
    buffer_ok r' \<and> cap_drops r + int (length gone) \<le> cap_drops r'"
proof -
  let ?batch = "\<lparr>mb_PollerID = rt_PollerID r, mb_SiteID = rt_SiteID r, mb_Samples = out\<rparr>"
  obtain err a where pub: "PublishJSON (w_marshal (fe_disk env)) (fe_send env) ?batch = (err, a)" by fastforce
  show ?thesis
  proof (cases err)
    case None
    with s pub assms(4) show ?thesis
      by (intro exI [of _ "[]"]) (auto simp: flush_settle_def Let_def batch_samples_def on_disk_def buffer_ok_def cap_drops_def)
  next
    case (Some e)
    show ?thesis
    proof (cases "rt_Buffer r")
      case None
      with s pub Some show ?thesis
        by (intro exI [of _ "[]"]) (auto simp: flush_settle_def Let_def on_disk_def buffer_ok_def cap_drops_def)
    next
      case (Some b)
      obtain berr b' where put: "Put (fe_disk env) ?batch b = (berr, b')" by fastforce
      from Put_kept [OF assms(1,2) _ put, unfolded MetricBatch.select_convs] assms(3) Some obtain gone where
        "fixed fx (raw_samples dec (contents b)) + (if berr = None then fixed fx out else {#}) \<subseteq># fixed fx (raw_samples dec (contents b')) + fixed fx (raw_samples dec gone)"
        "gm_ok (files b')" "dropped b + int (length gone) \<le> dropped b'" by auto
      moreover have "r' = (if berr = None then r\<lparr>rt_Buffer := Some b'\<rparr> else r\<lparr>rt_Buffer := Some b', rt_batch := out @ rt_batch r\<rparr>)"
        using s pub \<open>err = Some e\<close> Some put by (auto simp: flush_settle_def Let_def)
      ultimately show ?thesis using Some
        by (intro exI [of _ gone]) (auto simp: on_disk_def buffer_ok_def cap_drops_def ac_simps intro: subset_mset.add_increasing)
    qed
  qed
qed

lemma concat_remove1: "x \<in> set xss \<Longrightarrow> fixed fx (concat xss) = fixed fx x + fixed fx (concat (remove1 x xss))"
  by (induction xss) (auto simp: ac_simps)

lemma poller_step_kept:
  assumes "poller_step enc dec p q" and "json_repairs enc dec fx" and "kept fx dec n p"
  shows "kept fx dec n q"
proof -
  from assms(3) obtain lost where ok: "buffer_ok (po_rt p)" and lost: "fixed fx (po_taken p) \<subseteq># whereabouts fx dec p + fixed fx (raw_samples dec lost)"
    "n + int (length lost) \<le> cap_drops (po_rt p)" by (auto simp: kept_def)
  from assms(1) show ?thesis
  proof cases
    case (counted a f)
    with ok lost show ?thesis by (auto simp: kept_def whereabouts_def on_disk_def buffer_ok_def cap_drops_def)
  next
    case (appended xs)
    then have "whereabouts fx dec q = whereabouts fx dec p + fixed fx xs" by (simp add: whereabouts_def on_disk_def append_section_def)
    with lost(1) have "fixed fx (po_taken q) \<subseteq># whereabouts fx dec q + fixed fx (raw_samples dec lost)"
      using appended by (simp add: ac_simps)
    with ok lost(2) appended show ?thesis by (auto simp: kept_def buffer_ok_def cap_drops_def append_section_def)
  next
    case (taken out r)
    then have "out = rt_batch (po_rt p)" "r = (po_rt p)\<lparr>rt_batch := []\<rparr>" by (auto simp: flush_take_def split: if_splits)
    with taken ok lost show ?thesis by (auto simp: kept_def whereabouts_def on_disk_def buffer_ok_def cap_drops_def ac_simps)
  next
    case (settled out env bs r)
    from settle_kept [OF settled(3) assms(2) settled(4) ok settled(5)] obtain gone where
      g: "fixed fx out + fixed fx (rt_batch (po_rt p)) + fixed fx (on_disk dec (po_rt p)) \<subseteq>#
        fixed fx (rt_batch r) + fixed fx (on_disk dec r) + fixed fx (batch_samples bs) + fixed fx (raw_samples dec gone)"
      "buffer_ok r" "cap_drops (po_rt p) + int (length gone) \<le> cap_drops r" by blast
    have "whereabouts fx dec p + fixed fx (raw_samples dec lost) \<subseteq># whereabouts fx dec q + fixed fx (raw_samples dec (lost @ gone))"
      using subset_mset.add_right_mono [OF g(1), of "fixed fx (concat (remove1 out (po_inflight p))) + fixed fx (batch_samples (po_arrived p)) +
          fixed fx (raw_samples dec (po_unread p)) + fixed fx (raw_samples dec lost)"]
        concat_remove1 [OF settled(2), of fx] settled(1) by (simp add: whereabouts_def ac_simps)
    with g lost settled(1) show ?thesis
      by (auto simp: kept_def intro!: exI [of _ "lost @ gone"] intro: subset_mset.order_trans)
  next
    case (drained env fuel c s bs r)
    have d: "fixed fx (on_disk dec (po_rt p)) \<subseteq># fixed fx (on_disk dec r) + fixed fx (batch_samples bs) + fixed fx (raw_samples dec (replay_unread fuel env c s (po_rt p))) \<and>
      buffer_ok r \<and> cap_drops r = cap_drops (po_rt p) \<and> rt_batch r = rt_batch (po_rt p)"
    proof (cases "rt_Buffer (po_rt p)")
      case None
      with drained ok show ?thesis by (auto simp: replay_tick_def on_disk_def batch_samples_def)
    next
      case (Some b)
      with drained obtain b' where "drain_loop fuel (fe_disk env) c s (\<lambda>n batch. fst (PublishJSON (w_marshal (fe_disk env)) (fe_send env) batch)) 0 b [] = Some (bs, b')"
        "r = (po_rt p)\<lparr>rt_Buffer := Some b'\<rparr>" by (auto simp: replay_tick_def buf_Drain_def)
      with drain_loop_kept [OF drained(2) _ this(1), of fx] Some ok show ?thesis by (simp add: on_disk_def buffer_ok_def cap_drops_def replay_unread_def)
    qed
    have "whereabouts fx dec p + fixed fx (raw_samples dec lost) \<subseteq># whereabouts fx dec q + fixed fx (raw_samples dec lost)"
      using subset_mset.add_right_mono [OF d [THEN conjunct1], of "fixed fx (rt_batch (po_rt p)) + fixed fx (concat (po_inflight p)) + fixed fx (batch_samples (po_arrived p)) +
          fixed fx (raw_samples dec (po_unread p)) + fixed fx (raw_samples dec lost)"] d drained(1) by (simp add: whereabouts_def ac_simps)
    with lost(1) have "fixed fx (po_taken q) \<subseteq># whereabouts fx dec q + fixed fx (raw_samples dec lost)"
      using drained(1) by (auto intro: subset_mset.order_trans)
    with d drained(1) lost(2) show ?thesis unfolding kept_def by auto
  qed
qed

text \<open>
  C7. No interleaving loses a sample silently: however the workers' appends, flushes by size and by ticker,
  replays of the disk buffer, broker errors and failing file operations interleave, every sample appended is,
  up to the repair of strings that are not UTF-8, in memory, with a flush, on disk, at the broker, in one of
  the batches the disk buffer has dropped at its byte cap, every one of which it has counted, or in a file
  the replay removed because reading it failed.
\<close>

theorem samples_kept:
  assumes "json_repairs enc dec fx" and "(poller_step enc dec)\<^sup>*\<^sup>* p q" and "po_taken p = []" and "buffer_ok (po_rt p)"
  shows "\<exists>lost. image_mset fx (mset (po_taken q)) \<subseteq># image_mset fx (mset (rt_batch (po_rt q) @ concat (po_inflight q) @ on_disk dec (po_rt q) @
      batch_samples (po_arrived q) @ raw_samples dec (po_unread q) @ raw_samples dec lost)) \<and> cap_drops (po_rt p) + int (length lost) \<le> cap_drops (po_rt q)"
proof -
  have "kept fx dec (cap_drops (po_rt p)) p" using assms(3,4) by (auto simp: kept_def intro: exI [of _ "[]"])
  with assms(2) have "kept fx dec (cap_drops (po_rt p)) q"
    by (induction rule: rtranclp_induct) (auto intro: poller_step_kept [OF _ assms(1)])
  then show ?thesis by (auto simp: kept_def whereabouts_def fixed_def ac_simps)
qed

definition demo_sample :: "float64 \<Rightarrow> Sample" where
  "demo_sample v = \<lparr>sm_DeviceID = ''d'', sm_Name = ''m'', sm_Labels = [], sm_TSMillis = 0, sm_Value = v\<rparr>"

definition demo_spill_batch :: MetricBatch where
  "demo_spill_batch = \<lparr>mb_PollerID = [], mb_SiteID = [], mb_Samples = [demo_sample 0]\<rparr>"

definition demo_enc :: "MetricBatch \<Rightarrow> goerr + string" where
  "demo_enc b = (if b = demo_spill_batch then Inr ''{}'' else Inl (ErrLeaf ''unsupported value''))"

definition demo_dec :: "string \<Rightarrow> goerr + MetricBatch" where
  "demo_dec raw = Inr demo_spill_batch"

definition demo_rt :: Runtime where
  "demo_rt = \<lparr>rt_PollerID = [], rt_SiteID = [], rt_SiteIDs = [], rt_ICMPPrivileged = False, rt_Buffer = Some \<lparr>MaxBytes = 100, dropped = 0, files = []\<rparr>,
     rt_PollsOK = 0, rt_PollsFailed = 0, rt_Batches = 0, rt_batch = []\<rparr>"

definition demo_poller :: poller where
  "demo_poller = \<lparr>po_rt = demo_rt, po_inflight = [], po_arrived = [], po_unread = [], po_taken = []\<rparr>"

text \<open>The link is down and files cannot be read: a sample is taken, spilled, and thrown away by the replay.\<close>

definition demo_link_down :: flush_env where
  "demo_link_down = \<lparr>fe_disk = \<lparr>w_now = 1, w_marshal = demo_enc, w_unmarshal = demo_dec, w_write = (\<lambda>n. None), w_remove = (\<lambda>n. True), w_info = (\<lambda>n. True), w_read = (\<lambda>n. False)\<rparr>,
     fe_send = \<lambda>b. Unconfirmed (ErrLeaf ''closed'') False\<rparr>"

definition demo_spilled :: poller where
  "demo_spilled = demo_poller\<lparr>po_rt := demo_rt\<lparr>rt_Buffer := Some \<lparr>MaxBytes = 100, dropped = 0, files = [(''1.batch'', ''{}'')]\<rparr>\<rparr>, po_taken := [demo_sample 0]\<rparr>"

definition demo_unread :: poller where
  "demo_unread = demo_poller\<lparr>po_unread := [''{}''], po_taken := [demo_sample 0]\<rparr>"

lemma demo_run:
  "(poller_step demo_enc demo_dec)\<^sup>*\<^sup>* demo_poller demo_spilled" "(poller_step demo_enc demo_dec)\<^sup>*\<^sup>* demo_poller demo_unread"
proof -
  let ?s = "poller_step demo_enc demo_dec" and ?x = "demo_sample 0"
  let ?p1 = "demo_poller\<lparr>po_rt := demo_rt\<lparr>rt_batch := [?x]\<rparr>, po_taken := [?x]\<rparr>" and ?p2 = "demo_poller\<lparr>po_inflight := [[?x]], po_taken := [?x]\<rparr>"
  have disk: "disk_of demo_enc demo_dec (fe_disk demo_link_down)" by (simp add: disk_of_def demo_link_down_def)
  have 1: "?s demo_poller ?p1"
    using poller_step.appended [of demo_enc demo_dec demo_poller "[?x]"] by (simp add: demo_poller_def demo_rt_def append_section_def)
  have 2: "?s ?p1 ?p2"
    using poller_step.taken [of ?p1 "[?x]" demo_rt demo_enc demo_dec] by (simp add: demo_poller_def demo_rt_def flush_take_def)
  have "flush_settle demo_link_down [?x] demo_rt = ([], po_rt demo_spilled)" by code_simp
  moreover have "\<forall>b. rt_Buffer (po_rt ?p2) = Some b \<longrightarrow> before (w_now (fe_disk demo_link_down)) b"
    by (simp add: demo_poller_def demo_rt_def before_def)
  ultimately have 3: "?s ?p2 demo_spilled"
    using poller_step.settled [of "[?x]" ?p2 demo_enc demo_dec demo_link_down "[]" "po_rt demo_spilled"] disk by (simp add: demo_poller_def demo_spilled_def)
  show spilled: "?s\<^sup>*\<^sup>* demo_poller demo_spilled" using 1 2 3 by (meson r_into_rtranclp rtranclp_trans)
  have "replay_tick 2 demo_link_down (\<lambda>n. False) (\<lambda>n. False) (po_rt demo_spilled) = Some ([], demo_rt)"
    "replay_unread 2 demo_link_down (\<lambda>n. False) (\<lambda>n. False) (po_rt demo_spilled) = [''{}'']" by code_simp+
  then have "?s demo_spilled demo_unread"
    using poller_step.drained [OF disk, of 2 "\<lambda>n. False" "\<lambda>n. False" demo_spilled "[]" demo_rt] by (simp add: demo_poller_def demo_spilled_def demo_unread_def)
  with spilled show "?s\<^sup>*\<^sup>* demo_poller demo_unread" by simp
qed

theorem samples_kept_witness:
  "(poller_step demo_enc demo_dec)\<^sup>*\<^sup>* demo_poller demo_spilled \<and> on_disk demo_dec (po_rt demo_spilled) = [demo_sample 0] \<and>
   (\<exists>lost. mset (po_taken demo_spilled) \<subseteq># mset (rt_batch (po_rt demo_spilled) @ concat (po_inflight demo_spilled) @ on_disk demo_dec (po_rt demo_spilled) @
      batch_samples (po_arrived demo_spilled) @ raw_samples demo_dec (po_unread demo_spilled) @ raw_samples demo_dec lost) \<and> int (length lost) \<le> cap_drops (po_rt demo_spilled))"
proof -
  have "json_repairs demo_enc demo_dec (\<lambda>s. s)" by (auto simp: json_repairs_def demo_enc_def demo_dec_def split: if_splits)
  moreover have "po_taken demo_poller = []" "buffer_ok (po_rt demo_poller)" "cap_drops (po_rt demo_poller) = 0" by (simp_all add: demo_poller_def demo_rt_def buffer_ok_def cap_drops_def)
  moreover have "on_disk demo_dec (po_rt demo_spilled) = [demo_sample 0]" by code_simp
  ultimately show ?thesis using samples_kept [OF _ demo_run(1), of "\<lambda>s. s"] demo_run(1) by (auto simp del: mset_append)
qed

text \<open>
  A file that cannot be read is lost without a trace: the replay removes it, and the sample in it is neither
  in memory nor on disk nor at the broker, and not counted as dropped.
\<close>

lemma unreadable_file_lost:
  "\<exists>q. (poller_step demo_enc demo_dec)\<^sup>*\<^sup>* demo_poller q \<and> po_taken q = [demo_sample 0] \<and> rt_batch (po_rt q) = [] \<and> po_inflight q = [] \<and>
     on_disk demo_dec (po_rt q) = [] \<and> po_arrived q = [] \<and> cap_drops (po_rt q) = 0"
  using demo_run(2) by (intro exI [of _ demo_unread]) (simp add: demo_unread_def demo_poller_def demo_rt_def on_disk_def cap_drops_def contents_def entries_def)

subsection \<open>A value that cannot be encoded\<close>

text \<open>What one worker and the ticker do, one after the other: flush, or append and perhaps flush.\<close>

definition flush_op :: "flush_env \<times> Sample list \<Rightarrow> MetricBatch list \<times> Runtime \<Rightarrow> MetricBatch list \<times> Runtime" where
  "flush_op x s = (case (if snd x = [] then flush (fst x) (snd s) else append_samples (fst x) (snd x) (snd s)) of (bs, r) \<Rightarrow> (fst s @ bs, r))"

text \<open>JSON has no infinities and no NaN.\<close>

definition json_rejects :: "(MetricBatch \<Rightarrow> goerr + string) \<Rightarrow> bool" where
  "json_rejects enc \<longleftrightarrow> (\<forall>b. list_ex (\<lambda>s. f64_special (sm_Value s)) (mb_Samples b) \<longrightarrow> (\<exists>e. enc b = Inl e))"

lemma flush_poisoned:
  assumes "json_rejects (w_marshal (fe_disk env))" and "list_ex (\<lambda>s. f64_special (sm_Value s)) (rt_batch r)"
  shows "flush env r = ([], r)"
proof -
  let ?b = "\<lparr>mb_PollerID = rt_PollerID r, mb_SiteID = rt_SiteID r, mb_Samples = rt_batch r\<rparr>"
  obtain e where e: "w_marshal (fe_disk env) ?b = Inl e" using assms(1) [unfolded json_rejects_def, THEN spec, of ?b] assms(2) by auto
  have "rt_batch r \<noteq> []" using assms(2) by auto
  with e show ?thesis
    by (cases r) (auto simp: flush_def flush_take_def flush_settle_def PublishJSON_def Put_def Let_def split: option.splits)
qed

text \<open>
  One value stops a poller's metrics for good: once a sample that is infinite or not a number is in
  memory, no flush ever publishes or spills anything again, whatever the broker and the disk do; every
  sample collected from then on piles up in memory.
\<close>

theorem poisoned_batch_blocks:
  assumes "\<forall>x \<in> set xs. json_rejects (w_marshal (fe_disk (fst x)))" and "list_ex (\<lambda>s. f64_special (sm_Value s)) (rt_batch r)"
  shows "fold flush_op xs (bs, r) = (bs, r\<lparr>rt_batch := rt_batch r @ concat (map snd xs)\<rparr>)"
  using assms
proof (induction xs arbitrary: r)
  case (Cons x xs)
  let ?r = "r\<lparr>rt_batch := rt_batch r @ snd x\<rparr>"
  have "list_ex (\<lambda>s. f64_special (sm_Value s)) (rt_batch ?r)" using Cons.prems(2) by simp
  moreover from flush_poisoned [OF _ this] Cons.prems flush_poisoned [of "fst x" r] have "flush_op x (bs, r) = (bs, ?r)"
    by (auto simp: flush_op_def append_samples_def append_section_def Let_def)
  ultimately show ?case using Cons.IH [of ?r] Cons.prems(1) by simp
qed simp

theorem poisoned_batch_blocks_witness:
  "let env = \<lparr>fe_disk = \<lparr>w_now = 1, w_marshal = demo_enc, w_unmarshal = demo_dec, w_write = (\<lambda>n. None), w_remove = (\<lambda>n. True), w_info = (\<lambda>n. True), w_read = (\<lambda>n. True)\<rparr>,
         fe_send = \<lambda>b. Confirmed\<rparr>;
       r = demo_rt\<lparr>rt_batch := [demo_sample 0x7FF8000000000001]\<rparr>
   in fold flush_op [(env, []), (env, [demo_sample 0]), (env, [])] ([], r) = ([], r\<lparr>rt_batch := [demo_sample 0x7FF8000000000001, demo_sample 0]\<rparr>)"
proof -
  define env :: flush_env where "env = \<lparr>fe_disk = \<lparr>w_now = 1, w_marshal = demo_enc, w_unmarshal = demo_dec, w_write = (\<lambda>n. None), w_remove = (\<lambda>n. True), w_info = (\<lambda>n. True), w_read = (\<lambda>n. True)\<rparr>,
         fe_send = \<lambda>b. Confirmed\<rparr>"
  have "json_rejects (w_marshal (fe_disk env))" by (auto simp: json_rejects_def env_def demo_enc_def demo_spill_batch_def demo_sample_def f64_special_def)
  moreover have "list_ex (\<lambda>s. f64_special (sm_Value s)) (rt_batch (demo_rt\<lparr>rt_batch := [demo_sample 0x7FF8000000000001]\<rparr>))"
    by (simp add: demo_sample_def f64_special_def)
  ultimately show ?thesis
    using poisoned_batch_blocks [of "[(env, []), (env, [demo_sample 0]), (env, [])]" "demo_rt\<lparr>rt_batch := [demo_sample 0x7FF8000000000001]\<rparr>" "[]"]
    unfolding env_def [symmetric] by simp
qed

subsection \<open>Which sites are consumed\<close>

text \<open>Each live consumer is the one its site's handle_job cancels.\<close>

definition follower_ok :: "follower \<Rightarrow> bool" where
  "follower_ok f \<longleftrightarrow> gm_ok (fw_running f) \<and> mset (map prod.swap (fw_live f)) = mset (fw_running f) \<and> distinct (map snd (fw_running f)) \<and>
     (\<forall>c \<in> set (fw_running f). snd c < fw_next f)"

lemma follower_sites: "follower_ok f \<Longrightarrow> mset (map snd (fw_live f)) = mset (map fst (fw_running f))"
proof -
  assume "follower_ok f"
  then have "image_mset fst (mset (map prod.swap (fw_live f))) = image_mset fst (mset (fw_running f))" by (simp add: follower_ok_def)
  then show ?thesis by (simp add: multiset.map_comp o_def)
qed

lemma stop_site_ok:
  assumes "follower_ok f"
  shows "follower_ok (stop_site site f)" and "map fst (fw_running (stop_site site f)) = filter (\<lambda>s. s \<noteq> site) (map fst (fw_running f))"
proof -
  have ok: "gm_ok (fw_running f)" "mset (map prod.swap (fw_live f)) = mset (fw_running f)" "distinct (map snd (fw_running f))"
    "\<forall>c \<in> set (fw_running f). snd c < fw_next f" using assms by (auto simp: follower_ok_def)
  have del: "AList.delete site (fw_running f) = filter (\<lambda>c. fst c \<noteq> site) (fw_running f)" by (auto simp: AList.delete_eq intro: filter_cong)
  show "map fst (fw_running (stop_site site f)) = filter (\<lambda>s. s \<noteq> site) (map fst (fw_running f))"
    by (simp add: stop_site_def del filter_map o_def)
  have live: "mset (map prod.swap (fw_live (stop_site site f))) = mset (filter (\<lambda>c. fst c \<noteq> site) (fw_running f))"
  proof (cases "map_of (fw_running f) site")
    case None
    then have "filter (\<lambda>c. fst c \<noteq> site) (fw_running f) = fw_running f" by (auto simp: map_of_eq_None_iff intro!: filter_True)
    with None ok show ?thesis by (simp add: stop_site_def)
  next
    case (Some h)
    then have h: "(site, h) \<in> set (fw_running f)" by (rule map_of_SomeD)
    have "snd c = h \<longleftrightarrow> fst c = site" if "c \<in> set (fw_running f)" for c
      using that h ok(1,3) by (metis eq_key_imp_eq_value inj_onD distinct_map fst_conv snd_conv surjective_pairing)
    then have "filter (\<lambda>c. fst c \<noteq> site) (fw_running f) = filter (\<lambda>c. snd c \<noteq> h) (fw_running f)" by (intro filter_cong) auto
    moreover have "mset (map prod.swap (filter (\<lambda>c. fst c \<noteq> h) (fw_live f))) = filter_mset (\<lambda>c. snd c \<noteq> h) (mset (map prod.swap (fw_live f)))"
      unfolding mset_filter [symmetric] by (simp only: filter_map o_def snd_swap)
    ultimately show ?thesis using Some ok(2) by (simp add: stop_site_def)
  qed
  with ok show "follower_ok (stop_site site f)"
    by (auto simp: follower_ok_def stop_site_def del distinct_map_filter)
qed

lemma start_site_ok:
  assumes "follower_ok f" and "site \<notin> set (map fst (fw_running f))"
  shows "follower_ok (start_site site f)" and "map fst (fw_running (start_site site f)) = map fst (fw_running f) @ [site]"
proof -
  have upd: "AList.update site (fw_next f) (fw_running f) = fw_running f @ [(site, fw_next f)]" using assms(2) by (intro update_fresh) auto
  show "map fst (fw_running (start_site site f)) = map fst (fw_running f) @ [site]" by (simp add: start_site_def upd)
  show "follower_ok (start_site site f)" using assms by (fastforce simp: follower_ok_def start_site_def upd)
qed

lemma stops_ok:
  assumes "follower_ok f"
  shows "follower_ok (fold stop_site ss f) \<and> map fst (fw_running (fold stop_site ss f)) = filter (\<lambda>s. s \<notin> set ss) (map fst (fw_running f))"
  using assms by (induction ss arbitrary: f) (auto simp: stop_site_ok intro: filter_cong)

lemma starts_ok:
  assumes "follower_ok f" and "distinct ss" and "set ss \<inter> set (map fst (fw_running f)) = {}"
  shows "follower_ok (fold start_site ss f) \<and> map fst (fw_running (fold start_site ss f)) = map fst (fw_running f) @ ss"
  using assms
proof (induction ss arbitrary: f)
  case (Cons s ss)
  then have s: "s \<notin> set (map fst (fw_running f))" by auto
  show ?case using Cons.IH [of "start_site s f"] Cons.prems start_site_ok [OF Cons.prems(1) s] by auto
qed simp

lemma announcement_ok:
  assumes "follower_ok f" and "distinct ss"
  shows "follower_ok (follow_announcement (Inr ss) f) \<and> set (map fst (fw_running (follow_announcement (Inr ss) f))) = set ss - {[]}"
proof -
  obtain start stopping where r: "reconcileSites (fw_running f) ss = (start, stopping)" by fastforce
  then have st: "distinct start" "set start = {s \<in> set ss - {[]}. s \<notin> fst ` set (fw_running f)}" "set stopping = fst ` set (fw_running f) - (set ss - {[]})"
    using assms(2) by (simp_all add: reconcileSites_def Let_def map_of_eq_None_iff) (auto simp del: fst_conv, (metis fst_conv imageI)+)
  note a = stops_ok [OF assms(1), of stopping]
  have "set start \<inter> set (map fst (fw_running (fold stop_site stopping f))) = {}" using a st by auto
  from starts_ok [OF _ st(1) this] a st r show ?thesis by (auto simp: follow_announcement_def)
qed

text \<open>The sites of the last announcement that could be read.\<close>

definition last_announced :: "(goerr + string list) list \<Rightarrow> string list" where
  "last_announced msgs = fold (\<lambda>m ss. case m of Inl e \<Rightarrow> ss | Inr announced \<Rightarrow> announced) msgs []"

lemma followSites_sites:
  assumes "\<forall>m \<in> set msgs. case m of Inl e \<Rightarrow> True | Inr ss \<Rightarrow> distinct ss"
  shows "distinct (map snd (fw_live (followSites msgs))) \<and> set (map snd (fw_live (followSites msgs))) = set (last_announced msgs) - {[]}"
proof -
  have "follower_ok (followSites msgs) \<and> set (map fst (fw_running (followSites msgs))) = set (last_announced msgs) - {[]}"
    using assms
  proof (induction msgs rule: rev_induct)
    case Nil
    then show ?case by (simp add: followSites_def follower_ok_def last_announced_def)
  next
    case (snoc m msgs)
    then have ih: "follower_ok (followSites msgs)" "set (map fst (fw_running (followSites msgs))) = set (last_announced msgs) - {[]}" by auto
    show ?case
    proof (cases m)
      case (Inl e)
      with ih show ?thesis by (simp add: followSites_def last_announced_def follow_announcement_def)
    next
      case (Inr ss)
      with snoc.prems announcement_ok [OF ih(1), of ss] show ?thesis by (simp add: followSites_def last_announced_def)
    qed
  qed
  then have "mset (map snd (fw_live (followSites msgs))) = mset (map fst (fw_running (followSites msgs)))"
    and "distinct (map fst (fw_running (followSites msgs)))" and "set (map fst (fw_running (followSites msgs))) = set (last_announced msgs) - {[]}"
    using follower_sites by (blast, simp_all add: follower_ok_def)
  then show ?thesis by (metis mset_eq_imp_distinct_iff mset_eq_setD)
qed

text \<open>
  A poller that serves every announced site has exactly one live consumer for each non-empty site of the
  last announcement it could read, and no other: new sites are picked up, withdrawn ones are dropped, and
  no consumer is started twice or left behind, over any sequence of announcements without duplicates.
\<close>

theorem follows_announcements:
  assumes "\<forall>m \<in> set msgs. case m of Inl e \<Rightarrow> True | Inr ss \<Rightarrow> distinct ss"
  shows "distinct (map snd (fw_live (followSites msgs))) \<and> set (map snd (fw_live (followSites msgs))) = set (last_announced msgs) - {[]}"
  using assms by (rule followSites_sites)

theorem follows_announcements_witness:
  "set (map snd (fw_live (followSites [Inr [''a'', ''b''], Inl (ErrLeaf ''json''), Inr [''b'', [], ''c'']]))) = {''b'', ''c''}"
  using follows_announcements [of "[Inr [''a'', ''b''], Inl (ErrLeaf ''json''), Inr [''b'', [], ''c'']]"] by (auto simp: last_announced_def)

end
