(* ===== verification/Metric_Ingest.thy ===== *)
theory Metric_Ingest
  imports Poller_Runtime
begin

text \<open>
  Metric ingest (\<open>internal/metrics/app/ingest.go\<close>, \<open>internal/metrics/adapters\<close>) and the writer with mirrors
  (\<open>internal/platform/vmwrite/mirror.go\<close>): a batch from the broker is enriched with the labels of its devices,
  written to the metrics store with retries, and acknowledged when the store has it.

  Parameters: the JSON encoder, HTTP requests, the clock, the tables the label snapshot is read from, and
  whether the context is cancelled during a wait. Retries run with fuel ten, the limit of the policy.

  Shown: with either writer a batch is settled within ten attempts and acknowledged only when the store has
  accepted it; with the direct writer a batch is given up only if it cannot be sent, the store refuses it or the
  context is cancelled; with the mirroring writer, which the service uses, every failure to reach the store makes
  it so; and mirrors never influence the outcome.
\<close>

subsection \<open>Labels\<close>

record DeviceLabels =
  dl_Device :: string
  dl_Site :: string
  dl_Vendor :: string

record label_row =
  lr_ID :: string
  lr_Name :: string
  lr_SiteID :: string
  lr_Vendor :: string
  lr_Status :: string

definition Snapshot :: "(goerr \<times> bool) option \<Rightarrow> label_row list \<Rightarrow> (string \<times> string) list \<Rightarrow> goerr + (string, DeviceLabels) gomap" where
  "Snapshot fault devices site_names = (case fault of
     Some (e, at_query) \<Rightarrow> Inl (if at_query then KindError KindTransient (ErrMsg ''label snapshot'' e) else e)
   | None \<Rightarrow> Inr (foldl (\<lambda>m d. case map_of site_names (lr_SiteID d) of None \<Rightarrow> m
       | Some site \<Rightarrow> if lr_Status d = ''retired'' then m
           else AList.update (lr_ID d) \<lparr>dl_Device = lr_Name d, dl_Site = site, dl_Vendor = lr_Vendor d\<rparr> m) [] devices))"

record EnrichedSample =
  en_Name :: string
  en_Labels :: "(string, string) gomap"
  en_TSMillis :: int
  en_Value :: float64

definition sanitizeLabel :: "string \<Rightarrow> string" where
  "sanitizeLabel v = (if 120 < length v then take 120 v else v)"

definition enrich :: "(string, DeviceLabels) gomap \<Rightarrow> Sample \<Rightarrow> EnrichedSample" where
  "enrich snap s =
     (let labels = foldl (\<lambda>m kv. AList.update (fst kv) (sanitizeLabel (snd kv)) m) [(''device_id'', sm_DeviceID s)] (sm_Labels s);
          labels = (case map_of snap (sm_DeviceID s) of None \<Rightarrow> labels
            | Some dl \<Rightarrow>
                let labels = AList.update ''site'' (dl_Site dl) (AList.update ''device'' (dl_Device dl) labels) in
                if dl_Vendor dl \<noteq> [] then AList.update ''vendor'' (dl_Vendor dl) labels else labels)
      in \<lparr>en_Name = sm_Name s, en_Labels = labels, en_TSMillis = sm_TSMillis s, en_Value = sm_Value s\<rparr>)"

subsection \<open>The store\<close>

text \<open>A POST: it could not be built, it failed, or it was answered with a status and a body.\<close>

datatype http_result = BadRequest goerr | NoAnswer goerr | Answer int string

record import_line =
  il_Metric :: "(string, string) gomap"
  il_Values :: "float64 list"
  il_Timestamps :: "int list"

definition line_of :: "EnrichedSample \<Rightarrow> import_line" where
  "line_of s = \<lparr>il_Metric = foldl (\<lambda>m kv. AList.update (fst kv) (snd kv) m) [(''__name__'', en_Name s)] (en_Labels s),
     il_Values = [en_Value s], il_Timestamps = [en_TSMillis s]\<rparr>"

primrec import_body :: "(import_line \<Rightarrow> goerr + string) \<Rightarrow> EnrichedSample list \<Rightarrow> goerr + string" where
  "import_body enc [] = Inr []"
| "import_body enc (s # ss) = (case enc (line_of s) of Inl e \<Rightarrow> Inl (KindError KindInternal (ErrMsg ''vm: encode'' e))
     | Inr line \<Rightarrow> (case import_body enc ss of Inl e \<Rightarrow> Inl e | Inr body \<Rightarrow> Inr (line @ body)))"

text \<open>What a target's store has accepted, what the counters of a mirror say, and when it was last warned of.\<close>

record vm_state =
  vm_stored :: "(string \<times> string) list"
  vm_mirrored :: "(string, nat) gomap"
  vm_failed :: "(string, nat) gomap"
  vm_warned :: "(string, gotime) gomap"
  vm_log :: "(string \<times> gotime) list"

record vm_env =
  ve_post :: "string \<Rightarrow> string \<Rightarrow> http_result"
  ve_clock :: "string \<Rightarrow> gotime"
  ve_status_text :: "int \<Rightarrow> string"

definition post :: "vm_env \<Rightarrow> string \<Rightarrow> string \<Rightarrow> vm_state \<Rightarrow> goerr option \<times> vm_state" where
  "post env base body s = (case ve_post env base body of
     BadRequest e \<Rightarrow> (Some e, s)
   | NoAnswer e \<Rightarrow> (Some e, s)
   | Answer code text \<Rightarrow> if 300 \<le> code then (Some (ErrLeaf (''import status '' @ ve_status_text env code @ '': '' @ text)), s) else (None, s\<lparr>vm_stored := vm_stored s @ [(base, body)]\<rparr>))"

definition bump :: "string \<Rightarrow> (string, nat) gomap \<Rightarrow> (string, nat) gomap" where
  "bump k m = AList.update k ((case map_of m k of None \<Rightarrow> 0 | Some n \<Rightarrow> n) + 1) m"

definition warn :: "vm_env \<Rightarrow> string \<Rightarrow> vm_state \<Rightarrow> vm_state" where
  "warn env url s = (let now = ve_clock env url in
     if (case map_of (vm_warned s) url of None \<Rightarrow> False | Some prev \<Rightarrow> time_sub now prev < nanos_per_min) then s
     else s\<lparr>vm_warned := AList.update url now (vm_warned s), vm_log := vm_log s @ [(url, now)]\<rparr>)"

definition mirror :: "vm_env \<Rightarrow> string \<Rightarrow> string \<Rightarrow> vm_state \<Rightarrow> vm_state" where
  "mirror env body url s = (case post env url body s of
     (Some e, s) \<Rightarrow> warn env url (s\<lparr>vm_failed := bump url (vm_failed s)\<rparr>)
   | (None, s) \<Rightarrow> s\<lparr>vm_mirrored := bump url (vm_mirrored s)\<rparr>)"

definition Import :: "vm_env \<Rightarrow> string \<Rightarrow> string list \<Rightarrow> string \<Rightarrow> vm_state \<Rightarrow> goerr option \<times> vm_state" where
  "Import env primary mirrors body s = (case post env primary body s of
     (Some e, s) \<Rightarrow> (Some e, s) | (None, s) \<Rightarrow> (None, fold (mirror env body) mirrors s))"

definition ParseMirrors :: "string \<Rightarrow> string list" where
  "ParseMirrors v = filter (\<lambda>p. p \<noteq> []) (map TrimSpace (split_on (CHR '','') [] v))"

text \<open>The writer; with a target, that owns the POST.\<close>

record Writer =
  wr_BaseURL :: string
  wr_Target :: "(string \<times> string list) option"

definition NewMirroredDynamic :: "string \<Rightarrow> string list \<Rightarrow> Writer" where
  "NewMirroredDynamic baseURL mirrors = \<lparr>wr_BaseURL = baseURL, wr_Target = Some (baseURL, mirrors)\<rparr>"

definition NewWriter :: "string \<Rightarrow> Writer" where
  "NewWriter baseURL = \<lparr>wr_BaseURL = baseURL, wr_Target = None\<rparr>"

definition Write :: "(import_line \<Rightarrow> goerr + string) \<Rightarrow> vm_env \<Rightarrow> Writer \<Rightarrow> EnrichedSample list \<Rightarrow> vm_state \<Rightarrow> goerr option \<times> vm_state" where
  "Write enc env w samples s =
     (if samples = [] then (None, s)
      else case import_body enc samples of Inl e \<Rightarrow> (Some e, s)
      | Inr body \<Rightarrow> (case wr_Target w of Some (primary, mirrors) \<Rightarrow> Import env primary mirrors body s
          | None \<Rightarrow> (case ve_post env (wr_BaseURL w) body of
              BadRequest e \<Rightarrow> (Some (KindError KindInternal (ErrMsg ''vm: request'' e)), s)
            | NoAnswer e \<Rightarrow> (Some (KindError KindTransient (ErrMsg ''vm: post'' e)), s)
            | Answer code text \<Rightarrow>
                if 300 \<le> code then (Some (errx_New (if 400 \<le> code \<and> code < 500 then KindInvalid else KindTransient) (''vm: import status '' @ int_str code @ '': '' @ text)), s)
                else (None, s\<lparr>vm_stored := vm_stored s @ [(wr_BaseURL w, body)]\<rparr>))))"

subsection \<open>Handling a batch\<close>

record Ingester =
  in_snap :: "(string, DeviceLabels) gomap"
  in_vm :: vm_state

definition refresh :: "goerr + (string, DeviceLabels) gomap \<Rightarrow> Ingester \<Rightarrow> goerr option \<times> Ingester" where
  "refresh got i = (case got of Inl e \<Rightarrow> (Some e, i) | Inr snap \<Rightarrow> (None, i\<lparr>in_snap := snap\<rparr>))"

datatype settlement = Acked | Rejected | Nacked bool

definition ingest_policy :: Policy where
  "ingest_policy = \<lparr>MaxAttempts = 10, BaseDelay = 250 * 1000000, MaxDelay = 30 * nanos_per_s\<rparr>"

text \<open>The states of the store after each attempt; \<open>env n\<close> is the world at the n-th attempt.\<close>

primrec write_attempts :: "(import_line \<Rightarrow> goerr + string) \<Rightarrow> (nat \<Rightarrow> vm_env) \<Rightarrow> Writer \<Rightarrow> EnrichedSample list \<Rightarrow> vm_state \<Rightarrow> nat \<Rightarrow> vm_state" where
  "write_attempts enc env w samples s 0 = s"
| "write_attempts enc env w samples s (Suc n) = snd (Write enc (env (Suc n)) w samples (write_attempts enc env w samples s n))"

definition attempt_error :: "(import_line \<Rightarrow> goerr + string) \<Rightarrow> (nat \<Rightarrow> vm_env) \<Rightarrow> Writer \<Rightarrow> EnrichedSample list \<Rightarrow> vm_state \<Rightarrow> nat \<Rightarrow> goerr option" where
  "attempt_error enc env w samples s n = fst (Write enc (env n) w samples (write_attempts enc env w samples s (n - 1)))"

definition handle_batch :: "(import_line \<Rightarrow> goerr + string) \<Rightarrow> (nat \<Rightarrow> vm_env) \<Rightarrow> (nat \<Rightarrow> bool) \<Rightarrow> Writer \<Rightarrow> goerr + MetricBatch \<Rightarrow> Ingester \<Rightarrow>
    (settlement \<times> nat \<times> Ingester) option" where
  "handle_batch enc env cancelled w body i = (case body of Inl e \<Rightarrow> Some (Rejected, 0, i)
     | Inr batch \<Rightarrow>
         let enriched = map (enrich (in_snap i)) (mb_Samples batch) in
         map_option (\<lambda>(err, n, waits). (case err of Some e \<Rightarrow> Nacked (KindOf (Some e) = KindTransient) | None \<Rightarrow> Acked, n,
             i\<lparr>in_vm := write_attempts enc env w enriched (in_vm i) n\<rparr>))
           (retry_Do 10 ingest_policy (attempt_error enc env w enriched (in_vm i)) cancelled))"


subsection \<open>Settlement\<close>

lemma retry_ten:
  assumes "MaxAttempts p = 10"
  shows "\<exists>n ws. retry_Do 10 p fn cancelled = Some (retry_result p fn cancelled n, n, ws) \<and> 1 \<le> n \<and> n \<le> 10 \<and> retry_ends p fn cancelled n \<and>
    (\<forall>k. 1 \<le> k \<and> k < n \<longrightarrow> \<not> retry_ends p fn cancelled k)"
proof -
  define n where "n = (LEAST n. 1 \<le> n \<and> retry_ends p fn cancelled n)"
  have ten: "1 \<le> (10 :: nat) \<and> retry_ends p fn cancelled 10" using assms by (simp add: retry_ends_def)
  then have n: "1 \<le> n \<and> retry_ends p fn cancelled n" unfolding n_def by (rule LeastI)
  have n10: "n \<le> 10" unfolding n_def using ten by (rule Least_le)
  have first: "\<forall>k. 1 \<le> k \<and> k < n \<longrightarrow> \<not> retry_ends p fn cancelled k" unfolding n_def using not_less_Least by blast
  have "n - 1 < 10" using n n10 by simp
  with n first retry_loop_stops [of p fn cancelled n 1 10 "BaseDelay p" "[]"]
  obtain ws where "retry_Do 10 p fn cancelled = Some (retry_result p fn cancelled n, n, ws)" unfolding retry_Do_def by blast
  with n n10 first show ?thesis by blast
qed

lemma handle_batch_returns:
  assumes "handle_batch enc env cancelled w (Inr batch) i = r"
  obtains n err where "r = Some (case err of Some e \<Rightarrow> Nacked (KindOf (Some e) = KindTransient) | None \<Rightarrow> Acked, n,
      i\<lparr>in_vm := write_attempts enc env w (map (enrich (in_snap i)) (mb_Samples batch)) (in_vm i) n\<rparr>)"
    and "1 \<le> n" and "n \<le> 10" and "err = retry_result ingest_policy (attempt_error enc env w (map (enrich (in_snap i)) (mb_Samples batch)) (in_vm i)) cancelled n"
    and "retry_ends ingest_policy (attempt_error enc env w (map (enrich (in_snap i)) (mb_Samples batch)) (in_vm i)) cancelled n"
proof -
  let ?fn = "attempt_error enc env w (map (enrich (in_snap i)) (mb_Samples batch)) (in_vm i)"
  have "MaxAttempts ingest_policy = 10" by (simp add: ingest_policy_def)
  from retry_ten [OF this, of ?fn cancelled] obtain n ws where
    "retry_Do 10 ingest_policy ?fn cancelled = Some (retry_result ingest_policy ?fn cancelled n, n, ws)" "1 \<le> n" "n \<le> 10" "retry_ends ingest_policy ?fn cancelled n" by blast
  with assms that show thesis by (auto simp: handle_batch_def Let_def)
qed

lemma Write_accepts:
  assumes "Write enc env w samples s = (None, s')" and "samples \<noteq> []"
  shows "\<exists>body base. import_body enc samples = Inr body \<and> (base, body) \<in> set (vm_stored s') \<and> base = (case wr_Target w of None \<Rightarrow> wr_BaseURL w | Some t \<Rightarrow> fst t)"
proof -
  have keeps: "set (vm_stored s1) \<subseteq> set (vm_stored (fold (mirror env body) ms s1))" for body ms s1
  proof (induction ms arbitrary: s1)
    case (Cons m ms)
    have "set (vm_stored s1) \<subseteq> set (vm_stored (mirror env body m s1))"
      by (auto simp: mirror_def post_def warn_def Let_def split: http_result.splits prod.splits option.splits)
    then show ?case using Cons [of "mirror env body m s1"] by auto
  qed simp
  from assms obtain body where b: "import_body enc samples = Inr body" by (auto simp: Write_def split: sum.splits)
  with assms keeps show ?thesis
    by (auto simp: Write_def Import_def post_def split: option.splits http_result.splits if_splits prod.splits)
      (metis (no_types, lifting) Un_iff in_mono insertI1 list.set(2) set_append vm_state.select_convs(1) vm_state.surjective vm_state.update_convs(1))
qed


lemma attempts_suc: "1 \<le> n \<Longrightarrow> Write enc (env n) w samples (write_attempts enc env w samples s (n - 1)) =
    (attempt_error enc env w samples s n, write_attempts enc env w samples s n)"
  by (cases n) (simp_all add: attempt_error_def)

lemma KindOf_simps: "KindOf (Some ctx_err) = KindUnknown" "KindOf (Some (ErrLeaf m)) = KindUnknown"
  by (simp_all add: KindOf_def ctx_err_def kind_loop_innermost)

text \<open>Errors of the HTTP client are none of the platform's classified errors.\<close>

definition plain_http :: "(nat \<Rightarrow> vm_env) \<Rightarrow> bool" where
  "plain_http env \<longleftrightarrow> (\<forall>n url body e. ve_post (env n) url body = NoAnswer e \<or> ve_post (env n) url body = BadRequest e \<longrightarrow> errors_as e = None)"

lemma KindOf_plain:
  assumes "errors_as e = None"
  shows "KindOf (Some e) = KindUnknown" and "KindOf (Some (KindError k (ErrMsg m e))) = k"
  using innermost_as [OF assms] by (simp_all add: KindOf_def kind_loop_innermost)

text \<open>
  What makes a writer give a batch up: one that cannot be encoded or asked for, and what the store refuses as invalid; the mirroring writer also gives up
  when there is no answer, or one of any status from 300 on.
\<close>

definition hopeless :: "(import_line \<Rightarrow> goerr + string) \<Rightarrow> vm_env \<Rightarrow> bool \<Rightarrow> string \<Rightarrow> EnrichedSample list \<Rightarrow> bool" where
  "hopeless enc env mirroring url samples \<longleftrightarrow> (case import_body enc samples of Inl e \<Rightarrow> True
     | Inr body \<Rightarrow> (case ve_post env url body of BadRequest e \<Rightarrow> True | NoAnswer e \<Rightarrow> mirroring
         | Answer code t \<Rightarrow> if mirroring then 300 \<le> code else 400 \<le> code \<and> code < 500))"

lemma direct_error:
  assumes "plain_http env" and "Write enc (env n) (NewWriter url) samples s = (Some e, s')" and "KindOf (Some e) \<noteq> KindTransient"
  shows "hopeless enc (env n) False url samples"
proof -
  have "KindOf (Some (KindError KindTransient (ErrMsg m x))) = KindTransient" if "ve_post (env n) url body = NoAnswer x" for m x body
    using assms(1) that by (auto simp: plain_http_def intro: KindOf_plain(2))
  with assms(2,3) show ?thesis
    by (auto simp: Write_def NewWriter_def hopeless_def KindOf_simps split: sum.splits http_result.splits if_splits)
qed

lemma mirrored_error:
  assumes "Write enc env (NewMirroredDynamic url mirrors) samples s = (Some e, s')"
  shows "hopeless enc env True url samples"
  using assms by (auto simp: Write_def NewMirroredDynamic_def Import_def post_def hopeless_def split: if_splits sum.splits http_result.splits)

lemma writer_error:
  assumes "plain_http env" "w = (if mirroring then NewMirroredDynamic url mirrors else NewWriter url)"
    and "Write enc (env n) w samples s = (Some e, s')" "KindOf (Some e) \<noteq> KindTransient"
  shows "hopeless enc (env n) mirroring url samples"
  using assms direct_error mirrored_error by (cases mirroring) auto

lemma writer_base:
  "w = (if mirroring then NewMirroredDynamic url mirrors else NewWriter url) \<Longrightarrow> (case wr_Target w of None \<Rightarrow> wr_BaseURL w | Some t \<Rightarrow> fst t) = url"
  by (simp add: NewMirroredDynamic_def NewWriter_def)

text \<open>
  C15. Both writers, the mirroring one of the service and the direct one: every batch that can be read is settled, after at most ten attempts, and
  acknowledged only when the store has accepted its samples with the labels of their devices. It is given up only if the context is cancelled while
  waiting, the batch cannot be encoded or asked for, or the store refuses it as invalid; by the mirroring writer also if the store does not answer or
  answers with any status from 300 on. Otherwise it goes back to the queue.
\<close>

theorem ingest_settles:
  assumes "plain_http env" and "w = (if mirroring then NewMirroredDynamic url mirrors else NewWriter url)"
  shows "\<exists>verdict n i'. handle_batch enc env cancelled w (Inr batch) i = Some (verdict, n, i') \<and> 1 \<le> n \<and> n \<le> 10 \<and>
    (case verdict of
       Acked \<Rightarrow> mb_Samples batch = [] \<or> (\<exists>body. import_body enc (map (enrich (in_snap i)) (mb_Samples batch)) = Inr body \<and> (url, body) \<in> set (vm_stored (in_vm i')))
     | Nacked requeue \<Rightarrow> requeue \<or> cancelled n \<or> hopeless enc (env n) mirroring url (map (enrich (in_snap i)) (mb_Samples batch))
     | Rejected \<Rightarrow> False)"
proof -
  let ?xs = "map (enrich (in_snap i)) (mb_Samples batch)"
  let ?fn = "attempt_error enc env w ?xs (in_vm i)" and ?st = "write_attempts enc env w ?xs (in_vm i)"
  obtain n err where n: "handle_batch enc env cancelled w (Inr batch) i =
      Some (case err of Some e \<Rightarrow> Nacked (KindOf (Some e) = KindTransient) | None \<Rightarrow> Acked, n, i\<lparr>in_vm := ?st n\<rparr>)" "1 \<le> n" "n \<le> 10"
    "err = retry_result ingest_policy ?fn cancelled n" "retry_ends ingest_policy ?fn cancelled n" by (rule handle_batch_returns [OF refl]) blast
  note w = attempts_suc [OF n(2), of enc env w ?xs "in_vm i"]
  show ?thesis
  proof (cases err)
    case None
    with n(4) have "?fn n = None" by (auto simp: retry_result_def split: if_splits)
    with w Write_accepts [of enc "env n" w ?xs "?st (n - 1)" "?st n"] n None show ?thesis unfolding writer_base [OF assms(2)] by fastforce
  next
    case (Some e)
    have "KindOf (Some e) = KindTransient \<or> cancelled n \<or> hopeless enc (env n) mirroring url ?xs"
    proof (cases "?fn n = Some e")
      case True
      with writer_error [OF assms, of enc n ?xs "?st (n - 1)" e] w show ?thesis by auto
    next
      case False
      with Some n(4,5) show ?thesis by (auto simp: retry_result_def retry_ends_def split: if_splits)
    qed
    with n(1-3) Some show ?thesis by simp
  qed
qed

text \<open>
  C16. The writer the service uses gives every batch up that it cannot deliver at once: when the store cannot
  be reached, or answers with any status from 300 on, the batch is neither retried nor returned to the queue,
  and nothing of it is stored. The errors of the mirroring writer carry no classification, so the retry loop
  takes them for permanent.
\<close>

theorem mirrored_ingest_drops:
  assumes "plain_http env" and "mb_Samples batch \<noteq> []" and "import_body enc (map (enrich (in_snap i)) (mb_Samples batch)) = Inr body"
    and "case ve_post (env 1) url body of Answer code t \<Rightarrow> 300 \<le> code | _ \<Rightarrow> True"
  shows "handle_batch enc env cancelled (NewMirroredDynamic url mirrors) (Inr batch) i = Some (Nacked False, 1, i)"
proof -
  let ?xs = "map (enrich (in_snap i)) (mb_Samples batch)"
  have "\<exists>e. post (env 1) url body (in_vm i) = (Some e, in_vm i) \<and> KindOf (Some e) = KindUnknown"
    using assms(1,4) KindOf_plain(1) by (fastforce simp: post_def plain_http_def KindOf_simps split: http_result.splits)
  then obtain e where e: "post (env 1) url body (in_vm i) = (Some e, in_vm i)" "KindOf (Some e) = KindUnknown" by blast
  have "Write enc (env 1) (NewMirroredDynamic url mirrors) ?xs (in_vm i) = (Some e, in_vm i)"
    using assms(2,3) e(1) by (simp add: Write_def NewMirroredDynamic_def Import_def)
  then have "attempt_error enc env (NewMirroredDynamic url mirrors) ?xs (in_vm i) 1 = Some e" "write_attempts enc env (NewMirroredDynamic url mirrors) ?xs (in_vm i) 1 = in_vm i"
    by (simp_all add: attempt_error_def)
  with e(2) show ?thesis by (simp add: handle_batch_def retry_Do_def Retryable_def numeral_eq_Suc Let_def)
qed


subsection \<open>Mirrors and series\<close>

lemma post_counters: "post env url body s = (e, s') \<Longrightarrow> vm_mirrored s' = vm_mirrored s \<and> vm_failed s' = vm_failed s"
  by (auto simp: post_def split: http_result.splits if_splits)

definition count_of :: "(string, nat) gomap \<Rightarrow> string \<Rightarrow> nat" where
  "count_of m url = (case map_of m url of None \<Rightarrow> 0 | Some n \<Rightarrow> n)"

lemma count_bump: "count_of (bump k m) url = count_of m url + (if url = k then 1 else 0)"
  by (simp add: count_of_def bump_def update_conv)

lemma mirror_counts: "count_of (vm_mirrored (mirror env body m s)) url + count_of (vm_failed (mirror env body m s)) url =
    count_of (vm_mirrored s) url + count_of (vm_failed s) url + (if url = m then 1 else 0)"
proof -
  obtain e s1 where p: "post env m body s = (e, s1)" by fastforce
  have w: "vm_mirrored (warn env m s2) = vm_mirrored s2 \<and> vm_failed (warn env m s2) = vm_failed s2" for s2 by (simp add: warn_def Let_def)
  show ?thesis using p post_counters [OF p] by (cases e) (simp_all add: mirror_def w count_bump)
qed

text \<open>
  Mirrors are invisible to collection: the outcome of an import is the primary's alone, whatever the
  mirrors answer, and after the primary has accepted a body every mirror is tried as often as it is listed,
  each try being counted as mirrored or as failed.
\<close>

theorem mirrors_invisible:
  "fst (Import env primary mirrors body s) = fst (post env primary body s) \<and>
   (fst (post env primary body s) = None \<longrightarrow>
      count_of (vm_mirrored (snd (Import env primary mirrors body s))) url + count_of (vm_failed (snd (Import env primary mirrors body s))) url =
      count_of (vm_mirrored s) url + count_of (vm_failed s) url + count_list mirrors url)"
proof -
  obtain e s1 where p: "post env primary body s = (e, s1)" by fastforce
  have "count_of (vm_mirrored (fold (mirror env body) mirrors s1)) url + count_of (vm_failed (fold (mirror env body) mirrors s1)) url =
      count_of (vm_mirrored s1) url + count_of (vm_failed s1) url + count_list mirrors url" for s1
    by (induction mirrors arbitrary: s1) (simp_all add: mirror_counts)
  with p post_counters [OF p] show ?thesis by (cases e) (simp_all add: Import_def)
qed

text \<open>A series says which device it is about, unless the sample itself names another.\<close>

lemma enrich_device:
  assumes "''device_id'' \<notin> fst ` set (sm_Labels s)"
  shows "map_of (en_Labels (enrich snap s)) ''device_id'' = Some (sm_DeviceID s)"
proof -
  have "map_of (foldl (\<lambda>m kv. AList.update (fst kv) (sanitizeLabel (snd kv)) m) m kvs) k = map_of m k" if "k \<notin> fst ` set kvs" for m k and kvs :: "(string \<times> string) list"
    using that by (induction kvs arbitrary: m) (auto simp: update_conv)
  with assms show ?thesis by (auto simp: enrich_def Let_def update_conv split: option.split)
qed

subsection \<open>A concrete store\<close>

definition demo_vm :: vm_state where
  "demo_vm = \<lparr>vm_stored = [], vm_mirrored = [], vm_failed = [], vm_warned = [], vm_log = []\<rparr>"

definition demo_ingester :: Ingester where
  "demo_ingester = \<lparr>in_snap = [(''d'', \<lparr>dl_Device = ''r1'', dl_Site = ''hq'', dl_Vendor = []\<rparr>)], in_vm = demo_vm\<rparr>"

definition demo_down :: "nat \<Rightarrow> vm_env" where
  "demo_down n = \<lparr>ve_post = \<lambda>url body. NoAnswer (ErrLeaf ''connection refused''), ve_clock = \<lambda>url. 0, ve_status_text = \<lambda>c. []\<rparr>"

definition demo_batch :: MetricBatch where
  "demo_batch = \<lparr>mb_PollerID = ''p'', mb_SiteID = ''s'', mb_Samples = [\<lparr>sm_DeviceID = ''d'', sm_Name = ''m'', sm_Labels = [], sm_TSMillis = 0, sm_Value = 0\<rparr>]\<rparr>"

lemma demo_plain: "plain_http demo_down"
  by (simp add: plain_http_def demo_down_def)

text \<open>The direct writer hands a batch back when nothing answers; the mirroring one has it acknowledged by a store that takes it.\<close>

definition demo_up :: "nat \<Rightarrow> vm_env" where
  "demo_up n = \<lparr>ve_post = \<lambda>url body. Answer 204 [], ve_clock = \<lambda>url. 0, ve_status_text = \<lambda>c. []\<rparr>"

theorem ingest_settles_witness:
  "(\<exists>n i'. handle_batch (\<lambda>l. Inr ''{}'') demo_down (\<lambda>n. False) (NewWriter ''u'') (Inr demo_batch) demo_ingester = Some (Nacked True, n, i')) \<and>
   (\<exists>n i'. handle_batch (\<lambda>l. Inr ''{}'') demo_up (\<lambda>n. False) (NewMirroredDynamic ''u'' [''m'']) (Inr demo_batch) demo_ingester = Some (Acked, n, i') \<and>
      (''u'', ''{}'') \<in> set (vm_stored (in_vm i')))"
proof
  have body: "import_body (\<lambda>l. Inr ''{}'') (map (enrich (in_snap demo_ingester)) (mb_Samples demo_batch)) = Inr ''{}''" by (simp add: demo_batch_def)
  have "vm_stored (write_attempts (\<lambda>l. Inr ''{}'') demo_down (NewWriter ''u'') xs demo_vm k) = []" for xs k
    by (induction k) (auto simp: demo_vm_def Write_def NewWriter_def demo_down_def split: sum.splits)
  then have none: "vm_stored (in_vm i') = []" if "handle_batch (\<lambda>l. Inr ''{}'') demo_down (\<lambda>n. False) (NewWriter ''u'') (Inr demo_batch) demo_ingester = Some (verdict, n, i')" for verdict n i'
    using that by (auto simp: handle_batch_def Let_def demo_ingester_def)
  from ingest_settles [OF demo_plain, of "NewWriter ''u''" False "''u''" "[]" "\<lambda>l. Inr ''{}''" "\<lambda>n. False" demo_batch demo_ingester]
  obtain verdict n i' where h: "handle_batch (\<lambda>l. Inr ''{}'') demo_down (\<lambda>n. False) (NewWriter ''u'') (Inr demo_batch) demo_ingester = Some (verdict, n, i')"
      "case verdict of Acked \<Rightarrow> mb_Samples demo_batch = [] \<or> (\<exists>body. import_body (\<lambda>l. Inr ''{}'') (map (enrich (in_snap demo_ingester)) (mb_Samples demo_batch)) = Inr body \<and> (''u'', body) \<in> set (vm_stored (in_vm i')))
        | Nacked requeue \<Rightarrow> requeue \<or> False \<or> hopeless (\<lambda>l. Inr ''{}'') (demo_down n) False ''u'' (map (enrich (in_snap demo_ingester)) (mb_Samples demo_batch))
        | Rejected \<Rightarrow> False" by auto
  then have "verdict = Nacked True" using none [OF h(1)] body by (cases verdict) (auto simp: hopeless_def demo_batch_def demo_down_def)
  with h(1) show "\<exists>n i'. handle_batch (\<lambda>l. Inr ''{}'') demo_down (\<lambda>n. False) (NewWriter ''u'') (Inr demo_batch) demo_ingester = Some (Nacked True, n, i')" by blast
  have "plain_http demo_up" by (simp add: plain_http_def demo_up_def)
  from body ingest_settles [OF this, of "NewMirroredDynamic ''u'' [''m'']" True "''u''" "[''m'']" "\<lambda>l. Inr ''{}''" "\<lambda>n. False" demo_batch demo_ingester]
  show "\<exists>n i'. handle_batch (\<lambda>l. Inr ''{}'') demo_up (\<lambda>n. False) (NewMirroredDynamic ''u'' [''m'']) (Inr demo_batch) demo_ingester = Some (Acked, n, i') \<and>
      (''u'', ''{}'') \<in> set (vm_stored (in_vm i'))"
    by (auto simp: handle_batch_def Let_def hopeless_def demo_batch_def demo_up_def retry_Do_def attempt_error_def Write_def Import_def post_def NewMirroredDynamic_def
        numeral_eq_Suc split: settlement.splits)
qed

theorem mirrored_ingest_drops_witness:
  "handle_batch (\<lambda>l. Inr ''{}'') demo_down (\<lambda>n. False) (NewMirroredDynamic ''u'' [''m'']) (Inr demo_batch) demo_ingester = Some (Nacked False, 1, demo_ingester)"
  by (rule mirrored_ingest_drops [OF demo_plain, of _ _ _ "''{}''"]) (simp_all add: demo_batch_def demo_down_def)


theorem mirrors_invisible_witness:
  "count_of (vm_failed (snd (Import \<lparr>ve_post = \<lambda>url body. if url = ''u'' then Answer 204 [] else NoAnswer (ErrLeaf ''down''), ve_clock = \<lambda>url. 0, ve_status_text = \<lambda>c. []\<rparr>
     ''u'' [''m''] ''{}'' demo_vm))) ''m'' = 1"
  using mirrors_invisible [of "\<lparr>ve_post = \<lambda>url body. if url = ''u'' then Answer 204 [] else NoAnswer (ErrLeaf ''down''), ve_clock = \<lambda>url. 0, ve_status_text = \<lambda>c. []\<rparr>"
     "''u''" "[''m'']" "''{}''" demo_vm "''m''"]
  by (simp add: post_def Import_def mirror_def warn_def Let_def count_bump) (simp add: demo_vm_def count_of_def)

end
