(* ===== verification/Go_Float.thy ===== *)
theory Go_Float
  imports NetInv_Prelude Complex_Main "HOL-Library.Log_Nat"
begin

text \<open>
  Arithmetic on \<open>float64\<close>, for the code whose decisions depend on its rounding. A finite \<open>float64\<close> is the real number it denotes, and every
  operation of the source is the exact one followed by \<open>fl64\<close>: IEEE 754 rounding to 53 significant bits, ties to even, with the
  subnormal numbers below \<open>2 ^ -1022\<close>. The exponent is not bounded above: a result that is infinite in Go is here a number beyond every
  finite \<open>float64\<close>, which compares the same way. No two operations are fused.

  Shown: the exponent is the one of the leading bit, and the relative error of one rounding is at most \<open>2 ^ -53\<close> (plus half of the smallest
  positive number near zero).
\<close>

definition f64_exp :: "real \<Rightarrow> int" where
  "f64_exp x = (if 1 \<le> \<bar>x\<bar> then int (floorlog 2 (nat \<lfloor>\<bar>x\<bar>\<rfloor>)) - 1 else - int (ceillog2 (nat \<lceil>1 / \<bar>x\<bar>\<rceil>)))"

text \<open>The distance of neighbouring numbers around \<open>x\<close>.\<close>

definition f64_unit :: "real \<Rightarrow> real" where
  "f64_unit x = 2 powi max (f64_exp x - 52) (- 1074)"

definition round_even :: "real \<Rightarrow> int" where
  "round_even y = (let f = \<lfloor>y\<rfloor>; d = y - of_int f in if d < 1 / 2 \<or> d = 1 / 2 \<and> even f then f else f + 1)"

definition fl64 :: "real \<Rightarrow> real" where
  "fl64 x = (if x = 0 then 0 else of_int (round_even (x / f64_unit x)) * f64_unit x)"

text \<open>\<open>Duration.Seconds\<close>: whole seconds and the rest, each exact in a \<open>float64\<close>, divided and added; division truncates.\<close>

definition dur_seconds :: "int \<Rightarrow> real" where
  "dur_seconds d = fl64 (of_int (sgn d * (\<bar>d\<bar> div nanos_per_s)) + fl64 (of_int (sgn d * (\<bar>d\<bar> mod nanos_per_s)) / 10 ^ 9))"

text \<open>\<open>int64\<close> of a \<open>float64\<close>: truncation, and on amd64 the least number when the value does not fit; and addition of \<open>int64\<close>.\<close>

definition f64_int64 :: "real \<Rightarrow> int" where
  "f64_int64 x = (if - (2 ^ 63) \<le> x \<and> x < 2 ^ 63 then (if x < 0 then \<lceil>x\<rceil> else \<lfloor>x\<rfloor>) else - (2 ^ 63))"

definition wrap_int64 :: "int \<Rightarrow> int" where
  "wrap_int64 x = (x + 2 ^ 63) mod 2 ^ 64 - 2 ^ 63"

subsection \<open>The exponent\<close>

lemma f64_exp_large:
  assumes "1 \<le> \<bar>x\<bar>"
  shows "2 powi f64_exp x \<le> \<bar>x\<bar> \<and> \<bar>x\<bar> < 2 powi (f64_exp x + 1)"
proof -
  define n where "n = nat \<lfloor>\<bar>x\<bar>\<rfloor>"
  have "1 \<le> \<lfloor>\<bar>x\<bar>\<rfloor>" using assms by simp
  then have n: "0 < n" "real n \<le> \<bar>x\<bar>" "\<bar>x\<bar> < real n + 1" unfolding n_def by (simp_all add: of_nat_nat)
  define k where "k = floorlog 2 n"
  have k: "2 ^ (k - 1) \<le> n" "n < 2 ^ k" "0 < k" using floorlog_bounds [of n 2] n(1) by (simp_all add: k_def floorlog_def)
  have "2 powi (int k - 1) = (2::real) ^ (k - 1)" using k(3) by (simp add: power_int_def nat_diff_distrib)
  moreover have "(2::real) ^ (k - 1) \<le> real n" using k(1) by (metis of_nat_le_iff of_nat_numeral of_nat_power)
  moreover have "real n + 1 \<le> 2 ^ k" using k(2) by (metis Suc_leI of_nat_Suc of_nat_le_iff of_nat_numeral of_nat_power add.commute)
  ultimately have "2 powi (int k - 1) \<le> \<bar>x\<bar>" "\<bar>x\<bar> < 2 ^ k" using n by linarith+
  then show ?thesis using assms by (simp add: f64_exp_def n_def [symmetric] k_def [symmetric])
qed

lemma f64_exp_small:
  assumes "x \<noteq> 0" "\<bar>x\<bar> < 1"
  shows "2 powi f64_exp x \<le> \<bar>x\<bar> \<and> \<bar>x\<bar> < 2 powi (f64_exp x + 1)"
proof -
  define m where "m = nat \<lceil>1 / \<bar>x\<bar>\<rceil>"
  have inv: "1 < 1 / \<bar>x\<bar>" using assms by simp
  then have "1 < \<lceil>1 / \<bar>x\<bar>\<rceil>" by (simp add: less_ceiling_iff)
  then have m: "1 < m" "real m = of_int \<lceil>1 / \<bar>x\<bar>\<rceil>" by (simp_all add: m_def)
  define c where "c = ceillog2 m"
  have c: "0 < c" "m \<le> 2 ^ c" "\<not> m \<le> 2 ^ (c - 1)"
    using ceillog2_le_iff [of m c] ceillog2_le_iff [of m "c - 1"] ceillog2_le_iff [of m 0] m(1) by (auto simp: c_def)
  have "1 / \<bar>x\<bar> \<le> real m" using m(2) by simp
  also have "\<dots> \<le> 2 ^ c" using c(2) by (metis of_nat_le_iff of_nat_numeral of_nat_power)
  finally have lo: "1 / 2 ^ c \<le> \<bar>x\<bar>" using assms by (simp add: field_simps)
  have "int (2 ^ (c - 1)) < \<lceil>1 / \<bar>x\<bar>\<rceil>" using c(3) m(2) by (simp add: m_def)
  then have "2 ^ (c - 1) < 1 / \<bar>x\<bar>" by (simp add: less_ceiling_iff)
  then have hi: "\<bar>x\<bar> < 1 / 2 ^ (c - 1)" using assms by (simp add: field_simps)
  have "2 powi (- int c) = 1 / (2::real) ^ c" "2 powi (1 - int c) = 1 / (2::real) ^ (c - 1)"
    using c(1) by (auto simp: power_int_def field_simps nat_diff_distrib)
  with lo hi assms show ?thesis by (simp add: f64_exp_def m_def [symmetric] c_def [symmetric])
qed

theorem f64_exp_bounds: "x \<noteq> 0 \<Longrightarrow> 2 powi f64_exp x \<le> \<bar>x\<bar> \<and> \<bar>x\<bar> < 2 powi (f64_exp x + 1)"
  using f64_exp_large f64_exp_small by (cases "1 \<le> \<bar>x\<bar>") auto

subsection \<open>One rounding\<close>

lemma round_even_near: "\<bar>of_int (round_even y) - y\<bar> \<le> 1 / 2"
proof -
  have "of_int \<lfloor>y\<rfloor> \<le> y" "y < of_int \<lfloor>y\<rfloor> + 1" by linarith+
  then show ?thesis by (auto simp: round_even_def Let_def)
qed

lemma round_even_nonneg: "0 \<le> y \<Longrightarrow> 0 \<le> round_even y"
  by (simp add: round_even_def Let_def)

lemma f64_unit_pos: "0 < f64_unit x"
  by (simp add: f64_unit_def)

lemma fl64_zero [simp]: "fl64 0 = 0"
  by (simp add: fl64_def)

lemma fl64_nonneg: "0 \<le> x \<Longrightarrow> 0 \<le> fl64 x"
  by (simp add: fl64_def round_even_nonneg f64_unit_pos less_imp_le)

lemma fl64_near_unit: "\<bar>fl64 x - x\<bar> \<le> f64_unit x / 2"
proof (cases "x = 0")
  case False
  define u where "u = f64_unit x"
  have u: "0 < u" by (simp add: u_def f64_unit_pos)
  have "\<bar>fl64 x - x\<bar> = \<bar>of_int (round_even (x / u)) - x / u\<bar> * u"
    using False u by (simp add: fl64_def u_def [symmetric] abs_mult_pos left_diff_distrib)
  also have "\<dots> \<le> 1 / 2 * u" using round_even_near u by (intro mult_right_mono) simp_all
  finally show ?thesis by (simp add: u_def)
qed (simp add: f64_unit_pos less_imp_le)

abbreviation f64_eps :: real where "f64_eps \<equiv> 1 / 2 ^ 53"

abbreviation f64_tiny :: real where "f64_tiny \<equiv> 1 / 2 ^ 1075"

lemma f64_exp_unit: "x \<noteq> 0 \<Longrightarrow> 2 powi (f64_exp x - 52) / 2 \<le> f64_eps * \<bar>x\<bar>"
proof -
  assume "x \<noteq> 0"
  then have "2 powi f64_exp x \<le> \<bar>x\<bar>" using f64_exp_bounds by blast
  then show ?thesis by (simp add: power_int_diff field_simps)
qed

lemma fl64_error: "\<bar>fl64 x - x\<bar> \<le> f64_eps * \<bar>x\<bar> + f64_tiny"
proof (cases "x = 0")
  case False
  have "2 powi (- 1074) / 2 = f64_tiny" by (simp add: power_int_minus field_simps)
  then have "f64_unit x / 2 \<le> f64_eps * \<bar>x\<bar> + f64_tiny"
    using f64_exp_unit [OF False] by (auto simp: f64_unit_def max_def)
  then show ?thesis using fl64_near_unit [of x] by linarith
qed simp

lemma fl64_error_normal:
  assumes "x = 0 \<or> 1 / 2 ^ 1022 \<le> \<bar>x\<bar>"
  shows "\<bar>fl64 x - x\<bar> \<le> f64_eps * \<bar>x\<bar>"
proof (cases "x = 0")
  case False
  with assms f64_exp_bounds have "1 / 2 ^ 1022 < (2::real) powi (f64_exp x + 1)" by fastforce
  moreover have "1 / 2 ^ 1022 = (2::real) powi (- 1022)" by (simp add: power_int_minus field_simps)
  ultimately have "- 1022 < f64_exp x + 1"
    using power_int_increasing [of "f64_exp x + 1" "- 1022" "2::real"] by (cases "- 1022 < f64_exp x + 1") simp_all
  then have "f64_unit x = 2 powi (f64_exp x - 52)" by (simp add: f64_unit_def)
  then show ?thesis using fl64_near_unit [of x] f64_exp_unit [OF False] by simp
qed simp

text \<open>Integers below \<open>2 ^ 53\<close> are exact.\<close>

lemma round_even_int [simp]: "round_even (of_int n) = n"
  by (simp add: round_even_def)

lemma fl64_int:
  assumes "\<bar>n\<bar> < 2 ^ 53"
  shows "fl64 (of_int n) = of_int n"
proof (cases "n = 0")
  case False
  define e where "e = f64_exp (of_int n)"
  have "1 \<le> \<bar>real_of_int n\<bar>" using False by linarith
  then have e: "2 powi e \<le> \<bar>real_of_int n\<bar>" "- 1 \<le> e" using f64_exp_large [of "of_int n"] by (simp_all add: e_def f64_exp_def)
  have "\<bar>real_of_int n\<bar> < 2 powi 53" using assms by (metis of_int_abs of_int_less_iff of_int_numeral of_int_power power_int_numeral)
  with e have "e < 53" using power_int_increasing [of 53 e "2::real"] by (cases "e < 53") simp_all
  then have unit: "f64_unit (of_int n) = 1 / 2 ^ nat (52 - e)"
    using e(2) by (auto simp: f64_unit_def e_def [symmetric] power_int_def field_simps)
  have "real_of_int n / f64_unit (of_int n) = of_int (n * 2 ^ nat (52 - e))" by (simp add: unit)
  then show ?thesis using False unfolding fl64_def by (simp only: round_even_int) (simp add: unit)
qed simp

lemma fl64_numeral [simp]: "(numeral n :: int) < 2 ^ 53 \<Longrightarrow> fl64 (numeral n) = numeral n" "fl64 1 = 1"
  using fl64_int [of "numeral n"] fl64_int [of 1] by simp_all

lemma relative_error: "\<bar>y - x\<bar> \<le> e * x \<Longrightarrow> y \<le> (1 + e) * x \<and> (1 - e) * x \<le> y" for x :: real
  by (simp add: algebra_simps abs_le_iff)

subsection \<open>Durations\<close>

lemma dur_seconds_zero [simp]: "dur_seconds 0 = 0"
  by (simp add: dur_seconds_def)

text \<open>The seconds of a duration are off by at most three roundings.\<close>

lemma dur_seconds_bounds:
  assumes "0 \<le> d"
  shows "0 \<le> dur_seconds d \<and> dur_seconds d \<le> (1 + 3 * f64_eps) * (of_int d / 10 ^ 9)"
proof -
  define s where "s = real_of_int (d div 10 ^ 9)"
  define r where "r = real_of_int (d mod 10 ^ 9) / 10 ^ 9"
  have sr: "0 \<le> s" "0 \<le> r" "r = 0 \<or> 1 / 10 ^ 9 \<le> r" using assms by (auto simp: s_def r_def pos_imp_zdiv_nonneg_iff)
  have whole: "s = 0 \<or> 1 \<le> s" using assms by (auto simp: s_def pos_imp_zdiv_nonneg_iff)
  have "real_of_int d = real_of_int (10 ^ 9 * (d div 10 ^ 9) + d mod 10 ^ 9)" by simp
  then have sum: "s + r = of_int d / 10 ^ 9" unfolding s_def r_def of_int_add of_int_mult by simp
  have q: "\<bar>fl64 r - r\<bar> \<le> f64_eps * r" using fl64_error_normal [of r] sr by auto
  then have q': "fl64 r \<le> (1 + f64_eps) * r" "(1 - f64_eps) * r \<le> fl64 r" using relative_error by blast+
  have "1 / 2 ^ 1022 \<le> s + fl64 r" if "s + r \<noteq> 0"
  proof -
    have "1 / 10 ^ 9 \<le> s + r" using that whole sr by auto
    moreover have "(1 - f64_eps) * (s + r) \<le> s + fl64 r" using q'(2) sr(1) by (simp add: algebra_simps)
    moreover have "(1::real) / 2 ^ 1022 \<le> (1 - f64_eps) * (1 / 10 ^ 9)" by simp
    moreover have "(1 - f64_eps) * (1 / 10 ^ 9) \<le> (1 - f64_eps) * (s + r)" using calculation(1) by (intro mult_left_mono) simp_all
    ultimately show ?thesis by (meson order_trans)
  qed
  moreover have "s + fl64 r = 0" if "s + r = 0" using that sr by (auto simp: add_nonneg_eq_0_iff)
  ultimately have "s + fl64 r = 0 \<or> 1 / 2 ^ 1022 \<le> \<bar>s + fl64 r\<bar>" by (meson abs_ge_self order_trans)
  then have "\<bar>fl64 (s + fl64 r) - (s + fl64 r)\<bar> \<le> f64_eps * (s + fl64 r)"
    using fl64_error_normal [of "s + fl64 r"] fl64_nonneg [of r] sr by simp
  then have "fl64 (s + fl64 r) \<le> (1 + f64_eps) * (s + fl64 r)" using relative_error by blast
  also have "\<dots> \<le> (1 + f64_eps) * ((1 + f64_eps) * (s + r))" using sr q' by (intro mult_left_mono) (simp_all add: algebra_simps)
  also have "\<dots> \<le> (1 + 3 * f64_eps) * (s + r)" using sr by (simp add: algebra_simps)
  finally have "fl64 (s + fl64 r) \<le> (1 + 3 * f64_eps) * (s + r)" .
  moreover have "dur_seconds d = fl64 (s + fl64 r)"
    using assms by (cases "d = 0") (simp_all add: dur_seconds_def s_def r_def nanos_per_s_def sgn_if)
  ultimately show ?thesis using sum sr fl64_nonneg by simp
qed

end
