(* ===== verification/Trap_Intake.thy ===== *)
theory Trap_Intake
  imports Metric_Ingest Go_Float
begin

unbundle bit_operations_syntax

text \<open>
  SNMP trap intake (\<open>internal/events/trap.go\<close>, \<open>internal/events/listener.go\<close>): a datagram is decoded, checked
  against the allow-list, the communities and a rate limit, resolved to a device, acknowledged and queued; a
  writer stores queued traps and publishes a sample for each known device.

  Parameters: the SNMP decoder and encoder, the table of vendor names, the resolver, the store and the
  publisher. The tokens of the rate limiter are rounded at every operation as \<open>float64\<close> is (\<open>Go_Float\<close>); rate and burst are finite
  numbers. The writer of the queue is stepped through its loop and, once the context is cancelled, through its drain.

  Shown in \<open>Trap_Flow\<close>: what one datagram may write is bounded; every datagram is counted once; every
  accepted trap is handed to the store, in the batch or queued, in order and once; no source gets more than its rate and burst, up to the
  rounding of the tokens; trap names per device are capped, but the interface number the sender chooses is not.
\<close>

subsection \<open>Decoding\<close>

definition MaxVarbinds :: nat where "MaxVarbinds = 64"

definition MaxValueBytes :: nat where "MaxValueBytes = 512"

record Varbind =
  vb_OID :: string
  vb_Type :: string
  vb_Value :: string

text \<open>A variable as the decoder returns it; \<open>PvOther\<close> carries the text \<open>fmt.Sprint\<close> gives.\<close>

datatype pdu_value = PvBytes bytes | PvString string | PvNil | PvOther string

record pdu_var =
  pv_Name :: string
  pv_Type :: string
  pv_Value :: pdu_value

datatype pdu_type = PduTrap | PduV2Trap | PduInform | PduOther

record SnmpPacket =
  pk_Type :: pdu_type
  pk_Enterprise :: string
  pk_Generic :: int
  pk_Specific :: int
  pk_AgentAddress :: string
  pk_Community :: string
  pk_Variables :: "pdu_var list"

record Trap =
  tr_At :: gotime
  tr_Source :: Addr
  tr_Agent :: "zaddr option"
  tr_Version :: string
  tr_Inform :: bool
  tr_TrapOID :: string
  tr_Name :: string
  tr_IfIndex :: string
  tr_Varbinds :: "Varbind list"
  tr_DeviceID :: string
  tr_packet :: SnmpPacket

definition Label :: "Trap \<Rightarrow> string" where
  "Label t = (if tr_Name t \<noteq> [] then tr_Name t else tr_TrapOID t)"

definition TrimPrefix :: "string \<Rightarrow> string \<Rightarrow> string" where
  "TrimPrefix p s = (if take (length p) s = p then drop (length p) s else s)"

text \<open>The version in a message header, \<open>- 1\<close> for anything else; \<open>None\<close> is a read behind the end.\<close>

definition PeekVersion :: "bytes \<Rightarrow> int go" where
  "PeekVersion b =
     (if length b < 2 then Some (- 1)
      else do {
        b0 \<leftarrow> idx b 0;
        if b0 \<noteq> 0x30 then Some (- 1)
        else do {
          b1 \<leftarrow> idx b 1;
          let i = (if b1 AND 0x80 \<noteq> 0 then 2 + unat (b1 AND 0x7f) else 2);
          if length b < i + 3 then Some (- 1)
          else do {
            t \<leftarrow> idx b i;
            if t \<noteq> 0x02 then Some (- 1)
            else do {
              n \<leftarrow> idx b (i + 1);
              if n \<noteq> 0x01 then Some (- 1) else do { v \<leftarrow> idx b (i + 2); Some (uint v) }
            }
          }
        }
      })"

definition v1TrapOID :: "string \<Rightarrow> int \<Rightarrow> int \<Rightarrow> string" where
  "v1TrapOID enterprise generic specific =
     (if 0 \<le> generic \<and> generic < 6 then ''1.3.6.1.6.3.1.1.5.'' @ int_str (generic + 1)
      else TrimPrefix ''.'' enterprise @ ''.0.'' @ int_str specific)"

definition trapNames :: "(string \<times> string) list" where
  "trapNames = [(''1.3.6.1.6.3.1.1.5.1'', ''coldStart''), (''1.3.6.1.6.3.1.1.5.2'', ''warmStart''), (''1.3.6.1.6.3.1.1.5.3'', ''linkDown''),
     (''1.3.6.1.6.3.1.1.5.4'', ''linkUp''), (''1.3.6.1.6.3.1.1.5.5'', ''authenticationFailure''), (''1.3.6.1.6.3.1.1.5.6'', ''egpNeighborLoss''),
     (''1.3.6.1.2.1.15.0.1'', ''bgpEstablishedNotification''), (''1.3.6.1.2.1.15.0.2'', ''bgpBackwardTransNotification''),
     (''1.3.6.1.2.1.15.7.1'', ''bgpEstablished''), (''1.3.6.1.2.1.15.7.2'', ''bgpBackwardTransition''), (''1.3.6.1.2.1.47.2.0.1'', ''entConfigChange'')]"

definition TrapName :: "(string \<Rightarrow> string) \<Rightarrow> string \<Rightarrow> string" where
  "TrapName vendor oid = (case map_of trapNames oid of Some n \<Rightarrow> n | None \<Rightarrow> vendor oid)"

text \<open>\<open>utf8.Valid\<close>.\<close>

definition cont :: "byte \<Rightarrow> bool" where
  "cont c \<longleftrightarrow> 0x80 \<le> c \<and> c \<le> 0xBF"

fun utf8_valid :: "bytes \<Rightarrow> bool" where
  "utf8_valid [] = True"
| "utf8_valid (a # rest) =
     (if a < 0x80 then utf8_valid rest
      else if 0xC2 \<le> a \<and> a \<le> 0xDF then (case rest of b # r \<Rightarrow> cont b \<and> utf8_valid r | _ \<Rightarrow> False)
      else if 0xE0 \<le> a \<and> a \<le> 0xEF then
        (case rest of b # c # r \<Rightarrow> cont b \<and> (a = 0xE0 \<longrightarrow> 0xA0 \<le> b) \<and> (a = 0xED \<longrightarrow> b \<le> 0x9F) \<and> cont c \<and> utf8_valid r | _ \<Rightarrow> False)
      else if 0xF0 \<le> a \<and> a \<le> 0xF4 then
        (case rest of b # c # d # r \<Rightarrow> cont b \<and> (a = 0xF0 \<longrightarrow> 0x90 \<le> b) \<and> (a = 0xF4 \<longrightarrow> b \<le> 0x8F) \<and> cont c \<and> cont d \<and> utf8_valid r | _ \<Rightarrow> False)
      else False)"

text \<open>The code points below 0x20 of a valid text are its bytes below 0x20.\<close>

definition printable :: "bytes \<Rightarrow> bool" where
  "printable b \<longleftrightarrow> list_all (\<lambda>c. \<not> (c < 0x20 \<and> c \<noteq> 0x09 \<and> c \<noteq> 0x0A \<and> c \<noteq> 0x0D)) b"

definition hex_upper :: "nat \<Rightarrow> char" where
  "hex_upper d = char_of (if d < 10 then 48 + d else 55 + d)"

primrec hexString :: "bytes \<Rightarrow> string" where
  "hexString [] = []"
| "hexString (c # cs) = hex_upper (unat c div 16) # hex_upper (unat c mod 16) # (if cs = [] then [] else CHR '' '' # hexString cs)"

definition render :: "string \<Rightarrow> pdu_var \<Rightarrow> Varbind" where
  "render name v =
     (let value = (case pv_Value v of
            PvBytes x \<Rightarrow> if utf8_valid x \<and> printable x then map byte_char x else hexString x
          | PvString x \<Rightarrow> TrimPrefix ''.'' x | PvNil \<Rightarrow> [] | PvOther x \<Rightarrow> x)
      in \<lparr>vb_OID = name, vb_Type = pv_Type v,
          vb_Value = (if MaxValueBytes < length value then take MaxValueBytes value @ [CHR 0xE2, CHR 0x80, CHR 0xA6] else value)\<rparr>)"

definition last_dot_index :: "string \<Rightarrow> int" where
  "last_dot_index s = (case last_index (CHR ''.'') s of None \<Rightarrow> - 1 | Some i \<Rightarrow> int i)"

definition put_variable :: "Trap \<Rightarrow> pdu_var \<Rightarrow> Trap" where
  "put_variable t v =
     (let name = TrimPrefix ''.'' (pv_Name v) in
      if tr_Version t = ''2c'' \<and> name = ''1.3.6.1.6.3.1.1.4.1.0'' then
        (case pv_Value v of PvString s \<Rightarrow> t\<lparr>tr_TrapOID := TrimPrefix ''.'' s\<rparr> | _ \<Rightarrow> t)
      else if tr_Version t = ''2c'' \<and> name = ''1.3.6.1.2.1.1.3.0'' then t
      else
        let t = (if tr_IfIndex t = [] \<and> take 18 name = ''1.3.6.1.2.1.2.2.1.'' \<and> 0 < last_dot_index name
                 then t\<lparr>tr_IfIndex := drop (nat (last_dot_index name) + 1) name\<rparr> else t)
        in if length (tr_Varbinds t) < MaxVarbinds then t\<lparr>tr_Varbinds := tr_Varbinds t @ [render name v]\<rparr> else t)"

datatype decode_error = ErrUnsupportedVersion | ErrNotATrap | ErrMalformed goerr

record snmp_codec =
  sc_unmarshal :: "bytes \<Rightarrow> goerr + SnmpPacket"
  sc_marshal :: "SnmpPacket \<Rightarrow> goerr + bytes"
  sc_vendor :: "string \<Rightarrow> string"

text \<open>The kind of the message: a v1 trap has its name and the agent's address in the header.\<close>

definition start_trap :: "SnmpPacket \<Rightarrow> Addr \<Rightarrow> gotime \<Rightarrow> Trap option" where
  "start_trap p src recv =
     (let t = \<lparr>tr_At = recv, tr_Source = src, tr_Agent = None, tr_Version = [], tr_Inform = False, tr_TrapOID = [], tr_Name = [], tr_IfIndex = [],
            tr_Varbinds = [], tr_DeviceID = [], tr_packet = p\<rparr>
      in case pk_Type p of
           PduTrap \<Rightarrow> Some (t\<lparr>tr_Version := ''1'', tr_TrapOID := v1TrapOID (pk_Enterprise p) (pk_Generic p) (pk_Specific p),
             tr_Agent := (case ParseAddr (pk_AgentAddress p) of Some a \<Rightarrow> if addr_unspecified (fst a) \<and> snd a = [] then None else Some a | None \<Rightarrow> None)\<rparr>)
         | PduV2Trap \<Rightarrow> Some (t\<lparr>tr_Version := ''2c''\<rparr>)
         | PduInform \<Rightarrow> Some (t\<lparr>tr_Version := ''2c'', tr_Inform := True\<rparr>)
         | PduOther \<Rightarrow> None)"

definition Decode :: "snmp_codec \<Rightarrow> bytes \<Rightarrow> Addr \<Rightarrow> gotime \<Rightarrow> (decode_error + Trap \<times> string) go" where
  "Decode codec b src recv = do {
     v \<leftarrow> PeekVersion b;
     Some (if v = 3 then Inl ErrUnsupportedVersion
       else if v \<noteq> 0 \<and> v \<noteq> 1 then Inl (ErrMalformed (ErrLeaf ''not an SNMP message''))
       else case sc_unmarshal codec b of Inl e \<Rightarrow> Inl (ErrMalformed e)
       | Inr p \<Rightarrow> (case start_trap p src recv of None \<Rightarrow> Inl ErrNotATrap
           | Some t0 \<Rightarrow>
               let t = foldl put_variable t0 (pk_Variables p) in
               if tr_TrapOID t = [] then Inl (ErrMalformed (ErrLeaf ''v2c trap without snmpTrapOID.0''))
               else Inr (t\<lparr>tr_Name := TrapName (sc_vendor codec) (tr_TrapOID t)\<rparr>, pk_Community p)))
   }"

definition Ack_trap :: "snmp_codec \<Rightarrow> (SnmpPacket \<Rightarrow> SnmpPacket) \<Rightarrow> Trap \<Rightarrow> bytes option" where
  "Ack_trap codec response t = (if \<not> tr_Inform t then None
     else case sc_marshal codec (response (tr_packet t)) of Inl e \<Rightarrow> None | Inr b \<Rightarrow> Some b)"


subsection \<open>Rate limit and label cap\<close>

record token_bucket =
  bk_tokens :: real
  bk_last :: gotime

text \<open>The bucket of a source, and whether it has a token left; each operation on the tokens is rounded.\<close>

definition limiter_allow :: "real \<Rightarrow> real \<Rightarrow> Addr \<Rightarrow> gotime \<Rightarrow> (Addr, token_bucket) gomap \<Rightarrow> bool \<times> (Addr, token_bucket) gomap" where
  "limiter_allow rate burst a now buckets =
     (let b = (case map_of buckets a of None \<Rightarrow> \<lparr>bk_tokens = burst, bk_last = now\<rparr> | Some b \<Rightarrow> b);
          tokens = fl64 (bk_tokens b + fl64 (dur_seconds (time_sub now (bk_last b)) * rate));
          tokens = (if burst < tokens then burst else tokens)
      in if tokens < 1 then (False, AList.update a \<lparr>bk_tokens = tokens, bk_last = now\<rparr> buckets)
         else (True, AList.update a \<lparr>bk_tokens = fl64 (tokens - 1), bk_last = now\<rparr> buckets))"

definition limiter_sweep :: "real \<Rightarrow> real \<Rightarrow> gotime \<Rightarrow> (Addr, token_bucket) gomap \<Rightarrow> (Addr, token_bucket) gomap" where
  "limiter_sweep rate burst now buckets =
     (let idle = wrap_int64 (f64_int64 (fl64 (fl64 (burst / rate) * 10 ^ 9)) + nanos_per_min) in gm_keep (\<lambda>a b. \<not> idle < time_sub now (bk_last b)) buckets)"

definition labelCap_label :: "nat \<Rightarrow> string \<Rightarrow> string \<Rightarrow> (string, string list) gomap \<Rightarrow> string \<times> (string, string list) gomap" where
  "labelCap_label cap device trap seen =
     (let m = (case map_of seen device of None \<Rightarrow> [] | Some m \<Rightarrow> m);
          seen = (case map_of seen device of None \<Rightarrow> AList.update device [] seen | Some m \<Rightarrow> seen)
      in if trap \<in> set m then (trap, seen)
         else if cap \<le> length m then (''other'', seen)
         else (trap, AList.update device (trap # m) seen))"

subsection \<open>The listener\<close>

record trap_counters =
  ct_received :: nat
  ct_stored :: nat
  ct_refused :: nat
  ct_badCommunity :: nat
  ct_unsupported :: nat
  ct_malformed :: nat
  ct_rateLimited :: nat
  ct_queueFull :: nat
  ct_unknownSource :: nat

record Listener =
  ln_Allow :: "prefix list"
  ln_Communities :: "(string, bool) gomap"
  ln_Rate :: real
  ln_Burst :: real
  ln_MaxLabels :: nat
  ln_queue :: "Trap list"
  ln_buckets :: "(Addr, token_bucket) gomap"
  ln_seen :: "(string, string list) gomap"
  ln_stats :: trap_counters

definition queueCap :: nat where "queueCap = 10000"

text \<open>A new listener, with the defaults for values that are not positive.\<close>

definition trap_defaults :: "prefix list \<Rightarrow> (string, bool) gomap \<Rightarrow> real \<Rightarrow> real \<Rightarrow> int \<Rightarrow> Listener" where
  "trap_defaults allow communities rate burst maxLabels =
     \<lparr>ln_Allow = allow, ln_Communities = communities, ln_Rate = (if rate \<le> 0 then 20 else rate), ln_Burst = (if burst \<le> 0 then 200 else burst),
      ln_MaxLabels = (if maxLabels \<le> 0 then 100 else nat maxLabels), ln_queue = [], ln_buckets = [], ln_seen = [],
      ln_stats = \<lparr>ct_received = 0, ct_stored = 0, ct_refused = 0, ct_badCommunity = 0, ct_unsupported = 0, ct_malformed = 0, ct_rateLimited = 0, ct_queueFull = 0, ct_unknownSource = 0\<rparr>\<rparr>"

definition source_allowed :: "prefix list \<Rightarrow> Addr \<Rightarrow> bool" where
  "source_allowed allow a \<longleftrightarrow> allow = [] \<or> list_ex (\<lambda>p. prefix_contains p a) allow"

record trap_env =
  te_codec :: snmp_codec
  te_response :: "SnmpPacket \<Rightarrow> SnmpPacket"
  te_resolve :: "(zaddr \<Rightarrow> string) option"

definition resolve_trap :: "(zaddr \<Rightarrow> string) option \<Rightarrow> Addr \<Rightarrow> Trap \<Rightarrow> Trap" where
  "resolve_trap resolve src t = (case resolve of None \<Rightarrow> t
     | Some f \<Rightarrow>
         let t = t\<lparr>tr_DeviceID := f (src, [])\<rparr> in
         (case tr_Agent t of Some a \<Rightarrow> if tr_DeviceID t = [] then t\<lparr>tr_DeviceID := f a\<rparr> else t | None \<Rightarrow> t))"

definition trap_Handle :: "trap_env \<Rightarrow> bytes \<Rightarrow> Addr \<Rightarrow> gotime \<Rightarrow> Listener \<Rightarrow> (bytes option \<times> Listener) go" where
  "trap_Handle env b src recv l0 =
     (let l = l0\<lparr>ln_stats := (ln_stats l0)\<lparr>ct_received := ct_received (ln_stats l0) + 1\<rparr>\<rparr>; st = ln_stats l in
      if \<not> source_allowed (ln_Allow l) src then Some (None, l\<lparr>ln_stats := st\<lparr>ct_refused := ct_refused st + 1\<rparr>\<rparr>)
      else do {
        d \<leftarrow> Decode (te_codec env) b src recv;
        Some (case d of
          Inl ErrUnsupportedVersion \<Rightarrow> (None, l\<lparr>ln_stats := st\<lparr>ct_unsupported := ct_unsupported st + 1\<rparr>\<rparr>)
        | Inl _ \<Rightarrow> (None, l\<lparr>ln_stats := st\<lparr>ct_malformed := ct_malformed st + 1\<rparr>\<rparr>)
        | Inr (t, community) \<Rightarrow>
            if ln_Communities l \<noteq> [] \<and> map_of (ln_Communities l) community \<noteq> Some True
            then (None, l\<lparr>ln_stats := st\<lparr>ct_badCommunity := ct_badCommunity st + 1\<rparr>\<rparr>)
            else (case limiter_allow (ln_Rate l) (ln_Burst l) src recv (ln_buckets l) of
                (False, bs) \<Rightarrow> (None, l\<lparr>ln_buckets := bs, ln_stats := st\<lparr>ct_rateLimited := ct_rateLimited st + 1\<rparr>\<rparr>)
              | (True, bs) \<Rightarrow>
                  let t = resolve_trap (te_resolve env) src t;
                      st = (if tr_DeviceID t = [] then st\<lparr>ct_unknownSource := ct_unknownSource st + 1\<rparr> else st);
                      l = l\<lparr>ln_buckets := bs, ln_stats := st\<rparr>
                  in (Ack_trap (te_codec env) (te_response env) t,
                      if length (ln_queue l) < queueCap then l\<lparr>ln_queue := ln_queue l @ [t]\<rparr>
                      else l\<lparr>ln_stats := st\<lparr>ct_queueFull := ct_queueFull st + 1\<rparr>\<rparr>)))
      })"

subsection \<open>The writer\<close>

record write_env =
  wv_Insert :: "(Trap list \<Rightarrow> goerr option) option"
  wv_Publish :: "(Sample list \<Rightarrow> goerr option) option"

text \<open>The samples of a batch; each name may use up a label.\<close>

primrec trap_samples :: "nat \<Rightarrow> Trap list \<Rightarrow> (string, string list) gomap \<Rightarrow> Sample list \<times> (string, string list) gomap" where
  "trap_samples cap [] seen = ([], seen)"
| "trap_samples cap (t # ts) seen =
     (if tr_DeviceID t = [] then trap_samples cap ts seen
      else case labelCap_label cap (tr_DeviceID t) (Label t) seen of (label, seen) \<Rightarrow>
        (case trap_samples cap ts seen of (xs, seen) \<Rightarrow>
           (\<lparr>sm_DeviceID = tr_DeviceID t, sm_Name = ''netinv_snmp_trap'', sm_Labels = (''trap'', label) # (if tr_IfIndex t \<noteq> [] then [(''if_index'', tr_IfIndex t)] else []),
              sm_TSMillis = unix_milli (tr_At t), sm_Value = f64_one\<rparr> # xs, seen)))"

text \<open>What a write stores and publishes.\<close>

definition write_traps :: "write_env \<Rightarrow> Trap list \<Rightarrow> Listener \<Rightarrow> Trap list \<times> Sample list \<times> Listener" where
  "write_traps env batch l =
     (let stored = (case wv_Insert env of Some ins \<Rightarrow> if ins batch = None then batch else [] | None \<Rightarrow> []);
          st = ln_stats l; l = l\<lparr>ln_stats := st\<lparr>ct_stored := ct_stored st + length stored\<rparr>\<rparr>
      in case wv_Publish env of None \<Rightarrow> (stored, [], l)
         | Some pub \<Rightarrow>
             (case trap_samples (ln_MaxLabels l) batch (ln_seen l) of (xs, seen) \<Rightarrow>
                (stored, if xs \<noteq> [] \<and> pub xs = None then xs else [], l\<lparr>ln_seen := seen\<rparr>)))"

text \<open>
  A listener with its writer: where the writer is, the traps accepted so far, the batch it fills, the traps
  handed to the store, and what was stored and published. The writer goes round its loop, drains the queue once it has seen the
  context cancelled, and returns when it finds the queue empty.
\<close>

datatype writer_phase = Looping | Draining | Returned

record intake =
  it_listener :: Listener
  it_writer :: writer_phase
  it_accepted :: "Trap list"
  it_batch :: "Trap list"
  it_written :: "Trap list"
  it_stored :: "Trap list"
  it_samples :: "Sample list"

definition new_intake :: "Listener \<Rightarrow> intake" where
  "new_intake l = \<lparr>it_listener = l, it_writer = Looping, it_accepted = [], it_batch = [], it_written = [], it_stored = [], it_samples = []\<rparr>"

definition flush_traps :: "write_env \<Rightarrow> intake \<Rightarrow> intake" where
  "flush_traps env s =
     (if it_batch s = [] then s
      else case write_traps env (it_batch s) (it_listener s) of (stored, xs, l) \<Rightarrow>
        s\<lparr>it_listener := l, it_batch := [], it_written := it_written s @ it_batch s, it_stored := it_stored s @ stored, it_samples := it_samples s @ xs\<rparr>)"

text \<open>
  A trap taken in the loop is written with its batch at 500. In the drain it is only appended, however long the batch gets, and the
  empty queue is what makes the writer write and return.
\<close>

definition take_queued :: "write_env \<Rightarrow> intake \<Rightarrow> intake" where
  "take_queued env s = (case ln_queue (it_listener s) of [] \<Rightarrow> s
     | t # q \<Rightarrow>
         let s = s\<lparr>it_listener := (it_listener s)\<lparr>ln_queue := q\<rparr>, it_batch := it_batch s @ [t]\<rparr> in
         if 500 \<le> length (it_batch s) then flush_traps env s else s)"

definition drain_queued :: "write_env \<Rightarrow> intake \<Rightarrow> intake" where
  "drain_queued env s = (case ln_queue (it_listener s) of [] \<Rightarrow> (flush_traps env s)\<lparr>it_writer := Returned\<rparr>
     | t # q \<Rightarrow> s\<lparr>it_listener := (it_listener s)\<lparr>ln_queue := q\<rparr>, it_batch := it_batch s @ [t]\<rparr>)"

text \<open>
  What the goroutines of a listener do, in any order: a socket reads a datagram, also when its read was under
  way as the context was cancelled; the writer goes round its loop, or round its drain; the statistics loop sweeps the limiter.
\<close>

datatype intake_op = Datagram trap_env bytes Addr gotime | TakeQueued write_env | FlushTick write_env | Cancelled | DrainQueued write_env | SweepTick gotime

definition serve_datagram :: "trap_env \<Rightarrow> bytes \<Rightarrow> Addr \<Rightarrow> gotime \<Rightarrow> intake \<Rightarrow> (bytes option \<times> intake) go" where
  "serve_datagram env b src recv s = do {
     (ack, l) \<leftarrow> trap_Handle env b src recv (it_listener s);
     Some (ack, s\<lparr>it_listener := l, it_accepted := it_accepted s @ drop (length (ln_queue (it_listener s))) (ln_queue l)\<rparr>)
   }"

definition intake_step :: "intake_op \<Rightarrow> intake \<Rightarrow> intake go" where
  "intake_step op s = (case op of
     Datagram env b src recv \<Rightarrow> map_option snd (serve_datagram env b src recv s)
   | TakeQueued env \<Rightarrow> Some (if it_writer s = Looping then take_queued env s else s)
   | FlushTick env \<Rightarrow> Some (if it_writer s = Looping then flush_traps env s else s)
   | Cancelled \<Rightarrow> Some (if it_writer s = Looping then s\<lparr>it_writer := Draining\<rparr> else s)
   | DrainQueued env \<Rightarrow> Some (if it_writer s = Draining then drain_queued env s else s)
   | SweepTick now \<Rightarrow> Some (s\<lparr>it_listener := (it_listener s)\<lparr>ln_buckets := limiter_sweep (ln_Rate (it_listener s)) (ln_Burst (it_listener s)) now (ln_buckets (it_listener s))\<rparr>\<rparr>))"

primrec intake_run :: "intake_op list \<Rightarrow> intake \<Rightarrow> intake go" where
  "intake_run [] s = Some s"
| "intake_run (op # ops) s = do { s \<leftarrow> intake_step op s; intake_run ops s }"

subsection \<open>The allow-list\<close>

primrec parse_allow_parts :: "string list \<Rightarrow> goerr + prefix list" where
  "parse_allow_parts [] = Inr []"
| "parse_allow_parts (raw # parts) =
     (let part = TrimSpace raw; bad = Inl (ErrLeaf (''allow '' @ part)) in
      if part = [] then parse_allow_parts parts
      else
        let p = (if CHR ''/'' \<notin> set part
                 then (case ParseAddr part of None \<Rightarrow> None | Some (a, zone) \<Rightarrow> Some (prefix_from a (int (addr_bitlen a))))
                 else (case ParsePrefix part of None \<Rightarrow> None | Some p \<Rightarrow> Some (Masked p)))
        in case p of None \<Rightarrow> bad
           | Some p \<Rightarrow> (case parse_allow_parts parts of Inl e \<Rightarrow> Inl e | Inr ps \<Rightarrow> Inr (p # ps)))"

definition ParseAllow :: "string \<Rightarrow> goerr + prefix list" where
  "ParseAllow s = parse_allow_parts (split_on (CHR '','') [] s)"

end
