(* ===== verification/Trap_Flow.thy ===== *)
theory Trap_Flow
  imports Trap_Intake
begin

text \<open>
  What the trap listener of \<open>Trap_Intake\<close> guarantees, whatever arrives and in whatever order its goroutines run:
  it never panics, every datagram is counted once, an accepted trap is bounded and is handed over, batched or queued once and in order, a
  cancelled writer hands over what was accepted, no source gets more than its rate and burst and the rounding of its tokens, and the trap names
  of a device are capped.
\<close>

subsection \<open>Decoding\<close>

lemma PeekVersion_total: "\<exists>v. PeekVersion b = Some v"
proof (cases "length b < 2")
  case False
  then have "idx b 0 = Some (b ! 0)" "idx b 1 = Some (b ! 1)" by (auto simp: idx_def)
  with False show ?thesis by (auto simp: PeekVersion_def Let_def)
qed (simp add: PeekVersion_def)

lemma Decode_total: "\<exists>r. Decode codec b src recv = Some r"
  using PeekVersion_total [of b] by (auto simp: Decode_def)

definition bounded_trap :: "Trap \<Rightarrow> bool" where
  "bounded_trap t \<longleftrightarrow> length (tr_Varbinds t) \<le> MaxVarbinds \<and> list_all (\<lambda>v. length (vb_Value v) \<le> MaxValueBytes + 3) (tr_Varbinds t)"

lemma render_bound: "length (vb_Value (render name v)) \<le> MaxValueBytes + 3"
  by (simp add: render_def Let_def MaxValueBytes_def)

lemma put_variable_bounded: "bounded_trap t \<Longrightarrow> bounded_trap (put_variable t v)"
  using render_bound by (auto simp: put_variable_def bounded_trap_def Let_def split: pdu_value.splits)

lemma put_variable_source [simp]: "tr_Source (put_variable t v) = tr_Source t"
  by (simp add: put_variable_def Let_def split: pdu_value.splits)

lemma put_variables_source [simp]: "tr_Source (foldl put_variable t vs) = tr_Source t"
  by (induction vs arbitrary: t) simp_all

lemma put_variables_bounded: "bounded_trap t \<Longrightarrow> bounded_trap (foldl put_variable t vs)"
  by (induction vs arbitrary: t) (simp_all add: put_variable_bounded)

lemma bounded_trap_cong [simp]:
  "bounded_trap (t\<lparr>tr_Name := n\<rparr>) = bounded_trap t" "bounded_trap (t\<lparr>tr_DeviceID := d\<rparr>) = bounded_trap t"
  "bounded_trap (t\<lparr>tr_Version := d\<rparr>) = bounded_trap t" "bounded_trap (t\<lparr>tr_Inform := i\<rparr>) = bounded_trap t"
  "bounded_trap (t\<lparr>tr_TrapOID := d\<rparr>) = bounded_trap t" "bounded_trap (t\<lparr>tr_Agent := a\<rparr>) = bounded_trap t"
  by (simp_all add: bounded_trap_def)

lemma start_trap_fresh: "start_trap p src recv = Some t \<Longrightarrow> tr_Source t = src \<and> bounded_trap t"
  by (auto simp: start_trap_def Let_def bounded_trap_def split: pdu_type.splits)

lemma Decode_trap: "Decode codec b src recv = Some (Inr (t, community)) \<Longrightarrow> tr_Source t = src \<and> bounded_trap t"
  by (auto simp: Decode_def Let_def bind_eq_Some_conv put_variables_bounded dest!: start_trap_fresh split: if_splits sum.splits option.splits)

lemma resolve_trap_keeps [simp]: "tr_Source (resolve_trap f src t) = tr_Source t" "bounded_trap (resolve_trap f src t) = bounded_trap t"
  "tr_Inform (resolve_trap f src t) = tr_Inform t"
  by (simp_all add: resolve_trap_def Let_def split: option.splits)

subsection \<open>One datagram\<close>

text \<open>The counters that account for a datagram that is not queued.\<close>

definition turned_away :: "trap_counters \<Rightarrow> nat" where
  "turned_away c = ct_refused c + ct_unsupported c + ct_malformed c + ct_badCommunity c + ct_rateLimited c + ct_queueFull c"

text \<open>How a listener moves when it handles a datagram: the datagram is turned away, with or without a token spent, or the trap is queued.\<close>

inductive trap_handled :: "Addr \<Rightarrow> gotime \<Rightarrow> Listener \<Rightarrow> Listener \<Rightarrow> bool" for src recv l where
  away: "\<lbrakk>ct_received st = Suc (ct_received (ln_stats l)); turned_away st = Suc (turned_away (ln_stats l)); ct_stored st = ct_stored (ln_stats l);
     bs = ln_buckets l \<or> bs = snd (limiter_allow (ln_Rate l) (ln_Burst l) src recv (ln_buckets l))\<rbrakk>
   \<Longrightarrow> trap_handled src recv l (l\<lparr>ln_buckets := bs, ln_stats := st\<rparr>)"
| queued: "\<lbrakk>ct_received st = Suc (ct_received (ln_stats l)); turned_away st = turned_away (ln_stats l); ct_stored st = ct_stored (ln_stats l);
     limiter_allow (ln_Rate l) (ln_Burst l) src recv (ln_buckets l) = (True, bs); length (ln_queue l) < queueCap; tr_Source t = src; bounded_trap t\<rbrakk>
   \<Longrightarrow> trap_handled src recv l (l\<lparr>ln_buckets := bs, ln_stats := st, ln_queue := ln_queue l @ [t]\<rparr>)"

lemma handled_awayI:
  assumes "l' = l\<lparr>ln_buckets := bs, ln_stats := st\<rparr>" "ct_received st = Suc (ct_received (ln_stats l))" "turned_away st = Suc (turned_away (ln_stats l))"
    "ct_stored st = ct_stored (ln_stats l)" "bs = ln_buckets l \<or> bs = snd (limiter_allow (ln_Rate l) (ln_Burst l) src recv (ln_buckets l))"
  shows "trap_handled src recv l l'"
  using trap_handled.away assms by blast

lemma handled_queuedI:
  assumes "l' = l\<lparr>ln_buckets := bs, ln_stats := st, ln_queue := ln_queue l @ [t]\<rparr>" "ct_received st = Suc (ct_received (ln_stats l))"
    "turned_away st = turned_away (ln_stats l)" "ct_stored st = ct_stored (ln_stats l)" "limiter_allow (ln_Rate l) (ln_Burst l) src recv (ln_buckets l) = (True, bs)"
    "length (ln_queue l) < queueCap" "tr_Source t = src" "bounded_trap t"
  shows "trap_handled src recv l l'"
  using trap_handled.queued assms by blast

lemma trap_Handle_handled: "\<exists>ack l'. trap_Handle env b src recv l = Some (ack, l') \<and> trap_handled src recv l l'"
proof -
  obtain r where d: "Decode (te_codec env) b src recv = Some r" using Decode_total by blast
  obtain ok bs where lim: "limiter_allow (ln_Rate l) (ln_Burst l) src recv (ln_buckets l) = (ok, bs)" by force
  show ?thesis
  proof (cases "source_allowed (ln_Allow l) src")
    case False
    then show ?thesis by (auto simp: trap_Handle_def Let_def turned_away_def intro!: handled_awayI [where bs = "ln_buckets l"])
  next
    case allowed: True
    show ?thesis
    proof (cases r)
      case (Inl e)
      with allowed d show ?thesis by (cases e) (auto simp: trap_Handle_def Let_def turned_away_def intro!: handled_awayI [where bs = "ln_buckets l"])
    next
      case (Inr tc)
      obtain t c where tc: "tc = (t, c)" by force
      with Decode_trap d Inr have ok_trap: "tr_Source t = src" "bounded_trap t" by blast+
      show ?thesis
        using allowed d Inr tc lim ok_trap
        by (cases ok)
          (auto simp: trap_Handle_def Let_def turned_away_def intro: handled_awayI [where bs = "ln_buckets l"] handled_awayI [where bs = bs] handled_queuedI)
    qed
  qed
qed

subsection \<open>Every datagram is accounted for\<close>



text \<open>A write touches the statistics and the labels only, and stores a whole batch or none of it.\<close>

lemma write_traps_keeps:
  assumes "write_traps env batch l = (stored, xs, l')"
  shows "ln_queue l' = ln_queue l \<and> ln_buckets l' = ln_buckets l \<and> ln_Rate l' = ln_Rate l \<and> ln_Burst l' = ln_Burst l \<and> ln_MaxLabels l' = ln_MaxLabels l \<and>
    ct_received (ln_stats l') = ct_received (ln_stats l) \<and> turned_away (ln_stats l') = turned_away (ln_stats l) \<and>
    ct_stored (ln_stats l') = ct_stored (ln_stats l) + length stored \<and> (stored = batch \<or> stored = [])"
  using assms by (auto simp: write_traps_def Let_def turned_away_def split: option.splits prod.splits if_splits)










subsection \<open>The rate of a source\<close>

text \<open>
  The tokens a source can spend at a time, as a potential: it grows with the rate, spending a token lowers it by one up to the rounding of
  the call, and forgetting an idle source does not raise it.
\<close>

definition refill :: "real \<Rightarrow> int \<Rightarrow> real" where
  "refill rate ns = rate * (real_of_int ns / 10 ^ 9)"

lemma refill_split: "refill rate (t2 - t0) = refill rate (t1 - t0) + refill rate (t2 - t1)"
  by (simp add: refill_def field_simps)

lemma refill_nonneg: "0 < rate \<Longrightarrow> 0 \<le> ns \<Longrightarrow> 0 \<le> refill rate ns"
  by (simp add: refill_def)

definition tokens_at :: "real \<Rightarrow> real \<Rightarrow> gotime \<Rightarrow> token_bucket \<Rightarrow> real" where
  "tokens_at rate burst now b = min burst (bk_tokens b + refill rate (time_sub now (bk_last b)))"

definition credit :: "Addr \<Rightarrow> gotime \<Rightarrow> Listener \<Rightarrow> real" where
  "credit a now l = (case map_of (ln_buckets l) a of None \<Rightarrow> ln_Burst l | Some b \<Rightarrow> tokens_at (ln_Rate l) (ln_Burst l) now b)"

definition buckets_ok :: "gotime \<Rightarrow> Listener \<Rightarrow> bool" where
  "buckets_ok now l \<longleftrightarrow> 0 < ln_Rate l \<and> 0 < ln_Burst l \<and> ln_Burst l \<le> 10 ^ 9 * ln_Rate l \<and> distinct (map fst (ln_buckets l)) \<and>
     (\<forall>a b. map_of (ln_buckets l) a = Some b \<longrightarrow> 0 \<le> bk_tokens b \<and> bk_last b \<le> now)"

lemma time_sub_lipschitz: "t \<le> t' \<Longrightarrow> time_sub t' b \<le> time_sub t b + (t' - t)"
  by (auto simp: time_sub_def max_def min_def)

lemma time_sub_nonneg: "b \<le> t \<Longrightarrow> 0 \<le> time_sub t b"
  by (simp add: time_sub_def)

lemma time_sub_self [simp]: "time_sub t t = 0"
  by (simp add: time_sub_def)

lemma tokens_at_later:
  assumes "t \<le> t'" "0 < rate"
  shows "tokens_at rate burst t' b \<le> tokens_at rate burst t b + refill rate (t' - t)"
proof -
  have "real_of_int (time_sub t' (bk_last b)) \<le> real_of_int (time_sub t (bk_last b)) + real_of_int (t' - t)"
    using time_sub_lipschitz [OF assms(1)] by (metis of_int_add of_int_le_iff)
  with assms(2) have "real_of_int (time_sub t' (bk_last b)) * rate \<le> (real_of_int (time_sub t (bk_last b)) + real_of_int (t' - t)) * rate"
    by (simp add: mult_right_mono)
  moreover have "0 \<le> refill rate (t' - t)" using assms by (simp add: refill_def)
  ultimately show ?thesis by (auto simp: tokens_at_def min_def refill_def field_simps)
qed

lemma credit_later:
  assumes "t \<le> t'" "buckets_ok t l"
  shows "credit a t' l \<le> credit a t l + refill (ln_Rate l) (t' - t)"
  using assms tokens_at_later [of t t' "ln_Rate l" "ln_Burst l"] by (auto simp: credit_def buckets_ok_def refill_nonneg split: option.splits)

lemma buckets_ok_later: "buckets_ok t l \<Longrightarrow> t \<le> t' \<Longrightarrow> buckets_ok t' l"
  by (fastforce simp: buckets_ok_def)

lemma credit_bounds: "buckets_ok t l \<Longrightarrow> 0 \<le> credit a t l \<and> credit a t l \<le> ln_Burst l"
  by (auto simp: credit_def tokens_at_def buckets_ok_def time_sub_nonneg refill_nonneg split: option.splits)

text \<open>What the roundings of one call can add to the tokens of a bucket.\<close>

definition call_slack :: "real \<Rightarrow> real" where
  "call_slack burst = max 1 burst / 2 ^ 49"

definition fresh_tokens :: "real \<Rightarrow> real \<Rightarrow> real \<Rightarrow> int \<Rightarrow> real" where
  "fresh_tokens rate burst k d = min burst (fl64 (k + fl64 (dur_seconds d * rate)))"

lemma rounded_refill:
  assumes "0 < rate" "0 \<le> d"
  shows "0 \<le> fl64 (dur_seconds d * rate) \<and> fl64 (dur_seconds d * rate) \<le> refill rate d + 5 * f64_eps * refill rate d + f64_tiny"
proof -
  have s: "0 \<le> dur_seconds d" "dur_seconds d \<le> (1 + 3 * f64_eps) * (of_int d / 10 ^ 9)" using dur_seconds_bounds assms(2) by blast+
  then have p: "0 \<le> dur_seconds d * rate" "dur_seconds d * rate \<le> (1 + 3 * f64_eps) * (of_int d / 10 ^ 9) * rate"
    using assms(1) mult_right_mono [OF s(2), of rate] by simp_all
  define D where "D = refill rate d"
  have D: "0 \<le> D" using refill_nonneg assms by (simp add: D_def)
  have "(1 + 3 * f64_eps) * (of_int d / 10 ^ 9) * rate = (1 + 3 * f64_eps) * D" by (simp only: D_def refill_def mult.assoc mult.commute mult.left_commute)
  with p(2) have x: "dur_seconds d * rate \<le> (1 + 3 * f64_eps) * D" by (simp only:)
  have "fl64 (dur_seconds d * rate) \<le> (1 + f64_eps) * (dur_seconds d * rate) + f64_tiny"
    using fl64_error [of "dur_seconds d * rate"] p(1) unfolding abs_of_nonneg [OF p(1)] distrib_right by linarith
  also have "\<dots> \<le> (1 + f64_eps) * ((1 + 3 * f64_eps) * D) + f64_tiny" using x by (intro add_right_mono mult_left_mono) simp_all
  also have "\<dots> \<le> D + 5 * f64_eps * D + f64_tiny" using D by (simp add: field_simps)
  finally show ?thesis using fl64_nonneg [OF p(1)] by (simp only: D_def)
qed

lemma fresh_tokens_bounds:
  assumes "0 < rate" "0 < burst" "0 \<le> k" "0 \<le> d"
  shows "0 \<le> fresh_tokens rate burst k d \<and> fresh_tokens rate burst k d \<le> min burst (k + refill rate d) + 7 * f64_eps * burst + 3 * f64_tiny"
proof -
  define p where "p = fl64 (dur_seconds d * rate)"
  define D where "D = refill rate d"
  have p: "0 \<le> p" "p \<le> D + 5 * f64_eps * D + f64_tiny" using rounded_refill [OF assms(1,4)] by (simp_all only: p_def D_def)
  have t: "0 \<le> fl64 (k + p)" using fl64_nonneg p(1) assms(3) by simp
  have "min burst (fl64 (k + p)) \<le> min burst (k + D) + 7 * f64_eps * burst + 3 * f64_tiny"
  proof (cases "burst \<le> k + D")
    case False
    then have "D \<le> burst" "k + D < burst" using assms(3) by simp_all
    then have kp: "k + p \<le> k + D + 5 * f64_eps * burst + f64_tiny"
      using p(2) mult_left_mono [OF \<open>D \<le> burst\<close>, of "5 * f64_eps"] by simp
    have "fl64 (k + p) \<le> k + p + f64_eps * (k + p) + f64_tiny"
      using fl64_error [of "k + p"] p(1) assms(3) by simp
    moreover have "k + p \<le> 2 * burst + f64_tiny" using kp \<open>k + D < burst\<close> assms(2) by simp
    then have "f64_eps * (k + p) \<le> f64_eps * (2 * burst + f64_tiny)" by (intro mult_left_mono) simp_all
    then have "f64_eps * (k + p) \<le> 2 * f64_eps * burst + f64_eps * f64_tiny" by (simp only: distrib_left mult.left_commute mult.assoc)
    moreover have "f64_eps * f64_tiny \<le> f64_tiny" by simp
    ultimately have "fl64 (k + p) \<le> k + D + 7 * f64_eps * burst + 3 * f64_tiny" using kp by linarith
    then show ?thesis using \<open>k + D < burst\<close> by linarith
  qed (use assms(2) in simp)
  then show ?thesis using t assms(2) unfolding fresh_tokens_def p_def [symmetric] D_def [symmetric] by simp
qed

lemma spent_token_bounds:
  assumes "1 \<le> t" "t \<le> burst"
  shows "0 \<le> fl64 (t - 1) \<and> fl64 (t - 1) \<le> t - 1 + f64_eps * burst + f64_tiny"
proof -
  have "fl64 (t - 1) \<le> t - 1 + f64_eps * (t - 1) + f64_tiny" using fl64_error [of "t - 1"] assms(1) by simp
  moreover have "f64_eps * (t - 1) \<le> f64_eps * burst" using assms by (intro mult_left_mono) simp_all
  ultimately show ?thesis using fl64_nonneg [of "t - 1"] assms(1) by linarith
qed

lemma limiter_allow_spends:
  "limiter_allow rate burst src now buckets =
     (let b = (case map_of buckets src of None \<Rightarrow> \<lparr>bk_tokens = burst, bk_last = now\<rparr> | Some b \<Rightarrow> b);
          t = fresh_tokens rate burst (bk_tokens b) (time_sub now (bk_last b))
      in (1 \<le> t, AList.update src \<lparr>bk_tokens = (if 1 \<le> t then fl64 (t - 1) else t), bk_last = now\<rparr> buckets))"
  by (auto simp: limiter_allow_def Let_def fresh_tokens_def min_def not_less not_le)

lemma call_slack_nonneg: "0 \<le> call_slack burst"
  by (simp add: call_slack_def)

lemma call_slack_covers:
  assumes "0 < burst"
  shows "8 * f64_eps * burst + 4 * f64_tiny \<le> call_slack burst"
proof -
  have "8 * f64_eps * burst \<le> 8 * f64_eps * max 1 burst" by simp
  moreover have "4 * f64_tiny \<le> 8 * f64_eps * 1" by simp
  moreover have "8 * f64_eps * 1 \<le> 8 * f64_eps * max 1 burst" by (intro mult_left_mono) simp_all
  moreover have "call_slack burst = 16 * f64_eps * max 1 burst" by (simp add: call_slack_def)
  ultimately show ?thesis by linarith
qed

lemma credit_update:
  "credit a now (l\<lparr>ln_buckets := AList.update c b (ln_buckets l)\<rparr>) = (if a = c then tokens_at (ln_Rate l) (ln_Burst l) now b else credit a now l)"
  by (simp add: credit_def update_conv' split: option.splits)

lemma limiter_allow_credit:
  assumes ok: "buckets_ok now l" and run: "limiter_allow (ln_Rate l) (ln_Burst l) src now (ln_buckets l) = (granted, bs)"
  shows "credit a now (l\<lparr>ln_buckets := bs\<rparr>) + of_bool (granted \<and> a = src) \<le> credit a now l + of_bool (a = src) * call_slack (ln_Burst l) \<and>
    buckets_ok now (l\<lparr>ln_buckets := bs\<rparr>)"
proof -
  define b where "b = (case map_of (ln_buckets l) src of None \<Rightarrow> \<lparr>bk_tokens = ln_Burst l, bk_last = now\<rparr> | Some b \<Rightarrow> b)"
  define t where "t = fresh_tokens (ln_Rate l) (ln_Burst l) (bk_tokens b) (time_sub now (bk_last b))"
  define k where "k = (if 1 \<le> t then fl64 (t - 1) else t)"
  have bs: "granted \<longleftrightarrow> 1 \<le> t" "bs = AList.update src \<lparr>bk_tokens = k, bk_last = now\<rparr> (ln_buckets l)"
    using run unfolding limiter_allow_spends Let_def b_def [symmetric] t_def [symmetric] k_def [symmetric] by auto
  have pos: "0 < ln_Rate l" "0 < ln_Burst l" and b: "0 \<le> bk_tokens b" "bk_last b \<le> now"
    using ok by (auto simp: buckets_ok_def b_def split: option.splits)
  have before: "min (ln_Burst l) (bk_tokens b + refill (ln_Rate l) (time_sub now (bk_last b))) = credit src now l"
    using pos by (simp add: credit_def b_def tokens_at_def refill_def split: option.split)
  have t: "0 \<le> t" "t \<le> ln_Burst l" "t \<le> credit src now l + 7 * f64_eps * ln_Burst l + 3 * f64_tiny"
    using fresh_tokens_bounds [OF pos b(1) time_sub_nonneg [OF b(2)]] by (simp_all add: t_def before [symmetric] fresh_tokens_def)
  have k: "0 \<le> k" "k + of_bool granted \<le> t + f64_eps * ln_Burst l + f64_tiny"
    using spent_token_bounds [of t "ln_Burst l"] t pos(2) by (auto simp: k_def bs(1))
  have "k + of_bool granted \<le> credit src now l + call_slack (ln_Burst l)"
    using k(2) t(3) call_slack_covers [OF pos(2)] by linarith
  moreover have "credit src now (l\<lparr>ln_buckets := bs\<rparr>) \<le> k"
    unfolding bs(2) credit_update by (simp add: tokens_at_def refill_def)
  moreover have "credit a now (l\<lparr>ln_buckets := bs\<rparr>) = credit a now l" if "a \<noteq> src"
    unfolding bs(2) credit_update using that by simp
  moreover have "buckets_ok now (l\<lparr>ln_buckets := bs\<rparr>)"
    using ok k(1) unfolding buckets_ok_def bs(2) by (simp add: update_conv' distinct_update)
  ultimately show ?thesis by (cases "a = src") auto
qed

text \<open>
  The sweep computes its idle time in \<open>float64\<close> too; the minute it adds is far more than the rounding, as long as the time to refill a bucket
  fits a \<open>Duration\<close>. It does when burst is at most \<open>10 ^ 9\<close> seconds' worth of rate.
\<close>

lemma idle_time_enough:
  assumes "0 < rate" "0 < burst" "burst \<le> 10 ^ 9 * rate"
  shows "burst / rate * 10 ^ 9 \<le> of_int (wrap_int64 (f64_int64 (fl64 (fl64 (burst / rate) * 10 ^ 9)) + nanos_per_min))"
proof -
  define x where "x = burst / rate"
  have x: "0 < x" "x \<le> 10 ^ 9" using assms by (simp_all add: x_def field_simps)
  define y where "y = fl64 x"
  define z where "z = fl64 (y * 10 ^ 9)"
  have y: "0 \<le> y" "\<bar>y - x\<bar> \<le> f64_eps * x + f64_tiny" using fl64_error [of x] fl64_nonneg [of x] x(1) by (simp_all add: y_def)
  then have y': "\<bar>y - x\<bar> \<le> 1" using x by simp
  have z: "0 \<le> z" "\<bar>z - y * 10 ^ 9\<bar> \<le> f64_eps * (y * 10 ^ 9) + f64_tiny" using fl64_error [of "y * 10 ^ 9"] fl64_nonneg [of "y * 10 ^ 9"] y(1) by (simp_all add: z_def)
  then have z': "\<bar>z - x * 10 ^ 9\<bar> \<le> 2 * 10 ^ 9" using x y' by (simp add: abs_le_iff)
  then have "z < 2 ^ 62" using x by (simp add: abs_le_iff)
  then have w: "f64_int64 z = \<lfloor>z\<rfloor>" "0 \<le> \<lfloor>z\<rfloor>" "\<lfloor>z\<rfloor> < 2 ^ 62" using z(1) by (simp_all add: f64_int64_def floor_less_iff)
  then have "wrap_int64 (f64_int64 z + nanos_per_min) = \<lfloor>z\<rfloor> + nanos_per_min" by (simp add: wrap_int64_def nanos_per_min_def)
  moreover have "x * 10 ^ 9 \<le> of_int (\<lfloor>z\<rfloor> + nanos_per_min)" using z' unfolding nanos_per_min_def by (simp add: abs_le_iff) linarith
  ultimately show ?thesis by (simp add: x_def y_def z_def)
qed

lemma swept_bucket_full:
  assumes "0 < rate" "0 < burst" "burst \<le> 10 ^ 9 * rate" "0 \<le> bk_tokens b"
    "wrap_int64 (f64_int64 (fl64 (fl64 (burst / rate) * 10 ^ 9)) + nanos_per_min) < time_sub now (bk_last b)"
  shows "tokens_at rate burst now b = burst"
proof -
  have "burst / rate * 10 ^ 9 \<le> real_of_int (time_sub now (bk_last b))"
    using idle_time_enough [OF assms(1-3)] assms(5) by (meson less_imp_le of_int_le_iff order_trans)
  then have "burst \<le> refill rate (time_sub now (bk_last b))" using assms(1) by (simp add: refill_def field_simps)
  with assms(4) show ?thesis by (simp add: tokens_at_def)
qed

lemma limiter_sweep_credit:
  assumes ok: "buckets_ok now l" and bs: "bs = limiter_sweep (ln_Rate l) (ln_Burst l) now (ln_buckets l)"
  shows "credit a now (l\<lparr>ln_buckets := bs\<rparr>) = credit a now l \<and> buckets_ok now (l\<lparr>ln_buckets := bs\<rparr>)"
proof -
  have dist: "distinct (map fst (ln_buckets l))" using ok by (simp add: buckets_ok_def)
  have look: "map_of bs a = (case map_of (ln_buckets l) a of None \<Rightarrow> None
      | Some b \<Rightarrow> if wrap_int64 (f64_int64 (fl64 (fl64 (ln_Burst l / ln_Rate l) * 10 ^ 9)) + nanos_per_min) < time_sub now (bk_last b) then None else Some b)" for a
    unfolding bs limiter_sweep_def Let_def map_of_gm_keep [OF dist] by (simp split: option.splits)
  have "credit a now (l\<lparr>ln_buckets := bs\<rparr>) = credit a now l"
    using ok swept_bucket_full by (auto simp: credit_def look buckets_ok_def split: option.splits)
  moreover have "distinct (map fst bs)" unfolding bs limiter_sweep_def Let_def by (rule gm_ok_keep [OF dist])
  ultimately show ?thesis using ok by (auto simp: buckets_ok_def look split: option.splits if_splits)
qed

text \<open>
  The traps of a source among the accepted ones, its datagrams in a run, the time an operation reads off the clock, and one step of the
  potential argument.
\<close>

definition from_source :: "Addr \<Rightarrow> Trap list \<Rightarrow> nat" where
  "from_source a ts = length (filter (\<lambda>t. tr_Source t = a) ts)"

fun from_addr :: "Addr \<Rightarrow> intake_op \<Rightarrow> bool" where
  "from_addr a (Datagram env b src recv) = (src = a)"
| "from_addr a op = False"

definition datagrams_of :: "Addr \<Rightarrow> intake_op list \<Rightarrow> nat" where
  "datagrams_of a ops = length (filter (from_addr a) ops)"

fun op_time :: "intake_op \<Rightarrow> gotime list" where
  "op_time (Datagram env b src recv) = [recv]"
| "op_time (SweepTick now) = [now]"
| "op_time op = []"

lemma handled_credit:
  assumes "trap_handled src recv l l'" "buckets_ok recv l"
  shows "credit a recv l' + real (from_source a (drop (length (ln_queue l)) (ln_queue l'))) \<le> credit a recv l + of_bool (src = a) * call_slack (ln_Burst l) \<and> buckets_ok recv l' \<and> ln_Rate l' = ln_Rate l \<and> ln_Burst l' = ln_Burst l"
proof -
  obtain ok bs where lim: "limiter_allow (ln_Rate l) (ln_Burst l) src recv (ln_buckets l) = (ok, bs)" by force
  note step = limiter_allow_credit [OF assms(2) lim]
  have [simp]: "credit a recv (l\<lparr>ln_buckets := cs, ln_stats := st\<rparr>) = credit a recv (l\<lparr>ln_buckets := cs\<rparr>)"
      "credit a recv (l\<lparr>ln_buckets := cs, ln_stats := st, ln_queue := q\<rparr>) = credit a recv (l\<lparr>ln_buckets := cs\<rparr>)"
      "buckets_ok recv (l\<lparr>ln_buckets := cs, ln_stats := st\<rparr>) = buckets_ok recv (l\<lparr>ln_buckets := cs\<rparr>)"
      "buckets_ok recv (l\<lparr>ln_buckets := cs, ln_stats := st, ln_queue := q\<rparr>) = buckets_ok recv (l\<lparr>ln_buckets := cs\<rparr>)" for cs st q
    by (simp_all add: credit_def buckets_ok_def split: option.splits)
  from assms(1) show ?thesis
  proof cases
    case (away st cs)
    then show ?thesis using step [of a] assms(2) lim call_slack_nonneg [of "ln_Burst l"] by (auto simp: from_source_def split: split_of_bool_asm)
  next
    case (queued st cs t)
    then show ?thesis using step [of a] lim by (auto simp: from_source_def)
  qed
qed

lemma flush_traps_limiter:
  "ln_buckets (it_listener (flush_traps env s)) = ln_buckets (it_listener s) \<and> ln_Rate (it_listener (flush_traps env s)) = ln_Rate (it_listener s) \<and>
   ln_Burst (it_listener (flush_traps env s)) = ln_Burst (it_listener s) \<and> it_accepted (flush_traps env s) = it_accepted s"
  by (auto simp: flush_traps_def dest!: write_traps_keeps split: prod.splits)

definition same_limiter :: "intake \<Rightarrow> intake \<Rightarrow> bool" where
  "same_limiter s s' \<longleftrightarrow> ln_buckets (it_listener s') = ln_buckets (it_listener s) \<and> ln_Rate (it_listener s') = ln_Rate (it_listener s) \<and>
     ln_Burst (it_listener s') = ln_Burst (it_listener s) \<and> it_accepted s' = it_accepted s"

lemma writer_limiter [simp]:
  "same_limiter s (flush_traps env s)" "same_limiter s (take_queued env s)" "same_limiter s (drain_queued env s)" "same_limiter s s" "same_limiter s (s\<lparr>it_writer := w\<rparr>)"
  using flush_traps_limiter [of env] by (simp_all add: same_limiter_def take_queued_def drain_queued_def Let_def split: list.split)

lemma same_limiterD:
  "same_limiter s s' \<Longrightarrow> credit a t (it_listener s') = credit a t (it_listener s) \<and> buckets_ok t (it_listener s') = buckets_ok t (it_listener s) \<and>
    ln_Rate (it_listener s') = ln_Rate (it_listener s) \<and> ln_Burst (it_listener s') = ln_Burst (it_listener s) \<and> it_accepted s' = it_accepted s"
  by (simp add: same_limiter_def credit_def buckets_ok_def split: option.split)

lemma intake_step_credit:
  assumes step: "intake_step op s = Some s'" and ok: "buckets_ok t (it_listener s)" and clock: "\<And>u. op_time op = [u] \<Longrightarrow> u = t"
  shows "credit a t (it_listener s') + real (from_source a (it_accepted s')) \<le>
      credit a t (it_listener s) + real (from_source a (it_accepted s)) + of_bool (from_addr a op) * call_slack (ln_Burst (it_listener s)) \<and>
    buckets_ok t (it_listener s') \<and> ln_Rate (it_listener s') = ln_Rate (it_listener s) \<and> ln_Burst (it_listener s') = ln_Burst (it_listener s)"
proof (cases "\<exists>env b src recv. op = Datagram env b src recv")
  case True
  then obtain env b src recv where op: "op = Datagram env b src recv" by blast
  then have "recv = t" using clock by simp
  obtain ack l' where h: "trap_Handle env b src recv (it_listener s) = Some (ack, l')" "trap_handled src recv (it_listener s) l'"
    using trap_Handle_handled by blast
  with step op have s': "s' = s\<lparr>it_listener := l', it_accepted := it_accepted s @ drop (length (ln_queue (it_listener s))) (ln_queue l')\<rparr>"
    by (simp add: intake_step_def serve_datagram_def)
  show ?thesis using handled_credit [OF h(2), of a] ok \<open>recv = t\<close> unfolding s' op by (simp add: from_source_def)
next
  case False
  show ?thesis
  proof (cases "\<exists>now. op = SweepTick now")
    case True
    with step clock ok show ?thesis using limiter_sweep_credit [OF ok refl, of a] by (auto simp: intake_step_def)
  next
    case no_sweep: False
    with False step have "same_limiter s s'" by (cases op) (auto simp: intake_step_def split: if_splits)
    from same_limiterD [OF this, of a t] ok call_slack_nonneg [of "ln_Burst (it_listener s)"] show ?thesis by simp
  qed
qed

text \<open>The clock of the process does not run backwards: the times of a run, and where they end.\<close>

definition run_times :: "intake_op list \<Rightarrow> gotime list" where
  "run_times ops = concat (map op_time ops)"

lemma op_time_cases: "op_time op = [] \<or> (\<exists>u. op_time op = [u])"
  by (cases op) simp_all

lemma intake_run_credit:
  assumes "intake_run ops s = Some s'" "buckets_ok t (it_listener s)" "sorted (t # run_times ops)"
  shows "credit a (last (t # run_times ops)) (it_listener s') + real (from_source a (it_accepted s')) \<le>
      credit a t (it_listener s) + real (from_source a (it_accepted s)) + refill (ln_Rate (it_listener s)) (last (t # run_times ops) - t) +
      real (datagrams_of a ops) * call_slack (ln_Burst (it_listener s)) \<and>
    buckets_ok (last (t # run_times ops)) (it_listener s') \<and> ln_Rate (it_listener s') = ln_Rate (it_listener s) \<and> ln_Burst (it_listener s') = ln_Burst (it_listener s)"
  using assms
proof (induction ops arbitrary: s t)
  case (Cons op ops)
  obtain s1 where s1: "intake_step op s = Some s1" "intake_run ops s1 = Some s'" using Cons.prems(1) by (auto simp: bind_eq_Some_conv)
  define u where "u = (case op_time op of [] \<Rightarrow> t | v # vs \<Rightarrow> v)"
  have times: "last (t # run_times (op # ops)) = last (u # run_times ops)" "sorted (u # run_times ops)" "t \<le> u" "\<And>v. op_time op = [v] \<Longrightarrow> v = u"
    using op_time_cases [of op] Cons.prems(3) by (auto simp: u_def run_times_def)
  have ok: "buckets_ok u (it_listener s)" using buckets_ok_later Cons.prems(2) times(3) by blast
  note step = intake_step_credit [OF s1(1) ok times(4), of a]
  then have same: "ln_Rate (it_listener s1) = ln_Rate (it_listener s)" "ln_Burst (it_listener s1) = ln_Burst (it_listener s)"
    and ok1: "buckets_ok u (it_listener s1)" by simp_all
  note rest = Cons.IH [OF s1(2) ok1 times(2), unfolded same]
  have calls: "real (datagrams_of a (op # ops)) * e = of_bool (from_addr a op) * e + real (datagrams_of a ops) * e" for e
    by (simp add: datagrams_of_def distrib_right)
  show ?case
    using step rest credit_later [OF times(3) Cons.prems(2), of a] refill_split [of "ln_Rate (it_listener s)" "last (u # run_times ops)" t u]
    unfolding times(1) calls by linarith
qed (simp add: run_times_def refill_def datagrams_of_def)

subsection \<open>The names of a device\<close>

definition known_names :: "(string, string list) gomap \<Rightarrow> string \<Rightarrow> string list" where
  "known_names seen d = (case map_of seen d of None \<Rightarrow> [] | Some m \<Rightarrow> m)"

lemma labelCap_label_known:
  assumes "labelCap_label cap d trap seen = (label, seen')"
  shows "known_names seen' e = (if e = d \<and> trap \<notin> set (known_names seen d) \<and> length (known_names seen d) < cap then trap # known_names seen d else known_names seen e) \<and>
    label \<in> insert ''other'' (set (known_names seen' d))"
  using assms by (auto simp: labelCap_label_def Let_def known_names_def update_conv' split: option.splits if_splits)

text \<open>The samples published so far carry names the cap admitted, and it admits no more than its number.\<close>

definition names_ok :: "nat \<Rightarrow> (string, string list) gomap \<Rightarrow> Sample list \<Rightarrow> bool" where
  "names_ok cap seen xs \<longleftrightarrow> (\<forall>d. length (known_names seen d) \<le> cap) \<and>
     (\<forall>x \<in> set xs. \<exists>n. map_of (sm_Labels x) ''trap'' = Some n \<and> n \<in> insert ''other'' (set (known_names seen (sm_DeviceID x))))"

definition names_grow :: "(string, string list) gomap \<Rightarrow> (string, string list) gomap \<Rightarrow> bool" where
  "names_grow seen seen' \<longleftrightarrow> (\<forall>d. set (known_names seen d) \<subseteq> set (known_names seen' d))"

lemma trap_samples_names:
  assumes "trap_samples cap ts seen = (xs, seen')" "\<forall>d. length (known_names seen d) \<le> cap"
  shows "names_ok cap seen' xs \<and> names_grow seen seen'"
  using assms
proof (induction ts arbitrary: seen xs)
  case Nil
  then show ?case by (simp add: names_ok_def names_grow_def)
next
  case (Cons t ts)
  show ?case
  proof (cases "tr_DeviceID t = []")
    case True
    with Cons show ?thesis by simp
  next
    case False
    obtain label s1 where l: "labelCap_label cap (tr_DeviceID t) (Label t) seen = (label, s1)" by force
    obtain x ys where ys: "trap_samples cap ts s1 = (ys, seen')" and xs: "xs = x # ys"
        "sm_DeviceID x = tr_DeviceID t" "map_of (sm_Labels x) ''trap'' = Some label"
      using Cons.prems(1) False l by (auto split: prod.splits)
    note known = labelCap_label_known [OF l]
    have "\<forall>d. length (known_names s1 d) \<le> cap" using Cons.prems(2) known by auto
    with Cons.IH ys have rest: "names_ok cap seen' ys" "names_grow s1 seen'" by blast+
    have "names_grow seen s1" using known by (auto simp: names_grow_def)
    moreover have "label \<in> insert ''other'' (set (known_names seen' (tr_DeviceID t)))"
      using known [of "tr_DeviceID t", THEN conjunct2] rest(2) unfolding names_grow_def by blast
    ultimately show ?thesis using rest xs unfolding names_ok_def names_grow_def by auto
  qed
qed

lemma names_ok_grow: "names_ok cap seen xs \<Longrightarrow> names_grow seen seen' \<Longrightarrow> names_ok cap seen' ys \<Longrightarrow> names_ok cap seen' (xs @ ys)"
  unfolding names_ok_def names_grow_def by auto blast

definition intake_names :: "intake \<Rightarrow> bool" where
  "intake_names s \<longleftrightarrow> names_ok (ln_MaxLabels (it_listener s)) (ln_seen (it_listener s)) (it_samples s)"

lemma flush_traps_names: "intake_names s \<Longrightarrow> intake_names (flush_traps env s) \<and> ln_MaxLabels (it_listener (flush_traps env s)) = ln_MaxLabels (it_listener s)"
proof -
  assume ok: "intake_names s"
  obtain xs seen' where x: "trap_samples (ln_MaxLabels (it_listener s)) (it_batch s) (ln_seen (it_listener s)) = (xs, seen')" by force
  have new: "names_ok (ln_MaxLabels (it_listener s)) seen' xs" "names_grow (ln_seen (it_listener s)) seen'"
    using trap_samples_names [OF x] ok by (auto simp: intake_names_def names_ok_def)
  with ok have "names_ok (ln_MaxLabels (it_listener s)) seen' (it_samples s @ xs)" "names_ok (ln_MaxLabels (it_listener s)) seen' (it_samples s @ [])"
    using names_ok_grow [of _ "ln_seen (it_listener s)" "it_samples s" seen'] by (auto simp: intake_names_def names_ok_def)
  then show ?thesis using ok x by (auto simp: flush_traps_def write_traps_def intake_names_def Let_def split: option.splits)
qed

lemma intake_step_names:
  assumes "intake_step op s = Some s'" "intake_names s"
  shows "intake_names s' \<and> ln_MaxLabels (it_listener s') = ln_MaxLabels (it_listener s)"
proof (cases op)
  case (Datagram env b src recv)
  obtain ack l' where h: "trap_Handle env b src recv (it_listener s) = Some (ack, l')" "trap_handled src recv (it_listener s) l'"
    using trap_Handle_handled by blast
  from h(2) show ?thesis using assms Datagram h(1)
    by cases (auto simp: intake_step_def serve_datagram_def intake_names_def)
next
  case (TakeQueued env)
  show ?thesis
  proof (cases "ln_queue (it_listener s)")
    case (Cons t q)
    let ?s = "s\<lparr>it_listener := (it_listener s)\<lparr>ln_queue := q\<rparr>, it_batch := it_batch s @ [t]\<rparr>"
    have "intake_names ?s" using assms(2) by (simp add: intake_names_def)
    with assms TakeQueued Cons flush_traps_names [of ?s env] show ?thesis
      by (auto simp: intake_step_def take_queued_def Let_def split: if_splits)
  qed (use assms TakeQueued in \<open>auto simp: intake_step_def take_queued_def\<close>)
next
  case (FlushTick env)
  with assms flush_traps_names show ?thesis by (auto simp: intake_step_def split: if_splits)
next
  case Cancelled
  with assms show ?thesis by (auto simp: intake_step_def intake_names_def split: if_splits)
next
  case (DrainQueued env)
  with assms flush_traps_names [of s env] show ?thesis
    by (auto simp: intake_step_def drain_queued_def intake_names_def split: if_splits list.splits)
next
  case (SweepTick now)
  with assms show ?thesis by (auto simp: intake_step_def intake_names_def)
qed

lemma intake_run_names:
  "intake_run ops s = Some s' \<Longrightarrow> intake_names s \<Longrightarrow> intake_names s' \<and> ln_MaxLabels (it_listener s') = ln_MaxLabels (it_listener s)"
  by (induction ops arbitrary: s) (auto simp: bind_eq_Some_conv dest: intake_step_names)

lemma names_ok_card:
  assumes "names_ok cap seen xs"
  shows "card {n. \<exists>x. x \<in> set xs \<and> sm_DeviceID x = d \<and> map_of (sm_Labels x) ''trap'' = Some n} \<le> Suc cap"
proof -
  have "{n. \<exists>x. x \<in> set xs \<and> sm_DeviceID x = d \<and> map_of (sm_Labels x) ''trap'' = Some n} \<subseteq> set (''other'' # known_names seen d)"
    using assms by (auto simp: names_ok_def)
  then have "card {n. \<exists>x. x \<in> set xs \<and> sm_DeviceID x = d \<and> map_of (sm_Labels x) ''trap'' = Some n} \<le> card (set (''other'' # known_names seen d))"
    by (rule card_mono [OF finite_set])
  also have "\<dots> \<le> length (''other'' # known_names seen d)" by (rule card_length)
  also have "\<dots> \<le> Suc cap" using assms by (simp add: names_ok_def)
  finally show ?thesis .
qed

text \<open>
  The second label of a sample is not capped: its value is the tail of a variable's name, as the sender wrote it, and each value is a series of its own.
\<close>

lemma last_index_dot_free:
  assumes "CHR ''.'' \<notin> set p"
  shows "last_dot_index (''1.3.6.1.2.1.2.2.1.1.'' @ p) = 19"
proof -
  have "takeWhile (\<lambda>x. x \<noteq> CHR ''.'') (rev (''1.3.6.1.2.1.2.2.1.1.'' @ p)) = rev p"
    using assms by (simp add: takeWhile_append)
  then show ?thesis by (simp add: last_dot_index_def last_index_def)
qed

lemma put_variable_if_index:
  assumes "tr_IfIndex t = []" "CHR ''.'' \<notin> set p" "pv_Name v = ''.1.3.6.1.2.1.2.2.1.1.'' @ p"
  shows "tr_IfIndex (put_variable t v) = p"
  using assms last_index_dot_free [OF assms(2)] by (simp add: put_variable_def TrimPrefix_def Let_def)

lemma sample_series_free:
  assumes "\<forall>t \<in> set ts. tr_DeviceID t \<noteq> [] \<and> tr_IfIndex t \<noteq> []"
  shows "map (\<lambda>x. map_of (sm_Labels x) ''if_index'') (fst (trap_samples cap ts seen)) = map (Some \<circ> tr_IfIndex) ts"
  using assms
proof (induction ts arbitrary: seen)
  case (Cons t ts)
  obtain label s1 where "labelCap_label cap (tr_DeviceID t) (Label t) seen = (label, s1)" by force
  with Cons.prems Cons.IH [of s1] show ?case by (auto split: prod.splits)
qed simp

subsection \<open>After the writer has ended\<close>

lemma intake_run_append: "intake_run (xs @ ys) s = intake_run xs s \<bind> intake_run ys"
  by (induction xs arbitrary: s) (simp_all add: bind_assoc)

lemma late_step:
  assumes "it_writer s = Returned" "intake_step op s = Some s'"
  shows "it_writer s' = Returned \<and> it_written s' = it_written s \<and> it_stored s' = it_stored s \<and> prefix (ln_queue (it_listener s)) (ln_queue (it_listener s'))"
proof (cases op)
  case (Datagram env b src recv)
  obtain ack l' where h: "trap_Handle env b src recv (it_listener s) = Some (ack, l')" "trap_handled src recv (it_listener s) l'"
    using trap_Handle_handled by blast
  from h(2) show ?thesis using assms Datagram h(1) by cases (auto simp: intake_step_def serve_datagram_def)
qed (use assms in \<open>auto simp: intake_step_def\<close>)

lemma late_run:
  assumes "it_writer s = Returned" "intake_run ops s = Some s'"
  shows "it_written s' = it_written s \<and> it_stored s' = it_stored s \<and> prefix (ln_queue (it_listener s)) (ln_queue (it_listener s'))"
  using assms
proof (induction ops arbitrary: s)
  case (Cons op ops)
  then obtain s1 where s1: "intake_step op s = Some s1" "intake_run ops s1 = Some s'" by (auto simp: bind_eq_Some_conv)
  with Cons late_step [OF Cons.prems(1) s1(1)] show ?case using prefix_order.trans by metis
qed simp

subsection \<open>A sample agent\<close>

text \<open>A decoder that reads every message as one of two traps, or an inform, by its length.\<close>

definition demo_packet :: "pdu_type \<Rightarrow> int \<Rightarrow> SnmpPacket" where
  "demo_packet kind generic = \<lparr>pk_Type = kind, pk_Enterprise = ''.1.3.6.1.4.1.9'', pk_Generic = generic, pk_Specific = 0, pk_AgentAddress = ''0.0.0.0'',
     pk_Community = ''public'', pk_Variables = [\<lparr>pv_Name = ''.1.3.6.1.6.3.1.1.4.1.0'', pv_Type = ''ObjectIdentifier'', pv_Value = PvString ''.1.3.6.1.6.3.1.1.5.3''\<rparr>]\<rparr>"

definition demo_codec :: snmp_codec where
  "demo_codec = \<lparr>sc_unmarshal = (\<lambda>b. Inr (if length b = 5 then demo_packet PduTrap 2 else if length b = 6 then demo_packet PduTrap 3 else demo_packet PduInform 0)),
     sc_marshal = (\<lambda>p. Inr [0x30]), sc_vendor = (\<lambda>oid. [])\<rparr>"

definition demo_trap_env :: trap_env where
  "demo_trap_env = \<lparr>te_codec = demo_codec, te_response = id, te_resolve = Some (\<lambda>a. ''r1'')\<rparr>"

definition demo_writer :: write_env where
  "demo_writer = \<lparr>wv_Insert = Some (\<lambda>ts. None), wv_Publish = Some (\<lambda>xs. None)\<rparr>"

definition demo_trap :: "nat \<Rightarrow> gotime \<Rightarrow> intake_op" where
  "demo_trap extra recv = Datagram demo_trap_env ([0x30, 0x03, 0x02, 0x01, 0x00] @ replicate extra 0) (Addr4 0x0A000001) recv"

definition demo_decoded :: "nat \<Rightarrow> gotime \<Rightarrow> Trap" where
  "demo_decoded extra recv = \<lparr>tr_At = recv, tr_Source = Addr4 0x0A000001, tr_Agent = None, tr_Version = ''1'', tr_Inform = False,
     tr_TrapOID = (if extra = 0 then ''1.3.6.1.6.3.1.1.5.3'' else ''1.3.6.1.6.3.1.1.5.4''), tr_Name = (if extra = 0 then ''linkDown'' else ''linkUp''), tr_IfIndex = [],
     tr_Varbinds = [\<lparr>vb_OID = ''1.3.6.1.6.3.1.1.4.1.0'', vb_Type = ''ObjectIdentifier'', vb_Value = ''1.3.6.1.6.3.1.1.5.3''\<rparr>], tr_DeviceID = ''r1'',
     tr_packet = demo_packet PduTrap (if extra = 0 then 2 else 3)\<rparr>"

lemma demo_agent: "ParseAddr ''0.0.0.0'' = Some (Addr4 0, [])"
  by code_simp

lemma demo_ints: "int_str 3 = ''3''" "int_str 4 = ''4''"
  by code_simp+

lemma demo_Decode:
  assumes "extra \<le> 1"
  shows "Decode demo_codec ([0x30, 0x03, 0x02, 0x01, 0x00] @ replicate extra 0) (Addr4 0x0A000001) recv = Some (Inr ((demo_decoded extra recv)\<lparr>tr_DeviceID := []\<rparr>, ''public''))"
proof -
  have "extra = 0 \<or> extra = 1" using assms by auto
  moreover have "PeekVersion ([0x30, 0x03, 0x02, 0x01, 0x00] @ replicate extra 0) = Some 0" by (simp add: PeekVersion_def idx_def)
  ultimately show ?thesis
    by (auto simp: Decode_def demo_codec_def demo_packet_def start_trap_def put_variable_def TrimPrefix_def v1TrapOID_def demo_ints
        TrapName_def trapNames_def demo_decoded_def demo_agent MaxVarbinds_def render_def MaxValueBytes_def Let_def)
qed

definition demo_intake :: "real \<Rightarrow> real \<Rightarrow> nat \<Rightarrow> Trap list \<Rightarrow> (Addr, token_bucket) gomap \<Rightarrow> trap_counters \<Rightarrow> intake" where
  "demo_intake rate burst cap ts bs st = (new_intake \<lparr>ln_Allow = [], ln_Communities = [], ln_Rate = rate, ln_Burst = burst, ln_MaxLabels = cap, ln_queue = ts,
     ln_buckets = bs, ln_seen = [], ln_stats = st\<rparr>)\<lparr>it_accepted := ts\<rparr>"

lemma demo_step:
  assumes "extra \<le> 1" "length ts < queueCap"
  shows "intake_step (demo_trap extra recv) (demo_intake rate burst cap ts bs st) =
    Some (if fst (limiter_allow rate burst (Addr4 0x0A000001) recv bs)
      then demo_intake rate burst cap (ts @ [demo_decoded extra recv]) (snd (limiter_allow rate burst (Addr4 0x0A000001) recv bs)) (st\<lparr>ct_received := Suc (ct_received st)\<rparr>)
      else demo_intake rate burst cap ts (snd (limiter_allow rate burst (Addr4 0x0A000001) recv bs))
        (st\<lparr>ct_received := Suc (ct_received st), ct_rateLimited := Suc (ct_rateLimited st)\<rparr>))"
  using assms demo_Decode [OF assms(1), of recv]
  by (auto simp: intake_step_def serve_datagram_def trap_Handle_def demo_trap_def demo_trap_env_def demo_intake_def new_intake_def source_allowed_def
      resolve_trap_def Ack_trap_def demo_decoded_def Let_def split: prod.splits bool.splits)

lemma demo_start: "new_intake (trap_defaults [] [] rate burst maxLabels) =
  demo_intake (if rate \<le> 0 then 20 else rate) (if burst \<le> 0 then 200 else burst) (if maxLabels \<le> 0 then 100 else nat maxLabels) [] []
    \<lparr>ct_received = 0, ct_stored = 0, ct_refused = 0, ct_badCommunity = 0, ct_unsupported = 0, ct_malformed = 0, ct_rateLimited = 0, ct_queueFull = 0, ct_unknownSource = 0\<rparr>"
  by (simp add: demo_intake_def trap_defaults_def new_intake_def)

lemma demo_accepted: "it_accepted (demo_intake rate burst cap ts bs st) = ts"
  by (simp add: demo_intake_def)

lemma demo_write:
  "\<exists>s'. intake_run [TakeQueued demo_writer, TakeQueued demo_writer, FlushTick demo_writer] (demo_intake rate burst (Suc 0) [demo_decoded 0 t0, demo_decoded (Suc 0) t1] bs st) = Some s' \<and>
    map (\<lambda>x. map_of (sm_Labels x) ''trap'') (it_samples s') = [Some ''linkDown'', Some ''other'']"
proof -
  have "intake_run [TakeQueued demo_writer, TakeQueued demo_writer] (demo_intake rate burst (Suc 0) [demo_decoded 0 t0, demo_decoded (Suc 0) t1] bs st) =
      Some ((demo_intake rate burst (Suc 0) [demo_decoded 0 t0, demo_decoded (Suc 0) t1] bs st)\<lparr>
        it_listener := (it_listener (demo_intake rate burst (Suc 0) [] bs st)), it_batch := [demo_decoded 0 t0, demo_decoded (Suc 0) t1]\<rparr>)"
    by (simp add: intake_step_def demo_intake_def new_intake_def take_queued_def)
  then show ?thesis
    by (simp add: bind_eq_Some_conv) (auto simp: intake_step_def demo_intake_def new_intake_def flush_traps_def write_traps_def labelCap_label_def Label_def demo_decoded_def demo_writer_def)
qed

lemma demo_durations: "dur_seconds 1000000000 = 1" "dur_seconds 3000000000 = 3"
  by (simp_all add: dur_seconds_def nanos_per_s_def)

lemmas demo_eval = demo_start demo_step demo_accepted demo_durations limiter_allow_def queueCap_def time_sub_def

subsection \<open>What the listener guarantees\<close>


text \<open>
  C18. A source cannot write faster than its allowance: over any stretch of a run in which the clock does not go back, the accepted traps of one address
  are at most the burst plus the rate times the time that passed, also when the limiter forgets idle sources in between. The tokens are rounded to
  \<open>float64\<close> at every step, which adds at most \<open>2 ^ -49\<close> of the burst (of one token, if the burst is below one) for each datagram of the address. The burst
  must refill within \<open>10 ^ 9\<close> seconds, or the limiter's idle time does not fit a \<open>Duration\<close>.
\<close>

theorem source_rate_bounded:
  assumes "intake_run past (new_intake (trap_defaults allow communities rate burst maxLabels)) = Some s"
    and "intake_run ops s = Some s'"
    and "sorted (start # run_times past @ t0 # run_times ops)"
    and "B = (if burst \<le> 0 then 200 else burst)" "R = (if rate \<le> 0 then 20 else rate)" "B \<le> 10 ^ 9 * R"
  shows "real (from_source a (it_accepted s')) - real (from_source a (it_accepted s)) \<le>
    B + R * (real_of_int (last (t0 # run_times ops) - t0) / 10 ^ 9) + real (datagrams_of a ops) * (max 1 B / 2 ^ 49)"
proof -
  let ?l = "trap_defaults allow communities rate burst maxLabels"
  have "buckets_ok start (it_listener (new_intake ?l))" using assms(4-6) by (simp add: buckets_ok_def new_intake_def trap_defaults_def)
  moreover have "sorted (start # run_times past)" "sorted (t0 # run_times ops)" and t0: "last (start # run_times past) \<le> t0"
    using assms(3) by (auto simp: sorted_append last_in_set)
  ultimately have ok: "buckets_ok (last (start # run_times past)) (it_listener s)" and rate: "ln_Rate (it_listener s) = R" "ln_Burst (it_listener s) = B"
    using intake_run_credit [OF assms(1)] assms(4,5) by (auto simp: new_intake_def trap_defaults_def)
  note now = buckets_ok_later [OF ok t0]
  note run = intake_run_credit [OF assms(2) now \<open>sorted (t0 # run_times ops)\<close>, of a, unfolded rate]
  have "0 \<le> credit a (last (t0 # run_times ops)) (it_listener s')" using credit_bounds run by blast
  moreover have "credit a t0 (it_listener s) \<le> B" using credit_bounds [OF now] rate by metis
  ultimately show ?thesis using run unfolding refill_def call_slack_def by linarith
qed

text \<open>
  The third of a trap per second, as \<open>float64\<close> has it, is below one third; the product with three seconds is rounded up to a whole token, so that a second trap
  passes three seconds behind the first, a little early.
\<close>

definition third :: real where
  "third = 6004799503160661 / 2 ^ 54"

lemma third_is_float64: "fl64 (1 / 3) = third"
proof -
  have "ceillog2 3 = 2" by code_simp
  then show ?thesis by (simp add: fl64_def f64_unit_def f64_exp_def round_even_def third_def power_int_minus)
qed

theorem source_rate_bounded_witness:
  "\<exists>s s'. intake_run [] (new_intake (trap_defaults [] [] third 1 0)) = Some s \<and> intake_run [demo_trap 0 0, demo_trap 0 3000000000] s = Some s' \<and>
     real (from_source (Addr4 0x0A000001) (it_accepted s')) - real (from_source (Addr4 0x0A000001) (it_accepted s)) = 2 \<and>
     1 + third * (real_of_int (3000000000 - 0) / 10 ^ 9) < 2 \<and> 2 \<le> 1 + third * (real_of_int (3000000000 - 0) / 10 ^ 9) + 2 * (max 1 1 / 2 ^ 49)"
proof -
  have up: "fl64 (3 * third) = 1" by (simp add: fl64_def f64_unit_def f64_exp_def round_even_def third_def power_int_minus)
  have pos: "0 < third" by (simp add: third_def)
  obtain s s' where s: "intake_run [] (new_intake (trap_defaults [] [] third 1 0)) = Some s" "intake_run [demo_trap 0 0, demo_trap 0 3000000000] s = Some s'"
      "from_source (Addr4 0x0A000001) (it_accepted s) = 0" "from_source (Addr4 0x0A000001) (it_accepted s') = 2"
    using pos by (simp add: demo_eval up from_source_def demo_decoded_def)
  have clock: "sorted (0 # run_times [] @ 0 # run_times [demo_trap 0 0, demo_trap 0 3000000000])"
    "last (0 # run_times [demo_trap 0 0, demo_trap 0 3000000000]) = 3000000000"
    "datagrams_of (Addr4 0x0A000001) [demo_trap 0 0, demo_trap 0 3000000000] = 2"
    by (simp_all add: run_times_def demo_trap_def datagrams_of_def)
  have "1 \<le> 10 ^ 9 * third" by (simp add: third_def)
  from source_rate_bounded [OF s(1,2) clock(1) _ _ this, of "Addr4 0x0A000001", unfolded clock(2,3)] pos s(3,4) show ?thesis
    by (intro exI [of _ s] exI [of _ s'] conjI s(1,2)) (simp_all add: third_def)
qed

text \<open>
  C19. The series names of a device are capped: among the samples published for one device, the trap label takes at most one value more than the cap,
  the extra one being \<open>other\<close>.
\<close>

theorem trap_names_capped:
  assumes "intake_run ops (new_intake (trap_defaults allow communities rate burst maxLabels)) = Some s"
  shows "card {n. \<exists>x. x \<in> set (it_samples s) \<and> sm_DeviceID x = d \<and> map_of (sm_Labels x) ''trap'' = Some n} \<le>
    Suc (if maxLabels \<le> 0 then 100 else nat maxLabels)"
proof -
  have "intake_names (new_intake (trap_defaults allow communities rate burst maxLabels))"
    by (simp add: intake_names_def names_ok_def known_names_def new_intake_def trap_defaults_def)
  from intake_run_names [OF assms this]
  have "names_ok (if maxLabels \<le> 0 then 100 else nat maxLabels) (ln_seen (it_listener s)) (it_samples s)"
    unfolding intake_names_def by (auto simp: new_intake_def trap_defaults_def)
  then show ?thesis by (rule names_ok_card)
qed

theorem trap_names_capped_witness:
  "\<exists>s. intake_run ([demo_trap 0 0, demo_trap 1 1000000000] @ [TakeQueued demo_writer, TakeQueued demo_writer, FlushTick demo_writer]) (new_intake (trap_defaults [] [] 1 9 1)) = Some s \<and>
     map (\<lambda>x. map_of (sm_Labels x) ''trap'') (it_samples s) = [Some ''linkDown'', Some ''other''] \<and>
     card {n. \<exists>x. x \<in> set (it_samples s) \<and> sm_DeviceID x = ''r1'' \<and> map_of (sm_Labels x) ''trap'' = Some n} \<le> 2"
proof -
  have "\<exists>bs st. intake_run [demo_trap 0 0, demo_trap 1 1000000000] (new_intake (trap_defaults [] [] 1 9 1)) =
      Some (demo_intake 1 9 (Suc 0) [demo_decoded 0 0, demo_decoded (Suc 0) 1000000000] bs st)"
    by (simp add: demo_eval) blast
  then obtain bs st where fill: "intake_run [demo_trap 0 0, demo_trap 1 1000000000] (new_intake (trap_defaults [] [] 1 9 1)) =
      Some (demo_intake 1 9 (Suc 0) [demo_decoded 0 0, demo_decoded (Suc 0) 1000000000] bs st)" by (elim exE)
  obtain s where s: "intake_run ([demo_trap 0 0, demo_trap 1 1000000000] @ [TakeQueued demo_writer, TakeQueued demo_writer, FlushTick demo_writer]) (new_intake (trap_defaults [] [] 1 9 1)) = Some s"
     "map (\<lambda>x. map_of (sm_Labels x) ''trap'') (it_samples s) = [Some ''linkDown'', Some ''other'']"
    using demo_write [of 1 9 0 1000000000 bs st] unfolding intake_run_append fill bind.bind_lunit by (elim exE conjE)
  from trap_names_capped [OF s(1), of "''r1''"] show ?thesis
    by (intro exI [of _ s] conjI s) simp
qed

subsection \<open>Two gaps\<close>

text \<open>
  An agent that numbers its ports freely makes a series for each number, under one trap name and whatever the cap is.
\<close>

theorem if_index_uncapped:
  "\<exists>ts. length ts = n \<and> list_all (\<lambda>t. tr_DeviceID t = ''r1'' \<and> Label t = ''linkDown'') ts \<and>
     card (set (map sm_Labels (fst (trap_samples cap ts seen)))) = n"
proof -
  define port :: "nat \<Rightarrow> Trap" where "port i = \<lparr>tr_At = 0, tr_Source = AddrZero, tr_Agent = None, tr_Version = ''2c'', tr_Inform = False, tr_TrapOID = [],
    tr_Name = ''linkDown'', tr_IfIndex = replicate (Suc i) (CHR ''1''), tr_Varbinds = [], tr_DeviceID = ''r1'', tr_packet = demo_packet PduV2Trap 0\<rparr>" for i
  let ?ts = "map port [0..<n]" let ?ls = "map sm_Labels (fst (trap_samples cap ?ts seen))"
  have series: "map (\<lambda>l. map_of l ''if_index'') ?ls = map (Some \<circ> tr_IfIndex) ?ts"
    using sample_series_free [of ?ts cap seen] by (simp add: port_def comp_def)
  have "inj_on (\<lambda>i. replicate (Suc i) (CHR ''1'')) {0..<n}" by (auto intro!: inj_onI dest: arg_cong [where f = length])
  then have "distinct (map (Some \<circ> tr_IfIndex) ?ts)" by (simp add: port_def comp_def distinct_map inj_on_def)
  then have "distinct ?ls" using series distinct_map by metis
  moreover have "length ?ls = n" using arg_cong [OF series, of length] by simp
  ultimately have "card (set ?ls) = n" using distinct_card by metis
  moreover have "list_all (\<lambda>t. tr_DeviceID t = ''r1'' \<and> Label t = ''linkDown'') ?ts" by (simp add: list_all_iff port_def Label_def)
  ultimately show ?thesis by (intro exI [of _ ?ts]) simp
qed

text \<open>
  A socket's read that is under way when the context is cancelled may still deliver a datagram. Behind the writer's last round its trap is queued, and an inform
  acknowledged, but nothing that can follow stores it.
\<close>

theorem late_traps_lost:
  assumes "it_writer s = Returned" "serve_datagram env b src recv s = Some (ack, s1)" "intake_run ops s1 = Some s'"
  shows "it_stored s' = it_stored s \<and> it_written s' = it_written s \<and> prefix (ln_queue (it_listener s1)) (ln_queue (it_listener s'))"
  using assms late_step [of s "Datagram env b src recv" s1] late_run [of s1 ops s'] by (auto simp: intake_step_def)

theorem late_inform_acknowledged:
  "\<exists>s s1. intake_run [Cancelled, DrainQueued demo_writer] (new_intake (trap_defaults [] [] 1 9 1)) = Some s \<and>
     serve_datagram demo_trap_env [0x30, 0x05, 0x02, 0x01, 0x01, 0, 0] (Addr4 0x0A000001) 5 s = Some (Some [0x30], s1) \<and>
     length (it_accepted s1) = 1 \<and> it_stored s1 = [] \<and> it_writer s1 = Returned"
proof -
  have "PeekVersion [0x30, 0x05, 0x02, 0x01, 0x01, 0, 0] = Some 1" by (simp add: PeekVersion_def idx_def)
  then obtain t where t: "Decode demo_codec [0x30, 0x05, 0x02, 0x01, 0x01, 0, 0] (Addr4 0x0A000001) 5 = Some (Inr (t, ''public''))" "tr_Inform t"
    by (simp add: Decode_def demo_codec_def demo_packet_def start_trap_def put_variable_def TrimPrefix_def)
  have "intake_run [Cancelled, DrainQueued demo_writer] (new_intake (trap_defaults [] [] 1 9 1)) = Some ((new_intake (trap_defaults [] [] 1 9 1))\<lparr>it_writer := Returned\<rparr>)"
    by (simp add: intake_step_def drain_queued_def flush_traps_def new_intake_def trap_defaults_def)
  with t show ?thesis
    by (auto simp: serve_datagram_def trap_Handle_def demo_trap_env_def demo_codec_def [symmetric] source_allowed_def new_intake_def trap_defaults_def
        limiter_allow_def Ack_trap_def queueCap_def Let_def) (simp_all add: demo_codec_def)
qed

end
