(* ===== verification/Generic_Connector.thy ===== *)
theory Generic_Connector
  imports Poller_Runtime Go_Float
begin

text \<open>
  The generic SNMP connector (\<open>connectors/generic\<close>, helpers of \<open>connectors/sdk/walk.go\<close>): what it asks of an agent and how it turns the
  answers into samples and inventory records.

  The agent is a parameter: a walk of a subtree, which may return what it got along with an error, and a GET, whose answer may depend on the requests made before. Numbers
  are exact and are rounded to \<open>float64\<close> (a parameter) when they become samples; conversions back to integers are those of
  \<open>int64\<close>, which wraps. A Go map is an association list in the order of insertion; where the code ranges over a map, the order only
  affects the order of samples of one column.
\<close>

subsection \<open>Agents and values\<close>

text \<open>The types \<open>toFloat\<close> accepts are \<open>AnyInt\<close> and \<open>AnyFloat\<close>; the latter and \<open>AnyOther\<close> carry the text \<open>fmt.Sprintf\<close> makes of them.\<close>

datatype snmp_any = AnyInt int | AnyFloat real string | AnyString string | AnyBytes bytes | AnyOther string

record SnmpVar =
  va_OID :: string
  va_Value :: snmp_any

record agent =
  ag_Get :: "string list list \<Rightarrow> string list \<Rightarrow> goerr + SnmpVar list"
  ag_Walk :: "string \<Rightarrow> SnmpVar list \<times> goerr option"
  ag_f64 :: "real \<Rightarrow> float64"
  ag_ParseFloat :: "string \<Rightarrow> float64 option"
  ag_now :: gotime

fun toFloat :: "snmp_any \<Rightarrow> real option" where
  "toFloat (AnyInt x) = Some (real_of_int x)"
| "toFloat (AnyFloat x s) = Some x"
| "toFloat _ = None"

fun toString :: "snmp_any \<Rightarrow> string" where
  "toString (AnyString s) = s"
| "toString (AnyBytes b) = map byte_char b"
| "toString (AnyInt x) = int_str x"
| "toString (AnyFloat x s) = s"
| "toString (AnyOther s) = s"

text \<open>\<open>Num\<close> of the SDK is \<open>toFloat\<close> once more.\<close>

definition Num :: "snmp_any \<Rightarrow> real option" where
  "Num v = toFloat v"

definition CutPrefix :: "string \<Rightarrow> string \<Rightarrow> string option" where
  "CutPrefix p s = (if take (length p) s = p then Some (drop (length p) s) else None)"

text \<open>\<open>strconv.Atoi\<close>: an optional sign, digits, the range of \<open>int64\<close>.\<close>

definition Atoi :: "string \<Rightarrow> int option" where
  "Atoi s = (let neg = (s \<noteq> [] \<and> hd s = CHR ''-''); signed = (s \<noteq> [] \<and> (hd s = CHR ''-'' \<or> hd s = CHR ''+''));
       ds = (if signed then tl s else s); v = (if neg then - int (str_nat ds) else int (str_nat ds))
     in if ds = [] \<or> \<not> list_all is_digit ds \<or> v < - (2 ^ 63) \<or> 2 ^ 63 \<le> v then None else Some v)"

definition WalkColumn :: "agent \<Rightarrow> string \<Rightarrow> (string \<times> SnmpVar) list" where
  "WalkColumn ag column = (case ag_Walk ag column of (vars, Some e) \<Rightarrow> []
     | (vars, None) \<Rightarrow> List.map_filter (\<lambda>v. map_option (\<lambda>idx. (idx, v)) (CutPrefix (column @ ''.'') (va_OID v))) vars)"

definition GaugeSample :: "agent \<Rightarrow> string \<Rightarrow> (string, string) gomap \<Rightarrow> float64 \<Rightarrow> SdkSample" where
  "GaugeSample ag name labels v = \<lparr>sd_Name = name, sd_Labels = labels, sd_Value = v, sd_At = ag_now ag\<rparr>"

definition oidIfTable :: string where "oidIfTable = ''.1.3.6.1.2.1.2.2.1''"

definition oidIfXTable :: string where "oidIfXTable = ''.1.3.6.1.2.1.31.1.1.1''"

definition splitCol :: "string \<Rightarrow> string \<Rightarrow> (int \<times> int) option" where
  "splitCol oid table = (case CutPrefix (table @ ''.'') oid of None \<Rightarrow> None
     | Some rest \<Rightarrow>
         if CHR ''.'' \<notin> set rest then None
         else case (Atoi (takeWhile (\<lambda>c. c \<noteq> CHR ''.'') rest), Atoi (tl (dropWhile (\<lambda>c. c \<noteq> CHR ''.'') rest))) of
             (Some c, Some i) \<Rightarrow> Some (c, i) | _ \<Rightarrow> None)"

subsection \<open>Traffic\<close>

record colMap =
  cm_table :: string
  cm_column :: int
  cm_metric :: string
  cm_hc :: bool

definition col :: "string \<Rightarrow> int \<Rightarrow> string \<Rightarrow> bool \<Rightarrow> colMap" where
  "col t c m h = \<lparr>cm_table = t, cm_column = c, cm_metric = m, cm_hc = h\<rparr>"

definition trafficCols :: "colMap list" where
  "trafficCols =
     [col oidIfXTable 6 ''netinv_if_in_octets_total'' True, col oidIfXTable 10 ''netinv_if_out_octets_total'' True,
      col oidIfTable 10 ''netinv_if_in_octets_total'' False, col oidIfTable 16 ''netinv_if_out_octets_total'' False,
      col oidIfXTable 7 ''netinv_if_in_ucast_pkts_total'' True, col oidIfXTable 11 ''netinv_if_out_ucast_pkts_total'' True,
      col oidIfTable 14 ''netinv_if_in_errors_total'' False, col oidIfTable 20 ''netinv_if_out_errors_total'' False,
      col oidIfTable 13 ''netinv_if_in_discards_total'' False, col oidIfTable 19 ''netinv_if_out_discards_total'' False,
      col oidIfTable 7 ''netinv_if_admin_status'' False, col oidIfTable 8 ''netinv_if_oper_status'' False]"

definition col_prefix :: "colMap \<Rightarrow> string" where
  "col_prefix cm = cm_table cm @ ''.'' @ int_str (cm_column cm) @ ''.''"

type_synonym snmp_table = "(string, SnmpVar) gomap"

text \<open>The answers of a walk by their OID; a later one replaces an earlier one.\<close>

definition walk_map :: "SnmpVar list \<Rightarrow> snmp_table" where
  "walk_map vars = foldl (\<lambda>m v. AList.update (va_OID v) v m) [] vars"

text \<open>
  The samples so far and the pairs of metric and interface an HC column has provided. One answer of a column adds a sample, unless the
  wider column already has.
\<close>

record traffic =
  tf_hcSeen :: "string list"
  tf_samples :: "SdkSample list"

definition metric_key :: "colMap \<Rightarrow> string \<Rightarrow> string" where
  "metric_key cm ifIndex = cm_metric cm @ ''/'' @ ifIndex"

definition if_sample :: "agent \<Rightarrow> string \<Rightarrow> string \<Rightarrow> real \<Rightarrow> SdkSample" where
  "if_sample ag name ifIndex v = \<lparr>sd_Name = name, sd_Labels = [(''if_index'', ifIndex)], sd_Value = ag_f64 ag v, sd_At = ag_now ag\<rparr>"

definition take_value :: "agent \<Rightarrow> colMap \<Rightarrow> string \<Rightarrow> snmp_any \<Rightarrow> traffic \<Rightarrow> traffic" where
  "take_value ag cm oid v t = (case CutPrefix (col_prefix cm) oid of None \<Rightarrow> t
     | Some ifIndex \<Rightarrow>
         let key = metric_key cm ifIndex in
         if key \<in> set (tf_hcSeen t) \<and> \<not> cm_hc cm then t
         else case toFloat v of None \<Rightarrow> t
           | Some val \<Rightarrow> \<lparr>tf_hcSeen = (if cm_hc cm then List.insert key (tf_hcSeen t) else tf_hcSeen t), tf_samples = tf_samples t @ [if_sample ag (cm_metric cm) ifIndex val]\<rparr>)"

definition pick :: "snmp_table \<Rightarrow> snmp_table \<Rightarrow> string \<Rightarrow> snmp_table" where
  "pick ifT ifX table = (if table = oidIfXTable then ifX else ifT)"

definition collect_column :: "agent \<Rightarrow> snmp_table \<Rightarrow> colMap \<Rightarrow> traffic \<Rightarrow> traffic" where
  "collect_column ag have_vars cm t = foldl (\<lambda>t e. take_value ag cm (fst e) (va_Value (snd e)) t) t have_vars"

subsection \<open>Repair of partial walks\<close>

definition probeBatch :: nat where "probeBatch = 24"

definition maxProbeVarbinds :: nat where "maxProbeVarbinds = 600"

text \<open>The interfaces the agent named anywhere in the first table, in numerical order.\<close>

definition named_indexes :: "snmp_table \<Rightarrow> string list" where
  "named_indexes ifT = map int_str (sort (remdups (List.map_filter (\<lambda>e. map_option snd (splitCol (fst e) oidIfTable)) ifT)))"

record repair =
  rp_budget :: nat
  rp_repaired :: nat
  rp_traffic :: traffic
  rp_asked :: "string list list"

text \<open>One variable of an answer; it counts as repaired when it adds a sample.\<close>

definition repair_value :: "agent \<Rightarrow> colMap \<Rightarrow> repair \<Rightarrow> SnmpVar \<Rightarrow> repair" where
  "repair_value ag cm r v =
     (let t = take_value ag cm (va_OID v) (va_Value v) (rp_traffic r) in
      r\<lparr>rp_repaired := rp_repaired r + (if length (tf_samples t) = length (tf_samples (rp_traffic r)) then 0 else 1), rp_traffic := t\<rparr>)"

function probe_missing :: "agent \<Rightarrow> colMap \<Rightarrow> string list \<Rightarrow> repair \<Rightarrow> repair" where
  "probe_missing ag cm missing r =
     (if missing = [] \<or> rp_budget r = 0 then r
      else
        let chunk = take (rp_budget r) (take probeBatch missing);
            r' = r\<lparr>rp_budget := rp_budget r - length chunk, rp_asked := rp_asked r @ [chunk]\<rparr>
        in case ag_Get ag (rp_asked r) chunk of Inl e \<Rightarrow> r'
           | Inr vars \<Rightarrow> probe_missing ag cm (drop probeBatch missing) (foldl (repair_value ag cm) r' vars))"
  by pat_completeness auto
termination
  by (relation "measure (\<lambda>(ag, cm, missing, r). length missing)") (auto simp: probeBatch_def)

declare probe_missing.simps [simp del]

definition missing_oids :: "colMap \<Rightarrow> string list \<Rightarrow> snmp_table \<Rightarrow> string list \<Rightarrow> string list" where
  "missing_oids cm idxs have_vars hc =
     map (\<lambda>i. col_prefix cm @ i) (filter (\<lambda>i. map_of have_vars (col_prefix cm @ i) = None \<and> \<not> (metric_key cm i \<in> set hc \<and> \<not> cm_hc cm)) idxs)"

definition column_size :: "colMap \<Rightarrow> snmp_table \<Rightarrow> nat" where
  "column_size cm have_vars = length (filter (\<lambda>e. CutPrefix (col_prefix cm) (fst e) \<noteq> None) have_vars)"

definition repair_column :: "agent \<Rightarrow> string list \<Rightarrow> (string \<Rightarrow> snmp_table) \<Rightarrow> repair \<Rightarrow> colMap \<Rightarrow> repair" where
  "repair_column ag idxs pck r cm =
     (let have_vars = pck (cm_table cm) in
      if rp_budget r = 0 \<or> column_size cm have_vars = 0 \<or> length idxs \<le> column_size cm have_vars then r
      else probe_missing ag cm (missing_oids cm idxs have_vars (tf_hcSeen (rp_traffic r))) r)"

definition fillCounterGaps :: "agent \<Rightarrow> snmp_table \<Rightarrow> (string \<Rightarrow> snmp_table) \<Rightarrow> traffic \<Rightarrow> repair" where
  "fillCounterGaps ag ifT pck t =
     (let idxs = named_indexes ifT; r = \<lparr>rp_budget = maxProbeVarbinds, rp_repaired = 0, rp_traffic = t, rp_asked = []\<rparr>
      in if idxs = [] then r else foldl (repair_column ag idxs pck) r trafficCols)"

subsection \<open>Speed\<close>

definition put_speeds :: "string \<Rightarrow> real \<Rightarrow> snmp_table \<Rightarrow> (string, real) gomap \<Rightarrow> (string, real) gomap" where
  "put_speeds pfx factor vars speed =
     foldl (\<lambda>m e. case (CutPrefix pfx (fst e), toFloat (va_Value (snd e))) of
         (Some i, Some v) \<Rightarrow> if 0 < v then AList.update i (v * factor) m else m | _ \<Rightarrow> m) speed vars"

definition if_speeds :: "snmp_table \<Rightarrow> snmp_table \<Rightarrow> (string, real) gomap" where
  "if_speeds ifT ifX = put_speeds (oidIfXTable @ ''.15.'') 1000000 ifX (put_speeds (oidIfTable @ ''.5.'') 1 ifT [])"

text \<open>The samples of a poll, with the requests its repair made.\<close>

definition CollectInterfaces :: "agent \<Rightarrow> (goerr + SdkSample list) \<times> string list list" where
  "CollectInterfaces ag = (case ag_Walk ag oidIfTable of
     (tvars, Some e) \<Rightarrow> (Inl (ErrMsg ''generic: ifTable walk'' e), [])
   | (tvars, None) \<Rightarrow>
       let ifT = walk_map tvars; ifX = (case ag_Walk ag oidIfXTable of (xvars, Some e) \<Rightarrow> [] | (xvars, None) \<Rightarrow> walk_map xvars);
           t = foldl (\<lambda>t cm. collect_column ag (pick ifT ifX (cm_table cm)) cm t) \<lparr>tf_hcSeen = [], tf_samples = []\<rparr> trafficCols;
           r = fillCounterGaps ag ifT (pick ifT ifX) t
       in (Inr (tf_samples (rp_traffic r) @ [\<lparr>sd_Name = ''netinv_if_counters_repaired'', sd_Labels = [], sd_Value = ag_f64 ag (real (rp_repaired r)), sd_At = ag_now ag\<rparr>] @
            map (\<lambda>(i, v). if_sample ag ''netinv_if_speed_bps'' i v) (if_speeds ifT ifX)),
           rp_asked r))"

subsection \<open>Inventory\<close>

definition new_record :: "int \<Rightarrow> InterfaceRecord" where
  "new_record i = \<lparr>ir_IfIndex = i, ir_Name = [], ir_Alias = [], ir_Descr = [], ir_IfType = 0, ir_MTU = 0, ir_SpeedBPS = 0, ir_PhysAddress = [], ir_AdminStatus = 0, ir_OperStatus = 0\<rparr>"

text \<open>The record of an index, made when it is first asked for, and changed.\<close>

definition with_rec :: "int \<Rightarrow> (InterfaceRecord \<Rightarrow> InterfaceRecord) \<Rightarrow> (int, InterfaceRecord) gomap \<Rightarrow> (int, InterfaceRecord) gomap" where
  "with_rec i f m = AList.update i (f (case map_of m i of Some r \<Rightarrow> r | None \<Rightarrow> new_record i)) m"

definition num_or :: "int \<Rightarrow> snmp_any \<Rightarrow> int" where
  "num_or old v = (case toFloat v of Some f \<Rightarrow> f64_int64 f | None \<Rightarrow> old)"

definition put_ifTable :: "(int, InterfaceRecord) gomap \<Rightarrow> SnmpVar \<Rightarrow> (int, InterfaceRecord) gomap" where
  "put_ifTable m v = (case splitCol (va_OID v) oidIfTable of None \<Rightarrow> m
     | Some (c, i) \<Rightarrow> with_rec i (\<lambda>r.
         if c = 2 then r\<lparr>ir_Descr := toString (va_Value v)\<rparr>
         else if c = 3 then r\<lparr>ir_IfType := num_or (ir_IfType r) (va_Value v)\<rparr>
         else if c = 4 then r\<lparr>ir_MTU := num_or (ir_MTU r) (va_Value v)\<rparr>
         else if c = 5 then r\<lparr>ir_SpeedBPS := num_or (ir_SpeedBPS r) (va_Value v)\<rparr>
         else if c = 7 then r\<lparr>ir_AdminStatus := num_or (ir_AdminStatus r) (va_Value v)\<rparr>
         else if c = 8 then r\<lparr>ir_OperStatus := num_or (ir_OperStatus r) (va_Value v)\<rparr>
         else r) m)"

definition put_ifXTable :: "(int, InterfaceRecord) gomap \<Rightarrow> SnmpVar \<Rightarrow> (int, InterfaceRecord) gomap" where
  "put_ifXTable m v = (case splitCol (va_OID v) oidIfXTable of None \<Rightarrow> m
     | Some (c, i) \<Rightarrow> with_rec i (\<lambda>r.
         if c = 1 then r\<lparr>ir_Name := toString (va_Value v)\<rparr>
         else if c = 15 then (case toFloat (va_Value v) of Some f \<Rightarrow> if 0 < f then r\<lparr>ir_SpeedBPS := wrap_int64 (f64_int64 f * 1000000)\<rparr> else r | None \<Rightarrow> r)
         else if c = 18 then r\<lparr>ir_Alias := toString (va_Value v)\<rparr>
         else r) m)"

definition name_record :: "InterfaceRecord \<Rightarrow> InterfaceRecord" where
  "name_record r = (if ir_Name r = [] then r\<lparr>ir_Name := ir_Descr r\<rparr> else r)"

definition sys_group :: "string list" where
  "sys_group = [''.1.3.6.1.2.1.1.5.0'', ''.1.3.6.1.2.1.1.1.0'', ''.1.3.6.1.2.1.1.2.0'', ''.1.3.6.1.2.1.1.6.0'', ''.1.3.6.1.2.1.1.4.0'', ''.1.3.6.1.2.1.1.3.0'']"

definition put_sys :: "InventorySnapshot \<Rightarrow> SnmpVar \<Rightarrow> InventorySnapshot" where
  "put_sys snap v = (let sv = toString (va_Value v); oid = va_OID v in
     if oid = ''.1.3.6.1.2.1.1.5.0'' then snap\<lparr>iv_SysName := sv\<rparr>
     else if oid = ''.1.3.6.1.2.1.1.1.0'' then snap\<lparr>iv_SysDescr := sv\<rparr>
     else if oid = ''.1.3.6.1.2.1.1.2.0'' then snap\<lparr>iv_SysObjectID := sv\<rparr>
     else if oid = ''.1.3.6.1.2.1.1.6.0'' then snap\<lparr>iv_SysLocation := sv\<rparr>
     else if oid = ''.1.3.6.1.2.1.1.4.0'' then snap\<lparr>iv_SysContact := sv\<rparr>
     else if oid = ''.1.3.6.1.2.1.1.3.0'' then (case toFloat (va_Value v) of Some f \<Rightarrow> snap\<lparr>iv_UptimeS := f64_int64 (f / 100)\<rparr> | None \<Rightarrow> snap)
     else snap)"

definition empty_snapshot :: InventorySnapshot where
  "empty_snapshot = \<lparr>iv_SysName = [], iv_SysDescr = [], iv_SysObjectID = [], iv_SysLocation = [], iv_SysContact = [], iv_UptimeS = 0, iv_Vendor = [], iv_Model = [],
     iv_Serial = [], iv_OSVersion = [], iv_Interfaces = []\<rparr>"

definition CollectInventory :: "agent \<Rightarrow> goerr + InventorySnapshot" where
  "CollectInventory ag = (case ag_Get ag [] sys_group of Inl e \<Rightarrow> Inl (ErrMsg ''generic: system group'' e)
     | Inr vars \<Rightarrow> (case ag_Walk ag oidIfTable of (tvars, Some e) \<Rightarrow> Inl (ErrMsg ''generic: ifTable walk'' e)
        | (tvars, None) \<Rightarrow>
            let m = foldl put_ifTable [] tvars; m = foldl put_ifXTable m (fst (ag_Walk ag oidIfXTable))
            in Inr ((foldl put_sys empty_snapshot vars)\<lparr>iv_Interfaces := map (name_record \<circ> snd) m\<rparr>)))"

subsection \<open>Neighbours\<close>

definition oidLldpRemTable :: string where "oidLldpRemTable = ''.1.0.8802.1.1.2.1.4.1.1''"

text \<open>A number that cannot be read is 0; one beyond the range of \<open>int64\<close>, which no OID has, is not told apart from it.\<close>

definition atoi0 :: "string \<Rightarrow> int" where
  "atoi0 s = (case Atoi s of Some i \<Rightarrow> i | None \<Rightarrow> 0)"

definition put_neighbour :: "(int \<times> int, Adjacency) gomap \<Rightarrow> SnmpVar \<Rightarrow> (int \<times> int, Adjacency) gomap" where
  "put_neighbour m v = (case CutPrefix (oidLldpRemTable @ ''.'') (va_OID v) of None \<Rightarrow> m
     | Some rest \<Rightarrow> (case split_on (CHR ''.'') [] rest of
         [c, mark, p, n] \<Rightarrow>
           let k = (atoi0 p, atoi0 n); s = toString (va_Value v);
               a = (case map_of m k of Some a \<Rightarrow> a
                 | None \<Rightarrow> \<lparr>aj_LocalIfIndex = fst k, aj_RemoteSysName = [], aj_RemotePortID = [], aj_RemoteChassis = [], aj_Protocol = ''lldp''\<rparr>)
           in if atoi0 c = 5 then AList.update k (a\<lparr>aj_RemoteChassis := s\<rparr>) m
              else if atoi0 c = 7 then AList.update k (a\<lparr>aj_RemotePortID := s\<rparr>) m
              else if atoi0 c = 9 then AList.update k (a\<lparr>aj_RemoteSysName := s\<rparr>) m
              else m
       | _ \<Rightarrow> m))"

definition CollectTopology :: "agent \<Rightarrow> goerr + Adjacency list" where
  "CollectTopology ag = (case ag_Walk ag oidLldpRemTable of (vars, Some e) \<Rightarrow> Inr [] | (vars, None) \<Rightarrow> Inr (map snd (foldl put_neighbour [] vars)))"

subsection \<open>Health\<close>

definition health_scalars :: "string list" where
  "health_scalars = [''.1.3.6.1.4.1.2021.4.5.0'', ''.1.3.6.1.4.1.2021.4.6.0'', ''.1.3.6.1.4.1.2021.4.14.0'', ''.1.3.6.1.4.1.2021.4.15.0'', ''.1.3.6.1.4.1.2021.11.11.0'']"

definition trim_dot :: "string \<Rightarrow> string" where
  "trim_dot s = (case CutPrefix ''.'' s of Some r \<Rightarrow> r | None \<Rightarrow> s)"

definition scalar_values :: "SnmpVar list \<Rightarrow> (string, real) gomap" where
  "scalar_values vars = foldl (\<lambda>m v. case Num (va_Value v) of Some f \<Rightarrow> AList.update (trim_dot (va_OID v)) f m | None \<Rightarrow> m) [] vars"

text \<open>Memory in use leaves out buffers and page cache, unless what is left is negative.\<close>

definition memory_used :: "real \<Rightarrow> real \<Rightarrow> real \<Rightarrow> real \<Rightarrow> real" where
  "memory_used all free buffers cached = (if all - free - buffers - cached < 0 then all - free else all - free - buffers - cached)"

definition memory_samples :: "agent \<Rightarrow> (string, real) gomap \<Rightarrow> SdkSample list" where
  "memory_samples ag vals = (let get = (\<lambda>oid. map_of vals (trim_dot oid)); or0 = (\<lambda>x. case x of Some f \<Rightarrow> f | None \<Rightarrow> 0) in
     case get ''.1.3.6.1.4.1.2021.4.5.0'' of
       Some all \<Rightarrow> if 0 < all then
           (let used = memory_used all (or0 (get ''.1.3.6.1.4.1.2021.4.6.0'')) (or0 (get ''.1.3.6.1.4.1.2021.4.14.0'')) (or0 (get ''.1.3.6.1.4.1.2021.4.15.0'')) in
            [GaugeSample ag ''netinv_device_memory_total_bytes'' [] (ag_f64 ag (all * 1024)), GaugeSample ag ''netinv_device_memory_used_bytes'' [] (ag_f64 ag (used * 1024)),
             GaugeSample ag ''netinv_device_memory_percent'' [] (ag_f64 ag (100 * used / all))])
         else []
     | None \<Rightarrow> [])"

definition load_periods :: "(string \<times> string) list" where
  "load_periods = [(''1'', ''1m''), (''2'', ''5m''), (''3'', ''15m'')]"

definition load_samples :: "agent \<Rightarrow> SdkSample list" where
  "load_samples ag = List.map_filter (\<lambda>(i, v). case map_of load_periods i of None \<Rightarrow> None
       | Some p \<Rightarrow> (case ag_ParseFloat ag (TrimSpace (toString (va_Value v))) of Some f \<Rightarrow> Some (GaugeSample ag ''netinv_device_load_average'' [(''period'', p)] f) | None \<Rightarrow> None))
     (WalkColumn ag ''.1.3.6.1.4.1.2021.10.1.3'')"

definition sensor_names :: "agent \<Rightarrow> (string, string) gomap" where
  "sensor_names ag = foldl (\<lambda>m (i, v). let n = toString (va_Value v) in if n \<noteq> [] \<and> length n \<le> 40 then AList.update i n m else m) [] (WalkColumn ag ''.1.3.6.1.4.1.2021.13.16.2.1.2'')"

definition temperature_samples :: "agent \<Rightarrow> SdkSample list" where
  "temperature_samples ag = List.map_filter (\<lambda>(i, v). case Num (va_Value v) of None \<Rightarrow> None
       | Some f \<Rightarrow> if f \<le> 0 \<or> 200000 < f then None
           else Some (GaugeSample ag ''netinv_sensor_temperature_celsius''
             [(''sensor'', case map_of (sensor_names ag) i of Some n \<Rightarrow> if n = [] then i else n | None \<Rightarrow> i)] (ag_f64 ag (f / 1000))))
     (WalkColumn ag ''.1.3.6.1.4.1.2021.13.16.2.1.3'')"

definition CollectHealth :: "agent \<Rightarrow> goerr + SdkSample list" where
  "CollectHealth ag =
     (let vals = scalar_values (case ag_Get ag [] health_scalars of Inl e \<Rightarrow> [] | Inr vars \<Rightarrow> vars) in
      Inr ((case map_of vals (trim_dot ''.1.3.6.1.4.1.2021.11.11.0'') of Some idle \<Rightarrow> [GaugeSample ag ''netinv_device_cpu_percent'' [] (ag_f64 ag (100 - idle))] | None \<Rightarrow> []) @
        memory_samples ag vals @ load_samples ag @ temperature_samples ag))"

text \<open>The connector as the poller sees it, over whatever agent a session reaches.\<close>

definition generic_Base :: "(SNMPSession \<Rightarrow> agent) \<Rightarrow> connector" where
  "generic_Base reach = \<lparr>cn_CollectInterfaces = Some (\<lambda>s. fst (CollectInterfaces (reach s))), cn_CollectHealth = Some (\<lambda>s. CollectHealth (reach s)),
     cn_CollectInventory = Some (\<lambda>s. CollectInventory (reach s)), cn_CollectTopology = Some (\<lambda>s. CollectTopology (reach s))\<rparr>"

end
