(* ===== verification/Generic_Polls.thy ===== *)
theory Generic_Polls
  imports Generic_Connector
begin

text \<open>
  What a poll with the generic connector delivers: one sample per series as long as the walks were whole, every value that was walked, a bounded
  number of repair requests and none for a healthy agent, and inventory records with distinct indexes. A partial walk of the 64-bit columns
  makes two samples of one series.
\<close>

subsection \<open>One column\<close>

lemma CutPrefix_append [simp]: "CutPrefix p (p @ r) = Some r"
  by (simp add: CutPrefix_def)

lemma CutPrefix_SomeD: "CutPrefix p s = Some r \<Longrightarrow> s = p @ r"
  by (auto simp: CutPrefix_def split: if_splits) (metis append_take_drop_id)

definition column_values :: "colMap \<Rightarrow> string list \<Rightarrow> snmp_table \<Rightarrow> (string \<times> real) list" where
  "column_values cm hc vars = List.map_filter (\<lambda>(oid, v). case CutPrefix (col_prefix cm) oid of None \<Rightarrow> None
     | Some i \<Rightarrow> if metric_key cm i \<in> set hc \<and> \<not> cm_hc cm then None else map_option (Pair i) (toFloat (va_Value v))) vars"

lemma column_values_Cons:
  "column_values cm hc ((oid, v) # vars) = (case CutPrefix (col_prefix cm) oid of None \<Rightarrow> []
     | Some i \<Rightarrow> if metric_key cm i \<in> set hc \<and> \<not> cm_hc cm then [] else (case toFloat (va_Value v) of None \<Rightarrow> [] | Some x \<Rightarrow> [(i, x)])) @ column_values cm hc vars"
  by (cases "CutPrefix (col_prefix cm) oid"; cases "toFloat (va_Value v)") (simp_all add: column_values_def List.map_filter_def)

lemma column_values_hc: "cm_hc cm \<Longrightarrow> column_values cm hc vars = column_values cm [] vars"
  by (simp add: column_values_def cong: option.case_cong)

lemma in_column_values:
  "(i, x) \<in> set (column_values cm hc vars) \<longleftrightarrow> (\<exists>v. (col_prefix cm @ i, v) \<in> set vars \<and> toFloat (va_Value v) = Some x) \<and> (metric_key cm i \<in> set hc \<longrightarrow> cm_hc cm)"
proof (induction vars)
  case Nil
  then show ?case by (simp add: column_values_def List.map_filter_def)
next
  case (Cons e vars)
  obtain oid v where e: "e = (oid, v)" by force
  show ?case
  proof (cases "CutPrefix (col_prefix cm) oid")
    case None
    then have "oid \<noteq> col_prefix cm @ i" by auto
    with None Cons.IH show ?thesis by (auto simp: e column_values_Cons)
  next
    case (Some j)
    then have "oid = col_prefix cm @ j" by (rule CutPrefix_SomeD)
    with Cons.IH show ?thesis by (cases "toFloat (va_Value v)") (auto simp: e column_values_Cons)
  qed
qed

lemma column_values_distinct:
  assumes "gm_ok vars"
  shows "distinct (map fst (column_values cm hc vars))"
  using assms
proof (induction vars)
  case Nil
  then show ?case by (simp add: column_values_def List.map_filter_def)
next
  case (Cons e vars)
  obtain oid v where e: "e = (oid, v)" by force
  have "(i, x) \<notin> set (column_values cm hc vars)" if "oid = col_prefix cm @ i" for i x
    using that Cons.prems e by (force simp: in_column_values)
  with Cons e show ?case unfolding e column_values_Cons by (auto dest: CutPrefix_SomeD split: option.splits)
qed

text \<open>A column in closed form: the samples of its values, and their keys if it is a wide one.\<close>

definition column_samples :: "agent \<Rightarrow> colMap \<Rightarrow> (string \<times> real) list \<Rightarrow> SdkSample list" where
  "column_samples ag cm vals = map (\<lambda>(i, x). if_sample ag (cm_metric cm) i x) vals"

lemma collect_column_closed:
  "tf_samples (collect_column ag vars cm t) = tf_samples t @ column_samples ag cm (column_values cm (tf_hcSeen t) vars) \<and>
   set (tf_hcSeen (collect_column ag vars cm t)) = set (tf_hcSeen t) \<union> (if cm_hc cm then metric_key cm ` fst ` set (column_values cm (tf_hcSeen t) vars) else {})"
proof (induction vars arbitrary: t)
  case Nil
  then show ?case by (simp add: collect_column_def column_values_def column_samples_def List.map_filter_def)
next
  case (Cons e vars)
  obtain oid v where e: "e = (oid, v)" by force
  define t1 where "t1 = take_value ag cm oid (va_Value v) t"
  have rest: "collect_column ag (e # vars) cm t = collect_column ag vars cm t1" by (simp add: collect_column_def t1_def e)
  have same: "column_values cm (tf_hcSeen t1) vars = column_values cm (tf_hcSeen t) vars"
  proof (cases "cm_hc cm")
    case True
    then show ?thesis by (metis column_values_hc)
  next
    case False
    then have "tf_hcSeen t1 = tf_hcSeen t" by (simp add: t1_def take_value_def Let_def split: option.splits)
    then show ?thesis by simp
  qed
  show ?case unfolding rest using Cons.IH [of t1] unfolding same unfolding e column_values_Cons
    by (auto simp: t1_def take_value_def Let_def column_samples_def split: option.splits if_splits)
qed

subsection \<open>All columns\<close>

definition series :: "SdkSample \<Rightarrow> string \<times> (string, string) gomap" where
  "series x = (sd_Name x, sd_Labels x)"

lemma series_if_sample [simp]: "series (if_sample ag m i v) = (m, [(''if_index'', i)])"
  by (simp add: series_def if_sample_def)

text \<open>Of several columns with one metric the last is the narrow one.\<close>

fun cols_ok :: "colMap list \<Rightarrow> colMap list \<Rightarrow> bool" where
  "cols_ok seen [] = True"
| "cols_ok seen (cm # cms) = (list_all (\<lambda>c. cm_metric c = cm_metric cm \<longrightarrow> cm_hc c \<and> \<not> cm_hc cm) seen \<and> CHR ''/'' \<notin> set (cm_metric cm) \<and> cols_ok (cm # seen) cms)"

lemma trafficCols_ok: "cols_ok [] trafficCols"
  by (simp add: trafficCols_def col_def)

text \<open>What the columns seen so far have left behind.\<close>

definition traffic_ok :: "colMap list \<Rightarrow> traffic \<Rightarrow> bool" where
  "traffic_ok done_cols t \<longleftrightarrow> distinct (map series (tf_samples t)) \<and>
     (\<forall>x \<in> set (tf_samples t). \<exists>c \<in> set done_cols. \<exists>i. series x = (cm_metric c, [(''if_index'', i)]) \<and> (cm_hc c \<longrightarrow> metric_key c i \<in> set (tf_hcSeen t)))"

lemma collect_column_ok:
  assumes t: "traffic_ok done_cols t" and c: "cols_ok done_cols (cm # cms)" and vars: "gm_ok vars"
  shows "traffic_ok (cm # done_cols) (collect_column ag vars cm t)"
proof -
  let ?vals = "column_values cm (tf_hcSeen t) vars" let ?t = "collect_column ag vars cm t"
  note closed = collect_column_closed [of ag vars cm t]
  have new: "map series (column_samples ag cm ?vals) = map (\<lambda>i. (cm_metric cm, [(''if_index'', i)])) (map fst ?vals)"
    by (auto simp: column_samples_def)
  have "distinct (map series (column_samples ag cm ?vals))"
    unfolding new using column_values_distinct [OF vars] by (simp add: distinct_map inj_on_def)
  moreover have "series y \<noteq> series x" if x: "x \<in> set (tf_samples t)" and y: "y \<in> set (column_samples ag cm ?vals)" for x y
  proof
    assume eq: "series y = series x"
    obtain i v where i: "(i, v) \<in> set ?vals" "series y = (cm_metric cm, [(''if_index'', i)])" using y by (auto simp: column_samples_def)
    obtain d where d: "d \<in> set done_cols" "cm_metric d = cm_metric cm" "cm_hc d \<longrightarrow> metric_key d i \<in> set (tf_hcSeen t)"
      using t x eq i(2) unfolding traffic_ok_def by fastforce
    with c have "cm_hc d" "\<not> cm_hc cm" by (auto simp: list_all_iff)
    with d have "metric_key cm i \<in> set (tf_hcSeen t)" by (simp add: metric_key_def)
    with i(1) \<open>\<not> cm_hc cm\<close> show False by (simp add: in_column_values)
  qed
  ultimately have "distinct (map series (tf_samples ?t))"
    using t closed unfolding traffic_ok_def by (auto simp: image_iff)
  moreover have "\<exists>c \<in> set (cm # done_cols). \<exists>i. series x = (cm_metric c, [(''if_index'', i)]) \<and> (cm_hc c \<longrightarrow> metric_key c i \<in> set (tf_hcSeen ?t))"
    if x: "x \<in> set (tf_samples ?t)" for x
  proof (cases "x \<in> set (tf_samples t)")
    case True
    then obtain c i where "c \<in> set done_cols" "series x = (cm_metric c, [(''if_index'', i)])" "cm_hc c \<longrightarrow> metric_key c i \<in> set (tf_hcSeen t)"
      using t unfolding traffic_ok_def by blast
    then show ?thesis using closed by (intro bexI [of _ c] exI [of _ i]) auto
  next
    case False
    with x closed obtain i v where "(i, v) \<in> set ?vals" "x = if_sample ag (cm_metric cm) i v" by (auto simp: column_samples_def)
    then show ?thesis using closed by (intro bexI [of _ cm] exI [of _ i]) force+
  qed
  ultimately show ?thesis unfolding traffic_ok_def by blast
qed

definition walk_columns :: "agent \<Rightarrow> (string \<Rightarrow> snmp_table) \<Rightarrow> traffic \<Rightarrow> colMap list \<Rightarrow> traffic" where
  "walk_columns ag pck t cms = foldl (\<lambda>t cm. collect_column ag (pck (cm_table cm)) cm t) t cms"

lemma walk_columns_ok:
  assumes "traffic_ok done_cols t" "cols_ok done_cols cms" "\<And>tb. gm_ok (pck tb)"
  shows "traffic_ok (rev cms @ done_cols) (walk_columns ag pck t cms)"
  using assms(1,2)
proof (induction cms arbitrary: done_cols t)
  case (Cons cm cms)
  from Cons.IH [OF collect_column_ok [OF Cons.prems(1,2) assms(3)]] Cons.prems(2) show ?case by (simp add: walk_columns_def)
qed (simp add: walk_columns_def)

lemma walk_map_ok: "gm_ok (walk_map vars)"
proof -
  have "gm_ok (foldl (\<lambda>m v. AList.update (va_OID v) v m) m vars)" if "gm_ok m" for m :: snmp_table
    using that by (induction vars arbitrary: m) (simp_all add: distinct_update)
  then show ?thesis by (simp add: walk_map_def)
qed

lemma put_speeds_ok: "gm_ok m \<Longrightarrow> gm_ok (put_speeds p f vars m)"
  unfolding put_speeds_def by (induction vars arbitrary: m) (auto simp: distinct_update split: option.splits prod.splits)

text \<open>A key that was seen has its sample, and a value that was walked has its series.\<close>

definition hc_keys_ok :: "traffic \<Rightarrow> bool" where
  "hc_keys_ok t \<longleftrightarrow> (\<forall>k \<in> set (tf_hcSeen t). \<exists>m i. k = m @ ''/'' @ i \<and> CHR ''/'' \<notin> set m \<and> (m, [(''if_index'', i)]) \<in> series ` set (tf_samples t))"

lemma slash_inj: "m @ c # i = n @ c # j \<Longrightarrow> c \<notin> set m \<Longrightarrow> c \<notin> set n \<Longrightarrow> m = n \<and> i = j"
  by (induction m arbitrary: n) (case_tac n; auto)+

lemma collect_column_keys:
  assumes "hc_keys_ok t" "CHR ''/'' \<notin> set (cm_metric cm)"
  shows "hc_keys_ok (collect_column ag vars cm t)"
  unfolding hc_keys_ok_def
proof
  note closed = collect_column_closed [of ag vars cm t]
  fix k
  assume "k \<in> set (tf_hcSeen (collect_column ag vars cm t))"
  with closed consider (old) "k \<in> set (tf_hcSeen t)" | (new) i x where "k = metric_key cm i" "(i, x) \<in> set (column_values cm (tf_hcSeen t) vars)"
    by (auto split: if_splits)
  then show "\<exists>m i. k = m @ ''/'' @ i \<and> CHR ''/'' \<notin> set m \<and> (m, [(''if_index'', i)]) \<in> series ` set (tf_samples (collect_column ag vars cm t))"
  proof cases
    case old
    with assms(1) obtain m i where "k = m @ ''/'' @ i" "CHR ''/'' \<notin> set m" "(m, [(''if_index'', i)]) \<in> series ` set (tf_samples t)" unfolding hc_keys_ok_def by blast
    then show ?thesis using closed by (intro exI [of _ m] exI [of _ i]) auto
  next
    case new
    have "if_sample ag (cm_metric cm) i x \<in> set (tf_samples (collect_column ag vars cm t))" using closed new(2) by (force simp: column_samples_def)
    then have "(cm_metric cm, [(''if_index'', i)]) \<in> series ` set (tf_samples (collect_column ag vars cm t))" by (rule rev_image_eqI) simp
    then show ?thesis using new(1) assms(2) by (auto simp: metric_key_def)
  qed
qed

lemma collect_column_covers:
  assumes t: "hc_keys_ok t" and m: "CHR ''/'' \<notin> set (cm_metric cm)" and v: "(col_prefix cm @ i, v) \<in> set vars" "toFloat (va_Value v) = Some x"
  shows "(cm_metric cm, [(''if_index'', i)]) \<in> series ` set (tf_samples (collect_column ag vars cm t)) \<and>
    (cm_hc cm \<longrightarrow> if_sample ag (cm_metric cm) i x \<in> set (tf_samples (collect_column ag vars cm t)))"
proof (cases "metric_key cm i \<in> set (tf_hcSeen t) \<and> \<not> cm_hc cm")
  case True
  then obtain m' i' where "cm_metric cm @ CHR ''/'' # i = m' @ CHR ''/'' # i'" "CHR ''/'' \<notin> set m'" "(m', [(''if_index'', i')]) \<in> series ` set (tf_samples t)"
    using t by (auto simp: hc_keys_ok_def metric_key_def)
  with slash_inj m have "(cm_metric cm, [(''if_index'', i)]) \<in> series ` set (tf_samples t)" by metis
  with True show ?thesis using collect_column_closed [of ag vars cm t] by auto
next
  case False
  with v have "(i, x) \<in> set (column_values cm (tf_hcSeen t) vars)" by (auto simp: in_column_values)
  then have "if_sample ag (cm_metric cm) i x \<in> set (tf_samples (collect_column ag vars cm t))"
    using collect_column_closed [of ag vars cm t] by (force simp: column_samples_def)
  moreover from this have "(cm_metric cm, [(''if_index'', i)]) \<in> series ` set (tf_samples (collect_column ag vars cm t))"
    by (rule rev_image_eqI) simp
  ultimately show ?thesis by blast
qed

lemma collect_column_grows: "set (tf_samples t) \<subseteq> set (tf_samples (collect_column ag vars cm t))"
  using collect_column_closed [of ag vars cm t] by auto

lemma walk_columns_grows: "set (tf_samples t) \<subseteq> set (tf_samples (walk_columns ag pck t cms))"
proof (induction cms arbitrary: t)
  case (Cons cm cms)
  show ?case using Cons.IH [of "collect_column ag (pck (cm_table cm)) cm t"] collect_column_grows [of t ag "pck (cm_table cm)" cm] by (auto simp: walk_columns_def)
qed (simp add: walk_columns_def)

lemma walk_columns_cover:
  assumes "hc_keys_ok t" "\<forall>c \<in> set cms. CHR ''/'' \<notin> set (cm_metric c)" "cm \<in> set cms" and v: "(col_prefix cm @ i, v) \<in> set (pck (cm_table cm))" "toFloat (va_Value v) = Some x"
  shows "(cm_metric cm, [(''if_index'', i)]) \<in> series ` set (tf_samples (walk_columns ag pck t cms)) \<and>
    (cm_hc cm \<longrightarrow> if_sample ag (cm_metric cm) i x \<in> set (tf_samples (walk_columns ag pck t cms)))"
  using assms(1-3)
proof (induction cms arbitrary: t)
  case (Cons c cms)
  let ?t = "collect_column ag (pck (cm_table c)) c t"
  have rest: "walk_columns ag pck t (c # cms) = walk_columns ag pck ?t cms" by (simp add: walk_columns_def)
  have ok: "hc_keys_ok ?t" using collect_column_keys Cons.prems by simp
  show ?case
  proof (cases "cm = c")
    case True
    with collect_column_covers [OF Cons.prems(1) _ v] Cons.prems(2)
    have "(cm_metric cm, [(''if_index'', i)]) \<in> series ` set (tf_samples ?t) \<and> (cm_hc cm \<longrightarrow> if_sample ag (cm_metric cm) i x \<in> set (tf_samples ?t))" by simp
    then show ?thesis unfolding rest using walk_columns_grows [of ?t ag pck cms] by blast
  next
    case False
    with Cons.IH [OF ok] Cons.prems show ?thesis unfolding rest by simp
  qed
qed simp

subsection \<open>Repair\<close>

lemma repair_value_keeps [simp]: "rp_budget (foldl (repair_value ag cm) r vs) = rp_budget r" "rp_asked (foldl (repair_value ag cm) r vs) = rp_asked r"
  by (induction vs arbitrary: r) (simp_all add: repair_value_def Let_def)

lemma repair_value_grows: "set (tf_samples (rp_traffic r)) \<subseteq> set (tf_samples (rp_traffic (foldl (repair_value ag cm) r vs)))"
proof (induction vs arbitrary: r)
  case (Cons v vs)
  have "set (tf_samples (rp_traffic r)) \<subseteq> set (tf_samples (rp_traffic (repair_value ag cm r v)))"
    by (auto simp: repair_value_def take_value_def Let_def split: option.splits)
  with Cons.IH [of "repair_value ag cm r v"] show ?case by auto
qed simp

text \<open>The requests of a poll: none is empty or above the batch size, none repeats, all together stay within the budget.\<close>

definition asked_ok :: "repair \<Rightarrow> bool" where
  "asked_ok r \<longleftrightarrow> rp_budget r + length (concat (rp_asked r)) = maxProbeVarbinds \<and> distinct (concat (rp_asked r)) \<and> list_all (\<lambda>c. c \<noteq> [] \<and> length c \<le> probeBatch) (rp_asked r)"

definition asks_only :: "string set \<Rightarrow> repair \<Rightarrow> repair \<Rightarrow> bool" where
  "asks_only A r r' \<longleftrightarrow> asked_ok r' \<and> set (concat (rp_asked r')) \<subseteq> set (concat (rp_asked r)) \<union> A \<and> set (tf_samples (rp_traffic r)) \<subseteq> set (tf_samples (rp_traffic r')) \<and>
     (rp_asked r' = rp_asked r \<longrightarrow> r' = r) \<and> prefix (rp_asked r) (rp_asked r')"

lemma asks_only_trans: "asks_only A r r1 \<Longrightarrow> asks_only B r1 r2 \<Longrightarrow> asks_only (A \<union> B) r r2"
proof -
  assume one: "asks_only A r r1" and two: "asks_only B r1 r2"
  then have "prefix (rp_asked r) (rp_asked r2)" unfolding asks_only_def using prefix_order.trans by blast
  moreover have "r2 = r" if "rp_asked r2 = rp_asked r"
  proof -
    have "rp_asked r1 = rp_asked r" using one two that unfolding asks_only_def by (intro prefix_order.antisym) simp_all
    with one two that show ?thesis unfolding asks_only_def by simp
  qed
  ultimately show ?thesis using one two unfolding asks_only_def by blast
qed

lemma asks_only_mono: "asks_only A r r1 \<Longrightarrow> A \<subseteq> B \<Longrightarrow> asks_only B r r1"
  unfolding asks_only_def by blast

lemma probe_missing_asks:
  assumes "asked_ok r" "distinct missing" "set missing \<inter> set (concat (rp_asked r)) = {}"
  shows "asks_only (set missing) r (probe_missing ag cm missing r)"
  using assms
proof (induction ag cm missing r rule: probe_missing.induct)
  case (1 ag cm missing r)
  show ?case
  proof (cases "missing = [] \<or> rp_budget r = 0")
    case True
    then show ?thesis using 1(2) by (simp add: probe_missing.simps asks_only_def)
  next
    case False
    define chunk where "chunk = take (rp_budget r) (take probeBatch missing)"
    define r1 where "r1 = r\<lparr>rp_budget := rp_budget r - length chunk, rp_asked := rp_asked r @ [chunk]\<rparr>"
    have chunk: "chunk \<noteq> []" "length chunk \<le> probeBatch" "length chunk \<le> rp_budget r" "set chunk \<subseteq> set missing" "distinct chunk"
      using False 1(3) by (auto simp: chunk_def probeBatch_def dest!: in_set_takeD)
    have apart: "set chunk \<inter> set (drop probeBatch missing) = {}"
      unfolding chunk_def using set_take_disj_set_drop_if_distinct [OF 1(3), of probeBatch probeBatch] set_take_subset [of "rp_budget r" "take probeBatch missing"] by blast
    have r1: "asks_only (set missing) r r1" using 1(2-4) chunk by (auto simp: asks_only_def asked_ok_def r1_def)
    show ?thesis
    proof (cases "ag_Get ag (rp_asked r) chunk")
      case (Inl e)
      with False r1 show ?thesis by (simp add: probe_missing.simps [of ag cm missing] Let_def chunk_def r1_def)
    next
      case (Inr vars)
      let ?r2 = "foldl (repair_value ag cm) r1 vars"
      have "asked_ok ?r2" using r1 by (simp add: asks_only_def asked_ok_def)
      moreover have "set (drop probeBatch missing) \<inter> set (concat (rp_asked ?r2)) = {}"
        using 1(4) chunk apart by (auto simp: r1_def dest: in_set_dropD)
      ultimately have rest: "asks_only (set (drop probeBatch missing)) ?r2 (probe_missing ag cm (drop probeBatch missing) ?r2)"
        using 1(1) [OF False chunk_def r1_def Inr] 1(3) by simp
      have eq: "probe_missing ag cm missing r = probe_missing ag cm (drop probeBatch missing) ?r2"
        using False Inr by (simp add: probe_missing.simps [of ag cm missing] Let_def chunk_def r1_def)
      have "asks_only (set missing) r ?r2" using r1 repair_value_grows [of r1 ag cm vars] by (auto simp: asks_only_def asked_ok_def r1_def)
      from asks_only_trans [OF this rest] show ?thesis unfolding eq by (rule asks_only_mono) (auto dest: in_set_dropD)
    qed
  qed
qed

lemma int_str_no_dot: "CHR ''.'' \<notin> set (int_str i)"
  using nat_str_chars [of "CHR ''.''"] by (auto simp: int_str_def is_digit_def)

lemma named_indexes_ok: "distinct (named_indexes ifT)" "\<forall>i \<in> set (named_indexes ifT). CHR ''.'' \<notin> set i"
  by (auto simp: named_indexes_def distinct_map int_str_no_dot intro!: inj_onI)

definition column_oids :: "string list \<Rightarrow> colMap \<Rightarrow> string set" where
  "column_oids idxs cm = (\<lambda>i. col_prefix cm @ i) ` set idxs"

lemma column_oids_disjoint:
  assumes "col_prefix c \<noteq> col_prefix d" "\<forall>i \<in> set idxs. CHR ''.'' \<notin> set i"
  shows "column_oids idxs c \<inter> column_oids idxs d = {}"
proof (rule ccontr)
  assume "column_oids idxs c \<inter> column_oids idxs d \<noteq> {}"
  then obtain i j where ij: "i \<in> set idxs" "j \<in> set idxs" "col_prefix c @ i = col_prefix d @ j" by (auto simp: column_oids_def)
  then have "rev i @ CHR ''.'' # rev (cm_table c @ ''.'' @ int_str (cm_column c)) = rev j @ CHR ''.'' # rev (cm_table d @ ''.'' @ int_str (cm_column d))"
    by (metis col_prefix_def append.assoc append_Cons append_Nil rev_append rev.simps(2) append_eq_append_conv2)
  with slash_inj ij assms(2) have "rev i = rev j" by (metis set_rev)
  with ij(3) assms(1) show False by simp
qed

lemma repair_column_asks:
  assumes "asked_ok r" "distinct idxs" "column_oids idxs cm \<inter> set (concat (rp_asked r)) = {}"
  shows "asks_only {q. q \<in> column_oids idxs cm \<and> map_of (pck (cm_table cm)) q = None} r (repair_column ag idxs pck r cm)"
proof -
  let ?m = "missing_oids cm idxs (pck (cm_table cm)) (tf_hcSeen (rp_traffic r))"
  have m: "set ?m \<subseteq> {q. q \<in> column_oids idxs cm \<and> map_of (pck (cm_table cm)) q = None}" "distinct ?m"
    using assms(2) by (auto simp: missing_oids_def column_oids_def distinct_map inj_on_def)
  have "asks_only (set ?m) r (probe_missing ag cm ?m r)" using m assms(3) by (intro probe_missing_asks [OF assms(1)]) blast+
  then show ?thesis using m(1) assms(1) by (auto simp: repair_column_def Let_def asks_only_def)
qed

lemma repair_columns_ask:
  assumes "asked_ok r" "distinct idxs" "\<forall>i \<in> set idxs. CHR ''.'' \<notin> set i" "distinct (map col_prefix cms)" "\<forall>c \<in> set cms. column_oids idxs c \<inter> set (concat (rp_asked r)) = {}"
  shows "asks_only {q. \<exists>c \<in> set cms. q \<in> column_oids idxs c \<and> map_of (pck (cm_table c)) q = None} r (foldl (repair_column ag idxs pck) r cms)"
  using assms(1,4,5)
proof (induction cms arbitrary: r)
  case Nil
  then show ?case by (simp add: asks_only_def)
next
  case (Cons c cms)
  let ?r = "repair_column ag idxs pck r c"
  have one: "asks_only {q. q \<in> column_oids idxs c \<and> map_of (pck (cm_table c)) q = None} r ?r"
    using Cons.prems repair_column_asks [OF _ assms(2), of r c pck ag] by simp
  moreover have "column_oids idxs d \<inter> set (concat (rp_asked ?r)) = {}" if "d \<in> set cms" for d
  proof -
    have "col_prefix d \<noteq> col_prefix c" using imageI [OF that, of col_prefix] Cons.prems(2) by auto
    then have "column_oids idxs d \<inter> column_oids idxs c = {}" using assms(3) by (rule column_oids_disjoint)
    moreover have "set (concat (rp_asked ?r)) \<subseteq> set (concat (rp_asked r)) \<union> column_oids idxs c" using one unfolding asks_only_def by blast
    moreover have "column_oids idxs d \<inter> set (concat (rp_asked r)) = {}" using Cons.prems(3) that by simp
    ultimately show ?thesis by blast
  qed
  ultimately have "asks_only {q. \<exists>c \<in> set cms. q \<in> column_oids idxs c \<and> map_of (pck (cm_table c)) q = None} ?r (foldl (repair_column ag idxs pck) ?r cms)"
    using Cons.IH [of ?r] Cons.prems(2) by (simp add: asks_only_def)
  with one have "asks_only ({q. q \<in> column_oids idxs c \<and> map_of (pck (cm_table c)) q = None} \<union> {q. \<exists>c \<in> set cms. q \<in> column_oids idxs c \<and> map_of (pck (cm_table c)) q = None}) r
      (foldl (repair_column ag idxs pck) ?r cms)" by (rule asks_only_trans)
  then show ?case by (simp only: foldl_Cons) (rule asks_only_mono, auto)
qed

lemma fillCounterGaps_asks:
  "asks_only {q. \<exists>c \<in> set trafficCols. q \<in> column_oids (named_indexes ifT) c \<and> map_of (pck (cm_table c)) q = None}
     \<lparr>rp_budget = maxProbeVarbinds, rp_repaired = 0, rp_traffic = t, rp_asked = []\<rparr> (fillCounterGaps ag ifT pck t)"
proof -
  have pre: "distinct (map col_prefix trafficCols)" by code_simp
  show ?thesis
    using repair_columns_ask [OF _ named_indexes_ok pre, of "\<lparr>rp_budget = maxProbeVarbinds, rp_repaired = 0, rp_traffic = t, rp_asked = []\<rparr>" ifT pck ag]
    by (auto simp: fillCounterGaps_def Let_def asks_only_def asked_ok_def)
qed

subsection \<open>A poll\<close>

text \<open>The tables of a poll whose first walk succeeded.\<close>

definition poll_tables :: "agent \<Rightarrow> snmp_table \<times> snmp_table" where
  "poll_tables ag = (walk_map (fst (ag_Walk ag oidIfTable)), if snd (ag_Walk ag oidIfXTable) = None then walk_map (fst (ag_Walk ag oidIfXTable)) else [])"

definition poll_table :: "agent \<Rightarrow> string \<Rightarrow> snmp_table" where
  "poll_table ag = pick (fst (poll_tables ag)) (snd (poll_tables ag))"

lemma CollectInterfaces_cases:
  assumes "CollectInterfaces ag = (Inr xs, asked)"
  obtains t r where "t = walk_columns ag (poll_table ag) \<lparr>tf_hcSeen = [], tf_samples = []\<rparr> trafficCols" "r = fillCounterGaps ag (fst (poll_tables ag)) (poll_table ag) t" "asked = rp_asked r"
    "xs = tf_samples (rp_traffic r) @ [\<lparr>sd_Name = ''netinv_if_counters_repaired'', sd_Labels = [], sd_Value = ag_f64 ag (real (rp_repaired r)), sd_At = ag_now ag\<rparr>] @
      map (\<lambda>(i, v). if_sample ag ''netinv_if_speed_bps'' i v) (if_speeds (fst (poll_tables ag)) (snd (poll_tables ag)))"
  using assms
  by (auto simp: CollectInterfaces_def Let_def poll_tables_def poll_table_def walk_columns_def split: prod.splits option.splits)

lemma poll_table_ok: "gm_ok (poll_table ag tb)" "gm_ok (fst (poll_tables ag))" "gm_ok (snd (poll_tables ag))"
  by (simp_all add: poll_table_def poll_tables_def pick_def walk_map_ok)

lemma trafficCols_names: "\<forall>c \<in> set trafficCols. CHR ''/'' \<notin> set (cm_metric c) \<and> cm_metric c \<noteq> ''netinv_if_counters_repaired'' \<and> cm_metric c \<noteq> ''netinv_if_speed_bps''"
  by (simp add: trafficCols_def col_def)

subsection \<open>Sample agents\<close>

definition demo_if_agent :: "SnmpVar list \<Rightarrow> SnmpVar list \<Rightarrow> SnmpVar list \<Rightarrow> agent" where
  "demo_if_agent tvars xvars hidden = \<lparr>ag_Get = (\<lambda>past oids. Inr (filter (\<lambda>v. va_OID v \<in> set oids) hidden)),
     ag_Walk = (\<lambda>root. (if root = oidIfTable then tvars else if root = oidIfXTable then xvars else [], None)), ag_f64 = (\<lambda>x. word_of_int \<lfloor>x\<rfloor>), ag_ParseFloat = (\<lambda>s. None), ag_now = 7\<rparr>"

definition demo_var :: "string \<Rightarrow> int \<Rightarrow> SnmpVar" where
  "demo_var oid v = \<lparr>va_OID = oid, va_Value = AnyInt v\<rparr>"

text \<open>Two ports; the second agent's walk of the 64-bit octets misses port 2, which a GET answers.\<close>

definition demo_whole :: agent where
  "demo_whole = demo_if_agent [demo_var ''.1.3.6.1.2.1.2.2.1.10.1'' 5, demo_var ''.1.3.6.1.2.1.2.2.1.10.2'' 6]
     [demo_var ''.1.3.6.1.2.1.31.1.1.1.6.1'' 4294967301, demo_var ''.1.3.6.1.2.1.31.1.1.1.6.2'' 4294967302] []"

definition demo_partial :: agent where
  "demo_partial = demo_if_agent [demo_var ''.1.3.6.1.2.1.2.2.1.10.1'' 5, demo_var ''.1.3.6.1.2.1.2.2.1.10.2'' 6]
     [demo_var ''.1.3.6.1.2.1.31.1.1.1.6.1'' 4294967301] [demo_var ''.1.3.6.1.2.1.31.1.1.1.6.2'' 4294967302]"

definition demo_octets :: "string \<Rightarrow> int \<Rightarrow> SdkSample" where
  "demo_octets i v = \<lparr>sd_Name = ''netinv_if_in_octets_total'', sd_Labels = [(''if_index'', i)], sd_Value = word_of_int v, sd_At = 7\<rparr>"

definition demo_repaired :: "int \<Rightarrow> SdkSample" where
  "demo_repaired n = \<lparr>sd_Name = ''netinv_if_counters_repaired'', sd_Labels = [], sd_Value = word_of_int n, sd_At = 7\<rparr>"

lemma demo_whole_poll: "CollectInterfaces demo_whole = (Inr [demo_octets ''1'' 4294967301, demo_octets ''2'' 4294967302, demo_repaired 0], [])"
  by code_simp

lemma demo_partial_poll:
  "CollectInterfaces demo_partial = (Inr [demo_octets ''1'' 4294967301, demo_octets ''2'' 6, demo_octets ''2'' 4294967302, demo_repaired 1], [[''.1.3.6.1.2.1.31.1.1.1.6.2'']])"
  by code_simp

text \<open>
  C12. One value per series: a poll in which no counter had to be asked for again publishes each series, a metric with its labels, at most once, whichever columns the
  agent has.
\<close>

theorem one_sample_per_series:
  assumes "CollectInterfaces ag = (Inr xs, [])"
  shows "distinct (map (\<lambda>x. (sd_Name x, sd_Labels x)) xs)"
proof -
  obtain t r where tr: "t = walk_columns ag (poll_table ag) \<lparr>tf_hcSeen = [], tf_samples = []\<rparr> trafficCols" "r = fillCounterGaps ag (fst (poll_tables ag)) (poll_table ag) t" "[] = rp_asked r"
    and xs: "xs = tf_samples (rp_traffic r) @ [\<lparr>sd_Name = ''netinv_if_counters_repaired'', sd_Labels = [], sd_Value = ag_f64 ag (real (rp_repaired r)), sd_At = ag_now ag\<rparr>] @
      map (\<lambda>(i, v). if_sample ag ''netinv_if_speed_bps'' i v) (if_speeds (fst (poll_tables ag)) (snd (poll_tables ag)))"
    using CollectInterfaces_cases [OF assms] by blast
  have "rp_traffic r = t" using fillCounterGaps_asks [of "fst (poll_tables ag)" "poll_table ag" t ag] tr(2,3) by (simp add: asks_only_def)
  moreover have ok: "traffic_ok (rev trafficCols) t"
    unfolding tr(1) using walk_columns_ok [OF _ trafficCols_ok poll_table_ok(1), of "\<lparr>tf_hcSeen = [], tf_samples = []\<rparr>" ag] by (simp add: traffic_ok_def)
  moreover have "series x \<noteq> (''netinv_if_speed_bps'', l) \<and> series x \<noteq> (''netinv_if_counters_repaired'', l)" if "x \<in> set (tf_samples t)" for x l
    using ok that trafficCols_names unfolding traffic_ok_def by fastforce
  moreover have "distinct (map (\<lambda>(i, v). series (if_sample ag ''netinv_if_speed_bps'' i v)) (if_speeds (fst (poll_tables ag)) (snd (poll_tables ag))))"
  proof -
    have "gm_ok (if_speeds (fst (poll_tables ag)) (snd (poll_tables ag)))" by (simp add: if_speeds_def put_speeds_ok)
    then show ?thesis by (simp add: distinct_map inj_on_def split_def)
  qed
  ultimately have "distinct (map series xs)" unfolding xs by (auto simp: traffic_ok_def comp_def split_def series_def if_sample_def)
  then show ?thesis by (simp add: series_def [abs_def])
qed

theorem one_sample_per_series_witness:
  "CollectInterfaces demo_whole = (Inr [demo_octets ''1'' 4294967301, demo_octets ''2'' 4294967302, demo_repaired 0], []) \<and>
   distinct (map (\<lambda>x. (sd_Name x, sd_Labels x)) [demo_octets ''1'' 4294967301, demo_octets ''2'' 4294967302, demo_repaired 0])"
  using one_sample_per_series [OF demo_whole_poll] demo_whole_poll by blast

text \<open>
  With a repair the promise breaks: the walk of the 64-bit column left out port 2, so its 32-bit counter is published; the GET then adds the 64-bit counter, for the
  same series and time.
\<close>

theorem both_widths_published:
  "\<exists>xs asked. CollectInterfaces demo_partial = (Inr xs, asked) \<and> demo_octets ''2'' 6 \<in> set xs \<and> demo_octets ''2'' 4294967302 \<in> set xs"
  using demo_partial_poll by simp

text \<open>
  C13. The repair of a partial walk is bounded: a poll asks for at most 600 variables in requests of 1 to 24, no variable twice and none that the walk had answered. An agent
  whose columns are absent or whole is asked nothing.
\<close>

theorem repair_bounded:
  assumes "CollectInterfaces ag = (Inr xs, asked)"
  shows "length (concat asked) \<le> 600 \<and> list_all (\<lambda>c. c \<noteq> [] \<and> length c \<le> 24) asked \<and> distinct (concat asked) \<and>
    list_all (\<lambda>q. list_ex (\<lambda>c. map_of (poll_table ag (cm_table c)) q = None \<and> (\<exists>i. q = col_prefix c @ i)) trafficCols) (concat asked) \<and>
    (list_all (\<lambda>c. column_size c (poll_table ag (cm_table c)) = 0 \<or>
        list_all (\<lambda>i. map_of (poll_table ag (cm_table c)) (col_prefix c @ i) \<noteq> None) (named_indexes (fst (poll_tables ag)))) trafficCols \<longrightarrow> asked = [])"
proof -
  obtain t r where r: "r = fillCounterGaps ag (fst (poll_tables ag)) (poll_table ag) t" "asked = rp_asked r"
    using CollectInterfaces_cases [OF assms] by blast
  have asks: "asked_ok r" "set (concat asked) \<subseteq> {q. \<exists>c \<in> set trafficCols. q \<in> column_oids (named_indexes (fst (poll_tables ag))) c \<and> map_of (poll_table ag (cm_table c)) q = None}"
    using fillCounterGaps_asks [of "fst (poll_tables ag)" "poll_table ag" t ag] r by (simp_all add: asks_only_def)
  have quiet: "asked = []" if "\<forall>c \<in> set trafficCols. column_size c (poll_table ag (cm_table c)) = 0 \<or>
      (\<forall>i \<in> set (named_indexes (fst (poll_tables ag))). map_of (poll_table ag (cm_table c)) (col_prefix c @ i) \<noteq> None)"
  proof -
    let ?idxs = "named_indexes (fst (poll_tables ag))"
    have "repair_column ag ?idxs (poll_table ag) r' c = r'" if c: "c \<in> set trafficCols" for c r'
    proof (cases "column_size c (poll_table ag (cm_table c)) = 0")
      case False
      with that \<open>\<forall>c \<in> set trafficCols. _ c\<close> have "missing_oids c ?idxs (poll_table ag (cm_table c)) hc = []" for hc
        by (auto simp: missing_oids_def filter_empty_conv)
      then show ?thesis by (simp add: repair_column_def Let_def probe_missing.simps)
    qed (simp add: repair_column_def)
    then have "foldl (repair_column ag ?idxs (poll_table ag)) r' cms = r'" if "set cms \<subseteq> set trafficCols" for cms r'
      using that by (induction cms) auto
    then show ?thesis unfolding r by (simp add: fillCounterGaps_def Let_def)
  qed
  have "list_all (\<lambda>q. list_ex (\<lambda>c. map_of (poll_table ag (cm_table c)) q = None \<and> (\<exists>i. q = col_prefix c @ i)) trafficCols) (concat asked)"
    using asks(2) unfolding list_all_iff list_ex_iff column_oids_def by blast
  then show ?thesis using asks(1) r(2) quiet by (auto simp: asked_ok_def maxProbeVarbinds_def probeBatch_def list_all_iff)
qed

theorem repair_bounded_witness:
  "(\<exists>xs. CollectInterfaces demo_partial = (Inr xs, [[''.1.3.6.1.2.1.31.1.1.1.6.2'']])) \<and> length (concat [[''.1.3.6.1.2.1.31.1.1.1.6.2'']]) \<le> 600 \<and>
   list_all (\<lambda>q. list_ex (\<lambda>c. map_of (poll_table demo_partial (cm_table c)) q = None \<and> (\<exists>i. q = col_prefix c @ i)) trafficCols) (concat [[''.1.3.6.1.2.1.31.1.1.1.6.2'']])"
  using repair_bounded [OF demo_partial_poll] demo_partial_poll by blast

text \<open>
  Nothing that was walked is lost: every numeric value of a traffic column has a sample of its metric and interface, and a value of a 64-bit column is published itself.
\<close>

theorem traffic_complete:
  assumes "CollectInterfaces ag = (Inr xs, asked)" "cm \<in> set trafficCols" "map_of (poll_table ag (cm_table cm)) (col_prefix cm @ i) = Some v" "toFloat (va_Value v) = Some x"
  shows "(cm_metric cm, [(''if_index'', i)]) \<in> (\<lambda>s. (sd_Name s, sd_Labels s)) ` set xs \<and>
    (cm_hc cm \<longrightarrow> \<lparr>sd_Name = cm_metric cm, sd_Labels = [(''if_index'', i)], sd_Value = ag_f64 ag x, sd_At = ag_now ag\<rparr> \<in> set xs)"
proof -
  obtain t r where t: "t = walk_columns ag (poll_table ag) \<lparr>tf_hcSeen = [], tf_samples = []\<rparr> trafficCols" "r = fillCounterGaps ag (fst (poll_tables ag)) (poll_table ag) t"
    and xs: "set (tf_samples (rp_traffic r)) \<subseteq> set xs"
    using CollectInterfaces_cases [OF assms(1)] by (metis set_append sup.cobounded1)
  have grows: "set (tf_samples t) \<subseteq> set xs"
    using xs fillCounterGaps_asks [of "fst (poll_tables ag)" "poll_table ag" t ag] t(2) by (auto simp: asks_only_def)
  have "(cm_metric cm, [(''if_index'', i)]) \<in> series ` set (tf_samples t) \<and> (cm_hc cm \<longrightarrow> if_sample ag (cm_metric cm) i x \<in> set (tf_samples t))"
    unfolding t(1) using trafficCols_names map_of_SomeD [OF assms(3)]
    by (intro walk_columns_cover [OF _ _ assms(2) _ assms(4)]) (auto simp: hc_keys_ok_def)
  then show ?thesis using grows by (auto simp: series_def [abs_def] if_sample_def)
qed

theorem traffic_complete_witness:
  "\<lparr>sd_Name = ''netinv_if_in_octets_total'', sd_Labels = [(''if_index'', ''2'')], sd_Value = ag_f64 demo_whole 4294967302, sd_At = ag_now demo_whole\<rparr> \<in>
     set [demo_octets ''1'' 4294967301, demo_octets ''2'' 4294967302, demo_repaired 0]"
proof -
  let ?cm = "col oidIfXTable 6 ''netinv_if_in_octets_total'' True"
  have "?cm \<in> set trafficCols" by (simp add: trafficCols_def)
  moreover have "map_of (poll_table demo_whole (cm_table ?cm)) (col_prefix ?cm @ ''2'') = Some (demo_var ''.1.3.6.1.2.1.31.1.1.1.6.2'' 4294967302)" by code_simp
  moreover have "toFloat (va_Value (demo_var ''.1.3.6.1.2.1.31.1.1.1.6.2'' 4294967302)) = Some 4294967302" by (simp add: demo_var_def)
  ultimately show ?thesis using traffic_complete [OF demo_whole_poll] by (metis (no_types, lifting) col_def colMap.select_convs)
qed

subsection \<open>Speed\<close>

definition positive :: "SnmpVar option \<Rightarrow> real option" where
  "positive v = (case v of None \<Rightarrow> None | Some v \<Rightarrow> (case toFloat (va_Value v) of None \<Rightarrow> None | Some x \<Rightarrow> if 0 < x then Some x else None))"

lemma put_speeds_lookup:
  assumes "gm_ok vars"
  shows "map_of (put_speeds p f vars m) i = (case positive (map_of vars (p @ i)) of Some x \<Rightarrow> Some (x * f) | None \<Rightarrow> map_of m i)"
  using assms
proof (induction vars arbitrary: m)
  case Nil
  then show ?case by (simp add: put_speeds_def positive_def)
next
  case (Cons e vars)
  obtain q v where e: "e = (q, v)" by force
  define m1 where "m1 = (case (CutPrefix p q, toFloat (va_Value v)) of (Some i, Some x) \<Rightarrow> if 0 < x then AList.update i (x * f) m else m | _ \<Rightarrow> m)"
  have step: "put_speeds p f (e # vars) m = put_speeds p f vars m1" by (simp only: put_speeds_def m1_def e foldl_Cons fst_conv snd_conv)
  have fresh: "map_of vars q = None" using Cons.prems e by (simp add: map_of_eq_None_iff)
  show ?case
  proof (cases "q = p @ i")
    case True
    have "map_of (put_speeds p f vars m1) i = map_of m1 i" using Cons True fresh by (simp add: positive_def)
    with True show ?thesis unfolding step by (auto simp: e m1_def positive_def update_conv' split: option.splits)
  next
    case False
    then have "map_of m1 i = map_of m i"
      by (auto simp: m1_def update_conv' dest: CutPrefix_SomeD split: option.splits)
    with False show ?thesis unfolding step using Cons by (auto simp: e split: option.split)
  qed
qed

text \<open>The speed of an interface: the high-speed column in Mbit/s if it is positive, otherwise the old one.\<close>

theorem speed_prefers_high:
  "map_of (if_speeds (fst (poll_tables ag)) (snd (poll_tables ag))) i =
     (case positive (map_of (snd (poll_tables ag)) (oidIfXTable @ ''.15.'' @ i)) of Some x \<Rightarrow> Some (x * 1000000)
      | None \<Rightarrow> positive (map_of (fst (poll_tables ag)) (oidIfTable @ ''.5.'' @ i)))"
  using put_speeds_lookup [OF poll_table_ok(2), of "oidIfTable @ ''.5.''" 1 ag "[]" i] put_speeds_lookup [OF poll_table_ok(3), of "oidIfXTable @ ''.15.''" 1000000 ag _ i]
  by (simp add: if_speeds_def split: option.splits)

subsection \<open>Inventory records\<close>

definition records_ok :: "(int, InterfaceRecord) gomap \<Rightarrow> bool" where
  "records_ok m \<longleftrightarrow> gm_ok m \<and> (\<forall>i r. map_of m i = Some r \<longrightarrow> ir_IfIndex r = i \<and> ir_PhysAddress r = [])"

lemma with_rec_ok:
  assumes "records_ok m" "\<And>r. ir_IfIndex (f r) = ir_IfIndex r \<and> ir_PhysAddress (f r) = ir_PhysAddress r"
  shows "records_ok (with_rec i f m) \<and> dom (map_of (with_rec i f m)) = insert i (dom (map_of m))"
  using assms by (auto simp: records_ok_def with_rec_def update_conv' distinct_update new_record_def split: option.splits)

definition table_indexes :: "string \<Rightarrow> SnmpVar list \<Rightarrow> int set" where
  "table_indexes table vars = {i. \<exists>v c. v \<in> set vars \<and> splitCol (va_OID v) table = Some (c, i)}"

lemma put_ifTable_ok:
  assumes "records_ok m"
  shows "records_ok (put_ifTable m v) \<and> dom (map_of (put_ifTable m v)) = dom (map_of m) \<union> table_indexes oidIfTable [v]"
  using assms by (auto simp: put_ifTable_def table_indexes_def with_rec_ok split: option.splits prod.splits)

lemma put_ifXTable_ok:
  assumes "records_ok m"
  shows "records_ok (put_ifXTable m v) \<and> dom (map_of (put_ifXTable m v)) = dom (map_of m) \<union> table_indexes oidIfXTable [v]"
  using assms by (auto simp: put_ifXTable_def table_indexes_def with_rec_ok split: option.splits prod.splits)

lemma table_indexes_Cons: "table_indexes table (v # vs) = table_indexes table [v] \<union> table_indexes table vs"
  by (auto simp: table_indexes_def)

lemma put_ifTables_ok: "records_ok m \<Longrightarrow> records_ok (foldl put_ifTable m vs) \<and> dom (map_of (foldl put_ifTable m vs)) = dom (map_of m) \<union> table_indexes oidIfTable vs"
proof (induction vs arbitrary: m)
  case (Cons v vs)
  with Cons.IH [of "put_ifTable m v"] put_ifTable_ok [OF Cons.prems, of v] show ?case by (subst table_indexes_Cons) auto
qed (simp add: table_indexes_def)

lemma put_ifXTables_ok: "records_ok m \<Longrightarrow> records_ok (foldl put_ifXTable m vs) \<and> dom (map_of (foldl put_ifXTable m vs)) = dom (map_of m) \<union> table_indexes oidIfXTable vs"
proof (induction vs arbitrary: m)
  case (Cons v vs)
  with Cons.IH [of "put_ifXTable m v"] put_ifXTable_ok [OF Cons.prems, of v] show ?case by (subst table_indexes_Cons) auto
qed (simp add: table_indexes_def)

lemma name_record_keeps [simp]: "ir_IfIndex (name_record r) = ir_IfIndex r" "ir_PhysAddress (name_record r) = ir_PhysAddress r" "ir_Descr (name_record r) = ir_Descr r"
  by (simp_all add: name_record_def)

lemma CollectInventory_records:
  assumes "CollectInventory ag = Inr snap"
  obtains m where "records_ok m" "dom (map_of m) = table_indexes oidIfTable (fst (ag_Walk ag oidIfTable)) \<union> table_indexes oidIfXTable (fst (ag_Walk ag oidIfXTable))"
    "iv_Interfaces snap = map (name_record \<circ> snd) m" "m = foldl put_ifXTable (foldl put_ifTable [] (fst (ag_Walk ag oidIfTable))) (fst (ag_Walk ag oidIfXTable))"
proof -
  define m1 where "m1 = foldl put_ifTable [] (fst (ag_Walk ag oidIfTable))"
  define m where "m = foldl put_ifXTable m1 (fst (ag_Walk ag oidIfXTable))"
  have "records_ok m1 \<and> dom (map_of m1) = table_indexes oidIfTable (fst (ag_Walk ag oidIfTable))"
    using put_ifTables_ok [of "[]"] by (simp add: m1_def records_ok_def)
  moreover have "iv_Interfaces snap = map (name_record \<circ> snd) m"
    using assms by (auto simp: CollectInventory_def Let_def m_def m1_def split: sum.splits prod.splits option.splits)
  ultimately show thesis using that [of m] put_ifXTables_ok [of m1 "fst (ag_Walk ag oidIfXTable)"] by (auto simp: m_def m1_def)
qed

lemma CollectInventory_distinct:
  assumes "CollectInventory ag = Inr snap"
  shows "distinct (map ir_IfIndex (iv_Interfaces snap)) \<and>
    set (map ir_IfIndex (iv_Interfaces snap)) = table_indexes oidIfTable (fst (ag_Walk ag oidIfTable)) \<union> table_indexes oidIfXTable (fst (ag_Walk ag oidIfXTable)) \<and>
    list_all (\<lambda>r. ir_PhysAddress r = [] \<and> (ir_Name r = [] \<longrightarrow> ir_Descr r = [])) (iv_Interfaces snap)"
proof -
  obtain m where m: "records_ok m" "dom (map_of m) = table_indexes oidIfTable (fst (ag_Walk ag oidIfTable)) \<union> table_indexes oidIfXTable (fst (ag_Walk ag oidIfXTable))"
    and ifs: "iv_Interfaces snap = map (name_record \<circ> snd) m"
    using CollectInventory_records [OF assms] by blast
  have entry: "ir_IfIndex r = i \<and> ir_PhysAddress r = []" if "(i, r) \<in> set m" for i r
    using that m(1) map_of_is_SomeI unfolding records_ok_def by fastforce
  then have "map ir_IfIndex (iv_Interfaces snap) = map fst m" unfolding ifs by (auto simp: comp_def)
  moreover have "list_all (\<lambda>r. ir_PhysAddress r = [] \<and> (ir_Name r = [] \<longrightarrow> ir_Descr r = [])) (iv_Interfaces snap)"
    unfolding ifs using entry by (force simp: list_all_iff name_record_def)
  ultimately show ?thesis using m by (simp add: records_ok_def dom_map_of_conv_image_fst)
qed

text \<open>
  C14. An inventory report has one record for each index the agent lists in either table and no other, named by its description if it has no name. It carries no hardware
  address.
\<close>

theorem inventory_records:
  assumes "CollectInventory ag = Inr snap"
  shows "distinct (map ir_IfIndex (iv_Interfaces snap)) \<and>
    set (map ir_IfIndex (iv_Interfaces snap)) = table_indexes oidIfTable (fst (ag_Walk ag oidIfTable)) \<union> table_indexes oidIfXTable (fst (ag_Walk ag oidIfXTable)) \<and>
    list_all (\<lambda>r. ir_PhysAddress r = [] \<and> (ir_Name r = [] \<longrightarrow> ir_Descr r = [])) (iv_Interfaces snap)"
  by (rule CollectInventory_distinct [OF assms])

definition demo_inventory_agent :: agent where
  "demo_inventory_agent = demo_if_agent [\<lparr>va_OID = ''.1.3.6.1.2.1.2.2.1.2.1'', va_Value = AnyString ''GigabitEthernet0/1''\<rparr>]
     [\<lparr>va_OID = ''.1.3.6.1.2.1.31.1.1.1.1.1'', va_Value = AnyString ''Gi0/1''\<rparr>] []"

theorem inventory_records_witness:
  "\<exists>snap. CollectInventory demo_inventory_agent = Inr snap \<and> map ir_IfIndex (iv_Interfaces snap) = [1] \<and> map ir_Name (iv_Interfaces snap) = [''Gi0/1''] \<and>
     list_all (\<lambda>r. ir_PhysAddress r = []) (iv_Interfaces snap)"
proof -
  have e: "map_sum (\<lambda>e. True) (\<lambda>s. (map ir_IfIndex (iv_Interfaces s), map ir_Name (iv_Interfaces s))) (CollectInventory demo_inventory_agent) = Inr ([1], [''Gi0/1''])"
    by code_simp
  then obtain snap where s: "CollectInventory demo_inventory_agent = Inr snap" by (cases "CollectInventory demo_inventory_agent") auto
  from inventory_records [OF s] show ?thesis using e s by (auto simp: list_all_iff)
qed

end
