(* ===== verification/Connector_Sync.thy ===== *)
theory Connector_Sync
  imports Generic_Polls Inventory_Resync
begin

text \<open>
  The generic connector in front of the inventory sync: its reports fit the table whatever order the agent answers in, and what a failed walk of the
  second interface table does to the rows of a device.
\<close>

text \<open>The columns a report fills from 32-bit objects.\<close>

definition in_range :: "InterfaceRecord \<Rightarrow> bool" where
  "in_range r \<longleftrightarrow> 0 < ir_IfIndex r \<and> int4 (ir_IfIndex r) \<and> int4 (ir_IfType r) \<and> int4 (ir_MTU r) \<and> int4 (ir_AdminStatus r) \<and> int4 (ir_OperStatus r)"

lemma generic_report_ok:
  assumes "CollectInventory ag = Inr snap" "list_all in_range (iv_Interfaces snap)" "mac_text aenv [] \<noteq> None"
  shows "report_ok aenv (wire_snapshot snap adjs)"
proof -
  have "distinct (map ir_IfIndex (iv_Interfaces snap))" "list_all (\<lambda>r. ir_PhysAddress r = []) (iv_Interfaces snap)"
    using CollectInventory_distinct [OF assms(1)] by (auto simp: list_all_iff)
  then show ?thesis using assms(2,3) by (auto simp: report_ok_def rec_ok_def in_range_def list_all_iff wire_snapshot_def wire_interface_def comp_def)
qed

text \<open>
  C9. From the agent to the table: a report of the generic connector whose values fit the columns is written whole, however the indexes moved since the last sync; the present rows are then
  exactly the indexes the agent lists.
\<close>

theorem generic_sync_writes:
  assumes "CollectInventory ag = Inr snap" "list_all in_range (iv_Interfaces snap)" "mac_text aenv [] \<noteq> None"
    and "rows_ok rows" "walks denv" "fresh_ids aenv rows"
  shows "\<exists>rows'. sync_rows denv aenv dev (wire_snapshot snap adjs) tm rows = Some rows' \<and> rows_ok rows' \<and>
    mset (map if_view (present_rows rows')) = mset (map (\<lambda>i. stored aenv (wire_interface i)) (iv_Interfaces snap))"
proof -
  obtain rows' where "sync_rows denv aenv dev (wire_snapshot snap adjs) tm rows = Some rows'" "rows_ok rows'"
    "mset (map if_view (present_rows rows')) = mset (map (stored aenv) (ss_Interfaces (wire_snapshot snap adjs)))"
    using sync_rows_report [OF assms(4-6) generic_report_ok [OF assms(1-3)]] by blast
  then show ?thesis by (auto simp: wire_snapshot_def comp_def)
qed

text \<open>A port whose name and description differ.\<close>

definition demo_record :: "string \<Rightarrow> InterfaceRecord" where
  "demo_record name = (new_record 1)\<lparr>ir_Name := name, ir_Descr := ''GigabitEthernet0/1''\<rparr>"

lemma demo_report: "CollectInventory demo_inventory_agent = Inr (empty_snapshot\<lparr>iv_Interfaces := [demo_record ''Gi0/1'']\<rparr>)"
  by code_simp

theorem generic_sync_writes_witness:
  "\<exists>rows'. sync_rows demo_diff demo_apply demo_dev (wire_snapshot (empty_snapshot\<lparr>iv_Interfaces := [demo_record ''Gi0/1'']\<rparr>) []) 0
      [demo_row ''x'' 1 ''a'', demo_row ''y'' 2 ''b''] = Some rows' \<and> rows_ok rows' \<and>
    mset (map if_view (present_rows rows')) = mset (map (\<lambda>i. stored demo_apply (wire_interface i)) [demo_record ''Gi0/1''])"
proof -
  have "list_all in_range (iv_Interfaces (empty_snapshot\<lparr>iv_Interfaces := [demo_record ''Gi0/1'']\<rparr>))"
    by (simp add: in_range_def demo_record_def new_record_def int4_def)
  moreover have "mac_text demo_apply [] \<noteq> None" by (simp add: mac_text_def demo_apply_def)
  ultimately show ?thesis using generic_sync_writes [OF demo_report _ _ demo_ok(1-3), of demo_dev "[]" 0] by simp
qed

subsection \<open>A failed walk of the second table\<close>








lemma existing_new [simp]: "existing (map (\<lambda>x. \<lparr>up_ExistingID = [], up_Rec = f x\<rparr>) xs) = []"
  by (induction xs) simp_all






end
