(* ===== verification/Flow_Geo.thy ===== *)
theory Flow_Geo
  imports Net_Text Errx "HOL-Library.Char_ord" "HOL-Library.List_Lexorder"
begin

unbundle bit_operations_syntax

text \<open>
  Enrichment of flow addresses with AS number, AS name and country (\<open>internal/flow/geo/geo.go\<close>): two tables of address ranges are read from files,
  sorted, searched by bisection, and replaced when the files change.

  The file system is a parameter: what is there, and the lines of a file, decompressed, or an error.

  Shown: an answer of the search is always the value of a range that holds the address; on ranges that do not overlap, which the files promise, the search finds
  exactly what a scan of the whole table would, for both families by one argument; a failed reload keeps what was loaded and is tried again.
\<close>

subsection \<open>Bisection\<close>

text \<open>\<open>sort.Search\<close> on the indexes from \<open>i\<close> below \<open>j\<close>.\<close>

function search :: "(nat \<Rightarrow> bool) \<Rightarrow> nat \<Rightarrow> nat \<Rightarrow> nat" where
  "search f i j = (if i < j then (let h = (i + j) div 2 in if \<not> f h then search f (h + 1) j else search f i h) else i)"
  by pat_completeness auto
termination
  by (relation "measure (\<lambda>(f, i, j). j - i)") auto

declare search.simps [simp del]

definition sort_Search :: "nat \<Rightarrow> (nat \<Rightarrow> bool) \<Rightarrow> nat" where
  "sort_Search n f = search f 0 n"

subsection \<open>Tables\<close>

record v4Range =
  r4_start :: u32
  r4_end :: u32
  r4_val :: u32

record v6Range =
  r6_startHi :: "64 word"
  r6_startLo :: "64 word"
  r6_endHi :: "64 word"
  r6_endLo :: "64 word"
  r6_val :: u32

record geo_table =
  gt_v4 :: "v4Range list"
  gt_v6 :: "v6Range list"

definition table_len :: "geo_table \<Rightarrow> nat" where
  "table_len t = length (gt_v4 t) + length (gt_v6 t)"

definition split128 :: "128 word \<Rightarrow> 64 word \<times> 64 word" where
  "split128 w = (ucast (drop_bit 64 w), ucast w)"

text \<open>\<open>Addr.Less\<close> and \<open>Addr.Unmap\<close> on addresses with zones.\<close>

definition zaddr_less :: "zaddr \<Rightarrow> zaddr \<Rightarrow> bool" where
  "zaddr_less a b \<longleftrightarrow> addr_compare (fst a) (fst b) = - 1 \<or> addr_compare (fst a) (fst b) = 0 \<and> addr_is6 (fst a) \<and> snd a < snd b"

definition zaddr_unmap :: "zaddr \<Rightarrow> zaddr" where
  "zaddr_unmap a = (addr_unmap (fst a), if addr_unmap (fst a) = fst a then snd a else [])"

definition table_add :: "zaddr \<Rightarrow> zaddr \<Rightarrow> u32 \<Rightarrow> geo_table \<Rightarrow> bool \<times> geo_table" where
  "table_add start stop val t =
     (let s = zaddr_unmap start; e = zaddr_unmap stop in
      if zaddr_less e s then (False, t)
      else case (fst s, fst e) of
          (Addr4 a, Addr4 b) \<Rightarrow> (True, t\<lparr>gt_v4 := gt_v4 t @ [\<lparr>r4_start = a, r4_end = b, r4_val = val\<rparr>]\<rparr>)
        | (Addr6 a, Addr6 b) \<Rightarrow>
            (True, t\<lparr>gt_v6 := gt_v6 t @ [\<lparr>r6_startHi = fst (split128 a), r6_startLo = snd (split128 a), r6_endHi = fst (split128 b), r6_endLo = snd (split128 b), r6_val = val\<rparr>]\<rparr>)
        | _ \<Rightarrow> (False, t))"

definition key6 :: "64 word \<Rightarrow> 64 word \<Rightarrow> nat" where
  "key6 h l = unat h * 2 ^ 64 + unat l"

text \<open>Sorting by the start of a range, for IPv6 the high and then the low half; ranges with one start come in any order, here in that of the file.\<close>

definition table_sort :: "geo_table \<Rightarrow> geo_table" where
  "table_sort t = t\<lparr>gt_v4 := sort_key r4_start (gt_v4 t), gt_v6 := sort_key (\<lambda>r. key6 (r6_startHi r) (r6_startLo r)) (gt_v6 t)\<rparr>"

definition find4 :: "v4Range list \<Rightarrow> u32 \<Rightarrow> u32 option" where
  "find4 rs x = (let i = sort_Search (length rs) (\<lambda>i. x < r4_start (rs ! i)) in
     if 0 < i \<and> x \<le> r4_end (rs ! (i - 1)) then Some (r4_val (rs ! (i - 1))) else None)"

definition find6 :: "v6Range list \<Rightarrow> 64 word \<Rightarrow> 64 word \<Rightarrow> u32 option" where
  "find6 rs h l = (let i = sort_Search (length rs) (\<lambda>i. h < r6_startHi (rs ! i) \<or> r6_startHi (rs ! i) = h \<and> l < r6_startLo (rs ! i)) in
     if i = 0 then None
     else let r = rs ! (i - 1) in if h < r6_endHi r \<or> h = r6_endHi r \<and> l \<le> r6_endLo r then Some (r6_val r) else None)"

definition table_find :: "geo_table \<Rightarrow> Addr \<Rightarrow> u32 option" where
  "table_find t a = (case addr_unmap a of Addr4 x \<Rightarrow> find4 (gt_v4 t) x | Addr6 w \<Rightarrow> find6 (gt_v6 t) (fst (split128 w)) (snd (split128 w)) | AddrZero \<Rightarrow> None)"

subsection \<open>The database\<close>

record geo_info =
  gi_ASN :: u32
  gi_ASName :: string
  gi_Country :: string

record geo_DB =
  gd_asn :: geo_table
  gd_country :: geo_table
  gd_asNames :: "(u32, string) gomap"
  gd_asCountry :: "(u32, u32) gomap"
  gd_SkippedASN :: nat
  gd_SkippedCountry :: nat

definition empty_DB :: geo_DB where
  "empty_DB = \<lparr>gd_asn = \<lparr>gt_v4 = [], gt_v6 = []\<rparr>, gd_country = \<lparr>gt_v4 = [], gt_v6 = []\<rparr>, gd_asNames = [], gd_asCountry = [], gd_SkippedASN = 0, gd_SkippedCountry = 0\<rparr>"

definition is_alpha :: "char \<Rightarrow> bool" where
  "is_alpha c \<longleftrightarrow> (let n = (of_char c :: nat) in 65 \<le> n \<and> n \<le> 90 \<or> 97 \<le> n \<and> n \<le> 122)"

definition upper_char :: "char \<Rightarrow> char" where
  "upper_char c = (let n = (of_char c :: nat) in if 97 \<le> n \<and> n \<le> 122 then char_of (n - 32) else c)"

definition packCC :: "string \<Rightarrow> u32 option" where
  "packCC s = (case s of
     [a, b] \<Rightarrow> if \<not> is_alpha a \<or> \<not> is_alpha b then None
       else let a = upper_char a; b = upper_char b in
         if [a, b] = ''ZZ'' then None else Some (push_bit 8 (word_of_nat (of_char a)) OR word_of_nat (of_char b))
   | _ \<Rightarrow> None)"

definition unpackCC :: "u32 \<Rightarrow> string" where
  "unpackCC v = (if v = 0 then [] else [byte_char (ucast (drop_bit 8 v)), byte_char (ucast v)])"

text \<open>A nil database answers with nothing.\<close>

definition geo_ASName :: "geo_DB option \<Rightarrow> u32 \<Rightarrow> string" where
  "geo_ASName d asn = (case d of None \<Rightarrow> [] | Some d \<Rightarrow> if asn = 0 then [] else case map_of (gd_asNames d) asn of Some n \<Rightarrow> n | None \<Rightarrow> [])"

definition geo_Lookup :: "geo_DB option \<Rightarrow> Addr \<Rightarrow> geo_info" where
  "geo_Lookup d a = (let none = \<lparr>gi_ASN = 0, gi_ASName = [], gi_Country = []\<rparr> in
     case d of None \<Rightarrow> none
     | Some d \<Rightarrow> if \<not> addr_valid a then none
         else
           let info = (case table_find (gd_asn d) a of None \<Rightarrow> none
             | Some asn \<Rightarrow> \<lparr>gi_ASN = asn, gi_ASName = (case map_of (gd_asNames d) asn of Some n \<Rightarrow> n | None \<Rightarrow> []),
                 gi_Country = (case map_of (gd_asCountry d) asn of Some cc \<Rightarrow> unpackCC cc | None \<Rightarrow> [])\<rparr>)
           in case table_find (gd_country d) a of Some cc \<Rightarrow> info\<lparr>gi_Country := unpackCC cc\<rparr> | None \<Rightarrow> info)"

subsection \<open>Loading\<close>

text \<open>The length of the code point a text starts with, 0 if its bytes are not valid UTF-8.\<close>

definition cont_byte :: "char \<Rightarrow> bool" where
  "cont_byte c \<longleftrightarrow> (let n = (of_char c :: nat) in 128 \<le> n \<and> n \<le> 191)"

definition utf8_rune_len :: "string \<Rightarrow> nat" where
  "utf8_rune_len s = (case s of [] \<Rightarrow> 0
     | a # r \<Rightarrow> let n = (of_char a :: nat) in
         if n < 128 then 1
         else if 194 \<le> n \<and> n \<le> 223 then (case r of b # _ \<Rightarrow> if cont_byte b then 2 else 0 | _ \<Rightarrow> 0)
         else if 224 \<le> n \<and> n \<le> 239 then
           (case r of b # c # _ \<Rightarrow> if cont_byte b \<and> cont_byte c \<and> (n = 224 \<longrightarrow> 160 \<le> (of_char b :: nat)) \<and> (n = 237 \<longrightarrow> (of_char b :: nat) \<le> 159) then 3 else 0 | _ \<Rightarrow> 0)
         else if 240 \<le> n \<and> n \<le> 244 then
           (case r of b # c # d # _ \<Rightarrow> if cont_byte b \<and> cont_byte c \<and> cont_byte d \<and> (n = 240 \<longrightarrow> 144 \<le> (of_char b :: nat)) \<and> (n = 244 \<longrightarrow> (of_char b :: nat) \<le> 143) then 4 else 0 | _ \<Rightarrow> 0)
         else 0)"

text \<open>\<open>strings.ToValidUTF8\<close> with an empty replacement.\<close>

function ToValidUTF8 :: "string \<Rightarrow> string" where
  "ToValidUTF8 s = (case s of [] \<Rightarrow> [] | c # r \<Rightarrow> if utf8_rune_len s = 0 then ToValidUTF8 r else take (utf8_rune_len s) s @ ToValidUTF8 (drop (utf8_rune_len s) s))"
  by pat_completeness auto
termination
  by (relation "measure length") (auto simp: less_Suc_eq_le)

declare ToValidUTF8.simps [simp del]

definition clean_name :: "string \<Rightarrow> string" where
  "clean_name s = (let s = ToValidUTF8 (TrimSpace s) in if 96 < length s then ToValidUTF8 (take 96 s) else s)"

text \<open>\<open>strconv.ParseUint(s, 10, 32)\<close>.\<close>

definition ParseUint32 :: "string \<Rightarrow> u32 option" where
  "ParseUint32 s = (if s = [] \<or> \<not> list_all is_digit s \<or> 2 ^ 32 \<le> str_nat s then None else Some (word_of_nat (str_nat s)))"

text \<open>\<open>SplitN\<close> with five parts: the last one keeps its tabs.\<close>

definition tab_fields :: "string \<Rightarrow> string list" where
  "tab_fields s = (let ps = split_on (CHR 0x09) [] s in
     if length ps \<le> 5 then ps else take 4 ps @ [concat (ps ! 4 # map (\<lambda>p. CHR 0x09 # p) (drop 5 ps))])"

text \<open>A line is kept or not, and valid or not.\<close>

definition addASN :: "string \<Rightarrow> geo_DB \<Rightarrow> (bool \<times> bool) \<times> geo_DB" where
  "addASN line d = (case tab_fields line of
     [f0, f1, f2, f3, f4] \<Rightarrow>
       (case (ParseAddr f0, ParseAddr f1, ParseUint32 f2) of
          (Some start, Some stop, Some asn) \<Rightarrow>
            if asn = 0 then ((False, True), d)
            else (case table_add start stop asn (gd_asn d) of
                (False, _) \<Rightarrow> ((False, False), d)
              | (True, t) \<Rightarrow>
                  let d = d\<lparr>gd_asn := t\<rparr> in
                  ((True, True),
                   if map_of (gd_asNames d) asn \<noteq> None then d
                   else d\<lparr>gd_asNames := AList.update asn (clean_name f4) (gd_asNames d),
                          gd_asCountry := (case packCC f3 of Some cc \<Rightarrow> AList.update asn cc (gd_asCountry d) | None \<Rightarrow> gd_asCountry d)\<rparr>))
        | _ \<Rightarrow> ((False, False), d))
   | _ \<Rightarrow> ((False, False), d))"

definition addCountry :: "string \<Rightarrow> geo_DB \<Rightarrow> (bool \<times> bool) \<times> geo_DB" where
  "addCountry line d = (case split_on (CHR '','') [] line of
     [f0, f1, f2] \<Rightarrow>
       (case (ParseAddr f0, ParseAddr f1) of
          (Some start, Some stop) \<Rightarrow>
            (case packCC f2 of None \<Rightarrow> ((False, length f2 = 2), d)
             | Some cc \<Rightarrow> (case table_add start stop cc (gd_country d) of (False, _) \<Rightarrow> ((False, False), d) | (True, t) \<Rightarrow> ((True, True), d\<lparr>gd_country := t\<rparr>)))
        | _ \<Rightarrow> ((False, False), d))
   | _ \<Rightarrow> ((False, False), d))"

definition trim_cr :: "string \<Rightarrow> string" where
  "trim_cr s = rev (dropWhile (\<lambda>c. c = CHR 0x0D) (rev s))"

primrec read_lines :: "(string \<Rightarrow> geo_DB \<Rightarrow> (bool \<times> bool) \<times> geo_DB) \<Rightarrow> string list \<Rightarrow> nat \<times> nat \<times> geo_DB \<Rightarrow> nat \<times> nat \<times> geo_DB" where
  "read_lines add [] r = r"
| "read_lines add (raw # ls) r = (case r of (kept, skipped, d) \<Rightarrow>
     let line = trim_cr raw in
     if line = [] \<or> hd line = CHR ''#'' then read_lines add ls r
     else (case add line d of ((k, valid), d) \<Rightarrow> read_lines add ls (if k then (kept + 1, skipped, d) else if \<not> valid then (kept, skipped + 1, d) else (kept, skipped, d))))"

record geo_fs =
  gf_stat :: "string \<Rightarrow> (int \<times> int) option"
  gf_lines :: "string \<Rightarrow> goerr + string list"

definition ASNFile :: string where "ASNFile = ''ip2asn-combined.tsv''"

definition CountryFile :: string where "CountryFile = ''dbip-country-lite.csv''"

definition find_file :: "geo_fs \<Rightarrow> string \<Rightarrow> string option" where
  "find_file fs name = (if gf_stat fs (name @ ''.gz'') \<noteq> None then Some (name @ ''.gz'') else if gf_stat fs name \<noteq> None then Some name else None)"

definition readFile :: "geo_fs \<Rightarrow> string \<Rightarrow> (string \<Rightarrow> geo_DB \<Rightarrow> (bool \<times> bool) \<times> geo_DB) \<Rightarrow> geo_DB \<Rightarrow> goerr + nat \<times> nat \<times> geo_DB" where
  "readFile fs path add d = (case gf_lines fs path of Inl e \<Rightarrow> Inl (ErrMsg ''geo'' e) | Inr ls \<Rightarrow> Inr (read_lines add ls (0, 0, d)))"

definition load_file :: "geo_fs \<Rightarrow> string \<Rightarrow> (string \<Rightarrow> geo_DB \<Rightarrow> (bool \<times> bool) \<times> geo_DB) \<Rightarrow> (nat \<Rightarrow> geo_DB \<Rightarrow> geo_DB) \<Rightarrow> geo_DB \<Rightarrow> goerr + geo_DB" where
  "load_file fs name add note_skipped d = (case find_file fs name of None \<Rightarrow> Inr d
     | Some p \<Rightarrow> (case readFile fs p add d of Inl e \<Rightarrow> Inl e
         | Inr (n, skipped, d) \<Rightarrow> if n = 0 then Inl (ErrLeaf (''geo: '' @ p @ '' holds no valid range'')) else Inr (note_skipped skipped d)))"

definition Load :: "geo_fs \<Rightarrow> goerr + geo_DB" where
  "Load fs = (case load_file fs ASNFile addASN (\<lambda>n d. d\<lparr>gd_SkippedASN := n\<rparr>) empty_DB of Inl e \<Rightarrow> Inl e
     | Inr d \<Rightarrow> (case load_file fs CountryFile addCountry (\<lambda>n d. d\<lparr>gd_SkippedCountry := n\<rparr>) d of Inl e \<Rightarrow> Inl e
         | Inr d \<Rightarrow> Inr (d\<lparr>gd_asn := table_sort (gd_asn d), gd_country := table_sort (gd_country d)\<rparr>)))"

text \<open>The files present with size and time of change.\<close>

definition signature :: "geo_fs \<Rightarrow> (string \<times> int \<times> int) list" where
  "signature fs = List.map_filter (\<lambda>name. case find_file fs name of None \<Rightarrow> None | Some p \<Rightarrow> map_option (\<lambda>(size, mtime). (p, size, mtime)) (gf_stat fs p)) [ASNFile, CountryFile]"

text \<open>One round of the watcher: the files as they are when the signature is taken and when they are loaded. No signature was seen at the start.\<close>

record geo_watch =
  gw_last :: "(string \<times> int \<times> int) list option"
  gw_db :: "geo_DB option"

definition Watch_round :: "geo_fs \<times> geo_fs \<Rightarrow> geo_watch \<Rightarrow> geo_watch" where
  "Watch_round fs w = (let sig = signature (fst fs) in
     if gw_last w = Some sig then w
     else case Load (snd fs) of Inl e \<Rightarrow> w | Inr db \<Rightarrow> \<lparr>gw_last = Some sig, gw_db = Some db\<rparr>)"

subsection \<open>The search finds what a scan would\<close>

text \<open>Whatever the predicate: the result is in bounds, the predicate fails right before it and holds at it.\<close>

lemma search_edges:
  assumes "i \<le> j" "0 < i \<longrightarrow> \<not> f (i - 1)" "j < n \<longrightarrow> f j"
  shows "i \<le> search f i j \<and> search f i j \<le> j \<and> (0 < search f i j \<longrightarrow> \<not> f (search f i j - 1)) \<and> (search f i j < n \<longrightarrow> f (search f i j))"
  using assms
proof (induction f i j rule: search.induct)
  case (1 f i j)
  show ?case
  proof (cases "i < j")
    case True
    let ?h = "(i + j) div 2"
    have h: "i \<le> ?h" "?h < j" using True by auto
    show ?thesis
    proof (cases "f ?h")
      case f: True
      then have eq: "search f i j = search f i ?h" using True by (simp add: search.simps [of f i j])
      from 1(2) [OF True refl] f h(1) 1(4) have "i \<le> search f i ?h \<and> search f i ?h \<le> ?h \<and> (0 < search f i ?h \<longrightarrow> \<not> f (search f i ?h - 1)) \<and> (search f i ?h < n \<longrightarrow> f (search f i ?h))"
        by blast
      then show ?thesis unfolding eq using h by linarith
    next
      case f: False
      then have eq: "search f i j = search f (?h + 1) j" using True by (simp add: search.simps [of f i j])
      have "0 < ?h + 1 \<longrightarrow> \<not> f (?h + 1 - 1)" using f by simp
      with 1(1) [OF True refl f] h(2) 1(5)
      have "?h + 1 \<le> search f (?h + 1) j \<and> search f (?h + 1) j \<le> j \<and> (0 < search f (?h + 1) j \<longrightarrow> \<not> f (search f (?h + 1) j - 1)) \<and> (search f (?h + 1) j < n \<longrightarrow> f (search f (?h + 1) j))"
        by linarith
      then show ?thesis unfolding eq using h(1) by linarith
    qed
  next
    case False
    with 1(3-5) show ?thesis by (simp add: search.simps [of f j j])
  qed
qed

lemma sort_Search_edges:
  "i = sort_Search n f \<Longrightarrow> i \<le> n \<and> (0 < i \<longrightarrow> \<not> f (i - 1)) \<and> (i < n \<longrightarrow> f i)"
  using search_edges [of 0 n f n] by (simp add: sort_Search_def)

text \<open>Ranges in order of their start, none empty, no two of which meet.\<close>

definition apart :: "('r \<Rightarrow> 'k::linorder) \<Rightarrow> ('r \<Rightarrow> 'k) \<Rightarrow> 'r list \<Rightarrow> bool" where
  "apart lo hi rs \<longleftrightarrow> list_all (\<lambda>r. list_all (\<lambda>q. r = q \<or> hi r < lo q \<or> hi q < lo r) rs) rs"

definition tidy :: "('r \<Rightarrow> 'k::linorder) \<Rightarrow> ('r \<Rightarrow> 'k) \<Rightarrow> 'r list \<Rightarrow> bool" where
  "tidy lo hi rs \<longleftrightarrow> sorted (map lo rs) \<and> list_all (\<lambda>r. lo r \<le> hi r) rs \<and> apart lo hi rs"

text \<open>Ranges with keys in a linear order, and a table of them: an interface both families provide.\<close>

locale range_table =
  fixes lo :: "'r \<Rightarrow> 'k::linorder" and hi :: "'r \<Rightarrow> 'k"
begin

lemma search_sound:
  assumes "i = sort_Search (length rs) (\<lambda>i. x < lo (rs ! i))" "0 < i"
  shows "rs ! (i - 1) \<in> set rs \<and> lo (rs ! (i - 1)) \<le> x"
  using sort_Search_edges [OF assms(1)] assms(2) by (auto simp: not_less intro!: nth_mem)

lemma search_complete:
  assumes "tidy lo hi rs" "r \<in> set rs" "lo r \<le> x" "x \<le> hi r" and i: "i = sort_Search (length rs) (\<lambda>i. x < lo (rs ! i))"
  shows "0 < i \<and> rs ! (i - 1) = r"
proof -
  have srt: "sorted (map lo rs)" using assms(1) by (simp add: tidy_def)
  note edges = sort_Search_edges [OF i]
  obtain k where k: "k < length rs" "rs ! k = r" using assms(2) by (auto simp: in_set_conv_nth)
  have "k < i"
  proof (rule ccontr)
    assume "\<not> k < i"
    then have "lo (rs ! i) \<le> lo (rs ! k)" "i < length rs" using srt k(1) sorted_nth_mono [of "map lo rs" i k] by auto
    with edges k(2) assms(3) show False by auto
  qed
  then have q: "rs ! (i - 1) \<in> set rs" "lo (rs ! (i - 1)) \<le> x" using search_sound [OF i] by auto
  have "lo r \<le> lo (rs ! (i - 1))" using \<open>k < i\<close> edges srt sorted_nth_mono [of "map lo rs" k "i - 1"] k by auto
  then have "\<not> (hi r < lo (rs ! (i - 1)) \<or> hi (rs ! (i - 1)) < lo r)" using q assms(1,4) unfolding tidy_def apart_def list_all_iff by (meson dual_order.trans leD)
  with \<open>k < i\<close> q(1) assms(1,2) show ?thesis unfolding tidy_def apart_def list_all_iff by auto
qed

end

interpretation v4: range_table r4_start r4_end .

definition lo6 :: "v6Range \<Rightarrow> nat" where "lo6 r = key6 (r6_startHi r) (r6_startLo r)"

definition hi6 :: "v6Range \<Rightarrow> nat" where "hi6 r = key6 (r6_endHi r) (r6_endLo r)"

interpretation v6: range_table lo6 hi6 .

lemma key6_less: "key6 a b < key6 c d \<longleftrightarrow> a < c \<or> a = c \<and> b < d"
proof -
  have lt: "unat b < 2 ^ 64" "unat d < 2 ^ 64" using unsigned_less [of b] unsigned_less [of d] by simp_all
  consider "unat a < unat c" | "unat a = unat c" | "unat c < unat a" by linarith
  then show ?thesis
  proof cases
    case 1
    then have "(unat a + 1) * 2 ^ 64 \<le> unat c * 2 ^ 64" by simp
    with 1 lt show ?thesis by (simp add: key6_def word_less_nat_alt)
  next
    case 2
    then show ?thesis by (simp add: key6_def word_less_nat_alt word_unat_eq_iff)
  next
    case 3
    then have "(unat c + 1) * 2 ^ 64 \<le> unat a * 2 ^ 64" by simp
    with 3 lt show ?thesis by (simp add: key6_def word_less_nat_alt) (metis less_not_sym word_unat_eq_iff)
  qed
qed

lemma key6_inject: "key6 a b = key6 c d \<longleftrightarrow> a = c \<and> b = d"
  using key6_less [of a b c d] key6_less [of c d a b] by (metis less_linear less_irrefl)

lemma key6_le: "key6 a b \<le> key6 c d \<longleftrightarrow> a < c \<or> a = c \<and> b \<le> d"
  using key6_less [of c d a b] by (metis leD leI less_linear order.strict_iff_not)

lemma find6_keys: "find6 rs h l = (let i = sort_Search (length rs) (\<lambda>i. key6 h l < lo6 (rs ! i)) in
     if 0 < i \<and> key6 h l \<le> hi6 (rs ! (i - 1)) then Some (r6_val (rs ! (i - 1))) else None)"
proof -
  have "(\<lambda>i. h < r6_startHi (rs ! i) \<or> r6_startHi (rs ! i) = h \<and> l < r6_startLo (rs ! i)) = (\<lambda>i. key6 h l < lo6 (rs ! i))"
    by (auto simp: fun_eq_iff lo6_def key6_less)
  then show ?thesis by (simp add: find6_def hi6_def key6_le Let_def)
qed

text \<open>The scan the search stands for: the value of the first range that holds the key.\<close>

definition scan :: "('r \<Rightarrow> 'k::linorder) \<Rightarrow> ('r \<Rightarrow> 'k) \<Rightarrow> ('r \<Rightarrow> u32) \<Rightarrow> 'r list \<Rightarrow> 'k \<Rightarrow> u32 option" where
  "scan lo hi val rs x = map_option val (find (\<lambda>r. lo r \<le> x \<and> x \<le> hi r) rs)"

context range_table
begin

definition bisect :: "('r \<Rightarrow> u32) \<Rightarrow> 'r list \<Rightarrow> 'k \<Rightarrow> u32 option" where
  "bisect val rs x = (let i = sort_Search (length rs) (\<lambda>i. x < lo (rs ! i)) in if 0 < i \<and> x \<le> hi (rs ! (i - 1)) then Some (val (rs ! (i - 1))) else None)"

lemma bisect_sound: "bisect val rs x = Some v \<Longrightarrow> \<exists>r \<in> set rs. lo r \<le> x \<and> x \<le> hi r \<and> val r = v"
  using search_sound [OF refl, of rs x] by (auto simp: bisect_def Let_def split: if_splits)

lemma bisect_scan:
  assumes "tidy lo hi rs"
  shows "bisect val rs x = scan lo hi val rs x"
proof (cases "find (\<lambda>r. lo r \<le> x \<and> x \<le> hi r) rs")
  case None
  then have "\<not> (\<exists>r \<in> set rs. lo r \<le> x \<and> x \<le> hi r)" by (auto simp: find_None_iff)
  with bisect_sound [of val rs x] None show ?thesis by (cases "bisect val rs x") (auto simp: scan_def)
next
  case (Some r)
  then have r: "r \<in> set rs" "lo r \<le> x" "x \<le> hi r" by (auto simp: find_Some_iff)
  from search_complete [OF assms r refl] Some r show ?thesis by (simp add: bisect_def scan_def Let_def)
qed

end

lemma find4_bisect: "find4 rs x = v4.bisect r4_val rs x"
  by (simp add: find4_def v4.bisect_def)

lemma find6_bisect: "find6 rs h l = v6.bisect r6_val rs (key6 h l)"
  by (simp add: find6_keys v6.bisect_def)

text \<open>The key of an address in the table of its family.\<close>

lemma key6_split: "key6 (fst (split128 w)) (snd (split128 w)) = unat w"
proof -
  have "unat w < 2 ^ 128" using unsigned_less [of w] by simp
  then have "unat w div 2 ^ 64 < 2 ^ 64" by (simp add: less_mult_imp_div_less)
  moreover have "unat (drop_bit 64 w) = unat w div 2 ^ 64" using unat_drop_bit_eq [of 64 w] drop_bit_eq_div [of 64 "unat w"] by simp
  then have "unat (ucast (drop_bit 64 w) :: 64 word) = unat w div 2 ^ 64 mod 2 ^ 64" "unat (ucast w :: 64 word) = unat w mod 2 ^ 64"
    by (simp_all only: unsigned_ucast_eq take_bit_eq_mod) simp_all
  ultimately show ?thesis by (simp add: key6_def split128_def)
qed

subsection \<open>What a load leaves behind\<close>

definition ranges_ok :: "geo_table \<Rightarrow> bool" where
  "ranges_ok t \<longleftrightarrow> list_all (\<lambda>r. r4_start r \<le> r4_end r) (gt_v4 t) \<and> list_all (\<lambda>r. lo6 r \<le> hi6 r) (gt_v6 t)"

lemma table_add_ok: "table_add s e val t = (ok, t') \<Longrightarrow> ranges_ok t \<Longrightarrow> ranges_ok t'"
  by (auto simp: table_add_def Let_def ranges_ok_def zaddr_less_def addr_compare_def lo6_def hi6_def key6_split word_le_nat_alt [symmetric] word_le_def
      split: if_splits Addr.splits prod.splits)

definition db_ok :: "geo_DB \<Rightarrow> bool" where
  "db_ok d \<longleftrightarrow> ranges_ok (gd_asn d) \<and> ranges_ok (gd_country d)"

lemma db_ok_skipped [simp]: "db_ok (d\<lparr>gd_SkippedASN := n\<rparr>) = db_ok d" "db_ok (d\<lparr>gd_SkippedCountry := n\<rparr>) = db_ok d"
  by (simp_all add: db_ok_def)

lemma add_lines_ok: "addASN line d = (r, d') \<Longrightarrow> db_ok d \<Longrightarrow> db_ok d'" "addCountry line d = (r, d') \<Longrightarrow> db_ok d \<Longrightarrow> db_ok d'"
  by (auto simp: addASN_def addCountry_def db_ok_def Let_def dest!: table_add_ok split: list.splits option.splits prod.splits if_splits bool.splits)

lemma read_lines_ok:
  assumes "\<And>line d r d'. add line d = (r, d') \<Longrightarrow> db_ok d \<Longrightarrow> db_ok d'" "db_ok (snd (snd r))"
  shows "db_ok (snd (snd (read_lines add ls r)))"
  using assms(2)
proof (induction ls arbitrary: r)
  case (Cons raw ls)
  obtain kept skipped d where r: "r = (kept, skipped, d)" by (metis prod_cases3)
  obtain k v d' where a: "add (trim_cr raw) d = ((k, v), d')" by (metis prod.exhaust)
  with assms(1) Cons.prems r have "db_ok d'" by fastforce
  with Cons r a show ?case by (auto simp: Let_def)
qed simp

lemma load_file_ok:
  assumes "load_file fs name add noted d = Inr d'" "\<And>line d r d'. add line d = (r, d') \<Longrightarrow> db_ok d \<Longrightarrow> db_ok d'" "\<And>n d. db_ok (noted n d) = db_ok d" "db_ok d"
  shows "db_ok d'"
proof -
  have "db_ok (snd (snd (read_lines add ls (0, 0, d))))" for ls using assms(4) by (intro read_lines_ok) (auto dest: assms(2))
  then have "db_ok d2" if "read_lines add ls (0, 0, d) = (n, k, d2)" for ls n k d2 using that by (metis snd_conv)
  then show ?thesis using assms(1,3,4) by (auto simp: load_file_def readFile_def split: option.splits sum.splits if_splits prod.splits)
qed

lemma table_sort_tidy:
  assumes "ranges_ok t"
  shows "tidy r4_start r4_end (gt_v4 (table_sort t)) \<longleftrightarrow> apart r4_start r4_end (gt_v4 (table_sort t))" "tidy lo6 hi6 (gt_v6 (table_sort t)) \<longleftrightarrow> apart lo6 hi6 (gt_v6 (table_sort t))"
  using assms by (auto simp: tidy_def table_sort_def ranges_ok_def list_all_iff lo6_def [abs_def] sorted_sort_key)

lemma Load_tables:
  assumes "Load fs = Inr d"
  shows "\<exists>t u. ranges_ok t \<and> ranges_ok u \<and> gd_asn d = table_sort t \<and> gd_country d = table_sort u"
proof -
  obtain d1 d2 where d: "load_file fs ASNFile addASN (\<lambda>n d. d\<lparr>gd_SkippedASN := n\<rparr>) empty_DB = Inr d1"
      "load_file fs CountryFile addCountry (\<lambda>n d. d\<lparr>gd_SkippedCountry := n\<rparr>) d1 = Inr d2" "d = d2\<lparr>gd_asn := table_sort (gd_asn d2), gd_country := table_sort (gd_country d2)\<rparr>"
    using assms by (auto simp: Load_def split: sum.splits)
  have "db_ok empty_DB" by (simp add: db_ok_def ranges_ok_def empty_DB_def)
  then have "db_ok d1" using add_lines_ok(1) by (intro load_file_ok [OF d(1)]) simp_all
  then have "db_ok d2" using add_lines_ok(2) by (intro load_file_ok [OF d(2)]) simp_all
  then show ?thesis using d(3) by (auto simp: db_ok_def)
qed

text \<open>
  C36. A lookup is exact: in a loaded database, if the ranges of a family do not overlap, the bisection returns for every address what a scan of all ranges would, and nothing
  where no range holds it. What it returns is the value of a range that holds the address even if ranges overlap.
\<close>

theorem geo_search_exact:
  assumes "Load fs = Inr d" "t = gd_asn d \<or> t = gd_country d"
  shows "(case addr_unmap a of
      Addr4 x \<Rightarrow> (apart r4_start r4_end (gt_v4 t) \<longrightarrow> table_find t a = scan r4_start r4_end r4_val (gt_v4 t) x) \<and>
        (\<forall>v. table_find t a = Some v \<longrightarrow> list_ex (\<lambda>r. r4_start r \<le> x \<and> x \<le> r4_end r \<and> r4_val r = v) (gt_v4 t))
    | Addr6 w \<Rightarrow> (apart lo6 hi6 (gt_v6 t) \<longrightarrow> table_find t a = scan lo6 hi6 r6_val (gt_v6 t) (unat w)) \<and>
        (\<forall>v. table_find t a = Some v \<longrightarrow> list_ex (\<lambda>r. lo6 r \<le> unat w \<and> unat w \<le> hi6 r \<and> r6_val r = v) (gt_v6 t))
    | AddrZero \<Rightarrow> table_find t a = None)"
proof -
  obtain u where u: "ranges_ok u" "t = table_sort u" using Load_tables [OF assms(1)] assms(2) by blast
  show ?thesis
    using table_sort_tidy [OF u(1)] unfolding u(2) [symmetric]
    by (auto simp: table_find_def find4_bisect find6_bisect key6_split list_ex_iff v4.bisect_scan v6.bisect_scan dest!: v4.bisect_sound v6.bisect_sound split: Addr.split)
qed

definition demo_geo_fs :: geo_fs where
  "demo_geo_fs = \<lparr>gf_stat = (\<lambda>p. if p = CountryFile then Some (80, 0) else None),
     gf_lines = (\<lambda>p. Inr [''192.0.2.0,192.0.2.255,de'', ''10.0.0.0,10.255.255.255,ZZ'', ''198.51.100.0,198.51.100.255,US''])\<rparr>"

definition demo_geo_DB :: geo_DB where
  "demo_geo_DB = empty_DB\<lparr>gd_country := \<lparr>gt_v4 = [\<lparr>r4_start = 0xC0000200, r4_end = 0xC00002FF, r4_val = 0x4445\<rparr>, \<lparr>r4_start = 0xC6336400, r4_end = 0xC63364FF, r4_val = 0x5553\<rparr>], gt_v6 = []\<rparr>\<rparr>"

lemma demo_geo_addrs:
  "ParseAddr ''192.0.2.0'' = Some (Addr4 0xC0000200, [])" "ParseAddr ''192.0.2.255'' = Some (Addr4 0xC00002FF, [])" "ParseAddr ''10.0.0.0'' = Some (Addr4 0x0A000000, [])"
  "ParseAddr ''10.255.255.255'' = Some (Addr4 0x0AFFFFFF, [])" "ParseAddr ''198.51.100.0'' = Some (Addr4 0xC6336400, [])" "ParseAddr ''198.51.100.255'' = Some (Addr4 0xC63364FF, [])"
  by (simp_all add: ParseAddr_def parseIPv4_def octets_def is_digit_def char_digit_def v4_word_def str_nat_def)

lemma demo_codes: "packCC ''de'' = Some 0x4445" "packCC ''ZZ'' = None" "packCC ''US'' = Some 0x5553"
  by code_simp+

lemma demo_geo_load: "Load demo_geo_fs = Inr demo_geo_DB"
  by (simp add: Load_def load_file_def find_file_def readFile_def demo_geo_fs_def CountryFile_def ASNFile_def trim_cr_def addCountry_def demo_geo_addrs demo_codes
      table_add_def zaddr_unmap_def zaddr_less_def addr_compare_def empty_DB_def table_sort_def demo_geo_DB_def insort_key_def)

theorem geo_search_exact_witness:
  "Load demo_geo_fs = Inr demo_geo_DB \<and> table_find (gd_country demo_geo_DB) (Addr4 0xC0000207) = Some 0x4445 \<and> unpackCC 0x4445 = ''DE''"
proof -
  have "scan r4_start r4_end r4_val (gt_v4 (gd_country demo_geo_DB)) 0xC0000207 = Some 0x4445" "apart r4_start r4_end (gt_v4 (gd_country demo_geo_DB))" "unpackCC 0x4445 = ''DE''"
    by code_simp+
  then show ?thesis using geo_search_exact [OF demo_geo_load, of "gd_country demo_geo_DB" "Addr4 0xC0000207"] demo_geo_load by simp
qed

text \<open>
  Country codes survive the packing, in upper case, and a description takes at most 96 bytes.
\<close>

lemma pack_bytes:
  fixes x y :: nat
  assumes "x < 256" "y < 256"
  shows "(ucast (drop_bit 8 (push_bit 8 (word_of_nat x) OR word_of_nat y :: u32)) :: byte) = word_of_nat x"
    "(ucast (push_bit 8 (word_of_nat x) OR word_of_nat y :: u32) :: byte) = word_of_nat y"
proof -
  have "take_bit 8 y = y" using assms(2) by (simp add: take_bit_nat_eq_self)
  then have high: "\<not> bit y (8 + n)" for n by (metis bit_take_bit_iff not_add_less1)
  show "(ucast (drop_bit 8 (push_bit 8 (word_of_nat x) OR word_of_nat y :: u32)) :: byte) = word_of_nat x"
    by (rule bit_eqI) (use high in \<open>auto simp: bit_simps\<close>)
  show "(ucast (push_bit 8 (word_of_nat x) OR word_of_nat y :: u32) :: byte) = word_of_nat y"
    by (rule bit_eqI) (auto simp: bit_simps)
qed

lemma upper_char_range: "is_alpha c \<Longrightarrow> 65 \<le> (of_char (upper_char c) :: nat) \<and> (of_char (upper_char c) :: nat) \<le> 90"
  by (auto simp: is_alpha_def upper_char_def Let_def)

theorem packCC_roundtrip:
  assumes "packCC s = Some v"
  shows "unpackCC v = map upper_char s"
proof -
  obtain a b where s: "s = [a, b]" "is_alpha a" "is_alpha b" and v: "v = push_bit 8 (word_of_nat (of_char (upper_char a))) OR word_of_nat (of_char (upper_char b))"
    using assms by (auto simp: packCC_def Let_def split: list.splits if_splits)
  have r: "(of_char (upper_char a) :: nat) < 256" "(of_char (upper_char b) :: nat) < 256" "0 < (of_char (upper_char b) :: nat)"
    using upper_char_range s(2,3) by fastforce+
  note bytes = pack_bytes [OF r(1,2), folded v]
  have same: "byte_char (word_of_nat (of_char c)) = c" if "(of_char c :: nat) < 256" for c
    using that by (simp add: byte_char_def unsigned_of_nat take_bit_nat_eq_self)
  have "(word_of_nat (of_char (upper_char b)) :: byte) \<noteq> 0" using nat_dvd_not_less [OF r(3,2)] by (simp add: word_of_nat_eq_0_iff)
  then have "v \<noteq> 0" using bytes(2) by auto
  then show ?thesis using bytes same r(1,2) s(1) by (simp add: unpackCC_def)
qed

lemma length_ToValidUTF8: "length (ToValidUTF8 s) \<le> length s"
proof (induction s rule: ToValidUTF8.induct)
  case (1 s)
  then show ?case by (subst ToValidUTF8.simps) (auto split: list.splits)
qed

lemma clean_bounded: "length (clean_name s) \<le> 96"
  using length_ToValidUTF8 [of "take 96 (ToValidUTF8 (TrimSpace s))"] by (auto simp: clean_name_def Let_def)

text \<open>The watcher never gives up what it holds, and loads again until it has what the files are.\<close>

lemma Watch_keeps: "gw_db w \<noteq> None \<Longrightarrow> gw_db (Watch_round fs w) \<noteq> None"
  by (auto simp: Watch_round_def Let_def split: sum.splits)

lemma Watch_retries: "Load (snd fs) = Inl e \<Longrightarrow> Watch_round fs w = w"
  by (simp add: Watch_round_def Let_def)

end
