(* ===== verification/Spec2Isabelle.thy ===== *)
theory Spec2Isabelle
  imports Flow_Collector IAM_Access IAM_Redis Alert_Series Leader_Lease Inventory_Resync Discovery Poller_Flow Metric_Ingest Trap_Flow Connector_Sync Flow_Geo
begin

text \<open>
  \<^bold>\<open>NetInv\<close>, a network monitoring platform written in Go (\<open>backend/\<close>), is a set of services around one
  PostgreSQL database, a metrics database, RabbitMQ and Redis: a scheduler publishes poll jobs to
  pollers at remote sites, which return metric batches; a collector receives flow exports; an alerter
  evaluates rules over the metrics; an API serves users. This development models the services' own
  logic and proves what they promise. Paths below are relative to \<open>backend/internal\<close>.

  \<^bold>\<open>Conventions.\<close> A Go function is a HOL function of the same name on its arguments and the state it
  touches; a struct is a record, a map an association list with distinct keys, a fixed-width integer a
  word where it can overflow, \<open>time.Time\<close> an integer of nanoseconds. A run-time panic is \<open>None\<close> of the
  type \<open>'a go\<close>; an error return is a value of \<open>goerr\<close> (left of a sum, or an \<open>option\<close>). A database table
  is a list of rows and a statement an atomic function on it. Code outside the repository is a
  parameter: a record of functions (\<open>iam_env\<close>, \<open>alert_env\<close>, \<open>buf_env\<close>, \<open>tick_env\<close>, \<open>redis\<close>, \<open>lock_server\<close>)
  whose members may fail, and what is assumed of them is a named predicate in the statement, shown
  satisfiable by the witness behind the theorem. \<open>NetInv_Prelude\<close> holds the Go values, \<open>Net_Addr\<close> the
  addresses of \<open>net/netip\<close>, \<open>Go_Float\<close> the rounding of \<open>float64\<close>.

  \<^bold>\<open>Flow collection\<close> (\<open>flow/\<close>).
  \<^item> \<open>Flow_Decode\<close>: records, the export clock, NetFlow v5 (\<open>decode.go\<close>). \<open>Flow_Template\<close>: the template
    cache; \<open>Flow_Fields\<close>, \<open>Flow_Data\<close>, \<open>Flow_Sets\<close>, \<open>Flow_NetFlow9\<close>: template sets, field mapping,
    splitting of data sets, sampling and times, the v9 decoder (\<open>netflow9.go\<close>). \<open>Flow_IPFIX\<close>: enterprise
    and variable-length fields, the IPFIX decoder (\<open>ipfix.go\<close>). \<open>Flow_XDR\<close>, \<open>Flow_SFlow\<close>: the XDR reader,
    sampled headers, the sFlow decoder (\<open>sflow.go\<close>). \<open>Flow_Aggregate\<close>: names, buckets, the key cap, top-N
    (\<open>aggregate.go\<close>). \<open>Flow_Collector\<close>: the datagram handler and the drain tick (\<open>collector.go\<close>).
  \<^item> Shown: no byte string makes a decoder panic, whatever the cache holds; what an exporter writes is
    what is read back; records are scaled once; the cache is bounded; the aggregate buckets of every
    dimension hold exactly what the records add up to, once for each value a record has in it; the collector counts each datagram once, drops what the allow-list does
    not name, and keeps its two stores in agreement over any interleaving.
  \<^item> \<open>Flow_Geo\<close> (\<open>geo/geo.go\<close>): the address tables of networks and countries, their files and the watcher that
    reloads them. Shown: bisection finds what a scan of the ranges finds, for both address families; codes
    survive packing; a failed reload leaves the tables in use alone.

  \<^bold>\<open>Errors and retries\<close> (\<open>platform/errx\<close>, \<open>platform/retryx\<close>): \<open>Errx\<close>, with the classification of error
  chains, the retry loop and the circuit breaker.

  \<^bold>\<open>Identity and access\<close> (\<open>iam/\<close>, \<open>platform/authz\<close>, \<open>platform/authn\<close>, \<open>platform/httpx\<close>).
  \<^item> \<open>IAM_Lockout\<close> and \<open>IAM_Redis\<close>: the two login throttles and their agreement. \<open>IAM_Auth\<close>: login, refresh
    with rotation, logout over the user and token tables. \<open>IAM_Access\<close>: accounts, roles, API tokens, the
    permission checker and the middleware.
  \<^item> Shown: a login succeeds exactly when it should; of a refresh-token family at most one token can be
    exchanged, and reuse ends the family when the stores answer (two overlapping exchanges do break this, which is stated
    too); an API token never widens its owner's rights; deactivation cuts every way in.

  \<^bold>\<open>Alerting\<close> (\<open>alerting/\<close>): \<open>Alerting\<close> models one evaluation cycle and the statements it runs; \<open>Alert_Series\<close>
  is about the identity of a series, suppression, silences and the validation of rules. Shown: after a
  pass the live alerts are the matching series; at most one live alert per series over all histories;
  what is suppressed and what is published.

  \<^bold>\<open>Inventory\<close> (\<open>inventory/\<close>): \<open>Inventory_Sync\<close> models the differ, the sync transaction and the service around
  them (\<open>app/sync.go\<close>, \<open>adapters/postgres/sync.go\<close>); \<open>Inventory_Reconcile\<close> and \<open>Inventory_Resync\<close> hold what is
  proved. Shown: nothing reported or stored is left out; the transaction cannot trip over the unique
  index it maintains, and leaves the report in the table; an interface is removed on the third sync
  without it; an unchanged device causes no changes; a result is taken over whole or not at all.

  \<^bold>\<open>Collection\<close> (\<open>collection/\<close>, \<open>platform/redisx\<close>).
  \<^item> \<open>Redis_Server\<close> and \<open>Leader_Lease\<close>: locks and the leader's lease, as a step relation of any number of
    instances. \<open>Schedule_Claims\<close>: the claim of due schedules and the credential cache. \<open>Scheduler\<close>: the
    tick. \<open>Poll_Buffer\<close>: the poller's disk buffer. \<open>Discovery_Sweep\<close>, \<open>Discovery\<close>: subnet sweeps, their rules and
    finds, the approval route. \<open>Net_Text\<close> reads addresses and prefixes. \<open>Poller_Runtime\<close>: SNMP sessions, the
    ping probe, jobs, batches and site following of a poller (\<open>pollerrt/runtime.go\<close>, \<open>icmp.go\<close>, \<open>session.go\<close>);
    \<open>Poller_Flow\<close>: its workers and tickers side by side.
  \<^item> Shown: one leader at a time, and failover; claims are spaced and oldest first; every claimed schedule
    is published or counted; no job goes to an undeclared queue; the buffer is a bounded queue and its
    replay returns. A sweep asks exactly the usable hosts; what an operator decided about a find stays
    decided, and only an approval makes a device. No interleaving in a poller, whatever the broker and the disk do,
    loses a sample but by the cap of its disk buffer, which counts, or with a file its replay cannot read, which does not; and one value JSON
    cannot encode stops it. This theory puts several schedulers on one table: no device is polled twice for one
    turn, even if two instances believe they lead; joins the scheduler's announcements, while devices
    change and messages get lost, to the poller's consumers, and a sync job on the poller to the interface table.

  \<^bold>\<open>Metrics\<close> (\<open>metrics/\<close>, \<open>platform/vmwrite\<close>): \<open>Metric_Ingest\<close> models enrichment, the writer with and without mirrors,
  and the settlement of a batch. Shown: with either writer a batch is settled, acknowledged only when the store has it
  and given up only for stated reasons; the mirroring writer, which the service uses, loses every
  batch it cannot deliver at once; mirrors do not influence collection.

  \<^bold>\<open>SNMP traps\<close> (\<open>events/\<close>): \<open>Trap_Intake\<close> models decoding, the allow-list, the rate limit per source, the queue,
  the writer and the labels of a trap (\<open>trap.go\<close>, \<open>listener.go\<close>, \<open>names.go\<close>); \<open>Trap_Flow\<close> puts sockets and writer
  side by side. Shown: every datagram is counted under exactly one heading; an accepted trap is handed over, batched
  or queued, in order, and a cancelled writer hands over what it finds; no source passes more than its rate and burst allow, up to the
  rounding of its tokens; the names a device can put into labels are bounded.
  The index label is not bounded, and a datagram read during shutdown is lost; both are stated.

  \<^bold>\<open>Generic connector\<close> (\<open>connectors/generic\<close>, \<open>connectors/sdk/walk.go\<close>): \<open>Generic_Connector\<close> models the counters
  with the repair of partial walks, speeds, inventory, neighbours and health; \<open>Generic_Polls\<close> and \<open>Connector_Sync\<close>
  hold what is proved. Shown: one sample for each series; the repair asks for a bounded number of variables;
  the report has distinct interfaces, and the sync transaction stores it; and what a failed walk of the name
  table does to the rows.

  \<^bold>\<open>Interfaces.\<close> The locale \<open>go_map\<close> is the interface of Go maps, \<open>lockout\<close> the port \<open>AuthService\<close> uses; both
  are interpreted on the model's definitions, as are the locales of the flow theories; \<open>range_table\<close> is the
  search of a sorted table of ranges, interpreted for the tables of both address families.

  \<^bold>\<open>Fuel and bounds.\<close> The decoders' loops are functions with a termination proof, by the bytes left. The
  replay of the buffer takes fuel: a round more than there are files is proved enough, and a run that
  never returns is exhibited for files that cannot be removed. The retry loop's fuel is its policy.

  \<^bold>\<open>Not modelled.\<close> Sockets, tickers, AMQP and HTTP encoding, SQL listings, password hashing, JWT signing
  and logging are calls into libraries and appear as parameters where their result matters. The
  rest of the inventory, maps, reports, the storage and querying of flows, notifications, settings, capacity
  planning and the vendor connectors are not modelled.
\<close>

section \<open>Several schedulers on one table\<close>

text \<open>
  Scheduler instances share the schedule table and nothing else; each has its own memory. A tick reads and
  writes the table in the one statement that claims, so ticks are taken in the order of their claims.
\<close>

record fleet =
  f_polls :: poll_db
  f_sched :: "nat \<Rightarrow> sched"

definition fleet_tick :: "Scheduler \<Rightarrow> nat \<times> tick_env \<Rightarrow> fleet \<Rightarrow> (string \<times> PollJob) list \<times> fleet" where
  "fleet_tick cfg x fl = (case x of (i, env) \<Rightarrow>
     let s = (f_sched fl i)\<lparr>s_polls := f_polls fl\<rparr>; s' = tick cfg env s in
     (drop (length (pubs (s_trace s))) (pubs (s_trace s')), fl\<lparr>f_polls := s_polls s', f_sched := (f_sched fl)(i := s')\<rparr>))"

primrec fleet_run :: "Scheduler \<Rightarrow> (nat \<times> tick_env) list \<Rightarrow> fleet \<Rightarrow> (string \<times> PollJob) list list" where
  "fleet_run cfg [] fl = []"
| "fleet_run cfg (x # xs) fl = (case fleet_tick cfg x fl of (jobs, fl) \<Rightarrow> jobs # fleet_run cfg xs fl)"

text \<open>The claim of a tick; a standby makes none, like a claim that fails without effect.\<close>

definition claim_of :: "Scheduler \<Rightarrow> tick_env \<Rightarrow> claim_env \<times> gotime \<times> nat" where
  "claim_of cfg env = (if k_leader env then k_claim env else (k_claim env)\<lparr>q_fault := Some (ErrLeaf [], True, False)\<rparr>, k_start env, batch_size cfg)"

definition schedule_keys :: "poll_db \<Rightarrow> (int \<times> int \<times> string \<times> string) set" where
  "schedule_keys polls = set (map (\<lambda>ps. (sr_ID ps, sr_IntervalS ps, sr_DeviceID ps, sr_Family ps)) (pdb_schedules polls))"

lemma Due_schedule_keys: "schedule_keys (snd (Due env now limit polls)) = schedule_keys polls"
proof -
  have "sr_Family (claim t j ps) = sr_Family ps" for t j ps by (simp add: claim_def)
  then have "map (\<lambda>ps. (sr_ID ps, sr_IntervalS ps, sr_DeviceID ps, sr_Family ps)) (pdb_schedules (snd (Due env now limit polls))) =
      map (\<lambda>ps. (sr_ID ps, sr_IntervalS ps, sr_DeviceID ps, sr_Family ps)) (pdb_schedules polls)"
    using Due_db [of env now limit polls] by (auto simp: comp_def)
  then show ?thesis by (simp only: schedule_keys_def)
qed

lemma dispatch_loop_polls: "dispatch_loop cfg env n ds p f s = (p', f', s') \<Longrightarrow> s_polls s' = s_polls s"
proof (induction ds arbitrary: n p f s)
  case (Cons d ds)
  have nq: "s_polls (noteSiteQueue cfg e site st s) = s_polls s" for e site st s by (simp add: noteSiteQueue_def Let_def)
  have "s_polls (snd (dispatch cfg env n d s)) = s_polls s"
    by (auto simp: dispatch_def check_queue_def Let_def nq split: option.splits sum.splits prod.splits)
  with Cons show ?case by (auto split: prod.splits bool.splits)
qed simp

lemma tick_polls: "s_polls (tick cfg env s) = snd (case claim_of cfg env of (q, now, limit) \<Rightarrow> Due q now limit (s_polls s))"
proof (cases "k_leader env")
  case True
  obtain res polls where due: "Due (k_claim env) (k_start env) (batch_size cfg) (s_polls s) = (res, polls)" by force
  with True show ?thesis
    by (auto simp: tick_def claim_of_def Let_def dest: dispatch_loop_polls split: sum.splits prod.splits)
next
  case False
  then show ?thesis by (simp add: tick_def claim_of_def Due_def Let_def)
qed

lemma list_all2_right: "list_all2 P ys xs \<Longrightarrow> x \<in> set xs \<Longrightarrow> \<exists>y \<in> set ys. P y x"
  by (induction rule: list_all2_induct) auto

lemma subseq_in: "subseq xs ys \<Longrightarrow> x \<in> set xs \<Longrightarrow> x \<in> set ys"
  by (induction rule: list_emb.induct) auto

text \<open>What a tick publishes comes from the rows its claim returned.\<close>

lemma tick_pubs:
  assumes "case claim_of cfg env of (q, now, limit) \<Rightarrow> Due q now limit (s_polls s) = (res, polls)"
  shows "\<exists>xs. pubs (s_trace (tick cfg env s)) = pubs (s_trace s) @ xs \<and>
    (\<forall>x \<in> set xs. \<exists>due d. res = Inr due \<and> d \<in> set due \<and> job_for env d x)"
proof (cases "k_leader env")
  case False
  then show ?thesis by (intro exI [of _ "[]"]) (simp add: tick_def)
next
  case True
  show ?thesis
  proof (cases res)
    case (Inl e)
    with True assms show ?thesis by (intro exI [of _ "[]"]) (simp add: tick_def claim_of_def Let_def)
  next
    case due: (Inr due)
    have d: "Due (k_claim env) (k_start env) (batch_size cfg) (s_polls s) = (Inr due, polls)" using assms True due by (simp add: claim_of_def)
    obtain p f s1 where loop: "dispatch_loop cfg env 0 due 0 0 (announce cfg env s\<lparr>s_polls := polls\<rparr>) = (p, f, s1)" by (metis prod_cases3)
    from dispatch_loop_pubs [OF loop] obtain xs sub where xs: "pubs (s_trace s1) = pubs (s_trace s) @ xs" "subseq sub due"
      "list_all2 (job_for env) sub xs" by auto
    have "pubs (s_trace (tick cfg env s)) = pubs (s_trace s) @ xs" using True d loop xs(1) by (simp add: tick_def Let_def)
    moreover have "\<exists>d \<in> set due. job_for env d x" if "x \<in> set xs" for x
      using list_all2_right [OF xs(3) that] subseq_in [OF xs(2)] by blast
    ultimately show ?thesis using due by blast
  qed
qed

lemma fleet_jobs_claimed:
  assumes "wf_polls (f_polls fl)" and "list_all (\<lambda>(i, env). order_ok (k_claim env)) xs" and "k < length xs" and "x \<in> set (fleet_run cfg xs fl ! k)"
  shows "\<exists>i. (i, j_IntervalS (snd x), j_DeviceID (snd x), j_Family (snd x)) \<in> schedule_keys (f_polls fl) \<and>
    i \<in> set (snd (claim_run (map (claim_of cfg \<circ> snd) xs) (f_polls fl) ! k)) \<and>
    j_ScheduledAt (snd x) = fst (claim_run (map (claim_of cfg \<circ> snd) xs) (f_polls fl) ! k)"
  using assms
proof (induction xs arbitrary: fl k)
  case (Cons y xs)
  obtain m env where y: "y = (m, env)" by force
  obtain q now limit where c: "claim_of cfg env = (q, now, limit)" by (metis prod_cases3)
  have now: "now = k_start env" using c by (simp add: claim_of_def)
  let ?s = "(f_sched fl m)\<lparr>s_polls := f_polls fl\<rparr>"
  obtain res polls where due: "Due q now limit (f_polls fl) = (res, polls)" by force
  have claimed: "case claim_of cfg env of (q, now, limit) \<Rightarrow> Due q now limit (s_polls ?s) = (res, polls)" using c due by simp
  from tick_pubs [OF claimed] obtain js where js: "pubs (s_trace (tick cfg env ?s)) = pubs (s_trace ?s) @ js"
    "\<forall>x \<in> set js. \<exists>due d. res = Inr due \<and> d \<in> set due \<and> job_for env d x" by blast
  define fl' where "fl' = fl\<lparr>f_polls := polls, f_sched := (f_sched fl)(m := tick cfg env ?s)\<rparr>"
  have ft: "fleet_tick cfg y fl = (js, fl')"
    using tick_polls [of cfg env ?s] c due js(1) by (simp add: fleet_tick_def y fl'_def Let_def)
  have keys: "schedule_keys polls = schedule_keys (f_polls fl)" using Due_schedule_keys [of q now limit "f_polls fl"] unfolding due by simp
  have wf: "wf_polls polls" using wf_Due [OF Cons.prems(1), of q now limit] unfolding due by simp
  have run: "claim_run (map (claim_of cfg \<circ> snd) (y # xs)) (f_polls fl) =
      (now, case res of Inl e \<Rightarrow> [] | Inr rows \<Rightarrow> map d_ScheduleID rows) # claim_run (map (claim_of cfg \<circ> snd) xs) polls"
    using c due by (simp add: y)
  show ?case
  proof (cases k)
    case 0
    with Cons.prems(4) ft have "x \<in> set js" by simp
    with js(2) obtain rows d where d: "res = Inr rows" "d \<in> set rows" "job_for env d x" by blast
    have "order_ok q" using Cons.prems(2) c y by (auto simp: claim_of_def order_ok_def)
    with d(1,2) due have "d \<in> set (List.map_filter (due_row (f_polls fl)) (filter (claimed q now limit (f_polls fl)) (pdb_schedules (f_polls fl))))"
      using order_set [of q] by (auto simp: Due_def Let_def split: option.splits)
    then obtain ps where ps: "ps \<in> set (pdb_schedules (f_polls fl))" "due_row (f_polls fl) ps = Some d" by (auto simp: List.map_filter_def)
    have "d_DeviceID d = sr_DeviceID ps" "d_Family d = sr_Family ps" "d_IntervalS d = sr_IntervalS ps" "d_ScheduleID d = sr_ID ps"
      using ps(2) by (auto simp: due_row_def device_of_def find_Some_iff split: option.splits)
    moreover have "j_DeviceID (snd x) = d_DeviceID d" "j_Family (snd x) = d_Family d" "j_IntervalS (snd x) = d_IntervalS d" "j_ScheduledAt (snd x) = now"
      using d(3) now by (auto simp: job_for_def job_of_def)
    ultimately show ?thesis unfolding run using 0 d(1,2) ps(1) by (intro exI [of _ "sr_ID ps"]) (force simp: schedule_keys_def image_iff)
  next
    case (Suc k')
    have "f_polls fl' = polls" by (simp add: fl'_def)
    with Cons.IH [of fl' k'] Cons.prems(2-4) wf ft Suc keys show ?thesis unfolding run by (simp add: comp_def)
  qed
qed simp

text \<open>
  C5. No device is polled twice for one turn: however many scheduler instances run, whether or not only one
  of them leads, and whatever fails, two jobs of one device and family published on different ticks are
  scheduled at least 95 percent of the interval apart.
\<close>

theorem no_double_poll:
  assumes "wf_polls (f_polls fl)" and "distinct (map (\<lambda>ps. (sr_DeviceID ps, sr_Family ps)) (pdb_schedules (f_polls fl)))"
    and "list_all (\<lambda>(i, env). order_ok (k_claim env) \<and> jitter_ok (intervals (f_polls fl)) (k_claim env)) xs"
    and "j < k" and "k < length xs" and "(site, job) \<in> set (fleet_run cfg xs fl ! j)" and "(site', job') \<in> set (fleet_run cfg xs fl ! k)"
    and "j_DeviceID job = j_DeviceID job'" and "j_Family job = j_Family job'"
  shows "19 * (j_IntervalS job * nanos_per_s) \<le> 20 * (j_ScheduledAt job' - j_ScheduledAt job)"
proof -
  let ?cs = "map (claim_of cfg \<circ> snd) xs"
  have ord: "list_all (\<lambda>(i, env). order_ok (k_claim env)) xs" using assms(3) by (auto simp: list_all_iff)
  have calls: "list_all (\<lambda>(q, now, limit). jitter_ok (intervals (f_polls fl)) q \<and> order_ok q) ?cs"
    using assms(3) by (fastforce simp: list_all_iff claim_of_def order_ok_def jitter_ok_def)
  from fleet_jobs_claimed [OF assms(1) ord _ assms(6)] assms(4,5) obtain i where
    i: "(i, j_IntervalS job, j_DeviceID job, j_Family job) \<in> schedule_keys (f_polls fl)" "i \<in> set (snd (claim_run ?cs (f_polls fl) ! j))"
      "j_ScheduledAt job = fst (claim_run ?cs (f_polls fl) ! j)" by auto
  from fleet_jobs_claimed [OF assms(1) ord assms(5,7)] obtain i' where
    i': "(i', j_IntervalS job', j_DeviceID job', j_Family job') \<in> schedule_keys (f_polls fl)" "i' \<in> set (snd (claim_run ?cs (f_polls fl) ! k))"
      "j_ScheduledAt job' = fst (claim_run ?cs (f_polls fl) ! k)" by auto
  have "i' = i" using i(1) i'(1) assms(2,8,9) by (auto simp: schedule_keys_def distinct_map inj_on_def)
  moreover have "(i, j_IntervalS job) \<in> intervals (f_polls fl)" using i(1) by (auto simp: schedule_keys_def intervals_def)
  ultimately show ?thesis using claims_spaced [OF assms(1) calls _ assms(4)] i i' assms(5) by simp
qed

subsection \<open>Two instances\<close>

definition one_sched :: "gotime \<Rightarrow> poll_db" where
  "one_sched next_due = demo_polls\<lparr>pdb_schedules := [demo_sched 1 next_due]\<rparr>"

definition demo_fleet :: fleet where
  "demo_fleet = \<lparr>f_polls = one_sched 5, f_sched = (\<lambda>i. run_start (one_sched 5))\<rparr>"

theorem no_double_poll_witness:
  "\<exists>job job'. (''s'', job) \<in> set (fleet_run demo_scheduler [(0, demo_tick 10 1), (1, demo_tick 70000000000 1)] demo_fleet ! 0) \<and>
     (''s'', job') \<in> set (fleet_run demo_scheduler [(0, demo_tick 10 1), (1, demo_tick 70000000000 1)] demo_fleet ! 1) \<and>
     19 * (j_IntervalS job * nanos_per_s) \<le> 20 * (j_ScheduledAt job' - j_ScheduledAt job)"
proof -
  let ?xs = "[(0 :: nat, demo_tick 10 1), (1, demo_tick 70000000000 1)]"
  define later where "later = (one_sched 60000000010)\<lparr>pdb_schedules := [(demo_sched 1 60000000010)\<lparr>sr_LastRun := Some 10\<rparr>]\<rparr>"
  define d where "d = \<lparr>d_ScheduleID = 1, d_DeviceID = ''d'', d_SiteID = ''s'', d_Family = ''icmp'', d_MgmtIP = ''192.0.2.1'', d_Port = 161,
    d_ConnectorID = ''c'', d_CredentialID = ''k'', d_IntervalS = 60, d_TimeoutMS = 2000, d_Retries = 1\<rparr>"
  have due1: "Due demo_claim 10 (Suc 0) (one_sched 5) = (Inr [d], later)"
    by (simp add: demo_polls_simps one_sched_def later_def d_def)
  have due2: "\<exists>polls. Due demo_claim 70000000000 (Suc 0) later = (Inr [d], polls)"
    by (simp add: demo_polls_simps one_sched_def later_def d_def)
  note evals = fleet_tick_def tick_def demo_tick_def demo_scheduler_def announce_def batch_size_def dispatch_def check_queue_def noteSiteQueue_def
    Let_def time_sub_def zero_time_def siteQueueRecheck_def nanos_per_min_def emit_def Resolve_cred_def demo_vault_def run_start_def
  have one: "\<exists>s cred. fleet_tick demo_scheduler (m, demo_tick t 1) \<lparr>f_polls = p, f_sched = fs\<rparr> =
      ([(''s'', job_of (demo_tick t 1) 0 d cred)], \<lparr>f_polls = p', f_sched = fs(m := s)\<rparr>)"
    if "Due demo_claim t (Suc 0) p = (Inr [d], p')" "fs m = run_start (one_sched 5)" "0 \<le> t" for m t p p' fs
    using that by (simp add: evals d_def) blast
  obtain s1 c1 where t1: "fleet_tick demo_scheduler (0, demo_tick 10 1) demo_fleet =
      ([(''s'', job_of (demo_tick 10 1) 0 d c1)], \<lparr>f_polls = later, f_sched = (f_sched demo_fleet)(0 := s1)\<rparr>)"
    using one [OF due1, of "f_sched demo_fleet" 0] by (auto simp: demo_fleet_def)
  obtain polls where "Due demo_claim 70000000000 (Suc 0) later = (Inr [d], polls)" using due2 by blast
  then obtain s2 c2 where t2: "fleet_tick demo_scheduler (1, demo_tick 70000000000 1) \<lparr>f_polls = later, f_sched = (f_sched demo_fleet)(0 := s1)\<rparr> =
      ([(''s'', job_of (demo_tick 70000000000 1) 0 d c2)], \<lparr>f_polls = polls, f_sched = ((f_sched demo_fleet)(0 := s1))(1 := s2)\<rparr>)"
    using one [of 70000000000 later polls "(f_sched demo_fleet)(0 := s1)" 1] by (auto simp: demo_fleet_def)
  have run: "fleet_run demo_scheduler ?xs demo_fleet = [[(''s'', job_of (demo_tick 10 1) 0 d c1)], [(''s'', job_of (demo_tick 70000000000 1) 0 d c2)]]"
    using t1 t2 by simp
  have wf: "wf_polls (f_polls demo_fleet)" "distinct (map (\<lambda>ps. (sr_DeviceID ps, sr_Family ps)) (pdb_schedules (f_polls demo_fleet)))"
    using demo_polls_wf by (simp_all add: demo_fleet_def one_sched_def wf_polls_def demo_polls_def demo_sched_def)
  have ok: "list_all (\<lambda>(i, env). order_ok (k_claim env) \<and> jitter_ok (intervals (f_polls demo_fleet)) (k_claim env)) ?xs"
    using demo_order by (simp add: demo_tick_def jitter_ok_def intervals_def demo_fleet_def one_sched_def demo_sched_def)
      (simp add: demo_claim_def nanos_per_s_def)
  show ?thesis
    using no_double_poll [OF wf ok, of 0 1 "''s''" "job_of (demo_tick 10 1) 0 d c1" demo_scheduler "''s''" "job_of (demo_tick 70000000000 1) 0 d c2"]
    unfolding run by (intro exI conjI) (auto simp: job_of_def)
qed

section \<open>From the scheduler's announcement to the poller's consumers\<close>

definition announcements :: "sched_event list \<Rightarrow> string list list" where
  "announcements tr = List.map_filter (\<lambda>ev. case ev of EvAnnounce ss \<Rightarrow> Some ss | _ \<Rightarrow> None) tr"

lemma announcements_simps [simp]:
  "announcements [] = []"
  "announcements (xs @ ys) = announcements xs @ announcements ys"
  "announcements (ev # tr) = (case ev of EvAnnounce ss \<Rightarrow> [ss] | _ \<Rightarrow> []) @ announcements tr"
  by (simp_all add: announcements_def map_filter_append map_filter_simps split: sched_event.split)



lemma Due_devices: "Due env now limit tb = (res, tb') \<Longrightarrow> pdb_devices tb' = pdb_devices tb"
  by (auto simp: Due_def Let_def split: option.splits prod.splits if_splits)













section \<open>From the device to the inventory\<close>

text \<open>The snapshot a sync job gets from the device, if it does.\<close>

definition collected :: "poll_env \<Rightarrow> connector \<Rightarrow> PollJob \<Rightarrow> InventorySnapshot option" where
  "collected env conn job = (case cn_CollectInventory conn of None \<Rightarrow> None
     | Some collect \<Rightarrow> (case NewSNMPSession (pe_connect env) job of Inl e \<Rightarrow> None
         | Inr sess \<Rightarrow> (case collect sess of Inl e \<Rightarrow> None | Inr snap \<Rightarrow> Some snap)))"

lemma executeSync_result:
  assumes "executeSync env pollerID conn job = (e, out)" and "MsgSync res \<in> set out"
  shows "sres_DeviceID res = j_DeviceID job \<and> (case collected env conn job of None \<Rightarrow> sres_Snapshot res = None
    | Some snap \<Rightarrow> sres_Error res = [] \<and> (\<exists>adjs. sres_Snapshot res = Some (wire_snapshot snap adjs)))"
  using assms by (auto simp: executeSync_def collected_def Let_def split: option.splits sum.splits prod.splits if_splits)

text \<open>
  C8. A sync from the device to the table: whatever the poller publishes about a sync job is about that
  job's device. If the device answered and its interfaces have distinct positive indexes, then handling the
  result either leaves everything as it was, with an error or because the device is retired, or makes
  the present interfaces of the device exactly those it reported. If it did not answer, no interface and
  no history row is touched and nothing is audited.
\<close>

theorem sync_end_to_end:
  assumes "executeSync penv pollerID conn job = (err, out)" and "MsgSync res \<in> set out"
    and "HandleResult senv res runID (Some tb) = (e, dev', au)"
    and "\<forall>x. ae_fault (sv_apply senv) \<noteq> Some (x, True)" and "\<forall>f. sv_load senv = Some f \<longrightarrow> driver_fault f"
    and "rows_ok (sy_Rows tb)" and "walks (sv_diff senv)" and "fresh_ids (sv_apply senv) (sy_Rows tb)"
  shows "sres_DeviceID res = j_DeviceID job \<and> (case collected penv conn job of
      None \<Rightarrow> au = [] \<and> (\<exists>tb'. dev' = Some tb' \<and> sy_Rows tb' = sy_Rows tb \<and> sy_History tb' = sy_History tb)
    | Some snap \<Rightarrow> report_ok (sv_apply senv) (wire_snapshot snap []) \<longrightarrow>
        dev' = Some tb \<and> au = [] \<and> (e \<noteq> None \<or> sy_Status tb = ''retired'') \<or>
        e = None \<and> (\<exists>tb'. dev' = Some tb' \<and> rows_ok (sy_Rows tb') \<and>
          mset (map if_view (present_rows (sy_Rows tb'))) = mset (map (\<lambda>i. stored (sv_apply senv) (wire_interface i)) (iv_Interfaces snap))))"
proof -
  note sent = executeSync_result [OF assms(1,2)]
  show ?thesis
  proof (cases "collected penv conn job")
    case None
    with sent have "sres_Snapshot res = None" by simp
    with assms(3) have "au = [] \<and> (\<exists>tb'. dev' = Some tb' \<and> sy_Rows tb' = sy_Rows tb \<and> sy_History tb' = sy_History tb)"
      by (auto simp: HandleResult_def RecordFailedRun_def Let_def split: option.splits if_splits prod.splits)
    with None sent show ?thesis by simp
  next
    case (Some snap)
    with sent obtain adjs where s: "sres_Error res = []" "sres_Snapshot res = Some (wire_snapshot snap adjs)" by auto
    have ifs: "ss_Interfaces (wire_snapshot snap a) = map wire_interface (iv_Interfaces snap)" for a by (simp add: wire_snapshot_def)
    have "dev' = Some tb \<and> au = [] \<and> (e \<noteq> None \<or> sy_Status tb = ''retired'') \<or>
        e = None \<and> (\<exists>tb'. dev' = Some tb' \<and> rows_ok (sy_Rows tb') \<and>
          mset (map if_view (present_rows (sy_Rows tb'))) = mset (map (\<lambda>i. stored (sv_apply senv) (wire_interface i)) (iv_Interfaces snap)))"
      if "report_ok (sv_apply senv) (wire_snapshot snap [])"
    proof -
      have ok: "report_ok (sv_apply senv) (wire_snapshot snap adjs)" using that by (simp add: report_ok_def ifs)
      have "\<exists>rows'. sync_rows (sv_diff senv) (sv_apply senv) (sy_Device tb) (wire_snapshot snap adjs) (sres_CollectedAt res) (sy_Rows tb) = Some rows' \<and> rows_ok rows' \<and>
          mset (map if_view (present_rows rows')) = mset (map (stored (sv_apply senv)) (ss_Interfaces (wire_snapshot snap adjs)))"
        by (rule sync_rows_report [OF assms(6-8) ok])
      with HandleResult_outcome [OF assms(3-5) s] show ?thesis by (auto simp: ifs o_def)
    qed
    with Some sent show ?thesis by simp
  qed
qed


definition demo_penv :: poll_env where
  "demo_penv = \<lparr>pe_ByID = (\<lambda>i. None), pe_connect = (\<lambda>g. None), pe_get = (\<lambda>ip p t c. Inr []), pe_ping = (\<lambda>ip p. Inl (ErrLeaf ''ping'')),
     pe_fl = \<lparr>fl_add = (+), fl_sub = (-), fl_div = (\<lambda>a b. a), fl_abs = id, fl_of_int = word_of_int, fl_seconds = word_of_int\<rparr>,
     pe_start = 0, pe_end = 0, pe_collected = 0, pe_probed = 0, pe_stop = None, pe_order = id, pe_marshal = (\<lambda>m. Inr []), pe_send = (\<lambda>m. Confirmed)\<rparr>"

definition demo_collected :: InventorySnapshot where
  "demo_collected = \<lparr>iv_SysName = [], iv_SysDescr = [], iv_SysObjectID = [], iv_SysLocation = [], iv_SysContact = [], iv_UptimeS = 0, iv_Vendor = [], iv_Model = [],
     iv_Serial = [], iv_OSVersion = [], iv_Interfaces = [\<lparr>ir_IfIndex = 2, ir_Name = ''a'', ir_Alias = [], ir_Descr = [], ir_IfType = 6, ir_MTU = 1500, ir_SpeedBPS = 0,
       ir_PhysAddress = [], ir_AdminStatus = 1, ir_OperStatus = 1\<rparr>]\<rparr>"

definition demo_connector :: connector where
  "demo_connector = nil_connector\<lparr>cn_CollectInventory := Some (\<lambda>sess. Inr demo_collected)\<rparr>"

definition demo_job :: PollJob where
  "demo_job = \<lparr>j_JobID = ''j'', j_DeviceID = ''d'', j_SiteID = ''s'', j_Family = ''sync'', j_Trigger = [], j_MgmtIP = ''192.0.2.1'', j_Port = 161, j_ConnectorID = ''generic'',
     j_Cred = \<lparr>sc_Version = ''v2c'', sc_Community = ''public'', sc_Username = [], sc_AuthProto = [], sc_AuthPass = [], sc_PrivProto = [], sc_PrivPass = [], sc_Context = []\<rparr>,
     j_ScheduledAt = 0, j_IntervalS = 60, j_TimeoutMS = 0, j_Retries = 0\<rparr>"

theorem sync_end_to_end_witness:
  "\<exists>err res e dev' au. executeSync demo_penv ''p'' demo_connector demo_job = (err, [MsgSync res]) \<and> HandleResult demo_sync_env res ''r'' (Some demo_db) = (e, dev', au) \<and>
     (dev' = Some demo_db \<and> e \<noteq> None \<or>
      (\<exists>tb'. dev' = Some tb' \<and> mset (map if_view (present_rows (sy_Rows tb'))) = mset (map (\<lambda>i. stored demo_apply (wire_interface i)) (iv_Interfaces demo_collected))))"
proof -
  have sess: "\<exists>g. NewSNMPSession (pe_connect demo_penv) demo_job = Inr g" by (simp add: NewSNMPSession_def demo_job_def demo_penv_def Let_def)
  then have got: "collected demo_penv demo_connector demo_job = Some demo_collected" by (auto simp: collected_def demo_connector_def)
  have "\<exists>err res. executeSync demo_penv ''p'' demo_connector demo_job = (err, [MsgSync res])"
    using sess by (auto simp: executeSync_def demo_connector_def PublishJSON_def Let_def demo_penv_def)
  then obtain err res where ex: "executeSync demo_penv ''p'' demo_connector demo_job = (err, [MsgSync res])" by blast
  obtain e dev' au where h: "HandleResult demo_sync_env res ''r'' (Some demo_db) = (e, dev', au)" by (metis prod_cases3)
  have "report_ok demo_apply (wire_snapshot demo_collected [])"
    by (simp add: report_ok_def wire_snapshot_def wire_interface_def demo_collected_def rec_ok_def int4_def mac_text_def demo_apply_def)
  moreover have sel: "sv_apply demo_sync_env = demo_apply" "sv_diff demo_sync_env = demo_diff" "sv_load demo_sync_env = None" "ae_fault demo_apply = None"
    "sy_Rows demo_db = [demo_row ''x'' 1 ''a'', demo_row ''y'' 2 ''b'']" "sy_Status demo_db = ''active''"
    by (simp_all add: demo_sync_env_def demo_apply_def demo_db_def)
  ultimately have "dev' = Some demo_db \<and> e \<noteq> None \<or>
      (\<exists>tb'. dev' = Some tb' \<and> mset (map if_view (present_rows (sy_Rows tb'))) = mset (map (\<lambda>i. stored demo_apply (wire_interface i)) (iv_Interfaces demo_collected)))"
    using sync_end_to_end [OF ex _ h] got demo_ok by (simp add: sel) blast
  with ex h show ?thesis by blast
qed

end
